(* ===== verification/Rust_Std.thy ===== *)
theory Rust_Std
  imports Main "HOL-Library.Char_ord" "HOL-Library.List_Lexorder" "HOL-Library.Signed_Division"
begin

text \<open>
  The prelude: what the sources use of the Rust language and its standard library, as HOL
  functions, and the lemmas about them that the components share.

  A Rust \<open>str\<close> is a \<^typ>\<open>string\<close>, the list of its Unicode scalar values; an Isabelle
  character holds the scalar values \<open>U+0000\<close> to \<open>U+00FF\<close>, so the model covers texts over the
  Latin-1 block, on which every predicate below (white space, letters, case) is exact. The order
  of \<^typ>\<open>string\<close> is the lexicographic one, which is the order of \<open>str\<close> (UTF-8 keeps the order
  of the scalar values). An \<open>Option\<close> is an \<open>option\<close>, a \<open>Result\<close> a sum with the error on the left,
  and a machine integer an \<^typ>\<open>int\<close> or \<^typ>\<open>nat\<close> whose checked operations answer \<^const>\<open>None\<close>
  out of range. \<open>Panic\<close> stands for an arithmetic overflow of an unchecked operator, which
  aborts where overflow checks are compiled in and wraps where they are not.
\<close>

named_theorems rust_simps \<open>rewriting rules of the modelled standard library\<close>

section \<open>Results\<close>

datatype (plugins only: code size) 'e failure = Err 'e | Panic

type_synonym ('e, 'a) res = "'e failure + 'a"

definition res_bind :: "('e, 'a) res \<Rightarrow> ('a \<Rightarrow> ('e, 'b) res) \<Rightarrow> ('e, 'b) res" where
  "res_bind r f = (case r of Inl e \<Rightarrow> Inl e | Inr x \<Rightarrow> f x)"

definition refuse :: "'e \<Rightarrow> ('e, 'a) res" where
  "refuse e = Inl (Err e)"

definition ok :: "'a \<Rightarrow> ('e, 'a) res" where
  "ok x = Inr x"

lemma res_bind_simps [simp]:
  "res_bind (Inl e) f = Inl e"
  "res_bind (Inr x) f = f x"
  "res_bind (ok x) f = f x"
  "res_bind (refuse e') f = refuse e'"
  by (simp_all add: res_bind_def ok_def refuse_def)

lemma ok_eq_simps [simp]:
  "ok x = ok y \<longleftrightarrow> x = y"
  "ok x = Inr y \<longleftrightarrow> x = y"
  "Inr y = ok x \<longleftrightarrow> y = x"
  "ok x \<noteq> refuse e"
  "refuse e \<noteq> ok x"
  "ok x \<noteq> Inl z"
  "Inl z \<noteq> ok x"
  "refuse e = refuse e' \<longleftrightarrow> e = e'"
  "refuse e \<noteq> Inr y"
  "Inr y \<noteq> refuse e"
  "refuse e = Inl z \<longleftrightarrow> z = Err e"
  "Inl z = refuse e \<longleftrightarrow> z = Err e"
  by (auto simp: ok_def refuse_def)

lemma res_bind_eq_ok:
  "res_bind r f = Inr y \<longleftrightarrow> (\<exists>x. r = Inr x \<and> f x = Inr y)"
  "res_bind r f = ok y \<longleftrightarrow> (\<exists>x. r = Inr x \<and> f x = ok y)"
  by (cases r; simp)+

lemma res_bind_eq_Inl:
  "res_bind r f = Inl z \<longleftrightarrow> r = Inl z \<or> (\<exists>x. r = Inr x \<and> f x = Inl z)"
  by (cases r) auto

text \<open>The \<open>?\<close> operator on an \<open>Option\<close> whose \<open>None\<close> the caller turns into an error.\<close>

definition ok_or :: "'a option \<Rightarrow> 'e \<Rightarrow> ('e, 'a) res" where
  "ok_or x e = (case x of None \<Rightarrow> refuse e | Some y \<Rightarrow> ok y)"

lemma ok_or_simps [simp]:
  "ok_or None e = refuse e"
  "ok_or (Some y) e = ok y"
  by (simp_all add: ok_or_def)

section \<open>Characters\<close>

abbreviation code :: "char \<Rightarrow> nat" where
  "code c \<equiv> of_char c"

definition is_ascii_digit :: "char \<Rightarrow> bool" where
  "is_ascii_digit c \<longleftrightarrow> 48 \<le> code c \<and> code c \<le> 57"

definition is_ascii_uppercase :: "char \<Rightarrow> bool" where
  "is_ascii_uppercase c \<longleftrightarrow> 65 \<le> code c \<and> code c \<le> 90"

definition is_ascii_lowercase :: "char \<Rightarrow> bool" where
  "is_ascii_lowercase c \<longleftrightarrow> 97 \<le> code c \<and> code c \<le> 122"

definition is_ascii_alphabetic :: "char \<Rightarrow> bool" where
  "is_ascii_alphabetic c \<longleftrightarrow> is_ascii_uppercase c \<or> is_ascii_lowercase c"

definition is_ascii_alphanumeric :: "char \<Rightarrow> bool" where
  "is_ascii_alphanumeric c \<longleftrightarrow> is_ascii_alphabetic c \<or> is_ascii_digit c"

definition is_ascii_hexdigit :: "char \<Rightarrow> bool" where
  "is_ascii_hexdigit c \<longleftrightarrow> is_ascii_digit c \<or> (65 \<le> code c \<and> code c \<le> 70)
     \<or> (97 \<le> code c \<and> code c \<le> 102)"

text \<open>The Unicode \<open>White_Space\<close> property on the Latin-1 block.\<close>

definition is_whitespace :: "char \<Rightarrow> bool" where
  "is_whitespace c \<longleftrightarrow> (9 \<le> code c \<and> code c \<le> 13) \<or> code c = 32 \<or> code c = 133 \<or> code c = 160"

text \<open>The Unicode \<open>Alphabetic\<close> property on the Latin-1 block.\<close>

definition is_alphabetic :: "char \<Rightarrow> bool" where
  "is_alphabetic c \<longleftrightarrow> is_ascii_alphabetic c \<or> code c = 170 \<or> code c = 181 \<or> code c = 186
     \<or> (192 \<le> code c \<and> code c \<noteq> 215 \<and> code c \<noteq> 247)"

definition ascii_lower :: "char \<Rightarrow> char" where
  "ascii_lower c = (if is_ascii_uppercase c then char_of (code c + 32) else c)"

definition ascii_upper :: "char \<Rightarrow> char" where
  "ascii_upper c = (if is_ascii_lowercase c then char_of (code c - 32) else c)"

text \<open>\<open>char::to_lowercase\<close> on the Latin-1 block, where every lower-case form is one scalar value.\<close>

definition unicode_lower :: "char \<Rightarrow> char" where
  "unicode_lower c = (if is_ascii_uppercase c \<or> (192 \<le> code c \<and> code c \<le> 222 \<and> code c \<noteq> 215)
     then char_of (code c + 32) else c)"

definition to_ascii_lowercase :: "string \<Rightarrow> string" where
  "to_ascii_lowercase = map ascii_lower"

definition to_ascii_uppercase :: "string \<Rightarrow> string" where
  "to_ascii_uppercase = map ascii_upper"

definition to_lowercase :: "string \<Rightarrow> string" where
  "to_lowercase = map unicode_lower"

definition eq_ignore_ascii_case :: "string \<Rightarrow> string \<Rightarrow> bool" where
  "eq_ignore_ascii_case a b \<longleftrightarrow> to_ascii_lowercase a = to_ascii_lowercase b"

lemma code_ascii_lower:
  "code (ascii_lower c) = (if is_ascii_uppercase c then code c + 32 else code c)"
  by (auto simp: ascii_lower_def is_ascii_uppercase_def of_char_of)

lemma ascii_lower_idem [simp]: "ascii_lower (ascii_lower c) = ascii_lower c"
proof -
  have "\<not> is_ascii_uppercase (ascii_lower c)"
    by (auto simp: is_ascii_uppercase_def code_ascii_lower)
  then show ?thesis by (simp add: ascii_lower_def)
qed

lemma to_ascii_lowercase_idem [simp]:
  "to_ascii_lowercase (to_ascii_lowercase s) = to_ascii_lowercase s"
  by (simp add: to_ascii_lowercase_def)

lemma to_ascii_lowercase_simps [simp]:
  "to_ascii_lowercase [] = []"
  "to_ascii_lowercase (c # s) = ascii_lower c # to_ascii_lowercase s"
  "to_ascii_lowercase (s @ t) = to_ascii_lowercase s @ to_ascii_lowercase t"
  "length (to_ascii_lowercase s) = length s"
  by (simp_all add: to_ascii_lowercase_def)

lemma eq_ignore_ascii_case_refl [simp]: "eq_ignore_ascii_case s s"
  by (simp add: eq_ignore_ascii_case_def)

lemma digit_not_whitespace: "is_ascii_digit c \<Longrightarrow> \<not> is_whitespace c"
  by (simp add: is_ascii_digit_def is_whitespace_def)

lemma digit_not_alphabetic: "is_ascii_digit c \<Longrightarrow> \<not> is_alphabetic c"
  by (simp add: is_ascii_digit_def is_alphabetic_def is_ascii_alphabetic_def
    is_ascii_uppercase_def is_ascii_lowercase_def)

lemma digit_neq_char:
  "is_ascii_digit c \<Longrightarrow> \<not> is_ascii_digit d \<Longrightarrow> c \<noteq> d"
  by auto

section \<open>Strings\<close>

text \<open>\<open>str::find\<close> with a predicate: the position of the first match.\<close>

fun find_index :: "('a \<Rightarrow> bool) \<Rightarrow> 'a list \<Rightarrow> nat option" where
  "find_index P [] = None"
| "find_index P (x # xs) = (if P x then Some 0 else map_option Suc (find_index P xs))"

text \<open>\<open>Iterator::rposition\<close>: the position of the last match.\<close>

fun find_last_index :: "('a \<Rightarrow> bool) \<Rightarrow> 'a list \<Rightarrow> nat option" where
  "find_last_index P [] = None"
| "find_last_index P (x # xs) =
     (case find_last_index P xs of Some i \<Rightarrow> Some (Suc i) | None \<Rightarrow> if P x then Some 0 else None)"

lemma find_index_SomeD:
  "find_index P xs = Some i \<Longrightarrow> i < length xs \<and> P (xs ! i) \<and> (\<forall>j<i. \<not> P (xs ! j))"
proof (induction xs arbitrary: i)
  case Nil
  then show ?case by simp
next
  case (Cons x xs)
  show ?case
  proof (cases "P x")
    case True
    with Cons.prems show ?thesis by simp
  next
    case False
    with Cons.prems obtain k where "find_index P xs = Some k" "i = Suc k" by auto
    with Cons.IH [of k] False show ?thesis by (auto simp: less_Suc_eq_0_disj nth_Cons')
  qed
qed

lemma find_index_None_iff: "find_index P xs = None \<longleftrightarrow> (\<forall>x\<in>set xs. \<not> P x)"
  by (induction xs) auto

lemma find_index_append:
  "(\<forall>x\<in>set a. \<not> P x) \<Longrightarrow> find_index P (a @ b) = map_option (\<lambda>i. i + length a) (find_index P b)"
  by (induction a) (auto simp: option.map_comp option.map_ident comp_def)

lemma find_last_index_None_iff: "find_last_index P xs = None \<longleftrightarrow> (\<forall>x\<in>set xs. \<not> P x)"
  by (induction xs) (auto split: option.splits)

lemma find_last_index_SomeD:
  "find_last_index P xs = Some i \<Longrightarrow>
     i < length xs \<and> P (xs ! i) \<and> (\<forall>j<length xs. i < j \<longrightarrow> \<not> P (xs ! j))"
proof (induction xs arbitrary: i)
  case Nil
  then show ?case by simp
next
  case (Cons x xs)
  show ?case
  proof (cases "find_last_index P xs")
    case None
    then have none: "\<forall>y\<in>set xs. \<not> P y" by (simp add: find_last_index_None_iff)
    from None Cons.prems have "i = 0" "P x" by (auto split: if_splits)
    with none show ?thesis by (auto simp: nth_Cons')
  next
    case (Some k)
    with Cons.prems have "i = Suc k" by simp
    with Cons.IH [OF Some] show ?thesis by (auto simp: nth_Cons')
  qed
qed

text \<open>\<open>Iterator::find\<close>.\<close>

lemma find_member: "find P xs = Some x \<Longrightarrow> x \<in> set xs \<and> P x"
  by (induction xs) (auto split: if_splits)

fun strip_prefix :: "'a list \<Rightarrow> 'a list \<Rightarrow> 'a list option" where
  "strip_prefix [] s = Some s"
| "strip_prefix (p # ps) [] = None"
| "strip_prefix (p # ps) (c # s) = (if p = c then strip_prefix ps s else None)"

definition strip_suffix :: "'a list \<Rightarrow> 'a list \<Rightarrow> 'a list option" where
  "strip_suffix p s = map_option rev (strip_prefix (rev p) (rev s))"

definition starts_with :: "'a list \<Rightarrow> 'a list \<Rightarrow> bool" where
  "starts_with p s \<longleftrightarrow> strip_prefix p s \<noteq> None"

definition ends_with :: "'a list \<Rightarrow> 'a list \<Rightarrow> bool" where
  "ends_with p s \<longleftrightarrow> strip_suffix p s \<noteq> None"

lemma strip_prefix_Some_iff [simp]: "strip_prefix p s = Some t \<longleftrightarrow> s = p @ t"
  by (induction p s rule: strip_prefix.induct) auto

lemma strip_prefix_append [simp]: "strip_prefix p (p @ t) = Some t"
  by simp

lemma strip_suffix_Some_iff [simp]: "strip_suffix p s = Some t \<longleftrightarrow> s = t @ p"
proof -
  have "strip_suffix p s = Some t \<longleftrightarrow> rev s = rev p @ rev t"
    by (auto simp: strip_suffix_def intro: rev_swap [THEN iffD1])
  also have "\<dots> \<longleftrightarrow> s = t @ p"
    by (metis rev_append rev_rev_ident)
  finally show ?thesis .
qed

lemma strip_suffix_None_iff: "strip_suffix p s = None \<longleftrightarrow> (\<nexists>t. s = t @ p)"
proof -
  have "strip_suffix p s = None \<longleftrightarrow> (\<forall>t. strip_suffix p s \<noteq> Some t)"
    by (cases "strip_suffix p s") auto
  then show ?thesis by simp
qed

text \<open>\<open>str::split_once\<close> on one character, and \<open>str::split\<close> on a predicate.\<close>

fun split_once :: "'a \<Rightarrow> 'a list \<Rightarrow> ('a list \<times> 'a list) option" where
  "split_once c [] = None"
| "split_once c (x # xs) =
     (if x = c then Some ([], xs) else map_option (\<lambda>(a, b). (x # a, b)) (split_once c xs))"

fun split_by :: "('a \<Rightarrow> bool) \<Rightarrow> 'a list \<Rightarrow> 'a list list" where
  "split_by P [] = [[]]"
| "split_by P (x # xs) =
     (if P x then [] # split_by P xs
      else (case split_by P xs of [] \<Rightarrow> [[x]] | p # ps \<Rightarrow> (x # p) # ps))"

definition split_on :: "'a \<Rightarrow> 'a list \<Rightarrow> 'a list list" where
  "split_on c = split_by (\<lambda>x. x = c)"

definition split_whitespace :: "string \<Rightarrow> string list" where
  "split_whitespace s = filter (\<lambda>t. t \<noteq> []) (split_by is_whitespace s)"

definition trim_start :: "string \<Rightarrow> string" where
  "trim_start = dropWhile is_whitespace"

definition trim_end :: "string \<Rightarrow> string" where
  "trim_end s = rev (dropWhile is_whitespace (rev s))"

definition trim :: "string \<Rightarrow> string" where
  "trim s = trim_end (trim_start s)"

fun join :: "'a list \<Rightarrow> 'a list list \<Rightarrow> 'a list" where
  "join sep [] = []"
| "join sep [x] = x"
| "join sep (x # y # xs) = x @ sep @ join sep (y # xs)"

lemma split_by_nonempty [simp]: "split_by P s \<noteq> []"
  by (induction s) (auto split: list.splits)

lemma split_by_pieces: "p \<in> set (split_by P s) \<Longrightarrow> x \<in> set p \<Longrightarrow> \<not> P x"
proof (induction s arbitrary: p)
  case (Cons a s)
  obtain q qs where q: "split_by P s = q # qs" by (cases "split_by P s") auto
  with Cons.IH [of q] Cons.IH [of p] Cons.prems show ?case by (auto split: if_splits)
qed simp

lemma split_by_no_match: "(\<forall>x\<in>set s. \<not> P x) \<Longrightarrow> split_by P s = [s]"
  by (induction s) auto

lemma split_by_append_sep:
  "(\<forall>x\<in>set s. \<not> P x) \<Longrightarrow> P c \<Longrightarrow> split_by P (s @ c # t) = s # split_by P t"
  by (induction s) auto

lemma split_on_no_match [rust_simps]: "c \<notin> set s \<Longrightarrow> split_on c s = [s]"
  unfolding split_on_def by (rule split_by_no_match) auto

lemma split_on_append_sep [rust_simps]:
  "c \<notin> set s \<Longrightarrow> split_on c (s @ c # t) = s # split_on c t"
  unfolding split_on_def by (rule split_by_append_sep) auto

lemma split_once_None_iff: "split_once c s = None \<longleftrightarrow> c \<notin> set s"
  by (induction s) auto

lemma split_once_append: "c \<notin> set a \<Longrightarrow> split_once c (a @ c # b) = Some (a, b)"
  by (induction a) auto

lemma split_once_SomeD: "split_once c s = Some (a, b) \<Longrightarrow> s = a @ c # b \<and> c \<notin> set a"
  by (induction s arbitrary: a b) (auto split: if_splits)

lemma trim_id:
  assumes "s = [] \<or> (\<not> is_whitespace (hd s) \<and> \<not> is_whitespace (last s))"
  shows "trim s = s"
proof (cases s)
  case Nil
  then show ?thesis by (simp add: trim_def trim_start_def trim_end_def)
next
  case (Cons c t)
  with assms have h: "\<not> is_whitespace c" and l: "\<not> is_whitespace (last s)" by auto
  from Cons h have "trim_start s = s" by (simp add: trim_start_def)
  moreover have "dropWhile is_whitespace (rev s) = rev s"
  proof -
    from Cons have "rev s \<noteq> []" by simp
    then obtain d u where du: "rev s = d # u" by (cases "rev s") auto
    then have "d = last s" by (metis hd_rev list.sel(1))
    with l have "\<not> is_whitespace d" by simp
    then show ?thesis unfolding du by simp
  qed
  ultimately show ?thesis by (simp add: trim_def trim_end_def)
qed

lemma trim_end_id: "s \<noteq> [] \<Longrightarrow> \<not> is_whitespace (last s) \<Longrightarrow> trim_end s = s"
proof -
  assume ne: "s \<noteq> []" and l: "\<not> is_whitespace (last s)"
  then obtain d u where du: "rev s = d # u" by (cases "rev s") auto
  then have "d = last s" by (metis hd_rev list.sel(1))
  with l have "\<not> is_whitespace d" by simp
  then have "dropWhile is_whitespace (rev s) = rev s" unfolding du by simp
  then show ?thesis by (simp add: trim_end_def)
qed

section \<open>Numbers\<close>

definition digit_val :: "char \<Rightarrow> nat" where
  "digit_val c = code c - 48"

definition digit_char :: "nat \<Rightarrow> char" where
  "digit_char d = char_of (48 + d)"

text \<open>The decimal digits of a number, as \<open>Display\<close> writes an unsigned integer.\<close>

fun show_nat :: "nat \<Rightarrow> string" where
  "show_nat n = (if n < 10 then [digit_char n] else show_nat (n div 10) @ [digit_char (n mod 10)])"

declare show_nat.simps [simp del]

definition show_int :: "int \<Rightarrow> string" where
  "show_int i = (if i < 0 then CHR ''-'' # show_nat (nat (- i)) else show_nat (nat i))"

text \<open>\<open>{:0w}\<close>: padded on the left with zeros to at least \<open>w\<close> characters.\<close>

definition pad0 :: "nat \<Rightarrow> nat \<Rightarrow> string" where
  "pad0 w n = (let s = show_nat n in replicate (w - length s) (CHR ''0'') @ s)"

text \<open>\<open>{:0w}\<close> of a signed number counts the sign in the width.\<close>

definition pad0_int :: "nat \<Rightarrow> int \<Rightarrow> string" where
  "pad0_int w i = (if i < 0 then CHR ''-'' # pad0 (w - 1) (nat (- i)) else pad0 w (nat i))"

definition digits_value :: "string \<Rightarrow> nat" where
  "digits_value s = foldl (\<lambda>n c. n * 10 + digit_val c) 0 s"

definition all_digits :: "string \<Rightarrow> bool" where
  "all_digits s \<longleftrightarrow> list_all is_ascii_digit s"

text \<open>\<open>str::parse\<close> into an unsigned type of the given bound: a leading \<open>+\<close> is accepted.\<close>

definition parse_unsigned :: "nat \<Rightarrow> string \<Rightarrow> nat option" where
  "parse_unsigned bound s =
     (let ds = (case s of c # t \<Rightarrow> if c = CHR ''+'' then t else s | [] \<Rightarrow> []) in
      if ds \<noteq> [] \<and> all_digits ds \<and> digits_value ds < bound then Some (digits_value ds) else None)"

abbreviation parse_u32 :: "string \<Rightarrow> nat option" where
  "parse_u32 \<equiv> parse_unsigned (2 ^ 32)"

definition in_i128 :: "int \<Rightarrow> bool" where
  "in_i128 x \<longleftrightarrow> - (2 ^ 127) \<le> x \<and> x < 2 ^ 127"

definition checked :: "int \<Rightarrow> int option" where
  "checked x = (if in_i128 x then Some x else None)"

abbreviation checked_add :: "int \<Rightarrow> int \<Rightarrow> int option" where
  "checked_add a b \<equiv> checked (a + b)"

abbreviation checked_sub :: "int \<Rightarrow> int \<Rightarrow> int option" where
  "checked_sub a b \<equiv> checked (a - b)"

abbreviation checked_mul :: "int \<Rightarrow> int \<Rightarrow> int option" where
  "checked_mul a b \<equiv> checked (a * b)"

text \<open>\<open>i128::from_str\<close> of a text that is all digits.\<close>

definition parse_i128_digits :: "string \<Rightarrow> int option" where
  "parse_i128_digits s = checked (int (digits_value s))"

lemma digit_char_code: "d < 10 \<Longrightarrow> code (digit_char d) = 48 + d"
  by (simp add: digit_char_def of_char_of)

lemma digit_char_is_digit [simp]: "d < 10 \<Longrightarrow> is_ascii_digit (digit_char d)"
  by (simp add: is_ascii_digit_def digit_char_code)

lemma digit_val_digit_char [simp]: "d < 10 \<Longrightarrow> digit_val (digit_char d) = d"
  by (simp add: digit_val_def digit_char_code)

lemma digit_char_digit_val [simp]: "is_ascii_digit c \<Longrightarrow> digit_char (digit_val c) = c"
  by (simp add: digit_char_def digit_val_def is_ascii_digit_def)

lemma all_digits_simps [simp]:
  "all_digits []"
  "all_digits (c # s) \<longleftrightarrow> is_ascii_digit c \<and> all_digits s"
  "all_digits (s @ t) \<longleftrightarrow> all_digits s \<and> all_digits t"
  "all_digits (replicate n (CHR ''0''))"
  by (auto simp: all_digits_def is_ascii_digit_def list_all_iff)

lemma all_digitsD: "all_digits s \<Longrightarrow> c \<in> set s \<Longrightarrow> is_ascii_digit c"
  by (auto simp: all_digits_def list_all_iff)

lemma digits_value_simps [simp]:
  "digits_value [] = 0"
  "digits_value (s @ [c]) = digits_value s * 10 + digit_val c"
  by (simp_all add: digits_value_def)

lemma digits_value_append:
  "digits_value (s @ t) = digits_value s * 10 ^ length t + digits_value t"
proof (induction t rule: rev_induct)
  case Nil
  then show ?case by simp
next
  case (snoc c t)
  have "digits_value (s @ t @ [c]) = digits_value (s @ t) * 10 + digit_val c"
    by (metis append_assoc digits_value_simps(2))
  with snoc show ?case by (simp add: algebra_simps)
qed

lemma digits_value_replicate0 [simp]: "digits_value (replicate n (CHR ''0'')) = 0"
proof (induction n)
  case (Suc n)
  have "replicate (Suc n) (CHR ''0'') = replicate n (CHR ''0'') @ [CHR ''0'']"
    by (simp add: replicate_append_same)
  with Suc show ?case by (simp only: digits_value_simps) (simp add: digit_val_def)
qed simp

lemma digits_value_less: "all_digits s \<Longrightarrow> digits_value s < 10 ^ length s"
proof (induction s rule: rev_induct)
  case Nil
  then show ?case by simp
next
  case (snoc c s)
  then have "digits_value s < 10 ^ length s" and "is_ascii_digit c" by auto
  moreover from this(2) have "digit_val c \<le> 9" by (auto simp: digit_val_def is_ascii_digit_def)
  ultimately show ?case by simp
qed

lemma show_nat_digits [simp]: "all_digits (show_nat n)"
proof (induction n rule: show_nat.induct)
  case (1 n)
  then show ?case by (subst show_nat.simps) simp
qed

lemma show_nat_nonempty [simp]: "show_nat n \<noteq> []"
  by (subst show_nat.simps) simp

lemma digits_value_show_nat [simp]: "digits_value (show_nat n) = n"
proof (induction n rule: show_nat.induct)
  case (1 n)
  show ?case
  proof (cases "n < 10")
    case True
    then show ?thesis by (subst show_nat.simps) (simp add: digits_value_def)
  next
    case False
    with 1 show ?thesis by (subst show_nat.simps) simp
  qed
qed

lemma length_show_nat_le: "n < 10 ^ w \<Longrightarrow> 0 < w \<Longrightarrow> length (show_nat n) \<le> w"
proof (induction n arbitrary: w rule: show_nat.induct)
  case (1 n)
  show ?case
  proof (cases "n < 10")
    case True
    with 1 show ?thesis by (subst show_nat.simps) simp
  next
    case False
    then obtain v where v: "w = Suc v" "0 < v"
      using 1(2,3) by (cases w; cases "w = 1") auto
    with 1(2) have "n div 10 < 10 ^ v" by (simp add: less_mult_imp_div_less mult.commute)
    with 1(1) [OF False, of v] v False show ?thesis by (subst show_nat.simps) simp
  qed
qed

lemma pad0_simps [simp]:
  "all_digits (pad0 w n)"
  "pad0 w n \<noteq> []"
  by (simp_all add: pad0_def Let_def)

lemma pad0_ends [simp]: "is_ascii_digit (hd (pad0 w n))" "is_ascii_digit (last (pad0 w n))"
  using all_digitsD [OF pad0_simps(1) [of w n]] by simp_all

lemma digits_value_pad0 [simp]: "digits_value (pad0 w n) = n"
  by (simp add: pad0_def Let_def digits_value_append)

lemma length_pad0: "n < 10 ^ w \<Longrightarrow> 0 < w \<Longrightarrow> length (pad0 w n) = w"
  by (simp add: pad0_def Let_def length_show_nat_le)

lemma parse_unsigned_digits:
  "all_digits s \<Longrightarrow> s \<noteq> [] \<Longrightarrow> digits_value s < bound \<Longrightarrow> parse_unsigned bound s = Some (digits_value s)"
  by (cases s) (auto simp: parse_unsigned_def Let_def is_ascii_digit_def)

lemma parse_unsigned_digits_iff:
  "all_digits s \<Longrightarrow> s \<noteq> [] \<Longrightarrow>
     parse_unsigned bound s = (if digits_value s < bound then Some (digits_value s) else None)"
  by (cases s) (auto simp: parse_unsigned_def Let_def is_ascii_digit_def)

lemma checked_Some_iff [simp]: "checked x = Some y \<longleftrightarrow> y = x \<and> in_i128 x"
  by (auto simp: checked_def)

lemma checked_None_iff [simp]: "checked x = None \<longleftrightarrow> \<not> in_i128 x"
  by (auto simp: checked_def)

lemma in_i128_small: "\<bar>x\<bar> < 2 ^ 127 \<Longrightarrow> in_i128 x"
  by (auto simp: in_i128_def)

text \<open>Truncating division, the \<open>/\<close> and \<open>%\<close> of Rust's signed integers.\<close>

lemma smod_abs_less: "b \<noteq> 0 \<Longrightarrow> \<bar>a smod b\<bar> < \<bar>b :: int\<bar>"
  using smod_int_range [of b a] by auto

lemma mult_sdiv_cancel: "0 < b \<Longrightarrow> (a * b) sdiv b = (a :: int)"
  by (cases "0 \<le> a") (auto simp: signed_divide_int_def sgn_if abs_mult mult_less_0_iff zero_less_mult_iff simp flip: mult_minus_left)

lemma sdiv_abs_le: "\<bar>(a :: int) sdiv b\<bar> \<le> \<bar>a\<bar>"
proof (cases "b = 0")
  case False
  then have "\<bar>a\<bar> div \<bar>b\<bar> \<le> \<bar>a\<bar> div 1" by (intro zdiv_mono2) auto
  moreover have "0 \<le> \<bar>a\<bar> div \<bar>b\<bar>" by (simp add: False pos_imp_zdiv_nonneg_iff)
  ultimately show ?thesis by (simp add: signed_divide_int_def abs_mult abs_sgn_eq)
qed simp

end
