(* ===== verification/Sql_Ast.thy ===== *)
theory Sql_Ast
  imports Rust_Std
begin

text \<open>
  The part of the SQL syntax tree (the \<open>sqlparser\<close> crate) that the modelled components match
  on, and the object-name helpers of \<open>src/src/impls/object_name.rs\<close>.

  A node keeps the fields some modelled function reads or writes. The remaining fields of a query
  or of a row-changing statement are one opaque text, so that functions of the whole node which the
  model takes as parameters (the names a visitor collects) can still tell two nodes apart.
\<close>

section \<open>Identifiers and object names\<close>

record ident =
  ident_value :: string
  quote_style :: "char option"

datatype (plugins only: code size) object_name_part = Identifier ident | NameFunction string

type_synonym object_name = "object_name_part list"

definition bare_ident :: "string \<Rightarrow> ident" where
  "bare_ident s = \<lparr>ident_value = s, quote_style = None\<rparr>"

definition ident_with_quote :: "char \<Rightarrow> string \<Rightarrow> ident" where
  "ident_with_quote q s = \<lparr>ident_value = s, quote_style = Some q\<rparr>"

fun as_ident :: "object_name_part \<Rightarrow> ident option" where
  "as_ident (Identifier i) = Some i"
| "as_ident (NameFunction _) = None"

text \<open>\<open>str::replace\<close> of one character by a string.\<close>

definition replace_char :: "char \<Rightarrow> string \<Rightarrow> string \<Rightarrow> string" where
  "replace_char c r s = concat (map (\<lambda>x. if x = c then r else [x]) s)"

definition display_ident :: "ident \<Rightarrow> string" where
  "display_ident i = (case quote_style i of
     None \<Rightarrow> ident_value i
   | Some q \<Rightarrow> [q] @ replace_char q [q, q] (ident_value i) @ [q])"

fun display_part :: "object_name_part \<Rightarrow> string" where
  "display_part (Identifier i) = display_ident i"
| "display_part (NameFunction s) = s"

definition display_name :: "object_name \<Rightarrow> string" where
  "display_name n = join ''.'' (map display_part n)"

section \<open>Object-name helpers\<close>

definition last_ident :: "object_name \<Rightarrow> ident option" where
  "last_ident n = (if n = [] then None else as_ident (last n))"

definition catalog_name :: "ident \<Rightarrow> string option" where
  "catalog_name i =
     (let lowered = to_ascii_lowercase (ident_value i) in
      if quote_style i \<noteq> None \<and> ident_value i \<noteq> lowered then None else Some lowered)"

definition last_catalog_name :: "object_name \<Rightarrow> string option" where
  "last_catalog_name n = Option.bind (last_ident n) catalog_name"

definition postgres_catalog_function_name :: "object_name \<Rightarrow> string option" where
  "postgres_catalog_function_name n =
     (case Option.bind (last_ident n) catalog_name of
        None \<Rightarrow> None
      | Some f \<Rightarrow>
         (case n of
            [_] \<Rightarrow> Some f
          | [schema, _] \<Rightarrow>
              (if Option.bind (as_ident schema) catalog_name = Some ''pg_catalog''
               then Some f else None)
          | _ \<Rightarrow> None))"

definition last_ident_value_or_display :: "object_name \<Rightarrow> string" where
  "last_ident_value_or_display n =
     (case last_ident n of Some i \<Rightarrow> ident_value i | None \<Rightarrow> display_name n)"

definition append_suffix :: "object_name \<Rightarrow> string \<Rightarrow> object_name" where
  "append_suffix n suffix =
     (if n = [] then n
      else case last n of
        Identifier i \<Rightarrow> butlast n @ [Identifier (i\<lparr>ident_value := ident_value i @ suffix\<rparr>)]
      | NameFunction _ \<Rightarrow> n)"

definition sqlite_unqualified_object_name :: "object_name \<Rightarrow> object_name" where
  "sqlite_unqualified_object_name n = (if n = [] then n else [last n])"

definition quote_identifier :: "string \<Rightarrow> string" where
  "quote_identifier name =
     (let is_simple = (case name of
          first # rest \<Rightarrow> (first = CHR ''_'' \<or> is_ascii_alphabetic first)
            \<and> list_all (\<lambda>c. c = CHR ''_'' \<or> is_ascii_alphanumeric c) rest
        | [] \<Rightarrow> False) in
      if is_simple then name
      else [CHR 0x22] @ replace_char (CHR 0x22) [CHR 0x22, CHR 0x22] name @ [CHR 0x22])"

definition quoted_ident :: "string \<Rightarrow> ident" where
  "quoted_ident name =
     (if quote_identifier name = name then bare_ident name else ident_with_quote (CHR 0x22) name)"

section \<open>Statements\<close>

datatype (plugins only: code size) object_type = ObjTable | ObjView | ObjIndex | ObjRole | ObjOther

datatype (plugins only: code size) trigger_event = EventInsert | EventUpdate "ident list" | EventDelete | EventTruncate

datatype (plugins only: code size) table_factor = FactorTable object_name | FactorOther

datatype (plugins only: code size) table_object = TableName object_name | TableFunction | TableQuery

datatype (plugins only: code size) column_option = ColForeignKey object_name | ColOther

datatype (plugins only: code size) table_constraint = ConForeignKey object_name | ConOther

datatype (plugins only: code size) alter_table_operation =
    RenameTableTo object_name
  | AddColumn "column_option list"
  | AlterOther

record create_index =
  ci_name :: "object_name option"
  ci_table_name :: object_name
  ci_concurrently :: bool

datatype (plugins only: code size) statement =
    StartTransaction
  | Commit bool
  | Rollback bool "ident option"
  | Savepoint ident
  | ReleaseSavepoint ident
  | CreateTable create_table
  | CreateView create_view
  | CreateVirtualTable object_name bool ident
  | CreateIndex create_index
  | CreateTrigger create_trigger
  | AlterTable object_name "alter_table_operation list"
  | RenameTable "(object_name \<times> object_name) list"
  | Drop object_type "object_name list"
  | DropTrigger object_name "object_name option"
  | Insert table_object bool string
  | Update table_factor string
  | Delete "table_factor list" string
  | Merge string
  | Query query
  | CreatePolicy object_name
  | AlterPolicy object_name
  | DropPolicy object_name
  | CreateFunction
  | AlterFunction
  | DropFunction
  | CreateRole
  | AlterRole
  | OtherStatement string
and create_table =
    CreateTableNode (ct_name: object_name) (ct_temporary: bool) (ct_if_not_exists: bool)
      (ct_query: "query option") (ct_columns: "column_option list list")
      (ct_constraints: "table_constraint list")
and create_view =
    CreateViewNode (cv_name: object_name) (cv_temporary: bool) (cv_or_replace: bool)
      (cv_query: query)
and create_trigger =
    CreateTriggerNode (tr_name: object_name) (tr_table_name: object_name) (tr_temporary: bool)
      (tr_or_replace: bool) (tr_events: "trigger_event list")
      (tr_statements: "conditional_statements option")
and conditional_statements = BeginEnd "statement list" | Sequence "statement list"
and query = QueryNode (q_text: string) (q_body: set_expr)
and set_expr =
    SetInsert statement
  | SetUpdate statement
  | SetDelete statement
  | SetMerge statement
  | SetOther

section \<open>Facts about names\<close>

lemma last_ident_simps [simp]:
  "last_ident [] = None"
  "last_ident (n @ [p]) = as_ident p"
  "last_ident [q] = as_ident q"
  by (simp_all add: last_ident_def)

lemma last_ident_value_or_display_ident [simp]:
  "last_ident_value_or_display (n @ [Identifier i]) = ident_value i"
  "last_ident_value_or_display [Identifier i] = ident_value i"
  by (simp_all add: last_ident_value_or_display_def)

lemma sqlite_unqualified_keeps_key:
  "last_ident n \<noteq> None \<Longrightarrow>
     last_ident_value_or_display (sqlite_unqualified_object_name n) = last_ident_value_or_display n"
  by (auto simp: sqlite_unqualified_object_name_def last_ident_value_or_display_def last_ident_def
      split: if_splits)

lemma replace_char_no_occurrence: "c \<notin> set s \<Longrightarrow> replace_char c r s = s"
  by (induction s) (auto simp: replace_char_def)

end
