(* ===== verification/Transactions.thy ===== *)
theory Transactions
  imports Sql_Ast
begin

text \<open>
  Transaction control over a batch of statements:
  \<^item> \<open>src/src/impls/transaction_blocks.rs\<close>: \<open>analyse\<close>, which decides from the nesting of the batch
    whether a control statement translates, is dropped as the no-op PostgreSQL makes of it, or is
    refused;
  \<^item> \<open>src/src/impls/translator_impls/statement.rs\<close>: what \<open>COMMIT\<close> and \<open>ROLLBACK\<close> emit, and
    \<open>src/src/pg2sqlite.rs\<close>: what a disposition emits;
  \<^item> \<open>src/src/history/transactions.rs\<close>: \<open>Outline\<close>, the per-statement outcomes (committed, undone,
    control) and enclosing transactions.

  The specification of the outline is a snapshot machine: a database engine that saves its state at
  \<open>BEGIN\<close> and at every savepoint and restores it on rollback. The locale \<open>snapshot_engine\<close> takes the engine's
  effect of one statement as a parameter, and the refinement says that the batch leaves exactly
  what the statements with outcome \<open>Committed\<close> do when they run one after the other.
\<close>

section \<open>Dispositions (transaction_blocks.rs)\<close>

datatype (plugins only: code size) drop_reason = REASON_BEGIN_ALREADY_OPEN | REASON_NO_TRANSACTION_OPEN

datatype (plugins only: code size) disposition = Translate | DropNoOp string drop_reason

datatype (plugins only: code size) txn_refusal = OutsideTransactionBlock string | ConcurrentIndexInsideBlock

fun analyse_statement :: "bool \<Rightarrow> statement \<Rightarrow> (txn_refusal, disposition \<times> bool) res" where
  "analyse_statement open StartTransaction =
     (if open then ok (DropNoOp ''BEGIN'' REASON_BEGIN_ALREADY_OPEN, open) else ok (Translate, True))"
| "analyse_statement open (Commit chain) =
     (if open then ok (Translate, chain)
      else if chain then refuse (OutsideTransactionBlock ''COMMIT AND CHAIN'')
      else ok (DropNoOp ''COMMIT'' REASON_NO_TRANSACTION_OPEN, open))"
| "analyse_statement open (Rollback chain savepoint) =
     (if savepoint \<noteq> None then
        (if \<not> open then refuse (OutsideTransactionBlock ''ROLLBACK TO SAVEPOINT'')
         else ok (Translate, open))
      else if open then ok (Translate, chain)
      else if chain then refuse (OutsideTransactionBlock ''ROLLBACK AND CHAIN'')
      else ok (DropNoOp ''ROLLBACK'' REASON_NO_TRANSACTION_OPEN, open))"
| "analyse_statement open (Savepoint name) =
     (if \<not> open then refuse (OutsideTransactionBlock ''SAVEPOINT'') else ok (Translate, open))"
| "analyse_statement open (ReleaseSavepoint name) =
     (if \<not> open then refuse (OutsideTransactionBlock ''RELEASE SAVEPOINT'') else ok (Translate, open))"
| "analyse_statement open (CreateIndex create_index) =
     (if open \<and> ci_concurrently create_index then refuse ConcurrentIndexInsideBlock
      else ok (Translate, open))"
| "analyse_statement open _ = ok (Translate, open)"

fun analyse_from :: "bool \<Rightarrow> statement list \<Rightarrow> (txn_refusal, disposition list) res" where
  "analyse_from open [] = ok []"
| "analyse_from open (s # ss) =
     res_bind (analyse_statement open s) (\<lambda>(d, open').
       res_bind (analyse_from open' ss) (\<lambda>ds. ok (d # ds)))"

definition analyse :: "statement list \<Rightarrow> (txn_refusal, disposition list) res" where
  "analyse ss = analyse_from False ss"

section \<open>What a control statement emits (statement.rs, pg2sqlite.rs)\<close>

definition translate_commit :: "bool \<Rightarrow> statement list" where
  "translate_commit chain = Commit False # (if chain then [StartTransaction] else [])"

definition translate_rollback :: "bool \<Rightarrow> ident option \<Rightarrow> statement list" where
  "translate_rollback chain savepoint =
     Rollback False savepoint # (if chain then [StartTransaction] else [])"

text \<open>The translation of a statement that is not transaction control is the parameter \<open>tr\<close>.\<close>

fun translate_control :: "(statement \<Rightarrow> statement list) \<Rightarrow> statement \<Rightarrow> statement list" where
  "translate_control tr StartTransaction = [StartTransaction]"
| "translate_control tr (Commit chain) = translate_commit chain"
| "translate_control tr (Rollback chain savepoint) = translate_rollback chain savepoint"
| "translate_control tr (Savepoint name) = [Savepoint name]"
| "translate_control tr (ReleaseSavepoint name) = [ReleaseSavepoint name]"
| "translate_control tr s = tr s"

fun emit_disposition :: "(statement \<Rightarrow> statement list) \<Rightarrow> disposition \<Rightarrow> statement \<Rightarrow> statement list" where
  "emit_disposition tr (DropNoOp construct reason) s = []"
| "emit_disposition tr Translate s = translate_control tr s"

section \<open>Outcomes (history/transactions.rs)\<close>

datatype (plugins only: code size) outcome = Committed | Undone | Control

record frame =
  frame_name :: "ident option"
  frame_start :: nat

record outline =
  outcomes :: "outcome list"
  transactions :: "nat option list"

record outline_state =
  os_outline :: outline
  os_frames :: "frame list"
  os_pending :: "nat list"
  os_open :: "nat option"
  os_next :: nat

definition same_name :: "ident \<Rightarrow> ident \<Rightarrow> bool" where
  "same_name l r = (case (quote_style l, quote_style r) of
     (None, None) \<Rightarrow> eq_ignore_ascii_case (ident_value l) (ident_value r)
   | (None, Some _) \<Rightarrow> to_ascii_lowercase (ident_value l) = ident_value r
   | (Some _, None) \<Rightarrow> ident_value l = to_ascii_lowercase (ident_value r)
   | (Some _, Some _) \<Rightarrow> ident_value l = ident_value r)"

definition frame_named :: "ident \<Rightarrow> ident option \<Rightarrow> bool" where
  "frame_named name fname = (case fname of None \<Rightarrow> False | Some f \<Rightarrow> same_name f name)"

definition innermost :: "frame list \<Rightarrow> ident \<Rightarrow> nat option" where
  "innermost frames name = find_last_index (\<lambda>f. frame_named name (frame_name f)) frames"

definition set_outcome :: "nat \<Rightarrow> outcome \<Rightarrow> outline_state \<Rightarrow> outline_state" where
  "set_outcome i x st =
     st\<lparr>os_outline := (os_outline st)\<lparr>outcomes := (outcomes (os_outline st))[i := x]\<rparr>\<rparr>"

definition set_outcomes :: "nat list \<Rightarrow> outcome \<Rightarrow> outline_state \<Rightarrow> outline_state" where
  "set_outcomes is x st = fold (\<lambda>i. set_outcome i x) is st"

definition open_frame :: frame where
  "open_frame = \<lparr>frame_name = None, frame_start = 0\<rparr>"

definition open_transaction :: "outline_state \<Rightarrow> outline_state" where
  "open_transaction st =
     st\<lparr>os_open := Some (os_next st), os_next := os_next st + 1,
       os_frames := os_frames st @ [open_frame]\<rparr>"

definition finish_transaction :: "outcome \<Rightarrow> bool \<Rightarrow> outline_state \<Rightarrow> outline_state" where
  "finish_transaction x chain st =
     (let st1 = (set_outcomes (os_pending st) x st)
            \<lparr>os_pending := [], os_frames := [], os_open := None\<rparr> in
      if chain then open_transaction st1 else st1)"

fun outline_statement :: "nat \<Rightarrow> statement \<Rightarrow> outline_state \<Rightarrow> outline_state" where
  "outline_statement i StartTransaction st = open_transaction (set_outcome i Control st)"
| "outline_statement i (Savepoint name) st =
     (set_outcome i Control st)
       \<lparr>os_frames := os_frames st @ [\<lparr>frame_name = Some name, frame_start = length (os_pending st)\<rparr>]\<rparr>"
| "outline_statement i (ReleaseSavepoint name) st =
     (let st1 = set_outcome i Control st in
      case innermost (os_frames st) name of
        None \<Rightarrow> st1
      | Some p \<Rightarrow> st1\<lparr>os_frames := take p (os_frames st)\<rparr>)"
| "outline_statement i (Rollback chain (Some name)) st =
     (let st1 = set_outcome i Control st in
      case innermost (os_frames st) name of
        None \<Rightarrow> st1
      | Some p \<Rightarrow>
          let start = frame_start (os_frames st ! p) in
          (set_outcomes (drop start (os_pending st)) Undone st1)
            \<lparr>os_pending := take start (os_pending st), os_frames := take (p + 1) (os_frames st)\<rparr>)"
| "outline_statement i (Commit chain) st = finish_transaction Committed chain (set_outcome i Control st)"
| "outline_statement i (Rollback chain None) st = finish_transaction Undone chain (set_outcome i Control st)"
| "outline_statement i _ st =
     (case os_open st of
        None \<Rightarrow> st
      | Some t \<Rightarrow>
          st\<lparr>os_pending := os_pending st @ [i],
            os_outline := (os_outline st)\<lparr>transactions := (transactions (os_outline st))[i := Some t]\<rparr>\<rparr>)"

definition outline_step :: "nat \<times> statement \<times> disposition \<Rightarrow> outline_state \<Rightarrow> outline_state" where
  "outline_step = (\<lambda>(i, s, d) st.
     case d of DropNoOp _ _ \<Rightarrow> set_outcome i Control st | Translate \<Rightarrow> outline_statement i s st)"

definition outline_init :: "nat \<Rightarrow> outline_state" where
  "outline_init n = \<lparr>os_outline = \<lparr>outcomes = replicate n Committed, transactions = replicate n None\<rparr>,
     os_frames = [], os_pending = [], os_open = None, os_next = 0\<rparr>"

definition outline_new :: "statement list \<Rightarrow> disposition list \<Rightarrow> outline" where
  "outline_new ss ds =
     (let st = fold outline_step (zip [0..<length ss] (zip ss ds)) (outline_init (length ss)) in
      os_outline (set_outcomes (os_pending st) Undone st))"

definition committed_indices :: "outline \<Rightarrow> nat list" where
  "committed_indices ol = filter (\<lambda>i. outcomes ol ! i = Committed) [0..<length (outcomes ol)]"

section \<open>Nesting: the emitted script runs on SQLite\<close>

text \<open>
  SQLite's own nesting rule: a \<open>BEGIN\<close> inside a transaction and a \<open>COMMIT\<close> or \<open>ROLLBACK\<close> outside
  one are errors, and it has no \<open>AND CHAIN\<close>. A savepoint outside a transaction would open one
  implicitly; it counts as an error here, since the translation promises never to emit it.
\<close>

fun sqlite_nesting :: "bool \<Rightarrow> statement \<Rightarrow> bool option" where
  "sqlite_nesting open StartTransaction = (if open then None else Some True)"
| "sqlite_nesting open (Commit chain) = (if open \<and> \<not> chain then Some False else None)"
| "sqlite_nesting open (Rollback chain None) = (if open \<and> \<not> chain then Some False else None)"
| "sqlite_nesting open (Rollback chain (Some name)) = (if open \<and> \<not> chain then Some True else None)"
| "sqlite_nesting open (Savepoint name) = (if open then Some True else None)"
| "sqlite_nesting open (ReleaseSavepoint name) = (if open then Some True else None)"
| "sqlite_nesting open _ = Some open"

fun sqlite_run :: "bool \<Rightarrow> statement list \<Rightarrow> bool option" where
  "sqlite_run open [] = Some open"
| "sqlite_run open (s # ss) = Option.bind (sqlite_nesting open s) (\<lambda>open'. sqlite_run open' ss)"

text \<open>PostgreSQL's nesting: the state after a statement it accepts, with its warnings as no-ops.\<close>

fun postgres_nesting :: "bool \<Rightarrow> statement \<Rightarrow> bool option" where
  "postgres_nesting open StartTransaction = Some True"
| "postgres_nesting open (Commit chain) = (if chain \<and> \<not> open then None else Some chain)"
| "postgres_nesting open (Rollback chain None) = (if chain \<and> \<not> open then None else Some chain)"
| "postgres_nesting open (Rollback chain (Some name)) = (if open then Some True else None)"
| "postgres_nesting open (Savepoint name) = (if open then Some True else None)"
| "postgres_nesting open (ReleaseSavepoint name) = (if open then Some True else None)"
| "postgres_nesting open (CreateIndex ix) = (if open \<and> ci_concurrently ix then None else Some open)"
| "postgres_nesting open _ = Some open"

fun postgres_run :: "bool \<Rightarrow> statement list \<Rightarrow> bool option" where
  "postgres_run open [] = Some open"
| "postgres_run open (s # ss) = Option.bind (postgres_nesting open s) (\<lambda>open'. postgres_run open' ss)"

fun is_control :: "statement \<Rightarrow> bool" where
  "is_control StartTransaction = True"
| "is_control (Commit _) = True"
| "is_control (Rollback _ _) = True"
| "is_control (Savepoint _) = True"
| "is_control (ReleaseSavepoint _) = True"
| "is_control _ = False"

fun well_formed_control :: "statement \<Rightarrow> bool" where
  "well_formed_control (Rollback chain savepoint) = (savepoint = None \<or> \<not> chain)"
| "well_formed_control _ = True"

lemma sqlite_run_append:
  "sqlite_run open (xs @ ys) = Option.bind (sqlite_run open xs) (\<lambda>o'. sqlite_run o' ys)"
proof (induction xs arbitrary: "open")
  case (Cons x xs)
  then show ?case by (cases "sqlite_nesting open x") auto
qed simp

lemma sqlite_nesting_plain: "\<not> is_control s \<Longrightarrow> sqlite_nesting open s = Some open"
  by (cases s) auto

lemma sqlite_run_plain: "list_all (\<lambda>s. \<not> is_control s) ss \<Longrightarrow> sqlite_run open ss = Some open"
  by (induction ss) (auto simp: sqlite_nesting_plain)

lemma analyse_statement_postgres:
  "postgres_nesting open s = (case analyse_statement open s of Inl _ \<Rightarrow> None | Inr (d, o') \<Rightarrow> Some o')"
  by (cases "(open, s)" rule: analyse_statement.cases) (auto simp: ok_def refuse_def split: option.splits)

lemma analyse_statement_emits:
  assumes "analyse_statement open s = Inr (d, o')" and "well_formed_control s"
    and "\<not> is_control s \<Longrightarrow> list_all (\<lambda>x. \<not> is_control x) (tr s)"
  shows "sqlite_run open (emit_disposition tr d s) = Some o'"
  using assms
  by (cases s) (auto simp: translate_commit_def translate_rollback_def sqlite_run_plain
      split: if_splits option.splits)

lemma analyse_from_emits:
  assumes "analyse_from open ss = Inr ds" and "list_all well_formed_control ss"
    and "\<And>s. s \<in> set ss \<Longrightarrow> \<not> is_control s \<Longrightarrow> list_all (\<lambda>x. \<not> is_control x) (tr s)"
  shows "length ds = length ss
    \<and> sqlite_run open (concat (map2 (emit_disposition tr) ds ss)) = postgres_run open ss
    \<and> postgres_run open ss \<noteq> None"
  using assms
proof (induction ss arbitrary: "open" ds)
  case (Cons s ss)
  from Cons.prems(1) obtain d o' ds' where d: "ds = d # ds'"
      "analyse_statement open s = Inr (d, o')" "analyse_from o' ss = Inr ds'"
    by (auto simp: res_bind_eq_ok)
  have "sqlite_run open (emit_disposition tr d s) = Some o'"
    using analyse_statement_emits [OF d(2)] Cons.prems by simp
  with Cons.IH [OF d(3)] Cons.prems d show ?case
    by (simp add: sqlite_run_append analyse_statement_postgres)
qed simp

section \<open>Snapshots: what the batch leaves behind\<close>

text \<open>
  A session of a database engine with transactions: the current database, the snapshot taken when
  the open transaction began, and the named snapshots of its savepoints.
\<close>

record ('db, 'snap) session =
  se_db :: 'db
  se_txn :: "'snap option"
  se_savepoints :: "(ident \<times> 'snap) list"

definition savepoint_index :: "(ident \<times> 'snap) list \<Rightarrow> ident \<Rightarrow> nat option" where
  "savepoint_index sps name = find_last_index (\<lambda>(n, _). same_name n name) sps"

fun session_statement ::
  "('db \<Rightarrow> 'snap) \<Rightarrow> ('snap \<Rightarrow> 'db \<Rightarrow> 'db) \<Rightarrow> (nat \<Rightarrow> 'db \<Rightarrow> 'db) \<Rightarrow> nat \<Rightarrow> statement
     \<Rightarrow> ('db, 'snap) session \<Rightarrow> ('db, 'snap) session" where
  "session_statement save restore run i StartTransaction se =
     (if se_txn se = None then se\<lparr>se_txn := Some (save (se_db se)), se_savepoints := []\<rparr> else se)"
| "session_statement save restore run i (Commit chain) se =
     (if se_txn se = None then se
      else se\<lparr>se_txn := (if chain then Some (save (se_db se)) else None), se_savepoints := []\<rparr>)"
| "session_statement save restore run i (Rollback chain None) se =
     (case se_txn se of
        None \<Rightarrow> se
      | Some s \<Rightarrow> let d = restore s (se_db se) in
          \<lparr>se_db = d, se_txn = (if chain then Some (save d) else None), se_savepoints = []\<rparr>)"
| "session_statement save restore run i (Rollback chain (Some name)) se =
     (case savepoint_index (se_savepoints se) name of
        None \<Rightarrow> se
      | Some p \<Rightarrow> se\<lparr>se_db := restore (snd (se_savepoints se ! p)) (se_db se),
          se_savepoints := take (p + 1) (se_savepoints se)\<rparr>)"
| "session_statement save restore run i (Savepoint name) se =
     se\<lparr>se_savepoints := se_savepoints se @ [(name, save (se_db se))]\<rparr>"
| "session_statement save restore run i (ReleaseSavepoint name) se =
     (case savepoint_index (se_savepoints se) name of
        None \<Rightarrow> se
      | Some p \<Rightarrow> se\<lparr>se_savepoints := take p (se_savepoints se)\<rparr>)"
| "session_statement save restore run i _ se = se\<lparr>se_db := run i (se_db se)\<rparr>"

definition session_close :: "('snap \<Rightarrow> 'db \<Rightarrow> 'db) \<Rightarrow> ('db, 'snap) session \<Rightarrow> 'db" where
  "session_close restore se = (case se_txn se of None \<Rightarrow> se_db se | Some s \<Rightarrow> restore s (se_db se))"

definition session_batch ::
  "('db \<Rightarrow> 'snap) \<Rightarrow> ('snap \<Rightarrow> 'db \<Rightarrow> 'db) \<Rightarrow> (nat \<Rightarrow> 'db \<Rightarrow> 'db) \<Rightarrow> statement list \<Rightarrow> 'db \<Rightarrow> 'db" where
  "session_batch save restore run ss d =
     session_close restore
       (fold (\<lambda>(i, s). session_statement save restore run i s) (zip [0..<length ss] ss)
         \<lparr>se_db = d, se_txn = None, se_savepoints = []\<rparr>)"

subsection \<open>Helper facts on outcome updates\<close>

lemma set_outcome_simps [simp]:
  "os_frames (set_outcome i x st) = os_frames st"
  "os_pending (set_outcome i x st) = os_pending st"
  "os_open (set_outcome i x st) = os_open st"
  "os_next (set_outcome i x st) = os_next st"
  "transactions (os_outline (set_outcome i x st)) = transactions (os_outline st)"
  "outcomes (os_outline (set_outcome i x st)) = (outcomes (os_outline st))[i := x]"
  by (simp_all add: set_outcome_def)

lemma set_outcomes_simps [simp]:
  "os_frames (set_outcomes is x st) = os_frames st"
  "os_pending (set_outcomes is x st) = os_pending st"
  "os_open (set_outcomes is x st) = os_open st"
  "os_next (set_outcomes is x st) = os_next st"
  "transactions (os_outline (set_outcomes is x st)) = transactions (os_outline st)"
  "length (outcomes (os_outline (set_outcomes is x st))) = length (outcomes (os_outline st))"
  by (induction "is" arbitrary: st) (simp_all add: set_outcomes_def)

lemma set_outcomes_nth:
  "j < length (outcomes (os_outline st)) \<Longrightarrow>
     outcomes (os_outline (set_outcomes is x st)) ! j =
       (if j \<in> set is then x else outcomes (os_outline st) ! j)"
proof (induction "is" arbitrary: st)
  case (Cons i "is")
  have "set_outcomes (i # is) x st = set_outcomes is x (set_outcome i x st)"
    by (simp add: set_outcomes_def)
  with Cons show ?case by (auto simp: nth_list_update)
qed (simp add: set_outcomes_def)

text \<open>The positions before \<open>k\<close> that are committed as things stand.\<close>

definition committed_now :: "nat \<Rightarrow> outline_state \<Rightarrow> nat list" where
  "committed_now k st = filter (\<lambda>i. outcomes (os_outline st) ! i = Committed) [0..<k]"

lemma committed_now_distinct: "distinct (committed_now k st)"
  by (simp add: committed_now_def)

lemma committed_now_cong:
  assumes "\<And>i. i < k \<Longrightarrow> outcomes (os_outline st) ! i = outcomes (os_outline st') ! i"
  shows "committed_now k st = committed_now k st'"
  unfolding committed_now_def by (rule filter_cong) (auto simp: assms)

lemma filter_notin_append: "distinct (xs @ ys) \<Longrightarrow> filter (\<lambda>i. i \<notin> set ys) (xs @ ys) = xs"
  by (induction xs) auto

lemma committed_now_set_undone:
  assumes "committed_now k st = b @ p" and "k \<le> length (outcomes (os_outline st))"
  shows "committed_now k (set_outcomes (drop m p) Undone st) = b @ take m p"
proof -
  have "distinct ((b @ take m p) @ drop m p)" using committed_now_distinct [of k st] assms(1) by simp
  then have keep: "filter (\<lambda>i. i \<notin> set (drop m p)) ((b @ take m p) @ drop m p) = b @ take m p"
    by (rule filter_notin_append)
  have "committed_now k (set_outcomes (drop m p) Undone st) =
      filter (\<lambda>i. outcomes (os_outline st) ! i = Committed \<and> i \<notin> set (drop m p)) [0..<k]"
    unfolding committed_now_def by (rule filter_cong) (use assms(2) in \<open>auto simp: set_outcomes_nth\<close>)
  also have "\<dots> = filter (\<lambda>i. i \<notin> set (drop m p)) (committed_now k st)"
    by (simp add: committed_now_def conj_commute)
  also have "\<dots> = b @ take m p"
    using keep assms(1) by simp
  finally show ?thesis .
qed

lemma committed_now_set_committed:
  assumes "committed_now k st = b @ p" and "k \<le> length (outcomes (os_outline st))"
  shows "committed_now k (set_outcomes p Committed st) = b @ p"
proof -
  have "committed_now k (set_outcomes p Committed st) = committed_now k st"
    unfolding committed_now_def
  proof (rule filter_cong)
    fix i assume "i \<in> set [0..<k]"
    moreover have "i \<in> set p \<Longrightarrow> outcomes (os_outline st) ! i = Committed"
      using arg_cong [OF assms(1), of set] by (auto simp: committed_now_def)
    ultimately show "(outcomes (os_outline (set_outcomes p Committed st)) ! i = Committed) =
        (outcomes (os_outline st) ! i = Committed)"
      using assms(2) by (auto simp: set_outcomes_nth)
  qed simp
  with assms(1) show ?thesis by simp
qed

lemma committed_now_Suc:
  "committed_now (Suc k) st = committed_now k st @ (if outcomes (os_outline st) ! k = Committed then [k] else [])"
  by (simp add: committed_now_def)

lemma committed_now_set_control [simp]:
  "k < length (outcomes (os_outline st)) \<Longrightarrow> committed_now (Suc k) (set_outcome k Control st) = committed_now k st"
proof -
  assume "k < length (outcomes (os_outline st))"
  then have "outcomes (os_outline (set_outcome k Control st)) ! k = Control" by simp
  moreover have "committed_now k (set_outcome k Control st) = committed_now k st" by (rule committed_now_cong) simp
  ultimately show ?thesis by (simp add: committed_now_Suc)
qed

subsection \<open>The simulation relation\<close>

definition frame_matches ::
  "('db \<Rightarrow> 'snap) \<Rightarrow> (nat \<Rightarrow> 'db \<Rightarrow> 'db) \<Rightarrow> 'db \<Rightarrow> nat list \<Rightarrow> nat list \<Rightarrow> frame \<Rightarrow> ident \<times> 'snap \<Rightarrow> bool" where
  "frame_matches save run d0 base pending f sp \<longleftrightarrow>
     frame_name f = Some (fst sp) \<and> frame_start f \<le> length pending
     \<and> snd sp = save (fold run (base @ take (frame_start f) pending) d0)"

definition open_matches ::
  "('db \<Rightarrow> 'snap) \<Rightarrow> (nat \<Rightarrow> 'db \<Rightarrow> 'db) \<Rightarrow> 'db \<Rightarrow> nat list \<Rightarrow> outline_state \<Rightarrow> ('db, 'snap) session \<Rightarrow> bool" where
  "open_matches save run d0 base st se \<longleftrightarrow>
     (case os_open st of
        None \<Rightarrow> os_pending st = [] \<and> os_frames st = [] \<and> se_txn se = None \<and> se_savepoints se = []
      | Some t \<Rightarrow> se_txn se = Some (save (fold run base d0))
          \<and> (\<exists>fs. os_frames st = open_frame # fs \<and> sorted (map frame_start fs)
              \<and> list_all2 (frame_matches save run d0 base (os_pending st)) fs (se_savepoints se)))"

definition outline_session_rel ::
  "('db \<Rightarrow> 'snap) \<Rightarrow> (nat \<Rightarrow> 'db \<Rightarrow> 'db) \<Rightarrow> 'db \<Rightarrow> nat \<Rightarrow> outline_state \<Rightarrow> ('db, 'snap) session \<Rightarrow> bool" where
  "outline_session_rel save run d0 k st se \<longleftrightarrow>
     k \<le> length (outcomes (os_outline st))
     \<and> (\<forall>j. k \<le> j \<and> j < length (outcomes (os_outline st)) \<longrightarrow> outcomes (os_outline st) ! j = Committed)
     \<and> (\<exists>base. committed_now k st = base @ os_pending st
          \<and> se_db se = fold run (base @ os_pending st) d0
          \<and> open_matches save run d0 base st se)"

lemma find_last_index_list_all2:
  "list_all2 (\<lambda>x y. P x \<longleftrightarrow> Q y) xs ys \<Longrightarrow> find_last_index P xs = find_last_index Q ys"
  by (induction rule: list_all2_induct) (auto split: option.splits)

lemma innermost_savepoint_index:
  assumes "list_all2 (frame_matches save run d0 base p) fs sps"
  shows "innermost (open_frame # fs) name = map_option Suc (savepoint_index sps name)"
proof -
  have "list_all2 (\<lambda>f sp. frame_named name (frame_name f) \<longleftrightarrow> (\<lambda>(n, _). same_name n name) sp) fs sps"
    using assms by (rule list_all2_mono) (auto simp: frame_matches_def frame_named_def)
  then have "find_last_index (\<lambda>f. frame_named name (frame_name f)) fs = savepoint_index sps name"
    unfolding savepoint_index_def by (rule find_last_index_list_all2)
  then show ?thesis
    by (simp add: innermost_def open_frame_def frame_named_def split: option.splits)
qed

lemma frame_matches_snoc:
  "list_all2 (frame_matches save run d0 base p) fs sps \<Longrightarrow>
     list_all2 (frame_matches save run d0 base (p @ [i])) fs sps"
  by (erule list_all2_mono) (auto simp: frame_matches_def)

lemma frame_matches_take:
  assumes "list_all2 (frame_matches save run d0 base p) fs sps" and "sorted (map frame_start fs)"
    and "q < length fs"
  shows "list_all2 (frame_matches save run d0 base (take (frame_start (fs ! q)) p))
           (take (Suc q) fs) (take (Suc q) sps)"
proof (rule list_all2_all_nthI)
  from assms(1) have len: "length fs = length sps" by (rule list_all2_lengthD)
  then show "length (take (Suc q) fs) = length (take (Suc q) sps)" by simp
  fix n assume "n < length (take (Suc q) fs)"
  then have n: "n \<le> q" "n < length fs" by auto
  have "frame_start (fs ! n) \<le> frame_start (fs ! q)"
    using sorted_nth_mono [OF assms(2), of n q] n assms(3) by simp
  with list_all2_nthD [OF assms(1) n(2)] n
  show "frame_matches save run d0 base (take (frame_start (fs ! q)) p) (take (Suc q) fs ! n) (take (Suc q) sps ! n)"
    by (auto simp: frame_matches_def min_def)
qed

lemma open_matches_set_outcome [simp]:
  "open_matches save run d0 base (set_outcome i x st) se = open_matches save run d0 base st se"
  "open_matches save run d0 base (set_outcomes is x st) se = open_matches save run d0 base st se"
  by (simp_all add: open_matches_def cong: option.case_cong)

lemma session_rel_control:
  assumes "outline_session_rel save run d0 k st se" and "k < length (outcomes (os_outline st))"
  shows "outline_session_rel save run d0 (Suc k) (set_outcome k Control st) se"
  using assms by (auto simp: outline_session_rel_def)

lemma session_rel_pending_less:
  assumes "outline_session_rel save run d0 k st se"
  shows "set (os_pending st) \<subseteq> {..<k}"
proof -
  obtain base where "committed_now k st = base @ os_pending st"
    using assms by (auto simp: outline_session_rel_def)
  from arg_cong [OF this, of set] show ?thesis by (auto simp: committed_now_def)
qed

subsection \<open>Every statement keeps the relation\<close>

lemma session_rel_open:
  assumes "outline_session_rel save run d0 k st se" and "os_open st = None"
  shows "outline_session_rel save run d0 k (open_transaction st)
           (se\<lparr>se_txn := Some (save (se_db se)), se_savepoints := []\<rparr>)"
  using assms
  by (auto simp: outline_session_rel_def open_matches_def open_transaction_def committed_now_def)

lemma session_rel_savepoint:
  assumes "outline_session_rel save run d0 k st se" and "os_open st = Some t"
  shows "outline_session_rel save run d0 k
           (st\<lparr>os_frames := os_frames st @ [\<lparr>frame_name = Some name, frame_start = length (os_pending st)\<rparr>]\<rparr>)
           (se\<lparr>se_savepoints := se_savepoints se @ [(name, save (se_db se))]\<rparr>)"
proof -
  obtain base fs where b: "committed_now k st = base @ os_pending st"
      "se_db se = fold run (base @ os_pending st) d0" "se_txn se = Some (save (fold run base d0))"
      "os_frames st = open_frame # fs" "sorted (map frame_start fs)"
      "list_all2 (frame_matches save run d0 base (os_pending st)) fs (se_savepoints se)"
    using assms by (auto simp: outline_session_rel_def open_matches_def)
  let ?f = "\<lparr>frame_name = Some name, frame_start = length (os_pending st)\<rparr>"
  have starts: "\<forall>f\<in>set fs. frame_start f \<le> length (os_pending st)"
    using b(6) by (fastforce simp: list_all2_conv_all_nth frame_matches_def in_set_conv_nth)
  have "list_all2 (frame_matches save run d0 base (os_pending st)) (fs @ [?f])
          (se_savepoints se @ [(name, save (se_db se))])"
    using b by (intro list_all2_appendI) (auto simp: frame_matches_def)
  moreover have "sorted (map frame_start (fs @ [?f]))"
    using b(5) starts by (auto simp: sorted_append)
  ultimately show ?thesis
    using assms b by (auto simp: outline_session_rel_def open_matches_def committed_now_def)
qed

lemma session_rel_release:
  assumes "outline_session_rel save run d0 k st se" and "os_open st = Some t"
  shows "outline_session_rel save run d0 k
           (case innermost (os_frames st) name of None \<Rightarrow> st
            | Some p \<Rightarrow> st\<lparr>os_frames := take p (os_frames st)\<rparr>)
           (case savepoint_index (se_savepoints se) name of None \<Rightarrow> se
            | Some p \<Rightarrow> se\<lparr>se_savepoints := take p (se_savepoints se)\<rparr>)"
proof -
  obtain base fs where b: "committed_now k st = base @ os_pending st"
      "se_db se = fold run (base @ os_pending st) d0" "se_txn se = Some (save (fold run base d0))"
      "os_frames st = open_frame # fs" "sorted (map frame_start fs)"
      "list_all2 (frame_matches save run d0 base (os_pending st)) fs (se_savepoints se)"
    using assms by (auto simp: outline_session_rel_def open_matches_def)
  have idx: "innermost (os_frames st) name = map_option Suc (savepoint_index (se_savepoints se) name)"
    unfolding b(4) by (rule innermost_savepoint_index [OF b(6)])
  show ?thesis
  proof (cases "savepoint_index (se_savepoints se) name")
    case None
    with idx assms show ?thesis by simp
  next
    case (Some q)
    have "list_all2 (frame_matches save run d0 base (os_pending st)) (take q fs) (take q (se_savepoints se))"
      using b(6) by (rule list_all2_takeI)
    moreover have "sorted (map frame_start (take q fs))"
      using b(5) by (simp add: take_map [symmetric] sorted_wrt_take)
    ultimately show ?thesis
      using Some idx assms b by (auto simp: outline_session_rel_def open_matches_def committed_now_def)
  qed
qed

lemma session_rel_finish_commit:
  assumes "outline_session_rel save run d0 k st se" and "os_open st = Some t"
  shows "outline_session_rel save run d0 k (finish_transaction Committed False st)
           (se\<lparr>se_txn := None, se_savepoints := []\<rparr>)"
proof -
  obtain base where b: "committed_now k st = base @ os_pending st" "se_db se = fold run (base @ os_pending st) d0"
      "k \<le> length (outcomes (os_outline st))"
    using assms by (auto simp: outline_session_rel_def)
  have "committed_now k (finish_transaction Committed False st) = base @ os_pending st"
    using committed_now_set_committed [OF b(1,3)] by (simp add: finish_transaction_def committed_now_def)
  moreover have "\<And>j. k \<le> j \<Longrightarrow> j \<notin> set (os_pending st)"
    using session_rel_pending_less [OF assms(1)] by auto
  ultimately show ?thesis
    using assms(1) b by (auto simp: outline_session_rel_def open_matches_def finish_transaction_def
        set_outcomes_nth)
qed

lemma session_rel_plain:
  assumes "outline_session_rel save run d0 k st se" and "k < length (outcomes (os_outline st))"
  shows "outline_session_rel save run d0 (Suc k)
           (case os_open st of None \<Rightarrow> st
            | Some t \<Rightarrow> st\<lparr>os_pending := os_pending st @ [k],
                os_outline := (os_outline st)\<lparr>transactions := (transactions (os_outline st))[k := Some t]\<rparr>\<rparr>)
           (se\<lparr>se_db := run k (se_db se)\<rparr>)"
proof -
  from assms have k: "outcomes (os_outline st) ! k = Committed" by (simp add: outline_session_rel_def)
  obtain base where b: "committed_now k st = base @ os_pending st" "se_db se = fold run (base @ os_pending st) d0"
      "open_matches save run d0 base st se"
    using assms by (auto simp: outline_session_rel_def)
  show ?thesis
  proof (cases "os_open st")
    case None
    with b have "committed_now (Suc k) st = (base @ [k]) @ os_pending st"
      "run k (se_db se) = fold run ((base @ [k]) @ os_pending st) d0"
      "open_matches save run d0 (base @ [k]) st (se\<lparr>se_db := run k (se_db se)\<rparr>)"
      using k by (auto simp: committed_now_Suc open_matches_def)
    with None assms show ?thesis
      unfolding outline_session_rel_def by (intro conjI) (auto intro!: exI [of _ "base @ [k]"])
  next
    case (Some t)
    then show ?thesis
      using assms b k by (auto simp: outline_session_rel_def open_matches_def committed_now_def
          intro: frame_matches_snoc)
  qed
qed

lemma session_rel_txn_iff:
  "outline_session_rel save run d0 k st se \<Longrightarrow> se_txn se = None \<longleftrightarrow> os_open st = None"
  by (auto simp: outline_session_rel_def open_matches_def split: option.splits)

lemma finish_transaction_chain:
  "finish_transaction x True st = open_transaction (finish_transaction x False st)"
  by (simp add: finish_transaction_def Let_def)

lemma finish_transaction_open [simp]: "os_open (finish_transaction x chain st) = None \<longleftrightarrow> \<not> chain"
  by (simp add: finish_transaction_def open_transaction_def Let_def)

lemma open_transaction_open [simp]: "os_open (open_transaction st) = Some (os_next st)"
  by (simp add: open_transaction_def)

lemma outline_statement_plain:
  "\<not> is_control s \<Longrightarrow> outline_statement i s st =
     (case os_open st of None \<Rightarrow> st
      | Some t \<Rightarrow> st\<lparr>os_pending := os_pending st @ [i],
          os_outline := (os_outline st)\<lparr>transactions := (transactions (os_outline st))[i := Some t]\<rparr>\<rparr>)"
  "\<not> is_control s \<Longrightarrow> session_statement save restore run i s se = se\<lparr>se_db := run i (se_db se)\<rparr>"
  "\<not> is_control s \<Longrightarrow> analyse_statement open s = Inr (d, o') \<Longrightarrow> d = Translate \<and> o' = open"
  by (cases s; simp split: if_splits)+

lemma outline_statement_length:
  "length (outcomes (os_outline (outline_step (i, s, d) st))) = length (outcomes (os_outline st))"
  by (cases "(i, s, st)" rule: outline_statement.cases; cases d)
    (auto simp: outline_step_def finish_transaction_def open_transaction_def Let_def
      split: option.splits)

section \<open>Engines with snapshots\<close>

text \<open>
  What the outline relies on of an engine: restoring a snapshot brings back the database it was
  taken of, whatever happened since.
\<close>

locale snapshot_engine =
  fixes save :: "'db \<Rightarrow> 'snap"
    and restore :: "'snap \<Rightarrow> 'db \<Rightarrow> 'db"
    and run :: "nat \<Rightarrow> 'db \<Rightarrow> 'db"
  assumes restore_save: "restore (save d) d' = d"
begin

lemma session_rel_rollback_to:
  assumes "outline_session_rel save run d0 k st se" and "os_open st = Some t"
  shows "outline_session_rel save run d0 k
           (case innermost (os_frames st) name of None \<Rightarrow> st
            | Some p \<Rightarrow> let start = frame_start (os_frames st ! p) in
                (set_outcomes (drop start (os_pending st)) Undone st)
                  \<lparr>os_pending := take start (os_pending st), os_frames := take (p + 1) (os_frames st)\<rparr>)
           (case savepoint_index (se_savepoints se) name of None \<Rightarrow> se
            | Some p \<Rightarrow> se\<lparr>se_db := restore (snd (se_savepoints se ! p)) (se_db se),
                se_savepoints := take (p + 1) (se_savepoints se)\<rparr>)"
proof -
  obtain base fs where b: "committed_now k st = base @ os_pending st" "k \<le> length (outcomes (os_outline st))"
      "se_txn se = Some (save (fold run base d0))"
      "os_frames st = open_frame # fs" "sorted (map frame_start fs)"
      "list_all2 (frame_matches save run d0 base (os_pending st)) fs (se_savepoints se)"
    using assms by (auto simp: outline_session_rel_def open_matches_def)
  have idx: "innermost (os_frames st) name = map_option Suc (savepoint_index (se_savepoints se) name)"
    unfolding b(4) by (rule innermost_savepoint_index [OF b(6)])
  show ?thesis
  proof (cases "savepoint_index (se_savepoints se) name")
    case None
    with idx assms show ?thesis by simp
  next
    case (Some q)
    then have "q < length (se_savepoints se)"
      unfolding savepoint_index_def by (auto dest: find_last_index_SomeD)
    then have q: "q < length fs" using list_all2_lengthD [OF b(6)] by simp
    let ?m = "frame_start (fs ! q)"
    have snap: "snd (se_savepoints se ! q) = save (fold run (base @ take ?m (os_pending st)) d0)"
      using list_all2_nthD [OF b(6) q] by (simp add: frame_matches_def)
    have fresh: "\<And>j. k \<le> j \<Longrightarrow> j \<notin> set (drop ?m (os_pending st))"
      using session_rel_pending_less [OF assms(1)] by (meson in_set_dropD lessThan_iff not_le subsetD)
    have "sorted (map frame_start (take (Suc q) fs))"
      using b(5) by (simp add: take_map [symmetric] sorted_wrt_take)
    then show ?thesis
      using Some idx assms b snap fresh committed_now_set_undone [OF b(1,2), of ?m]
        frame_matches_take [OF b(6,5) q]
      by (auto simp: outline_session_rel_def open_matches_def set_outcomes_nth committed_now_def restore_save Let_def)
  qed
qed

lemma session_rel_finish_rollback:
  assumes "outline_session_rel save run d0 k st se" and "os_open st = Some t"
    and "se_txn se = Some s"
  shows "outline_session_rel save run d0 k (finish_transaction Undone False st)
           \<lparr>se_db = restore s (se_db se), se_txn = None, se_savepoints = []\<rparr>"
proof -
  obtain base where b: "committed_now k st = base @ os_pending st" "k \<le> length (outcomes (os_outline st))"
      "se_txn se = Some (save (fold run base d0))"
    using assms by (auto simp: outline_session_rel_def open_matches_def)
  have "committed_now k (finish_transaction Undone False st) = base"
    using committed_now_set_undone [OF b(1,2), of 0] by (simp add: finish_transaction_def committed_now_def)
  moreover have "\<And>j. k \<le> j \<Longrightarrow> j \<notin> set (os_pending st)"
    using session_rel_pending_less [OF assms(1)] by auto
  ultimately show ?thesis
    using assms b by (auto simp: outline_session_rel_def open_matches_def finish_transaction_def
        set_outcomes_nth restore_save)
qed

lemma session_rel_finish:
  assumes "outline_session_rel save run d0 k st se" and "os_open st = Some t"
  shows "outline_session_rel save run d0 k (finish_transaction Committed chain st)
           (session_statement save restore run i (Commit chain) se)"
    and "outline_session_rel save run d0 k (finish_transaction Undone chain st)
           (session_statement save restore run i (Rollback chain None) se)"
proof -
  obtain s where s: "se_txn se = Some s"
    using session_rel_txn_iff [OF assms(1)] assms(2) by auto
  note commit = session_rel_finish_commit [OF assms]
  show "outline_session_rel save run d0 k (finish_transaction Committed chain st)
          (session_statement save restore run i (Commit chain) se)"
    using commit session_rel_open [OF commit] s by (cases chain) (simp_all add: finish_transaction_chain)
  note rollback = session_rel_finish_rollback [OF assms s]
  show "outline_session_rel save run d0 k (finish_transaction Undone chain st)
          (session_statement save restore run i (Rollback chain None) se)"
    using rollback session_rel_open [OF rollback] s
    by (cases chain) (simp_all add: finish_transaction_chain Let_def)
qed

lemma session_rel_step:
  assumes rel: "outline_session_rel save run d0 k st se" and k: "k < length (outcomes (os_outline st))"
    and an: "analyse_statement (os_open st \<noteq> None) s = Inr (d, o')"
  shows "outline_session_rel save run d0 (Suc k) (outline_step (k, s, d) st)
           (session_statement save restore run k s se)
         \<and> (os_open (outline_step (k, s, d) st) \<noteq> None) = o'"
proof (cases "is_control s")
  case False
  have "d = Translate" and "o' = (os_open st \<noteq> None)"
    using outline_statement_plain(3) [OF False an] by auto
  then show ?thesis
    using session_rel_plain [OF rel k]
    by (simp add: outline_statement_plain(1,2) [OF False] outline_step_def split: option.splits)
next
  case True
  have ctl: "outline_session_rel save run d0 (Suc k) (set_outcome k Control st) se"
    by (rule session_rel_control [OF rel k])
  note txn = session_rel_txn_iff [OF rel]
  show ?thesis
  proof (cases "os_open st")
    case None
    with True an ctl txn session_rel_open [OF ctl] show ?thesis
      by (cases s) (auto simp: outline_step_def split: if_splits option.splits)
  next
    case (Some t)
    then have os: "os_open (set_outcome k Control st) = Some t" by simp
    from True Some an show ?thesis
    proof (cases s)
      case (ReleaseSavepoint name)
      with an Some have "d = Translate" "o'" by auto
      with ReleaseSavepoint session_rel_release [OF ctl os, of name] Some show ?thesis
        by (simp add: outline_step_def Let_def cong: option.case_cong) (simp split: option.splits)
    next
      case (Rollback chain savepoint)
      show ?thesis
      proof (cases savepoint)
        case None
        with Rollback an Some session_rel_finish [OF ctl os, of chain k] show ?thesis
          by (simp add: outline_step_def split: if_splits)
      next
        case (Some name)
        with Rollback an \<open>os_open st = Some t\<close> have "d = Translate" "o'" by auto
        with Rollback Some session_rel_rollback_to [OF ctl os, of name] \<open>os_open st = Some t\<close> show ?thesis
          by (simp add: outline_step_def Let_def cong: option.case_cong) (simp split: option.splits)
      qed
    qed (use an ctl txn session_rel_savepoint [OF ctl os] session_rel_finish [OF ctl os] Some in
        \<open>auto simp: outline_step_def split: if_splits\<close>)
  qed
qed

lemma session_rel_fold:
  assumes "outline_session_rel save run d0 k st se"
    and "length (outcomes (os_outline st)) = k + length ss"
    and "analyse_from (os_open st \<noteq> None) ss = Inr ds"
  shows "outline_session_rel save run d0 (k + length ss)
           (fold outline_step (zip [k..<k + length ss] (zip ss ds)) st)
           (fold (\<lambda>(i, s). session_statement save restore run i s) (zip [k..<k + length ss] ss) se)"
  using assms
proof (induction ss arbitrary: k st se ds)
  case (Cons s ss)
  from Cons.prems(3) obtain d o' ds' where d: "ds = d # ds'"
      "analyse_statement (os_open st \<noteq> None) s = Inr (d, o')" "analyse_from o' ss = Inr ds'"
    by (auto simp: res_bind_eq_ok)
  have "k < length (outcomes (os_outline st))" using Cons.prems(2) by simp
  note step = session_rel_step [OF Cons.prems(1) this d(2)]
  have "[k..<k + length (s # ss)] = k # [Suc k..<Suc k + length ss]"
    using upt_conv_Cons [of k "k + length (s # ss)"] by simp
  moreover have "length (outcomes (os_outline (outline_step (k, s, d) st))) = Suc k + length ss"
    using Cons.prems(2) by (simp add: outline_statement_length)
  ultimately show ?case
    using Cons.IH [OF conjunct1 [OF step]] conjunct2 [OF step] d by simp
qed simp

lemma batch_refines:
  assumes "analyse ss = Inr ds"
  shows "session_batch save restore run ss d = fold run (committed_indices (outline_new ss ds)) d"
proof -
  let ?st = "fold outline_step (zip [0..<length ss] (zip ss ds)) (outline_init (length ss))"
  let ?se = "fold (\<lambda>(i, s). session_statement save restore run i s) (zip [0..<length ss] ss)
               \<lparr>se_db = d, se_txn = None, se_savepoints = []\<rparr>"
  have "outline_session_rel save run d 0 (outline_init (length ss))
          \<lparr>se_db = d, se_txn = None, se_savepoints = []\<rparr>"
    by (simp add: outline_session_rel_def open_matches_def outline_init_def committed_now_def)
  then have rel: "outline_session_rel save run d (length ss) ?st ?se"
    using session_rel_fold [of d 0 "outline_init (length ss)" _ ss ds] assms
    by (simp add: outline_init_def analyse_def)
  have len: "length (outcomes (os_outline ?st)) = length ss"
  proof -
    have "length (outcomes (os_outline (fold outline_step xs st))) = length (outcomes (os_outline st))" for xs st
      by (induction xs arbitrary: st) (auto simp: outline_statement_length)
    then show ?thesis by (simp add: outline_init_def)
  qed
  obtain base where b: "committed_now (length ss) ?st = base @ os_pending ?st"
      "se_db ?se = fold run (base @ os_pending ?st) d" "open_matches save run d base ?st ?se"
    using rel by (auto simp: outline_session_rel_def)
  have "committed_indices (outline_new ss ds) = base"
    using committed_now_set_undone [OF b(1), of 0] len
    by (simp add: committed_indices_def outline_new_def Let_def committed_now_def)
  moreover have "session_close restore ?se = fold run base d"
    using b by (auto simp: session_close_def open_matches_def restore_save split: option.splits)
  ultimately show ?thesis by (simp add: session_batch_def)
qed

end

text \<open>Snapshots kept as values, as a model of the database keeps them.\<close>

interpretation value_snapshots: snapshot_engine "\<lambda>d. d" "\<lambda>s _. s" run for run
  by unfold_locales simp

lemma outline_new_length: "length (outcomes (outline_new ss ds)) = length ss"
proof -
  have "length (outcomes (os_outline (fold outline_step xs st))) = length (outcomes (os_outline st))" for xs st
    by (induction xs arbitrary: st) (auto simp: outline_statement_length)
  then show ?thesis by (simp add: outline_new_def Let_def outline_init_def)
qed

section \<open>Properties\<close>

text \<open>
  C2. For every batch the nesting analysis accepts, running it on an engine that takes snapshots at
  \<open>BEGIN\<close> and at savepoints and restores them on rollback (and at the end of the batch, when a
  transaction is left open) leaves exactly the database that the statements with outcome
  \<open>Committed\<close> produce when they alone run, in source order, whatever a statement does to the
  database.
\<close>

theorem committed_statements_are_the_batch:
  assumes "analyse ss = ok ds"
  shows "session_batch (\<lambda>d. d) (\<lambda>s _. s) run ss d = fold run (committed_indices (outline_new ss ds)) d"
  using assms by (intro value_snapshots.batch_refines) simp

theorem committed_statements_are_the_batch_witness:
  "\<exists>ds. analyse [StartTransaction, OtherStatement ''a'', Savepoint (bare_ident ''s''), OtherStatement ''b'',
         Rollback False (Some (bare_ident ''S'')), OtherStatement ''c'', Commit False, OtherStatement ''d''] = ok ds
     \<and> session_batch (\<lambda>d. d) (\<lambda>s _. s) (\<lambda>i d. d @ [i])
         [StartTransaction, OtherStatement ''a'', Savepoint (bare_ident ''s''), OtherStatement ''b'',
          Rollback False (Some (bare_ident ''S'')), OtherStatement ''c'', Commit False, OtherStatement ''d''] []
       = [1, 5, 7]"
proof -
  let ?ss = "[StartTransaction, OtherStatement ''a'', Savepoint (bare_ident ''s''), OtherStatement ''b'',
    Rollback False (Some (bare_ident ''S'')), OtherStatement ''c'', Commit False, OtherStatement ''d'']"
  have a: "analyse ?ss = ok (replicate 8 Translate)" by code_simp
  have c: "committed_indices (outline_new ?ss (replicate 8 Translate)) = [1, 5, 7]" by code_simp
  have "session_batch (\<lambda>d. d) (\<lambda>s _. s) (\<lambda>i d. d @ [i]) ?ss [] = [1, 5, 7]"
    using committed_statements_are_the_batch [OF a, of "\<lambda>i d. d @ [i]" "[]"] c by simp
  with a show ?thesis by blast
qed


text \<open>
  C15. The script emitted for an accepted batch never breaks SQLite's nesting rules (no nested
  \<open>BEGIN\<close>, no \<open>COMMIT\<close> or \<open>ROLLBACK\<close> without a transaction, no \<open>AND CHAIN\<close>, no savepoint outside a
  transaction), and it ends with a transaction open exactly when PostgreSQL does after the source
  batch. The translation \<open>tr\<close> of the other statements emits no transaction control.
\<close>

theorem emitted_control_runs_on_sqlite:
  assumes "analyse ss = ok ds" and "list_all well_formed_control ss"
    and "\<And>s. s \<in> set ss \<Longrightarrow> \<not> is_control s \<Longrightarrow> list_all (\<lambda>x. \<not> is_control x) (tr s)"
  shows "sqlite_run False (concat (map2 (emit_disposition tr) ds ss)) = postgres_run False ss
    \<and> postgres_run False ss \<noteq> None"
  using analyse_from_emits [of False ss ds tr] assms by (simp add: analyse_def)

theorem emitted_control_runs_on_sqlite_witness:
  "sqlite_run False (concat (map2 (emit_disposition (\<lambda>s. [s]))
      [DropNoOp ''COMMIT'' REASON_NO_TRANSACTION_OPEN, Translate,
       DropNoOp ''BEGIN'' REASON_BEGIN_ALREADY_OPEN, Translate, Translate]
      [Commit False, StartTransaction, StartTransaction, Commit True, OtherStatement ''x''])) = Some True"
proof -
  let ?ss = "[Commit False, StartTransaction, StartTransaction, Commit True, OtherStatement ''x'']"
  let ?ds = "[DropNoOp ''COMMIT'' REASON_NO_TRANSACTION_OPEN, Translate,
    DropNoOp ''BEGIN'' REASON_BEGIN_ALREADY_OPEN, Translate, Translate]"
  have "analyse ?ss = ok ?ds" by code_simp
  moreover have "list_all well_formed_control ?ss" by simp
  moreover have "\<And>s. s \<in> set ?ss \<Longrightarrow> \<not> is_control s \<Longrightarrow> list_all (\<lambda>x. \<not> is_control x) ((\<lambda>s. [s]) s)"
    by simp
  ultimately have "sqlite_run False (concat (map2 (emit_disposition (\<lambda>s. [s])) ?ds ?ss)) = postgres_run False ?ss"
    by (rule emitted_control_runs_on_sqlite [THEN conjunct1])
  also have "\<dots> = Some True" by simp
  finally show ?thesis .
qed

end
