(* ===== verification/Transaction_Errors.thy ===== *)
theory Transaction_Errors
  imports Transactions
begin

text \<open>
  The errors of transaction control, on both sides. PostgreSQL's session is a stack of savepoint names and
  answers a statement with the new stack or with the error it raises; SQLite's is a stack too, with its own
  rules and its own comparison of names. The nesting analysis and the translation of control statements
  stand between them.
\<close>

section \<open>PostgreSQL\<close>

datatype (plugins only: code size) pg_error = NoActiveTransaction | ActiveTransaction | NoSuchSavepoint

type_synonym txn_stack = "ident list option"

definition pg_savepoint :: "ident list \<Rightarrow> ident \<Rightarrow> nat option" where
  "pg_savepoint sps name = find_last_index (\<lambda>n. same_name n name) sps"

text \<open>Outside a block the stack is \<open>None\<close>; the newest savepoint stands last. A second \<open>BEGIN\<close> and an unmatched
  \<open>COMMIT\<close> or \<open>ROLLBACK\<close> are warnings.\<close>

fun pg_control :: "txn_stack \<Rightarrow> statement \<Rightarrow> pg_error + txn_stack" where
  "pg_control None StartTransaction = Inr (Some [])"
| "pg_control None (Commit chain) = (if chain then Inl NoActiveTransaction else Inr None)"
| "pg_control None (Rollback chain None) = (if chain then Inl NoActiveTransaction else Inr None)"
| "pg_control None (Rollback chain (Some name)) = Inl NoActiveTransaction"
| "pg_control None (Savepoint name) = Inl NoActiveTransaction"
| "pg_control None (ReleaseSavepoint name) = Inl NoActiveTransaction"
| "pg_control (Some sps) (Commit chain) = Inr (if chain then Some [] else None)"
| "pg_control (Some sps) (Rollback chain None) = Inr (if chain then Some [] else None)"
| "pg_control (Some sps) (Rollback chain (Some name)) =
     (case pg_savepoint sps name of None \<Rightarrow> Inl NoSuchSavepoint | Some p \<Rightarrow> Inr (Some (take (Suc p) sps)))"
| "pg_control (Some sps) (Savepoint name) = Inr (Some (sps @ [name]))"
| "pg_control (Some sps) (ReleaseSavepoint name) =
     (case pg_savepoint sps name of None \<Rightarrow> Inl NoSuchSavepoint | Some p \<Rightarrow> Inr (Some (take p sps)))"
| "pg_control (Some sps) (CreateIndex ix) = (if ci_concurrently ix then Inl ActiveTransaction else Inr (Some sps))"
| "pg_control st s = Inr st"

text \<open>A batch up to its first error, and where that is.\<close>

fun pg_batch :: "txn_stack \<Rightarrow> statement list \<Rightarrow> (nat \<times> pg_error) + txn_stack" where
  "pg_batch st [] = Inr st"
| "pg_batch st (s # ss) = (case pg_control st s of
     Inl e \<Rightarrow> Inl (0, e)
   | Inr st' \<Rightarrow> (case pg_batch st' ss of Inl (i, e) \<Rightarrow> Inl (Suc i, e) | Inr r \<Rightarrow> Inr r))"

section \<open>SQLite\<close>

text \<open>SQLite compares savepoint names without regard to case or quotes. A nested \<open>BEGIN\<close>, a \<open>COMMIT\<close> or
  \<open>ROLLBACK\<close> without a transaction, \<open>AND CHAIN\<close> and an unknown savepoint are errors. A savepoint outside a
  transaction would open one; it counts as an error, since no statement stands for it.\<close>

definition sq_savepoint :: "ident list \<Rightarrow> ident \<Rightarrow> nat option" where
  "sq_savepoint sps name = find_last_index (\<lambda>n. eq_ignore_ascii_case (ident_value n) (ident_value name)) sps"

fun sq_control :: "txn_stack \<Rightarrow> statement \<Rightarrow> txn_stack option" where
  "sq_control st StartTransaction = (if st = None then Some (Some []) else None)"
| "sq_control st (Commit chain) = (if st = None \<or> chain then None else Some None)"
| "sq_control st (Rollback chain None) = (if st = None \<or> chain then None else Some None)"
| "sq_control st (Rollback chain (Some name)) = (if chain then None else
     Option.bind st (\<lambda>sps. map_option (\<lambda>p. Some (take (Suc p) sps)) (sq_savepoint sps name)))"
| "sq_control st (Savepoint name) = map_option (\<lambda>sps. Some (sps @ [name])) st"
| "sq_control st (ReleaseSavepoint name) =
     Option.bind st (\<lambda>sps. map_option (\<lambda>p. Some (take p sps)) (sq_savepoint sps name))"
| "sq_control st _ = Some st"

fun sq_batch :: "txn_stack \<Rightarrow> statement list \<Rightarrow> txn_stack option" where
  "sq_batch st [] = Some st"
| "sq_batch st (s # ss) = Option.bind (sq_control st s) (\<lambda>st'. sq_batch st' ss)"

lemma sq_batch_append: "sq_batch st (xs @ ys) = Option.bind (sq_batch st xs) (\<lambda>st'. sq_batch st' ys)"
  by (induction xs arbitrary: st) (auto simp: bind_assoc)

lemma sq_batch_plain: "list_all (\<lambda>s. \<not> is_control s) ss \<Longrightarrow> sq_batch st ss = Some st"
proof (induction ss)
  case (Cons s ss)
  then show ?case by (cases s) auto
qed simp

section \<open>One statement\<close>

fun names_used :: "statement \<Rightarrow> ident list" where
  "names_used (Savepoint name) = [name]"
| "names_used (ReleaseSavepoint name) = [name]"
| "names_used (Rollback _ (Some name)) = [name]"
| "names_used _ = []"

text \<open>Names both systems tell apart alike.\<close>

definition unambiguous :: "ident set \<Rightarrow> bool" where
  "unambiguous N \<longleftrightarrow> (\<forall>n \<in> N. \<forall>m \<in> N. same_name n m \<longleftrightarrow> eq_ignore_ascii_case (ident_value n) (ident_value m))"

definition stack_names :: "txn_stack \<Rightarrow> ident set" where
  "stack_names st = (case st of None \<Rightarrow> {} | Some sps \<Rightarrow> set sps)"

lemma find_last_index_cong:
  "(\<And>x. x \<in> set xs \<Longrightarrow> P x = Q x) \<Longrightarrow> find_last_index P xs = find_last_index Q xs"
  by (induction xs) (auto split: option.splits)

lemma savepoints_agree:
  assumes "unambiguous N" "set sps \<subseteq> N" "name \<in> N"
  shows "sq_savepoint sps name = pg_savepoint sps name"
  using assms unfolding sq_savepoint_def pg_savepoint_def unambiguous_def
  by (intro find_last_index_cong) auto

lemma pg_control_names:
  assumes "pg_control st s = Inr st'" shows "stack_names st' \<subseteq> stack_names st \<union> set (names_used s)"
  using assms by (cases "(st, s)" rule: pg_control.cases)
    (auto simp: stack_names_def dest: in_set_takeD split: if_splits option.splits)

lemma plain_statement:
  assumes "\<not> is_control s" and "list_all (\<lambda>x. \<not> is_control x) (tr s)"
  shows "sq_batch st (emit_disposition tr Translate s) = Some st"
proof -
  have "translate_control tr s = tr s" using assms(1) by (cases s) auto
  then show ?thesis using sq_batch_plain [OF assms(2)] by simp
qed

lemma control_step:
  assumes "unambiguous N" "stack_names st \<subseteq> N" "set (names_used s) \<subseteq> N" "well_formed_control s"
    and plain: "\<not> is_control s \<Longrightarrow> list_all (\<lambda>x. \<not> is_control x) (tr s)"
  shows "case pg_control st s of
      Inr st' \<Rightarrow> (\<exists>d. analyse_statement (st \<noteq> None) s = ok (d, st' \<noteq> None) \<and> sq_batch st (emit_disposition tr d s) = Some st')
    | Inl NoSuchSavepoint \<Rightarrow> (\<exists>d o'. analyse_statement (st \<noteq> None) s = ok (d, o') \<and> sq_batch st (emit_disposition tr d s) = None)
    | Inl _ \<Rightarrow> (\<exists>r. analyse_statement (st \<noteq> None) s = refuse r)"
proof (cases "is_control s")
  case True
  have agree: "sq_savepoint sps name = pg_savepoint sps name" if "st = Some sps" "name \<in> set (names_used s)" for sps name
    using savepoints_agree [OF assms(1)] assms(2,3) that by (auto simp: stack_names_def)
  show ?thesis using True assms(4) agree
    by (cases "(st, s)" rule: pg_control.cases)
      (auto simp: translate_commit_def translate_rollback_def ok_def refuse_def split: option.splits)
next
  case False
  then show ?thesis using plain_statement [of s tr st, OF False plain [OF False]]
    by (cases "(st, s)" rule: pg_control.cases) (auto simp: ok_def refuse_def)
qed

section \<open>A batch\<close>

definition emitted :: "(statement \<Rightarrow> statement list) \<Rightarrow> disposition list \<Rightarrow> statement list \<Rightarrow> statement list" where
  "emitted tr ds ss = concat (map2 (emit_disposition tr) ds ss)"

definition errors_carried :: "(statement \<Rightarrow> statement list) \<Rightarrow> txn_stack \<Rightarrow> statement list \<Rightarrow> bool" where
  "errors_carried tr st ss \<longleftrightarrow> (case pg_batch st ss of
     Inr st' \<Rightarrow> (\<exists>ds. analyse_from (st \<noteq> None) ss = ok ds \<and> sq_batch st (emitted tr ds ss) = Some st')
   | Inl (i, NoSuchSavepoint) \<Rightarrow>
       (\<exists>ds. analyse_from (st \<noteq> None) (take (Suc i) ss) = ok ds \<and> sq_batch st (emitted tr ds (take (Suc i) ss)) = None)
   | Inl (i, _) \<Rightarrow>
       (\<exists>ds. analyse_from (st \<noteq> None) (take i ss) = ok ds) \<and> (\<exists>r. analyse_from (st \<noteq> None) ss = refuse r))"

lemma carried_step:
  assumes "pg_control st s = Inr st'" "analyse_statement (st \<noteq> None) s = ok (d, st' \<noteq> None)"
    and "sq_batch st (emit_disposition tr d s) = Some st'" and "errors_carried tr st' ss"
  shows "errors_carried tr st (s # ss)"
proof -
  have run: "sq_batch st (emitted tr (d # ds) (s # xs)) = sq_batch st' (emitted tr ds xs)" for ds xs
    using assms(3) by (simp add: emitted_def sq_batch_append)
  have go: "analyse_from (st \<noteq> None) (s # xs) = res_bind (analyse_from (st' \<noteq> None) xs) (\<lambda>ds. ok (d # ds))" for xs
    using assms(2) by simp
  show ?thesis
  proof (cases "pg_batch st' ss")
    case (Inr r)
    then show ?thesis using assms(1,4) go [of ss] run [of _ ss] by (auto simp: errors_carried_def)
  next
    case (Inl p)
    obtain i e where p: "p = (i, e)" by (cases p)
    have "pg_batch st (s # ss) = Inl (Suc i, e)" using assms(1) Inl p by simp
    then show ?thesis using assms(4) Inl p go [of "take (Suc i) ss"] go [of "take i ss"] go [of ss] run [of _ "take (Suc i) ss"]
      by (cases e) (auto simp: errors_carried_def)
  qed
qed

lemma batch_errors:
  assumes "unambiguous N" "stack_names st \<subseteq> N" "\<forall>s \<in> set ss. set (names_used s) \<subseteq> N" "list_all well_formed_control ss"
    and "\<And>s. s \<in> set ss \<Longrightarrow> \<not> is_control s \<Longrightarrow> list_all (\<lambda>x. \<not> is_control x) (tr s)"
  shows "errors_carried tr st ss"
  using assms(2-)
proof (induction ss arbitrary: st)
  case Nil
  then show ?case by (simp add: errors_carried_def emitted_def)
next
  case (Cons s ss)
  have step: "case pg_control st s of
      Inr st' \<Rightarrow> (\<exists>d. analyse_statement (st \<noteq> None) s = ok (d, st' \<noteq> None) \<and> sq_batch st (emit_disposition tr d s) = Some st')
    | Inl NoSuchSavepoint \<Rightarrow> (\<exists>d o'. analyse_statement (st \<noteq> None) s = ok (d, o') \<and> sq_batch st (emit_disposition tr d s) = None)
    | Inl _ \<Rightarrow> (\<exists>r. analyse_statement (st \<noteq> None) s = refuse r)"
    using Cons.prems by (intro control_step [OF assms(1)]) auto
  show ?case
  proof (cases "pg_control st s")
    case (Inl e)
    then show ?thesis using step by (cases e) (auto simp: errors_carried_def emitted_def)
  next
    case (Inr st')
    then have "stack_names st' \<subseteq> N" using pg_control_names [of st s st'] Cons.prems by auto
    then have "errors_carried tr st' ss" using Cons.IH [of st'] Cons.prems by simp
    then show ?thesis using step Inr by (auto intro: carried_step)
  qed
qed

text \<open>
  C16. Transaction control keeps PostgreSQL's errors. A batch the server runs is accepted, and the emitted
  script runs on SQLite and ends inside the same savepoints. A batch whose first error is about its place (a
  savepoint statement or \<open>AND CHAIN\<close> outside a block, \<open>CREATE INDEX CONCURRENTLY\<close> inside one) is refused,
  and the statements before that one are accepted. A batch whose first error is an unknown savepoint is
  accepted up to that statement, and SQLite fails on what is emitted for it. No two savepoint names differ
  only in case or quotes, and the translation \<open>tr\<close> of other statements emits no transaction control.
\<close>

theorem control_errors_are_refused_or_raised:
  assumes "unambiguous (set (concat (map names_used ss)))" and "list_all well_formed_control ss"
    and "\<And>s. s \<in> set ss \<Longrightarrow> \<not> is_control s \<Longrightarrow> list_all (\<lambda>x. \<not> is_control x) (tr s)"
  shows "case pg_batch None ss of
      Inr st \<Rightarrow> (\<exists>ds. analyse ss = ok ds \<and> sq_batch None (concat (map2 (emit_disposition tr) ds ss)) = Some st)
    | Inl (i, NoSuchSavepoint) \<Rightarrow> (\<exists>ds. analyse (take (Suc i) ss) = ok ds
        \<and> sq_batch None (concat (map2 (emit_disposition tr) ds (take (Suc i) ss))) = None)
    | Inl (i, _) \<Rightarrow> (\<exists>ds. analyse (take i ss) = ok ds) \<and> (\<exists>r. analyse ss = refuse r)"
proof -
  have "errors_carried tr None ss" using assms(2,3) by (intro batch_errors [OF assms(1)]) (auto simp: stack_names_def)
  moreover have "((None :: txn_stack) \<noteq> None) = False" by simp
  ultimately show ?thesis by (simp only: errors_carried_def emitted_def analyse_def cong: sum.case_cong prod.case_cong pg_error.case_cong)
qed

theorem control_errors_are_refused_or_raised_witness:
  "let ss = [StartTransaction, Savepoint (bare_ident ''a''), ReleaseSavepoint (bare_ident ''A''), Rollback False (Some (bare_ident ''a''))] in
   pg_batch None ss = Inl (3, NoSuchSavepoint)
   \<and> (\<exists>ds. analyse ss = ok ds \<and> sq_batch None (concat (map2 (emit_disposition (\<lambda>s. [s])) ds ss)) = None)"
proof -
  let ?ss = "[StartTransaction, Savepoint (bare_ident ''a''), ReleaseSavepoint (bare_ident ''A''), Rollback False (Some (bare_ident ''a''))]"
  have "unambiguous (set (concat (map names_used ?ss)))"
    by (simp add: unambiguous_def same_name_def bare_ident_def)
  moreover have "pg_batch None ?ss = Inl (3, NoSuchSavepoint)" by code_simp
  ultimately show ?thesis using control_errors_are_refused_or_raised [of ?ss "\<lambda>s. [s]"] by simp
qed

text \<open>Names that differ in quotes and case do not stay apart: PostgreSQL releases the outer savepoint and the one
  inside it, SQLite the inner one alone.\<close>

lemma quoted_savepoints_are_merged:
  "let outer = Savepoint (bare_ident ''a''); inner = Savepoint (ident_with_quote (CHR 0x22) ''A''); release = ReleaseSavepoint (bare_ident ''a'') in
   pg_batch None [StartTransaction, outer, inner, release] = Inr (Some [])
   \<and> sq_batch None [StartTransaction, outer, inner, release] = Some (Some [bare_ident ''a''])"
  by code_simp

end
