(* ===== verification/File_Sets.thy ===== *)
theory File_Sets
  imports Rust_Std "HOL-Library.Word"
begin

text \<open>
  Where emitted objects live: \<open>Placement\<close> of \<open>src/src/manifest.rs\<close>, the bit set \<open>Files\<close> of
  \<open>src/src/history/placement.rs\<close>, and the refusals of \<open>src/src/errors.rs\<close>,
  \<open>src/src/script.rs\<close> and \<open>src/src/initialization.rs\<close> that the placed script carries.
\<close>

unbundle bit_operations_syntax

datatype (plugins only: code size) placement = PlMain | PlAttached | PlTemp

type_synonym files = "8 word"

definition FILES_MAIN :: files where "FILES_MAIN = 1"

definition FILES_ATTACHED :: files where "FILES_ATTACHED = 2"

definition FILES_CONNECTION :: files where "FILES_CONNECTION = 4"

definition files_default :: files where "files_default = 0"

definition files_contains :: "files \<Rightarrow> files \<Rightarrow> bool" where
  "files_contains self other \<longleftrightarrow> self AND other = other"

fun contains_placement :: "files \<Rightarrow> placement \<Rightarrow> bool" where
  "contains_placement self PlMain = files_contains self FILES_MAIN"
| "contains_placement self PlAttached = files_contains self FILES_ATTACHED"
| "contains_placement self PlTemp = files_contains self FILES_CONNECTION"

definition files_union :: "files \<Rightarrow> files \<Rightarrow> files" where
  "files_union a b = a OR b"

section \<open>Refusals\<close>

datatype (plugins only: code size) translation_direction = PostgreSqlToSqlite | SqliteToPostgreSql

datatype (plugins only: code size) refusal_category = UnsupportedSourceSyntax | UnrepresentableSemantics

record translation_refusal =
  tr_direction :: translation_direction
  tr_category :: refusal_category
  tr_detail :: string

datatype (plugins only: code size) connection_error =
    UnavailableRelation string nat
  | UnavailableColumn string string nat
  | Translation translation_refusal

datatype (plugins only: code size) initialization_error =
    NoAttachedDatabase
  | Unrepresentable translation_refusal
  | Unavailable connection_error

datatype (plugins only: code size) script_error = InitializationE initialization_error | ConnectionE connection_error

section \<open>The set algebra of the bit set\<close>

definition placement_bit :: "placement \<Rightarrow> files" where
  "placement_bit p = (case p of PlMain \<Rightarrow> FILES_MAIN | PlAttached \<Rightarrow> FILES_ATTACHED | PlTemp \<Rightarrow> FILES_CONNECTION)"

definition files_of :: "placement set \<Rightarrow> files \<Rightarrow> bool" where
  "files_of S f \<longleftrightarrow> (\<forall>p. contains_placement f p \<longleftrightarrow> p \<in> S)"

lemma contains_placement_bit: "contains_placement f p = bit f (case p of PlMain \<Rightarrow> 0 | PlAttached \<Rightarrow> 1 | PlTemp \<Rightarrow> 2)"
proof -
  have "files_contains f (2 ^ n) = bit f n" if "n < 8" for n
  proof -
    have "f AND 2 ^ n = 2 ^ n \<longleftrightarrow> bit f n"
      using that by (auto simp: bit_eq_iff [of "f AND 2 ^ n"] bit_simps)
    then show ?thesis by (simp add: files_contains_def)
  qed
  from this [of 0] this [of 1] this [of 2] show ?thesis
    by (cases p) (simp_all add: FILES_MAIN_def FILES_ATTACHED_def FILES_CONNECTION_def)
qed

lemma contains_placement_union [simp]:
  "contains_placement (files_union a b) p \<longleftrightarrow> contains_placement a p \<or> contains_placement b p"
  by (simp add: contains_placement_bit files_union_def bit_or_iff)

lemma contains_placement_consts [simp]:
  "contains_placement FILES_MAIN p \<longleftrightarrow> p = PlMain"
  "contains_placement FILES_ATTACHED p \<longleftrightarrow> p = PlAttached"
  "contains_placement FILES_CONNECTION p \<longleftrightarrow> p = PlTemp"
  "\<not> contains_placement files_default p"
  by (cases p; simp add: files_contains_def FILES_MAIN_def FILES_ATTACHED_def FILES_CONNECTION_def
      files_default_def)+

lemma files_contains_file:
  "files_contains f FILES_MAIN = contains_placement f PlMain"
  "files_contains f FILES_ATTACHED = contains_placement f PlAttached"
  "files_contains f FILES_CONNECTION = contains_placement f PlTemp"
  by simp_all

declare contains_placement.simps [simp del] files_contains_file [simp]

end
