(* ===== verification/Initialization.thy ===== *)
theory Initialization
  imports File_Sets
begin

text \<open>
  The emitted script and its initialization plan: \<open>src/src/initialization.rs\<close> (\<open>Step\<close>,
  \<open>InitializationPlan\<close>, \<open>SelectionIter\<close>) and \<open>src/src/script.rs\<close> (\<open>Script\<close>).

  The iterator is modelled state by state: \<open>selection_next\<close> is the loop of \<open>next\<close>, with the
  decrement of \<open>remaining\<close> panicking below zero. The contract of Rust's \<open>ExactSizeIterator\<close> and
  \<open>FusedIterator\<close> is the locale \<open>exact_iterator\<close>; the iterator of a plan is an instance.
\<close>

section \<open>Steps and plans\<close>

datatype (plugins only: code size) fresh_files = FreshMain | FreshAttached | FreshBoth

record 's step =
  step_files :: files
  base :: "'s list"
  main_rebound :: "'s list option"
  attached_rebound :: "'s list option"

definition form :: "fresh_files \<Rightarrow> 's step \<Rightarrow> 's list" where
  "form selection st =
     (let pick = (\<lambda>rebound file.
        case rebound of Some statements \<Rightarrow> statements
        | None \<Rightarrow> if files_contains (step_files st) file then base st else []) in
      case selection of
        FreshBoth \<Rightarrow> base st
      | FreshMain \<Rightarrow> pick (main_rebound st) FILES_MAIN
      | FreshAttached \<Rightarrow> pick (attached_rebound st) FILES_ATTACHED)"

record 's plan =
  steps :: "'s step list"
  main_unavailable :: "initialization_error option"
  attached_unavailable :: "initialization_error option"

type_synonym 's forms = "initialization_error + 's list option list"

fun split_forms :: "'s forms \<Rightarrow> initialization_error option \<times> 's list option list" where
  "split_forms (Inr forms) = (None, forms)"
| "split_forms (Inl e) = (Some e, [])"

text \<open>Pulling one form per unit from the two iterators; an exhausted iterator answers \<open>None\<close>.\<close>

fun pull :: "'a option list \<Rightarrow> 'a option \<times> 'a option list" where
  "pull [] = (None, [])"
| "pull (x # xs) = (x, xs)"

fun unit_steps :: "(files \<times> 's list) list \<Rightarrow> 's list option list \<Rightarrow> 's list option list \<Rightarrow> 's step list" where
  "unit_steps [] main attached = []"
| "unit_steps ((fs, b) # units) main attached =
     (let (m, main') = pull main; (a, attached') = pull attached in
      \<lparr>step_files = fs, base = b, main_rebound = m, attached_rebound = a\<rparr>
        # unit_steps units main' attached')"

definition plan_new :: "'s option \<Rightarrow> (files \<times> 's list) list \<Rightarrow> 's forms \<Rightarrow> 's forms \<Rightarrow> 's plan" where
  "plan_new prelude units main attached =
     (let (mu, mf) = split_forms main; (au, af) = split_forms attached;
          pre = (case prelude of None \<Rightarrow> []
            | Some s \<Rightarrow> [\<lparr>step_files = FILES_MAIN, base = [s], main_rebound = None, attached_rebound = None\<rparr>])
      in \<lparr>steps = pre @ unit_steps units mf af, main_unavailable = mu, attached_unavailable = au\<rparr>)"

definition plan_len :: "'s plan \<Rightarrow> nat" where
  "plan_len p = sum_list (map (\<lambda>st. length (base st)) (steps p))"

definition plan_is_empty :: "'s plan \<Rightarrow> bool" where
  "plan_is_empty p = list_all (\<lambda>st. base st = []) (steps p)"

record 's selection_iter =
  si_steps :: "'s step list"
  si_files :: fresh_files
  si_within :: "'s list"
  si_remaining :: nat

definition selected :: "'s plan \<Rightarrow> fresh_files \<Rightarrow> 's selection_iter" where
  "selected p fs = \<lparr>si_steps = steps p, si_files = fs, si_within = [],
     si_remaining = sum_list (map (\<lambda>st. length (form fs st)) (steps p))\<rparr>"

text \<open>One call of \<open>next\<close>, as recursion over the steps left; \<open>Panic\<close> is an underflow of \<open>remaining\<close>.\<close>

fun next_from :: "fresh_files \<Rightarrow> 's step list \<Rightarrow> 's list \<Rightarrow> nat
    \<Rightarrow> (unit, 's option \<times> 's step list \<times> 's list \<times> nat) res" where
  "next_from fs sts (x # within) remaining =
     (if remaining = 0 then Inl Panic else ok (Some x, sts, within, remaining - 1))"
| "next_from fs [] [] remaining = ok (None, [], [], remaining)"
| "next_from fs (st # sts) [] remaining = next_from fs sts (form fs st) remaining"

definition selection_next :: "'s selection_iter \<Rightarrow> (unit, 's option \<times> 's selection_iter) res" where
  "selection_next it =
     res_bind (next_from (si_files it) (si_steps it) (si_within it) (si_remaining it))
       (\<lambda>(x, sts, within, remaining).
          ok (x, it\<lparr>si_steps := sts, si_within := within, si_remaining := remaining\<rparr>))"

definition size_hint :: "'s selection_iter \<Rightarrow> nat \<times> nat option" where
  "size_hint it = (si_remaining it, Some (si_remaining it))"

definition plan_iter :: "'s plan \<Rightarrow> 's selection_iter" where
  "plan_iter p = selected p FreshBoth"

definition plan_select :: "'s plan \<Rightarrow> fresh_files \<Rightarrow> script_error + 's selection_iter" where
  "plan_select p fs =
     (let unavailable = (case fs of FreshMain \<Rightarrow> main_unavailable p
        | FreshAttached \<Rightarrow> attached_unavailable p | FreshBoth \<Rightarrow> None) in
      case unavailable of Some reason \<Rightarrow> Inl (InitializationE reason) | None \<Rightarrow> Inr (selected p fs))"

definition into_statements :: "'s plan \<Rightarrow> 's list" where
  "into_statements p = concat (map base (steps p))"

definition statements_mut :: "'s plan \<Rightarrow> 's list" where
  "statements_mut p = concat (map (\<lambda>st. base st @ concat (map (\<lambda>x. case x of None \<Rightarrow> [] | Some l \<Rightarrow> l)
     [main_rebound st, attached_rebound st])) (steps p))"

definition step_map :: "('s \<Rightarrow> 't) \<Rightarrow> 's step \<Rightarrow> 't step" where
  "step_map f st = \<lparr>step_files = step_files st, base = map f (base st),
     main_rebound = map_option (map f) (main_rebound st),
     attached_rebound = map_option (map f) (attached_rebound st)\<rparr>"

definition plan_map :: "('s \<Rightarrow> 't) \<Rightarrow> 's plan \<Rightarrow> 't plan" where
  "plan_map f p = \<lparr>steps = map (step_map f) (steps p), main_unavailable = main_unavailable p,
     attached_unavailable = attached_unavailable p\<rparr>"

section \<open>Scripts\<close>

record 's script =
  setup_part :: "'s list"
  files_part :: "'s plan"
  connection :: "connection_error + 's list"

text \<open>Draining an iterator, with as many calls of \<open>next\<close> as its exact size announces.\<close>

fun drain :: "('it \<Rightarrow> (unit, 'a option \<times> 'it) res) \<Rightarrow> nat \<Rightarrow> 'it \<Rightarrow> (unit, 'a list) res" where
  "drain nx 0 it = res_bind (nx it) (\<lambda>(x, it'). case x of None \<Rightarrow> ok [] | Some _ \<Rightarrow> Inl Panic)"
| "drain nx (Suc n) it = res_bind (nx it) (\<lambda>(x, it').
     case x of None \<Rightarrow> ok [] | Some y \<Rightarrow> res_bind (drain nx n it') (\<lambda>ys. ok (y # ys)))"

definition selection_collect :: "'s selection_iter \<Rightarrow> (unit, 's list) res" where
  "selection_collect it = drain selection_next (fst (size_hint it)) it"

definition script_is_empty :: "'s script \<Rightarrow> bool" where
  "script_is_empty sc \<longleftrightarrow> setup_part sc = [] \<and> plan_is_empty (files_part sc)
     \<and> (case connection sc of Inl _ \<Rightarrow> False | Inr l \<Rightarrow> l = [])"

definition script_iter :: "'s script \<Rightarrow> (unit, 's list) res" where
  "script_iter sc = res_bind (selection_collect (plan_iter (files_part sc))) (\<lambda>l. ok (setup_part sc @ l))"

definition script_initialize :: "'s script \<Rightarrow> fresh_files \<Rightarrow> (script_error, 's list) res" where
  "script_initialize sc fs =
     (case plan_select (files_part sc) fs of
        Inl e \<Rightarrow> refuse e
      | Inr it \<Rightarrow> (case selection_collect it of Inl _ \<Rightarrow> Inl Panic | Inr l \<Rightarrow> ok (setup_part sc @ l)))"

definition script_connect :: "'s script \<Rightarrow> script_error + 's list" where
  "script_connect sc = (case connection sc of
     Inl e \<Rightarrow> Inl (ConnectionE e) | Inr l \<Rightarrow> Inr (setup_part sc @ l))"

definition into_vec :: "'s script \<Rightarrow> 's list" where
  "into_vec sc = setup_part sc @ into_statements (files_part sc)"

definition script_map :: "('s \<Rightarrow> 't) \<Rightarrow> 's script \<Rightarrow> 't script" where
  "script_map f sc = \<lparr>setup_part = map f (setup_part sc), files_part = plan_map f (files_part sc),
     connection = map_sum id (map f) (connection sc)\<rparr>"

section \<open>The contract of an exact-size, fused iterator\<close>

locale exact_iterator =
  fixes nx :: "'it \<Rightarrow> (unit, 'a option \<times> 'it) res"
    and hint :: "'it \<Rightarrow> nat \<times> nat option"
    and contents :: "'it \<Rightarrow> 'a list"
    and valid :: "'it \<Rightarrow> bool"
  assumes nx_end: "valid it \<Longrightarrow> contents it = [] \<Longrightarrow>
      \<exists>it'. nx it = ok (None, it') \<and> valid it' \<and> contents it' = []"
    and nx_item: "valid it \<Longrightarrow> contents it = x # xs \<Longrightarrow>
      \<exists>it'. nx it = ok (Some x, it') \<and> valid it' \<and> contents it' = xs"
    and hint_exact: "valid it \<Longrightarrow> hint it = (length (contents it), Some (length (contents it)))"
begin

lemma drain_contents: "valid it \<Longrightarrow> length (contents it) \<le> n \<Longrightarrow> drain nx n it = ok (contents it)"
proof (induction n arbitrary: it)
  case 0
  with nx_end [of it] show ?case by auto
next
  case (Suc n)
  show ?case
  proof (cases "contents it")
    case Nil
    with nx_end [OF Suc.prems(1)] show ?thesis by auto
  next
    case (Cons x xs)
    with nx_item [OF Suc.prems(1) Cons] Suc show ?thesis by auto
  qed
qed

lemma drain_hint: "valid it \<Longrightarrow> drain nx (fst (hint it)) it = ok (contents it)"
  by (simp add: drain_contents hint_exact)

end

definition iter_contents :: "'s selection_iter \<Rightarrow> 's list" where
  "iter_contents it = si_within it @ concat (map (form (si_files it)) (si_steps it))"

definition iter_valid :: "'s selection_iter \<Rightarrow> bool" where
  "iter_valid it \<longleftrightarrow> si_remaining it = length (iter_contents it)"

lemma next_from_spec:
  "remaining = length (within @ concat (map (form fs) sts)) \<Longrightarrow>
   case within @ concat (map (form fs) sts) of
     [] \<Rightarrow> next_from fs sts within remaining = ok (None, [], [], remaining)
   | x # xs \<Rightarrow> \<exists>sts' within'. next_from fs sts within remaining = ok (Some x, sts', within', remaining - 1)
       \<and> within' @ concat (map (form fs) sts') = xs"
proof (induction fs sts within remaining rule: next_from.induct)
  case (3 fs st sts remaining)
  have "concat (map (form fs) (st # sts)) = form fs st @ concat (map (form fs) sts)" by simp
  with 3 show ?case by (simp only: append_Nil next_from.simps)
qed auto

interpretation selection: exact_iterator selection_next size_hint iter_contents iter_valid
proof
  fix it :: "'a selection_iter"
  assume v: "iter_valid it"
  have spec: "case iter_contents it of
      [] \<Rightarrow> next_from (si_files it) (si_steps it) (si_within it) (si_remaining it)
              = ok (None, [], [], si_remaining it)
    | x # xs \<Rightarrow> \<exists>sts' within'. next_from (si_files it) (si_steps it) (si_within it) (si_remaining it)
              = ok (Some x, sts', within', si_remaining it - 1)
         \<and> within' @ concat (map (form (si_files it)) sts') = xs"
    using v unfolding iter_valid_def iter_contents_def by (rule next_from_spec)
  show "size_hint it = (length (iter_contents it), Some (length (iter_contents it)))"
    using v by (simp add: size_hint_def iter_valid_def)
  show "\<exists>it'. selection_next it = ok (None, it') \<and> iter_valid it' \<and> iter_contents it' = []"
    if c: "iter_contents it = []"
  proof -
    from v c have "si_remaining it = 0" by (simp add: iter_valid_def)
    with spec c have "next_from (si_files it) (si_steps it) (si_within it) (si_remaining it) = ok (None, [], [], 0)"
      by simp
    then show ?thesis by (simp add: selection_next_def iter_valid_def iter_contents_def)
  qed
  show "\<exists>it'. selection_next it = ok (Some x, it') \<and> iter_valid it' \<and> iter_contents it' = xs"
    if c: "iter_contents it = x # xs" for x xs
  proof -
    from v c have "si_remaining it = Suc (length xs)" by (simp add: iter_valid_def)
    with spec c obtain sts' within' where
      "next_from (si_files it) (si_steps it) (si_within it) (si_remaining it) = ok (Some x, sts', within', length xs)"
      and "within' @ concat (map (form (si_files it)) sts') = xs"
      by auto
    then show ?thesis by (auto simp: selection_next_def iter_valid_def iter_contents_def)
  qed
qed

lemma selected_valid [simp]: "iter_valid (selected p fs)"
  by (simp add: iter_valid_def iter_contents_def selected_def length_concat comp_def)

lemma selected_contents [simp]: "iter_contents (selected p fs) = concat (map (form fs) (steps p))"
  by (simp add: iter_contents_def selected_def)

lemma collect_selected [simp]:
  "selection_collect (selected p fs) = ok (concat (map (form fs) (steps p)))"
  unfolding selection_collect_def by (subst selection.drain_hint) simp_all

lemma form_both [simp]: "form FreshBoth = base"
  by (auto simp: form_def fun_eq_iff)

lemma base_step_map [simp]: "base (step_map f st) = map f (base st)"
  by (simp add: step_map_def)

lemma form_step_map [simp]: "form fs (step_map f st) = map f (form fs st)"
  by (auto simp: form_def step_map_def split: fresh_files.splits option.splits)

lemma concat_forms_map:
  "concat (map (form fs) (steps (plan_map f p))) = map f (concat (map (form fs) (steps p)))"
  by (simp add: plan_map_def map_concat comp_def)

section \<open>Properties\<close>

text \<open>
  Iterating a selection yields exactly the forms of its steps, in source order: no call of
  \<open>next\<close> underflows the counter, \<open>size_hint\<close> is exact before every call, and a spent iterator keeps
  answering \<open>None\<close>.
\<close>

lemma selection_iterator_exact:
  "selection_collect (selected p fs) = ok (concat (map (form fs) (steps p)))
   \<and> (iter_valid it \<longrightarrow>
       size_hint it = (length (iter_contents it), Some (length (iter_contents it)))
       \<and> (\<exists>it'. selection_next it = ok (case iter_contents it of [] \<Rightarrow> None | x # _ \<Rightarrow> Some x, it')
            \<and> iter_valid it' \<and> iter_contents it' = tl (iter_contents it)))"
proof (intro conjI impI)
  assume v: "iter_valid it"
  show "size_hint it = (length (iter_contents it), Some (length (iter_contents it)))"
    by (rule selection.hint_exact [OF v])
  show "\<exists>it'. selection_next it = ok (case iter_contents it of [] \<Rightarrow> None | x # _ \<Rightarrow> Some x, it')
            \<and> iter_valid it' \<and> iter_contents it' = tl (iter_contents it)"
    using selection.nx_end [OF v] selection.nx_item [OF v] by (cases "iter_contents it") auto
qed simp

lemma selection_iterator_exact_witness:
  "let p = plan_new (Some ''pre'') [(FILES_MAIN, [''a'', ''b'']), (FILES_ATTACHED, [''c''])]
         (Inr [None, Some [''d'']]) (Inl NoAttachedDatabase);
       it = selected p FreshMain in
   iter_valid it \<and> size_hint it = (4, Some 4)
   \<and> (\<exists>it'. selection_next it = ok (Some ''pre'', it') \<and> iter_contents it' = [''a'', ''b'', ''d''])"
proof -
  let ?p = "plan_new (Some ''pre'') [(FILES_MAIN, [''a'', ''b'']), (FILES_ATTACHED, [''c''])]
         (Inr [None, Some [''d'']]) (Inl NoAttachedDatabase)"
  have c: "iter_contents (selected ?p FreshMain) = [''pre'', ''a'', ''b'', ''d'']" by code_simp
  have v: "iter_valid (selected ?p FreshMain)" by simp
  show ?thesis
    using selection_iterator_exact [of ?p FreshMain "selected ?p FreshMain"] v c
    by (auto simp: Let_def)
qed

text \<open>
  The connection that creates every file runs the same statements, in the same order, whether
  it takes \<open>iter\<close>, \<open>initialize(Both)\<close> or \<open>into_vec\<close>; \<open>initialize\<close> fails exactly with the reason
  recorded for the selection and never because of the other file's selection; and \<open>is_empty\<close>,
  \<open>len\<close> agree with the statements run.
\<close>

lemma initialization_selections_agree:
  "script_iter sc = ok (into_vec sc)
   \<and> script_initialize sc FreshBoth = ok (into_vec sc)
   \<and> script_initialize sc FreshMain = (case main_unavailable (files_part sc) of
        Some e \<Rightarrow> refuse (InitializationE e)
      | None \<Rightarrow> ok (setup_part sc @ concat (map (form FreshMain) (steps (files_part sc)))))
   \<and> script_initialize sc FreshAttached = (case attached_unavailable (files_part sc) of
        Some e \<Rightarrow> refuse (InitializationE e)
      | None \<Rightarrow> ok (setup_part sc @ concat (map (form FreshAttached) (steps (files_part sc)))))
   \<and> plan_len (files_part sc) = length (into_statements (files_part sc))
   \<and> (script_is_empty sc \<longleftrightarrow> into_vec sc = [] \<and> script_connect sc = Inr [])"
  by (auto simp: script_iter_def plan_iter_def into_vec_def into_statements_def script_initialize_def
      plan_select_def plan_len_def length_concat comp_def script_is_empty_def plan_is_empty_def
      script_connect_def list_all_iff ok_def split: option.splits sum.splits)

text \<open>
  \<open>Script::map\<close> commutes with every way of running a script: mapping then initializing,
  connecting or flattening is initializing, connecting or flattening and then mapping, refusals
  unchanged.
\<close>

lemma script_map_commutes:
  "script_initialize (script_map f sc) fs = map_sum id (map f) (script_initialize sc fs)
   \<and> script_connect (script_map f sc) = map_sum id (map f) (script_connect sc)
   \<and> into_vec (script_map f sc) = map f (into_vec sc)
   \<and> statements_mut (files_part (script_map f sc)) = map f (statements_mut (files_part sc))"
proof (intro conjI)
  show "script_initialize (script_map f sc) fs = map_sum id (map f) (script_initialize sc fs)"
    by (cases fs) (auto simp: script_initialize_def plan_select_def script_map_def
        concat_forms_map ok_def refuse_def plan_map_def comp_def map_concat split: option.splits)
  show "script_connect (script_map f sc) = map_sum id (map f) (script_connect sc)"
    by (auto simp: script_connect_def script_map_def split: sum.splits)
  show "into_vec (script_map f sc) = map f (into_vec sc)"
    using concat_forms_map [of FreshBoth f "files_part sc"]
    by (simp add: into_vec_def into_statements_def script_map_def)
  show "statements_mut (files_part (script_map f sc)) = map f (statements_mut (files_part sc))"
    by (auto simp: statements_mut_def script_map_def plan_map_def step_map_def map_concat comp_def
        intro!: arg_cong [where f = concat] split: option.splits)
qed

lemma form_main:
  "form FreshMain \<lparr>step_files = fs, base = b, main_rebound = m, attached_rebound = a\<rparr>
     = (case m of Some l \<Rightarrow> l | None \<Rightarrow> if contains_placement fs PlMain then b else [])"
  by (simp add: form_def split: option.split)

lemma unit_steps_forms:
  "length mf = length units \<Longrightarrow> map (form FreshMain) (unit_steps units mf af) =
     map2 (\<lambda>(fs, b) m. case m of Some l \<Rightarrow> l | None \<Rightarrow> if contains_placement fs PlMain then b else [])
       units mf"
proof (induction units arbitrary: mf af)
  case (Cons u units)
  obtain fs b where u: "u = (fs, b)" by (cases u)
  from Cons.prems obtain m mf' where mf: "mf = m # mf'" by (cases mf) auto
  obtain a af' where "pull af = (a, af')" by (cases "pull af")
  with Cons mf show ?case by (simp add: u form_main)
qed simp

text \<open>
  What creating only the main file runs, of a plan whose fresh-main forms are available: the
  prelude, then for every unit its rebound form where there is one, the emitted form where the unit
  belongs to the main file, and nothing otherwise.
\<close>

lemma fresh_main_runs_the_units_of_main:
  assumes "length forms = length units"
  shows "plan_select (plan_new prelude units (Inr forms) attached) FreshMain
           = Inr (selected (plan_new prelude units (Inr forms) attached) FreshMain)
   \<and> selection_collect (selected (plan_new prelude units (Inr forms) attached) FreshMain)
     = ok ((case prelude of None \<Rightarrow> [] | Some s \<Rightarrow> [s])
         @ concat (map2 (\<lambda>(fs, b) m. case m of Some l \<Rightarrow> l
             | None \<Rightarrow> if contains_placement fs PlMain then b else []) units forms))"
  using unit_steps_forms [OF assms, of "snd (split_forms attached)"]
  by (cases prelude; cases "split_forms attached") (simp_all add: plan_new_def plan_select_def form_main)

theorem fresh_main_runs_the_units_of_main_witness:
  "selection_collect (selected (plan_new None [(FILES_MAIN, [''a'']), (FILES_ATTACHED, [''b'']), (FILES_ATTACHED, [''c''])]
       (Inr [None, None, Some [''d'']]) (Inl NoAttachedDatabase)) FreshMain) = ok [''a'', ''d'']"
  using fresh_main_runs_the_units_of_main [of "[None, None, Some [''d'']]"
      "[(FILES_MAIN, [''a'']), (FILES_ATTACHED, [''b'']), (FILES_ATTACHED, [''c''])]" None "Inl NoAttachedDatabase"]
  by simp

end
