(* ===== verification/Relation_Scopes.thy ===== *)
theory Relation_Scopes
  imports Sql_Ast
begin

text \<open>
  Which names of a query denote stored relations: \<open>src/src/impls/relation_scope.rs\<close>
  (\<open>RelationScopes\<close>, the visibility of common-table expressions) and
  \<open>src/src/impls/scoped_relations.rs\<close> (\<open>RelationCollector\<close>, \<open>relation_names\<close>).

  The collector is a visitor, called back while the syntax-tree crate walks a node. The model
  follows it callback by callback: a walk is the list of \<open>visit_event\<close>s the crate raises, with the
  data the callbacks read of the visited node, addresses included (the code recognises a
  common-table expression's body and a write target by the address of the node). How identifiers
  match is \<open>identifiers_match\<close> of the \<open>sql_traits\<close> crate, the parameter \<open>im\<close>.

  The specification is lexical scoping over a tree: a name is bound when an enclosing \<open>WITH\<close> declares
  it where the name stands. \<open>query_walk\<close> gives the callbacks of a tree in the order of the crate's
  derived traversal, and the refinement says that the collector computes the specification.
\<close>

section \<open>Scopes (relation_scope.rs)\<close>

type_synonym address = nat

type_synonym ident_matcher = "string \<Rightarrow> bool \<Rightarrow> string \<Rightarrow> bool \<Rightarrow> bool"

record cte_scope =
  aliases :: "ident list"
  bodies :: "(address \<times> nat) list"
  visible :: nat
  restore :: "nat option"

record relation_scopes =
  scopes :: "cte_scope list"
  targets :: "address list"

record with_clause =
  recursive :: bool
  cte_tables :: "(ident \<times> address) list"

record query_head =
  qh_address :: address
  qh_with :: "with_clause option"
  qh_table :: "(ident option \<times> ident option) option"

datatype (plugins only: code size) visited_factor = VisitedTable address | VisitedOther

datatype (plugins only: code size) visited_statement =
    VisitedUpdate visited_factor
  | VisitedMerge visited_factor
  | VisitedDelete "visited_factor list"
  | VisitedStatement

definition with_bodies :: "with_clause \<Rightarrow> (address \<times> nat) list" where
  "with_bodies w = map (\<lambda>(index, _, child).
     (child, if recursive w then length (cte_tables w) else index)) (enumerate 0 (cte_tables w))"

definition scopes_enter :: "query_head \<Rightarrow> relation_scopes \<Rightarrow> relation_scopes" where
  "scopes_enter q rs =
     (let found = (if scopes rs = [] then None
            else map_option snd (find (\<lambda>(child, _). child = qh_address q) (bodies (last (scopes rs)))));
          rst = map_option (\<lambda>_. visible (last (scopes rs))) found;
          parents = (case found of None \<Rightarrow> scopes rs
            | Some v \<Rightarrow> butlast (scopes rs) @ [(last (scopes rs))\<lparr>visible := v\<rparr>]);
          (als, bds) = (case qh_with q of None \<Rightarrow> ([], [])
            | Some w \<Rightarrow> (map fst (cte_tables w), with_bodies w))
      in rs\<lparr>scopes := parents @ [\<lparr>aliases = als, bodies = bds, visible = length als, restore = rst\<rparr>]\<rparr>)"

definition scopes_exit :: "relation_scopes \<Rightarrow> relation_scopes" where
  "scopes_exit rs =
     (if scopes rs = [] then rs
      else let rest = butlast (scopes rs) in
        case restore (last (scopes rs)) of
          None \<Rightarrow> rs\<lparr>scopes := rest\<rparr>
        | Some v \<Rightarrow> rs\<lparr>scopes := (if rest = [] then []
            else butlast rest @ [(last rest)\<lparr>visible := v\<rparr>])\<rparr>)"

definition scopes_depth :: "relation_scopes \<Rightarrow> nat" where
  "scopes_depth rs = length (scopes rs)"

definition root_aliases :: "relation_scopes \<Rightarrow> ident list" where
  "root_aliases rs = (case scopes rs of [] \<Rightarrow> [] | s # _ \<Rightarrow> aliases s)"

definition ident_matches :: "ident_matcher \<Rightarrow> ident \<Rightarrow> ident \<Rightarrow> bool" where
  "ident_matches im alias reference = im (ident_value alias) (quote_style alias \<noteq> None)
     (ident_value reference) (quote_style reference \<noteq> None)"

text \<open>The innermost binding, as the depth of its scope and the position of its alias.\<close>

fun binding_from :: "ident_matcher \<Rightarrow> ident \<Rightarrow> (nat \<times> cte_scope) list \<Rightarrow> (nat \<times> nat) option" where
  "binding_from im reference [] = None"
| "binding_from im reference ((depth, scope) # rest) =
     (case find_index (\<lambda>alias. ident_matches im alias reference) (take (visible scope) (aliases scope)) of
        Some index \<Rightarrow> Some (depth, index)
      | None \<Rightarrow> binding_from im reference rest)"

definition binding :: "ident_matcher \<Rightarrow> relation_scopes \<Rightarrow> ident \<Rightarrow> (nat \<times> nat) option" where
  "binding im rs reference = binding_from im reference (rev (enumerate 0 (scopes rs)))"

fun record_target :: "visited_factor \<Rightarrow> relation_scopes \<Rightarrow> relation_scopes" where
  "record_target (VisitedTable a) rs = rs\<lparr>targets := targets rs @ [a]\<rparr>"
| "record_target VisitedOther rs = rs"

fun record_targets :: "visited_statement \<Rightarrow> relation_scopes \<Rightarrow> relation_scopes" where
  "record_targets (VisitedUpdate factor) rs = record_target factor rs"
| "record_targets (VisitedMerge factor) rs = record_target factor rs"
| "record_targets (VisitedDelete factors) rs = fold record_target factors rs"
| "record_targets VisitedStatement rs = rs"

definition is_target :: "relation_scopes \<Rightarrow> address \<Rightarrow> bool" where
  "is_target rs a \<longleftrightarrow> a \<in> set (targets rs)"

section \<open>The collector (scoped_relations.rs)\<close>

datatype (plugins only: code size) visit_event =
    PreStatement visited_statement
  | PreQuery query_head
  | PostQuery
  | PreTableFactor bool
  | PostTableFactor
  | PreRelation address object_name

record relation_collector =
  occurrences :: "object_name list"
  rc_scopes :: relation_scopes
  inside_table_factor :: bool

definition collector_new :: relation_collector where
  "collector_new = \<lparr>occurrences = [], rc_scopes = \<lparr>scopes = [], targets = []\<rparr>, inside_table_factor = False\<rparr>"

definition push_name :: "object_name \<Rightarrow> relation_collector \<Rightarrow> relation_collector" where
  "push_name name rc = rc\<lparr>occurrences := occurrences rc @ [name]\<rparr>"

definition bound_by_cte :: "ident_matcher \<Rightarrow> relation_collector \<Rightarrow> ident \<Rightarrow> bool" where
  "bound_by_cte im rc reference \<longleftrightarrow> binding im (rc_scopes rc) reference \<noteq> None"

definition pre_visit_query :: "ident_matcher \<Rightarrow> query_head \<Rightarrow> relation_collector \<Rightarrow> relation_collector" where
  "pre_visit_query im q rc =
     (let rc1 = rc\<lparr>rc_scopes := scopes_enter q (rc_scopes rc)\<rparr> in
      case qh_table q of
        Some (schema, Some name) \<Rightarrow>
          (if schema \<noteq> None \<or> \<not> bound_by_cte im rc1 name
           then push_name (map Identifier (case schema of None \<Rightarrow> [name] | Some s \<Rightarrow> [s, name])) rc1
           else rc1)
      | _ \<Rightarrow> rc1)"

definition pre_visit_relation :: "ident_matcher \<Rightarrow> address \<Rightarrow> object_name \<Rightarrow> relation_collector \<Rightarrow> relation_collector" where
  "pre_visit_relation im a relation rc =
     (let physical =
        (if inside_table_factor rc \<and> length relation = 1 then
           (if is_target (rc_scopes rc) a then True
            else (case last_ident relation of
                    Some ident \<Rightarrow> \<not> bound_by_cte im rc ident
                  | None \<Rightarrow> True))
         else True) in
      if physical then push_name relation rc else rc)"

fun visit_step :: "ident_matcher \<Rightarrow> visit_event \<Rightarrow> relation_collector \<Rightarrow> relation_collector" where
  "visit_step im (PreStatement s) rc = rc\<lparr>rc_scopes := record_targets s (rc_scopes rc)\<rparr>"
| "visit_step im (PreQuery q) rc = pre_visit_query im q rc"
| "visit_step im PostQuery rc = rc\<lparr>rc_scopes := scopes_exit (rc_scopes rc)\<rparr>"
| "visit_step im (PreTableFactor is_table) rc = rc\<lparr>inside_table_factor := is_table\<rparr>"
| "visit_step im PostTableFactor rc = rc\<lparr>inside_table_factor := False\<rparr>"
| "visit_step im (PreRelation a n) rc = pre_visit_relation im a n rc"

definition relation_occurrences :: "ident_matcher \<Rightarrow> visit_event list \<Rightarrow> object_name list" where
  "relation_occurrences im walk = occurrences (fold (visit_step im) walk collector_new)"

fun first_occurrences :: "'a list \<Rightarrow> 'a list \<Rightarrow> 'a list" where
  "first_occurrences seen [] = seen"
| "first_occurrences seen (x # xs) =
     first_occurrences (if x \<in> set seen then seen else seen @ [x]) xs"

definition relation_names :: "ident_matcher \<Rightarrow> visit_event list \<Rightarrow> string list" where
  "relation_names im walk =
     first_occurrences [] (map (\<lambda>n. to_ascii_lowercase (last_ident_value_or_display n))
       (relation_occurrences im walk))"

section \<open>The specification: lexical scoping over a tree\<close>

datatype (plugins only: code size) qtree =
    QTree (qt_address: address) bool "(ident \<times> qtree) list" "(ident option \<times> ident option) option" "qitem list"
and qitem =
    Factor bool address object_name "qitem list"
  | OtherFactor "qitem list"
  | Direct address object_name
  | SubQuery qtree
  | WriteTo visited_statement "qitem list"

text \<open>The callbacks of the crate's traversal of a tree.\<close>

fun query_walk :: "qtree \<Rightarrow> visit_event list"
  and ctes_walk :: "(ident \<times> qtree) list \<Rightarrow> visit_event list"
  and item_walk :: "qitem \<Rightarrow> visit_event list"
  and items_walk :: "qitem list \<Rightarrow> visit_event list" where
  "query_walk (QTree a rec ctes table items) =
     PreQuery \<lparr>qh_address = a,
       qh_with = (if ctes = [] then None
         else Some \<lparr>recursive = rec, cte_tables = map (\<lambda>c. (fst c, qt_address (snd c))) ctes\<rparr>),
       qh_table = table\<rparr>
     # ctes_walk ctes @ items_walk items @ [PostQuery]"
| "ctes_walk [] = []"
| "ctes_walk ((al, q) # ctes) = query_walk q @ ctes_walk ctes"
| "item_walk (Factor target a n items) = PreTableFactor True # PreRelation a n # items_walk items @ [PostTableFactor]"
| "item_walk (OtherFactor items) = PreTableFactor False # items_walk items @ [PostTableFactor]"
| "item_walk (Direct a n) = [PreRelation a n]"
| "item_walk (SubQuery q) = query_walk q"
| "item_walk (WriteTo s items) = PreStatement s # items_walk items"
| "items_walk [] = []"
| "items_walk (i # is) = item_walk i @ items_walk is"

definition bound_in :: "ident_matcher \<Rightarrow> ident list \<Rightarrow> ident \<Rightarrow> bool" where
  "bound_in im env reference = list_ex (\<lambda>alias. ident_matches im alias reference) env"

text \<open>
  The stored relations a tree names, with the aliases visible around it as the environment. The
  body of the \<open>i\<close>-th expression of a \<open>WITH\<close> sees the earlier ones, and all of them under
  \<open>RECURSIVE\<close>; the body of the query sees all of them; the target of a write is never bound.
\<close>

fun query_relations :: "ident_matcher \<Rightarrow> ident list \<Rightarrow> qtree \<Rightarrow> object_name list"
  and ctes_relations :: "ident_matcher \<Rightarrow> ident list \<Rightarrow> bool \<Rightarrow> ident list \<Rightarrow> nat \<Rightarrow> (ident \<times> qtree) list \<Rightarrow> object_name list"
  and item_relations :: "ident_matcher \<Rightarrow> ident list \<Rightarrow> qitem \<Rightarrow> object_name list"
  and items_relations :: "ident_matcher \<Rightarrow> ident list \<Rightarrow> qitem list \<Rightarrow> object_name list" where
  "query_relations im env (QTree a rec ctes table items) =
     (let als = map fst ctes in
      (case table of Some (schema, Some name) \<Rightarrow>
          (if schema \<noteq> None \<or> \<not> bound_in im (als @ env) name
           then [map Identifier (case schema of None \<Rightarrow> [name] | Some s \<Rightarrow> [s, name])] else [])
        | _ \<Rightarrow> [])
      @ ctes_relations im env rec als 0 ctes @ items_relations im (als @ env) items)"
| "ctes_relations im env rec als i [] = []"
| "ctes_relations im env rec als i ((_, q) # ctes) =
     query_relations im ((if rec then als else take i als) @ env) q
     @ ctes_relations im env rec als (Suc i) ctes"
| "item_relations im env (Factor target a n items) =
     (if target \<or> (case n of [Identifier ident] \<Rightarrow> \<not> bound_in im env ident | _ \<Rightarrow> True) then [n] else [])
     @ items_relations im env items"
| "item_relations im env (OtherFactor items) = items_relations im env items"
| "item_relations im env (Direct a n) = [n]"
| "item_relations im env (SubQuery q) = query_relations im env q"
| "item_relations im env (WriteTo s items) = items_relations im env items"
| "items_relations im env [] = []"
| "items_relations im env (i # is) = item_relations im env i @ items_relations im env is"

text \<open>
  What distinct nodes having distinct addresses gives: among the children of one query, only the
  bodies of its common-table expressions have the addresses of those bodies (\<open>B\<close>), and the address of
  a factor's name is the address of a write target (\<open>T\<close>) exactly for the factor marked as the target
  of an enclosing write (\<open>K\<close>). A name outside a table factor does not stand inside one.
\<close>

fun statement_targets :: "visited_statement \<Rightarrow> address set" where
  "statement_targets (VisitedUpdate (VisitedTable a)) = {a}"
| "statement_targets (VisitedMerge (VisitedTable a)) = {a}"
| "statement_targets (VisitedDelete fs) = {a. VisitedTable a \<in> set fs}"
| "statement_targets _ = {}"

fun query_wf :: "address set \<Rightarrow> address set \<Rightarrow> bool \<Rightarrow> qtree \<Rightarrow> bool"
  and ctes_wf :: "address set \<Rightarrow> address set \<Rightarrow> bool \<Rightarrow> (ident \<times> qtree) list \<Rightarrow> bool"
  and item_wf :: "address set \<Rightarrow> address set \<Rightarrow> address set \<Rightarrow> bool \<Rightarrow> qitem \<Rightarrow> bool"
  and items_wf :: "address set \<Rightarrow> address set \<Rightarrow> address set \<Rightarrow> bool \<Rightarrow> qitem list \<Rightarrow> bool" where
  "query_wf T K inside (QTree a rec ctes table items) \<longleftrightarrow>
     distinct (map (\<lambda>c. qt_address (snd c)) ctes) \<and> ctes_wf T K inside ctes
     \<and> items_wf T K ((\<lambda>c. qt_address (snd c)) ` set ctes) inside items"
| "ctes_wf T K inside [] \<longleftrightarrow> True"
| "ctes_wf T K inside ((_, q) # ctes) \<longleftrightarrow> query_wf T K inside q \<and> ctes_wf T K inside ctes"
| "item_wf T K B inside (Factor target a n items) \<longleftrightarrow>
     (if target then a \<in> K else a \<notin> T) \<and> items_wf T K B True items"
| "item_wf T K B inside (OtherFactor items) \<longleftrightarrow> items_wf T K B False items"
| "item_wf T K B inside (Direct a n) \<longleftrightarrow> \<not> inside"
| "item_wf T K B inside (SubQuery q) \<longleftrightarrow> qt_address q \<notin> B \<and> query_wf T K inside q"
| "item_wf T K B inside (WriteTo s items) \<longleftrightarrow>
     statement_targets s \<subseteq> T \<and> items_wf T (K \<union> statement_targets s) B inside items"
| "items_wf T K B inside [] \<longleftrightarrow> True"
| "items_wf T K B inside (i # is) \<longleftrightarrow> item_wf T K B inside i \<and> items_wf T K B inside is"

section \<open>The collector computes the specification\<close>

abbreviation stack :: "relation_collector \<Rightarrow> cte_scope list" where
  "stack rc \<equiv> scopes (rc_scopes rc)"

abbreviation target_set :: "relation_collector \<Rightarrow> address set" where
  "target_set rc \<equiv> set (targets (rc_scopes rc))"

definition env_of :: "cte_scope list \<Rightarrow> ident list" where
  "env_of st = concat (map (\<lambda>s. take (visible s) (aliases s)) (rev st))"

definition child_visible :: "address \<Rightarrow> cte_scope list \<Rightarrow> nat option" where
  "child_visible a st = (if st = [] then None
     else map_option snd (find (\<lambda>(child, _). child = a) (bodies (last st))))"

definition parents_of :: "address \<Rightarrow> cte_scope list \<Rightarrow> cte_scope list" where
  "parents_of a st = (case child_visible a st of None \<Rightarrow> st
     | Some v \<Rightarrow> butlast st @ [(last st)\<lparr>visible := v\<rparr>])"

definition body_addresses :: "cte_scope list \<Rightarrow> address set" where
  "body_addresses st = (if st = [] then {} else fst ` set (bodies (last st)))"

definition walk_inv :: "address set \<Rightarrow> address set \<Rightarrow> bool \<Rightarrow> relation_collector \<Rightarrow> bool" where
  "walk_inv T K inside rc \<longleftrightarrow> K \<subseteq> target_set rc \<and> target_set rc \<subseteq> T \<and> (inside_table_factor rc \<longrightarrow> inside)"

definition yields :: "address set \<Rightarrow> bool \<Rightarrow> object_name list \<Rightarrow> relation_collector \<Rightarrow> relation_collector \<Rightarrow> bool" where
  "yields T inside names rc rc' \<longleftrightarrow> occurrences rc' = occurrences rc @ names \<and> stack rc' = stack rc
     \<and> target_set rc \<subseteq> target_set rc' \<and> target_set rc' \<subseteq> T \<and> (inside_table_factor rc' \<longrightarrow> inside)"

lemma yields_inv: "walk_inv T K inside rc \<Longrightarrow> yields T inside names rc rc' \<Longrightarrow> walk_inv T K inside rc'"
  by (auto simp: walk_inv_def yields_def)

lemma yields_trans:
  "yields T inside xs rc rc' \<Longrightarrow> yields T inside ys rc' rc'' \<Longrightarrow> yields T inside (xs @ ys) rc rc''"
  by (auto simp: yields_def)

lemma env_of_simps [simp]:
  "env_of [] = []"
  "env_of (st @ [s]) = take (visible s) (aliases s) @ env_of st"
  by (simp_all add: env_of_def)

lemma binding_from_None:
  "binding_from im r ds = None \<longleftrightarrow> (\<forall>s \<in> snd ` set ds. \<not> bound_in im (take (visible s) (aliases s)) r)"
proof (induction im r ds rule: binding_from.induct)
  case (2 im r depth scope rest)
  let ?f = "find_index (\<lambda>alias. ident_matches im alias r) (take (visible scope) (aliases scope))"
  have b: "?f = None \<longleftrightarrow> \<not> bound_in im (take (visible scope) (aliases scope)) r"
    by (simp add: find_index_None_iff bound_in_def list_ex_iff)
  show ?case
  proof (cases ?f)
    case None
    with 2 b show ?thesis by simp
  next
    case (Some k)
    with b show ?thesis by simp
  qed
qed simp

lemma bound_by_cte_env: "bound_by_cte im rc r = bound_in im (env_of (stack rc)) r"
proof -
  have "bound_by_cte im rc r \<longleftrightarrow> (\<exists>s \<in> snd ` set (enumerate 0 (stack rc)). bound_in im (take (visible s) (aliases s)) r)"
    using binding_from_None [of im r "rev (enumerate 0 (stack rc))"]
    by (simp add: bound_by_cte_def binding_def)
  also have "snd ` set (enumerate 0 (stack rc)) = set (stack rc)"
    by (metis list.set_map map_snd_enumerate)
  also have "(\<exists>s \<in> set (stack rc). bound_in im (take (visible s) (aliases s)) r) \<longleftrightarrow> bound_in im (env_of (stack rc)) r"
    by (auto simp: bound_in_def env_of_def list_ex_iff)
  finally show ?thesis .
qed

lemma record_targets_spec:
  "scopes (record_targets s rs) = scopes rs"
  "set (targets (record_targets s rs)) = set (targets rs) \<union> statement_targets s"
proof -
  have f: "scopes (fold record_target fs rs) = scopes rs
      \<and> set (targets (fold record_target fs rs)) = set (targets rs) \<union> {a. VisitedTable a \<in> set fs}" for fs
  proof (induction fs arbitrary: rs)
    case (Cons x fs)
    then show ?case by (cases x) auto
  qed simp
  show "scopes (record_targets s rs) = scopes rs"
    "set (targets (record_targets s rs)) = set (targets rs) \<union> statement_targets s"
    using f by (cases s rule: statement_targets.cases; simp)+
qed

text \<open>Entering and leaving a query, on the stack.\<close>

definition new_scope :: "query_head \<Rightarrow> cte_scope list \<Rightarrow> cte_scope" where
  "new_scope q st = (let (als, bds) = (case qh_with q of None \<Rightarrow> ([], [])
       | Some w \<Rightarrow> (map fst (cte_tables w), with_bodies w)) in
     \<lparr>aliases = als, bodies = bds, visible = length als,
      restore = map_option (\<lambda>_. visible (last st)) (child_visible (qh_address q) st)\<rparr>)"

lemma scopes_enter_stack:
  "scopes_enter q rs = rs\<lparr>scopes := parents_of (qh_address q) (scopes rs) @ [new_scope q (scopes rs)]\<rparr>"
  by (simp add: scopes_enter_def parents_of_def new_scope_def child_visible_def Let_def split: prod.split)

lemma scopes_exit_stack:
  assumes "scopes rs = parents_of a st @ [s]"
    and "restore s = map_option (\<lambda>_. visible (last st)) (child_visible a st)"
  shows "scopes (scopes_exit rs) = st" "targets (scopes_exit rs) = targets rs"
proof -
  have ne: "st \<noteq> []" if "child_visible a st = Some v" for v
    using that by (auto simp: child_visible_def split: if_splits)
  show "targets (scopes_exit rs) = targets rs"
    by (simp add: scopes_exit_def Let_def split: option.splits)
  show "scopes (scopes_exit rs) = st"
  proof (cases "child_visible a st")
    case (Some v)
    with ne have "st = butlast st @ [last st]" by simp
    moreover have "(last st)\<lparr>visible := visible (last st)\<rparr> = last st" by simp
    ultimately show ?thesis
      using Some assms by (simp add: scopes_exit_def parents_of_def Let_def butlast_append)
  qed (use assms in \<open>simp add: scopes_exit_def parents_of_def\<close>)
qed

lemma with_bodies_fst: "fst ` set (with_bodies w) = snd ` set (cte_tables w)"
proof -
  have "map fst (with_bodies w) = map snd (cte_tables w)"
    by (intro nth_equalityI) (simp_all add: with_bodies_def nth_enumerate_eq split: prod.split)
  then show ?thesis by (metis list.set_map)
qed

lemma find_with_bodies:
  assumes "distinct (map snd (cte_tables w))" and "j < length (cte_tables w)"
  shows "find (\<lambda>(child, _). child = snd (cte_tables w ! j)) (with_bodies w)
    = Some (snd (cte_tables w ! j), if recursive w then length (cte_tables w) else j)"
proof -
  have nth: "with_bodies w ! i = (snd (cte_tables w ! i), if recursive w then length (cte_tables w) else i)"
    if "i < length (cte_tables w)" for i
    using that by (simp add: with_bodies_def nth_enumerate_eq split: prod.split)
  have len: "length (with_bodies w) = length (cte_tables w)" by (simp add: with_bodies_def)
  have "snd (cte_tables w ! i) \<noteq> snd (cte_tables w ! j)" if "i < j" for i
    using assms that nth_eq_iff_index_eq [of "map snd (cte_tables w)" i j] by simp
  with assms show ?thesis
    by (auto simp: find_Some_iff len nth intro!: exI [of _ j])
qed

lemma pre_visit_query_stack:
  assumes "env_of (parents_of (qh_address q) (stack rc)) = env"
    and "als = (case qh_with q of None \<Rightarrow> [] | Some w \<Rightarrow> map fst (cte_tables w))"
  shows "rc_scopes (pre_visit_query im q rc) = scopes_enter q (rc_scopes rc)"
    and "inside_table_factor (pre_visit_query im q rc) = inside_table_factor rc"
    and "occurrences (pre_visit_query im q rc) = occurrences rc @
      (case qh_table q of Some (schema, Some name) \<Rightarrow>
          (if schema \<noteq> None \<or> \<not> bound_in im (als @ env) name
           then [map Identifier (case schema of None \<Rightarrow> [name] | Some s \<Rightarrow> [s, name])] else [])
        | _ \<Rightarrow> [])"
proof -
  have "env_of (scopes (scopes_enter q (rc_scopes rc))) = als @ env"
    using assms by (simp add: scopes_enter_stack new_scope_def split: option.splits)
  then show "occurrences (pre_visit_query im q rc) = occurrences rc @
      (case qh_table q of Some (schema, Some name) \<Rightarrow>
          (if schema \<noteq> None \<or> \<not> bound_in im (als @ env) name
           then [map Identifier (case schema of None \<Rightarrow> [name] | Some s \<Rightarrow> [s, name])] else [])
        | _ \<Rightarrow> [])"
    by (simp add: pre_visit_query_def push_name_def bound_by_cte_env Let_def split: option.split)
qed (simp_all add: pre_visit_query_def push_name_def Let_def split: option.split)

lemma pre_visit_relation_yields:
  assumes "walk_inv T K inside rc" and "if target then a \<in> K else a \<notin> T" and "inside_table_factor rc"
    and "env_of (stack rc) = env"
  shows "pre_visit_relation im a n rc = rc\<lparr>occurrences := occurrences rc @
     (if target \<or> (case n of [Identifier ident] \<Rightarrow> \<not> bound_in im env ident | _ \<Rightarrow> True)
      then [n] else [])\<rparr>"
proof -
  have "is_target (rc_scopes rc) a = target"
    using assms by (auto simp: walk_inv_def is_target_def split: if_splits)
  moreover have "bound_by_cte im rc = bound_in im env"
    using assms(4) by (simp add: fun_eq_iff bound_by_cte_env)
  ultimately have pre: "pre_visit_relation im a n rc =
     (if (if length n = 1 then (if target then True
            else (case last_ident n of Some ident \<Rightarrow> \<not> bound_in im env ident | None \<Rightarrow> True))
          else True) then push_name n rc else rc)"
    using assms(3) by (simp only: pre_visit_relation_def Let_def simp_thms)
  show ?thesis
  proof (cases "\<exists>p. n = [p]")
    case True
    then obtain p where "n = [p]" by blast
    then show ?thesis unfolding pre by (cases p) (simp_all add: push_name_def)
  next
    case False
    then have "length n \<noteq> 1" by (auto simp: length_Suc_conv)
    moreover from False have "(case n of [Identifier ident] \<Rightarrow> \<not> bound_in im env ident | _ \<Rightarrow> True)"
      by (auto split: list.split object_name_part.split)
    ultimately show ?thesis unfolding pre by (simp add: push_name_def)
  qed
qed

lemma walk_yields:
  fixes im :: ident_matcher
  shows "query_wf T K inside q \<Longrightarrow> walk_inv T K inside rc \<Longrightarrow>
     env_of (parents_of (qt_address q) (stack rc)) = env \<Longrightarrow>
     yields T inside (query_relations im env q) rc (fold (visit_step im) (query_walk q) rc)"
  and "ctes_wf T K inside ctes \<Longrightarrow> walk_inv T K inside rc \<Longrightarrow> stack rc = st @ [sc] \<Longrightarrow>
     aliases sc = als \<Longrightarrow> env_of st = env \<Longrightarrow>
     (\<And>j. j < length ctes \<Longrightarrow> child_visible (qt_address (snd (ctes ! j))) (stack rc)
         = Some (if rec then length als else i + j)) \<Longrightarrow>
     yields T inside (ctes_relations im env rec als i ctes) rc (fold (visit_step im) (ctes_walk ctes) rc)"
  and "item_wf T K (body_addresses (stack rc)) inside it \<Longrightarrow> walk_inv T K inside rc \<Longrightarrow>
     env_of (stack rc) = env \<Longrightarrow>
     yields T inside (item_relations im env it) rc (fold (visit_step im) (item_walk it) rc)"
  and "items_wf T K (body_addresses (stack rc)) inside its \<Longrightarrow> walk_inv T K inside rc \<Longrightarrow>
     env_of (stack rc) = env \<Longrightarrow>
     yields T inside (items_relations im env its) rc (fold (visit_step im) (items_walk its) rc)"
proof (induction q and ctes and it and its arbitrary: T K inside rc env and T K inside rc env st sc i rec als
      and T K inside rc env and T K inside rc env rule: query_walk_ctes_walk_item_walk_items_walk.induct)
  case (3 al q ctes)
  let ?rc = "fold (visit_step im) (query_walk q) rc"
  have cv: "child_visible (qt_address q) (stack rc) = Some (if rec then length als else i)"
    using 3(8) [of 0] by simp
  have env: "env_of (parents_of (qt_address q) (stack rc)) = (if rec then als else take i als) @ env"
    unfolding parents_of_def cv using 3(5,6,7) by simp
  have q: "yields T inside (query_relations im ((if rec then als else take i als) @ env) q) rc ?rc"
    using 3(1) [OF _ 3(4) env] 3(3) by (simp only: ctes_wf.simps)
  moreover have "yields T inside (ctes_relations im env rec als (Suc i) ctes) ?rc (fold (visit_step im) (ctes_walk ctes) ?rc)"
  proof (rule 3(2))
    show "walk_inv T K inside ?rc" using yields_inv [OF 3(4) q] .
    show "stack ?rc = st @ [sc]" using q 3 by (simp add: yields_def)
    show "child_visible (qt_address (snd (ctes ! j))) (stack ?rc) = Some (if rec then length als else Suc i + j)"
      if "j < length ctes" for j
      using 3(8) [of "Suc j"] that q by (simp add: yields_def)
  qed (use 3 in simp_all)
  ultimately show ?case by (simp add: yields_trans)
next
  case (10 i "is")
  let ?rc = "fold (visit_step im) (item_walk i) rc"
  have i: "yields T inside (item_relations im env i) rc ?rc"
    using 10(1) [OF _ 10(4,5)] 10(3) by simp
  then have "stack ?rc = stack rc" by (simp add: yields_def)
  then have "yields T inside (items_relations im env is) ?rc (fold (visit_step im) (items_walk is) ?rc)"
    using 10(2) [OF _ yields_inv [OF 10(4) i]] 10(3,5) by simp
  with i show ?case by (simp add: yields_trans)
next
  case (1 a rec ctes table items)
  define q where "q = \<lparr>qh_address = a, qh_with = (if ctes = [] then None
         else Some \<lparr>recursive = rec, cte_tables = map (\<lambda>c. (fst c, qt_address (snd c))) ctes\<rparr>),
       qh_table = table\<rparr>"
  have q: "qh_address q = a" "qh_table q = table"
      "qh_with q = (if ctes = [] then None
         else Some \<lparr>recursive = rec, cte_tables = map (\<lambda>c. (fst c, qt_address (snd c))) ctes\<rparr>)"
    by (simp_all add: q_def)
  let ?als = "map fst ctes"
  let ?sc = "new_scope q (stack rc)"
  let ?rc1 = "pre_visit_query im q rc"
  have als: "?als = (case qh_with q of None \<Rightarrow> [] | Some w \<Rightarrow> map fst (cte_tables w))"
    by (auto simp: q comp_def case_prod_beta)
  have env: "env_of (parents_of (qh_address q) (stack rc)) = env" using 1(5) by (simp add: q(1))
  note pre = pre_visit_query_stack [OF env als, of im]
  have st1: "stack ?rc1 = parents_of a (stack rc) @ [?sc]"
    by (simp add: pre(1) scopes_enter_stack q(1))
  have inv1: "walk_inv T K inside ?rc1"
    using 1(4) by (simp add: walk_inv_def pre scopes_enter_stack)
  have sc: "aliases ?sc = ?als" "visible ?sc = length ?als"
    by (auto simp: new_scope_def q)
  have cv: "child_visible (qt_address (snd (ctes ! j))) (stack ?rc1) = Some (if rec then length ?als else 0 + j)"
    if "j < length ctes" for j
    using find_with_bodies [of "the (qh_with q)" j] that 1(3)
    by (auto simp: child_visible_def st1 new_scope_def q comp_def case_prod_beta)
  let ?rc2 = "fold (visit_step im) (ctes_walk ctes) ?rc1"
  have y2: "yields T inside (ctes_relations im env rec ?als 0 ctes) ?rc1 ?rc2"
    using 1(1) [OF _ inv1 st1 sc(1), of env rec 0] 1(3) env cv by (simp add: q(1))
  then have st2: "stack ?rc2 = parents_of a (stack rc) @ [?sc]" by (simp add: yields_def st1)
  let ?rc3 = "fold (visit_step im) (items_walk items) ?rc2"
  have "body_addresses (stack ?rc2) = (\<lambda>c. qt_address (snd c)) ` set ctes"
    by (auto simp: body_addresses_def st2 new_scope_def q with_bodies_fst image_image)
  moreover have "env_of (stack ?rc2) = ?als @ env"
    using 1(5) by (simp add: st2 sc)
  ultimately have y3: "yields T inside (items_relations im (?als @ env) items) ?rc2 ?rc3"
    using 1(2) [OF _ yields_inv [OF inv1 y2]] 1(3) by simp
  then have st3: "stack ?rc3 = parents_of a (stack rc) @ [?sc]" by (simp add: yields_def st2)
  have res: "restore ?sc = map_option (\<lambda>_. visible (last (stack rc))) (child_visible a (stack rc))"
    by (simp add: new_scope_def q split: prod.split)
  note exit = scopes_exit_stack [OF st3 res]
  have walk: "fold (visit_step im) (query_walk (QTree a rec ctes table items)) rc = visit_step im PostQuery ?rc3"
    by (simp add: q_def)
  show ?case
    unfolding walk using y2 y3 exit pre(3) 1(4)
    by (auto simp: yields_def walk_inv_def pre(1,2) scopes_enter_stack Let_def q(2))
next
  case (4 target a n items)
  let ?rc1 = "rc\<lparr>inside_table_factor := True\<rparr>"
  let ?rc2 = "pre_visit_relation im a n ?rc1"
  have "walk_inv T K True ?rc1" using 4(3) by (simp add: walk_inv_def)
  note pre = pre_visit_relation_yields [OF this, of target a env im n]
  have rc2: "?rc2 = ?rc1\<lparr>occurrences := occurrences rc @
     (if target \<or> (case n of [Identifier ident] \<Rightarrow> \<not> bound_in im env ident | _ \<Rightarrow> True) then [n] else [])\<rparr>"
    using pre 4(2,4) by simp
  have "yields T True (items_relations im env items) ?rc2 (fold (visit_step im) (items_walk items) ?rc2)"
    using 4 by (intro 4(1) [where K = K]) (simp_all add: rc2 walk_inv_def)
  moreover have "occurrences ?rc2 = occurrences rc @
     (if target \<or> (case n of [Identifier ident] \<Rightarrow> \<not> bound_in im env ident | _ \<Rightarrow> True) then [n] else [])"
    "rc_scopes ?rc2 = rc_scopes rc"
    unfolding rc2 by simp_all
  ultimately show ?case by (simp add: yields_def)
next
  case (5 items)
  let ?rc1 = "rc\<lparr>inside_table_factor := False\<rparr>"
  have "yields T False (items_relations im env items) ?rc1 (fold (visit_step im) (items_walk items) ?rc1)"
    using 5 by (intro 5(1) [where K = K]) (simp_all add: walk_inv_def)
  then show ?case by (simp add: yields_def)
next
  case (6 a n)
  then have "\<not> inside_table_factor rc" by (simp add: walk_inv_def)
  with 6 show ?case by (simp add: yields_def pre_visit_relation_def push_name_def walk_inv_def)
next
  case (7 q)
  then have "child_visible (qt_address q) (stack rc) = None"
    by (force simp: child_visible_def body_addresses_def find_None_iff)
  then have "parents_of (qt_address q) (stack rc) = stack rc" by (simp add: parents_of_def)
  with 7(1) [OF _ 7(3)] 7(2,4) show ?case by simp
next
  case (8 s items)
  let ?rc1 = "rc\<lparr>rc_scopes := record_targets s (rc_scopes rc)\<rparr>"
  have "yields T inside (items_relations im env items) ?rc1 (fold (visit_step im) (items_walk items) ?rc1)"
    using 8 by (intro 8(1) [where K = "K \<union> statement_targets s"])
      (auto simp: walk_inv_def record_targets_spec)
  then show ?case by (auto simp: yields_def record_targets_spec)
qed (simp_all add: yields_def walk_inv_def)

lemma first_occurrences_spec:
  "set (first_occurrences seen xs) = set seen \<union> set xs \<and> (distinct seen \<longrightarrow> distinct (first_occurrences seen xs))"
  by (induction xs arbitrary: seen) auto

section \<open>Properties\<close>

text \<open>
  C3. The collector, which tracks scopes by the addresses of the nodes it is called back with,
  computes lexical scoping: walking a statement whose nodes have distinct addresses gives exactly
  the relations that no enclosing \<open>WITH\<close> binds where they stand, in order. Earlier expressions of
  the same \<open>WITH\<close> bind in later bodies, all of them do under \<open>RECURSIVE\<close>, and the target of an
  \<open>UPDATE\<close>, \<open>DELETE\<close> or \<open>MERGE\<close> is never bound.
\<close>

theorem relation_occurrences_lexical:
  assumes "items_wf T {} {} False items"
  shows "relation_occurrences im (items_walk items) = items_relations im [] items"
proof -
  have "yields T False (items_relations im [] items) collector_new
      (fold (visit_step im) (items_walk items) collector_new)"
    using assms by (intro walk_yields(4) [where K = "{}"])
      (simp_all add: collector_new_def walk_inv_def body_addresses_def)
  then show ?thesis by (simp add: yields_def relation_occurrences_def collector_new_def)
qed

theorem relation_occurrences_lexical_witness:
  "let bare = (\<lambda>s. [Identifier (bare_ident s)]);
       cte = QTree 2 False [] None [Factor False 10 (bare ''x'') [], Factor False 11 (bare ''y'') []];
       items = [WriteTo (VisitedUpdate (VisitedTable 12))
          [Factor True 12 (bare ''x'') [],
           SubQuery (QTree 1 False [(bare_ident ''x'', cte)] None
             [Factor False 13 (bare ''x'') [], Factor False 14 (bare ''z'') []])]] in
   items_wf {12} {} {} False items
   \<and> relation_occurrences (\<lambda>a _ b _. a = b) (items_walk items) = [bare ''x'', bare ''x'', bare ''y'', bare ''z'']"
proof -
  let ?b = "\<lambda>s. [Identifier (bare_ident s)]"
  let ?cte = "QTree 2 False [] None [Factor False 10 (?b ''x'') [], Factor False 11 (?b ''y'') []]"
  let ?items = "[WriteTo (VisitedUpdate (VisitedTable 12))
          [Factor True 12 (?b ''x'') [],
           SubQuery (QTree 1 False [(bare_ident ''x'', ?cte)] None
             [Factor False 13 (?b ''x'') [], Factor False 14 (?b ''z'') []])]]"
  have wf: "items_wf {12} {} {} False ?items" by simp
  have "items_relations (\<lambda>a _ b _. a = b) [] ?items = [?b ''x'', ?b ''x'', ?b ''y'', ?b ''z'']"
    by (simp add: bound_in_def ident_matches_def bare_ident_def)
  with relation_occurrences_lexical [OF wf, of "\<lambda>a _ b _. a = b"] wf show ?thesis
    by (simp add: Let_def del: items_wf.simps items_walk.simps)
qed

text \<open>
  \<open>relation_names\<close> lists each stored relation a walk names once, folded as SQLite folds names,
  and nothing else.
\<close>

lemma relation_names_distinct:
  "distinct (relation_names im walk)
   \<and> set (relation_names im walk)
     = (\<lambda>n. to_ascii_lowercase (last_ident_value_or_display n)) ` set (relation_occurrences im walk)"
  by (simp add: relation_names_def first_occurrences_spec)

end
