(* ===== verification/Catalog.thy ===== *)
theory Catalog
  imports Sql_Ast
begin

text \<open>
  What each translation unit does to connection-local (\<open>TEMP\<close>) objects:
  \<open>src/src/history/effects.rs\<close>.

  Object ids are positions in \<open>objects\<close>. The names a node reads are the parameter \<open>rn\<close>, in the
  program \<open>relation_names\<close> of the node's walk (theory \<open>Relation_Scopes\<close>). The three mutually nested
  recursions of the code (\<open>reads\<close> through views, \<open>write\<close> through triggers, \<open>retire\<close> through
  dependents) are depth-first with state threaded through, and are written as work lists in the same
  order, so that their termination is a measure: unread objects, unfired trigger events, live objects.
\<close>

section \<open>Events and effects\<close>

type_synonym object_id = nat

datatype (plugins only: code size) events = Events (ev_insert: bool) (ev_update: bool) (ev_delete: bool)

definition EV_INSERT :: events where "EV_INSERT = Events True False False"
definition EV_UPDATE :: events where "EV_UPDATE = Events False True False"
definition EV_DELETE :: events where "EV_DELETE = Events False False True"
definition EV_UPSERT :: events where "EV_UPSERT = Events True True False"

definition overlaps :: "events \<Rightarrow> events \<Rightarrow> bool" where
  "overlaps a b \<longleftrightarrow> (ev_insert a \<and> ev_insert b) \<or> (ev_update a \<and> ev_update b) \<or> (ev_delete a \<and> ev_delete b)"

fun cover_event :: "trigger_event \<Rightarrow> events \<Rightarrow> events" where
  "cover_event EventInsert e = Events True (ev_update e) (ev_delete e)"
| "cover_event (EventUpdate _) e = Events (ev_insert e) True (ev_delete e)"
| "cover_event EventDelete e = Events (ev_insert e) (ev_update e) True"
| "cover_event EventTruncate e = e"

definition of_trigger :: "trigger_event list \<Rightarrow> events" where
  "of_trigger evs = fold cover_event evs (Events False False False)"

record effects =
  touches :: "object_id list"
  reads :: "object_id list"
  persistent_write :: bool

definition effects_default :: effects where
  "effects_default = \<lparr>touches = [], reads = [], persistent_write = False\<rparr>"

definition touch :: "object_id \<Rightarrow> effects \<Rightarrow> effects" where
  "touch i e = (if i \<in> set (touches e) then e else e\<lparr>touches := touches e @ [i]\<rparr>)"

definition read_object :: "object_id \<Rightarrow> effects \<Rightarrow> effects" where
  "read_object i e = (if i \<in> set (reads e) then e else e\<lparr>reads := reads e @ [i]\<rparr>)"

section \<open>Objects and the catalog\<close>

datatype (plugins only: code size) owner = OwnerConnection object_id | OwnerFile string

datatype (plugins only: code size) shape =
    ShapeTable
  | ShapeView "string list"
  | ShapeTrigger owner events "statement list"
  | ShapeIndex object_id

record object =
  obj_shape :: shape
  obj_alive :: bool

record catalog =
  objects :: "object list"
  relations :: "string \<Rightarrow> object_id option"
  triggers :: "string \<Rightarrow> object_id option"
  indexes :: "string \<Rightarrow> object_id option"

definition catalog_default :: catalog where
  "catalog_default = \<lparr>objects = [], relations = (\<lambda>_. None), triggers = (\<lambda>_. None), indexes = (\<lambda>_. None)\<rparr>"

definition alive_ids :: "catalog \<Rightarrow> object_id list" where
  "alive_ids c = filter (\<lambda>i. obj_alive (objects c ! i)) [0..<length (objects c)]"

definition catalog_len :: "catalog \<Rightarrow> nat" where
  "catalog_len c = length (objects c)"

definition create_object :: "shape \<Rightarrow> catalog \<Rightarrow> object_id \<times> catalog" where
  "create_object sh c = (length (objects c), c\<lparr>objects := objects c @ [\<lparr>obj_shape = sh, obj_alive = True\<rparr>]\<rparr>)"

text \<open>The schema qualifier and the SQLite-folded object name.\<close>

definition split_name :: "object_name \<Rightarrow> (string option \<times> string) option" where
  "split_name n =
     (let parts = List.map_filter as_ident n in
      if parts = [] then None
      else Some (if butlast parts = [] then None else Some (ident_value (last (butlast parts))),
                 to_ascii_lowercase (ident_value (last parts))))"

definition other_schema :: "string option \<Rightarrow> bool" where
  "other_schema schema = (case schema of None \<Rightarrow> False | Some s \<Rightarrow> \<not> eq_ignore_ascii_case s ''temp'')"

definition relation :: "catalog \<Rightarrow> object_name \<Rightarrow> object_id option" where
  "relation c n = (case split_name n of None \<Rightarrow> None
     | Some (schema, key) \<Rightarrow> if other_schema schema then None else relations c key)"

definition is_temporary :: "bool \<Rightarrow> object_name \<Rightarrow> bool" where
  "is_temporary flagged n \<longleftrightarrow> flagged
     \<or> (case split_name n of Some (Some schema, _) \<Rightarrow> eq_ignore_ascii_case schema ''temp'' | _ \<Rightarrow> False)"

section \<open>Row writes\<close>

datatype (plugins only: code size) row_write_target = WriteTable object_name events | Untracked

fun row_write :: "statement \<Rightarrow> row_write_target option" where
  "row_write (Insert table upsert _) =
     (let events = (if upsert then EV_UPSERT else EV_INSERT) in
      Some (case table of TableName n \<Rightarrow> WriteTable n events | TableFunction \<Rightarrow> Untracked | TableQuery \<Rightarrow> Untracked))"
| "row_write (Update table _) =
     Some (case table of FactorTable n \<Rightarrow> WriteTable n EV_UPDATE | FactorOther \<Rightarrow> Untracked)"
| "row_write (Delete tables _) =
     Some (case tables of FactorTable n # _ \<Rightarrow> WriteTable n EV_DELETE | _ \<Rightarrow> Untracked)"
| "row_write (Merge _) = Some Untracked"
| "row_write (Query (QueryNode _ (SetInsert s))) = row_write s"
| "row_write (Query (QueryNode _ (SetUpdate s))) = row_write s"
| "row_write (Query (QueryNode _ (SetDelete s))) = row_write s"
| "row_write (Query (QueryNode _ (SetMerge s))) = Some Untracked"
| "row_write (Query (QueryNode _ SetOther)) = None"
| "row_write _ = None"

section \<open>Reads\<close>

text \<open>The node whose walk gives the names read.\<close>

datatype (plugins only: code size) visit_node = NodeQuery query | NodeStatement statement | NodeTrigger create_trigger

definition unread :: "catalog \<Rightarrow> effects \<Rightarrow> object_id set" where
  "unread c e = {i. i < length (objects c)} - set (reads e)"

text \<open>
  Records a read of each named relation, and of the relations a read view reads. An id out of range
  would abort at the indexing; \<open>catalog_wf\<close> below excludes it.
\<close>

function (sequential) reads_names :: "catalog \<Rightarrow> string list \<Rightarrow> effects \<Rightarrow> effects" where
  "reads_names c [] e = e"
| "reads_names c (n # ns) e =
     (case relations c n of
        None \<Rightarrow> reads_names c ns e
      | Some i \<Rightarrow>
          (if i \<in> set (reads e) \<or> length (objects c) \<le> i then reads_names c ns e
           else reads_names c
             ((case obj_shape (objects c ! i) of ShapeView bases \<Rightarrow> bases | _ \<Rightarrow> []) @ ns)
             (read_object i e)))"
  by pat_completeness auto

lemma finite_unread [simp]: "finite (unread c e)"
  by (simp add: unread_def)

lemma unread_read_object:
  "i < length (objects c) \<Longrightarrow> i \<notin> set (reads e) \<Longrightarrow> card (unread c (read_object i e)) < card (unread c e)"
  by (rule psubset_card_mono) (auto simp: unread_def read_object_def)

termination reads_names
  by (relation "measures [\<lambda>(c, ns, e). card (unread c e), \<lambda>(c, ns, e). length ns]")
    (auto simp: unread_read_object)

section \<open>Writes\<close>

datatype (plugins only: code size) write_task =
    TaskWrite object_name events
  | TaskScan owner events nat
  | TaskBody "statement list"

definition record_target_write :: "catalog \<Rightarrow> object_name \<Rightarrow> effects \<Rightarrow> effects" where
  "record_target_write c n e =
     (case relation c n of
        Some i \<Rightarrow> (case obj_shape (objects c ! i) of
            ShapeTable \<Rightarrow> touch i e | ShapeView _ \<Rightarrow> read_object i e | _ \<Rightarrow> e)
      | None \<Rightarrow> e\<lparr>persistent_write := True\<rparr>)"

definition write_owner :: "catalog \<Rightarrow> object_name \<Rightarrow> owner option" where
  "write_owner c n = (case relation c n of
     Some i \<Rightarrow> Some (OwnerConnection i)
   | None \<Rightarrow> map_option (\<lambda>(_, table). OwnerFile table) (split_name n))"

text \<open>Whether the object is a live trigger on \<open>own\<close> that \<open>events\<close> fires, and its body.\<close>

definition fired_body :: "object \<Rightarrow> owner \<Rightarrow> events \<Rightarrow> statement list option" where
  "fired_body obj own events = (case obj_shape obj of
     ShapeTrigger on covered body \<Rightarrow>
       (if \<not> obj_alive obj \<or> on \<noteq> own \<or> \<not> overlaps covered events then None else Some body)
   | _ \<Rightarrow> None)"

definition unfired :: "catalog \<Rightarrow> (object_id \<times> events) list \<Rightarrow> (object_id \<times> events) set" where
  "unfired c fired = ({i. i < length (objects c)} \<times> UNIV) - set fired"

fun task_weight :: "nat \<Rightarrow> write_task \<Rightarrow> nat" where
  "task_weight n (TaskWrite _ _) = n + 2"
| "task_weight n (TaskScan _ _ i) = n - i + 1"
| "task_weight n (TaskBody ss) = 1 + length ss * (n + 4)"

function (sequential) write_loop ::
  "(visit_node \<Rightarrow> string list) \<Rightarrow> catalog \<Rightarrow> write_task list \<Rightarrow> effects \<Rightarrow> (object_id \<times> events) list \<Rightarrow> effects" where
  "write_loop rn c [] e fired = e"
| "write_loop rn c (TaskWrite n events # ts) e fired =
     (let e1 = record_target_write c n e in
      case write_owner c n of
        None \<Rightarrow> write_loop rn c ts e1 fired
      | Some own \<Rightarrow> write_loop rn c (TaskScan own events 0 # ts) e1 fired)"
| "write_loop rn c (TaskScan own events i # ts) e fired =
     (if length (objects c) \<le> i then write_loop rn c ts e fired
      else case fired_body (objects c ! i) own events of
        None \<Rightarrow> write_loop rn c (TaskScan own events (Suc i) # ts) e fired
      | Some body \<Rightarrow>
          (if (i, events) \<in> set fired then write_loop rn c (TaskScan own events (Suc i) # ts) e fired
           else write_loop rn c (TaskBody body # TaskScan own events (Suc i) # ts)
                  (read_object i e) (fired @ [(i, events)])))"
| "write_loop rn c (TaskBody [] # ts) e fired = write_loop rn c ts e fired"
| "write_loop rn c (TaskBody (s # ss) # ts) e fired =
     (let e1 = reads_names c (rn (NodeStatement s)) e in
      case row_write s of
        Some (WriteTable n events) \<Rightarrow> write_loop rn c (TaskWrite n events # TaskBody ss # ts) e1 fired
      | Some Untracked \<Rightarrow> write_loop rn c (TaskBody ss # ts) (e1\<lparr>persistent_write := True\<rparr>) fired
      | None \<Rightarrow> write_loop rn c (TaskBody ss # ts) e1 fired)"
  by pat_completeness auto

lemma finite_events [simp]: "finite (UNIV :: events set)"
proof -
  have "UNIV = (\<lambda>(a, b, c). Events a b c) ` UNIV"
    by (auto simp: image_iff) (metis events.collapse)
  then show ?thesis by (metis finite_imageI finite_Prod_UNIV finite_UNIV)
qed

lemma unfired_snoc:
  "i < length (objects c) \<Longrightarrow> (i, ev) \<notin> set fired \<Longrightarrow> card (unfired c (fired @ [(i, ev)])) < card (unfired c fired)"
  by (rule psubset_card_mono) (auto simp: unfired_def)

termination write_loop
  by (relation "measures [\<lambda>(rn, c, ts, e, fired). card (unfired c fired),
        \<lambda>(rn, c, ts, e, fired). sum_list (map (task_weight (length (objects c))) ts)]")
    (auto simp: unfired_snoc)

definition write_rows :: "(visit_node \<Rightarrow> string list) \<Rightarrow> catalog \<Rightarrow> object_name \<Rightarrow> events \<Rightarrow> effects \<Rightarrow> effects" where
  "write_rows rn c n events e = write_loop rn c [TaskWrite n events] e []"

section \<open>Retiring an object and what hangs off it\<close>

definition attached_to :: "catalog \<Rightarrow> object_id \<Rightarrow> object_id list" where
  "attached_to c i = filter (\<lambda>j. obj_alive (objects c ! j)
      \<and> (case obj_shape (objects c ! j) of
           ShapeTrigger (OwnerConnection own) _ _ \<Rightarrow> own = i
         | ShapeIndex own \<Rightarrow> own = i
         | _ \<Rightarrow> False)) [0..<length (objects c)]"

definition kill :: "object_id \<Rightarrow> catalog \<Rightarrow> catalog" where
  "kill i c = c\<lparr>objects := (objects c)[i := (objects c ! i)\<lparr>obj_alive := False\<rparr>]\<rparr>"

definition forget :: "object_id \<Rightarrow> catalog \<Rightarrow> catalog" where
  "forget i c = c\<lparr>triggers := (\<lambda>k. if triggers c k = Some i then None else triggers c k),
     indexes := (\<lambda>k. if indexes c k = Some i then None else indexes c k)\<rparr>"

definition live_count :: "catalog \<Rightarrow> nat" where
  "live_count c = length (filter obj_alive (objects c))"

function (sequential) retire_all :: "object_id list \<Rightarrow> catalog \<times> effects \<Rightarrow> catalog \<times> effects" where
  "retire_all [] ce = ce"
| "retire_all (i # is) (c, e) =
     (let c1 = forget i c in
      if length (objects c) \<le> i \<or> \<not> obj_alive (objects c ! i) then retire_all is (c1, e)
      else (let c2 = kill i c1 in retire_all (attached_to c2 i @ is) (c2, touch i e)))"
  by pat_completeness auto

lemma live_count_forget [simp]: "live_count (forget i c) = live_count c"
  by (simp add: live_count_def forget_def)

lemma live_count_kill:
  assumes "i < length (objects c)" and "obj_alive (objects c ! i)"
  shows "live_count (kill i c) < live_count c"
proof -
  obtain xs ys where "objects c = xs @ objects c ! i # ys" and "length xs = i"
    using id_take_nth_drop [OF assms(1)] assms(1) by (metis length_take min.absorb4)
  then obtain x where o: "objects c = xs @ x # ys" "length xs = i" "objects c ! i = x" by metis
  with assms(2) show ?thesis by (auto simp: live_count_def kill_def list_update_append)
qed

lemma objects_forget [simp]: "objects (forget i c) = objects c"
  by (simp add: forget_def)

termination retire_all
  by (relation "measures [\<lambda>(is, c, e). live_count c, \<lambda>(is, c, e). length is]")
    (simp_all add: not_le live_count_kill [of _ "forget i c" for i c, simplified])

definition retire :: "object_id \<Rightarrow> catalog \<times> effects \<Rightarrow> catalog \<times> effects" where
  "retire i ce = (case ce of (c, e) \<Rightarrow>
     (if length (objects c) \<le> i \<or> \<not> obj_alive (objects c ! i) then (c, e)
      else (let c1 = kill i c in retire_all (attached_to c1 i) (c1, touch i e))))"

section \<open>Statements\<close>

definition create_relation :: "object_name \<Rightarrow> bool \<Rightarrow> shape \<Rightarrow> catalog \<times> effects \<Rightarrow> catalog \<times> effects" where
  "create_relation n if_not_exists sh ce = (case ce of (c, e) \<Rightarrow>
     (case split_name n of
        None \<Rightarrow> (c, e)
      | Some (_, key) \<Rightarrow>
          (if if_not_exists \<and> relations c key \<noteq> None then (c, e)
           else (let (i, c1) = create_object sh c in
                 (c1\<lparr>relations := (relations c1)(key \<mapsto> i)\<rparr>, touch i e)))))"

definition drop_one :: "object_type \<Rightarrow> object_name \<Rightarrow> catalog \<times> effects \<Rightarrow> catalog \<times> effects" where
  "drop_one ty n ce = (case ce of (c, e) \<Rightarrow>
     (case split_name n of
        None \<Rightarrow> (c, e)
      | Some (schema, key) \<Rightarrow>
          (if other_schema schema then (c, e)
           else if ty = ObjTable \<or> ty = ObjView then
             (case relations c key of None \<Rightarrow> (c, e)
              | Some i \<Rightarrow> retire i (c\<lparr>relations := (relations c)(key := None)\<rparr>, e))
           else if ty = ObjIndex then
             (case indexes c key of None \<Rightarrow> (c, e)
              | Some i \<Rightarrow> retire i (c\<lparr>indexes := (indexes c)(key := None)\<rparr>, e))
           else (c, e))))"

definition drop_objects :: "object_type \<Rightarrow> object_name list \<Rightarrow> catalog \<times> effects \<Rightarrow> catalog \<times> effects" where
  "drop_objects ty ns ce = fold (drop_one ty) ns ce"

fun rename_operation :: "object_name \<Rightarrow> object_id \<Rightarrow> alter_table_operation \<Rightarrow> catalog \<Rightarrow> catalog" where
  "rename_operation n i (RenameTableTo to) c =
     (case (split_name n, split_name to) of
        (Some (_, from_key), Some (_, to_key)) \<Rightarrow>
          c\<lparr>relations := ((relations c)(from_key := None))(to_key \<mapsto> i)\<rparr>
      | _ \<Rightarrow> c)"
| "rename_operation n i _ c = c"

definition alter_table :: "object_name \<Rightarrow> alter_table_operation list \<Rightarrow> catalog \<times> effects \<Rightarrow> catalog \<times> effects" where
  "alter_table n ops ce = (case ce of (c, e) \<Rightarrow>
     (case relation c n of
        None \<Rightarrow> (c, e)
      | Some i \<Rightarrow> (fold (rename_operation n i) ops c, touch i e)))"

definition trigger_body :: "create_trigger \<Rightarrow> statement list" where
  "trigger_body tg = (case tr_statements tg of
     Some (BeginEnd ss) \<Rightarrow> ss | Some (Sequence ss) \<Rightarrow> ss | None \<Rightarrow> [])"

definition trigger_owner :: "catalog \<Rightarrow> object_name \<Rightarrow> effects \<Rightarrow> (owner \<times> effects) option" where
  "trigger_owner c n e = (case relation c n of
     Some i \<Rightarrow> Some (OwnerConnection i, read_object i e)
   | None \<Rightarrow> map_option (\<lambda>(_, table). (OwnerFile table, e)) (split_name n))"

text \<open>The \<open>OR REPLACE\<close> of a trigger: the previous trigger of the name is retired first.\<close>

definition replace_trigger :: "bool \<Rightarrow> string \<Rightarrow> catalog \<times> effects \<Rightarrow> catalog \<times> effects" where
  "replace_trigger or_replace key ce = (case ce of (c, e) \<Rightarrow>
     (case triggers c key of
        Some previous \<Rightarrow>
          (if or_replace then retire previous (c\<lparr>triggers := (triggers c)(key := None)\<rparr>, e) else (c, e))
      | None \<Rightarrow> (c, e)))"

definition install_trigger :: "shape \<Rightarrow> string \<Rightarrow> catalog \<times> effects \<Rightarrow> catalog \<times> effects" where
  "install_trigger sh key ce = (case ce of (c, e) \<Rightarrow>
     (let (i, c1) = create_object sh c in (c1\<lparr>triggers := (triggers c1)(key \<mapsto> i)\<rparr>, touch i e)))"

definition create_trigger_object :: "create_trigger \<Rightarrow> catalog \<times> effects \<Rightarrow> catalog \<times> effects" where
  "create_trigger_object tg ce = (case ce of (c, e) \<Rightarrow>
     (case split_name (tr_name tg) of
        None \<Rightarrow> (c, e)
      | Some (_, key) \<Rightarrow>
          (case trigger_owner c (tr_table_name tg) e of
             None \<Rightarrow> (c, e)
           | Some (own, e1) \<Rightarrow>
               install_trigger (ShapeTrigger own (of_trigger (tr_events tg)) (trigger_body tg)) key
                 (replace_trigger (tr_or_replace tg) key (c, e1)))))"

definition replace_relation :: "bool \<Rightarrow> object_name \<Rightarrow> catalog \<times> effects \<Rightarrow> catalog \<times> effects" where
  "replace_relation or_replace n ce = (case ce of (c, e) \<Rightarrow>
     (case split_name n of
        Some (_, key) \<Rightarrow>
          (case relations c key of
             Some previous \<Rightarrow>
               (if or_replace then retire previous (c\<lparr>relations := (relations c)(key := None)\<rparr>, e) else (c, e))
           | None \<Rightarrow> (c, e))
      | None \<Rightarrow> (c, e)))"

definition create_view_object :: "(visit_node \<Rightarrow> string list) \<Rightarrow> create_view \<Rightarrow> catalog \<times> effects \<Rightarrow> catalog \<times> effects" where
  "create_view_object rn v ce =
     create_relation (cv_name v) False (ShapeView (rn (NodeQuery (cv_query v))))
       (replace_relation (cv_or_replace v) (cv_name v) ce)"

definition create_index_object :: "create_index \<Rightarrow> catalog \<times> effects \<Rightarrow> catalog \<times> effects" where
  "create_index_object ix ce = (case ce of (c, e) \<Rightarrow>
     (case relation c (ci_table_name ix) of
        None \<Rightarrow> (c, e)
      | Some own \<Rightarrow>
          (case Option.bind (ci_name ix) split_name of
             None \<Rightarrow> (c, e)
           | Some (_, key) \<Rightarrow>
               (let (i, c1) = create_object (ShapeIndex own) c in
                (c1\<lparr>indexes := (indexes c1)(key \<mapsto> i)\<rparr>, touch i (read_object own e))))))"

definition row_statement :: "(visit_node \<Rightarrow> string list) \<Rightarrow> statement \<Rightarrow> catalog \<times> effects \<Rightarrow> catalog \<times> effects" where
  "row_statement rn s ce = (case ce of (c, e) \<Rightarrow>
     (case row_write s of
        None \<Rightarrow> (c, e)
      | Some w \<Rightarrow>
          (let e1 = reads_names c (rn (NodeStatement s)) e in
           case w of
             WriteTable n events \<Rightarrow> (c, write_rows rn c n events e1)
           | Untracked \<Rightarrow> (c, e1\<lparr>persistent_write := True\<rparr>))))"

fun apply_statement :: "(visit_node \<Rightarrow> string list) \<Rightarrow> statement \<Rightarrow> catalog \<times> effects \<Rightarrow> catalog \<times> effects" where
  "apply_statement rn (CreateTable ct) (c, e) =
     (if is_temporary (ct_temporary ct) (ct_name ct) then
        create_relation (ct_name ct) (ct_if_not_exists ct) ShapeTable
          (c, case ct_query ct of None \<Rightarrow> e | Some q \<Rightarrow> reads_names c (rn (NodeQuery q)) e)
      else (c, e))"
| "apply_statement rn (CreateVirtualTable n if_not_exists _) (c, e) =
     (if is_temporary False n then create_relation n if_not_exists ShapeTable (c, e) else (c, e))"
| "apply_statement rn (CreateView v) (c, e) =
     (if is_temporary (cv_temporary v) (cv_name v) then create_view_object rn v (c, e) else (c, e))"
| "apply_statement rn (CreateTrigger tg) (c, e) =
     (if tr_temporary tg \<or> relation c (tr_table_name tg) \<noteq> None then create_trigger_object tg (c, e) else (c, e))"
| "apply_statement rn (CreateIndex ix) ce = create_index_object ix ce"
| "apply_statement rn (Drop ty ns) ce = drop_objects ty ns ce"
| "apply_statement rn (DropTrigger n _) (c, e) =
     (case split_name n of
        None \<Rightarrow> (c, e)
      | Some (_, key) \<Rightarrow>
          (case triggers c key of None \<Rightarrow> (c, e)
           | Some i \<Rightarrow> retire i (c\<lparr>triggers := (triggers c)(key := None)\<rparr>, e)))"
| "apply_statement rn (AlterTable n ops) ce = alter_table n ops ce"
| "apply_statement rn (Insert a b d) ce = row_statement rn (Insert a b d) ce"
| "apply_statement rn (Update a b) ce = row_statement rn (Update a b) ce"
| "apply_statement rn (Delete a b) ce = row_statement rn (Delete a b) ce"
| "apply_statement rn (Query q) ce = row_statement rn (Query q) ce"
| "apply_statement rn (Merge m) ce = row_statement rn (Merge m) ce"
| "apply_statement rn _ ce = ce"

definition apply_unit :: "(visit_node \<Rightarrow> string list) \<Rightarrow> statement list \<Rightarrow> catalog \<Rightarrow> catalog \<times> effects" where
  "apply_unit rn unit c = fold (apply_statement rn) unit (c, effects_default)"

end
