(* ===== verification/Catalog_Facts.thy ===== *)
theory Catalog_Facts
  imports Catalog
begin

text \<open>
  The invariant of the catalog of connection-local objects, that every statement keeps it, and what
  the three traversals (\<open>reads\<close>, \<open>write\<close>, \<open>retire\<close>) compute.
\<close>

section \<open>The invariant\<close>

definition live :: "catalog \<Rightarrow> object_id \<Rightarrow> bool" where
  "live c i \<longleftrightarrow> i < length (objects c) \<and> obj_alive (objects c ! i)"

abbreviation shape_of :: "catalog \<Rightarrow> object_id \<Rightarrow> shape" where
  "shape_of c i \<equiv> obj_shape (objects c ! i)"

fun relation_shape :: "shape \<Rightarrow> bool" where
  "relation_shape ShapeTable = True"
| "relation_shape (ShapeView _) = True"
| "relation_shape _ = False"

fun trigger_shape :: "shape \<Rightarrow> bool" where
  "trigger_shape (ShapeTrigger _ _ _) = True"
| "trigger_shape _ = False"

fun index_shape :: "shape \<Rightarrow> bool" where
  "index_shape (ShapeIndex _) = True"
| "index_shape _ = False"

fun owner_of :: "shape \<Rightarrow> object_id option" where
  "owner_of (ShapeTrigger (OwnerConnection own) _ _) = Some own"
| "owner_of (ShapeIndex own) = Some own"
| "owner_of _ = None"

definition map_wf :: "(shape \<Rightarrow> bool) \<Rightarrow> catalog \<Rightarrow> (string \<Rightarrow> object_id option) \<Rightarrow> bool" where
  "map_wf P c m \<longleftrightarrow> (\<forall>k i. m k = Some i \<longrightarrow> live c i \<and> P (shape_of c i) \<and> (\<forall>k'. m k' = Some i \<longrightarrow> k' = k))"

definition wf_pending :: "object_id set \<Rightarrow> catalog \<Rightarrow> bool" where
  "wf_pending P c \<longleftrightarrow> map_wf relation_shape c (relations c) \<and> map_wf trigger_shape c (triggers c)
     \<and> map_wf index_shape c (indexes c)
     \<and> (\<forall>i own. i < length (objects c) \<longrightarrow> owner_of (shape_of c i) = Some own \<longrightarrow>
          own < length (objects c) \<and> relation_shape (shape_of c own)
          \<and> (obj_alive (objects c ! i) \<longrightarrow> i \<notin> P \<longrightarrow> live c own))"

text \<open>
  The invariant: every name maps to a live object of the right kind, no two names to the same
  object, and a live trigger or index on a connection object hangs off a live relation.
\<close>

abbreviation catalog_wf :: "catalog \<Rightarrow> bool" where
  "catalog_wf c \<equiv> wf_pending {} c"

definition effects_in :: "nat \<Rightarrow> effects \<Rightarrow> bool" where
  "effects_in n e \<longleftrightarrow> (\<forall>i \<in> set (touches e) \<union> set (reads e). i < n)"

lemma effects_in_simps [simp]:
  "i < n \<Longrightarrow> effects_in n (touch i e) = effects_in n e"
  "i < n \<Longrightarrow> effects_in n (read_object i e) = effects_in n e"
  "effects_in n (e\<lparr>persistent_write := b\<rparr>) = effects_in n e"
  "effects_in n effects_default"
  by (auto simp: effects_in_def touch_def read_object_def effects_default_def)

lemma effects_in_mono: "effects_in n e \<Longrightarrow> n \<le> m \<Longrightarrow> effects_in m e"
  unfolding effects_in_def using less_le_trans by blast

section \<open>Small steps on the catalog\<close>

lemma length_kill [simp]: "length (objects (kill i c)) = length (objects c)"
  by (simp add: kill_def)

lemma shape_kill [simp]: "shape_of (kill i c) j = shape_of c j"
  by (cases "i < length (objects c)") (simp_all add: kill_def nth_list_update list_update_beyond)

lemma live_kill [simp]: "live (kill i c) j \<longleftrightarrow> live c j \<and> j \<noteq> i"
  by (cases "i < length (objects c)") (auto simp: live_def kill_def nth_list_update list_update_beyond)

lemma maps_kill [simp]:
  "relations (kill i c) = relations c" "triggers (kill i c) = triggers c" "indexes (kill i c) = indexes c"
  by (simp_all add: kill_def)

lemma live_forget [simp]: "live (forget i c) j = live c j"
  by (simp add: live_def)

lemma relations_forget [simp]: "relations (forget i c) = relations c"
  by (simp add: forget_def)

lemma live_upd [simp]:
  "live (c\<lparr>relations := m\<rparr>) i = live c i"
  "live (c\<lparr>triggers := m\<rparr>) i = live c i"
  "live (c\<lparr>indexes := m\<rparr>) i = live c i"
  by (simp_all add: live_def)

lemma set_attached_to: "set (attached_to c i) = {j. live c j \<and> owner_of (shape_of c j) = Some i}"
proof -
  have "(case sh of ShapeTrigger (OwnerConnection own) _ _ \<Rightarrow> own = i | ShapeIndex own \<Rightarrow> own = i | _ \<Rightarrow> False)
     \<longleftrightarrow> owner_of sh = Some i" for sh
    by (cases sh rule: owner_of.cases) auto
  then show ?thesis by (auto simp: attached_to_def live_def)
qed

lemma owner_shape: "owner_of sh = Some i \<Longrightarrow> \<not> relation_shape sh"
  by (cases sh rule: owner_of.cases) auto

lemma map_wf_forget [simp]: "map_wf Q (forget i c) m = map_wf Q c m"
  by (simp add: map_wf_def)

lemma wf_forget:
  assumes "wf_pending P c"
  shows "wf_pending P (forget i c)" "triggers (forget i c) k \<noteq> Some i" "indexes (forget i c) k \<noteq> Some i"
proof -
  have "map_wf Q c (\<lambda>k. if m k = Some i then None else m k)" if "map_wf Q c m" for Q m
    using that by (auto simp: map_wf_def)
  then have "map_wf trigger_shape c (triggers (forget i c))" "map_wf index_shape c (indexes (forget i c))"
    using assms by (simp_all add: wf_pending_def forget_def)
  with assms show "wf_pending P (forget i c)"
    by (simp add: wf_pending_def)
qed (simp_all add: forget_def)

lemma wf_kill:
  assumes wf: "wf_pending P c" and free: "i \<notin> ran (relations c)" "i \<notin> ran (triggers c)" "i \<notin> ran (indexes c)"
    and Q: "P - {i} \<union> set (attached_to (kill i c) i) \<subseteq> Q"
  shows "wf_pending Q (kill i c)"
proof -
  have m: "map_wf R (kill i c) m" if "map_wf R c m" "i \<notin> ran m" for R m
    using that by (auto simp: map_wf_def ran_def)
  have own: "own < length (objects c) \<and> relation_shape (shape_of c own)
      \<and> (obj_alive (objects (kill i c) ! j) \<longrightarrow> j \<notin> Q \<longrightarrow> live (kill i c) own)"
    if j: "j < length (objects c)" and o: "owner_of (shape_of c j) = Some own" for j own
  proof -
    have b: "own < length (objects c)" "relation_shape (shape_of c own)"
        "obj_alive (objects c ! j) \<longrightarrow> j \<notin> P \<longrightarrow> live c own"
      using wf j o by (auto simp: wf_pending_def)
    have "live (kill i c) own" if a: "obj_alive (objects (kill i c) ! j)" "j \<notin> Q"
    proof -
      from a j have lj: "live (kill i c) j" by (simp add: live_def)
      then have "j \<noteq> i" "live c j" by simp_all
      with a Q have "j \<notin> P" by auto
      moreover from lj a(2) Q o have "own \<noteq> i" by (auto simp: set_attached_to)
      moreover from \<open>live c j\<close> have "obj_alive (objects c ! j)" by (simp add: live_def)
      ultimately show ?thesis using b(3) by simp
    qed
    with b show ?thesis by simp
  qed
  have "map_wf relation_shape (kill i c) (relations c)" "map_wf trigger_shape (kill i c) (triggers c)"
      "map_wf index_shape (kill i c) (indexes c)"
    using wf free m by (simp_all add: wf_pending_def)
  with own show ?thesis
    unfolding wf_pending_def maps_kill length_kill shape_kill by blast
qed

lemma retire_all_wf:
  assumes "wf_pending (set is) c" and "\<forall>i \<in> set is. i < length (objects c) \<and> \<not> relation_shape (shape_of c i)"
    and "retire_all is (c, e) = (c', e')"
  shows "catalog_wf c' \<and> length (objects c') = length (objects c) \<and> relations c' = relations c
    \<and> (\<forall>j. shape_of c' j = shape_of c j)
    \<and> (effects_in (length (objects c)) e \<longrightarrow> effects_in (length (objects c)) e')"
  using assms
proof (induction "is" "(c, e)" arbitrary: c e rule: retire_all.induct)
  case (2 i "is" c e)
  have i: "i < length (objects c)" "\<not> relation_shape (shape_of c i)" using 2(4) by auto
  have free: "i \<notin> ran (relations (forget i c))"
    using 2(3) i by (auto simp: ran_def wf_pending_def map_wf_def)
  note f = wf_forget [OF 2(3), of i]
  show ?case
  proof (cases "obj_alive (objects c ! i)")
    case False
    have "wf_pending (set is) (forget i c)"
      using f(1) False by (auto simp: wf_pending_def)
    then show ?thesis using 2(1) [OF refl] False 2(4,5) i by auto
  next
    case True
    let ?c = "kill i (forget i c)"
    have "wf_pending (set (attached_to ?c i @ is)) ?c"
      using f free by (intro wf_kill [OF f(1)]) (auto simp: ran_def)
    moreover have "\<forall>j \<in> set (attached_to ?c i @ is). j < length (objects ?c) \<and> \<not> relation_shape (shape_of ?c j)"
      using 2(4) owner_shape by (auto simp: set_attached_to live_def)
    ultimately show ?thesis using 2(2) [OF refl] True 2(5) i by (auto simp: not_le Let_def)
  qed
qed simp

lemma retire_wf:
  assumes wf: "catalog_wf c" and i: "live c i"
    and free: "i \<notin> ran (relations c)" "i \<notin> ran (triggers c)" "i \<notin> ran (indexes c)"
    and r: "retire i (c, e) = (c', e')"
  shows "catalog_wf c' \<and> length (objects c') = length (objects c) \<and> relations c' = relations c
    \<and> (\<forall>j. shape_of c' j = shape_of c j)
    \<and> (effects_in (length (objects c)) e \<longrightarrow> effects_in (length (objects c)) e')"
proof -
  let ?c = "kill i c"
  have "wf_pending (set (attached_to ?c i)) ?c" by (rule wf_kill [OF wf free]) simp
  moreover have "\<forall>j \<in> set (attached_to ?c i). j < length (objects ?c) \<and> \<not> relation_shape (shape_of ?c j)"
    using owner_shape by (auto simp: set_attached_to live_def)
  moreover have "retire_all (attached_to ?c i) (?c, touch i e) = (c', e')"
    using r i by (simp add: retire_def live_def Let_def)
  ultimately show ?thesis
    using retire_all_wf [of "attached_to ?c i" ?c "touch i e" c' e'] i by (simp add: live_def)
qed

section \<open>Every statement keeps the invariant\<close>

lemma create_object_facts:
  assumes "create_object sh c = (i, c1)"
  shows "i = length (objects c)" "length (objects c1) = Suc (length (objects c))"
    "relations c1 = relations c" "triggers c1 = triggers c" "indexes c1 = indexes c"
    "live c1 j \<longleftrightarrow> live c j \<or> j = i" "shape_of c1 i = sh" "obj_alive (objects c1 ! i)"
    "j < length (objects c) \<Longrightarrow> objects c1 ! j = objects c ! j"
  using assms by (auto simp: create_object_def live_def nth_append less_Suc_eq)

lemma map_wf_create:
  assumes "create_object sh c = (i, c1)" and "map_wf P c m"
  shows "map_wf P c1 m" and "P sh \<Longrightarrow> map_wf P c1 (m(k \<mapsto> i))"
proof -
  note f = create_object_facts [OF assms(1)]
  have a: "live c1 j \<and> P (shape_of c1 j) \<and> (\<forall>k''. m k'' = Some j \<longrightarrow> k'' = k') \<and> j \<noteq> i"
    if "m k' = Some j" for k' j
    using assms(2) that f by (auto simp: map_wf_def live_def)
  then show "map_wf P c1 m" unfolding map_wf_def by blast
  show "map_wf P c1 (m(k \<mapsto> i))" if "P sh"
  proof -
    have "live c1 i \<and> P (shape_of c1 i)" using f that by simp
    with a show ?thesis unfolding map_wf_def by auto
  qed
qed

lemma wf_create:
  assumes cr: "create_object sh c = (i, c1)" and wf: "catalog_wf c"
    and own: "\<And>own. owner_of sh = Some own \<Longrightarrow> live c own \<and> relation_shape (shape_of c own)"
  shows "catalog_wf c1"
    and "relation_shape sh \<Longrightarrow> catalog_wf (c1\<lparr>relations := (relations c1)(k \<mapsto> i)\<rparr>)"
    and "trigger_shape sh \<Longrightarrow> catalog_wf (c1\<lparr>triggers := (triggers c1)(k \<mapsto> i)\<rparr>)"
    and "index_shape sh \<Longrightarrow> catalog_wf (c1\<lparr>indexes := (indexes c1)(k \<mapsto> i)\<rparr>)"
proof -
  note f = create_object_facts [OF cr]
  have upd: "map_wf P (c1\<lparr>relations := m'\<rparr>) m = map_wf P c1 m" "map_wf P (c1\<lparr>triggers := m'\<rparr>) m = map_wf P c1 m"
    "map_wf P (c1\<lparr>indexes := m'\<rparr>) m = map_wf P c1 m" for P m m'
    by (simp_all add: map_wf_def)
  have maps: "map_wf relation_shape c (relations c)" "map_wf trigger_shape c (triggers c)" "map_wf index_shape c (indexes c)"
    using wf by (simp_all add: wf_pending_def)
  have o: "\<forall>j own. j < length (objects c1) \<longrightarrow> owner_of (shape_of c1 j) = Some own \<longrightarrow>
      own < length (objects c1) \<and> relation_shape (shape_of c1 own)
      \<and> (obj_alive (objects c1 ! j) \<longrightarrow> j \<notin> {} \<longrightarrow> live c1 own)"
  proof (intro allI impI)
    fix j own'
    assume j: "j < length (objects c1)" and ow: "owner_of (shape_of c1 j) = Some own'"
    show "own' < length (objects c1) \<and> relation_shape (shape_of c1 own')
      \<and> (obj_alive (objects c1 ! j) \<longrightarrow> j \<notin> {} \<longrightarrow> live c1 own')"
    proof (cases "j = i")
      case True
      with ow f own [of own'] have "live c own'" "relation_shape (shape_of c own')" by simp_all
      with f show ?thesis by (auto simp: live_def)
    next
      case False
      with j f have "j < length (objects c)" by simp
      with f(9) have n: "objects c1 ! j = objects c ! j" by simp
      have "own' < length (objects c) \<and> relation_shape (shape_of c own') \<and> (obj_alive (objects c ! j) \<longrightarrow> live c own')"
        using wf \<open>j < length (objects c)\<close> ow by (simp add: wf_pending_def n)
      with f(2) f(6) [of own'] f(9) [of own'] n show ?thesis by auto
    qed
  qed
  note m = map_wf_create [OF cr]
  show "catalog_wf c1"
    using o maps unfolding wf_pending_def f(3-5) by (blast intro: m)
  show "catalog_wf (c1\<lparr>relations := (relations c1)(k \<mapsto> i)\<rparr>)" if "relation_shape sh"
    using o m maps that by (simp add: wf_pending_def upd f(3-5))
  show "catalog_wf (c1\<lparr>triggers := (triggers c1)(k \<mapsto> i)\<rparr>)" if "trigger_shape sh"
    using o m maps that by (simp add: wf_pending_def upd f(3-5))
  show "catalog_wf (c1\<lparr>indexes := (indexes c1)(k \<mapsto> i)\<rparr>)" if "index_shape sh"
    using o m maps that by (simp add: wf_pending_def upd f(3-5))
qed

lemma map_wf_upd [simp]:
  "map_wf P (c\<lparr>relations := m'\<rparr>) m = map_wf P c m"
  "map_wf P (c\<lparr>triggers := m'\<rparr>) m = map_wf P c m"
  "map_wf P (c\<lparr>indexes := m'\<rparr>) m = map_wf P c m"
  by (simp_all add: map_wf_def)

text \<open>Removing a name before its object is retired.\<close>

lemma wf_remove:
  assumes "catalog_wf c"
  shows "catalog_wf (c\<lparr>relations := (relations c)(k := None)\<rparr>)"
    "catalog_wf (c\<lparr>triggers := (triggers c)(k := None)\<rparr>)"
    "catalog_wf (c\<lparr>indexes := (indexes c)(k := None)\<rparr>)"
  using assms by (auto simp: wf_pending_def map_wf_def)

lemma wf_ranges:
  assumes "catalog_wf c"
  shows "relations c k = Some i \<Longrightarrow> live c i \<and> relation_shape (shape_of c i)
      \<and> i \<notin> ran (triggers c) \<and> i \<notin> ran (indexes c) \<and> i \<notin> ran ((relations c)(k := None))"
    and "triggers c k = Some i \<Longrightarrow> live c i
      \<and> i \<notin> ran (relations c) \<and> i \<notin> ran (indexes c) \<and> i \<notin> ran ((triggers c)(k := None))"
    and "indexes c k = Some i \<Longrightarrow> live c i
      \<and> i \<notin> ran (relations c) \<and> i \<notin> ran (triggers c) \<and> i \<notin> ran ((indexes c)(k := None))"
proof -
  have d: "\<not> (relation_shape sh \<and> trigger_shape sh)" "\<not> (relation_shape sh \<and> index_shape sh)"
    "\<not> (trigger_shape sh \<and> index_shape sh)" for sh
    by (cases sh; simp)+
  have m: "map_wf relation_shape c (relations c)" "map_wf trigger_shape c (triggers c)" "map_wf index_shape c (indexes c)"
    using assms by (simp_all add: wf_pending_def)
  show "relations c k = Some i \<Longrightarrow> live c i \<and> relation_shape (shape_of c i)
      \<and> i \<notin> ran (triggers c) \<and> i \<notin> ran (indexes c) \<and> i \<notin> ran ((relations c)(k := None))"
    using m d [of "shape_of c i"] by (auto simp: map_wf_def ran_def)
  show "triggers c k = Some i \<Longrightarrow> live c i
      \<and> i \<notin> ran (relations c) \<and> i \<notin> ran (indexes c) \<and> i \<notin> ran ((triggers c)(k := None))"
    using m d [of "shape_of c i"] by (auto simp: map_wf_def ran_def)
  show "indexes c k = Some i \<Longrightarrow> live c i
      \<and> i \<notin> ran (relations c) \<and> i \<notin> ran (triggers c) \<and> i \<notin> ran ((indexes c)(k := None))"
    using m d [of "shape_of c i"] by (auto simp: map_wf_def ran_def)
qed

text \<open>What every operation promises: the invariant, growing object ids, and effects in range.\<close>

definition keeps :: "catalog \<times> effects \<Rightarrow> catalog \<times> effects \<Rightarrow> bool" where
  "keeps ce ce' \<longleftrightarrow> (catalog_wf (fst ce) \<and> effects_in (length (objects (fst ce))) (snd ce) \<longrightarrow>
     catalog_wf (fst ce') \<and> effects_in (length (objects (fst ce'))) (snd ce')
     \<and> length (objects (fst ce)) \<le> length (objects (fst ce')))"

lemma keeps_refl [simp]: "keeps ce ce"
  by (simp add: keeps_def)

lemma keeps_trans: "keeps a b \<Longrightarrow> keeps b c \<Longrightarrow> keeps a c"
  by (auto simp: keeps_def)

lemma keeps_fold: "(\<And>x ce. x \<in> set xs \<Longrightarrow> keeps ce (f x ce)) \<Longrightarrow> keeps ce (fold f xs ce)"
proof (induction xs arbitrary: ce)
  case (Cons x xs)
  then have "keeps ce (f x ce)" "keeps (f x ce) (fold f xs (f x ce))" by auto
  then show ?case by (simp add: keeps_trans)
qed simp

lemma keeps_effects:
  "(catalog_wf c \<Longrightarrow> effects_in (length (objects c)) e \<Longrightarrow> effects_in (length (objects c)) e') \<Longrightarrow> keeps (c, e) (c, e')"
  by (simp add: keeps_def)

lemma keeps_retire_removed:
  assumes "catalog_wf c \<Longrightarrow> catalog_wf c' \<and> live c' i \<and> i \<notin> ran (relations c')
      \<and> i \<notin> ran (triggers c') \<and> i \<notin> ran (indexes c')" and "objects c' = objects c"
  shows "keeps (c, e) (retire i (c', e))"
proof -
  obtain c2 e2 where r: "retire i (c', e) = (c2, e2)" by (cases "retire i (c', e)")
  with assms retire_wf [of c' i e c2 e2] show ?thesis by (simp add: keeps_def)
qed

lemma keeps_retire:
  "relations c k = Some i \<Longrightarrow> keeps (c, e) (retire i (c\<lparr>relations := (relations c)(k := None)\<rparr>, e))"
  "triggers c k = Some i \<Longrightarrow> keeps (c, e) (retire i (c\<lparr>triggers := (triggers c)(k := None)\<rparr>, e))"
  "indexes c k = Some i \<Longrightarrow> keeps (c, e) (retire i (c\<lparr>indexes := (indexes c)(k := None)\<rparr>, e))"
  using wf_ranges [of c k i] wf_remove [of c k] by (intro keeps_retire_removed; simp)+

lemma relation_range:
  "catalog_wf c \<Longrightarrow> relation c n = Some i \<Longrightarrow> live c i \<and> relation_shape (shape_of c i)"
  using wf_ranges(1) [of c] by (auto simp: relation_def split: option.splits prod.splits if_splits)

lemma reads_names_in:
  "effects_in (length (objects c)) e \<Longrightarrow> effects_in (length (objects c)) (reads_names c ns e)"
  by (induction c ns e rule: reads_names.induct) (simp_all split: option.split)

lemma record_target_write_in:
  "catalog_wf c \<Longrightarrow> effects_in (length (objects c)) e \<Longrightarrow> effects_in (length (objects c)) (record_target_write c n e)"
  using relation_range [of c n]
  by (auto simp: record_target_write_def live_def split: option.split shape.split)

lemma write_loop_in:
  assumes "catalog_wf c"
  shows "effects_in (length (objects c)) e \<Longrightarrow> effects_in (length (objects c)) (write_loop rn c ts e fired)"
  using assms
  by (induction rn c ts e fired rule: write_loop.induct)
    (auto simp: Let_def reads_names_in record_target_write_in split: option.split row_write_target.split)

lemma keeps_create_relation:
  assumes "relation_shape sh"
  shows "keeps (c, e) (create_relation n ine sh (c, e))"
proof -
  have own: "owner_of sh = Some own \<Longrightarrow> live c own \<and> relation_shape (shape_of c own)" for own
    using assms owner_shape by blast
  obtain i c1 where cr: "create_object sh c = (i, c1)" by (cases "create_object sh c")
  note f = create_object_facts [OF cr] and w = wf_create(2) [OF cr _ own assms]
  have "keeps (c, e) (c1\<lparr>relations := (relations c1)(k \<mapsto> i)\<rparr>, touch i e)" for k
    using w f by (auto simp: keeps_def intro: effects_in_mono)
  then show ?thesis by (auto simp: create_relation_def cr split: option.split)
qed

lemma keeps_drop_one: "keeps ce (drop_one ty n ce)"
  by (cases ce) (auto simp: drop_one_def keeps_retire split: option.split)

fun is_rename :: "alter_table_operation \<Rightarrow> bool" where
  "is_rename (RenameTableTo _) = True"
| "is_rename _ = False"

text \<open>One \<open>ALTER TABLE\<close> renames at most once, as the grammar of both engines has it.\<close>

fun single_rename :: "statement \<Rightarrow> bool" where
  "single_rename (AlterTable n ops) \<longleftrightarrow> length (filter is_rename ops) \<le> 1"
| "single_rename _ \<longleftrightarrow> True"

lemma fold_rename_one:
  assumes "length (filter is_rename ops) \<le> 1"
  shows "fold (rename_operation n i) ops c = c
    \<or> (\<exists>to. fold (rename_operation n i) ops c = rename_operation n i (RenameTableTo to) c)"
proof -
  have none: "fold (rename_operation n i) ops c = c" if "filter is_rename ops = []" for ops c
    using that
  proof (induction ops arbitrary: c)
    case (Cons x ops)
    then show ?case by (cases x) auto
  qed simp
  show ?thesis
    using assms
  proof (induction ops)
    case (Cons x ops)
    show ?case
    proof (cases "is_rename x")
      case True
      then obtain to where x: "x = RenameTableTo to" by (cases x) auto
      from True Cons.prems have "filter is_rename ops = []" by simp
      with none x show ?thesis by auto
    next
      case False
      then have "rename_operation n i x c = c" by (cases x) auto
      with False Cons show ?thesis by simp
    qed
  qed simp
qed

lemma wf_rename:
  assumes wf: "catalog_wf c" and r: "relation c n = Some i"
  shows "catalog_wf (rename_operation n i (RenameTableTo to) c)"
proof -
  from r obtain schema k where k: "split_name n = Some (schema, k)" "relations c k = Some i"
    by (auto simp: relation_def split: option.splits prod.splits if_splits)
  have m: "map_wf relation_shape c (((relations c)(k := None))(k' \<mapsto> i))" for k'
  proof -
    have "map_wf relation_shape c (relations c)" using wf by (simp add: wf_pending_def)
    with k(2) show ?thesis unfolding map_wf_def by (auto split: if_splits)
  qed
  have "catalog_wf (c\<lparr>relations := ((relations c)(k := None))(k' \<mapsto> i)\<rparr>)" for k'
    using wf m [of k'] by (simp add: wf_pending_def)
  with wf k show ?thesis by (simp split: option.split prod.split)
qed

lemma keeps_alter_table:
  assumes "length (filter is_rename ops) \<le> 1"
  shows "keeps (c, e) (alter_table n ops (c, e))"
proof (cases "relation c n")
  case (Some i)
  have "objects (rename_operation n i (RenameTableTo to) c) = objects c" for to
    by (simp split: option.split prod.split)
  with fold_rename_one [OF assms, of n i c] wf_rename [OF _ Some] relation_range [OF _ Some]
  show ?thesis by (auto simp: alter_table_def Some keeps_def live_def simp del: rename_operation.simps)
qed (simp add: alter_table_def)

lemma wf_owner:
  "wf_pending P c \<Longrightarrow> i < length (objects c) \<Longrightarrow> owner_of (shape_of c i) = Some own \<Longrightarrow>
     own < length (objects c) \<and> relation_shape (shape_of c own)"
  unfolding wf_pending_def by blast

text \<open>A trigger or an index has nothing attached, so retiring it ends with itself.\<close>

lemma retire_leaf:
  assumes "catalog_wf c" and "live c i" and "\<not> relation_shape (shape_of c i)"
  shows "retire i (c, e) = (kill i c, touch i e)"
proof -
  have "set (attached_to (kill i c) i) = {}"
    using assms wf_owner [OF assms(1)] by (auto simp: set_attached_to live_def)
  then have "attached_to (kill i c) i = []" by simp
  with assms show ?thesis by (simp add: retire_def live_def Let_def)
qed

lemma keepsI: "(catalog_wf c \<Longrightarrow> keeps (c, e) ce) \<Longrightarrow> keeps (c, e) ce"
  by (auto simp: keeps_def)

lemma keeps_replace_trigger: "keeps ce (replace_trigger b key ce)"
  by (cases ce) (auto simp: replace_trigger_def keeps_retire split: option.split)

lemma keeps_replace_relation: "keeps ce (replace_relation b n ce)"
  by (cases ce) (auto simp: replace_relation_def keeps_retire split: option.split)

lemma replace_trigger_relations:
  assumes wf: "catalog_wf c" and r: "replace_trigger b key (c, e) = (c', e')"
    and i: "live c i" "relation_shape (shape_of c i)"
  shows "live c' i \<and> relation_shape (shape_of c' i)"
proof (cases "triggers c key = None \<or> \<not> b")
  case True
  with r i show ?thesis by (auto simp: replace_trigger_def split: option.splits)
next
  case False
  then obtain p where p: "triggers c key = Some p" and b by auto
  let ?c = "c\<lparr>triggers := (triggers c)(key := None)\<rparr>"
  have tp: "live c p" "trigger_shape (shape_of c p)"
    using wf p unfolding wf_pending_def map_wf_def by blast+
  then have nr: "\<not> relation_shape (shape_of c p)" by (cases "shape_of c p") auto
  have "retire p (?c, e) = (kill p ?c, touch p e)"
    using wf_remove(2) [OF wf] tp(1) nr by (intro retire_leaf) simp_all
  with r p \<open>b\<close> have "c' = kill p ?c" by (simp add: replace_trigger_def)
  with i nr show ?thesis by auto
qed

lemma keeps_install_trigger:
  assumes "catalog_wf c \<Longrightarrow> \<forall>o'. own = OwnerConnection o' \<longrightarrow> live c o' \<and> relation_shape (shape_of c o')"
  shows "keeps (c, e) (install_trigger (ShapeTrigger own ev body) key (c, e))"
proof -
  obtain i c1 where cr: "create_object (ShapeTrigger own ev body) c = (i, c1)"
    by (cases "create_object (ShapeTrigger own ev body) c")
  note f = create_object_facts [OF cr]
  have "catalog_wf c \<Longrightarrow> catalog_wf (c1\<lparr>triggers := (triggers c1)(key \<mapsto> i)\<rparr>)"
    using assms by (intro wf_create(3) [OF cr]) (cases own; auto)+
  with f show ?thesis by (auto simp: keeps_def install_trigger_def cr intro: effects_in_mono)
qed

lemma keeps_create_trigger: "keeps (c, e) (create_trigger_object tg (c, e))"
proof (rule keepsI)
  assume wf: "catalog_wf c"
  have step: "keeps (c, e) (install_trigger (ShapeTrigger own ev body) key (replace_trigger b key (c, e1)))"
    if o: "trigger_owner c n e = Some (own, e1)" for own e1 ev body key b n
  proof -
    have own: "live c o' \<and> relation_shape (shape_of c o')" if "own = OwnerConnection o'" for o'
      using o that relation_range [OF wf, of n] by (auto simp: trigger_owner_def split: option.splits prod.splits)
    have "keeps (c, e) (c, e1)"
      using o relation_range [OF wf, of n]
      by (auto simp: keeps_def trigger_owner_def live_def split: option.splits prod.splits)
    moreover have "keeps (c, e1) (replace_trigger b key (c, e1))" by (rule keeps_replace_trigger)
    moreover obtain c2 e2 where r: "replace_trigger b key (c, e1) = (c2, e2)"
      by (cases "replace_trigger b key (c, e1)")
    moreover have "keeps (c2, e2) (install_trigger (ShapeTrigger own ev body) key (c2, e2))"
      using replace_trigger_relations [OF wf r] own by (intro keeps_install_trigger) blast
    ultimately show ?thesis by (metis keeps_trans)
  qed
  then show "keeps (c, e) (create_trigger_object tg (c, e))"
    by (simp add: create_trigger_object_def split: option.split prod.split)
qed

lemma keeps_create_index: "keeps (c, e) (create_index_object ix (c, e))"
proof (rule keepsI)
  assume wf: "catalog_wf c"
  have "keeps (c, e) (c1\<lparr>indexes := (indexes c1)(key \<mapsto> i)\<rparr>, touch i (read_object own e))"
    if r: "relation c n = Some own" and cr: "create_object (ShapeIndex own) c = (i, c1)" for n own i c1 key
  proof -
    note own = relation_range [OF wf r] and f = create_object_facts [OF cr]
    have "catalog_wf (c1\<lparr>indexes := (indexes c1)(key \<mapsto> i)\<rparr>)"
      using own by (intro wf_create(4) [OF cr wf]) auto
    with f own show ?thesis by (auto simp: keeps_def live_def intro: effects_in_mono)
  qed
  then show "keeps (c, e) (create_index_object ix (c, e))"
    by (simp add: create_index_object_def split: option.split prod.split)
qed

lemma keeps_row_statement: "keeps (c, e) (row_statement rn s (c, e))"
proof (cases "row_write s")
  case (Some w)
  then show ?thesis
    by (cases w) (auto simp: row_statement_def write_rows_def simp del: write_loop.simps intro!: keeps_effects write_loop_in reads_names_in)
qed (simp add: row_statement_def)

lemma keeps_apply_statement:
  assumes "single_rename s"
  shows "keeps ce (apply_statement rn s ce)"
proof -
  obtain c e where ce: "ce = (c, e)" by (cases ce)
  show ?thesis
  proof (cases s)
    case (CreateTable ct)
    have "keeps (c, e) (c, case ct_query ct of None \<Rightarrow> e | Some q \<Rightarrow> reads_names c (rn (NodeQuery q)) e)"
      by (intro keeps_effects) (auto simp: reads_names_in split: option.split)
    then show ?thesis
      using keeps_trans [OF _ keeps_create_relation] by (simp add: ce CreateTable)
  next
    case (CreateView v)
    obtain c1 e1 where r: "replace_relation (cv_or_replace v) (cv_name v) (c, e) = (c1, e1)"
      by (cases "replace_relation (cv_or_replace v) (cv_name v) (c, e)")
    have "keeps (c, e) (c1, e1)" using keeps_replace_relation [of "(c, e)"] r by metis
    then have "keeps (c, e) (create_view_object rn v (c, e))"
      using keeps_trans [OF _ keeps_create_relation] by (simp add: create_view_object_def r)
    then show ?thesis by (simp add: ce CreateView)
  next
    case (DropTrigger n t)
    then show ?thesis by (auto simp: ce keeps_retire split: option.split)
  qed (use assms in \<open>simp_all add: ce keeps_create_relation keeps_create_trigger keeps_create_index
      keeps_row_statement keeps_alter_table drop_objects_def keeps_fold keeps_drop_one\<close>)
qed

lemma keeps_apply_unit:
  assumes "list_all single_rename unit"
  shows "keeps (c, effects_default) (apply_unit rn unit c)"
  unfolding apply_unit_def using assms
  by (intro keeps_fold) (simp add: list_all_iff keeps_apply_statement)

section \<open>What the traversals compute\<close>

lemma retire_all_leaves:
  assumes "wf_pending (set is) c" and "\<forall>i \<in> set is. i < length (objects c) \<and> \<not> relation_shape (shape_of c i)"
    and "retire_all is (c, e) = (c', e')"
  shows "(\<forall>j. live c' j \<longleftrightarrow> live c j \<and> j \<notin> set is)
    \<and> set (touches e') = set (touches e) \<union> {j \<in> set is. live c j} \<and> reads e' = reads e
    \<and> persistent_write e' = persistent_write e"
  using assms
proof (induction "is" "(c, e)" arbitrary: c e rule: retire_all.induct)
  case (2 i "is" c e)
  have i: "i < length (objects c)" "\<not> relation_shape (shape_of c i)" using 2(4) by auto
  note f = wf_forget [OF 2(3), of i]
  show ?case
  proof (cases "obj_alive (objects c ! i)")
    case False
    have "wf_pending (set is) (forget i c)"
      using f(1) False by (auto simp: wf_pending_def)
    then show ?thesis using 2(1) [OF refl] False 2(4,5) i by (auto simp: live_def)
  next
    case True
    let ?c = "kill i (forget i c)"
    have "set (attached_to ?c i) = {}"
      using i wf_owner [OF 2(3)] by (auto simp: set_attached_to live_def)
    then have none: "attached_to ?c i = []" by simp
    have "i \<notin> ran (relations (forget i c))"
      using 2(3) i by (auto simp: ran_def wf_pending_def map_wf_def)
    then have "wf_pending (set is) ?c"
      using f none by (intro wf_kill [OF f(1)]) (auto simp: ran_def)
    then have IH: "(\<forall>j. live c' j \<longleftrightarrow> live ?c j \<and> j \<notin> set is)
        \<and> set (touches e') = set (touches (touch i e)) \<union> {j \<in> set is. live ?c j}
        \<and> reads e' = reads (touch i e) \<and> persistent_write e' = persistent_write (touch i e)"
      using 2(2) [OF refl] True 2(4,5) i none by (simp add: not_le Let_def)
    have "live c i" using True i by (simp add: live_def)
    with IH show ?thesis by (auto simp: touch_def)
  qed
qed simp

lemma retire_spec:
  assumes wf: "catalog_wf c" and i: "live c i"
    and free: "i \<notin> ran (relations c)" "i \<notin> ran (triggers c)" "i \<notin> ran (indexes c)"
    and r: "retire i (c, e) = (c', e')"
  shows "live c' j \<longleftrightarrow> live c j \<and> j \<noteq> i \<and> owner_of (shape_of c j) \<noteq> Some i"
    and "set (touches e') = set (touches e) \<union> {i} \<union> {j. live c j \<and> owner_of (shape_of c j) = Some i}"
proof -
  let ?c = "kill i c"
  have w: "wf_pending (set (attached_to ?c i)) ?c" by (rule wf_kill [OF wf free]) simp
  have n: "\<forall>j \<in> set (attached_to ?c i). j < length (objects ?c) \<and> \<not> relation_shape (shape_of ?c j)"
    using owner_shape by (auto simp: set_attached_to live_def)
  have "retire_all (attached_to ?c i) (?c, touch i e) = (c', e')"
    using r i by (simp add: retire_def live_def Let_def)
  note l = retire_all_leaves [OF w n this]
  have self: "owner_of (shape_of c i) \<noteq> Some i"
    using i wf_owner [OF wf, of i i] owner_shape by (auto simp: live_def)
  show "live c' j \<longleftrightarrow> live c j \<and> j \<noteq> i \<and> owner_of (shape_of c j) \<noteq> Some i"
    using l by (auto simp: set_attached_to)
  show "set (touches e') = set (touches e) \<union> {i} \<union> {j. live c j \<and> owner_of (shape_of c j) = Some i}"
    using l i self by (auto simp: set_attached_to touch_def)
qed

text \<open>The objects a statement needs to read: the named ones and, through views, their bases.\<close>

inductive reached :: "catalog \<Rightarrow> string list \<Rightarrow> object_id \<Rightarrow> bool" for c ns where
  reached_name: "n \<in> set ns \<Longrightarrow> relations c n = Some i \<Longrightarrow> i < length (objects c) \<Longrightarrow> reached c ns i"
| reached_view: "reached c ns i \<Longrightarrow> shape_of c i = ShapeView bases \<Longrightarrow> b \<in> set bases \<Longrightarrow>
    relations c b = Some j \<Longrightarrow> j < length (objects c) \<Longrightarrow> reached c ns j"

definition view_bases :: "shape \<Rightarrow> string list" where
  "view_bases sh = (case sh of ShapeView bases \<Rightarrow> bases | _ \<Rightarrow> [])"

definition read_closed :: "catalog \<Rightarrow> object_id set \<Rightarrow> string list \<Rightarrow> bool" where
  "read_closed c R ns \<longleftrightarrow> (\<forall>i\<in>R. \<forall>b\<in>set (view_bases (shape_of c i)). \<forall>j.
     relations c b = Some j \<longrightarrow> j < length (objects c) \<longrightarrow> j \<in> R \<or> b \<in> set ns)"

lemma reads_names_step:
  assumes "relations c n = Some i" "i \<notin> set (reads e)" "i < length (objects c)"
  shows "reads_names c (n # ns) e = reads_names c (view_bases (shape_of c i) @ ns) (read_object i e)"
  using assms by (simp add: view_bases_def)

lemma reached_mono_step:
  assumes "relations c n = Some i" "i < length (objects c)"
    and "reached c (view_bases (shape_of c i) @ ns) j"
  shows "reached c (n # ns) j"
  using assms(3)
proof (induction rule: reached.induct)
  case (reached_name m j)
  show ?case
  proof (cases "m \<in> set ns")
    case True
    with reached_name show ?thesis by (auto intro: reached.reached_name)
  next
    case False
    with reached_name obtain bases where "shape_of c i = ShapeView bases" "m \<in> set bases"
      by (cases "shape_of c i") (auto simp: view_bases_def)
    moreover have "reached c (n # ns) i" using assms by (auto intro: reached.reached_name)
    ultimately show ?thesis using reached_name by (auto intro: reached.reached_view)
  qed
qed (auto intro: reached.reached_view)

lemma reads_names_sound:
  "j \<in> set (reads (reads_names c ns e)) \<Longrightarrow> j \<in> set (reads e) \<or> reached c ns j"
proof (induction c ns e rule: reads_names.induct)
  case (2 c n ns e)
  have weak: "reached c (n # ns) k" if "reached c ns k" for k
    using that by (induction rule: reached.induct) (auto intro: reached.intros)
  show ?case
  proof (cases "\<exists>i. relations c n = Some i \<and> i \<notin> set (reads e) \<and> i < length (objects c)")
    case False
    with 2 weak show ?thesis by (auto split: option.splits if_splits)
  next
    case True
    then obtain i where i: "relations c n = Some i" "i \<notin> set (reads e)" "i < length (objects c)" by blast
    have "j \<in> set (reads (read_object i e)) \<or> reached c (view_bases (shape_of c i) @ ns) j"
      using 2 i by (simp add: view_bases_def)
    moreover have "reached c (n # ns) i" using i by (auto intro: reached.reached_name)
    ultimately show ?thesis
      using reached_mono_step [OF i(1,3)] by (auto simp: read_object_def split: if_splits)
  qed
qed simp

lemma reads_names_complete:
  assumes "read_closed c (set (reads e)) ns"
  shows "set (reads e) \<subseteq> set (reads (reads_names c ns e))
    \<and> read_closed c (set (reads (reads_names c ns e))) []
    \<and> (\<forall>n\<in>set ns. \<forall>i. relations c n = Some i \<longrightarrow> i < length (objects c) \<longrightarrow> i \<in> set (reads (reads_names c ns e)))"
  using assms
proof (induction c ns e rule: reads_names.induct)
  case (2 c n ns e)
  show ?case
  proof (cases "\<exists>i. relations c n = Some i \<and> i \<notin> set (reads e) \<and> i < length (objects c)")
    case False
    then have "read_closed c (set (reads e)) ns" and r: "reads_names c (n # ns) e = reads_names c ns e"
      using 2(4) by (auto simp: read_closed_def split: option.split)
    then have "set (reads e) \<subseteq> set (reads (reads_names c ns e))
        \<and> read_closed c (set (reads (reads_names c ns e))) []
        \<and> (\<forall>n\<in>set ns. \<forall>i. relations c n = Some i \<longrightarrow> i < length (objects c) \<longrightarrow> i \<in> set (reads (reads_names c ns e)))"
      using 2(1,2) False by (cases "relations c n") auto
    with False r show ?thesis by auto
  next
    case True
    then obtain i where i: "relations c n = Some i" "i \<notin> set (reads e)" "i < length (objects c)" by blast
    let ?ns = "view_bases (shape_of c i) @ ns"
    have "read_closed c (set (reads (read_object i e))) ?ns"
      using 2(4) i by (auto simp: read_closed_def read_object_def) (metis option.inject)
    then have "set (reads (read_object i e)) \<subseteq> set (reads (reads_names c ?ns (read_object i e)))
        \<and> read_closed c (set (reads (reads_names c ?ns (read_object i e)))) []
        \<and> (\<forall>n\<in>set ?ns. \<forall>j. relations c n = Some j \<longrightarrow> j < length (objects c)
             \<longrightarrow> j \<in> set (reads (reads_names c ?ns (read_object i e))))"
      using 2(3) i by (simp add: view_bases_def)
    moreover have "i \<in> set (reads (read_object i e))" "set (reads e) \<subseteq> set (reads (read_object i e))"
      by (auto simp: read_object_def)
    ultimately show ?thesis using i unfolding reads_names_step [OF i] by auto
  qed
qed simp

lemma reads_names_reached:
  assumes "read_closed c (set (reads e)) []"
  shows "set (reads (reads_names c ns e)) = set (reads e) \<union> {i. reached c ns i}"
proof -
  have cl: "read_closed c (set (reads e)) ns" using assms by (auto simp: read_closed_def)
  note comp = reads_names_complete [OF cl]
  have "j \<in> set (reads (reads_names c ns e))" if "reached c ns j" for j
    using that
  proof (induction rule: reached.induct)
    case (reached_view i bases b j)
    then show ?case using comp by (auto simp: read_closed_def view_bases_def)
  qed (use comp in auto)
  with comp reads_names_sound show ?thesis by blast
qed

section \<open>Properties\<close>

text \<open>A catalog with a table, a view over it and a trigger on the table, for the witnesses.\<close>

definition sample_catalog :: catalog where
  "sample_catalog = \<lparr>objects = [\<lparr>obj_shape = ShapeTable, obj_alive = True\<rparr>,
       \<lparr>obj_shape = ShapeView [''t'', ''v''], obj_alive = True\<rparr>,
       \<lparr>obj_shape = ShapeTrigger (OwnerConnection 0) EV_INSERT [], obj_alive = True\<rparr>],
     relations = [''t'' \<mapsto> 0, ''v'' \<mapsto> 1], triggers = [''g'' \<mapsto> 2], indexes = Map.empty\<rparr>"

lemma sample_catalog_wf: "catalog_wf sample_catalog"
proof -
  have "length (objects sample_catalog) = 3" by (simp add: sample_catalog_def)
  moreover have "\<forall>i own. i < 3 \<longrightarrow> owner_of (shape_of sample_catalog i) = Some own \<longrightarrow> i = 2 \<and> own = 0"
    by (auto simp: sample_catalog_def numeral_3_eq_3 less_Suc_eq)
  moreover have "relation_shape (shape_of sample_catalog 0)" "live sample_catalog 0"
    by (simp_all add: sample_catalog_def live_def)
  moreover have "map_wf relation_shape sample_catalog (relations sample_catalog)"
      "map_wf trigger_shape sample_catalog (triggers sample_catalog)"
      "map_wf index_shape sample_catalog (indexes sample_catalog)"
    by (simp_all add: map_wf_def live_def sample_catalog_def)
  ultimately show ?thesis
    unfolding wf_pending_def by auto
qed

text \<open>
  Dropping a connection-local table retires exactly that table and the live triggers and indexes
  on it: nothing else dies, the name is free afterwards, every retired object counts as touched, and
  the invariant holds again.
\<close>

lemma drop_retires_table_and_dependents:
  assumes "catalog_wf c" and "split_name n = Some (schema, key)" and "\<not> other_schema schema"
    and "relations c key = Some i" and "drop_objects ObjTable [n] (c, e) = (c', e')"
  shows "catalog_wf c' \<and> relations c' key = None
    \<and> (\<forall>j. live c' j \<longleftrightarrow> live c j \<and> j \<noteq> i \<and> owner_of (shape_of c j) \<noteq> Some i)
    \<and> set (touches e') = set (touches e) \<union> {i} \<union> {j. live c j \<and> owner_of (shape_of c j) = Some i}"
proof -
  let ?c = "c\<lparr>relations := (relations c)(key := None)\<rparr>"
  have r: "retire i (?c, e) = (c', e')"
    using assms by (simp add: drop_objects_def drop_one_def)
  note rg = wf_ranges(1) [OF assms(1,4)]
  have w: "catalog_wf ?c" "live ?c i" "i \<notin> ran (relations ?c)" "i \<notin> ran (triggers ?c)" "i \<notin> ran (indexes ?c)"
    using wf_remove(1) [OF assms(1)] rg by simp_all
  from retire_wf [OF w r] have "catalog_wf c'" "relations c' key = None" by simp_all
  with retire_spec [OF w r] show ?thesis by simp
qed

lemma drop_retires_table_and_dependents_witness:
  "let (c', e') = drop_objects ObjTable [[Identifier (bare_ident ''T'')]] (sample_catalog, effects_default) in
   catalog_wf c' \<and> \<not> live c' 0 \<and> live c' 1 \<and> \<not> live c' 2 \<and> set (touches e') = {0, 2}"
proof -
  obtain c' e' where d: "drop_objects ObjTable [[Identifier (bare_ident ''T'')]] (sample_catalog, effects_default) = (c', e')"
    by fastforce
  have s: "split_name [Identifier (bare_ident ''T'')] = Some (None, ''t'')" by code_simp
  have r: "relations sample_catalog ''t'' = Some 0" by (simp add: sample_catalog_def)
  have o: "owner_of (shape_of sample_catalog 1) = None" "owner_of (shape_of sample_catalog 2) = Some 0"
    "live sample_catalog 1" "live sample_catalog 2"
    by (simp_all add: sample_catalog_def live_def)
  have "{j. live sample_catalog j \<and> owner_of (shape_of sample_catalog j) = Some 0} = {2}"
    by (auto simp: sample_catalog_def live_def less_Suc_eq)
  moreover have "touches effects_default = []" by (simp add: effects_default_def)
  ultimately show ?thesis
    using drop_retires_table_and_dependents [OF sample_catalog_wf s _ r d] o
    by (auto simp: d other_schema_def)
qed

text \<open>
  The reads of a statement are the transitive closure through views: after recording the names of
  a node, the read set is what it was plus every object reachable from a name through the bases of
  views, resolved in the catalog as it stands.
\<close>

lemma reads_are_transitive:
  assumes "read_closed c (set (reads e)) []"
  shows "set (reads (reads_names c ns e)) = set (reads e) \<union> {i. reached c ns i}"
  by (rule reads_names_reached [OF assms])

theorem reads_are_transitive_witness:
  "read_closed sample_catalog {} []
   \<and> set (reads (reads_names sample_catalog [''v''] effects_default)) = {i. reached sample_catalog [''v''] i}
   \<and> reached sample_catalog [''v''] 0"
proof -
  let ?c = sample_catalog
  have a: "read_closed ?c (set (reads effects_default)) []" by (simp add: read_closed_def effects_default_def)
  have "reached ?c [''v''] 1" by (rule reached_name [of "''v''"]) (simp_all add: sample_catalog_def)
  then have "reached ?c [''v''] 0"
    by (rule reached_view [where b = "''t''" and bases = "[''t'', ''v'']"]) (simp_all add: sample_catalog_def)
  with reads_are_transitive [OF a, of "[''v'']"] a show ?thesis
    by (simp add: effects_default_def del: reads_names.simps)
qed

end
