(* ===== verification/Trigger_Writes.thy ===== *)
theory Trigger_Writes
  imports Catalog_Facts
begin

text \<open>
  What a row write reaches through triggers: soundness and completeness of the work list of
  \<open>Catalog::write\<close> (\<open>src/src/history/effects.rs\<close>), from one invariant rule for the loop.
\<close>

section \<open>What a row write reaches\<close>

definition fires :: "catalog \<Rightarrow> object_name \<Rightarrow> events \<Rightarrow> statement \<Rightarrow> bool" where
  "fires c n ev s \<longleftrightarrow> (\<exists>own i body. write_owner c n = Some own \<and> i < length (objects c)
     \<and> fired_body (objects c ! i) own ev = Some body \<and> s \<in> set body)"

inductive write_reached :: "catalog \<Rightarrow> object_name \<Rightarrow> events \<Rightarrow> object_name \<Rightarrow> events \<Rightarrow> bool" for c n0 ev0 where
  write_start: "write_reached c n0 ev0 n0 ev0"
| write_fire: "write_reached c n0 ev0 n ev \<Longrightarrow> fires c n ev s \<Longrightarrow>
    row_write s = Some (WriteTable n' ev') \<Longrightarrow> write_reached c n0 ev0 n' ev'"

definition writes_file :: "catalog \<Rightarrow> object_name \<Rightarrow> events \<Rightarrow> bool" where
  "writes_file c n ev \<longleftrightarrow> relation c n = None \<or> (\<exists>s. fires c n ev s \<and> row_write s = Some Untracked)"

lemma effects_simps [simp]:
  "persistent_write (touch i e) = persistent_write e"
  "persistent_write (read_object i e) = persistent_write e"
  "touches (read_object i e) = touches e"
  "set (touches (touch i e)) = insert i (set (touches e))"
  by (auto simp: touch_def read_object_def)

lemma reads_names_frame [simp]:
  "persistent_write (reads_names c ns e) = persistent_write e"
  "touches (reads_names c ns e) = touches e"
  by (induction c ns e rule: reads_names.induct) (simp_all split: option.split)

lemma record_target_write_pw [simp]:
  "persistent_write (record_target_write c n e) \<longleftrightarrow> persistent_write e \<or> relation c n = None"
  by (simp add: record_target_write_def split: option.split shape.split)

fun task_from :: "(object_name \<Rightarrow> events \<Rightarrow> bool) \<Rightarrow> catalog \<Rightarrow> write_task \<Rightarrow> bool" where
  "task_from W c (TaskWrite n ev) = W n ev"
| "task_from W c (TaskScan own ev k) = (\<exists>n. W n ev \<and> write_owner c n = Some own)"
| "task_from W c (TaskBody ss) = (\<exists>n ev. W n ev \<and> (\<forall>s \<in> set ss. fires c n ev s))"

text \<open>The loop as one transition per task, and its invariant rule.\<close>

definition scan_tasks :: "catalog \<Rightarrow> object_name \<Rightarrow> events \<Rightarrow> write_task list" where
  "scan_tasks c n ev = (case write_owner c n of None \<Rightarrow> [] | Some own \<Rightarrow> [TaskScan own ev 0])"

definition body_tasks :: "statement \<Rightarrow> write_task list" where
  "body_tasks s = (case row_write s of Some (WriteTable n ev) \<Rightarrow> [TaskWrite n ev] | _ \<Rightarrow> [])"

definition body_effects :: "(visit_node \<Rightarrow> string list) \<Rightarrow> catalog \<Rightarrow> statement \<Rightarrow> effects \<Rightarrow> effects" where
  "body_effects rn c s e = (let e1 = reads_names c (rn (NodeStatement s)) e in
     if row_write s = Some Untracked then e1\<lparr>persistent_write := True\<rparr> else e1)"

lemma write_loop_tasks:
  "write_loop rn c (TaskWrite n ev # ts) e fired = write_loop rn c (scan_tasks c n ev @ ts) (record_target_write c n e) fired"
  "write_loop rn c (TaskBody (s # ss) # ts) e fired = write_loop rn c (body_tasks s @ TaskBody ss # ts) (body_effects rn c s e) fired"
  by (simp_all add: scan_tasks_def body_tasks_def body_effects_def Let_def
      split: option.split row_write_target.split del: write_loop.simps(3-4))

lemma write_loop_scan:
  "length (objects c) \<le> i \<Longrightarrow> write_loop rn c (TaskScan own ev i # ts) e F = write_loop rn c ts e F"
  "i < length (objects c) \<Longrightarrow> fired_body (objects c ! i) own ev = None \<or> (i, ev) \<in> set F \<Longrightarrow>
     write_loop rn c (TaskScan own ev i # ts) e F = write_loop rn c (TaskScan own ev (Suc i) # ts) e F"
  "i < length (objects c) \<Longrightarrow> fired_body (objects c ! i) own ev = Some body \<Longrightarrow> (i, ev) \<notin> set F \<Longrightarrow>
     write_loop rn c (TaskScan own ev i # ts) e F
       = write_loop rn c (TaskBody body # TaskScan own ev (Suc i) # ts) (read_object i e) (F @ [(i, ev)])"
  by (subst write_loop.simps(3), auto simp del: write_loop.simps split: option.split)+

lemma write_loop_invariant:
  assumes init: "I ts e fired"
    and wr: "\<And>n ev ts e F. I (TaskWrite n ev # ts) e F \<Longrightarrow> I (scan_tasks c n ev @ ts) (record_target_write c n e) F"
    and finish: "\<And>own ev i ts e F. I (TaskScan own ev i # ts) e F \<Longrightarrow> length (objects c) \<le> i \<Longrightarrow> I ts e F"
    and skip: "\<And>own ev i ts e F. I (TaskScan own ev i # ts) e F \<Longrightarrow> i < length (objects c) \<Longrightarrow>
      fired_body (objects c ! i) own ev = None \<or> (i, ev) \<in> set F \<Longrightarrow> I (TaskScan own ev (Suc i) # ts) e F"
    and fire: "\<And>own ev i ts e F body. I (TaskScan own ev i # ts) e F \<Longrightarrow> i < length (objects c) \<Longrightarrow>
      fired_body (objects c ! i) own ev = Some body \<Longrightarrow> (i, ev) \<notin> set F \<Longrightarrow>
      I (TaskBody body # TaskScan own ev (Suc i) # ts) (read_object i e) (F @ [(i, ev)])"
    and nil: "\<And>ts e F. I (TaskBody [] # ts) e F \<Longrightarrow> I ts e F"
    and body: "\<And>s ss ts e F. I (TaskBody (s # ss) # ts) e F \<Longrightarrow> I (body_tasks s @ TaskBody ss # ts) (body_effects rn c s e) F"
  shows "\<exists>F. I [] (write_loop rn c ts e fired) F"
  using assms
proof (induction rn c ts e fired rule: write_loop.induct)
  case (1 rn c e fired)
  show ?case unfolding write_loop.simps using 1(1) by (rule exI)
next
  case (2 rn c n ev ts e fired)
  note I = 2(4) [OF 2(3)]
  show ?case
  proof (cases "write_owner c n")
    case None
    with 2(1) [OF refl None _ 2(4-9)] I show ?thesis
      by (simp only: write_loop_tasks) (simp add: scan_tasks_def del: write_loop.simps)
  next
    case (Some own)
    with 2(2) [OF refl Some _ 2(4-9)] I show ?thesis
      by (simp only: write_loop_tasks) (simp add: scan_tasks_def del: write_loop.simps)
  qed
next
  case (3 rn c own ev i ts e fired)
  show ?case
  proof (cases "length (objects c) \<le> i")
    case True
    show ?thesis
      unfolding write_loop_scan(1) [OF True] by (rule 3(1) [OF True 3(7) [OF 3(5) True] 3(6-11)])
  next
    case False
    then have lt: "i < length (objects c)" by simp
    show ?thesis
    proof (cases "fired_body (objects c ! i) own ev")
      case None
      show ?thesis
        unfolding write_loop_scan(2) [OF lt disjI1 [OF None]]
        by (rule 3(2) [OF False None 3(8) [OF 3(5) lt disjI1 [OF None]] 3(6-11)])
    next
      case (Some body)
      show ?thesis
      proof (cases "(i, ev) \<in> set fired")
        case True
        show ?thesis
          unfolding write_loop_scan(2) [OF lt disjI2 [OF True]]
          by (rule 3(3) [OF False Some True 3(8) [OF 3(5) lt disjI2 [OF True]] 3(6-11)])
      next
        case new: False
        show ?thesis
          unfolding write_loop_scan(3) [OF lt Some new]
          by (rule 3(4) [OF False Some new 3(9) [OF 3(5) lt Some new] 3(6-11)])
      qed
    qed
  qed
next
  case (4 rn c ts e fired)
  show ?case unfolding write_loop.simps(4) by (rule 4(1) [OF 4(7) [OF 4(2)] 4(3-8)])
next
  case (5 rn c s ss ts e fired)
  note I = 5(10) [OF 5(4)]
  show ?case
  proof (cases "row_write s")
    case None
    have eq: "body_tasks s = []" "body_effects rn c s e = reads_names c (rn (NodeStatement s)) e"
      by (simp_all add: body_tasks_def body_effects_def None)
    show ?thesis
      unfolding write_loop_tasks(2) eq append_Nil
      by (rule 5(1) [OF refl None I [unfolded eq append_Nil] 5(5-10)])
  next
    case (Some r)
    show ?thesis
    proof (cases r)
      case (WriteTable n' ev')
      have eq: "body_tasks s = [TaskWrite n' ev']" "body_effects rn c s e = reads_names c (rn (NodeStatement s)) e"
        by (simp_all add: body_tasks_def body_effects_def Some WriteTable)
      show ?thesis
        unfolding write_loop_tasks(2) eq append_Cons append_Nil
        by (rule 5(2) [OF refl Some WriteTable I [unfolded eq append_Cons append_Nil] 5(5-10)])
    next
      case Untracked
      have eq: "body_tasks s = []"
          "body_effects rn c s e = (reads_names c (rn (NodeStatement s)) e)\<lparr>persistent_write := True\<rparr>"
        by (simp_all add: body_tasks_def body_effects_def Some Untracked)
      show ?thesis
        unfolding write_loop_tasks(2) eq append_Nil
        by (rule 5(3) [OF refl Some Untracked I [unfolded eq append_Nil] 5(5-10)])
    qed
  qed
qed

lemma body_effects_simps [simp]:
  "persistent_write (body_effects rn c s e) \<longleftrightarrow> persistent_write e \<or> row_write s = Some Untracked"
  "touches (body_effects rn c s e) = touches e"
  by (simp_all add: body_effects_def Let_def)

lemma record_target_write_touches:
  "set (touches (record_target_write c n e)) = set (touches e) \<union>
     {i. relation c n = Some i \<and> obj_shape (objects c ! i) = ShapeTable}"
  by (auto simp: record_target_write_def split: option.split shape.split)

text \<open>Soundness: everything recorded is reached.\<close>

definition sound_inv :: "catalog \<Rightarrow> (object_name \<Rightarrow> events \<Rightarrow> bool) \<Rightarrow> effects \<Rightarrow> write_task list \<Rightarrow> effects \<Rightarrow> bool" where
  "sound_inv c W e0 ts e \<longleftrightarrow> (\<forall>t \<in> set ts. task_from W c t)
     \<and> (persistent_write e \<longrightarrow> persistent_write e0 \<or> (\<exists>n ev. W n ev \<and> writes_file c n ev))
     \<and> (\<forall>i \<in> set (touches e). i \<in> set (touches e0)
          \<or> (\<exists>n ev. W n ev \<and> relation c n = Some i \<and> obj_shape (objects c ! i) = ShapeTable))"

lemma write_loop_sound:
  fixes c n0 ev0
  defines "W \<equiv> write_reached c n0 ev0"
  shows "sound_inv c W e [] (write_rows rn c n0 ev0 e)"
proof -
  have "\<exists>F :: (object_id \<times> events) list. sound_inv c W e [] (write_loop rn c [TaskWrite n0 ev0] e [])"
  proof (rule write_loop_invariant [where I = "\<lambda>ts e' F. sound_inv c W e ts e'"])
    show "sound_inv c W e [TaskWrite n0 ev0] e" by (simp add: sound_inv_def W_def write_start)
    show "sound_inv c W e (scan_tasks c n ev @ ts) (record_target_write c n e')"
      if "sound_inv c W e (TaskWrite n ev # ts) e'" for n ev ts e'
      using that by (auto simp: sound_inv_def scan_tasks_def writes_file_def record_target_write_touches
          split: option.split)
    show "sound_inv c W e (TaskBody body # TaskScan own ev (Suc i) # ts) (read_object i e')"
      if s: "sound_inv c W e (TaskScan own ev i # ts) e'" and i: "i < length (objects c)"
        and b: "fired_body (objects c ! i) own ev = Some body" for own ev i ts e' body
    proof -
      from s obtain n where n: "W n ev" "write_owner c n = Some own" by (auto simp: sound_inv_def)
      have "\<forall>s \<in> set body. fires c n ev s" using n i b unfolding fires_def by blast
      with s n show ?thesis by (auto simp: sound_inv_def)
    qed
    show "sound_inv c W e (body_tasks s @ TaskBody ss # ts) (body_effects rn c s e')"
      if s: "sound_inv c W e (TaskBody (s # ss) # ts) e'" for s ss ts e'
    proof -
      from s obtain n ev where n: "W n ev" "\<forall>t \<in> set (s # ss). fires c n ev t" by (auto simp: sound_inv_def)
      then have "\<forall>t \<in> set (body_tasks s). task_from W c t"
        by (auto simp: body_tasks_def W_def split: option.split row_write_target.split intro: write_fire [OF _ _ sym])
      moreover have "row_write s = Some Untracked \<Longrightarrow> writes_file c n ev" using n by (auto simp: writes_file_def)
      ultimately show ?thesis using s n by (auto simp: sound_inv_def)
    qed
  qed (auto simp: sound_inv_def)
  then show ?thesis by (simp add: write_rows_def)
qed

text \<open>Completeness: everything reached is recorded. \<open>C\<close> is the set of writes already expanded.\<close>

definition recorded :: "catalog \<Rightarrow> effects \<Rightarrow> object_name \<Rightarrow> bool" where
  "recorded c e n \<longleftrightarrow> (relation c n = None \<longrightarrow> persistent_write e)
     \<and> (\<forall>i. relation c n = Some i \<longrightarrow> obj_shape (objects c ! i) = ShapeTable \<longrightarrow> i \<in> set (touches e))"

definition statement_done :: "(object_name \<times> events) set \<Rightarrow> write_task list \<Rightarrow> effects \<Rightarrow> statement \<Rightarrow> bool" where
  "statement_done C ts e s \<longleftrightarrow> (\<exists>ss. TaskBody ss \<in> set ts \<and> s \<in> set ss)
     \<or> ((row_write s = Some Untracked \<longrightarrow> persistent_write e)
        \<and> (\<forall>n ev. row_write s = Some (WriteTable n ev) \<longrightarrow> (n, ev) \<in> C \<or> TaskWrite n ev \<in> set ts))"

definition complete_inv :: "catalog \<Rightarrow> (object_name \<times> events) set \<Rightarrow> write_task list \<Rightarrow> effects \<Rightarrow> (object_id \<times> events) list \<Rightarrow> bool" where
  "complete_inv c C ts e F \<longleftrightarrow>
     (\<forall>n ev. (n, ev) \<in> C \<longrightarrow> recorded c e n \<and>
        (\<forall>own i body. write_owner c n = Some own \<longrightarrow> i < length (objects c) \<longrightarrow>
           fired_body (objects c ! i) own ev = Some body \<longrightarrow>
           (i, ev) \<in> set F \<or> (\<exists>k \<le> i. TaskScan own ev k \<in> set ts)))
     \<and> (\<forall>i ev own body s. (i, ev) \<in> set F \<longrightarrow> fired_body (objects c ! i) own ev = Some body \<longrightarrow>
          s \<in> set body \<longrightarrow> statement_done C ts e s)"

definition grows :: "effects \<Rightarrow> effects \<Rightarrow> bool" where
  "grows e e' \<longleftrightarrow> (persistent_write e \<longrightarrow> persistent_write e') \<and> set (touches e) \<subseteq> set (touches e')"

lemma grows_steps [simp]:
  "grows e e" "grows e (record_target_write c n e)" "grows e (read_object i e)" "grows e (body_effects rn c s e)"
  by (auto simp: grows_def record_target_write_touches)

lemma recorded_grows: "recorded c e n \<Longrightarrow> grows e e' \<Longrightarrow> recorded c e' n"
  by (auto simp: recorded_def grows_def)

text \<open>
  One transition keeps the invariant when what it removes from the work list is accounted for.
\<close>

lemma complete_inv_step:
  assumes inv: "complete_inv c C ts e F" and C: "C \<subseteq> C'" and F: "set F \<subseteq> set F'" and e: "grows e e'"
    and fresh: "\<And>n ev. (n, ev) \<in> C' - C \<Longrightarrow> recorded c e' n \<and>
        (\<forall>own. write_owner c n = Some own \<longrightarrow> TaskScan own ev 0 \<in> set ts')"
    and scans: "\<And>own ev k i body. TaskScan own ev k \<in> set ts \<Longrightarrow> k \<le> i \<Longrightarrow> i < length (objects c) \<Longrightarrow>
        fired_body (objects c ! i) own ev = Some body \<Longrightarrow>
        (i, ev) \<in> set F' \<or> (\<exists>k \<le> i. TaskScan own ev k \<in> set ts')"
    and bodies: "\<And>ss s. TaskBody ss \<in> set ts \<Longrightarrow> s \<in> set ss \<Longrightarrow> statement_done C' ts' e' s"
    and writes: "\<And>n ev. TaskWrite n ev \<in> set ts \<Longrightarrow> (n, ev) \<in> C' \<or> TaskWrite n ev \<in> set ts'"
    and fired: "\<And>i ev own body s. (i, ev) \<in> set F' - set F \<Longrightarrow> fired_body (objects c ! i) own ev = Some body \<Longrightarrow>
        s \<in> set body \<Longrightarrow> statement_done C' ts' e' s"
  shows "complete_inv c C' ts' e' F'"
  unfolding complete_inv_def
proof (intro conjI allI impI)
  fix n ev
  assume n: "(n, ev) \<in> C'"
  show "recorded c e' n"
    using n inv fresh recorded_grows [OF _ e] by (cases "(n, ev) \<in> C") (auto simp: complete_inv_def)
  fix own i body
  assume o: "write_owner c n = Some own" and i: "i < length (objects c)" and b: "fired_body (objects c ! i) own ev = Some body"
  show "(i, ev) \<in> set F' \<or> (\<exists>k \<le> i. TaskScan own ev k \<in> set ts')"
  proof (cases "(n, ev) \<in> C")
    case True
    with inv o i b have "(i, ev) \<in> set F \<or> (\<exists>k \<le> i. TaskScan own ev k \<in> set ts)"
      unfolding complete_inv_def by blast
    with scans i b F show ?thesis by blast
  next
    case False
    with fresh n o have "TaskScan own ev 0 \<in> set ts'" by blast
    then show ?thesis by blast
  qed
next
  fix i ev own body s
  assume f: "(i, ev) \<in> set F'" and b: "fired_body (objects c ! i) own ev = Some body" and s: "s \<in> set body"
  show "statement_done C' ts' e' s"
  proof (cases "(i, ev) \<in> set F")
    case True
    with inv b s have "statement_done C ts e s" unfolding complete_inv_def by blast
    then show ?thesis
      using bodies C e writes unfolding statement_done_def grows_def by blast
  next
    case False
    with fired f b s show ?thesis by blast
  qed
qed

lemma scan_advance:
  assumes "TaskScan own' ev' k \<in> set (TaskScan own ev i # ts)" and "k \<le> j"
  shows "own' = own \<and> ev' = ev \<and> j = i \<or> (\<exists>k \<le> j. TaskScan own' ev' k \<in> set (TaskScan own ev (Suc i) # ts))"
proof (cases "TaskScan own' ev' k \<in> set ts")
  case True
  with assms(2) show ?thesis by auto
next
  case False
  with assms have "own' = own" "ev' = ev" "i \<le> j" by auto
  then show ?thesis by (cases "i = j") (auto intro!: exI [of _ "Suc i"])
qed

lemma write_loop_complete:
  "\<exists>C F. (n0, ev0) \<in> C \<and> complete_inv c C [] (write_rows rn c n0 ev0 e) F"
proof -
  let ?I = "\<lambda>ts e F. \<exists>C. complete_inv c C ts e F \<and> ((n0, ev0) \<in> C \<or> TaskWrite n0 ev0 \<in> set ts)"
  have "\<exists>F. ?I [] (write_loop rn c [TaskWrite n0 ev0] e []) F"
  proof (rule write_loop_invariant [where I = ?I])
    show "?I [TaskWrite n0 ev0] e []" by (rule exI [of _ "{}"]) (simp add: complete_inv_def)
    show "?I (scan_tasks c n ev @ ts) (record_target_write c n e') F" if I: "?I (TaskWrite n ev # ts) e' F" for n ev ts e' F
    proof -
      from I obtain C where C: "complete_inv c C (TaskWrite n ev # ts) e' F"
        "(n0, ev0) \<in> C \<or> TaskWrite n0 ev0 \<in> set (TaskWrite n ev # ts)" by blast
      have "complete_inv c (insert (n, ev) C) (scan_tasks c n ev @ ts) (record_target_write c n e') F"
        by (rule complete_inv_step [OF C(1)])
          (auto simp: recorded_def record_target_write_touches scan_tasks_def statement_done_def)
      with C(2) show ?thesis by auto
    qed
    show "?I ts e' F" if I: "?I (TaskScan own ev i # ts) e' F" and "length (objects c) \<le> i" for own ev i ts e' F
    proof -
      from I obtain C where C: "complete_inv c C (TaskScan own ev i # ts) e' F"
        "(n0, ev0) \<in> C \<or> TaskWrite n0 ev0 \<in> set ts" by auto
      have "complete_inv c C ts e' F"
        using that(2) by (intro complete_inv_step [OF C(1)]) (auto simp: statement_done_def)
      with C(2) show ?thesis by blast
    qed
    show "?I (TaskScan own ev (Suc i) # ts) e' F"
      if I: "?I (TaskScan own ev i # ts) e' F" and "i < length (objects c)"
        and s: "fired_body (objects c ! i) own ev = None \<or> (i, ev) \<in> set F" for own ev i ts e' F
    proof -
      from I obtain C where C: "complete_inv c C (TaskScan own ev i # ts) e' F"
        "(n0, ev0) \<in> C \<or> TaskWrite n0 ev0 \<in> set ts" by auto
      have "complete_inv c C (TaskScan own ev (Suc i) # ts) e' F"
      proof (rule complete_inv_step [OF C(1)])
        show "(j, ev') \<in> set F \<or> (\<exists>k \<le> j. TaskScan own' ev' k \<in> set (TaskScan own ev (Suc i) # ts))"
          if "TaskScan own' ev' k \<in> set (TaskScan own ev i # ts)" "k \<le> j"
            "fired_body (objects c ! j) own' ev' = Some body" for own' ev' k j body
          using scan_advance [OF that(1,2)] that(3) s by auto
      qed (auto simp: statement_done_def)
      with C(2) show ?thesis by auto
    qed
    show "?I (TaskBody body # TaskScan own ev (Suc i) # ts) (read_object i e') (F @ [(i, ev)])"
      if I: "?I (TaskScan own ev i # ts) e' F" and b: "fired_body (objects c ! i) own ev = Some body"
      for own ev i ts e' F body
    proof -
      from I obtain C where C: "complete_inv c C (TaskScan own ev i # ts) e' F"
        "(n0, ev0) \<in> C \<or> TaskWrite n0 ev0 \<in> set ts" by auto
      have same: "fired_body (objects c ! i) own' ev = Some body' \<Longrightarrow> body' = body" for own' body'
        using b by (auto simp: fired_body_def split: shape.splits if_splits)
      have "complete_inv c C (TaskBody body # TaskScan own ev (Suc i) # ts) (read_object i e') (F @ [(i, ev)])"
      proof (rule complete_inv_step [OF C(1)])
        show "(j, ev') \<in> set (F @ [(i, ev)])
            \<or> (\<exists>k \<le> j. TaskScan own' ev' k \<in> set (TaskBody body # TaskScan own ev (Suc i) # ts))"
          if "TaskScan own' ev' k \<in> set (TaskScan own ev i # ts)" "k \<le> j" for own' ev' k j
          using scan_advance [OF that] by auto
      qed (auto simp: statement_done_def dest!: same)
      with C(2) show ?thesis by auto
    qed
    show "?I ts e' F" if I: "?I (TaskBody [] # ts) e' F" for ts e' F
    proof -
      from I obtain C where C: "complete_inv c C (TaskBody [] # ts) e' F"
        "(n0, ev0) \<in> C \<or> TaskWrite n0 ev0 \<in> set ts" by auto
      have "complete_inv c C ts e' F" by (intro complete_inv_step [OF C(1)]) (auto simp: statement_done_def)
      with C(2) show ?thesis by blast
    qed
    show "?I (body_tasks s @ TaskBody ss # ts) (body_effects rn c s e') F" if I: "?I (TaskBody (s # ss) # ts) e' F" for s ss ts e' F
    proof -
      from I obtain C where C: "complete_inv c C (TaskBody (s # ss) # ts) e' F"
        "(n0, ev0) \<in> C \<or> TaskWrite n0 ev0 \<in> set ts" by auto
      have "complete_inv c C (body_tasks s @ TaskBody ss # ts) (body_effects rn c s e') F"
        by (intro complete_inv_step [OF C(1)]) (auto simp: statement_done_def body_tasks_def)
      with C(2) show ?thesis by auto
    qed
  qed
  then show ?thesis by (auto simp: write_rows_def)
qed

lemma complete_inv_fires:
  assumes inv: "complete_inv c C [] e F" and C: "(n, ev) \<in> C" and s: "fires c n ev s"
  shows "statement_done C [] e s"
proof -
  from s obtain own i body where f: "write_owner c n = Some own" "i < length (objects c)"
      "fired_body (objects c ! i) own ev = Some body" "s \<in> set body"
    by (auto simp: fires_def)
  from inv C f(1-3) have "(i, ev) \<in> set F \<or> (\<exists>k \<le> i. TaskScan own ev k \<in> set [])"
    unfolding complete_inv_def by blast
  then have "(i, ev) \<in> set F" by simp
  with f inv show ?thesis unfolding complete_inv_def by blast
qed

lemma write_rows_grows: "grows e (write_rows rn c n ev e)"
proof -
  have "\<exists>F :: (object_id \<times> events) list. grows e (write_loop rn c [TaskWrite n ev] e [])"
  proof (rule write_loop_invariant [where I = "\<lambda>ts e' F. grows e e'"])
    fix n e'
    assume "grows e e'"
    then show "grows e (record_target_write c n e')"
      using grows_steps(2) [of e' c n] by (auto simp: grows_def)
  next
    fix i e'
    assume "grows e e'"
    then show "grows e (read_object i e')" by (simp add: grows_def)
  next
    fix s e'
    assume "grows e e'"
    then show "grows e (body_effects rn c s e')" by (simp add: grows_def)
  qed simp_all
  then show ?thesis by (simp add: write_rows_def)
qed

lemma complete_inv_reached:
  assumes "complete_inv c C [] e F" and "(n0, ev0) \<in> C" and "write_reached c n0 ev0 n ev"
  shows "(n, ev) \<in> C"
  using assms(3)
proof (induction rule: write_reached.induct)
  case (write_fire n ev s n' ev')
  with complete_inv_fires [OF assms(1)] have "statement_done C [] e s" by blast
  with write_fire show ?case by (simp add: statement_done_def)
qed (rule assms(2))

section \<open>Property\<close>

text \<open>
  C4. A row write is followed through every trigger it fires, transitively: it counts as a write to
  the database file exactly when it, or some write of a fired trigger body, names no connection-local
  relation (or nothing the analysis can name), and it touches exactly the connection-local tables so
  written. Triggers that fire each other do not make the search run on.
\<close>

theorem writes_are_followed_through_triggers:
  "(persistent_write (write_rows rn c n ev e) \<longleftrightarrow>
      persistent_write e \<or> (\<exists>n' ev'. write_reached c n ev n' ev' \<and> writes_file c n' ev'))
   \<and> set (touches (write_rows rn c n ev e)) = set (touches e) \<union>
       {i. \<exists>n' ev'. write_reached c n ev n' ev' \<and> relation c n' = Some i \<and> obj_shape (objects c ! i) = ShapeTable}"
proof -
  obtain C F where C: "(n, ev) \<in> C" "complete_inv c C [] (write_rows rn c n ev e) F"
    using write_loop_complete [of n ev c rn e] by (elim exE conjE)
  have rec: "recorded c (write_rows rn c n ev e) n'" if "write_reached c n ev n' ev'" for n' ev'
    using complete_inv_reached [OF C(2,1) that] C(2) unfolding complete_inv_def by blast
  have untracked: "persistent_write (write_rows rn c n ev e)"
    if w: "write_reached c n ev n' ev'" and s: "fires c n' ev' s" "row_write s = Some Untracked" for n' ev' s
  proof -
    have "statement_done C [] (write_rows rn c n ev e) s"
      by (rule complete_inv_fires [OF C(2) complete_inv_reached [OF C(2,1) w] s(1)])
    with s(2) show ?thesis by (simp add: statement_done_def)
  qed
  note sound = write_loop_sound [of c n ev e rn, unfolded sound_inv_def]
  have grow: "grows e (write_rows rn c n ev e)" by (rule write_rows_grows)
  show ?thesis
  proof (intro conjI iffI)
    assume "persistent_write (write_rows rn c n ev e)"
    with sound show "persistent_write e \<or> (\<exists>n' ev'. write_reached c n ev n' ev' \<and> writes_file c n' ev')" by blast
  next
    assume "persistent_write e \<or> (\<exists>n' ev'. write_reached c n ev n' ev' \<and> writes_file c n' ev')"
    with rec untracked grow show "persistent_write (write_rows rn c n ev e)"
      unfolding writes_file_def recorded_def grows_def by blast
  next
    show "set (touches (write_rows rn c n ev e)) = set (touches e) \<union>
       {i. \<exists>n' ev'. write_reached c n ev n' ev' \<and> relation c n' = Some i \<and> obj_shape (objects c ! i) = ShapeTable}"
      using sound rec grow unfolding recorded_def grows_def by blast
  qed
qed

end
