(* ===== verification/Saturation.thy ===== *)
theory Saturation
  imports Main
begin

text \<open>
  The contract of a "repeat until a pass changes nothing" loop, which the program uses twice: to
  collect the units a connection program retains (\<open>src/src/history/mod.rs\<close>) and to close views over
  \<open>temp\<close> storage (\<open>src/src/history/placement.rs\<close>). A pass answers the new state and whether it
  changed anything; a changing pass makes progress on a rank.
\<close>

locale saturation =
  fixes pass :: "'s \<Rightarrow> 's \<times> bool"
    and loop :: "'s \<Rightarrow> 's"
    and valid :: "'s \<Rightarrow> bool"
    and rank :: "'s \<Rightarrow> nat"
  assumes loop_unfold: "valid s \<Longrightarrow> loop s = (if snd (pass s) then loop (fst (pass s)) else fst (pass s))"
    and progress: "valid s \<Longrightarrow> snd (pass s) \<Longrightarrow> rank (fst (pass s)) < rank s"
    and quiet: "valid s \<Longrightarrow> \<not> snd (pass s) \<Longrightarrow> fst (pass s) = s"
    and valid_pass: "valid s \<Longrightarrow> valid (fst (pass s))"
begin

lemma loop_induct:
  assumes "valid s" and "P s" and "\<And>s. valid s \<Longrightarrow> P s \<Longrightarrow> P (fst (pass s))"
  shows "valid (loop s) \<and> P (loop s)"
  using assms(1,2)
proof (induction "rank s" arbitrary: s rule: less_induct)
  case less
  show ?case
  proof (cases "snd (pass s)")
    case True
    with less.hyps [OF progress] less.prems valid_pass assms(3) loop_unfold show ?thesis by simp
  next
    case False
    with less.prems quiet loop_unfold show ?thesis by simp
  qed
qed

lemma loop_fixed: "valid s \<Longrightarrow> pass (loop s) = (loop s, False)"
proof (induction "rank s" arbitrary: s rule: less_induct)
  case less
  show ?case
  proof (cases "snd (pass s)")
    case True
    with less.hyps [OF progress] less.prems valid_pass loop_unfold show ?thesis by simp
  next
    case False
    with less.prems quiet [of s] loop_unfold [of s] show ?thesis by (cases "pass s") simp
  qed
qed

end

end
