(* ===== verification/Connection_Program.thy ===== *)
theory Connection_Program
  imports Transactions Catalog_Facts Saturation File_Sets
begin

text \<open>
  The program a connection to an existing database file runs: \<open>src/src/history/mod.rs\<close>
  (\<open>connection_program\<close>, \<open>retention\<close>, \<open>replay\<close>).

  A unit is one source statement with what it emits. Rebinding a unit to the final schema
  (\<open>replay_unit\<close>, which calls the translator and the schema crate) is the parameter \<open>ru\<close>, threading
  a state that holds the replay schema and the placement; \<open>loc\<close> is \<open>Placed::is_connection_local\<close> in
  that state.
\<close>

section \<open>Effects of the batch\<close>

record batch_unit =
  un_source :: statement
  un_emitted :: "statement list"
  un_disposition :: disposition

fun unit_effects :: "(visit_node \<Rightarrow> string list) \<Rightarrow> (outcome \<times> statement list) list \<Rightarrow> catalog \<Rightarrow> catalog \<times> effects list" where
  "unit_effects rn [] c = (c, [])"
| "unit_effects rn ((oc, emitted) # us) c =
     (let (c1, e) = (if oc = Committed then apply_unit rn emitted c else (c, effects_default));
          (c2, es) = unit_effects rn us c1 in (c2, e # es))"

definition batch_outline :: "batch_unit list \<Rightarrow> outline" where
  "batch_outline us = outline_new (map un_source us) (map un_disposition us)"

definition batch_effects :: "(visit_node \<Rightarrow> string list) \<Rightarrow> batch_unit list \<Rightarrow> catalog \<times> effects list" where
  "batch_effects rn us =
     unit_effects rn (zip (outcomes (batch_outline us)) (map un_emitted us)) catalog_default"

section \<open>Retention\<close>

definition need_all :: "object_id list \<Rightarrow> bool list \<Rightarrow> bool list" where
  "need_all ids needed = fold (\<lambda>i n. n[i := True]) ids needed"

definition is_needed :: "bool list \<Rightarrow> object_id \<Rightarrow> bool" where
  "is_needed needed i \<longleftrightarrow> i < length needed \<and> needed ! i"

type_synonym retention_state = "bool list \<times> bool list"

definition retain_visit :: "effects list \<Rightarrow> nat \<Rightarrow> retention_state \<times> bool \<Rightarrow> retention_state \<times> bool" where
  "retain_visit effs i = (\<lambda>((needed, retained), changed).
     (let e = effs ! i in
      if length retained \<le> i \<or> retained ! i \<or> \<not> list_ex (is_needed needed) (touches e)
      then ((needed, retained), changed)
      else ((need_all (touches e @ reads e) needed, retained[i := True]), True)))"

definition retention_pass :: "effects list \<Rightarrow> retention_state \<Rightarrow> retention_state \<times> bool" where
  "retention_pass effs st = fold (retain_visit effs) (rev [0..<length effs]) (st, False)"

definition unretained :: "bool list \<Rightarrow> nat" where
  "unretained retained = length (filter Not retained)"

lemma unretained_update:
  "i < length r \<Longrightarrow> \<not> r ! i \<Longrightarrow> unretained (r[i := True]) < unretained r"
proof (induction r arbitrary: i)
  case (Cons x r)
  then show ?case by (cases i) (auto simp: unretained_def)
qed simp

lemma retain_visit_rank:
  assumes "retain_visit effs i ((n, r), ch) = ((n', r'), ch')"
  shows "unretained r' \<le> unretained r \<and> (ch' \<and> \<not> ch \<longrightarrow> unretained r' < unretained r)
    \<and> (\<not> ch' \<longrightarrow> n' = n \<and> r' = r \<and> \<not> ch) \<and> length r' = length r \<and> length n' = length n"
proof -
  have l: "length (need_all ids n) = length n" for ids n
    by (induction ids arbitrary: n) (simp_all add: need_all_def)
  show ?thesis
    using assms unretained_update [of i r]
    by (auto simp: retain_visit_def Let_def l not_le split: if_splits)
qed

lemma retain_visits_rank:
  assumes "fold (retain_visit effs) is ((n, r), ch) = ((n', r'), ch')"
  shows "unretained r' \<le> unretained r \<and> (ch' \<and> \<not> ch \<longrightarrow> unretained r' < unretained r)
    \<and> (\<not> ch' \<longrightarrow> n' = n \<and> r' = r \<and> \<not> ch) \<and> length r' = length r \<and> length n' = length n"
  using assms
proof (induction "is" arbitrary: n r ch)
  case (Cons i "is")
  obtain n1 r1 ch1 where v: "retain_visit effs i ((n, r), ch) = ((n1, r1), ch1)"
    by (metis surj_pair)
  with Cons.prems Cons.IH [of n1 r1 ch1] retain_visit_rank [OF v] show ?case by auto
qed auto

function retention_loop :: "effects list \<Rightarrow> retention_state \<Rightarrow> retention_state" where
  "retention_loop effs st =
     (let (st', changed) = retention_pass effs st in if changed then retention_loop effs st' else st')"
  by pat_completeness auto

termination retention_loop
proof (relation "measure (\<lambda>(effs, (n, r)). unretained r)")
  fix effs :: "effects list" and st x st' :: retention_state and y p changed
  show "((effs, st'), effs, st) \<in> measure (\<lambda>(effs, n, r). unretained r)"
    if "p = retention_pass effs st" "(st', changed) = p" changed
  proof -
    obtain n r n' r' where "st = (n, r)" "st' = (n', r')" by (metis surj_pair)
    with that retain_visits_rank [of effs "rev [0..<length effs]" n r False n' r' True] show ?thesis
      by (simp add: retention_pass_def)
  qed
qed simp

declare retention_loop.simps [simp del]

definition retention_start :: "catalog \<Rightarrow> effects list \<Rightarrow> retention_state" where
  "retention_start c effs =
     (need_all (alive_ids c) (replicate (catalog_len c) False), replicate (length effs) False)"

definition retention :: "catalog \<Rightarrow> effects list \<Rightarrow> bool list" where
  "retention c effs = snd (retention_loop effs (retention_start c effs))"

section \<open>Replay\<close>

definition transaction_switch :: "nat option \<Rightarrow> nat option \<Rightarrow> statement list" where
  "transaction_switch opened t =
     (if t \<noteq> opened
      then (if opened \<noteq> None then [Commit False] else []) @ (if t \<noteq> None then [StartTransaction] else [])
      else [])"

fun replay_from ::
  "(nat \<Rightarrow> 'sch \<Rightarrow> connection_error + ('sch \<times> statement list option)) \<Rightarrow> ('sch \<Rightarrow> statement \<Rightarrow> bool)
     \<Rightarrow> (nat \<Rightarrow> nat option) \<Rightarrow> (nat \<Rightarrow> statement list) \<Rightarrow> nat list \<Rightarrow> nat option \<Rightarrow> 'sch
     \<Rightarrow> connection_error + statement list" where
  "replay_from ru loc txn emitted [] opened sch = Inr (if opened \<noteq> None then [Commit False] else [])"
| "replay_from ru loc txn emitted (i # is) opened sch =
     (case ru i sch of
        Inl e \<Rightarrow> Inl e
      | Inr (sch', rebound) \<Rightarrow>
          (case replay_from ru loc txn emitted is (txn i) sch' of
             Inl e \<Rightarrow> Inl e
           | Inr rest \<Rightarrow>
               Inr (transaction_switch opened (txn i)
                 @ filter (loc sch') (case rebound of Some ss \<Rightarrow> ss | None \<Rightarrow> emitted i) @ rest)))"

definition connection_refusal :: "string \<Rightarrow> connection_error" where
  "connection_refusal detail = Translation \<lparr>tr_direction = PostgreSqlToSqlite,
     tr_category = UnrepresentableSemantics, tr_detail = detail\<rparr>"

definition persistent_write_refusal :: "nat \<Rightarrow> connection_error" where
  "persistent_write_refusal index = connection_refusal (''statement '' @ show_nat index
     @ '' of the batch writes rows a surviving TEMP object needs, and it also writes a table stored in the ''
     @ ''database file. Replaying it on a new connection would write that table a second time. Keep TEMP ''
     @ ''history free of writes to stored tables.'')"

definition kept_indices :: "bool list \<Rightarrow> nat list" where
  "kept_indices retained = filter (\<lambda>i. retained ! i) [0..<length retained]"

definition connection_program ::
  "(visit_node \<Rightarrow> string list) \<Rightarrow> (nat \<Rightarrow> 'sch \<Rightarrow> connection_error + ('sch \<times> statement list option))
     \<Rightarrow> ('sch \<Rightarrow> statement \<Rightarrow> bool) \<Rightarrow> connection_error + 'sch \<Rightarrow> batch_unit list
     \<Rightarrow> connection_error + statement list" where
  "connection_program rn ru loc schema us =
     (let (c, effs) = batch_effects rn us; retained = retention c effs in
      if \<not> list_ex (\<lambda>k. k) retained then Inr []
      else case find (\<lambda>i. persistent_write (effs ! i)) (kept_indices retained) of
        Some i \<Rightarrow> Inl (persistent_write_refusal i)
      | None \<Rightarrow>
          (case schema of Inl e \<Rightarrow> Inl e
           | Inr sch \<Rightarrow> replay_from ru loc (\<lambda>i. transactions (batch_outline us) ! i)
               (\<lambda>i. un_emitted (us ! i)) (kept_indices retained) None sch))"

section \<open>Retention is the least closed set of units\<close>

definition retention_rank :: "retention_state \<Rightarrow> nat" where
  "retention_rank st = unretained (snd st)"

interpretation retained: saturation "retention_pass effs" "retention_loop effs" "\<lambda>_. True" retention_rank for effs
proof
  fix st :: retention_state
  obtain n r n' r' ch where p: "st = (n, r)" "retention_pass effs st = ((n', r'), ch)" by (metis surj_pair)
  note rank = retain_visits_rank [of effs "rev [0..<length effs]" n r False n' r' ch]
  show "retention_loop effs st = (if snd (retention_pass effs st) then retention_loop effs (fst (retention_pass effs st))
      else fst (retention_pass effs st))"
    by (subst retention_loop.simps) (simp add: split_beta)
  show "retention_rank (fst (retention_pass effs st)) < retention_rank st" if "snd (retention_pass effs st)"
    using that rank p by (simp add: retention_rank_def retention_pass_def)
  show "fst (retention_pass effs st) = st" if "\<not> snd (retention_pass effs st)"
    using that rank p by (simp add: retention_pass_def)
qed simp

definition needed_set :: "retention_state \<Rightarrow> object_id set" where
  "needed_set st = {i. is_needed (fst st) i}"

definition retained_set :: "retention_state \<Rightarrow> nat set" where
  "retained_set st = {i. i < length (snd st) \<and> snd st ! i}"

definition effect_ids :: "effects \<Rightarrow> object_id set" where
  "effect_ids e = set (touches e) \<union> set (reads e)"

text \<open>A set of objects and units that contains what an object in it needs.\<close>

definition closed_under :: "effects list \<Rightarrow> object_id set \<Rightarrow> nat set \<Rightarrow> bool" where
  "closed_under effs N R \<longleftrightarrow> (\<forall>i < length effs. set (touches (effs ! i)) \<inter> N \<noteq> {} \<longrightarrow>
     i \<in> R \<and> effect_ids (effs ! i) \<subseteq> N)"

lemma need_all_spec:
  "length (need_all ids n) = length n"
  "is_needed (need_all ids n) j \<longleftrightarrow> is_needed n j \<or> (j < length n \<and> j \<in> set ids)"
proof (induction ids arbitrary: n)
  case (Cons i ids)
  have u: "need_all (i # ids) n = need_all ids (n[i := True])" for n by (simp add: need_all_def)
  have v: "is_needed (n[i := True]) j \<longleftrightarrow> is_needed n j \<or> (j = i \<and> j < length n)" for n j
    by (cases "i < length n") (auto simp: is_needed_def nth_list_update list_update_beyond)
  { case 1 show ?case using Cons(1) by (simp add: u) }
  { case 2 show ?case using Cons(2) v by (auto simp: u) }
qed (simp_all add: need_all_def)

definition retention_inv :: "effects list \<Rightarrow> nat \<Rightarrow> object_id set \<Rightarrow> retention_state \<Rightarrow> bool" where
  "retention_inv effs m A st \<longleftrightarrow> length (snd st) = length effs \<and> length (fst st) = m
     \<and> A \<subseteq> needed_set st \<and> (\<forall>i \<in> retained_set st. effect_ids (effs ! i) \<subseteq> needed_set st)
     \<and> (\<forall>N R. A \<subseteq> N \<longrightarrow> closed_under effs N R \<longrightarrow> needed_set st \<subseteq> N \<and> retained_set st \<subseteq> R)"

lemma retain_visit_inv:
  assumes inv: "retention_inv effs m A st" and i: "i < length effs" and rg: "\<forall>e \<in> set effs. effect_ids e \<subseteq> {..<m}"
    and v: "retain_visit effs i (st, ch) = (st', ch')"
  shows "retention_inv effs m A st'"
proof (cases "st' = st")
  case False
  obtain n r where st: "st = (n, r)" by (cases st)
  let ?e = "effs ! i"
  from v False have st': "st' = (need_all (touches ?e @ reads ?e) n, r[i := True])"
    and ex: "\<exists>j \<in> set (touches ?e). is_needed n j" and lt: "i < length r"
    by (auto simp: st retain_visit_def Let_def list_ex_iff split: if_splits)
  have ids: "effect_ids ?e \<subseteq> {..<m}" using rg i by simp
  have N: "needed_set st' = needed_set st \<union> effect_ids ?e"
    using ids inv by (auto simp: needed_set_def st st' need_all_spec effect_ids_def retention_inv_def)
  have R: "retained_set st' = insert i (retained_set st)"
    using lt by (auto simp: retained_set_def st st' nth_list_update)
  have least: "needed_set st' \<subseteq> N' \<and> retained_set st' \<subseteq> R'"
    if "A \<subseteq> N'" and cl: "closed_under effs N' R'" for N' R'
  proof -
    have old: "needed_set st \<subseteq> N' \<and> retained_set st \<subseteq> R'" using inv that by (simp add: retention_inv_def)
    from ex obtain j where "j \<in> set (touches ?e)" "j \<in> needed_set st" by (auto simp: needed_set_def st)
    with old have "set (touches ?e) \<inter> N' \<noteq> {}" by blast
    with cl i have "i \<in> R'" "effect_ids ?e \<subseteq> N'" unfolding closed_under_def by blast+
    with old N R show ?thesis by auto
  qed
  have "length (snd st') = length effs" "length (fst st') = m"
    using inv by (simp_all add: retention_inv_def st st' need_all_spec)
  moreover have "A \<subseteq> needed_set st'" "\<forall>k \<in> retained_set st'. effect_ids (effs ! k) \<subseteq> needed_set st'"
    using inv N R by (auto simp: retention_inv_def)
  ultimately show ?thesis using least by (simp add: retention_inv_def)
qed (use inv in simp)

lemma retention_pass_inv:
  assumes "retention_inv effs m A st" and rg: "\<forall>e \<in> set effs. effect_ids e \<subseteq> {..<m}"
  shows "retention_inv effs m A (fst (retention_pass effs st))"
proof -
  have all: "retention_inv effs m A (fst (fold (retain_visit effs) is (st, ch)))"
    if "retention_inv effs m A st" "set is \<subseteq> {..<length effs}" for "is" st ch
    using that
  proof (induction "is" arbitrary: st ch)
    case (Cons i "is")
    obtain st' ch' where v: "retain_visit effs i (st, ch) = (st', ch')" by (metis surj_pair)
    with retain_visit_inv [OF Cons.prems(1) _ rg v] Cons.prems(2) Cons.IH [of st' ch'] show ?case by simp
  qed simp
  from all [OF assms(1), of "rev [0..<length effs]" False] show ?thesis by (simp add: retention_pass_def lessThan_atLeast0)
qed

lemma quiet_pass:
  assumes "fold (retain_visit effs) is ((n, r), False) = ((n, r), False)" and "i \<in> set is" and "i < length r"
  shows "r ! i \<or> \<not> list_ex (is_needed n) (touches (effs ! i))"
  using assms(1,2)
proof (induction "is")
  case (Cons k "is")
  obtain n1 r1 ch1 where v: "retain_visit effs k ((n, r), False) = ((n1, r1), ch1)" by (metis surj_pair)
  with Cons.prems(1) retain_visits_rank [of effs "is" n1 r1 ch1 n r False] have q: "n1 = n" "r1 = r" "\<not> ch1" by auto
  show ?case
  proof (cases "i = k")
    case True
    with v q assms(3) show ?thesis by (auto simp: retain_visit_def Let_def split: if_splits)
  next
    case False
    with Cons v q show ?thesis by simp
  qed
qed simp

lemma retention_closed:
  assumes rg: "\<forall>e \<in> set effs. effect_ids e \<subseteq> {..<catalog_len c}"
  defines "st \<equiv> retention_loop effs (retention_start c effs)"
  shows "retention_inv effs (catalog_len c) (set (alive_ids c)) st \<and> closed_under effs (needed_set st) (retained_set st)"
proof -
  let ?m = "catalog_len c" and ?A = "set (alive_ids c)"
  have "\<not> is_needed (replicate ?m False) j" for j by (simp add: is_needed_def)
  then have "needed_set (retention_start c effs) = ?A" "retained_set (retention_start c effs) = {}"
    by (auto simp: needed_set_def retained_set_def retention_start_def need_all_spec
        alive_ids_def catalog_len_def)
  then have "retention_inv effs ?m ?A (retention_start c effs)"
    by (simp add: retention_inv_def retention_start_def need_all_spec)
  then have inv: "retention_inv effs ?m ?A st"
    using retained.loop_induct [where P = "retention_inv effs ?m ?A" and effs = effs] retention_pass_inv [OF _ rg] unfolding st_def by blast
  obtain n r where st: "st = (n, r)" by (cases st)
  from retained.loop_fixed [of effs "retention_start c effs"]
  have "fold (retain_visit effs) (rev [0..<length effs]) ((n, r), False) = ((n, r), False)"
    by (simp add: retention_pass_def flip: st_def) (simp add: st)
  note quiet = quiet_pass [OF this]
  have "closed_under effs (needed_set st) (retained_set st)"
    unfolding closed_under_def
  proof (intro allI impI)
    fix i
    assume i: "i < length effs" and t: "set (touches (effs ! i)) \<inter> needed_set st \<noteq> {}"
    have "i < length r" using inv i by (simp add: retention_inv_def st)
    with quiet [of i] i t have "r ! i" by (auto simp: list_ex_iff needed_set_def st)
    with \<open>i < length r\<close> have "i \<in> retained_set st" by (simp add: retained_set_def st)
    with inv show "i \<in> retained_set st \<and> effect_ids (effs ! i) \<subseteq> needed_set st" by (simp add: retention_inv_def)
  qed
  with inv show ?thesis ..
qed

section \<open>A slice of the history rebuilds what survives\<close>

lemma slice_agrees:
  assumes cl: "closed_under effs N R"
    and frame: "\<And>i s j. i < length effs \<Longrightarrow> j \<notin> set (touches (effs ! i)) \<Longrightarrow> run i s j = s j"
    and local: "\<And>i s t j. i < length effs \<Longrightarrow> (\<forall>k \<in> effect_ids (effs ! i). s k = t k) \<Longrightarrow>
       j \<in> set (touches (effs ! i)) \<Longrightarrow> run i s j = run i t j"
    and "set is \<subseteq> {..<length effs}" and "\<forall>j \<in> N. s j = t j"
  shows "\<forall>j \<in> N. fold run is s j = fold run (filter (\<lambda>i. i \<in> R) is) t j"
  using assms(4,5)
proof (induction "is" arbitrary: s t)
  case (Cons i "is")
  then have i: "i < length effs" by simp
  have step: "\<forall>j \<in> N. run i s j = (if i \<in> R then run i t j else t j)"
  proof
    fix j
    assume j: "j \<in> N"
    show "run i s j = (if i \<in> R then run i t j else t j)"
    proof (cases "j \<in> set (touches (effs ! i))")
      case True
      with j cl i have "i \<in> R" "effect_ids (effs ! i) \<subseteq> N" unfolding closed_under_def by blast+
      with local [OF i _ True] Cons.prems(2) show ?thesis by auto
    next
      case False
      with frame [OF i False] Cons.prems(2) j show ?thesis by simp
    qed
  qed
  show ?case
  proof (cases "i \<in> R")
    case True
    with step Cons.IH [of "run i s" "run i t"] Cons.prems show ?thesis by simp
  next
    case False
    with step Cons.IH [of "run i s" t] Cons.prems show ?thesis by simp
  qed
qed simp

lemma unit_effects_keeps:
  assumes "list_all (\<lambda>(_, emitted). list_all single_rename emitted) us" and "catalog_wf c"
    and "unit_effects rn us c = (c', es)"
  shows "catalog_wf c' \<and> length es = length us \<and> length (objects c) \<le> length (objects c')
    \<and> (\<forall>e \<in> set es. effect_ids e \<subseteq> {..<catalog_len c'})"
  using assms
proof (induction rn us c arbitrary: c' es rule: unit_effects.induct)
  case (2 rn oc emitted us c)
  obtain c1 e where a: "(if oc = Committed then apply_unit rn emitted c else (c, effects_default)) = (c1, e)"
    by fastforce
  obtain es' where u: "unit_effects rn us c1 = (c', es')" and es: "es = e # es'"
    using 2(4) by (auto simp: a split: prod.splits)
  have "keeps (c, effects_default) (c1, e)"
    using a keeps_apply_unit [of emitted c rn] 2(2) by (auto split: if_splits)
  with 2(3) have k: "catalog_wf c1" "effects_in (length (objects c1)) e" "length (objects c) \<le> length (objects c1)"
    by (simp_all add: keeps_def)
  have IH: "catalog_wf c' \<and> length es' = length us \<and> length (objects c1) \<le> length (objects c')
      \<and> (\<forall>e \<in> set es'. effect_ids e \<subseteq> {..<catalog_len c'})"
    using 2(1) [OF a [symmetric] refl _ k(1) u] 2(2) by simp
  with effects_in_mono [OF k(2)] have "effect_ids e \<subseteq> {..<catalog_len c'}"
    by (auto simp: effects_in_def effect_ids_def catalog_len_def)
  with IH k es show ?case by simp
qed simp

definition renames_once :: "batch_unit list \<Rightarrow> bool" where
  "renames_once us = list_all (\<lambda>u. list_all single_rename (un_emitted u)) us"

lemma catalog_default_wf [simp]: "catalog_wf catalog_default"
  by (simp add: wf_pending_def map_wf_def catalog_default_def)

lemma batch_effects_keeps:
  assumes "renames_once us" and "batch_effects rn us = (c, effs)"
  shows "catalog_wf c \<and> (\<forall>e \<in> set effs. effect_ids e \<subseteq> {..<catalog_len c})"
proof -
  have "list_all (\<lambda>(_, emitted). list_all single_rename emitted)
      (zip (outcomes (batch_outline us)) (map un_emitted us))"
    using assms(1) by (auto simp: list_all_iff renames_once_def dest!: set_zip_rightD)
  from unit_effects_keeps [OF this catalog_default_wf assms(2) [unfolded batch_effects_def]] show ?thesis by simp
qed



section \<open>Replayed programs\<close>

text \<open>The statements of a program that are not transaction control, with whether a transaction is open.\<close>

fun with_nesting :: "bool \<Rightarrow> statement list \<Rightarrow> (bool \<times> statement) list" where
  "with_nesting opened [] = []"
| "with_nesting opened (s # ss) =
     (if is_control s then with_nesting (case sqlite_nesting opened s of Some o' \<Rightarrow> o' | None \<Rightarrow> opened) ss
      else (opened, s) # with_nesting opened ss)"

text \<open>What each retained unit contributes: its statements on connection-local objects.\<close>

fun replay_pieces ::
  "(nat \<Rightarrow> 'sch \<Rightarrow> connection_error + ('sch \<times> statement list option)) \<Rightarrow> ('sch \<Rightarrow> statement \<Rightarrow> bool)
     \<Rightarrow> (nat \<Rightarrow> statement list) \<Rightarrow> nat list \<Rightarrow> 'sch \<Rightarrow> (nat \<times> statement) list option" where
  "replay_pieces ru loc emitted [] sch = Some []"
| "replay_pieces ru loc emitted (i # is) sch =
     (case ru i sch of
        Inl e \<Rightarrow> None
      | Inr (sch', rebound) \<Rightarrow>
          map_option (\<lambda>rest. map (Pair i) (filter (loc sch') (case rebound of Some ss \<Rightarrow> ss | None \<Rightarrow> emitted i)) @ rest)
            (replay_pieces ru loc emitted is sch'))"

lemma with_nesting_append:
  assumes "list_all (\<lambda>s. \<not> is_control s) ss"
  shows "with_nesting opened (ss @ rest) = map (Pair opened) ss @ with_nesting opened rest"
  using assms by (induction ss) auto

lemma transaction_switch_nesting:
  "with_nesting (opened \<noteq> None) (transaction_switch opened t @ ss) = with_nesting (t \<noteq> None) ss"
  "sqlite_run (opened \<noteq> None) (transaction_switch opened t @ ss) = sqlite_run (t \<noteq> None) ss"
  by (auto simp: transaction_switch_def)

lemma replay_from_nesting:
  assumes "replay_from ru loc txn emitted is opened sch = Inr prog"
    and "replay_pieces ru loc emitted is sch = Some ps"
    and "\<forall>(i, s) \<in> set ps. \<not> is_control s"
  shows "sqlite_run (opened \<noteq> None) prog = Some False
    \<and> with_nesting (opened \<noteq> None) prog = map (\<lambda>(i, s). (txn i \<noteq> None, s)) ps"
  using assms
proof (induction "is" arbitrary: opened sch prog ps)
  case (Cons i "is")
  then obtain sch' rb where ru: "ru i sch = Inr (sch', rb)" by (auto split: sum.splits)
  let ?p = "filter (loc sch') (case rb of Some ss \<Rightarrow> ss | None \<Rightarrow> emitted i)"
  from Cons.prems(1) obtain rest where rest: "replay_from ru loc txn emitted is (txn i) sch' = Inr rest"
    and prog: "prog = transaction_switch opened (txn i) @ ?p @ rest"
    by (auto simp: ru split: sum.splits)
  from Cons.prems(2) obtain ps' where ps': "replay_pieces ru loc emitted is sch' = Some ps'" and ps: "ps = map (Pair i) ?p @ ps'"
    by (auto simp: ru)
  have plain: "list_all (\<lambda>s. \<not> is_control s) ?p" using Cons.prems(3) by (auto simp: ps list_all_iff)
  have "\<forall>(i, s) \<in> set ps'. \<not> is_control s" using Cons.prems(3) by (auto simp: ps)
  note IH = Cons.IH [OF rest ps' this]
  have "sqlite_run (txn i \<noteq> None) (?p @ rest) = sqlite_run (txn i \<noteq> None) rest"
    by (simp add: sqlite_run_append sqlite_run_plain [OF plain])
  with IH show ?case
    unfolding prog ps transaction_switch_nesting with_nesting_append [OF plain] by (simp add: comp_def)
qed auto

section \<open>Properties\<close>

text \<open>Two temporary tables, one of them dropped again, and a row in the other.\<close>

definition sample_units :: "batch_unit list" where
  "sample_units =
     (let name = (\<lambda>s. [Identifier (bare_ident s)]);
          create = (\<lambda>s. CreateTable (CreateTableNode (name s) True False None [] []));
          unit = (\<lambda>s. \<lparr>un_source = s, un_emitted = [s], un_disposition = Translate\<rparr>) in
      [unit (create ''a''), unit (create ''b''), unit (Drop ObjTable [name ''b'']),
       unit (Insert (TableName (name ''a'')) False ''values'')])"

abbreviation no_reads :: "visit_node \<Rightarrow> string list" where
  "no_reads \<equiv> \<lambda>_. []"

lemma sample_units_facts:
  "renames_once sample_units"
  "kept_indices (retention (fst (batch_effects no_reads sample_units)) (snd (batch_effects no_reads sample_units))) = [0, 3]"
  "length (snd (batch_effects no_reads sample_units)) = 4"
  "alive_ids (fst (batch_effects no_reads sample_units)) = [0]"
  by code_simp+

text \<open>
  C14. Over a whole batch the catalog of connection-local objects keeps its invariant (every name
  maps to a live object of its kind, no two names to one object, every live trigger or index on a
  connection object hangs off a live relation), and every object id the effects record is in range,
  so that no lookup of the retention search is out of bounds.
\<close>

theorem batch_catalog_invariant:
  assumes "renames_once us"
  shows "catalog_wf (fst (batch_effects rn us))
    \<and> (\<forall>e \<in> set (snd (batch_effects rn us)). effect_ids e \<subseteq> {..<catalog_len (fst (batch_effects rn us))})"
  using batch_effects_keeps [OF assms, of rn] by (cases "batch_effects rn us") simp

theorem batch_catalog_invariant_witness:
  "renames_once sample_units \<and> catalog_wf (fst (batch_effects no_reads sample_units))"
  using batch_catalog_invariant [OF sample_units_facts(1), of no_reads] sample_units_facts(1) by simp

text \<open>
  The retained units are the least set that contains every unit touching a needed object, where
  the objects alive at the end are needed and whatever a retained unit touches or reads becomes
  needed: the search is closed (the drop of a historical object included) and retains nothing that
  closure does not force.
\<close>

lemma retention_is_the_least_closed_set:
  assumes "renames_once us" and "batch_effects rn us = (c, effs)"
  shows "\<exists>N. set (alive_ids c) \<subseteq> N \<and> closed_under effs N (set (kept_indices (retention c effs)))
    \<and> (\<forall>N' R'. set (alive_ids c) \<subseteq> N' \<longrightarrow> closed_under effs N' R' \<longrightarrow>
         N \<subseteq> N' \<and> set (kept_indices (retention c effs)) \<subseteq> R')"
proof -
  let ?st = "retention_loop effs (retention_start c effs)"
  have rg: "\<forall>e \<in> set effs. effect_ids e \<subseteq> {..<catalog_len c}"
    using batch_effects_keeps [OF assms] by simp
  have kept: "set (kept_indices (retention c effs)) = retained_set ?st"
    by (auto simp: kept_indices_def retained_set_def retention_def)
  from retention_closed [OF rg] show ?thesis
    unfolding kept by (intro exI [of _ "needed_set ?st"]) (auto simp: retention_inv_def)
qed

lemma retention_is_the_least_closed_set_witness:
  "renames_once sample_units
   \<and> kept_indices (retention (fst (batch_effects no_reads sample_units)) (snd (batch_effects no_reads sample_units))) = [0, 3]
   \<and> (\<exists>N. 0 \<in> N \<and> closed_under (snd (batch_effects no_reads sample_units)) N {0, 3})"
  using retention_is_the_least_closed_set [OF sample_units_facts(1) prod.collapse [symmetric], of no_reads]
  unfolding sample_units_facts(2,4) by (auto simp: sample_units_facts)

text \<open>
  C1. Replaying only the retained units rebuilds every surviving connection-local object: whatever
  the units do, as long as a unit changes only objects it touches, and what it does to them depends
  only on the objects it touches and reads, an object alive at the end of the batch has the same
  contents after the retained units alone as after the whole history.
\<close>

theorem retained_units_rebuild_survivors:
  assumes "renames_once us" and "batch_effects rn us = (c, effs)"
    and "\<And>i s j. i < length effs \<Longrightarrow> j \<notin> set (touches (effs ! i)) \<Longrightarrow> run i s j = s j"
    and "\<And>i s t j. i < length effs \<Longrightarrow> (\<forall>k \<in> effect_ids (effs ! i). s k = t k) \<Longrightarrow>
       j \<in> set (touches (effs ! i)) \<Longrightarrow> run i s j = run i t j"
    and "j \<in> set (alive_ids c)"
  shows "fold run (kept_indices (retention c effs)) s j = fold run [0..<length effs] s j"
proof -
  let ?st = "retention_loop effs (retention_start c effs)"
  have rg: "\<forall>e \<in> set effs. effect_ids e \<subseteq> {..<catalog_len c}"
    using batch_effects_keeps [OF assms(1,2)] by simp
  note cl = retention_closed [OF rg]
  then have len: "length (snd ?st) = length effs" and j: "j \<in> needed_set ?st"
    using assms(5) by (auto simp: retention_inv_def)
  have kept: "kept_indices (retention c effs) = filter (\<lambda>i. i \<in> retained_set ?st) [0..<length effs]"
    by (auto simp: kept_indices_def retained_set_def retention_def len intro: filter_cong)
  have "\<forall>j \<in> needed_set ?st. fold run [0..<length effs] s j
      = fold run (filter (\<lambda>i. i \<in> retained_set ?st) [0..<length effs]) s j"
    by (rule slice_agrees [where run = run, OF cl [THEN conjunct2] assms(3,4)]) auto
  with j show ?thesis unfolding kept by simp
qed

theorem retained_units_rebuild_survivors_witness:
  "let effs = snd (batch_effects no_reads sample_units);
       run = (\<lambda>i s j. if j \<in> set (touches (effs ! i)) then s j + i + 1 else s j :: nat) in
   renames_once sample_units
   \<and> fold run [0, 3] (\<lambda>_. 0) 0 = fold run [0..<4] (\<lambda>_. 0) 0"
proof -
  obtain c effs where b: "batch_effects no_reads sample_units = (c, effs)" by fastforce
  let ?run = "\<lambda>i s j. if j \<in> set (touches (effs ! i)) then s j + i + 1 else s j :: nat"
  have "fold ?run (kept_indices (retention c effs)) (\<lambda>_. 0) 0 = fold ?run [0..<length effs] (\<lambda>_. 0) 0"
    using sample_units_facts(4) b
    by (intro retained_units_rebuild_survivors [OF sample_units_facts(1) b]) (auto simp: effect_ids_def)
  with sample_units_facts b show ?thesis by (simp add: Let_def)
qed

text \<open>
  A connection program never writes the database file a second time: when it is produced, no
  retained unit writes a stored table, directly or through a trigger, and when some retained unit
  does, the program is refused, naming the first such statement.
\<close>

lemma connection_program_never_rewrites_the_file:
  assumes "batch_effects rn us = (c, effs)"
  shows "(\<forall>prog. connection_program rn ru loc schema us = Inr prog \<longrightarrow>
      (\<forall>i \<in> set (kept_indices (retention c effs)). \<not> persistent_write (effs ! i)))
   \<and> (\<forall>i. find (\<lambda>i. persistent_write (effs ! i)) (kept_indices (retention c effs)) = Some i \<longrightarrow>
      connection_program rn ru loc schema us = Inl (persistent_write_refusal i))"
proof -
  let ?k = "kept_indices (retention c effs)"
  have ex: "list_ex (\<lambda>k. k) (retention c effs)" if "i \<in> set ?k" for i
  proof -
    from that have "i < length (retention c effs)" "retention c effs ! i" by (simp_all add: kept_indices_def)
    then show ?thesis by (metis list_ex_iff nth_mem)
  qed
  have refused: "connection_program rn ru loc schema us = Inl (persistent_write_refusal i)"
    if "find (\<lambda>i. persistent_write (effs ! i)) ?k = Some i" for i
    using that ex [of i] find_member [OF that] by (simp add: connection_program_def assms Let_def)
  moreover have "\<exists>i. find (\<lambda>i. persistent_write (effs ! i)) ?k = Some i"
    if "i \<in> set ?k" "persistent_write (effs ! i)" for i
    using that by (cases "find (\<lambda>i. persistent_write (effs ! i)) ?k") (auto simp: find_None_iff)
  ultimately show ?thesis by fastforce
qed

lemma connection_program_never_rewrites_the_file_witness:
  "connection_program no_reads (\<lambda>i sch. Inr (sch, None)) (\<lambda>_ _. True) (Inr ())
      (map (\<lambda>s. \<lparr>un_source = s, un_emitted = [s], un_disposition = Translate\<rparr>)
        [CreateTable (CreateTableNode [Identifier (bare_ident ''a'')] True False None [] []),
         CreateTrigger (CreateTriggerNode [Identifier (bare_ident ''g'')] [Identifier (bare_ident ''a'')] True False
           [EventInsert] (Some (BeginEnd [Insert (TableName [Identifier (bare_ident ''log'')]) False ''x'']))),
         Insert (TableName [Identifier (bare_ident ''a'')]) False ''values''])
     = Inl (persistent_write_refusal 2)"
proof -
  let ?us = "map (\<lambda>s. \<lparr>un_source = s, un_emitted = [s], un_disposition = Translate\<rparr>)
        [CreateTable (CreateTableNode [Identifier (bare_ident ''a'')] True False None [] []),
         CreateTrigger (CreateTriggerNode [Identifier (bare_ident ''g'')] [Identifier (bare_ident ''a'')] True False
           [EventInsert] (Some (BeginEnd [Insert (TableName [Identifier (bare_ident ''log'')]) False ''x'']))),
         Insert (TableName [Identifier (bare_ident ''a'')]) False ''values'']"
  obtain c effs where b: "batch_effects no_reads ?us = (c, effs)" by fastforce
  have "find (\<lambda>i. persistent_write (snd (batch_effects no_reads ?us) ! i))
      (kept_indices (retention (fst (batch_effects no_reads ?us)) (snd (batch_effects no_reads ?us)))) = Some 2"
    by code_simp
  then have "find (\<lambda>i. persistent_write (effs ! i)) (kept_indices (retention c effs)) = Some 2"
    unfolding b fst_conv snd_conv .
  then show ?thesis
    using connection_program_never_rewrites_the_file [OF b, of "\<lambda>i sch. Inr (sch, None)" "\<lambda>_ _. True" "Inr ()"] by blast
qed

text \<open>
  The replayed program is well nested for SQLite and ends outside any transaction; stripped of
  \<open>BEGIN\<close> and \<open>COMMIT\<close> it is the retained units' connection-local statements in source order, and a
  statement runs inside a transaction exactly when its source unit was committed by one.
\<close>

lemma replay_is_well_nested:
  assumes "replay_from ru loc txn emitted is None sch = Inr prog"
    and "replay_pieces ru loc emitted is sch = Some ps" and "\<forall>(i, s) \<in> set ps. \<not> is_control s"
  shows "sqlite_run False prog = Some False
    \<and> with_nesting False prog = map (\<lambda>(i, s). (txn i \<noteq> None, s)) ps"
  using replay_from_nesting [OF assms] by simp

lemma replay_is_well_nested_witness:
  "let prog = [StartTransaction, OtherStatement ''a'', OtherStatement ''b'', Commit False, OtherStatement ''c''] in
   sqlite_run False prog = Some False
   \<and> with_nesting False prog = [(True, OtherStatement ''a''), (True, OtherStatement ''b''), (False, OtherStatement ''c'')]"
proof -
  let ?em = "\<lambda>i :: nat. if i = 0 then [OtherStatement ''a''] else if i = 1 then [OtherStatement ''b''] else [OtherStatement ''c'']"
  let ?txn = "\<lambda>i :: nat. if i < 2 then Some (7 :: nat) else None"
  let ?prog = "[StartTransaction, OtherStatement ''a'', OtherStatement ''b'', Commit False, OtherStatement ''c'']"
  let ?ps = "[(0 :: nat, OtherStatement ''a''), (1, OtherStatement ''b''), (2, OtherStatement ''c'')]"
  have "replay_from (\<lambda>i (sch :: unit). Inr (sch, None)) (\<lambda>_ _. True) ?txn ?em [0, 1, 2] None () = Inr ?prog"
    by (simp add: transaction_switch_def)
  moreover have "replay_pieces (\<lambda>i (sch :: unit). Inr (sch, None)) (\<lambda>_ _. True) ?em [0, 1, 2] () = Some ?ps" by simp
  moreover have "\<forall>(i, s) \<in> set ?ps. \<not> is_control s" by simp
  ultimately have "sqlite_run False ?prog = Some False
      \<and> with_nesting False ?prog = map (\<lambda>(i, s). (?txn i \<noteq> None, s)) ?ps"
    by (rule replay_is_well_nested)
  then show ?thesis by (simp add: Let_def)
qed

end
