(* ===== verification/Placement.thy ===== *)
theory Placement
  imports Catalog Saturation File_Sets
begin

text \<open>
  Which database file each emitted object lives in: \<open>src/src/history/placement.rs\<close>.

  The schema crate's tables are \<open>source_table\<close>s: the name, whether it is temporary, and what its
  lookup answers about row-level security. The names a node reads are the parameter \<open>rn\<close>, as in
  theory \<open>Catalog\<close>. A map keyed by folded names is a function into options. Statements are placed by
  returning them changed.
\<close>

section \<open>Inputs and refusals\<close>

record source_table =
  st_name :: string
  st_temporary :: bool
  st_has_rls :: "string + bool"

record attached_tables =
  at_schema :: string
  at_tables :: "string list"

definition attached_contains :: "attached_tables \<Rightarrow> string \<Rightarrow> bool" where
  "attached_contains a table = list_ex (\<lambda>listed. eq_ignore_ascii_case listed table) (at_tables a)"

datatype (plugins only: code size) place_error =
    LookupE string
  | ReservedSchemaName string
  | ListedNotDeclared string string
  | ListedTemporary string string
  | UnqualifiableStatement statement string statement string
  | ListedRenamed string string string
  | ForeignKeyAcross object_name object_name string
  | ForeignKeyAcrossAlter object_name object_name

definition resolve_trigger_table_name :: "string \<Rightarrow> string \<Rightarrow> source_table \<Rightarrow> place_error + string" where
  "resolve_trigger_table_name suffix base_name table =
     (case st_has_rls table of
        Inl e \<Rightarrow> Inl (LookupE e)
      | Inr rls \<Rightarrow> Inr (if rls then base_name @ suffix else base_name))"

section \<open>Homes\<close>

type_synonym homes = "string \<Rightarrow> placement option"

definition key :: "string \<Rightarrow> string" where
  "key name = to_ascii_lowercase name"

definition key_of :: "object_name \<Rightarrow> string" where
  "key_of name = key (last_ident_value_or_display name)"

definition home :: "homes \<Rightarrow> string \<Rightarrow> placement" where
  "home hs name = (case hs (key name) of Some p \<Rightarrow> p | None \<Rightarrow> PlMain)"

definition home_of :: "homes \<Rightarrow> object_name \<Rightarrow> placement" where
  "home_of hs name = (case hs (key_of name) of Some p \<Rightarrow> p | None \<Rightarrow> PlMain)"

definition reads_placed :: "string list \<Rightarrow> homes \<Rightarrow> bool" where
  "reads_placed rs hs = list_ex (\<lambda>name. case hs name of Some p \<Rightarrow> p \<noteq> PlMain | None \<Rightarrow> False) rs"

fun is_transaction_control :: "statement \<Rightarrow> bool" where
  "is_transaction_control StartTransaction = True"
| "is_transaction_control (Commit _) = True"
| "is_transaction_control (Rollback _ _) = True"
| "is_transaction_control (Savepoint _) = True"
| "is_transaction_control (ReleaseSavepoint _) = True"
| "is_transaction_control _ = False"

fun subject_table :: "statement \<Rightarrow> string option" where
  "subject_table (CreateTable ct) = Some (last_ident_value_or_display (ct_name ct))"
| "subject_table (CreateIndex ix) = Some (last_ident_value_or_display (ci_table_name ix))"
| "subject_table (AlterTable n _) = Some (last_ident_value_or_display n)"
| "subject_table _ = None"

section \<open>Attached storage\<close>

fun renames_of :: "statement \<Rightarrow> (object_name \<times> object_name) list" where
  "renames_of (AlterTable n ops) =
     List.map_filter (\<lambda>op. case op of RenameTableTo to \<Rightarrow> Some (n, to) | _ \<Rightarrow> None) ops"
| "renames_of (RenameTable rs) = rs"
| "renames_of _ = []"

definition reject_rename :: "statement \<Rightarrow> attached_tables \<Rightarrow> place_error + unit" where
  "reject_rename input a =
     (case find (\<lambda>(from_name, to_name). attached_contains a (last_ident_value_or_display from_name)
              \<or> attached_contains a (last_ident_value_or_display to_name)) (renames_of input) of
        Some (from_name, to_name) \<Rightarrow> Inl (ListedRenamed (last_ident_value_or_display from_name)
              (last_ident_value_or_display to_name) (at_schema a))
      | None \<Rightarrow> Inr ())"

fun listed_storage :: "string \<Rightarrow> attached_tables \<Rightarrow> source_table list \<Rightarrow> string list \<Rightarrow> place_error + string set" where
  "listed_storage suffix a tables [] = Inr {}"
| "listed_storage suffix a tables (listed # rest) =
     (case find (\<lambda>t. eq_ignore_ascii_case (st_name t) listed) tables of
        None \<Rightarrow> Inl (ListedNotDeclared listed (at_schema a))
      | Some t \<Rightarrow>
          (if st_temporary t then Inl (ListedTemporary listed (at_schema a))
           else case resolve_trigger_table_name suffix (st_name t) t of
             Inl e \<Rightarrow> Inl e
           | Inr physical \<Rightarrow> map_sum id (insert (key physical)) (listed_storage suffix a tables rest)))"

fun storage_of_emitted :: "statement \<Rightarrow> string \<Rightarrow> attached_tables \<Rightarrow> statement list \<Rightarrow> place_error + string set" where
  "storage_of_emitted input subject a [] = Inr {}"
| "storage_of_emitted input subject a (s # ss) =
     (let rest = storage_of_emitted input subject a ss in
      case s of
        CreateTable ct \<Rightarrow> map_sum id (insert (key_of (ct_name ct))) rest
      | CreateVirtualTable n _ _ \<Rightarrow> map_sum id (insert (key_of n)) rest
      | CreateIndex _ \<Rightarrow> rest
      | CreateView _ \<Rightarrow> rest
      | CreateTrigger _ \<Rightarrow> rest
      | AlterTable _ _ \<Rightarrow> rest
      | Drop _ _ \<Rightarrow> rest
      | DropTrigger _ _ \<Rightarrow> rest
      | Insert _ _ _ \<Rightarrow> rest
      | Update _ _ \<Rightarrow> rest
      | Delete _ _ \<Rightarrow> rest
      | other \<Rightarrow> Inl (UnqualifiableStatement input subject other (at_schema a)))"

fun emitted_storage :: "attached_tables \<Rightarrow> (statement \<times> statement list) list \<Rightarrow> place_error + string set" where
  "emitted_storage a [] = Inr {}"
| "emitted_storage a ((input, emitted) # rest) =
     (case reject_rename input a of
        Inl e \<Rightarrow> Inl e
      | Inr _ \<Rightarrow>
          (case subject_table input of
             Some subject \<Rightarrow>
               (if attached_contains a subject then
                  (case storage_of_emitted input subject a emitted of
                     Inl e \<Rightarrow> Inl e
                   | Inr here \<Rightarrow> map_sum id (\<lambda>more. here \<union> more) (emitted_storage a rest))
                else emitted_storage a rest)
           | None \<Rightarrow> emitted_storage a rest))"

definition attached_storage ::
  "string \<Rightarrow> statement list \<Rightarrow> statement list list \<Rightarrow> attached_tables \<Rightarrow> source_table list \<Rightarrow> place_error + string set" where
  "attached_storage suffix inputs translated a tables =
     (let name = at_schema a in
      if name = [] \<or> eq_ignore_ascii_case name ''main'' \<or> eq_ignore_ascii_case name ''temp''
      then Inl (ReservedSchemaName name)
      else case listed_storage suffix a tables (at_tables a) of
        Inl e \<Rightarrow> Inl e
      | Inr listed \<Rightarrow> map_sum id (\<lambda>more. listed \<union> more) (emitted_storage a (zip inputs translated)))"

section \<open>Where every created table, view and index lives\<close>

definition table_home :: "bool \<Rightarrow> string set \<Rightarrow> object_name \<Rightarrow> placement" where
  "table_home temporary storage n =
     (if temporary then PlTemp else if key_of n \<in> storage then PlAttached else PlMain)"

definition home_statement ::
  "(visit_node \<Rightarrow> string list) \<Rightarrow> bool \<Rightarrow> string set \<Rightarrow> statement \<Rightarrow> homes \<times> (string \<times> string list) list
     \<Rightarrow> homes \<times> (string \<times> string list) list" where
  "home_statement rn temporary storage s = (\<lambda>(hs, views).
     (case s of
        CreateTable ct \<Rightarrow>
          (hs(key_of (ct_name ct) \<mapsto> (if ct_temporary ct then PlTemp else table_home temporary storage (ct_name ct))), views)
      | CreateVirtualTable n _ _ \<Rightarrow> (hs(key_of n \<mapsto> table_home temporary storage n), views)
      | CreateView v \<Rightarrow>
          (hs(key_of (cv_name v) \<mapsto> (if cv_temporary v then PlTemp else PlMain)),
           views @ [(key_of (cv_name v), rn (NodeQuery (cv_query v)))])
      | _ \<Rightarrow> (hs, views)))"

definition subject_is_temporary :: "source_table list \<Rightarrow> statement \<Rightarrow> bool" where
  "subject_is_temporary tables input = (case subject_table input of
     None \<Rightarrow> False
   | Some subject \<Rightarrow> list_ex (\<lambda>t. eq_ignore_ascii_case (st_name t) subject \<and> st_temporary t) tables)"

definition home_unit ::
  "(visit_node \<Rightarrow> string list) \<Rightarrow> source_table list \<Rightarrow> string set \<Rightarrow> statement \<times> statement list
     \<Rightarrow> homes \<times> (string \<times> string list) list \<Rightarrow> homes \<times> (string \<times> string list) list" where
  "home_unit rn tables storage = (\<lambda>(input, emitted) st.
     fold (home_statement rn (subject_is_temporary tables input) storage) emitted st)"

fun home_index :: "statement \<Rightarrow> homes \<Rightarrow> homes" where
  "home_index (CreateIndex ix) hs = (case ci_name ix of
     Some n \<Rightarrow> hs(key_of n \<mapsto> (case hs (key_of (ci_table_name ix)) of Some p \<Rightarrow> p | None \<Rightarrow> PlMain))
   | None \<Rightarrow> hs)"
| "home_index _ hs = hs"

definition close_view :: "string \<times> string list \<Rightarrow> homes \<times> bool \<Rightarrow> homes \<times> bool" where
  "close_view = (\<lambda>(name, rs) (hs, grew).
     if hs name \<noteq> Some PlTemp \<and> reads_placed rs hs then (hs(name \<mapsto> PlTemp), True) else (hs, grew))"

definition close_pass :: "(string \<times> string list) list \<Rightarrow> homes \<Rightarrow> homes \<times> bool" where
  "close_pass views hs = fold close_view views (hs, False)"

definition open_views :: "(string \<times> string list) list \<Rightarrow> homes \<Rightarrow> nat" where
  "open_views views hs = length (filter (\<lambda>(name, _). hs name \<noteq> Some PlTemp) views)"

lemma close_view_cases:
  assumes "close_view v (hs, grew) = (hs', grew')"
  shows "(hs' = hs \<and> grew' = grew) \<or> (hs' = hs(fst v \<mapsto> PlTemp) \<and> grew' \<and> hs (fst v) \<noteq> Some PlTemp)"
  using assms by (auto simp: close_view_def split: prod.splits if_splits)

lemma open_views_upd: "open_views views (hs(k \<mapsto> PlTemp)) \<le> open_views views hs"
  by (induction views) (auto simp: open_views_def split: if_splits)

lemma open_views_upd_less:
  "(k, rs) \<in> set views \<Longrightarrow> hs k \<noteq> Some PlTemp \<Longrightarrow> open_views views (hs(k \<mapsto> PlTemp)) < open_views views hs"
proof (induction views)
  case (Cons v views)
  have "open_views views (hs(k \<mapsto> PlTemp)) \<le> open_views views hs" by (rule open_views_upd)
  with Cons show ?case by (cases v) (auto simp: open_views_def split: if_splits)
qed simp

lemma close_views_rank:
  assumes "fold close_view vs (hs, grew) = (hs', grew')" and "set vs \<subseteq> set views"
  shows "open_views views hs' \<le> open_views views hs
    \<and> (grew' \<and> \<not> grew \<longrightarrow> open_views views hs' < open_views views hs) \<and> (\<not> grew' \<longrightarrow> hs' = hs \<and> \<not> grew)"
  using assms
proof (induction vs arbitrary: hs grew)
  case (Cons v vs)
  obtain h1 g1 where v: "close_view v (hs, grew) = (h1, g1)" by (metis surj_pair)
  obtain n rs where n: "v = (n, rs)" by (cases v)
  with Cons.prems(2) have "(n, rs) \<in> set views" by simp
  then have step: "open_views views h1 \<le> open_views views hs \<and> (g1 \<and> \<not> grew \<longrightarrow> open_views views h1 < open_views views hs)
      \<and> (\<not> g1 \<longrightarrow> h1 = hs \<and> \<not> grew) \<and> (grew \<longrightarrow> g1)"
    using close_view_cases [OF v] open_views_upd_less [of n rs views hs] n by (auto simp: less_imp_le)
  have "fold close_view vs (h1, g1) = (hs', grew')" using Cons.prems(1) v by simp
  with Cons.IH [of h1 g1] step Cons.prems(2) show ?case by auto
qed auto

function close_views :: "(string \<times> string list) list \<Rightarrow> homes \<Rightarrow> homes" where
  "close_views views hs = (let (hs', grew) = close_pass views hs in if grew then close_views views hs' else hs')"
  by pat_completeness auto

termination close_views
proof (relation "measure (\<lambda>(views, hs). open_views views hs)")
  fix views :: "(string \<times> string list) list" and hs hs' :: homes and p grew
  show "((views, hs'), views, hs) \<in> measure (\<lambda>(views, hs). open_views views hs)"
    if "p = close_pass views hs" "(hs', grew) = p" grew
    using that close_views_rank [of views hs False hs' True views] by (simp add: close_pass_def)
qed simp

declare close_views.simps [simp del]

definition homes_and_views ::
  "(visit_node \<Rightarrow> string list) \<Rightarrow> statement list \<Rightarrow> statement list list \<Rightarrow> source_table list \<Rightarrow> string set
     \<Rightarrow> homes \<times> (string \<times> string list) list" where
  "homes_and_views rn inputs translated tables storage =
     (let (hs, views) = fold (home_unit rn tables storage) (zip inputs translated) ((\<lambda>_. None), []) in
      (fold home_index (concat translated) hs, views))"

definition homes_of_batch ::
  "(visit_node \<Rightarrow> string list) \<Rightarrow> statement list \<Rightarrow> statement list list \<Rightarrow> source_table list \<Rightarrow> string set \<Rightarrow> homes" where
  "homes_of_batch rn inputs translated tables storage =
     (let (hs, views) = homes_and_views rn inputs translated tables storage in close_views views hs)"

section \<open>Placing a statement\<close>

fun factor_name :: "table_factor \<Rightarrow> object_name option" where
  "factor_name (FactorTable n) = Some n"
| "factor_name FactorOther = None"

fun primary_write_target :: "statement \<Rightarrow> object_name option" where
  "primary_write_target (Insert table _ _) = (case table of TableName n \<Rightarrow> Some n | _ \<Rightarrow> None)"
| "primary_write_target (Update table _) = factor_name table"
| "primary_write_target (Delete tables _) = (case tables of [] \<Rightarrow> None | t # _ \<Rightarrow> factor_name t)"
| "primary_write_target (Query (QueryNode _ (SetInsert s))) = primary_write_target s"
| "primary_write_target (Query (QueryNode _ (SetUpdate s))) = primary_write_target s"
| "primary_write_target (Query (QueryNode _ (SetDelete s))) = primary_write_target s"
| "primary_write_target (Query (QueryNode _ (SetMerge s))) = primary_write_target s"
| "primary_write_target (Query (QueryNode _ SetOther)) = None"
| "primary_write_target _ = None"

definition write_home :: "homes \<Rightarrow> homes \<Rightarrow> statement \<Rightarrow> placement" where
  "write_home hs logical s = (case primary_write_target s of
     None \<Rightarrow> PlMain
   | Some n \<Rightarrow> (case logical (key_of n) of Some p \<Rightarrow> p | None \<Rightarrow> home_of hs n))"

fun statement_placement :: "(visit_node \<Rightarrow> string list) \<Rightarrow> homes \<Rightarrow> homes \<Rightarrow> homes \<Rightarrow> statement \<Rightarrow> placement" where
  "statement_placement rn hs logical th (CreateTrigger tg) =
     (if home_of hs (tr_table_name tg) = PlMain \<and> \<not> tr_temporary tg \<and> \<not> reads_placed (rn (NodeTrigger tg)) hs
      then PlMain else PlTemp)"
| "statement_placement rn hs logical th (CreateTable ct) = home_of hs (ct_name ct)"
| "statement_placement rn hs logical th (CreateVirtualTable n _ _) = home_of hs n"
| "statement_placement rn hs logical th (CreateIndex ix) = home_of hs (ci_table_name ix)"
| "statement_placement rn hs logical th (AlterTable n _) = home_of hs n"
| "statement_placement rn hs logical th (CreateView v) = home_of hs (cv_name v)"
| "statement_placement rn hs logical th (Drop ty ns) =
     (if ty = ObjTable \<or> ty = ObjView \<or> ty = ObjIndex
      then (case ns of [] \<Rightarrow> PlMain | n # _ \<Rightarrow> home_of hs n)
      else write_home hs logical (Drop ty ns))"
| "statement_placement rn hs logical th (DropTrigger n _) =
     (case th (key_of n) of Some p \<Rightarrow> p | None \<Rightarrow> PlMain)"
| "statement_placement rn hs logical th s = write_home hs logical s"

definition is_connection_local :: "(visit_node \<Rightarrow> string list) \<Rightarrow> homes \<Rightarrow> homes \<Rightarrow> homes \<Rightarrow> statement \<Rightarrow> bool" where
  "is_connection_local rn hs logical th s \<longleftrightarrow> statement_placement rn hs logical th s = PlTemp"

definition qualified_name :: "object_name \<Rightarrow> string \<Rightarrow> object_name" where
  "qualified_name n schema = Identifier (quoted_ident schema) # (if n = [] then [] else [last n])"

definition qualify_if_attached :: "string \<Rightarrow> placement \<Rightarrow> object_name \<Rightarrow> object_name" where
  "qualify_if_attached schema p n = (if p = PlAttached then qualified_name n schema else n)"

definition qualify_placed :: "string \<Rightarrow> placement \<Rightarrow> object_name \<Rightarrow> object_name" where
  "qualify_placed schema p n = (case p of
     PlAttached \<Rightarrow> qualified_name n schema | PlTemp \<Rightarrow> qualified_name n ''temp'' | PlMain \<Rightarrow> n)"

definition foreign_parents :: "create_table \<Rightarrow> object_name list" where
  "foreign_parents ct =
     List.map_filter (\<lambda>opt. case opt of ColForeignKey n \<Rightarrow> Some n | _ \<Rightarrow> None) (concat (ct_columns ct))
     @ List.map_filter (\<lambda>con. case con of ConForeignKey n \<Rightarrow> Some n | _ \<Rightarrow> None) (ct_constraints ct)"

definition is_attached :: "homes \<Rightarrow> object_name \<Rightarrow> bool" where
  "is_attached hs n \<longleftrightarrow> hs (key_of n) = Some PlAttached"

definition reject_foreign_keys_across :: "create_table \<Rightarrow> string \<Rightarrow> homes \<Rightarrow> place_error + unit" where
  "reject_foreign_keys_across ct schema hs =
     (case find (\<lambda>parent. is_attached hs parent \<noteq> is_attached hs (ct_name ct)) (foreign_parents ct) of
        Some parent \<Rightarrow> Inl (ForeignKeyAcross (ct_name ct) parent schema)
      | None \<Rightarrow> Inr ())"

definition added_foreign_keys :: "alter_table_operation list \<Rightarrow> object_name list" where
  "added_foreign_keys ops = concat (map (\<lambda>op. case op of
     AddColumn opts \<Rightarrow> List.map_filter (\<lambda>opt. case opt of ColForeignKey n \<Rightarrow> Some n | _ \<Rightarrow> None) opts
   | _ \<Rightarrow> []) ops)"

definition place_trigger :: "homes \<Rightarrow> string \<Rightarrow> placement \<Rightarrow> create_trigger \<Rightarrow> create_trigger" where
  "place_trigger hs schema p tg =
     (if p = PlTemp then
        (let table = (case home_of hs (tr_table_name tg) of
             PlMain \<Rightarrow> qualified_name (tr_table_name tg) ''main''
           | PlAttached \<Rightarrow> qualified_name (tr_table_name tg) schema
           | PlTemp \<Rightarrow> tr_table_name tg) in
         CreateTriggerNode (tr_name tg) table True (tr_or_replace tg) (tr_events tg) (tr_statements tg))
      else tg)"

fun place_statement ::
  "(visit_node \<Rightarrow> string list) \<Rightarrow> string \<Rightarrow> homes \<Rightarrow> homes \<Rightarrow> homes \<Rightarrow> statement
     \<Rightarrow> place_error + (placement \<times> statement \<times> homes)" where
  "place_statement rn schema hs logical th (CreateTrigger tg) =
     (let p = statement_placement rn hs logical th (CreateTrigger tg);
          tg' = place_trigger hs schema p tg;
          k = key_of (tr_name tg) in
      Inr (p, CreateTrigger tg', if th k = None then th(k \<mapsto> p) else th))"
| "place_statement rn schema hs logical th (CreateTable ct) =
     (let p = statement_placement rn hs logical th (CreateTable ct) in
      case reject_foreign_keys_across ct schema hs of
        Inl e \<Rightarrow> Inl e
      | Inr _ \<Rightarrow> Inr (p, CreateTable (CreateTableNode (qualify_if_attached schema p (ct_name ct))
            (ct_temporary ct \<or> p = PlTemp) (ct_if_not_exists ct) (ct_query ct) (ct_columns ct) (ct_constraints ct)), th))"
| "place_statement rn schema hs logical th (CreateVirtualTable n ine module) =
     (let p = home_of hs n in Inr (p, CreateVirtualTable (qualify_placed schema p n) ine module, th))"
| "place_statement rn schema hs logical th (CreateIndex ix) =
     (let p = home_of hs (ci_table_name ix) in
      Inr (p, CreateIndex (ix\<lparr>ci_name := map_option (qualify_placed schema p) (ci_name ix)\<rparr>), th))"
| "place_statement rn schema hs logical th (AlterTable n ops) =
     (let p = home_of hs n in
      case find (\<lambda>f. (home_of hs f = PlAttached) \<noteq> (p = PlAttached)) (added_foreign_keys ops) of
        Some f \<Rightarrow> Inl (ForeignKeyAcrossAlter n f)
      | None \<Rightarrow> Inr (p, AlterTable (qualify_if_attached schema p n) ops, th))"
| "place_statement rn schema hs logical th (CreateView v) =
     (let p = home_of hs (cv_name v) in
      Inr (p, CreateView (if p = PlTemp then CreateViewNode (cv_name v) True (cv_or_replace v) (cv_query v) else v), th))"
| "place_statement rn schema hs logical th (Drop ty ns) =
     (let p = statement_placement rn hs logical th (Drop ty ns) in
      if ty = ObjTable \<or> ty = ObjView \<or> ty = ObjIndex
      then Inr (p, Drop ty (map (qualify_if_attached schema p) ns), th)
      else Inr (p, Drop ty ns, th))"
| "place_statement rn schema hs logical th s = Inr (statement_placement rn hs logical th s, s, th)"

section \<open>Placing the units of a batch\<close>

fun place_statements ::
  "(visit_node \<Rightarrow> string list) \<Rightarrow> string \<Rightarrow> homes \<Rightarrow> homes \<Rightarrow> homes \<Rightarrow> statement list
     \<Rightarrow> place_error + (placement list \<times> statement list \<times> homes)" where
  "place_statements rn schema hs logical th [] = Inr ([], [], th)"
| "place_statements rn schema hs logical th (s # ss) =
     (case place_statement rn schema hs logical th s of
        Inl e \<Rightarrow> Inl e
      | Inr (p, s', th') \<Rightarrow>
          map_sum id (\<lambda>(ps, ss', th''). (p # ps, s' # ss', th'')) (place_statements rn schema hs logical th' ss))"

definition unit_files ::
  "(visit_node \<Rightarrow> string list) \<Rightarrow> statement \<Rightarrow> statement list \<Rightarrow> string \<Rightarrow> homes \<Rightarrow> homes \<Rightarrow> homes
     \<Rightarrow> place_error + (files \<times> statement list \<times> homes)" where
  "unit_files rn source emitted schema hs logical th =
     (if is_transaction_control source then Inr (files_union FILES_MAIN FILES_ATTACHED, emitted, th)
      else case place_statements rn schema hs logical th emitted of
        Inl e \<Rightarrow> Inl e
      | Inr (ps, emitted', th') \<Rightarrow>
          (let touches_main = PlMain \<in> set ps; touches_attached = PlAttached \<in> set ps;
               f1 = (if \<not> touches_attached then files_union files_default FILES_MAIN else files_default);
               f2 = (if \<not> touches_main then files_union f1 FILES_ATTACHED else f1) in
           Inr (f2, emitted', th')))"

record placed =
  pl_homes :: homes
  pl_attached_configured :: bool
  pl_unit_files :: "files list"
  pl_logical_storage :: homes
  pl_trigger_homes :: homes
  pl_attached_schema :: string

definition home_table :: "string \<Rightarrow> string set \<Rightarrow> source_table \<Rightarrow> place_error + homes \<times> homes \<Rightarrow> place_error + homes \<times> homes" where
  "home_table suffix storage t st =
     (case st of Inl e \<Rightarrow> Inl e
      | Inr (hs, logical) \<Rightarrow>
          (case resolve_trigger_table_name suffix (st_name t) t of
             Inl e \<Rightarrow> Inl e
           | Inr physical \<Rightarrow>
               (let pk = key physical;
                    p = (case hs pk of Some p \<Rightarrow> p
                      | None \<Rightarrow> if st_temporary t then PlTemp else if pk \<in> storage then PlAttached else PlMain) in
                Inr (hs(pk \<mapsto> p), logical(key (st_name t) \<mapsto> p)))))"

fun place_units ::
  "(visit_node \<Rightarrow> string list) \<Rightarrow> string \<Rightarrow> homes \<Rightarrow> homes \<Rightarrow> homes \<Rightarrow> (statement \<times> statement list) list
     \<Rightarrow> place_error + (files list \<times> statement list list \<times> homes)" where
  "place_units rn schema hs logical th [] = Inr ([], [], th)"
| "place_units rn schema hs logical th ((source, emitted) # us) =
     (case unit_files rn source emitted schema hs logical th of
        Inl e \<Rightarrow> Inl e
      | Inr (f, emitted', th') \<Rightarrow>
          map_sum id (\<lambda>(fs, es, th''). (f # fs, emitted' # es, th'')) (place_units rn schema hs logical th' us))"

definition place ::
  "(visit_node \<Rightarrow> string list) \<Rightarrow> string \<Rightarrow> attached_tables option \<Rightarrow> source_table list \<Rightarrow> statement list
     \<Rightarrow> statement list list \<Rightarrow> place_error + (placed \<times> statement list list)" where
  "place rn suffix attached tables sources emitted =
     (case (case attached of None \<Rightarrow> Inr {} | Some a \<Rightarrow> attached_storage suffix sources emitted a tables) of
        Inl e \<Rightarrow> Inl e
      | Inr storage \<Rightarrow>
          (case fold (home_table suffix storage) tables
                  (Inr (homes_of_batch rn sources emitted tables storage, \<lambda>_. None)) of
             Inl e \<Rightarrow> Inl e
           | Inr (hs, logical) \<Rightarrow>
               (let schema = (case attached of None \<Rightarrow> [] | Some a \<Rightarrow> at_schema a) in
                map_sum id (\<lambda>(fs, es, th).
                  (\<lparr>pl_homes = hs, pl_attached_configured = (attached \<noteq> None), pl_unit_files = fs,
                    pl_logical_storage = logical, pl_trigger_homes = th, pl_attached_schema = schema\<rparr>, es))
                  (place_units rn schema hs logical (\<lambda>_. None) (zip sources emitted)))))"

definition place_rebound :: "(visit_node \<Rightarrow> string list) \<Rightarrow> placed \<Rightarrow> statement \<Rightarrow> place_error + (placement \<times> statement \<times> placed)" where
  "place_rebound rn pl s =
     map_sum id (\<lambda>(p, s', th). (p, s', pl\<lparr>pl_trigger_homes := th\<rparr>))
       (place_statement rn (pl_attached_schema pl) (pl_homes pl) (pl_logical_storage pl) (pl_trigger_homes pl) s)"

section \<open>Views are closed over placed relations\<close>

interpretation closing: saturation "close_pass views" "close_views views" "\<lambda>_. True" "open_views views" for views
proof
  fix hs :: homes
  obtain hs' grew where p: "close_pass views hs = (hs', grew)" by (metis surj_pair)
  note rank = close_views_rank [of views hs False hs' grew views]
  show "close_views views hs = (if snd (close_pass views hs) then close_views views (fst (close_pass views hs))
      else fst (close_pass views hs))"
    by (subst close_views.simps) (simp add: split_beta)
  show "open_views views (fst (close_pass views hs)) < open_views views hs" if "snd (close_pass views hs)"
    using that rank p by (simp add: close_pass_def)
  show "fst (close_pass views hs) = hs" if "\<not> snd (close_pass views hs)"
    using that rank p by (simp add: close_pass_def)
qed simp

lemma quiet_close:
  assumes "fold close_view vs (hs, False) = (hs, False)" and "(n, rs) \<in> set vs"
  shows "hs n = Some PlTemp \<or> \<not> reads_placed rs hs"
  using assms
proof (induction vs)
  case (Cons v vs)
  obtain h1 g1 where v: "close_view v (hs, False) = (h1, g1)" by (metis surj_pair)
  have f: "fold close_view vs (h1, g1) = (hs, False)" using Cons.prems(1) v by simp
  from close_views_rank [OF f subset_refl] have q: "h1 = hs" "\<not> g1" by auto
  show ?case
  proof (cases "(n, rs) = v")
    case True
    with v q show ?thesis by (auto simp: close_view_def split: if_splits)
  next
    case False
    with Cons f q show ?thesis by simp
  qed
qed simp

text \<open>The closure from below: what a set of names forced to \<open>temp\<close> must contain.\<close>

definition forced :: "(string \<times> string list) list \<Rightarrow> homes \<Rightarrow> string set \<Rightarrow> bool" where
  "forced views hs T \<longleftrightarrow> (\<forall>(n, rs) \<in> set views.
     reads_placed rs (\<lambda>k. if k \<in> T then Some PlTemp else hs k) \<longrightarrow> n \<in> T)"

definition below :: "(string \<times> string list) list \<Rightarrow> homes \<Rightarrow> string set \<Rightarrow> homes \<Rightarrow> bool" where
  "below views hs T hs' \<longleftrightarrow> (\<forall>k. hs' k = hs k \<or> (hs' k = Some PlTemp \<and> k \<in> T \<and> k \<in> fst ` set views))"

lemma reads_placed_mono:
  assumes "reads_placed rs hs" and "\<And>k p. hs k = Some p \<Longrightarrow> p \<noteq> PlMain \<Longrightarrow> \<exists>q. hs' k = Some q \<and> q \<noteq> PlMain"
  shows "reads_placed rs hs'"
  using assms by (fastforce simp: reads_placed_def list_ex_iff split: option.splits)

lemma close_view_below:
  assumes "below views hs T h1" and "forced views hs T" and "v \<in> set views"
  shows "below views hs T (fst (close_view v (h1, g)))"
proof -
  obtain n rs where v: "v = (n, rs)" by (cases v)
  show ?thesis
  proof (cases "h1 n \<noteq> Some PlTemp \<and> reads_placed rs h1")
    case True
    then have "reads_placed rs (\<lambda>k. if k \<in> T then Some PlTemp else hs k)"
    proof (rule reads_placed_mono [OF conjunct2])
      fix k p
      assume "h1 k = Some p" "p \<noteq> PlMain"
      then show "\<exists>q. (if k \<in> T then Some PlTemp else hs k) = Some q \<and> q \<noteq> PlMain"
        using assms(1) unfolding below_def by (cases "k \<in> T") (simp, metis)
    qed
    with assms(2,3) v have "n \<in> T" by (auto simp: forced_def)
    moreover have "n \<in> fst ` set views" using assms(3) v by force
    ultimately show ?thesis using assms(1) True by (auto simp: close_view_def v below_def)
  qed (use assms in \<open>auto simp: close_view_def v\<close>)
qed

lemma close_pass_below:
  assumes "forced views hs T" and "below views hs T h1"
  shows "below views hs T (fst (close_pass views h1))"
proof -
  have "below views hs T (fst (fold close_view vs (h1, g)))" if "set vs \<subseteq> set views" "below views hs T h1" for vs h1 g
    using that
  proof (induction vs arbitrary: h1 g)
    case (Cons v vs)
    obtain h2 g2 where v: "close_view v (h1, g) = (h2, g2)" by (metis surj_pair)
    have "below views hs T h2"
      using close_view_below [OF Cons.prems(2) assms(1), of v g] Cons.prems(1) v by simp
    with Cons v show ?case by simp
  qed simp
  with assms(2) show ?thesis by (simp add: close_pass_def)
qed

lemma close_views_spec:
  "(n, rs) \<in> set views \<Longrightarrow> reads_placed rs (close_views views hs) \<Longrightarrow> close_views views hs n = Some PlTemp"
  "forced views hs T \<Longrightarrow> below views hs T (close_views views hs)"
proof -
  have "close_pass views (close_views views hs) = (close_views views hs, False)"
    by (rule closing.loop_fixed) simp
  then show "(n, rs) \<in> set views \<Longrightarrow> reads_placed rs (close_views views hs) \<Longrightarrow> close_views views hs n = Some PlTemp"
    using quiet_close [of views] by (auto simp: close_pass_def)
  show "below views hs T (close_views views hs)" if "forced views hs T"
    using closing.loop_induct [where s = hs and P = "below views hs T" and views = views] close_pass_below [OF that]
    by (simp add: below_def)
qed

section \<open>Qualification keeps the key\<close>

definition ends_in_ident :: "object_name \<Rightarrow> bool" where
  "ends_in_ident n \<longleftrightarrow> last_ident n \<noteq> None"

lemma key_of_qualified [simp]: "ends_in_ident n \<Longrightarrow> key_of (qualified_name n s) = key_of n"
  by (auto simp: key_of_def qualified_name_def ends_in_ident_def last_ident_value_or_display_def last_ident_def)

lemma ends_in_ident_qualified [simp]: "ends_in_ident n \<Longrightarrow> ends_in_ident (qualified_name n s)"
  by (auto simp: qualified_name_def ends_in_ident_def last_ident_def)

lemma key_of_qualify [simp]:
  "ends_in_ident n \<Longrightarrow> key_of (qualify_if_attached s p n) = key_of n"
  "ends_in_ident n \<Longrightarrow> key_of (qualify_placed s p n) = key_of n"
  by (auto simp: qualify_if_attached_def qualify_placed_def split: placement.split)

lemma qualify_twice [simp]:
  "n \<noteq> [] \<Longrightarrow> qualified_name (qualified_name n s') s = qualified_name n s"
  "n \<noteq> [] \<Longrightarrow> qualify_if_attached s p (qualify_if_attached s p n) = qualify_if_attached s p n"
  "n \<noteq> [] \<Longrightarrow> qualify_placed s p (qualify_placed s p n) = qualify_placed s p n"
  by (auto simp: qualified_name_def qualify_if_attached_def qualify_placed_def split: placement.split)

lemma ends_in_ident_nonempty [simp]: "ends_in_ident n \<Longrightarrow> n \<noteq> []"
  by (auto simp: ends_in_ident_def)

lemma home_of_qualify [simp]:
  "ends_in_ident n \<Longrightarrow> home_of hs (qualified_name n s) = home_of hs n"
  "ends_in_ident n \<Longrightarrow> home_of hs (qualify_if_attached s p n) = home_of hs n"
  "ends_in_ident n \<Longrightarrow> home_of hs (qualify_placed s p n) = home_of hs n"
  by (simp_all add: home_of_def)

text \<open>The object a statement creates or changes is named by an identifier.\<close>

fun named_by_idents :: "statement \<Rightarrow> bool" where
  "named_by_idents (CreateTrigger tg) = ends_in_ident (tr_table_name tg)"
| "named_by_idents (CreateTable ct) = ends_in_ident (ct_name ct)"
| "named_by_idents (CreateVirtualTable n _ _) = ends_in_ident n"
| "named_by_idents (AlterTable n _) = ends_in_ident n"
| "named_by_idents (CreateIndex ix) = (case ci_name ix of None \<Rightarrow> True | Some n \<Rightarrow> n \<noteq> [])"
| "named_by_idents (Drop _ ns) = list_all ends_in_ident ns"
| "named_by_idents _ = True"

lemma place_statements_length:
  "place_statements rn schema hs logical th ss = Inr (ps, ss', th') \<Longrightarrow> length ps = length ss \<and> length ss' = length ss"
  by (induction ss arbitrary: th ps ss' th') (auto split: sum.splits prod.splits simp: map_sum_def)

section \<open>The emitted views\<close>

text \<open>A relation lives elsewhere when its home is not the main file, and a view also when it reads, directly or
  through other views, a relation that does.\<close>

inductive elsewhere :: "(string \<times> string list) list \<Rightarrow> homes \<Rightarrow> string \<Rightarrow> bool" for views hs where
  placed: "hs r = Some p \<Longrightarrow> p \<noteq> PlMain \<Longrightarrow> elsewhere views hs r"
| through: "(n, rs) \<in> set views \<Longrightarrow> r \<in> set rs \<Longrightarrow> elsewhere views hs r \<Longrightarrow> elsewhere views hs n"

definition reads_elsewhere :: "(string \<times> string list) list \<Rightarrow> homes \<Rightarrow> string \<Rightarrow> bool" where
  "reads_elsewhere views hs n \<longleftrightarrow> (\<exists>rs r. (n, rs) \<in> set views \<and> r \<in> set rs \<and> elsewhere views hs r)"

lemma reads_placed_iff: "reads_placed rs hs \<longleftrightarrow> (\<exists>r \<in> set rs. \<exists>p. hs r = Some p \<and> p \<noteq> PlMain)"
  by (auto simp: reads_placed_def list_ex_iff split: option.splits)

lemma closed_keeps_placed:
  "hs r = Some p \<Longrightarrow> p \<noteq> PlMain \<Longrightarrow> \<exists>q. close_views views hs r = Some q \<and> q \<noteq> PlMain"
proof -
  have "below views hs UNIV (close_views views hs)" by (intro close_views_spec(2)) (simp add: forced_def split: prod.splits)
  then show "hs r = Some p \<Longrightarrow> p \<noteq> PlMain \<Longrightarrow> \<exists>q. close_views views hs r = Some q \<and> q \<noteq> PlMain"
    unfolding below_def by (metis placement.distinct(3))
qed

lemma elsewhere_closed: "elsewhere views hs r \<Longrightarrow> \<exists>p. close_views views hs r = Some p \<and> p \<noteq> PlMain"
proof (induction rule: elsewhere.induct)
  case (through n rs r)
  then have "close_views views hs n = Some PlTemp" by (intro close_views_spec(1)) (auto simp: reads_placed_iff)
  then show ?case by simp
qed (rule closed_keeps_placed)

lemma closed_views:
  "close_views views hs n = (if reads_elsewhere views hs n then Some PlTemp else hs n)"
proof -
  let ?T = "{n. reads_elsewhere views hs n}"
  have "elsewhere views hs r" if "r \<in> ?T" for r
    using that by (auto simp: reads_elsewhere_def intro: elsewhere.through)
  then have "forced views hs ?T"
    by (fastforce simp: forced_def reads_placed_iff reads_elsewhere_def intro: elsewhere.placed split: if_splits)
  then have "close_views views hs n = hs n \<or> close_views views hs n = Some PlTemp \<and> n \<in> ?T"
    using close_views_spec(2) unfolding below_def by blast
  moreover have "close_views views hs n = Some PlTemp" if reads: "reads_elsewhere views hs n"
  proof -
    obtain rs r where "(n, rs) \<in> set views" "r \<in> set rs" "elsewhere views hs r" using reads by (auto simp: reads_elsewhere_def)
    then show ?thesis using elsewhere_closed [of views hs r] by (intro close_views_spec(1)) (auto simp: reads_placed_iff)
  qed
  ultimately show ?thesis by auto
qed

text \<open>The tables of the schema change no home but to the main file, when those the batch does not create live there.\<close>

definition starts_in_main :: "string \<Rightarrow> string set \<Rightarrow> homes \<Rightarrow> source_table \<Rightarrow> bool" where
  "starts_in_main suffix storage hs t \<longleftrightarrow> (\<forall>physical. resolve_trigger_table_name suffix (st_name t) t = Inr physical \<longrightarrow>
     hs (key physical) \<noteq> None \<or> \<not> st_temporary t \<and> key physical \<notin> storage)"

lemma home_table_failed:
  "home_table suffix storage t (Inl e) = Inl e"
  "resolve_trigger_table_name suffix (st_name t) t = Inl e \<Longrightarrow> home_table suffix storage t (Inr st) = Inl e"
  by (simp_all add: home_table_def split: prod.splits)

lemma home_tables_failed: "fold (home_table suffix storage) ts (Inl e) = Inl e"
  by (induction ts) (simp_all add: home_table_failed)

lemma home_tables:
  assumes "fold (home_table suffix storage) ts (Inr (hs, lg)) = Inr (hs', lg')" and "\<forall>t \<in> set ts. starts_in_main suffix storage hs t"
  shows "hs' k = hs k \<or> hs k = None \<and> hs' k = Some PlMain"
  using assms
proof (induction ts arbitrary: hs lg)
  case (Cons t ts)
  obtain physical where r: "resolve_trigger_table_name suffix (st_name t) t = Inr physical"
    using Cons.prems(1) by (cases "resolve_trigger_table_name suffix (st_name t) t") (simp_all add: home_table_failed home_tables_failed)
  define hs1 where "hs1 = hs(key physical \<mapsto> (case hs (key physical) of Some p \<Rightarrow> p | None \<Rightarrow> PlMain))"
  have "starts_in_main suffix storage hs t" using Cons.prems(2) by simp
  then have "home_table suffix storage t (Inr (hs, lg)) = Inr (hs1, lg(key (st_name t) \<mapsto> (case hs (key physical) of Some p \<Rightarrow> p | None \<Rightarrow> PlMain)))"
    using r by (auto simp: home_table_def hs1_def starts_in_main_def Let_def split: option.splits)
  with Cons.prems(1) have f: "fold (home_table suffix storage) ts (Inr (hs1, lg(key (st_name t) \<mapsto> (case hs (key physical) of Some p \<Rightarrow> p | None \<Rightarrow> PlMain)))) = Inr (hs', lg')"
    by simp
  have grow: "hs1 q = hs q \<or> hs q = None \<and> hs1 q = Some PlMain" for q by (auto simp: hs1_def split: option.splits)
  have "starts_in_main suffix storage hs1 u" if "u \<in> set ts" for u
    using Cons.prems(2) that grow unfolding starts_in_main_def by (metis list.set_intros(2) option.distinct(1))
  then have "\<forall>t \<in> set ts. starts_in_main suffix storage hs1 t" by blast
  from Cons.IH [OF f this] grow [of k] show ?case by auto
qed auto

lemma place_statements_nth:
  assumes "place_statements rn schema hs lg th ss = Inr (ps, ss', th')" and "j < length ss"
  shows "\<exists>th1 th2. place_statement rn schema hs lg th1 (ss ! j) = Inr (ps ! j, ss' ! j, th2)"
  using assms
proof (induction ss arbitrary: th ps ss' j)
  case (Cons s ss)
  then obtain p s1 th1 ps1 ss1 where step: "place_statement rn schema hs lg th s = Inr (p, s1, th1)"
      "place_statements rn schema hs lg th1 ss = Inr (ps1, ss1, th')" "ps = p # ps1" "ss' = s1 # ss1"
    by (auto split: sum.splits simp: map_sum_def)
  then show ?case using Cons.IH [OF step(2)] Cons.prems(2) by (cases j) auto
qed simp

lemma place_units_nth:
  assumes "place_units rn schema hs lg th us = Inr (fs, out, th')" and "i < length us"
  shows "\<exists>th1 th2 f. unit_files rn (fst (us ! i)) (snd (us ! i)) schema hs lg th1 = Inr (f, out ! i, th2)"
  using assms
proof (induction us arbitrary: th fs out i)
  case (Cons u us)
  then obtain f e th1 fs1 out1 where step: "unit_files rn (fst u) (snd u) schema hs lg th = Inr (f, e, th1)"
      "place_units rn schema hs lg th1 us = Inr (fs1, out1, th')" "out = e # out1"
    by (cases u) (auto split: sum.splits simp: map_sum_def)
  then show ?case using Cons.IH [OF step(2)] Cons.prems(2) by (cases i) auto
qed simp

lemma placed_views:
  assumes "place_units rn schema hs lg th (zip sources emitted) = Inr (fs, out, th')" and "length sources = length emitted"
    and "i < length emitted" "j < length (emitted ! i)" "emitted ! i ! j = CreateView v" and "\<not> is_transaction_control (sources ! i)"
  shows "\<exists>v'. out ! i ! j = CreateView v' \<and> cv_name v' = cv_name v \<and> cv_query v' = cv_query v
    \<and> (cv_temporary v' \<longleftrightarrow> cv_temporary v \<or> home_of hs (cv_name v) = PlTemp)"
proof -
  obtain th1 th2 f where u: "unit_files rn (sources ! i) (emitted ! i) schema hs lg th1 = Inr (f, out ! i, th2)"
    using place_units_nth [OF assms(1), of i] assms(2,3) by auto
  then obtain ps where "place_statements rn schema hs lg th1 (emitted ! i) = Inr (ps, out ! i, th2)"
    using assms(6) by (auto simp: unit_files_def Let_def split: sum.splits)
  from place_statements_nth [OF this assms(4)]
  have "out ! i ! j = CreateView (if home_of hs (cv_name v) = PlTemp then CreateViewNode (cv_name v) True (cv_or_replace v) (cv_query v) else v)"
    using assms(5) by (auto simp: Let_def)
  then show ?thesis by simp
qed

section \<open>Properties\<close>

text \<open>
  C17. A view is emitted \<open>TEMP\<close> exactly when it has to be. In a placed batch the statement that creates a view
  keeps its name and its query, and is marked \<open>TEMP\<close> exactly when it already was, when the last statement of the
  batch that creates that name is, or when the view reads, directly or through other views of the batch, a
  relation that lives in the attached database or in \<open>temp\<close>. Every table the batch does not create lives
  in the main file.
\<close>

theorem views_over_placed_relations_are_temp:
  assumes "place rn suffix attached tables sources emitted = Inr (pl, out)" and "length sources = length emitted"
    and "(case attached of None \<Rightarrow> Inr {} | Some a \<Rightarrow> attached_storage suffix sources emitted a tables) = Inr storage"
    and "homes_and_views rn sources emitted tables storage = (hs, views)"
    and "\<forall>t \<in> set tables. starts_in_main suffix storage hs t"
    and "i < length emitted" "j < length (emitted ! i)" "emitted ! i ! j = CreateView v" "\<not> is_transaction_control (sources ! i)"
  shows "\<exists>v'. out ! i ! j = CreateView v' \<and> cv_name v' = cv_name v \<and> cv_query v' = cv_query v
    \<and> (cv_temporary v' \<longleftrightarrow> cv_temporary v \<or> hs (key_of (cv_name v)) = Some PlTemp \<or> reads_elsewhere views hs (key_of (cv_name v)))"
proof -
  have closed: "homes_of_batch rn sources emitted tables storage = close_views views hs" by (simp add: homes_of_batch_def assms(4))
  obtain hs' lg fs th where p: "fold (home_table suffix storage) tables (Inr (close_views views hs, \<lambda>_. None)) = Inr (hs', lg)"
      "place_units rn (case attached of None \<Rightarrow> [] | Some a \<Rightarrow> at_schema a) hs' lg (\<lambda>_. None) (zip sources emitted) = Inr (fs, out, th)"
    using assms(1) unfolding place_def assms(3) by (auto simp: closed Let_def map_sum_def split: sum.splits)
  have "\<forall>t \<in> set tables. starts_in_main suffix storage (close_views views hs) t"
    using assms(5) by (auto simp: starts_in_main_def closed_views)
  note tables_home = home_tables [OF p(1) this]
  have "home_of hs' n = PlTemp \<longleftrightarrow> close_views views hs (key_of n) = Some PlTemp" for n
    using tables_home [of "key_of n"] by (auto simp: home_of_def split: option.splits)
  with placed_views [OF p(2) assms(2,6-9)] show ?thesis by (auto simp: closed_views split: if_splits)
qed

theorem views_over_placed_relations_are_temp_witness:
  "let bare = (\<lambda>s. [Identifier (bare_ident s)]);
       rn = (\<lambda>node. case node of NodeQuery (QueryNode s _) \<Rightarrow> [s] | _ \<Rightarrow> []);
       view = (\<lambda>n s. CreateView (CreateViewNode (bare n) False False (QueryNode s SetOther)));
       emitted = [[CreateTable (CreateTableNode (bare ''t'') True False None [] [])], [view ''w'' ''v''], [view ''v'' ''t'']] in
   \<exists>pl out v'. place rn ''_rls'' None [] (map hd emitted) emitted = Inr (pl, out)
     \<and> out ! 1 ! 0 = CreateView v' \<and> cv_name v' = bare ''w'' \<and> cv_temporary v'"
proof -
  let ?bare = "\<lambda>s. [Identifier (bare_ident s)]"
  let ?rn = "\<lambda>node. case node of NodeQuery (QueryNode s _) \<Rightarrow> [s] | _ \<Rightarrow> []"
  let ?view = "\<lambda>n s. CreateView (CreateViewNode (?bare n) False False (QueryNode s SetOther))"
  let ?em = "[[CreateTable (CreateTableNode (?bare ''t'') True False None [] [])], [?view ''w'' ''v''], [?view ''v'' ''t'']]"
  obtain hs views where hv: "homes_and_views ?rn (map hd ?em) ?em [] {} = (hs, views)" by fastforce
  have views: "snd (homes_and_views ?rn (map hd ?em) ?em [] {}) = [(''w'', [''v'']), (''v'', [''t''])]"
    and t: "fst (homes_and_views ?rn (map hd ?em) ?em [] {}) ''t'' = Some PlTemp" by code_simp+
  have k: "key_of (?bare ''w'') = ''w''" by code_simp
  have "elsewhere views hs ''t''" using t hv by (intro elsewhere.placed) auto
  then have "elsewhere views hs ''v''" using views hv by (auto intro: elsewhere.through)
  then have r: "reads_elsewhere views hs ''w''" using views hv by (auto simp: reads_elsewhere_def)
  have "\<exists>r. place ?rn ''_rls'' None [] (map hd ?em) ?em = Inr r"
    by (auto simp: place_def Let_def map_sum_def unit_files_def reject_foreign_keys_across_def foreign_parents_def)
  then obtain pl out where p: "place ?rn ''_rls'' None [] (map hd ?em) ?em = Inr (pl, out)" by auto
  from views_over_placed_relations_are_temp [OF p _ _ hv, of 1 0 "CreateViewNode (?bare ''w'') False False (QueryNode ''v'' SetOther)"] r k
  have "\<exists>v'. out ! 1 ! 0 = CreateView v' \<and> cv_name v' = ?bare ''w'' \<and> cv_temporary v'" by auto
  with p show ?thesis unfolding Let_def by blast
qed

text \<open>
  Placing is stable: a placed statement, named by identifiers, keeps its home (the object's key
  does not change under qualification), and placing it again, as the rebound forms are, changes
  neither the statement nor the recorded trigger homes.
\<close>

lemma placing_is_idempotent:
  assumes "place_statement rn schema hs logical th s = Inr (p, s', th')" and "named_by_idents s"
  shows "statement_placement rn hs logical th' s' = p
    \<and> place_statement rn schema hs logical th' s' = Inr (p, s', th')"
proof (cases s)
  case (CreateTrigger tg)
  with assms show ?thesis by (auto simp: Let_def place_trigger_def split: placement.splits if_splits)
next
  case (CreateTable ct)
  have "foreign_parents (CreateTableNode a b c d (ct_columns ct) (ct_constraints ct)) = foreign_parents ct" for a b c d
    by (simp add: foreign_parents_def)
  with CreateTable assms show ?thesis
    by (auto simp: Let_def reject_foreign_keys_across_def is_attached_def split: option.splits)
next
  case (Drop ty ns)
  with assms show ?thesis
    by (cases ns) (auto simp: Let_def write_home_def list_all_iff split: if_splits)
next
  case (CreateIndex ix)
  with assms show ?thesis by (cases "ci_name ix") (auto simp: Let_def)
qed (use assms in \<open>auto simp: Let_def write_home_def split: option.splits if_splits\<close>)

theorem placing_is_idempotent_witness:
  "let s = AlterTable [Identifier (bare_ident ''t'')] [];
       hs = [''t'' \<mapsto> PlAttached];
       s' = AlterTable [Identifier (bare_ident ''aux''), Identifier (bare_ident ''t'')] [] in
   place_statement (\<lambda>_. []) ''aux'' hs Map.empty Map.empty s' = Inr (PlAttached, s', Map.empty)"
proof -
  let ?s = "AlterTable [Identifier (bare_ident ''t'')] []"
  let ?s' = "AlterTable [Identifier (bare_ident ''aux''), Identifier (bare_ident ''t'')] []"
  have k: "key_of [Identifier (bare_ident ''t'')] = ''t''" "quoted_ident ''aux'' = bare_ident ''aux''" by code_simp+
  have "place_statement (\<lambda>_. []) ''aux'' [''t'' \<mapsto> PlAttached] Map.empty Map.empty ?s = Inr (PlAttached, ?s', Map.empty)"
    by (simp add: home_of_def k added_foreign_keys_def qualify_if_attached_def qualified_name_def)
  moreover have "named_by_idents ?s" by (simp add: ends_in_ident_def)
  ultimately show ?thesis
    unfolding Let_def by (rule placing_is_idempotent [THEN conjunct2])
qed

text \<open>
  The selections that replay a unit follow the files its statements are placed in: it is replayed when only the
  main file is new unless a statement is placed in the attached one, and the other way round.
\<close>

lemma unit_files_follow_placements:
  assumes "\<not> is_transaction_control source"
    and "place_statements rn schema hs logical th emitted = Inr (ps, emitted', th')"
  shows "\<exists>f. unit_files rn source emitted schema hs logical th = Inr (f, emitted', th')
    \<and> (contains_placement f PlMain \<longleftrightarrow> PlAttached \<notin> set ps)
    \<and> (contains_placement f PlAttached \<longleftrightarrow> PlMain \<notin> set ps)
    \<and> \<not> contains_placement f PlTemp"
  using assms by (auto simp: unit_files_def Let_def)

text \<open>
  A \<open>CREATE TABLE\<close> is placed exactly when every foreign key, of a column or of the table, joins two
  tables on the same side of the attached database; otherwise the placement is refused.
\<close>

lemma foreign_keys_stay_in_one_file:
  "(\<exists>r. place_statement rn schema hs logical th (CreateTable ct) = Inr r) \<longleftrightarrow>
     (\<forall>parent \<in> set (foreign_parents ct). is_attached hs parent = is_attached hs (ct_name ct))"
  by (auto simp: reject_foreign_keys_across_def Let_def find_None_iff dest: find_member split: option.split)

lemma foreign_keys_stay_in_one_file_witness:
  "let ct = CreateTableNode [Identifier (bare_ident ''c'')] False False None
         [[ColOther, ColForeignKey [Identifier (bare_ident ''p'')]]] [] in
   \<not> (\<exists>r. place_statement (\<lambda>_. []) ''aux'' [''p'' \<mapsto> PlAttached] Map.empty Map.empty (CreateTable ct) = Inr r)"
proof -
  let ?ct = "CreateTableNode [Identifier (bare_ident ''c'')] False False None
         [[ColOther, ColForeignKey [Identifier (bare_ident ''p'')]]] []"
  have "foreign_parents ?ct = [[Identifier (bare_ident ''p'')]]" by code_simp
  moreover have "key_of [Identifier (bare_ident ''p'')] = ''p''" "key_of [Identifier (bare_ident ''c'')] = ''c''" by code_simp+
  ultimately show ?thesis
    unfolding Let_def foreign_keys_stay_in_one_file by (simp add: is_attached_def)
qed

text \<open>
  A trigger is left permanent only where SQLite can run it: it is on a main-file table and its
  walk names no relation placed elsewhere, and then it is emitted unchanged; every other trigger is
  emitted \<open>TEMP\<close>, on its table qualified by the file the table lives in. Its home is recorded once,
  at its first creation.
\<close>

lemma permanent_triggers_read_main_only:
  "\<exists>p tg' th'. place_statement rn schema hs logical th (CreateTrigger tg) = Inr (p, CreateTrigger tg', th')
     \<and> p \<noteq> PlAttached \<and> (tr_temporary tg' \<longleftrightarrow> p = PlTemp)
     \<and> (p = PlMain \<longleftrightarrow> home_of hs (tr_table_name tg) = PlMain \<and> \<not> tr_temporary tg \<and> \<not> reads_placed (rn (NodeTrigger tg)) hs)
     \<and> (p = PlMain \<longrightarrow> tg' = tg)
     \<and> (p = PlTemp \<longrightarrow> tr_table_name tg' = (case home_of hs (tr_table_name tg) of
          PlMain \<Rightarrow> qualified_name (tr_table_name tg) ''main''
        | PlAttached \<Rightarrow> qualified_name (tr_table_name tg) schema | PlTemp \<Rightarrow> tr_table_name tg))
     \<and> th' (key_of (tr_name tg)) = (case th (key_of (tr_name tg)) of Some q \<Rightarrow> Some q | None \<Rightarrow> Some p)"
  by (auto simp: Let_def place_trigger_def split: option.split)

lemma permanent_triggers_read_main_only_witness:
  "let tg = CreateTriggerNode [Identifier (bare_ident ''g'')] [Identifier (bare_ident ''t'')] False False [EventInsert] None in
   \<exists>tg' th'. place_statement (\<lambda>_. [''a'']) ''aux'' [''a'' \<mapsto> PlAttached] Map.empty Map.empty (CreateTrigger tg)
       = Inr (PlTemp, CreateTrigger tg', th') \<and> tr_temporary tg'"
proof -
  let ?tg = "CreateTriggerNode [Identifier (bare_ident ''g'')] [Identifier (bare_ident ''t'')] False False [EventInsert] None"
  have "reads_placed [''a''] [''a'' \<mapsto> PlAttached]" by (simp add: reads_placed_def)
  with permanent_triggers_read_main_only [of "\<lambda>_. [''a'']" "''aux''" "[''a'' \<mapsto> PlAttached]" Map.empty Map.empty ?tg]
  show ?thesis unfolding Let_def by (metis placement.exhaust)
qed

section \<open>A view over a table of the starting schema\<close>

text \<open>
  The views of a batch are closed before the tables the batch does not create get their homes. A view
  over a listed table of the starting schema is therefore emitted permanent, in the main file,
  although the relation it reads lives in the attached one; a trigger over the same table is emitted
  \<open>TEMP\<close>.
\<close>

lemma view_over_starting_table_stays_permanent:
  "case place (\<lambda>_. [''t'']) ''_rls'' (Some \<lparr>at_schema = ''shared'', at_tables = [''t'']\<rparr>)
      [\<lparr>st_name = ''t'', st_temporary = False, st_has_rls = Inr False\<rparr>]
      [CreateView (CreateViewNode [Identifier (bare_ident ''v'')] False False (QueryNode ''select'' SetOther))]
      [[CreateView (CreateViewNode [Identifier (bare_ident ''v'')] False False (QueryNode ''select'' SetOther))]] of
     Inl _ \<Rightarrow> False
   | Inr (pl, emitted) \<Rightarrow>
       pl_homes pl ''t'' = Some PlAttached \<and> pl_homes pl ''v'' = Some PlMain
       \<and> emitted = [[CreateView (CreateViewNode [Identifier (bare_ident ''v'')] False False (QueryNode ''select'' SetOther))]]"
  by code_simp

end
