(* ===== verification/Namespaces.thy ===== *)
theory Namespaces
  imports Sql_Ast
begin

text \<open>
  The names the emitted script defines, and the ones that would collide:
  \<open>src/src/impls/emitted_namespace.rs\<close>.

  How a statement prints is the syntax-tree crate's business and the parameter \<open>show_statement\<close>; the
  schema the walk starts from is given by the names the schema crate answers.
\<close>

section \<open>Sources\<close>

datatype (plugins only: code size) source = SrcInput statement | SrcGenerated string | SrcInitial string

definition describe_statement :: "(statement \<Rightarrow> string) \<Rightarrow> statement \<Rightarrow> string" where
  "describe_statement show_statement s = (case s of
     CreateTable ct \<Rightarrow> display_name (ct_name ct)
   | CreateView v \<Rightarrow> display_name (cv_name v)
   | CreateVirtualTable n _ _ \<Rightarrow> display_name n
   | CreateIndex ix \<Rightarrow> (case ci_name ix of
       None \<Rightarrow> ''an index on '' @ display_name (ci_table_name ix) | Some n \<Rightarrow> display_name n)
   | CreateTrigger tg \<Rightarrow> display_name (tr_name tg) @ '' on '' @ display_name (tr_table_name tg)
   | AlterTable n _ \<Rightarrow> display_name n
   | other \<Rightarrow> show_statement other)"

fun describe :: "(statement \<Rightarrow> string) \<Rightarrow> source \<Rightarrow> string" where
  "describe show_statement (SrcGenerated label) = label"
| "describe show_statement (SrcInitial label) = label"
| "describe show_statement (SrcInput s) = describe_statement show_statement s"

section \<open>Namespaces\<close>

record entry =
  en_source :: source
  en_owner :: "string option"

record namespaces =
  ns_objects :: "string \<Rightarrow> entry option"
  ns_triggers :: "string \<Rightarrow> entry option"

definition namespaces_default :: namespaces where
  "namespaces_default = \<lparr>ns_objects = (\<lambda>_. None), ns_triggers = (\<lambda>_. None)\<rparr>"

datatype (plugins only: code size) collision_kind = Objects | Triggers

datatype (plugins only: code size) namespace_error =
    EmittedNameCollision collision_kind string source source
  | NamespaceLookup string

definition ns_key :: "object_name \<Rightarrow> string" where
  "ns_key n = to_ascii_lowercase (last_ident_value_or_display n)"

definition sqlite_key :: "string \<Rightarrow> string" where
  "sqlite_key n = to_ascii_lowercase n"

definition object_collision :: "string \<Rightarrow> source \<Rightarrow> source \<Rightarrow> namespace_error" where
  "object_collision name first second = EmittedNameCollision Objects name first second"

definition trigger_collision :: "string \<Rightarrow> source \<Rightarrow> source \<Rightarrow> namespace_error" where
  "trigger_collision name first second = EmittedNameCollision Triggers name first second"

definition define_object_key :: "string \<Rightarrow> string option \<Rightarrow> source \<Rightarrow> namespaces \<Rightarrow> namespace_error + namespaces" where
  "define_object_key k own src ns = (case ns_objects ns k of
     Some held \<Rightarrow> Inl (object_collision k (en_source held) src)
   | None \<Rightarrow> Inr (ns\<lparr>ns_objects := (ns_objects ns)(k \<mapsto> \<lparr>en_source = src, en_owner = own\<rparr>)\<rparr>))"

definition define_object :: "object_name \<Rightarrow> object_name option \<Rightarrow> source \<Rightarrow> namespaces \<Rightarrow> namespace_error + namespaces" where
  "define_object n own src ns = define_object_key (ns_key n) (map_option ns_key own) src ns"

definition define_trigger_key :: "string \<Rightarrow> string \<Rightarrow> source \<Rightarrow> namespaces \<Rightarrow> namespace_error + namespaces" where
  "define_trigger_key k own src ns = (case ns_triggers ns k of
     Some held \<Rightarrow> Inl (trigger_collision k (en_source held) src)
   | None \<Rightarrow> Inr (ns\<lparr>ns_triggers := (ns_triggers ns)(k \<mapsto> \<lparr>en_source = src, en_owner = Some own\<rparr>)\<rparr>))"

definition define_trigger :: "object_name \<Rightarrow> object_name \<Rightarrow> source \<Rightarrow> namespaces \<Rightarrow> namespace_error + namespaces" where
  "define_trigger n own src ns = define_trigger_key (ns_key n) (ns_key own) src ns"

definition retain_not_owned :: "string \<Rightarrow> (string \<Rightarrow> entry option) \<Rightarrow> string \<Rightarrow> entry option" where
  "retain_not_owned k m = (\<lambda>x. case m x of
     None \<Rightarrow> None | Some e \<Rightarrow> if en_owner e \<noteq> Some k then Some e else None)"

definition drop_object :: "object_name \<Rightarrow> namespaces \<Rightarrow> namespaces" where
  "drop_object n ns =
     (let k = ns_key n in
      ns\<lparr>ns_objects := retain_not_owned k ((ns_objects ns)(k := None)),
        ns_triggers := retain_not_owned k (ns_triggers ns)\<rparr>)"

definition reown :: "string \<Rightarrow> string \<Rightarrow> (string \<Rightarrow> entry option) \<Rightarrow> string \<Rightarrow> entry option" where
  "reown from_key to_key m = (\<lambda>x. map_option (\<lambda>e.
     if en_owner e = Some from_key then e\<lparr>en_owner := Some to_key\<rparr> else e) (m x))"

definition rename_object :: "object_name \<Rightarrow> object_name \<Rightarrow> source \<Rightarrow> namespaces \<Rightarrow> namespace_error + namespaces" where
  "rename_object from_name to_name src ns =
     (let f = ns_key from_name; t = ns_key to_name in
      case ns_objects ns t of
        Some held \<Rightarrow> Inl (object_collision t (en_source held) src)
      | None \<Rightarrow>
          (let objs = (case ns_objects ns f of
               None \<Rightarrow> ns_objects ns | Some e \<Rightarrow> ((ns_objects ns)(f := None))(t \<mapsto> e)) in
           Inr (ns\<lparr>ns_objects := reown f t objs, ns_triggers := reown f t (ns_triggers ns)\<rparr>)))"

fun rename_operations :: "object_name \<Rightarrow> source \<Rightarrow> alter_table_operation list \<Rightarrow> namespaces \<Rightarrow> namespace_error + namespaces" where
  "rename_operations n src [] ns = Inr ns"
| "rename_operations n src (RenameTableTo to # ops) ns =
     (case rename_object n to src ns of Inl e \<Rightarrow> Inl e | Inr ns' \<Rightarrow> rename_operations n src ops ns')"
| "rename_operations n src (_ # ops) ns = rename_operations n src ops ns"

fun apply_names :: "source \<Rightarrow> statement \<Rightarrow> namespaces \<Rightarrow> namespace_error + namespaces" where
  "apply_names src (CreateTable ct) ns = define_object (ct_name ct) None src ns"
| "apply_names src (CreateView v) ns = define_object (cv_name v) None src ns"
| "apply_names src (CreateVirtualTable n _ _) ns = define_object n None src ns"
| "apply_names src (CreateIndex ix) ns = (case ci_name ix of
     Some n \<Rightarrow> define_object n (Some (ci_table_name ix)) src ns | None \<Rightarrow> Inr ns)"
| "apply_names src (CreateTrigger tg) ns = define_trigger (tr_name tg) (tr_table_name tg) src ns"
| "apply_names src (Drop ty names) ns =
     Inr (if ty = ObjTable \<or> ty = ObjView \<or> ty = ObjIndex then fold drop_object names ns else ns)"
| "apply_names src (DropTrigger n _) ns = Inr (ns\<lparr>ns_triggers := (ns_triggers ns)(ns_key n := None)\<rparr>)"
| "apply_names src (AlterTable n ops) ns = rename_operations n src ops ns"
| "apply_names src _ ns = Inr ns"

section \<open>The starting schema\<close>

record named_object =
  no_stored :: string
  no_schema :: "string option"
  no_name :: string

record initial_schema =
  is_tables :: "named_object list"
  is_views :: "named_object list"
  is_materialized :: "named_object list"
  is_indexes :: "(string option \<times> string option \<times> string) list"
  is_triggers :: "(string \<times> (string + string)) list"

definition initial_description :: "string \<Rightarrow> string option \<Rightarrow> string \<Rightarrow> string" where
  "initial_description kind schema name = (case schema of
     None \<Rightarrow> ''the initial '' @ kind @ '' '' @ name
   | Some s \<Rightarrow> ''the initial '' @ kind @ '' '' @ s @ ''.'' @ name)"

definition seed_object :: "string \<Rightarrow> named_object \<Rightarrow> namespaces \<Rightarrow> namespace_error + namespaces" where
  "seed_object kind ob ns = define_object_key (sqlite_key (no_stored ob)) None
     (SrcInitial (initial_description kind (no_schema ob) (no_name ob))) ns"

definition seed_index :: "string option \<times> string option \<times> string \<Rightarrow> namespaces \<Rightarrow> namespace_error + namespaces" where
  "seed_index = (\<lambda>(name, schema, table) ns. case name of
     None \<Rightarrow> Inr ns
   | Some n \<Rightarrow> define_object_key (sqlite_key n) (Some (sqlite_key table))
       (SrcInitial (initial_description ''index'' schema n)) ns)"

definition seed_trigger :: "string \<times> (string + string) \<Rightarrow> namespaces \<Rightarrow> namespace_error + namespaces" where
  "seed_trigger = (\<lambda>(name, table) ns. case table of
     Inl e \<Rightarrow> Inl (NamespaceLookup e)
   | Inr t \<Rightarrow> define_trigger_key (sqlite_key name) (sqlite_key t)
       (SrcInitial (initial_description ''trigger'' None name)) ns)"

fun fold_sum :: "('a \<Rightarrow> 's \<Rightarrow> 'e + 's) \<Rightarrow> 'a list \<Rightarrow> 's \<Rightarrow> 'e + 's" where
  "fold_sum f [] s = Inr s"
| "fold_sum f (x # xs) s = (case f x s of Inl e \<Rightarrow> Inl e | Inr s' \<Rightarrow> fold_sum f xs s')"

definition and_then :: "('e + 's) \<Rightarrow> ('s \<Rightarrow> 'e + 't) \<Rightarrow> 'e + 't" where
  "and_then r f = (case r of Inl e \<Rightarrow> Inl e | Inr s \<Rightarrow> f s)"

definition seed :: "initial_schema \<Rightarrow> namespaces \<Rightarrow> namespace_error + namespaces" where
  "seed sch ns =
     and_then (fold_sum (seed_object ''table'') (is_tables sch) ns) (\<lambda>n1.
     and_then (fold_sum (seed_object ''view'') (is_views sch) n1) (\<lambda>n2.
     and_then (fold_sum (seed_object ''materialized view'') (is_materialized sch) n2) (\<lambda>n3.
     and_then (fold_sum seed_index (is_indexes sch) n3) (\<lambda>n4.
       fold_sum seed_trigger (is_triggers sch) n4))))"

definition walk_names :: "(source \<times> statement) list \<Rightarrow> namespaces \<Rightarrow> namespace_error + namespaces" where
  "walk_names emitted ns = fold_sum (\<lambda>(src, s). apply_names src s) emitted ns"

definition reject_name_collisions :: "initial_schema option \<Rightarrow> (source \<times> statement) list \<Rightarrow> namespace_error + unit" where
  "reject_name_collisions sch emitted =
     and_then (case sch of None \<Rightarrow> Inr namespaces_default | Some s \<Rightarrow> seed s namespaces_default)
       (\<lambda>ns. map_sum id (\<lambda>_. ()) (walk_names emitted ns))"

section \<open>Pairing emitted statements with their sources\<close>

definition generated_artifact_label :: "statement \<Rightarrow> string" where
  "generated_artifact_label s = (case s of
     CreateVirtualTable _ _ module \<Rightarrow>
       (if eq_ignore_ascii_case (ident_value module) ''vec0'' then ''a generated vec0 virtual table''
        else ''a generated virtual table'')
   | CreateView _ \<Rightarrow> ''a generated RLS view''
   | CreateTrigger _ \<Rightarrow> ''a generated trigger''
   | CreateTable _ \<Rightarrow> ''a generated backing table''
   | _ \<Rightarrow> ''a generated statement'')"

definition sourced_unit :: "statement \<times> statement list \<Rightarrow> (source \<times> statement) list" where
  "sourced_unit = (\<lambda>(input, emitted). map (\<lambda>(i, s).
     (if (case input of CreateTable _ \<Rightarrow> True | _ \<Rightarrow> False) \<and> 0 < i
      then SrcGenerated (generated_artifact_label s) else SrcInput input, s)) (enumerate 0 emitted))"

definition sourced :: "statement list \<Rightarrow> statement list list \<Rightarrow> (source \<times> statement) list" where
  "sourced inputs translated = concat (map sourced_unit (zip inputs translated))"

section \<open>The walk as sets of names\<close>

text \<open>
  What the walk holds, as a set: the names of tables, views and indexes and those of triggers, each with the
  relation it hangs off.
\<close>

type_synonym live_names = "(collision_kind \<times> string \<times> string option) set"

definition claim :: "collision_kind \<Rightarrow> string \<Rightarrow> string option \<Rightarrow> live_names \<Rightarrow> live_names option" where
  "claim k n own L = (if \<exists>own'. (k, n, own') \<in> L then None else Some (insert (k, n, own) L))"

definition release :: "string \<Rightarrow> live_names \<Rightarrow> live_names" where
  "release n L = {(k, m, own) \<in> L. \<not> (k = Objects \<and> m = n) \<and> own \<noteq> Some n}"

definition move_name :: "string \<Rightarrow> string \<Rightarrow> live_names \<Rightarrow> live_names option" where
  "move_name f t L = (if \<exists>own. (Objects, t, own) \<in> L then None
     else Some ((\<lambda>(k, m, own). (k, if k = Objects \<and> m = f then t else m, if own = Some f then Some t else own)) ` L))"

fun move_names :: "object_name \<Rightarrow> alter_table_operation list \<Rightarrow> live_names \<Rightarrow> live_names option" where
  "move_names n [] L = Some L"
| "move_names n (RenameTableTo to # ops) L = Option.bind (move_name (ns_key n) (ns_key to) L) (move_names n ops)"
| "move_names n (_ # ops) L = move_names n ops L"

fun claim_statement :: "statement \<Rightarrow> live_names \<Rightarrow> live_names option" where
  "claim_statement (CreateTable ct) L = claim Objects (ns_key (ct_name ct)) None L"
| "claim_statement (CreateView v) L = claim Objects (ns_key (cv_name v)) None L"
| "claim_statement (CreateVirtualTable n _ _) L = claim Objects (ns_key n) None L"
| "claim_statement (CreateIndex ix) L = (case ci_name ix of None \<Rightarrow> Some L
     | Some n \<Rightarrow> claim Objects (ns_key n) (Some (ns_key (ci_table_name ix))) L)"
| "claim_statement (CreateTrigger tg) L = claim Triggers (ns_key (tr_name tg)) (Some (ns_key (tr_table_name tg))) L"
| "claim_statement (Drop ty names) L =
     Some (if ty = ObjTable \<or> ty = ObjView \<or> ty = ObjIndex then fold (\<lambda>n. release (ns_key n)) names L else L)"
| "claim_statement (DropTrigger n _) L = Some {(k, m, own) \<in> L. \<not> (k = Triggers \<and> m = ns_key n)}"
| "claim_statement (AlterTable n ops) L = move_names n ops L"
| "claim_statement _ L = Some L"

fun claim_script :: "statement list \<Rightarrow> live_names \<Rightarrow> live_names option" where
  "claim_script [] L = Some L"
| "claim_script (s # ss) L = Option.bind (claim_statement s L) (claim_script ss)"

definition names_of :: "namespaces \<Rightarrow> live_names" where
  "names_of ns = {(Objects, n, en_owner e) | n e. ns_objects ns n = Some e}
     \<union> {(Triggers, n, en_owner e) | n e. ns_triggers ns n = Some e}"

lemma in_names_of [simp]:
  "(Objects, n, own) \<in> names_of ns \<longleftrightarrow> (\<exists>e. ns_objects ns n = Some e \<and> en_owner e = own)"
  "(Triggers, n, own) \<in> names_of ns \<longleftrightarrow> (\<exists>e. ns_triggers ns n = Some e \<and> en_owner e = own)"
  by (auto simp: names_of_def)

lemma live_names_eqI:
  assumes "\<And>n own. (Objects, n, own) \<in> A \<longleftrightarrow> (Objects, n, own) \<in> B"
    and "\<And>n own. (Triggers, n, own) \<in> A \<longleftrightarrow> (Triggers, n, own) \<in> B"
  shows "A = (B :: live_names)"
proof (rule set_eqI)
  fix x :: "collision_kind \<times> string \<times> string option"
  obtain k n own where "x = (k, n, own)" by (cases x)
  then show "x \<in> A \<longleftrightarrow> x \<in> B" using assms by (cases k) simp_all
qed

definition simulates :: "namespace_error + namespaces \<Rightarrow> live_names option \<Rightarrow> bool" where
  "simulates r L \<longleftrightarrow> (case r of Inl _ \<Rightarrow> L = None | Inr ns \<Rightarrow> L = Some (names_of ns))"

lemma simulates_define:
  "simulates (define_object_key k own src ns) (claim Objects k own (names_of ns))"
  "simulates (define_trigger_key k own' src ns) (claim Triggers k (Some own') (names_of ns))"
  by (auto simp: simulates_def define_object_key_def define_trigger_key_def claim_def
      split: option.split if_splits intro!: live_names_eqI)

lemma names_of_drop: "names_of (drop_object n ns) = release (ns_key n) (names_of ns)"
  by (rule live_names_eqI) (auto simp: drop_object_def Let_def retain_not_owned_def release_def split: option.splits)

lemma names_of_drops: "names_of (fold drop_object ns' ns) = fold (\<lambda>n. release (ns_key n)) ns' (names_of ns)"
  by (induction ns' arbitrary: ns) (simp_all add: names_of_drop)

lemma live_name_moved:
  assumes "m f = Some e" and "m t = None"
  shows "(if n = t then own = h (en_owner e) else if n = f then False else \<exists>e'. m n = Some e' \<and> own = h (en_owner e'))
    \<longleftrightarrow> (\<exists>n' own'. (\<exists>e'. m n' = Some e' \<and> en_owner e' = own') \<and> n = (if Objects = Objects \<and> n' = f then t else n') \<and> own = h own')"
  (is "?lhs \<longleftrightarrow> ?rhs")
proof
  assume ?lhs
  then show ?rhs
    using assms by (cases "n = t"; cases "n = f") (simp_all, metis, metis)
next
  assume ?rhs
  then obtain n' e' where "m n' = Some e'" "n = (if n' = f then t else n')" "own = h (en_owner e')" by auto
  with assms show ?lhs by (cases "n' = f") auto
qed

lemma live_name_kept:
  assumes "m f = None"
  shows "(\<exists>e. m n = Some e \<and> own = h (en_owner e))
    \<longleftrightarrow> (\<exists>n' own'. (\<exists>e'. m n' = Some e' \<and> en_owner e' = own') \<and> n = (if Objects = Objects \<and> n' = f then t else n') \<and> own = h own')"
  (is "?lhs \<longleftrightarrow> ?rhs")
proof
  assume ?lhs
  then obtain e where e: "m n = Some e" "own = h (en_owner e)" by blast
  with assms have "n \<noteq> f" by auto
  with e show ?rhs by auto
next
  assume ?rhs
  then obtain n' e' where "m n' = Some e'" "n = (if n' = f then t else n')" "own = h (en_owner e')" by auto
  with assms show ?lhs by (cases "n' = f") auto
qed

lemma simulates_rename: "simulates (rename_object f t src ns) (move_name (ns_key f) (ns_key t) (names_of ns))"
proof (cases "ns_objects ns (ns_key t)")
  case (Some held)
  then show ?thesis by (simp add: simulates_def rename_object_def move_name_def Let_def)
next
  case None
  let ?f = "ns_key f" and ?t = "ns_key t"
  let ?g = "\<lambda>(k, m, own). (k, if k = Objects \<and> m = ?f then ?t else m, if own = Some ?f then Some ?t else own)"
  obtain ns' where r: "rename_object f t src ns = Inr ns'" using None by (simp add: rename_object_def Let_def)
  let ?o = "\<lambda>own. if own = Some ?f then Some ?t else own"
  have im: "(k, n, own) \<in> ?g ` L \<longleftrightarrow>
      (\<exists>m own'. (k, m, own') \<in> L \<and> n = (if k = Objects \<and> m = ?f then ?t else m) \<and> own = ?o own')" for k n own L
    by (simp add: image_iff Bex_def split_paired_Ex)
  have re: "(\<exists>e'. reown ?f ?t m n = Some e' \<and> en_owner e' = own) \<longleftrightarrow> (\<exists>e. m n = Some e \<and> own = ?o (en_owner e))" for m n own
    by (cases "m n") (auto simp: reown_def)
  have objs: "ns_objects ns' = reown ?f ?t (case ns_objects ns ?f of
        None \<Rightarrow> ns_objects ns | Some e \<Rightarrow> ((ns_objects ns)(?f := None))(?t \<mapsto> e))"
    and trs: "ns_triggers ns' = reown ?f ?t (ns_triggers ns)"
    using r None by (auto simp: rename_object_def Let_def)
  have "names_of ns' = ?g ` names_of ns"
  proof (rule live_names_eqI)
    fix n own
    show "(Objects, n, own) \<in> names_of ns' \<longleftrightarrow> (Objects, n, own) \<in> ?g ` names_of ns"
    proof (cases "ns_objects ns ?f")
      case None': None
      have "(Objects, n, own) \<in> names_of ns' \<longleftrightarrow> (\<exists>e. ns_objects ns n = Some e \<and> own = ?o (en_owner e))"
        by (simp add: objs None' re)
      also have "\<dots> \<longleftrightarrow> (\<exists>m own'. (Objects, m, own') \<in> names_of ns \<and>
          n = (if Objects = Objects \<and> m = ?f then ?t else m) \<and> own = ?o own')"
        unfolding in_names_of by (rule live_name_kept [where h = ?o and m = "ns_objects ns" and f = ?f, OF None'])
      also have "\<dots> \<longleftrightarrow> (Objects, n, own) \<in> ?g ` names_of ns" by (rule im [symmetric])
      finally show ?thesis .
    next
      case (Some e)
      with None have "?f \<noteq> ?t" by auto
      have "(Objects, n, own) \<in> names_of ns' \<longleftrightarrow>
          (\<exists>e'. (((ns_objects ns)(?f := None))(?t \<mapsto> e)) n = Some e' \<and> own = ?o (en_owner e'))"
        by (simp only: in_names_of objs Some re option.case)
      also have "\<dots> \<longleftrightarrow> (if n = ?t then own = ?o (en_owner e) else if n = ?f then False
          else \<exists>e'. ns_objects ns n = Some e' \<and> own = ?o (en_owner e'))"
        by simp
      also have "\<dots> \<longleftrightarrow> (\<exists>m own'. (Objects, m, own') \<in> names_of ns \<and>
          n = (if Objects = Objects \<and> m = ?f then ?t else m) \<and> own = ?o own')"
        unfolding in_names_of by (rule live_name_moved [where h = ?o and m = "ns_objects ns" and f = ?f and t = ?t, OF Some None])
      also have "\<dots> \<longleftrightarrow> (Objects, n, own) \<in> ?g ` names_of ns" by (rule im [symmetric])
      finally show ?thesis .
    qed
    show "(Triggers, n, own) \<in> names_of ns' \<longleftrightarrow> (Triggers, n, own) \<in> ?g ` names_of ns"
      unfolding im by (auto simp: trs re)
  qed
  with None r show ?thesis by (simp add: simulates_def move_name_def)
qed

lemma simulates_bind:
  assumes "simulates r (Some L)" and "\<And>ns. r = Inr ns \<Longrightarrow> simulates (f ns) (g L)"
  shows "simulates (case r of Inl e \<Rightarrow> Inl e | Inr ns \<Rightarrow> f ns) (g L)"
  using assms by (auto simp: simulates_def split: sum.splits)

lemma simulates_renames: "simulates (rename_operations n src ops ns) (move_names n ops (names_of ns))"
proof (induction n src ops ns rule: rename_operations.induct)
  case (2 n src to ops ns)
  show ?case
  proof (cases "rename_object n to src ns")
    case (Inl e)
    with simulates_rename [of n to src ns] show ?thesis by (simp add: simulates_def)
  next
    case (Inr ns')
    with simulates_rename [of n to src ns] 2 show ?thesis by (simp add: simulates_def)
  qed
qed (simp_all add: simulates_def)

lemma simulates_statement: "simulates (apply_names src s ns) (claim_statement s (names_of ns))"
proof (cases s)
  case (DropTrigger n t)
  then show ?thesis by (auto simp: simulates_def intro!: live_names_eqI split: if_splits)
qed (auto simp: define_object_def define_trigger_def simulates_renames names_of_drops simulates_def [of "Inr ns" for ns]
    split: option.split intro: simulates_define)

lemma simulates_walk: "simulates (walk_names emitted ns) (claim_script (map snd emitted) (names_of ns))"
proof (induction emitted arbitrary: ns)
  case Nil
  then show ?case by (simp add: walk_names_def simulates_def)
next
  case (Cons x emitted)
  obtain src s where x: "x = (src, s)" by (cases x)
  show ?case
  proof (cases "apply_names src s ns")
    case (Inl e)
    with simulates_statement [of src s ns] show ?thesis by (simp add: simulates_def walk_names_def x)
  next
    case (Inr ns')
    with simulates_statement [of src s ns] Cons.IH [of ns'] show ?thesis by (simp add: simulates_def walk_names_def x)
  qed
qed

section \<open>Renaming\<close>

text \<open>
  Renaming a relation to a free name that nothing hangs off, and back again, restores the
  namespaces, entries of indexes and triggers included.
\<close>

lemma rename_and_back:
  assumes "ns_objects ns (ns_key b) = None" and "ns_objects ns (ns_key a) \<noteq> None"
    and "\<And>n e. ns_objects ns n = Some e \<Longrightarrow> en_owner e \<noteq> Some (ns_key b)"
    and "\<And>n e. ns_triggers ns n = Some e \<Longrightarrow> en_owner e \<noteq> Some (ns_key b)"
  shows "\<exists>ns'. rename_object a b src ns = Inr ns' \<and> rename_object b a src' ns' = Inr ns"
proof -
  let ?a = "ns_key a" and ?b = "ns_key b"
  from assms(2) obtain e where e: "ns_objects ns ?a = Some e" by auto
  with assms(1) have ab: "?a \<noteq> ?b" by auto
  let ?objs = "((ns_objects ns)(?a := None))(?b \<mapsto> e)"
  let ?ns' = "\<lparr>ns_objects = reown ?a ?b ?objs, ns_triggers = reown ?a ?b (ns_triggers ns)\<rparr>"
  have r1: "rename_object a b src ns = Inr ?ns'"
    using assms(1) e by (cases ns) (simp add: rename_object_def Let_def)
  have undo: "reown ?b ?a (reown ?a ?b m) = m" if "\<And>n e. m n = Some e \<Longrightarrow> en_owner e \<noteq> Some ?b" for m
  proof
    fix n
    show "reown ?b ?a (reown ?a ?b m) n = m n"
      using that [of n] by (cases "m n") (auto simp: reown_def)
  qed
  have free: "\<And>n e'. ?objs n = Some e' \<Longrightarrow> en_owner e' \<noteq> Some ?b" using assms(3) e by (auto split: if_splits)
  let ?re = "if en_owner e = Some ?a then e\<lparr>en_owner := Some ?b\<rparr> else e"
  have swap: "((reown ?a ?b ?objs)(?b := None))(?a \<mapsto> ?re) = reown ?a ?b (((?objs)(?b := None))(?a \<mapsto> e))"
    by (auto simp: reown_def fun_eq_iff)
  have objs: "((?objs)(?b := None))(?a \<mapsto> e) = ns_objects ns" using e assms(1) ab by (auto simp: fun_eq_iff)
  have u: "reown ?b ?a (reown ?a ?b (ns_objects ns)) = ns_objects ns"
    "reown ?b ?a (reown ?a ?b (ns_triggers ns)) = ns_triggers ns"
    by (rule undo, erule assms(3)) (rule undo, erule assms(4))
  have at: "reown ?a ?b ?objs ?b = Some ?re" "reown ?a ?b ?objs ?a = None" using ab by (simp_all add: reown_def)
  have "rename_object b a src' ?ns' = Inr ns"
    by (simp only: rename_object_def Let_def namespaces.select_convs namespaces.update_convs at option.case swap objs u) simp
  with r1 show ?thesis by blast
qed

definition one_ident :: "string \<Rightarrow> object_name" where
  "one_ident s = [Identifier (bare_ident s)]"

definition two_names :: namespaces where
  "two_names = \<lparr>ns_objects = [''t'' \<mapsto> \<lparr>en_source = SrcInitial ''t'', en_owner = None\<rparr>,
     ''ix'' \<mapsto> \<lparr>en_source = SrcInitial ''ix'', en_owner = Some ''t''\<rparr>], ns_triggers = (\<lambda>_. None)\<rparr>"

lemma ns_key_examples [simp]: "ns_key (one_ident ''t'') = ''t''" "ns_key (one_ident ''u'') = ''u''"
  by code_simp+

theorem rename_and_back_witness:
  "\<exists>ns'. rename_object (one_ident ''t'') (one_ident ''u'') (SrcInitial ''t'') two_names = Inr ns' \<and>
    rename_object (one_ident ''u'') (one_ident ''t'') (SrcInitial ''u'') ns' = Inr two_names"
  by (rule rename_and_back) (auto simp: two_names_def split: if_splits)

end
