(* ===== verification/Namespace_Engine.thy ===== *)
theory Namespace_Engine
  imports Namespaces File_Sets
begin

text \<open>
  SQLite's namespaces, against which the collision check of theory \<open>Namespaces\<close> is measured. The engine keeps
  the objects of three databases (the main file, the attached one and \<open>temp\<close>): tables, views and indexes
  share one namespace of their database and triggers have another, an index and a trigger hang off a
  relation, and a name is found in whichever database holds it.
\<close>

section \<open>The engine\<close>

datatype (plugins only: code size) sq_kind = SqTable | SqView | SqIndex | SqTrigger

record sq_object =
  so_db :: placement
  so_kind :: sq_kind
  so_name :: string
  so_owner :: "(placement \<times> string) option"

definition space :: "sq_kind \<Rightarrow> collision_kind" where
  "space k = (if k = SqTrigger then Triggers else Objects)"






definition moved :: "placement \<Rightarrow> string \<Rightarrow> string \<Rightarrow> sq_object \<Rightarrow> sq_object" where
  "moved d f t x = x\<lparr>so_name := (if so_db x = d \<and> so_kind x \<noteq> SqTrigger \<and> so_name x = f then t else so_name x),
     so_owner := (if so_owner x = Some (d, f) then Some (d, t) else so_owner x)\<rparr>"







section \<open>Its names\<close>





lemma space_simps [simp]: "space SqTable = Objects" "space SqView = Objects" "space SqIndex = Objects" "space SqTrigger = Triggers"
  by (simp_all add: space_def)






section \<open>One statement\<close>









lemma moved_simps [simp]: "so_db (moved d f t x) = so_db x" "so_kind (moved d f t x) = so_kind x"
  "so_name (moved d f t x) = (if so_db x = d \<and> so_kind x \<noteq> SqTrigger \<and> so_name x = f then t else so_name x)"
  "so_owner (moved d f t x) = (if so_owner x = Some (d, f) then Some (d, t) else so_owner x)"
  by (simp_all add: moved_def)














section \<open>A script\<close>




section \<open>The starting schema\<close>








section \<open>Properties\<close>



end
