(* ===== verification/Sql_Types.thy ===== *)
theory Sql_Types
  imports Rust_Std
begin

text \<open>
  The part of the syntax-tree crate's data types that the temporal components match on. A type
  none of them looks into is \<open>DtOther\<close> with its spelling.
\<close>

datatype (plugins only: code size) timezone_info = TzNone | WithTimeZone | WithoutTimeZone | Tz

datatype (plugins only: code size) data_type =
    DtDate
  | DtTime "nat option" timezone_info
  | DtTimestamp "nat option" timezone_info
  | DtOther string

definition dquoted :: "string \<Rightarrow> string" where
  "dquoted s = CHR 0x22 # s @ [CHR 0x22]"

end
