(* ===== verification/Temporal.thy ===== *)
theory Temporal
  imports Complex_Main Sql_Types
begin

text \<open>
  Date, time and timestamp literals written into a temporal column:
  \<open>src/src/impls/temporal_literals.rs\<close>.

  A refusal is its message, as \<open>Error::forward_refusal\<close> takes it. Years, months, days and clock
  components are \<open>u32\<close> in the code and \<^typ>\<open>nat\<close> here, parsed with the \<open>u32\<close> bound; what the code
  computes in \<open>i64\<close> is \<^typ>\<open>int\<close>: the components it starts from are range-checked first, so nothing
  leaves the width.
\<close>

type_synonym 'a temporal = "(string, 'a) res"

section \<open>Kinds\<close>

datatype (plugins only: code size) temporal_literal_kind = KDate | KTime bool | KTimestamp bool

definition TIMESTAMPTZ :: temporal_literal_kind where
  "TIMESTAMPTZ = KTimestamp True"

definition zoned_info :: "timezone_info \<Rightarrow> bool" where
  "zoned_info info \<longleftrightarrow> info = Tz \<or> info = WithTimeZone"

fun temporal_literal_kind_of :: "data_type \<Rightarrow> temporal_literal_kind option" where
  "temporal_literal_kind_of DtDate = Some KDate"
| "temporal_literal_kind_of (DtTime _ info) = Some (KTime (zoned_info info))"
| "temporal_literal_kind_of (DtTimestamp _ info) = Some (KTimestamp (zoned_info info))"
| "temporal_literal_kind_of (DtOther _) = None"

section \<open>Refusals\<close>

fun type_name :: "temporal_literal_kind \<Rightarrow> string" where
  "type_name KDate = ''date''"
| "type_name (KTime False) = ''time''"
| "type_name (KTime True) = ''time with time zone''"
| "type_name (KTimestamp False) = ''timestamp''"
| "type_name (KTimestamp True) = ''timestamp with time zone''"

fun expected_shape :: "temporal_literal_kind \<Rightarrow> string" where
  "expected_shape KDate = ''YYYY-MM-DD''"
| "expected_shape (KTime False) = ''HH:MM:SS''"
| "expected_shape (KTime True) = ''HH:MM:SS+HH:MM''"
| "expected_shape (KTimestamp False) = ''YYYY-MM-DD HH:MM:SS''"
| "expected_shape (KTimestamp True) = ''YYYY-MM-DD HH:MM:SS+HH:MM''"

definition unreadable :: "temporal_literal_kind \<Rightarrow> string \<Rightarrow> string \<Rightarrow> string" where
  "unreadable kind text reason =
     ''invalid input syntax for type '' @ type_name kind @ '': '' @ dquoted text @ '': '' @ reason
     @ '' The replica stores a temporal column as text, so a value it cannot read is a value it would hold verbatim. Write it as ''
     @ expected_shape kind @ ''.''"

definition out_of_range :: "string \<Rightarrow> string" where
  "out_of_range text = ''date/time field value out of range: '' @ dquoted text
     @ ''. PostgreSQL refuses this value, so the replica must not hold it.''"

definition wrong_shape :: "temporal_literal_kind \<Rightarrow> string \<Rightarrow> string" where
  "wrong_shape kind text = unreadable kind text ''this is not the ISO 8601 form of the type.''"

definition KEYWORDS :: "string list" where
  "KEYWORDS = [''now'', ''today'', ''tomorrow'', ''yesterday'', ''epoch'', ''infinity'', ''-infinity'', ''+infinity'', ''allballs'']"

definition iso_char :: "char \<Rightarrow> bool" where
  "iso_char c \<longleftrightarrow> is_ascii_digit c \<or> c \<in> set ''-+:. TZz''"

definition reject_non_iso_input :: "temporal_literal_kind \<Rightarrow> string \<Rightarrow> unit temporal" where
  "reject_non_iso_input kind text =
     (let lowered = to_ascii_lowercase text in
      if lowered \<in> set KEYWORDS then refuse (unreadable kind text
        ''PostgreSQL resolves this keyword when it reads it, so the replica would hold the word rather than the value it stood for.'')
      else if CHR ''/'' \<in> set text then refuse (unreadable kind text
        ''a slash-separated date means different days under different DateStyle settings, which is server state the translation cannot read.'')
      else if ends_with '' am'' lowered \<or> ends_with '' pm'' lowered then refuse (unreadable kind text
        ''a 12-hour clock reading is not ISO 8601.'')
      else if list_ex is_alphabetic text \<and> kind \<noteq> KDate \<and> \<not> list_all iso_char text then refuse (unreadable kind text
        ''a month name depends on the server's locale.'')
      else if kind = KDate \<and> list_ex is_alphabetic text then refuse (unreadable kind text
        ''a month name depends on the server's locale.'')
      else ok ())"

section \<open>The calendar\<close>

definition days_in_month :: "nat \<Rightarrow> nat \<Rightarrow> nat" where
  "days_in_month year month =
     (if month = 2 \<and> 4 dvd year \<and> (\<not> 100 dvd year \<or> 400 dvd year) then 29
      else [31, 28, 31, 30, 31, 30, 31, 31, 30, 31, 30, 31] ! (max 1 (min 12 month) - 1))"

definition next_day :: "nat \<Rightarrow> nat \<Rightarrow> nat \<Rightarrow> nat \<times> nat \<times> nat" where
  "next_day year month day =
     (if day < days_in_month year month then (year, month, day + 1)
      else if month < 12 then (year, month + 1, 1)
      else (year + 1, 1, 1))"

definition days_from_civil :: "nat \<Rightarrow> nat \<Rightarrow> nat \<Rightarrow> int" where
  "days_from_civil year month day =
     (let y = int year - of_bool (month \<le> 2);
          era = y div 400;
          year_of_era = y - era * 400;
          month_from_march = (int month + 9) mod 12;
          day_of_year = (153 * month_from_march + 2) div 5 + int day - 1;
          day_of_era = year_of_era * 365 + year_of_era div 4 - year_of_era div 100 + day_of_year in
      era * 146097 + day_of_era - 719468)"

definition try_u32 :: "int \<Rightarrow> nat option" where
  "try_u32 x = (if 0 \<le> x \<and> x < 2 ^ 32 then Some (nat x) else None)"

definition unwrap_or :: "'a option \<Rightarrow> 'a \<Rightarrow> 'a" where
  "unwrap_or x d = (case x of None \<Rightarrow> d | Some y \<Rightarrow> y)"

definition civil_from_days :: "int \<Rightarrow> int \<times> nat \<times> nat" where
  "civil_from_days days0 =
     (let days = days0 + 719468;
          era = days div 146097;
          day_of_era = days - era * 146097;
          year_of_era = (day_of_era - day_of_era div 1460 + day_of_era div 36524 - day_of_era div 146096) div 365;
          day_of_year = day_of_era - (365 * year_of_era + year_of_era div 4 - year_of_era div 100);
          month_from_march = (5 * day_of_year + 2) div 153;
          day = day_of_year - (153 * month_from_march + 2) div 5 + 1;
          month = (if month_from_march < 10 then month_from_march + 3 else month_from_march - 9);
          year = year_of_era + era * 400 + of_bool (month \<le> 2) in
      (year, unwrap_or (try_u32 month) 1, unwrap_or (try_u32 day) 1))"

section \<open>Fractions of a second\<close>

text \<open>
  An \<open>f64\<close> between 0 and \<open>2 ^ 53\<close> is \<open>m / 2 ^ k\<close> with \<open>m \<le> 2 ^ 53\<close> and \<open>k \<le> 1074\<close>, kept as the pair
  \<open>(m, k)\<close>. Rounding a quotient to the nearest such number, ties to even, is what \<open>str::parse\<close> and
  the multiplication do.
\<close>

type_synonym f64 = "nat \<times> nat"

function f64_scale :: "nat \<Rightarrow> nat \<Rightarrow> nat \<Rightarrow> nat" where
  "f64_scale n d k = (if 1074 \<le> k \<or> 2 ^ 52 * d \<le> n * 2 ^ k then k else f64_scale n d (Suc k))"
  by pat_completeness auto
termination by (relation "measure (\<lambda>(_, _, k). 1074 - k)") auto

declare f64_scale.simps [simp del]

definition round_half_even :: "nat \<Rightarrow> nat \<Rightarrow> nat" where
  "round_half_even n d =
     (let q = n div d; r = n mod d in
      if 2 * r < d then q else if d < 2 * r then q + 1 else q + q mod 2)"

definition f64_round :: "nat \<Rightarrow> nat \<Rightarrow> f64" where
  "f64_round n d = (let k = f64_scale n d 0 in (round_half_even (n * 2 ^ k) d, k))"

definition parse_f64_fraction :: "string \<Rightarrow> f64" where
  "parse_f64_fraction fraction = f64_round (digits_value fraction) (10 ^ length fraction)"

definition f64_times :: "f64 \<Rightarrow> nat \<Rightarrow> f64" where
  "f64_times x n = (case x of (m, k) \<Rightarrow> f64_round (m * n) (2 ^ k))"

definition rounded_microseconds :: "string \<Rightarrow> int" where
  "rounded_microseconds fraction =
     (let (m, k) = f64_times (parse_f64_fraction fraction) 1000000;
          whole = m div 2 ^ k;
          rest = 2 * (m mod 2 ^ k) in
      int (if 2 ^ k < rest then whole + 1 else if rest = 2 ^ k then whole + whole mod 2 else whole))"

section \<open>Offsets, clocks and dates\<close>

record utc_offset =
  uo_negative :: bool
  uo_hours :: nat
  uo_minutes :: nat

definition OFFSET_UTC :: utc_offset where
  "OFFSET_UTC = \<lparr>uo_negative = False, uo_hours = 0, uo_minutes = 0\<rparr>"

definition offset_render :: "utc_offset \<Rightarrow> string" where
  "offset_render z = (if uo_negative z then CHR ''-'' else CHR ''+'') # pad0 2 (uo_hours z) @ '':'' @ pad0 2 (uo_minutes z)"

definition offset_seconds :: "utc_offset \<Rightarrow> int" where
  "offset_seconds z = (let magnitude = int (uo_hours z) * 3600 + int (uo_minutes z) * 60 in
     if uo_negative z then - magnitude else magnitude)"

record clock =
  cl_hour :: nat
  cl_minute :: nat
  cl_second :: nat
  cl_fraction :: "string option"

definition MIDNIGHT :: clock where
  "MIDNIGHT = \<lparr>cl_hour = 0, cl_minute = 0, cl_second = 0, cl_fraction = None\<rparr>"

definition clock_render :: "clock \<Rightarrow> string" where
  "clock_render c = pad0 2 (cl_hour c) @ '':'' @ pad0 2 (cl_minute c) @ '':'' @ pad0 2 (cl_second c)
     @ (case cl_fraction c of Some f \<Rightarrow> CHR ''.'' # f | None \<Rightarrow> [])"

definition parse_component :: "temporal_literal_kind \<Rightarrow> string \<Rightarrow> string \<Rightarrow> nat temporal" where
  "parse_component kind part text =
     (if part = [] \<or> \<not> list_all is_ascii_digit part then refuse (wrong_shape kind text)
      else ok_or (parse_u32 part) (out_of_range text))"

text \<open>\<open>Iterator::next\<close> on the pieces of a split.\<close>

fun next_part :: "string list \<Rightarrow> string option \<times> string list" where
  "next_part [] = (None, [])"
| "next_part (p # ps) = (Some p, ps)"

definition parse_offset :: "temporal_literal_kind \<Rightarrow> string \<Rightarrow> string \<Rightarrow> utc_offset temporal" where
  "parse_offset kind zone text =
     (let sign = take 1 zone;
          (p1, r1) = next_part (split_on (CHR '':'') (drop 1 zone));
          (p2, r2) = next_part r1;
          (p3, r3) = next_part r2 in
      res_bind (parse_component kind (unwrap_or p1 []) text) (\<lambda>hours.
      res_bind (case p2 of Some m \<Rightarrow> parse_component kind m text | None \<Rightarrow> ok 0) (\<lambda>minutes.
      if p3 \<noteq> None then refuse (unreadable kind text ''the time zone offset has too many parts.'')
      else if hours > 15 \<or> minutes > 59 then refuse (out_of_range text)
      else ok \<lparr>uo_negative = (sign = ''-''), uo_hours = hours, uo_minutes = minutes\<rparr>)))"

definition split_time_zone :: "temporal_literal_kind \<Rightarrow> string \<Rightarrow> bool \<Rightarrow> (string \<times> utc_offset option) temporal" where
  "split_time_zone kind text zoned =
     (let time_start = (case kind of
            KTime _ \<Rightarrow> Some 0
          | _ \<Rightarrow> map_option (\<lambda>i. i + 1) (find_index (\<lambda>c. c \<in> set '' Tt'') text));
          offset_at = Option.bind time_start (\<lambda>start.
            map_option (\<lambda>i. i + start) (find_index (\<lambda>c. c \<in> set ''+-'') (drop start text)));
          (body, zone) = (case offset_at of
            Some i \<Rightarrow> (take i text, Some (drop i text))
          | None \<Rightarrow> if text \<noteq> [] \<and> last text \<in> set ''Zz'' then (butlast text, Some ''Z'') else (text, None)) in
      case zone of
        None \<Rightarrow> ok (text, None)
      | Some z \<Rightarrow>
          if \<not> zoned then refuse (unreadable kind text
            ''this column has no time zone, so an offset in the value would be dropped.'')
          else res_bind (if z = ''Z'' then ok OFFSET_UTC else parse_offset kind z text)
            (\<lambda>offset. ok (trim_end body, Some offset)))"

definition split_timestamp :: "string \<Rightarrow> string \<times> string option" where
  "split_timestamp text = (case find_index (\<lambda>c. c \<in> set '' Tt'') text of
     Some i \<Rightarrow> (let time = trim (drop (i + 1) text) in (take i text, if time = [] then None else Some time))
   | None \<Rightarrow> (text, None))"

definition parse_date :: "temporal_literal_kind \<Rightarrow> string \<Rightarrow> string \<Rightarrow> (nat \<times> nat \<times> nat) temporal" where
  "parse_date kind date text =
     (let (p1, r1) = next_part (split_on (CHR ''-'') date);
          (p2, r2) = next_part r1;
          (p3, r3) = next_part r2;
          (p4, r4) = next_part r3 in
      res_bind (parse_component kind (unwrap_or p1 []) text) (\<lambda>year.
      res_bind (ok_or p2 (wrong_shape kind text)) (\<lambda>m.
      res_bind (parse_component kind m text) (\<lambda>month.
      res_bind (ok_or p3 (wrong_shape kind text)) (\<lambda>d.
      res_bind (parse_component kind d text) (\<lambda>day.
      if p4 \<noteq> None then refuse (wrong_shape kind text)
      else if \<not> (1 \<le> year \<and> year \<le> 9999) then refuse (out_of_range text)
      else if \<not> (1 \<le> month \<and> month \<le> 12) \<or> day < 1 \<or> day > days_in_month year month then refuse (out_of_range text)
      else ok (year, month, day)))))))"

definition leap_second :: "string \<Rightarrow> string" where
  "leap_second text = dquoted text @ '' has second=60, which PostgreSQL normalises away and SQLite cannot ''
     @ ''represent. Write the value PostgreSQL would store instead.''"

definition parse_second :: "temporal_literal_kind \<Rightarrow> string option \<Rightarrow> string \<Rightarrow> (nat \<times> string option) temporal" where
  "parse_second kind part text = (case part of
     Some s \<Rightarrow> (case split_once (CHR ''.'') s of
       Some (whole, fraction) \<Rightarrow>
         if fraction = [] \<or> \<not> list_all is_ascii_digit fraction then refuse (wrong_shape kind text)
         else res_bind (parse_component kind whole text) (\<lambda>w. ok (w, Some fraction))
     | None \<Rightarrow> res_bind (parse_component kind s text) (\<lambda>w. ok (w, None)))
   | None \<Rightarrow> ok (0, None))"

definition parse_time :: "temporal_literal_kind \<Rightarrow> string \<Rightarrow> string \<Rightarrow> clock temporal" where
  "parse_time kind time text =
     (let (p1, r1) = next_part (split_on (CHR '':'') time);
          (p2, r2) = next_part r1;
          (p3, r3) = next_part r2;
          (p4, r4) = next_part r3 in
      res_bind (parse_component kind (unwrap_or p1 []) text) (\<lambda>hour.
      res_bind (ok_or p2 (wrong_shape kind text)) (\<lambda>m.
      res_bind (parse_component kind m text) (\<lambda>minute.
      res_bind (parse_second kind p3 text) (\<lambda>(second, fraction).
      if p4 \<noteq> None then refuse (wrong_shape kind text)
      else if minute > 59 \<or> second > 59 then
        (if second = 60 then refuse (leap_second text) else refuse (out_of_range text))
      else if hour > 24 \<or> (hour = 24 \<and> (minute > 0 \<or> second > 0 \<or> fraction \<noteq> None)) then refuse (out_of_range text)
      else ok \<lparr>cl_hour = hour, cl_minute = minute, cl_second = second, cl_fraction = fraction\<rparr>)))))"

section \<open>Instants and the normal form\<close>

definition outside_years :: "string \<Rightarrow> string" where
  "outside_years text = dquoted text @ '' falls outside the years 1 to 9999 once it is moved to UTC, and the ''
     @ ''replica holds a timestamp with time zone as UTC text with a four-digit year.''"

definition canonical_instant :: "nat \<times> nat \<times> nat \<Rightarrow> clock \<Rightarrow> int \<Rightarrow> string \<Rightarrow> string temporal" where
  "canonical_instant date c offset text = (case date of (year, month, day) \<Rightarrow>
     (let seconds = int (cl_hour c) * 3600 + int (cl_minute c) * 60 + int (cl_second c) - offset;
          micros = days_from_civil year month day * 86400000000 + seconds * 1000000
            + (case cl_fraction c of None \<Rightarrow> 0 | Some f \<Rightarrow> rounded_microseconds f);
          (year', month', day') = civil_from_days (micros div 86400000000) in
      if \<not> (1 \<le> year' \<and> year' \<le> 9999) then refuse (outside_years text)
      else (let micros_of_day = micros mod 86400000000; second_of_day = micros_of_day div 1000000 in
        ok (pad0_int 4 year' @ ''-'' @ pad0 2 month' @ ''-'' @ pad0 2 day' @ '' ''
          @ pad0_int 2 (second_of_day div 3600) @ '':'' @ pad0_int 2 (second_of_day div 60 mod 60) @ '':''
          @ pad0_int 2 (second_of_day mod 60) @ ''.'' @ pad0_int 6 (micros_of_day mod 1000000) @ ''+00:00''))))"

definition date_render :: "nat \<times> nat \<times> nat \<Rightarrow> string" where
  "date_render = (\<lambda>(year, month, day). pad0 4 year @ ''-'' @ pad0 2 month @ ''-'' @ pad0 2 day)"

definition normalize_temporal_literal :: "temporal_literal_kind \<Rightarrow> string \<Rightarrow> string temporal" where
  "normalize_temporal_literal kind text =
     (let trimmed = trim text in
      res_bind (reject_non_iso_input kind trimmed) (\<lambda>_.
      case kind of
        KDate \<Rightarrow> res_bind (parse_date kind trimmed trimmed) (\<lambda>date. ok (date_render date))
      | KTime zoned \<Rightarrow>
          res_bind (split_time_zone kind trimmed zoned) (\<lambda>(body, zone).
          res_bind (parse_time kind body trimmed) (\<lambda>c.
          ok (clock_render c @ (case zone of None \<Rightarrow> [] | Some z \<Rightarrow> offset_render z))))
      | KTimestamp zoned \<Rightarrow>
          res_bind (split_time_zone kind trimmed zoned) (\<lambda>(body, zone).
          (let (date, time) = split_timestamp body in
           res_bind (parse_date kind date trimmed) (\<lambda>(year, month, day).
           res_bind (case time of Some t \<Rightarrow> parse_time kind t trimmed | None \<Rightarrow> ok MIDNIGHT) (\<lambda>c.
           if zoned then
             canonical_instant (year, month, day) c (case zone of None \<Rightarrow> 0 | Some z \<Rightarrow> offset_seconds z) trimmed
           else if cl_hour c = 24 then
             ok (date_render (next_day year month day) @ '' '' @ clock_render MIDNIGHT)
           else ok (date_render (year, month, day) @ '' '' @ clock_render c)))))))"

end
