(* ===== verification/Temporal_Facts.thy ===== *)
theory Temporal_Facts
  imports Temporal
begin

text \<open>
  The arithmetic below the temporal literals: the two calendar conversions are inverse to each
  other and follow the calendar day by day, and a fraction of a second that can be written in
  microseconds keeps them through the floating-point rounding.
\<close>

section \<open>The calendar\<close>

definition valid_date :: "nat \<Rightarrow> nat \<Rightarrow> nat \<Rightarrow> bool" where
  "valid_date year month day \<longleftrightarrow> 1 \<le> month \<and> month \<le> 12 \<and> 1 \<le> day \<and> day \<le> days_in_month year month"

lemma div_eqI: "(k :: int) * d \<le> n \<Longrightarrow> n < (k + 1) * d \<Longrightarrow> 0 < d \<Longrightarrow> n div d = k"
  by (rule int_div_pos_eq [where r = "n - k * d"]) (auto simp: algebra_simps)

lemma year_of_era_recovered:
  fixes c q r doy :: int
  assumes b: "0 \<le> c" "c \<le> 3" "0 \<le> q" "q \<le> 24" "0 \<le> r" "r \<le> 3" "0 \<le> doy" "doy \<le> 365"
    and leap: "doy = 365 \<Longrightarrow> r = 3 \<and> (q < 24 \<or> c = 3)"
    and doe: "doe = 365 * (100 * c + 4 * q + r) + (25 * c + q) - c + doy"
  shows "(doe - doe div 1460 + doe div 36524 - doe div 146096) div 365 = 100 * c + 4 * q + r"
proof -
  define t1 t2 t3 :: int
    where "t1 = of_bool (1460 \<le> 24 * c + q + 365 * r + doy)"
      and "t2 = of_bool (36524 \<le> 1461 * q + 365 * r + doy)"
      and "t3 = of_bool (146096 \<le> doe)"
  have A: "doe div 1460 = 25 * c + q + t1"
    using b doe by (intro div_eqI) (auto simp: t1_def)
  have B: "doe div 36524 = c + t2"
    using b doe by (intro div_eqI) (auto simp: t2_def)
  have C: "doe div 146096 = t3"
    using b doe by (intro div_eqI) (auto simp: t3_def)
  have "t1 \<le> doy" "t3 \<le> doy - t1 + t2" using b doe by (auto simp: t1_def t2_def t3_def)
  moreover have "doy - t1 + t2 - t3 \<le> 364"
  proof (cases "doy = 365")
    case True
    with leap have r: "r = 3" "q < 24 \<or> c = 3" by auto
    then have "t1 = 1" using b True by (simp add: t1_def)
    moreover have "t2 \<le> t3"
      using b r True doe by (auto simp: t2_def t3_def)
    ultimately show ?thesis using True by simp
  next
    case False
    then have "doy \<le> 364" using b by simp
    then have "t2 = 0" using b by (auto simp: t2_def)
    then show ?thesis using \<open>doy \<le> 364\<close> by (simp add: t1_def t3_def)
  qed
  ultimately show ?thesis
    unfolding A B C using b doe by (intro div_eqI) auto
qed

lemma month_cases:
  assumes "1 \<le> (m :: nat)" "m \<le> 12"
  obtains "m = 1" | "m = 2" | "m = 3" | "m = 4" | "m = 5" | "m = 6" | "m = 7" | "m = 8" | "m = 9" | "m = 10" | "m = 11" | "m = 12"
proof -
  from assms have "m = 1 \<or> m = 2 \<or> m = 3 \<or> m = 4 \<or> m = 5 \<or> m = 6 \<or> m = 7 \<or> m = 8 \<or> m = 9 \<or> m = 10 \<or> m = 11 \<or> m = 12"
    by presburger
  with that show thesis by blast
qed

lemma month_recovered:
  assumes v: "valid_date y m d"
    and mp: "mp = (int m + 9) mod 12" and doy: "doy = (153 * mp + 2) div 5 + int d - 1"
  shows "0 \<le> doy" "doy \<le> 365" "(5 * doy + 2) div 153 = mp"
    "(if mp < 10 then mp + 3 else mp - 9) = int m" "doy - (153 * mp + 2) div 5 + 1 = int d"
    "doy = 365 \<Longrightarrow> m = 2 \<and> d = 29"
proof -
  from v have m: "1 \<le> m" "m \<le> 12" and d: "1 \<le> d" "d \<le> days_in_month y m" by (auto simp: valid_date_def)
  show "0 \<le> doy" "doy \<le> 365" "(5 * doy + 2) div 153 = mp" "(if mp < 10 then mp + 3 else mp - 9) = int m"
    "doy - (153 * mp + 2) div 5 + 1 = int d" "doy = 365 \<Longrightarrow> m = 2 \<and> d = 29"
    using m(1,2) d mp doy by (cases m rule: month_cases; auto simp: days_in_month_def split: if_splits intro!: div_eqI)+
qed

lemma leap_year_of_era:
  fixes y :: nat
  assumes "4 dvd y" "\<not> 100 dvd y \<or> 400 dvd y" and e: "yoe = (int y - 1) mod 400"
  shows "yoe mod 4 = 3" "yoe mod 100 div 4 < 24 \<or> yoe div 100 = 3"
proof -
  have d: "4 dvd int y" "100 dvd int y \<longrightarrow> 400 dvd int y"
    using assms(1,2) int_dvd_int_iff [of 4 y] int_dvd_int_iff [of 100 y] int_dvd_int_iff [of 400 y] by auto
  have "yoe mod 4 = (int y - 1) mod 4" unfolding e by (rule mod_mod_cancel) simp
  then show r: "yoe mod 4 = 3" using d(1) by presburger
  have c: "yoe mod 100 = (int y - 1) mod 100" unfolding e by (rule mod_mod_cancel) simp
  show "yoe mod 100 div 4 < 24 \<or> yoe div 100 = 3"
  proof (cases "yoe mod 100 div 4 < 24")
    case False
    have "yoe mod 100 mod 4 = 3" using r by (simp add: mod_mod_cancel)
    moreover have "yoe mod 100 < 100" by simp
    ultimately have "(int y - 1) mod 100 = 99" unfolding c [symmetric] using False by presburger
    then have "100 dvd int y" by presburger
    with d(2) obtain k where "int y = 400 * k" by auto
    then have "yoe = 399" using e mod_mult_self2 [of "-1" 400 k] by (simp add: algebra_simps)
    then show ?thesis by simp
  qed simp
qed

lemma era_parts:
  fixes yoe :: int
  assumes "0 \<le> yoe" "yoe < 400"
  defines "c \<equiv> yoe div 100" and "q \<equiv> yoe mod 100 div 4" and "r \<equiv> yoe mod 4"
  shows "0 \<le> c" "c \<le> 3" "0 \<le> q" "q \<le> 24" "0 \<le> r" "r \<le> 3" "yoe = 100 * c + 4 * q + r" "yoe div 4 = 25 * c + q"
proof -
  have m: "yoe mod 100 mod 4 = yoe mod 4" by (simp add: mod_mod_cancel)
  have "yoe mod 100 = 4 * q + r" unfolding q_def r_def m [symmetric] by (rule mult_div_mod_eq [symmetric])
  then show y: "yoe = 100 * c + 4 * q + r" using mult_div_mod_eq [of 100 yoe] by (simp add: c_def)
  have "yoe mod 100 < 100" "0 \<le> yoe mod 100" by simp_all
  then show "0 \<le> q" "q \<le> 24" by (auto simp: q_def)
  show r: "0 \<le> r" "r \<le> 3" using pos_mod_bound [of 4 yoe] by (auto simp: r_def)
  show "yoe div 4 = 25 * c + q" by (rule div_eqI) (use y r in auto)
  show "0 \<le> c" "c \<le> 3" using assms(1,2) by (auto simp: c_def)
qed

lemma try_u32_small [simp]: "unwrap_or (try_u32 (int n)) d = n" if "n < 2 ^ 32"
  using that by (simp add: try_u32_def unwrap_or_def)

lemma civil_from_daysI:
  assumes "days + 719468 = era * 146097 + doe" "0 \<le> doe" "doe < 146097"
    and "(doe - doe div 1460 + doe div 36524 - doe div 146096) div 365 = yoe"
    and "doe = 365 * yoe + yoe div 4 - yoe div 100 + doy"
    and "(5 * doy + 2) div 153 = mp" "(if mp < 10 then mp + 3 else mp - 9) = int m"
    and "doy - (153 * mp + 2) div 5 + 1 = int d" "m < 2 ^ 32" "d < 2 ^ 32"
  shows "civil_from_days days = (yoe + era * 400 + of_bool (m \<le> 2), m, d)"
proof -
  have era: "(era * 146097 + doe) div 146097 = era" using assms(2,3) by simp
  have doy: "doe - (365 * yoe + yoe div 4 - yoe div 100) = doy" using assms(5) by simp
  show ?thesis
    unfolding civil_from_days_def Let_def assms(1) era add_diff_cancel_left' assms(4) doy assms(6-8)
    using assms(9,10) by simp
qed

lemma civil_from_days_from_civil:
  assumes v: "valid_date y m d"
  shows "civil_from_days (days_from_civil y m d) = (int y, m, d)"
proof -
  define mp doy where "mp = (int m + 9) mod 12" and "doy = (153 * mp + 2) div 5 + int d - 1"
  note month = month_recovered [OF v mp_def doy_def]
  define y' yoe era :: int where "y' = int y - of_bool (m \<le> 2)" and "yoe = y' - y' div 400 * 400" and "era = y' div 400"
  have yoe: "yoe = y' mod 400" by (simp add: yoe_def minus_div_mult_eq_mod)
  then have "0 \<le> yoe" "yoe < 400" by simp_all
  note parts = era_parts [OF this]
  define c q r where "c = yoe div 100" and "q = yoe mod 100 div 4" and "r = yoe mod 4"
  note p = parts [folded c_def q_def r_def]
  have leap: "r = 3 \<and> (q < 24 \<or> c = 3)" if "doy = 365"
  proof -
    from month(6) [OF that] have "m = 2" "d = 29" by simp_all
    with v have "4 dvd y" "\<not> 100 dvd y \<or> 400 dvd y" by (auto simp: valid_date_def days_in_month_def split: if_splits)
    moreover have "yoe = (int y - 1) mod 400" using yoe \<open>m = 2\<close> by (simp add: y'_def)
    ultimately show ?thesis unfolding c_def q_def r_def by (intro conjI leap_year_of_era)
  qed
  define doe where "doe = 365 * yoe + yoe div 4 - yoe div 100 + doy"
  have doe: "doe = 365 * (100 * c + 4 * q + r) + (25 * c + q) - c + doy"
    by (simp only: doe_def p(8) c_def [symmetric] p(7) [symmetric])
  note year = year_of_era_recovered [OF p(1-6) month(1,2) leap doe, folded p(7)]
  have b: "0 \<le> doe" "doe < 146097" using p(1-6) month(1,2) leap doe by auto
  have d32: "m < 2 ^ 32" "d < 2 ^ 32"
    using v by (auto simp: valid_date_def days_in_month_def nth_Cons' split: if_splits)
  have "days_from_civil y m d = era * 146097 + doe - 719468"
    by (simp only: days_from_civil_def Let_def era_def doe_def yoe_def y'_def doy_def mp_def mult.commute)
  then have "days_from_civil y m d + 719468 = era * 146097 + doe" by simp
  note civil = civil_from_daysI [OF this b year _ month(3-5) d32]
  have "y' = yoe + era * 400" by (simp add: yoe_def era_def)
  then have "yoe + era * 400 + of_bool (m \<le> 2) = int y" by (simp only: y'_def)
  with civil show ?thesis by (simp add: doe_def)
qed

text \<open>The day count in closed form: the days of the years before, and the day of the March year.\<close>

definition days_before :: "int \<Rightarrow> int" where
  "days_before y = 365 * y + y div 4 - y div 100 + y div 400"

lemma days_from_civil_alt:
  "days_from_civil y m d = days_before (int y - of_bool (m \<le> 2)) + (153 * ((int m + 9) mod 12) + 2) div 5 + int d - 719469"
proof -
  define y' e s where "y' = int y - of_bool (m \<le> 2)" and "e = y' div 400" and "s = y' - e * 400"
  have y': "y' = s + e * 400" by (simp add: s_def)
  have a: "y' div 4 = s div 4 + 100 * e" "y' div 100 = s div 100 + 4 * e"
    unfolding y' using div_mult_self1 [of 4 s "e * 100"] div_mult_self1 [of 100 s "e * 4"] by (simp_all add: algebra_simps)
  have "days_before y' = e * 146097 + (s * 365 + s div 4 - s div 100)"
    unfolding days_before_def e_def [symmetric] a using y' by linarith
  then show ?thesis
    unfolding days_from_civil_def Let_def y'_def [symmetric] e_def [symmetric] s_def [symmetric] by simp
qed

lemma div_step: "0 < k \<Longrightarrow> (y :: int) div k - (y - 1) div k = of_bool (k dvd y)"
proof -
  assume k: "0 < k"
  show ?thesis
  proof (cases "k dvd y")
    case True
    then obtain j where j: "y = k * j" by auto
    have "(y - 1) div k = j - 1" by (rule div_eqI) (use k j in \<open>auto simp: algebra_simps\<close>)
    with True j k show ?thesis by simp
  next
    case False
    have "(y - 1) div k = y div k"
    proof (rule div_eqI)
      have "y mod k \<noteq> 0" using False by auto
      then have "0 < y mod k" using k pos_mod_sign [of k y] by linarith
      moreover have "y = y div k * k + y mod k" by simp
      ultimately show "y div k * k \<le> y - 1" by linarith
      have "y mod k < k" using k by simp
      with \<open>y = y div k * k + y mod k\<close> show "y - 1 < (y div k + 1) * k"
        by (simp only: distrib_right)
    qed (fact k)
    with False show ?thesis by simp
  qed
qed

lemma days_before_step:
  "days_before (int y) - days_before (int y - 1) = 365 + of_bool (4 dvd y \<and> (\<not> 100 dvd y \<or> 400 dvd y))"
proof -
  have t: "100 dvd y \<longrightarrow> 4 dvd y" "400 dvd y \<longrightarrow> 100 dvd y" by (auto elim: dvd_trans [rotated])
  have i: "4 dvd int y \<longleftrightarrow> 4 dvd y" "100 dvd int y \<longleftrightarrow> 100 dvd y" "400 dvd int y \<longleftrightarrow> 400 dvd y"
    using int_dvd_int_iff [of 4 y] int_dvd_int_iff [of 100 y] int_dvd_int_iff [of 400 y] by simp_all
  note s = div_step [of 4 "int y", unfolded i] div_step [of 100 "int y", unfolded i] div_step [of 400 "int y", unfolded i]
  have "days_before (int y) - days_before (int y - 1) = 365 + of_bool (4 dvd y) - of_bool (100 dvd y) + of_bool (400 dvd y)"
    unfolding days_before_def using s by simp
  also have "\<dots> = 365 + of_bool (4 dvd y \<and> (\<not> 100 dvd y \<or> 400 dvd y))"
    using t by (cases "4 dvd y"; cases "100 dvd y"; cases "400 dvd y") simp_all
  finally show ?thesis .
qed

lemma next_day_steps:
  assumes "valid_date y m d" "next_day y m d = (y', m', d')"
  shows "valid_date y' m' d'" "days_from_civil y' m' d' = days_from_civil y m d + 1"
proof -
  from assms have m: "1 \<le> m" "m \<le> 12" and d: "1 \<le> d" "d \<le> days_in_month y m" by (auto simp: valid_date_def)
  show "valid_date y' m' d'"
    using m assms d by (cases m rule: month_cases) (auto simp: next_day_def valid_date_def days_in_month_def split: if_splits)
  show "days_from_civil y' m' d' = days_from_civil y m d + 1"
  proof (cases "d < days_in_month y m")
    case True
    with assms show ?thesis by (auto simp: next_day_def days_from_civil_alt)
  next
    case False
    with d have "d = days_in_month y m" by simp
    with m assms(2) days_before_step [of y] show ?thesis
      by (cases m rule: month_cases) (auto simp: next_day_def days_from_civil_alt days_in_month_def split: if_splits)
  qed
qed

lemma of_bool_nonneg: "0 \<le> (of_bool p :: int)"
  by simp

lemma every_day_has_a_date: "\<exists>y m d. valid_date y m d \<and> days_from_civil y m d = int n - 719528"
proof (induction n)
  case 0
  have "valid_date 0 1 1" by (simp add: valid_date_def days_in_month_def)
  moreover have "days_from_civil 0 1 1 = - 719528" by (simp add: days_from_civil_alt days_before_def)
  ultimately show ?case by (intro exI [of _ 0] exI [of _ 1]) simp
next
  case (Suc n)
  then obtain y m d where "valid_date y m d" "days_from_civil y m d = int n - 719528" by blast
  moreover obtain y' m' d' where "next_day y m d = (y', m', d')" by (cases "next_day y m d") auto
  ultimately show ?case
    using next_day_steps [of y m d y' m' d'] by (intro exI [of _ y'] exI [of _ m'] exI [of _ d']) simp
qed

definition civil_of_era_day :: "int \<Rightarrow> int \<times> int \<times> int" where
  "civil_of_era_day doe =
     (let yoe = (doe - doe div 1460 + doe div 36524 - doe div 146096) div 365;
          doy = doe - (365 * yoe + yoe div 4 - yoe div 100);
          mp = (5 * doy + 2) div 153 in
      (yoe, if mp < 10 then mp + 3 else mp - 9, doy - (153 * mp + 2) div 5 + 1))"

lemma civil_from_days_alt:
  "civil_from_days days =
     (let era = (days + 719468) div 146097;
          (yoe, month, day) = civil_of_era_day (days + 719468 - era * 146097) in
      (yoe + era * 400 + of_bool (month \<le> 2), unwrap_or (try_u32 month) 1, unwrap_or (try_u32 day) 1))"
  unfolding civil_from_days_def civil_of_era_day_def Let_def prod.case by (rule refl)

lemma civil_from_days_shift:
  assumes "civil_from_days days = (y, m, d)"
  shows "civil_from_days (days - 146097 * k) = (y - 400 * k, m, d)"
proof -
  define era where "era = (days + 719468) div 146097"
  obtain yoe month day where c: "civil_of_era_day (days + 719468 - era * 146097) = (yoe, month, day)"
    by (cases "civil_of_era_day (days + 719468 - era * 146097)")
  have e: "days - 146097 * k + 719468 = days + 719468 + 146097 * (- k)" by simp
  have "(days - 146097 * k + 719468) div 146097 = era - k"
    unfolding e era_def by (simp only: div_mult_self2)
  moreover have "days - 146097 * k + 719468 - (era - k) * 146097 = days + 719468 - era * 146097"
    by (simp add: left_diff_distrib)
  ultimately show ?thesis
    using assms unfolding civil_from_days_alt Let_def era_def [symmetric] c prod.case
    by (simp only: c prod.case) (auto simp: left_diff_distrib)
qed

lemma day_within_its_year:
  assumes "valid_date y m d"
  shows "days_from_civil y 1 1 \<le> days_from_civil y m d" "days_from_civil y m d < days_from_civil (Suc y) 1 1"
proof -
  have m: "1 \<le> m" "m \<le> 12" and d: "1 \<le> d" "d \<le> days_in_month y m" using assms by (auto simp: valid_date_def)
  have s: "days_from_civil (Suc y) 1 1 = days_before (int y) + 306 + 1 - 719469"
    "days_from_civil y 1 1 = days_before (int y - 1) + 306 + 1 - 719469"
    by (simp_all add: days_from_civil_alt)
  define doy where "doy = (153 * ((int m + 9) mod 12) + 2) div 5 + int d - 1"
  have doy: "306 \<le> doy \<and> doy \<le> 365 \<and> m \<le> 2 \<or> 0 \<le> doy \<and> doy < 306 \<and> \<not> m \<le> 2"
    using m d by (cases m rule: month_cases) (auto simp: doy_def days_in_month_def split: if_splits)
  have "days_from_civil y m d = days_before (int y - of_bool (m \<le> 2)) + doy - 719468"
    by (simp add: days_from_civil_alt doy_def)
  then have c: "m \<le> 2 \<longrightarrow> days_from_civil y m d = days_before (int y - 1) + doy - 719468"
    "\<not> m \<le> 2 \<longrightarrow> days_from_civil y m d = days_before (int y) + doy - 719468" by simp_all
  have g: "days_before (int y - 1) + 365 \<le> days_before (int y)" 
    using days_before_step [of y] of_bool_nonneg [of "4 dvd y \<and> (\<not> 100 dvd y \<or> 400 dvd y)"] by linarith
  show "days_from_civil y 1 1 \<le> days_from_civil y m d" using s(2) c doy g by linarith
  show "days_from_civil y m d < days_from_civil (Suc y) 1 1" using s(1) c doy g by linarith
qed

lemma year_starts_mono: "y \<le> y' \<Longrightarrow> days_from_civil y 1 1 \<le> days_from_civil y' 1 1"
proof (induction y' rule: dec_induct)
  case (step n)
  have "valid_date n 1 1" by (simp add: valid_date_def days_in_month_def)
  from day_within_its_year(2) [OF this] step show ?case by linarith
qed simp

lemma civil_from_days_valid:
  assumes "civil_from_days days = (y, m, d)" "1 \<le> y"
  shows "valid_date (nat y) m d" "days_from_civil (nat y) m d = days"
proof -
  have "-719528 \<le> days"
  proof (rule ccontr)
    assume "\<not> -719528 \<le> days"
    define k where "k = (- 719528 - days) div 146097 + 1"
    define n where "n = nat (days + 146097 * k + 719528)"
    have "- 719528 - days = (- 719528 - days) div 146097 * 146097 + (- 719528 - days) mod 146097" by simp
    moreover have "(- 719528 - days) mod 146097 < 146097" "0 \<le> (- 719528 - days) mod 146097" by simp_all
    ultimately have b: "0 \<le> days + 146097 * k + 719528" "days + 146097 * k + 719528 \<le> 146097"
      by (auto simp: k_def algebra_simps)
    have k: "1 \<le> k" using \<open>\<not> -719528 \<le> days\<close> by (simp add: k_def pos_imp_zdiv_nonneg_iff)
    obtain y' m' d' where v: "valid_date y' m' d'" "days_from_civil y' m' d' = days + 146097 * k"
      using every_day_has_a_date [of n] b by (auto simp: n_def)
    have "civil_from_days (days + 146097 * k - 146097 * k) = (int y' - 400 * k, m', d')"
      unfolding v(2) [symmetric] by (rule civil_from_days_shift [OF civil_from_days_from_civil [OF v(1)]])
    with assms have y: "y = int y' - 400 * k" by simp
    have "y' \<le> 400"
    proof (rule ccontr)
      assume "\<not> y' \<le> 400"
      then have "days_from_civil 401 1 1 \<le> days_from_civil y' 1 1" by (intro year_starts_mono) simp
      with day_within_its_year(1) [OF v(1)] v(2) b show False
        by (simp add: days_from_civil_alt [of 401] days_before_def)
    qed
    with y k assms(2) show False by simp
  qed
  then obtain y' m' d' where v: "valid_date y' m' d'" "days_from_civil y' m' d' = days"
    using every_day_has_a_date [of "nat (days + 719528)"] by auto
  from civil_from_days_from_civil [OF v(1)] v(2) assms have "y' = nat y" "m' = m" "d' = d" by auto
  with v show "valid_date (nat y) m d" "days_from_civil (nat y) m d = days" by auto
qed

section \<open>Fractions of a second\<close>

lemma f64_scale_ge: "k \<le> f64_scale n d k"
proof (induction n d k rule: f64_scale.induct)
  case (1 n d k)
  then show ?case by (subst f64_scale.simps) force
qed

lemma f64_scale_reaches:
  assumes "k \<le> j" "j \<le> 1074" "n * 2 ^ (j - 1) < 2 ^ 52 * d" "k < j"
  shows "j \<le> f64_scale n d k"
  using assms
proof (induction n d k rule: f64_scale.induct)
  case (1 n d k)
  have "n * 2 ^ k \<le> n * 2 ^ (j - 1)" using 1(5) by (intro mult_left_mono power_increasing) auto
  with 1 have "\<not> (1074 \<le> k \<or> 2 ^ 52 * d \<le> n * 2 ^ k)" by linarith
  moreover from this 1 have "j \<le> f64_scale n d (Suc k)"
    using f64_scale_ge [of "Suc k" n d] by (cases "Suc k = j") auto
  ultimately show ?case by (subst f64_scale.simps) simp
qed

lemma round_half_even_near:
  assumes "0 < d"
  shows "2 * int (round_half_even n d) * int d \<le> 2 * int n + int d" "2 * int n \<le> 2 * int (round_half_even n d) * int d + int d"
proof -
  have n: "int n = int (n div d) * int d + int (n mod d)"
    by (metis div_mult_mod_eq of_nat_add of_nat_mult)
  have r: "int (n mod d) < int d" using assms by simp
  have "n div d mod 2 = 0 \<or> n div d mod 2 = 1" by presburger
  then show "2 * int (round_half_even n d) * int d \<le> 2 * int n + int d" "2 * int n \<le> 2 * int (round_half_even n d) * int d + int d"
    unfolding n using r by (auto simp: round_half_even_def Let_def algebra_simps of_nat_mod [symmetric] elim: oddE split: if_splits)
qed

text \<open>A number of at most \<open>b\<close> keeps its value up to half a unit of the last place of its magnitude.\<close>

lemma f64_round_near:
  assumes r: "f64_round n d = (m, k)" and d: "0 < d" and b: "n * 2 ^ (j - 1) < 2 ^ 52 * d" "0 < j" "j \<le> 1074"
  shows "j \<le> k" "\<bar>real m / 2 ^ k - real n / real d\<bar> \<le> 1 / 2 ^ (j + 1)"
proof -
  from r have k: "k = f64_scale n d 0" and m: "m = round_half_even (n * 2 ^ k) d"
    by (auto simp: f64_round_def Let_def)
  show jk: "j \<le> k" unfolding k by (rule f64_scale_reaches) (use b in auto)
  have i: "2 * int m * int d \<le> 2 * (int n * 2 ^ k) + int d" "2 * (int n * 2 ^ k) \<le> 2 * int m * int d + int d"
    using round_half_even_near [OF d, of "n * 2 ^ k"] by (simp_all add: m)
  have "real_of_int (2 * int m * int d) \<le> real_of_int (2 * (int n * 2 ^ k) + int d)"
    "real_of_int (2 * (int n * 2 ^ k)) \<le> real_of_int (2 * int m * int d + int d)"
    using i by (simp_all only: of_int_le_iff)
  moreover have "real_of_int (2 * int m * int d) = 2 * (real m * real d)" "real_of_int (2 * (int n * 2 ^ k)) = 2 * (real n * 2 ^ k)"
    by simp_all
  ultimately have "\<bar>real m * real d - real n * 2 ^ k\<bar> \<le> real d / 2" by (simp only: of_int_add of_int_of_nat_eq)
  then have "\<bar>real m * real d - real n * 2 ^ k\<bar> / (2 ^ k * real d) \<le> real d / 2 / (2 ^ k * real d)"
    by (rule divide_right_mono) simp
  moreover have "\<bar>real m * real d - real n * 2 ^ k\<bar> / (2 ^ k * real d) = \<bar>real m / 2 ^ k - real n / real d\<bar>"
  proof -
    have "real m / 2 ^ k - real n / real d = (real m * real d - real n * 2 ^ k) / (2 ^ k * real d)"
      using d by (simp add: field_simps)
    then show ?thesis by (simp add: abs_divide abs_mult)
  qed
  moreover have "real d / 2 / (2 ^ k * real d) = 1 / 2 ^ (k + 1)" using d by simp
  moreover have "1 / 2 ^ (k + 1) \<le> (1 / 2 ^ (j + 1) :: real)"
    using jk by (intro divide_left_mono power_increasing) auto
  ultimately show "\<bar>real m / 2 ^ k - real n / real d\<bar> \<le> 1 / 2 ^ (j + 1)" by linarith
qed

lemma nearest_integer:
  fixes m p n :: nat
  assumes "2 * \<bar>int m - int n * int p\<bar> < int p"
  shows "(if p < 2 * (m mod p) then m div p + 1 else if 2 * (m mod p) = p then m div p + m div p mod 2 else m div p) = n"
proof (cases "n * p \<le> m")
  case True
  define e where "e = m - n * p"
  have m: "m = n * p + e" using True by (simp add: e_def)
  have "int m - int n * int p = int e" by (simp add: m)
  with assms have "2 * e < p" by simp
  with m show ?thesis by (simp add: div_mult_self3)
next
  case False
  define e where "e = n * p - m"
  have e: "m + e = n * p" "0 < e" using False by (auto simp: e_def)
  have "int m - int n * int p = - int e" using arg_cong [OF e(1), of int] by simp
  with assms have p: "2 * e < p" by simp
  from e False obtain n' where n: "n = Suc n'" by (cases n) auto
  define g where "g = p - e"
  have "m = n' * p + g" "g < p" "p < 2 * g" using e p by (auto simp: n g_def)
  then show ?thesis by (simp add: n)
qed

lemma rounded_microseconds_exact:
  assumes f: "all_digits f" "length f \<le> 6"
  shows "rounded_microseconds f = int (digits_value f * 10 ^ (6 - length f))"
proof -
  define n d N where "n = digits_value f" and "d = (10 :: nat) ^ length f" and "N = n * 10 ^ (6 - length f)"
  have nd: "n < d" "0 < d" using digits_value_less [OF f(1)] by (simp_all add: n_def d_def)
  have "10 ^ (6 - length f) * d = 10 ^ 6"
    unfolding d_def power_add [symmetric] using f(2) by simp
  from arg_cong [OF this, of real] have "10 ^ (6 - length f) * real d = 1000000" by simp
  then have "real n * (10 ^ (6 - length f) * real d) = real n * 1000000" by simp
  then have N: "real N = real n / real d * 1000000" using nd(2) by (simp add: N_def field_simps)
  obtain m1 k1 where r1: "f64_round n d = (m1, k1)" by (cases "f64_round n d")
  have e1: "\<bar>real m1 / 2 ^ k1 - real n / real d\<bar> \<le> 1 / 2 ^ 54"
    using f64_round_near(2) [OF r1 nd(2), of 53] nd by simp
  have "real n / real d \<le> 1" using nd by simp
  with e1 have "real m1 / 2 ^ k1 \<le> 1 + 1 / 2 ^ 54" by linarith
  then have "real m1 \<le> (1 + 1 / 2 ^ 54) * 2 ^ k1" by (simp add: field_simps)
  then have "real m1 * 1000000 * 2 ^ 32 < 2 ^ 52 * 2 ^ k1"
    by (simp add: field_simps) (smt (verit) zero_less_power)
  then have "m1 * 1000000 * 2 ^ (33 - 1) < 2 ^ 52 * 2 ^ k1"
    by (simp flip: of_nat_less_iff [where 'a = real])
  moreover obtain m2 k2 where r2: "f64_round (m1 * 1000000) (2 ^ k1) = (m2, k2)" by (cases "f64_round (m1 * 1000000) (2 ^ k1)")
  ultimately have e2: "\<bar>real m2 / 2 ^ k2 - real m1 / 2 ^ k1 * 1000000\<bar> \<le> 1 / 2 ^ 34"
    using f64_round_near(2) [OF r2, of 33] by simp
  have sum: "\<bar>c - b * 1000000\<bar> < 1 / 2" if "\<bar>a - b\<bar> \<le> 1 / 2 ^ 54" "\<bar>c - a * 1000000\<bar> \<le> 1 / 2 ^ 34" for a b c :: real
    using that by (simp add: abs_if split: if_splits)
  from sum [OF e1 e2] have "\<bar>real m2 / 2 ^ k2 - real N\<bar> < 1 / 2" unfolding N .
  then have "2 * \<bar>real m2 - real N * 2 ^ k2\<bar> < 2 ^ k2" by (simp add: field_simps abs_less_iff)
  then have "real_of_int (2 * \<bar>int m2 - int N * int (2 ^ k2)\<bar>) < real_of_int (int (2 ^ k2))" by simp
  then have "2 * \<bar>int m2 - int N * int (2 ^ k2)\<bar> < int (2 ^ k2)" by (simp only: of_int_less_iff)
  from nearest_integer [OF this] show ?thesis
    by (simp add: rounded_microseconds_def parse_f64_fraction_def f64_times_def r1 [unfolded n_def d_def] r2 Let_def N_def n_def)
qed

section \<open>Properties\<close>

text \<open>
  C20. The day count and the calendar agree: 1970-01-01 is day 0, the day after a calendar day has the
  next count, leap years and month ends included, and converting a count back gives the day it came
  from.
\<close>

theorem day_counts_follow_the_calendar:
  assumes "valid_date y m d"
  shows "civil_from_days (days_from_civil y m d) = (int y, m, d)
    \<and> (case next_day y m d of (y', m', d') \<Rightarrow>
         valid_date y' m' d' \<and> days_from_civil y' m' d' = days_from_civil y m d + 1)
    \<and> days_from_civil 1970 1 1 = 0"
proof -
  have "days_from_civil 1970 1 1 = 0" by (simp add: days_from_civil_alt days_before_def)
  moreover obtain y' m' d' where "next_day y m d = (y', m', d')" by (cases "next_day y m d")
  ultimately show ?thesis using civil_from_days_from_civil [OF assms] next_day_steps [OF assms] by simp
qed

theorem day_counts_follow_the_calendar_witness:
  "days_from_civil 2024 3 1 = days_from_civil 2024 2 29 + 1"
proof -
  have "valid_date 2024 2 29" by (simp add: valid_date_def days_in_month_def)
  from day_counts_follow_the_calendar [OF this] show ?thesis by (simp add: next_day_def days_in_month_def)
qed

text \<open>
  The fraction of a second goes through floating point, once parsed and once scaled, and still
  every fraction of at most six digits keeps exactly its microseconds.
\<close>

lemma microseconds_survive_floating_point:
  assumes "all_digits f" and "length f \<le> 6"
  shows "rounded_microseconds f = int (digits_value f * 10 ^ (6 - length f))"
  using assms by (rule rounded_microseconds_exact)

lemma microseconds_survive_floating_point_witness: "rounded_microseconds ''1'' = 100000"
proof -
  have "all_digits ''1''" "digits_value ''1'' = 1" by code_simp+
  with microseconds_survive_floating_point [of "''1''"] show ?thesis by simp
qed

end
