(* ===== verification/Temporal_Text.thy ===== *)
theory Temporal_Text
  imports Temporal_Facts
begin

text \<open>
  What the temporal literals promise as text: a literal is accepted exactly when it names a real
  calendar date, a normalised literal is its own normal form, and two literals of one instant have
  one text.
\<close>

section \<open>Reading back what is printed\<close>

definition plain :: "char \<Rightarrow> bool" where
  "plain c \<longleftrightarrow> is_ascii_digit c \<or> c \<in> set ''-+:. ''"

lemma plain_not_alphabetic: "plain c \<Longrightarrow> \<not> is_alphabetic c"
  by (auto simp: plain_def is_ascii_digit_def is_alphabetic_def is_ascii_alphabetic_def
      is_ascii_uppercase_def is_ascii_lowercase_def)

lemma ascii_lower_plain: "plain c \<Longrightarrow> ascii_lower c = c"
  by (auto simp: plain_def ascii_lower_def is_ascii_uppercase_def is_ascii_digit_def)

lemma to_ascii_lowercase_plain: "list_all plain s \<Longrightarrow> to_ascii_lowercase s = s"
  by (induction s) (simp_all add: ascii_lower_plain)

lemma keyword_has_letter: "k \<in> set KEYWORDS \<Longrightarrow> \<not> list_all plain k"
  by (auto simp: KEYWORDS_def plain_def is_ascii_digit_def)

lemma reject_plain: "list_all plain text \<Longrightarrow> reject_non_iso_input kind text = ok ()"
proof -
  assume p: "list_all plain text"
  have "\<not> list_ex is_alphabetic text" using p plain_not_alphabetic by (auto simp: list_all_iff list_ex_iff)
  moreover have "text \<notin> set KEYWORDS" using p keyword_has_letter by blast
  moreover have "CHR ''/'' \<notin> set text" using p by (auto simp: list_all_iff plain_def is_ascii_digit_def)
  moreover have "\<not> ends_with '' am'' text" "\<not> ends_with '' pm'' text"
    using p by (auto simp: ends_with_def plain_def is_ascii_digit_def)
  ultimately show ?thesis using p by (simp add: reject_non_iso_input_def to_ascii_lowercase_plain Let_def)
qed

lemma digits_plain: "all_digits s \<Longrightarrow> list_all plain s"
  by (auto simp: all_digits_def list_all_iff plain_def)

lemma digits_avoid: "all_digits s \<Longrightarrow> \<not> is_ascii_digit c \<Longrightarrow> c \<notin> set s"
  by (auto dest: all_digitsD)

lemma not_digits [simp]:
  "\<not> is_ascii_digit (CHR ''-'')" "\<not> is_ascii_digit (CHR ''+'')" "\<not> is_ascii_digit (CHR '':'')"
  "\<not> is_ascii_digit (CHR ''.'')" "\<not> is_ascii_digit (CHR '' '')" "\<not> is_ascii_digit (CHR ''T'')"
  "\<not> is_ascii_digit (CHR ''t'')" "\<not> is_ascii_digit (CHR ''Z'')" "\<not> is_ascii_digit (CHR ''z'')"
  by (simp_all add: is_ascii_digit_def)

lemma parse_component_pad0 [simp]: "n < 2 ^ 32 \<Longrightarrow> parse_component kind (pad0 w n) text = ok n"
  using parse_unsigned_digits [of "pad0 w n" "2 ^ 32"]
  by (simp add: parse_component_def all_digits_def [symmetric])

lemma parse_component_ok:
  "parse_component kind part text = ok n \<longleftrightarrow>
     part \<noteq> [] \<and> all_digits part \<and> digits_value part = n \<and> n < 2 ^ 32"
  using parse_unsigned_digits_iff [of part "2 ^ 32"]
  by (auto simp: parse_component_def all_digits_def [symmetric] ok_or_def split: option.splits if_splits)

lemma parse_date_render:
  assumes "valid_date y m d" "1 \<le> y" "y \<le> 9999"
  shows "parse_date kind (date_render (y, m, d)) text = ok (y, m, d)"
proof -
  have "d \<le> 31" using assms(1) by (auto simp: valid_date_def days_in_month_def nth_Cons' split: if_splits)
  moreover have "split_on (CHR ''-'') (date_render (y, m, d)) = [pad0 4 y, pad0 2 m, pad0 2 d]"
    by (simp add: date_render_def split_on_append_sep split_on_no_match digits_avoid)
  ultimately show ?thesis
    using assms by (simp add: parse_date_def unwrap_or_def valid_date_def)
qed

lemma parse_date_ok:
  assumes "parse_date kind date text = ok (y, m, d)"
  shows "valid_date y m d" "1 \<le> y" "y \<le> 9999"
  using assms by (auto simp: parse_date_def Let_def split_beta res_bind_eq_ok valid_date_def split: if_splits)

definition wf_clock :: "clock \<Rightarrow> bool" where
  "wf_clock c \<longleftrightarrow> cl_hour c \<le> 24 \<and> cl_minute c \<le> 59 \<and> cl_second c \<le> 59
     \<and> (cl_hour c = 24 \<longrightarrow> cl_minute c = 0 \<and> cl_second c = 0 \<and> cl_fraction c = None)
     \<and> (\<forall>f. cl_fraction c = Some f \<longrightarrow> f \<noteq> [] \<and> all_digits f)"

lemma parse_second_ok:
  assumes "parse_second kind part text = Inr (s, Some g)"
  shows "g \<noteq> [] \<and> all_digits g"
  using assms by (auto simp: parse_second_def res_bind_eq_ok all_digits_def split: option.splits if_splits)

lemma parse_time_ok: "parse_time kind time text = ok c \<Longrightarrow> wf_clock c"
  by (auto simp: parse_time_def Let_def split_beta res_bind_eq_ok wf_clock_def dest: parse_second_ok split: if_splits)

lemma split_on_clock:
  assumes "wf_clock c"
  shows "split_on (CHR '':'') (clock_render c) = [pad0 2 (cl_hour c), pad0 2 (cl_minute c),
    pad0 2 (cl_second c) @ (case cl_fraction c of Some f \<Rightarrow> CHR ''.'' # f | None \<Rightarrow> [])]"
  using assms
  by (auto simp: clock_render_def wf_clock_def split_on_append_sep split_on_no_match digits_avoid split: option.split)

lemma parse_time_render:
  assumes "wf_clock c"
  shows "parse_time kind (clock_render c) text = ok c"
proof -
  have "parse_second kind (Some (pad0 2 (cl_second c) @ (case cl_fraction c of Some f \<Rightarrow> CHR ''.'' # f | None \<Rightarrow> []))) text
      = ok (cl_second c, cl_fraction c)"
    using assms by (auto simp: parse_second_def wf_clock_def all_digits_def [symmetric] split_once_append digits_avoid
        split_once_None_iff [THEN iffD2] split: option.split)
  with assms show ?thesis
    unfolding parse_time_def split_on_clock [OF assms]
    by (auto simp: Let_def unwrap_or_def wf_clock_def)
qed

section \<open>Offsets and the split of a literal\<close>

definition wf_offset :: "utc_offset \<Rightarrow> bool" where
  "wf_offset z \<longleftrightarrow> uo_hours z \<le> 15 \<and> uo_minutes z \<le> 59"

lemma parse_offset_ok: "parse_offset kind zone text = ok z \<Longrightarrow> wf_offset z"
  by (auto simp: parse_offset_def Let_def split_beta res_bind_eq_ok wf_offset_def split: if_splits)

lemma parse_offset_render: "wf_offset z \<Longrightarrow> parse_offset kind (offset_render z) text = ok z"
proof -
  assume w: "wf_offset z"
  have "split_on (CHR '':'') (pad0 2 (uo_hours z) @ '':'' @ pad0 2 (uo_minutes z)) = [pad0 2 (uo_hours z), pad0 2 (uo_minutes z)]"
    by (simp add: split_on_append_sep split_on_no_match digits_avoid)
  with w show ?thesis
    by (auto simp: parse_offset_def offset_render_def Let_def unwrap_or_def wf_offset_def)
qed

lemma split_time_zone_ok:
  "split_time_zone kind text zoned = ok (body, Some z) \<Longrightarrow> wf_offset z"
  by (auto simp: split_time_zone_def Let_def split_beta res_bind_eq_ok wf_offset_def OFFSET_UTC_def
      dest!: parse_offset_ok [unfolded wf_offset_def ok_def] split: option.splits if_splits)

lemma split_time_zone_none:
  "split_time_zone kind text zoned = ok (body, None) \<Longrightarrow> body = text"
  by (auto simp: split_time_zone_def Let_def split_beta res_bind_eq_ok split: option.splits if_splits)

definition signs :: "char \<Rightarrow> bool" where
  "signs c \<longleftrightarrow> c \<in> set ''+-''"

text \<open>The text before the time of day, empty for a \<open>time\<close> and the date with its blank for a timestamp.\<close>

definition time_prefix :: "temporal_literal_kind \<Rightarrow> string \<Rightarrow> bool" where
  "time_prefix kind pre \<longleftrightarrow> (case kind of
     KTime _ \<Rightarrow> pre = []
   | _ \<Rightarrow> \<exists>date. pre = date @ '' '' \<and> (\<forall>c\<in>set date. c \<notin> set '' Tt''))"

lemma time_start_of_prefix:
  assumes "time_prefix kind pre"
  shows "(case kind of KTime _ \<Rightarrow> Some 0 | _ \<Rightarrow> map_option (\<lambda>i. i + 1) (find_index (\<lambda>c. c \<in> set '' Tt'') (pre @ body)))
    = Some (length pre)"
proof -
  have "find_index (\<lambda>c. c \<in> set '' Tt'') ((date @ '' '') @ body) = Some (length date)"
    if "\<forall>c\<in>set date. c \<notin> set '' Tt''" for date
    using find_index_append [of date "\<lambda>c. c \<in> set '' Tt''" "'' '' @ body", OF that] by simp
  with assms show ?thesis by (cases kind) (force simp: time_prefix_def simp del: append_assoc)+
qed

lemma split_time_zone_without:
  assumes "time_prefix kind pre" "\<forall>c\<in>set body. \<not> signs c" "body \<noteq> []" "is_ascii_digit (last body)"
  shows "split_time_zone kind (pre @ body) zoned = ok (pre @ body, None)"
proof -
  have "find_index (\<lambda>c. c \<in> set ''+-'') body = None" using assms(2) by (simp add: find_index_None_iff signs_def)
  moreover have "last (pre @ body) \<notin> set ''Zz''" using assms(3,4) by (auto simp: is_ascii_digit_def)
  ultimately show ?thesis
    unfolding split_time_zone_def time_start_of_prefix [OF assms(1)] by (simp add: Let_def)
qed

lemma split_time_zone_with:
  assumes "time_prefix kind pre" "\<forall>c\<in>set body. \<not> signs c" "body \<noteq> []" "is_ascii_digit (last body)" "wf_offset z"
  shows "split_time_zone kind (pre @ body @ offset_render z) True = ok (pre @ body, Some z)"
proof -
  obtain s t where s: "offset_render z = s # t" "s \<in> set ''+-''" by (simp add: offset_render_def)
  have f: "find_index (\<lambda>c. c \<in> set ''+-'') (body @ offset_render z) = Some (length body)"
    using find_index_append [of body "\<lambda>c. c \<in> set ''+-''" "s # t"] assms(2) s by (simp add: signs_def)
  have "offset_render z \<noteq> ''Z''" by (auto simp: offset_render_def)
  moreover have "\<not> is_whitespace (last (pre @ body))" using assms(3,4) by (simp add: digit_not_whitespace)
  then have "trim_end (pre @ body) = pre @ body" using assms(3) by (intro trim_end_id) auto
  ultimately show ?thesis
    unfolding split_time_zone_def time_start_of_prefix [OF assms(1)]
    using f parse_offset_render [OF assms(5)] by (simp add: Let_def)
qed

lemma clock_render_facts:
  assumes "wf_clock c"
  shows "\<forall>x\<in>set (clock_render c). \<not> signs x" "clock_render c \<noteq> []" "is_ascii_digit (last (clock_render c))"
    "is_ascii_digit (hd (clock_render c))" "list_all plain (clock_render c)"
proof -
  have p: "all_digits (pad0 w n)" "pad0 w n \<noteq> []" for w n by simp_all
  have f: "f \<noteq> [] \<and> all_digits f" if "cl_fraction c = Some f" for f using assms that by (auto simp: wf_clock_def)
  then have lf: "is_ascii_digit (last f)" if "cl_fraction c = Some f" for f
    using that by (metis all_digitsD last_in_set)
  show "\<forall>x\<in>set (clock_render c). \<not> signs x"
    using f digits_avoid [OF p(1)] by (cases "cl_fraction c") (auto simp: clock_render_def signs_def digits_avoid)
  show "clock_render c \<noteq> []" by (simp add: clock_render_def)
  show "is_ascii_digit (last (clock_render c))" using lf f by (auto simp: clock_render_def split: option.split)
  show "is_ascii_digit (hd (clock_render c))" by (simp add: clock_render_def)
  show "list_all plain (clock_render c)"
    using digits_plain [OF p(1)] f digits_plain by (auto simp: clock_render_def plain_def split: option.split)
qed

section \<open>Normalising a printed literal\<close>

lemma date_render_facts:
  "\<forall>x\<in>set (date_render (y, m, d)). x \<notin> set '' Tt''" "date_render (y, m, d) \<noteq> []"
  "is_ascii_digit (hd (date_render (y, m, d)))" "is_ascii_digit (last (date_render (y, m, d)))"
  "list_all plain (date_render (y, m, d))"
proof -
  have p: "all_digits (pad0 w n)" "pad0 w n \<noteq> []" for w n by simp_all
  show "\<forall>x\<in>set (date_render (y, m, d)). x \<notin> set '' Tt''"
    using digits_avoid [OF p(1)] by (auto simp: date_render_def)
  show "date_render (y, m, d) \<noteq> []" by (simp add: date_render_def)
  show "is_ascii_digit (hd (date_render (y, m, d)))" "is_ascii_digit (last (date_render (y, m, d)))"
    by (simp_all add: date_render_def)
  show "list_all plain (date_render (y, m, d))"
    using digits_plain [OF p(1)] by (auto simp: date_render_def plain_def)
qed

definition zone_render :: "utc_offset option \<Rightarrow> string" where
  "zone_render zone = (case zone of None \<Rightarrow> [] | Some z \<Rightarrow> offset_render z)"

lemma zone_render_facts:
  "is_ascii_digit (last s) \<Longrightarrow> s \<noteq> [] \<Longrightarrow> is_ascii_digit (last (s @ zone_render zone))"
  "list_all plain (zone_render zone)"
proof -
  have p: "all_digits (pad0 w n)" "pad0 w n \<noteq> []" for w n by simp_all
  show "is_ascii_digit (last s) \<Longrightarrow> s \<noteq> [] \<Longrightarrow> is_ascii_digit (last (s @ zone_render zone))"
    by (auto simp: zone_render_def offset_render_def split: option.split)
  show "list_all plain (zone_render zone)"
    using digits_plain [OF p(1)] by (auto simp: zone_render_def offset_render_def plain_def split: option.split)
qed

lemma trim_digits: "s \<noteq> [] \<Longrightarrow> is_ascii_digit (hd s) \<Longrightarrow> is_ascii_digit (last s) \<Longrightarrow> trim s = s"
  by (rule trim_id) (simp add: digit_not_whitespace)

lemma split_time_zone_printed:
  assumes "time_prefix kind pre" "wf_clock c" "\<And>z. zone = Some z \<Longrightarrow> zoned \<and> wf_offset z"
  shows "split_time_zone kind (pre @ clock_render c @ zone_render zone) zoned = ok (pre @ clock_render c, zone)"
proof (cases zone)
  case None
  with split_time_zone_without [OF assms(1) clock_render_facts(1-3) [OF assms(2)]] show ?thesis by (simp add: zone_render_def)
next
  case (Some z)
  with assms(3) split_time_zone_with [OF assms(1) clock_render_facts(1-3) [OF assms(2)], of z] show ?thesis
    by (simp add: zone_render_def)
qed

lemma normalize_printed_time:
  assumes "wf_clock c" "\<And>z. zone = Some z \<Longrightarrow> zoned \<and> wf_offset z"
  shows "normalize_temporal_literal (KTime zoned) (clock_render c @ zone_render zone) = ok (clock_render c @ zone_render zone)"
proof -
  let ?t = "clock_render c @ zone_render zone"
  note f = clock_render_facts [OF assms(1)]
  have "trim ?t = ?t" using f zone_render_facts(1) [of "clock_render c" zone] by (intro trim_digits) auto
  moreover have "reject_non_iso_input (KTime zoned) ?t = ok ()"
    using f zone_render_facts(2) by (intro reject_plain) simp
  moreover have "split_time_zone (KTime zoned) ?t zoned = ok (clock_render c, zone)"
    using split_time_zone_printed [of "KTime zoned" "[]" c zone zoned] assms by (simp add: time_prefix_def)
  ultimately show ?thesis
    using assms(1) by (simp add: normalize_temporal_literal_def parse_time_render zone_render_def)
qed

lemma normalize_printed_timestamp:
  assumes v: "valid_date y m d" "1 \<le> y" "y \<le> 9999" and c: "wf_clock c"
    and z: "\<And>z. zone = Some z \<Longrightarrow> zoned \<and> wf_offset z"
    and t: "t = date_render (y, m, d) @ '' '' @ clock_render c @ zone_render zone"
  shows "normalize_temporal_literal (KTimestamp zoned) t =
    (if zoned then canonical_instant (y, m, d) c (case zone of None \<Rightarrow> 0 | Some z \<Rightarrow> offset_seconds z) t
     else if cl_hour c = 24 then ok (date_render (next_day y m d) @ '' '' @ clock_render MIDNIGHT)
     else ok (date_render (y, m, d) @ '' '' @ clock_render c))"
proof -
  note f = clock_render_facts [OF c] and g = date_render_facts [of y m d]
  have "is_ascii_digit (last (clock_render c @ zone_render zone))"
    using f zone_render_facts(1) [of "clock_render c" zone] by simp
  then have "trim t = t" using f g unfolding t by (intro trim_digits) auto
  moreover have "reject_non_iso_input (KTimestamp zoned) t = ok ()"
    using f g zone_render_facts(2) unfolding t by (intro reject_plain) (auto simp: plain_def)
  moreover have "time_prefix (KTimestamp zoned) (date_render (y, m, d) @ '' '')" using g by (auto simp: time_prefix_def)
  from split_time_zone_printed [OF this c, of zone zoned] z
  have "split_time_zone (KTimestamp zoned) t zoned = ok (date_render (y, m, d) @ '' '' @ clock_render c, zone)"
    by (simp add: t)
  moreover have "split_timestamp (date_render (y, m, d) @ '' '' @ clock_render c) = (date_render (y, m, d), Some (clock_render c))"
    using find_index_append [of "date_render (y, m, d)" "\<lambda>c. c \<in> set '' Tt''" "'' '' @ clock_render c", OF g(1)] f
    by (simp add: split_timestamp_def trim_digits)
  ultimately show ?thesis
    using v c by (simp add: normalize_temporal_literal_def parse_date_render parse_time_render)
qed

lemma normalize_printed_date:
  assumes "valid_date y m d" "1 \<le> y" "y \<le> 9999"
  shows "normalize_temporal_literal KDate (date_render (y, m, d)) = ok (date_render (y, m, d))"
  using assms date_render_facts [of y m d]
  by (simp add: normalize_temporal_literal_def trim_digits reject_plain parse_date_render)

section \<open>Instants\<close>

definition instant_micros :: "nat \<times> nat \<times> nat \<Rightarrow> clock \<Rightarrow> int \<Rightarrow> int" where
  "instant_micros date c offset = (case date of (year, month, day) \<Rightarrow>
     days_from_civil year month day * 86400000000
     + (int (cl_hour c) * 3600 + int (cl_minute c) * 60 + int (cl_second c) - offset) * 1000000
     + (case cl_fraction c of None \<Rightarrow> 0 | Some f \<Rightarrow> rounded_microseconds f))"

definition clock_of_instant :: "int \<Rightarrow> clock" where
  "clock_of_instant micros = (let micros_of_day = micros mod 86400000000; second_of_day = micros_of_day div 1000000 in
     \<lparr>cl_hour = nat (second_of_day div 3600), cl_minute = nat (second_of_day div 60 mod 60),
      cl_second = nat (second_of_day mod 60), cl_fraction = Some (pad0 6 (nat (micros_of_day mod 1000000)))\<rparr>)"

definition instant_text :: "int \<Rightarrow> string" where
  "instant_text micros = (case civil_from_days (micros div 86400000000) of (year, month, day) \<Rightarrow>
     date_render (nat year, month, day) @ '' '' @ clock_render (clock_of_instant micros) @ offset_render OFFSET_UTC)"

definition writable_instant :: "int \<Rightarrow> bool" where
  "writable_instant micros \<longleftrightarrow> (case civil_from_days (micros div 86400000000) of (year, _, _) \<Rightarrow> 1 \<le> year \<and> year \<le> 9999)"

lemma pad0_int_nonneg: "0 \<le> i \<Longrightarrow> pad0_int w i = pad0 w (nat i)"
  by (simp add: pad0_int_def)

lemma offset_utc_text: "offset_render OFFSET_UTC = ''+00:00''"
proof -
  have "pad0 2 0 = ''00''" by code_simp
  then show ?thesis by (simp add: offset_render_def OFFSET_UTC_def)
qed

lemma canonical_instant_alt:
  "canonical_instant date c offset text =
     (let micros = instant_micros date c offset in
      if writable_instant micros then ok (instant_text micros) else refuse (outside_years text))"
proof -
  obtain y m d where date: "date = (y, m, d)" by (cases date)
  define micros where "micros = instant_micros date c offset"
  obtain y' m' d' where civ: "civil_from_days (micros div 86400000000) = (y', m', d')"
    by (cases "civil_from_days (micros div 86400000000)")
  have "canonical_instant date c offset text = (if \<not> (1 \<le> y' \<and> y' \<le> 9999) then refuse (outside_years text)
      else (let micros_of_day = micros mod 86400000000; second_of_day = micros_of_day div 1000000 in
        ok (pad0_int 4 y' @ ''-'' @ pad0 2 m' @ ''-'' @ pad0 2 d' @ '' ''
          @ pad0_int 2 (second_of_day div 3600) @ '':'' @ pad0_int 2 (second_of_day div 60 mod 60) @ '':''
          @ pad0_int 2 (second_of_day mod 60) @ ''.'' @ pad0_int 6 (micros_of_day mod 1000000) @ ''+00:00'')))"
    using civ unfolding canonical_instant_def micros_def instant_micros_def date prod.case Let_def by (simp only: prod.case)
  then show ?thesis
    unfolding micros_def [symmetric] Let_def
    using civ by (simp add: writable_instant_def instant_text_def date_render_def clock_render_def clock_of_instant_def
        Let_def pad0_int_nonneg pos_imp_zdiv_nonneg_iff offset_utc_text)
qed

lemma wf_clock_of_seconds:
  fixes s :: int
  assumes "0 \<le> s" "s < 86400" "f \<noteq> []" "all_digits f"
  shows "wf_clock \<lparr>cl_hour = nat (s div 3600), cl_minute = nat (s div 60 mod 60), cl_second = nat (s mod 60), cl_fraction = Some f\<rparr>"
proof -
  have "s div 3600 \<le> 23" using assms(2) by simp
  moreover have "s div 60 mod 60 \<le> 59" "s mod 60 \<le> 59"
    using pos_mod_bound [of 60 "s div 60"] pos_mod_bound [of 60 s] by linarith+
  ultimately show ?thesis using assms(3,4) by (auto simp: wf_clock_def)
qed

lemma wf_clock_of_instant: "wf_clock (clock_of_instant micros)"
proof -
  define t where "t = micros mod 86400000000"
  have t: "0 \<le> t" "t < 86400000000" by (simp_all add: t_def)
  have "0 \<le> t div 1000000" "t div 1000000 < 86400" using t by (simp_all add: pos_imp_zdiv_nonneg_iff)
  then show ?thesis
    unfolding clock_of_instant_def Let_def t_def [symmetric] by (rule wf_clock_of_seconds) simp_all
qed

lemma recompose:
  fixes micros :: int
  assumes "h * 3600 + mi * 60 + se = s" "micros = q * 86400000000 + t" "t = s * 1000000 + u"
  shows "q * 86400000000 + (h * 3600 + mi * 60 + se - 0) * 1000000 + u = micros"
  using assms by simp

lemma clock_of_seconds: "(s :: int) div 3600 * 3600 + s div 60 mod 60 * 60 + s mod 60 = s"
proof -
  have "s div 60 mod 60 = s div 60 - s div 60 div 60 * 60" by (simp add: minus_div_mult_eq_mod)
  moreover have "s div 60 div 60 = s div 3600" by (simp add: zdiv_zmult2_eq [symmetric])
  moreover have "s mod 60 = s - s div 60 * 60" by (simp add: minus_div_mult_eq_mod)
  ultimately show ?thesis by simp
qed

lemma instant_of_its_clock:
  assumes "civil_from_days (micros div 86400000000) = (y, m, d)" "1 \<le> y"
  shows "instant_micros (nat y, m, d) (clock_of_instant micros) 0 = micros"
proof -
  define t s where "t = micros mod 86400000000" and "s = t div 1000000"
  have days: "days_from_civil (nat y) m d = micros div 86400000000" by (rule civil_from_days_valid(2) [OF assms])
  have "0 \<le> t" by (simp add: t_def)
  then have "0 \<le> s" by (simp add: s_def pos_imp_zdiv_nonneg_iff)
  then have n: "int (nat (s div 3600)) = s div 3600" "int (nat (s div 60 mod 60)) = s div 60 mod 60" "int (nat (s mod 60)) = s mod 60"
    by (simp_all add: pos_imp_zdiv_nonneg_iff)
  have "nat (t mod 1000000) < 10 ^ 6" by simp
  then have u: "rounded_microseconds (pad0 6 (nat (t mod 1000000))) = t mod 1000000"
    using rounded_microseconds_exact [of "pad0 6 (nat (t mod 1000000))"] length_pad0 [of "nat (t mod 1000000)" 6] by simp
  show ?thesis
    unfolding instant_micros_def clock_of_instant_def Let_def t_def [symmetric] s_def [symmetric] prod.case clock.simps
      option.case days n u
    by (rule recompose [OF clock_of_seconds]) (simp_all only: t_def s_def div_mult_mod_eq)
qed

lemma writable_date:
  assumes "writable_instant micros"
  obtains y m d where "civil_from_days (micros div 86400000000) = (int y, m, d)" "valid_date y m d" "1 \<le> y" "y \<le> 9999"
    "instant_text micros = date_render (y, m, d) @ '' '' @ clock_render (clock_of_instant micros) @ zone_render (Some OFFSET_UTC)"
proof -
  obtain y m d where c: "civil_from_days (micros div 86400000000) = (y, m, d)" by (cases "civil_from_days (micros div 86400000000)")
  with assms have y: "1 \<le> y" "y \<le> 9999" by (auto simp: writable_instant_def)
  from civil_from_days_valid(1) [OF c y(1)] c y show thesis
    by (intro that [of "nat y" m d]) (auto simp: instant_text_def zone_render_def)
qed

lemma normalize_instant_text:
  assumes "writable_instant micros"
  shows "normalize_temporal_literal (KTimestamp True) (instant_text micros) = ok (instant_text micros)"
proof -
  from assms obtain y m d where c: "civil_from_days (micros div 86400000000) = (int y, m, d)"
    and v: "valid_date y m d" "1 \<le> y" "y \<le> 9999"
    and t: "instant_text micros = date_render (y, m, d) @ '' '' @ clock_render (clock_of_instant micros) @ zone_render (Some OFFSET_UTC)"
    by (rule writable_date)
  have "wf_offset OFFSET_UTC" "offset_seconds OFFSET_UTC = 0" by (simp_all add: wf_offset_def OFFSET_UTC_def offset_seconds_def)
  with normalize_printed_timestamp [OF v wf_clock_of_instant _ t, of True] instant_of_its_clock [OF c] v(2) assms
  show ?thesis by (simp add: canonical_instant_alt Let_def)
qed

lemma instant_text_inject:
  assumes "writable_instant a" "writable_instant b" "instant_text a = instant_text b"
  shows "a = b"
proof -
  have *: "\<exists>y m d. instant_micros (y, m, d) (clock_of_instant i) 0 = i
      \<and> parse_date k (take 10 (instant_text i)) [] = ok (y, m, d)
      \<and> parse_time k (take 15 (drop 11 (instant_text i))) [] = ok (clock_of_instant i)"
    if "writable_instant i" for i k
  proof -
    from that obtain y m d where c: "civil_from_days (i div 86400000000) = (int y, m, d)"
      and v: "valid_date y m d" "1 \<le> y" "y \<le> 9999"
      and t: "instant_text i = date_render (y, m, d) @ '' '' @ clock_render (clock_of_instant i) @ zone_render (Some OFFSET_UTC)"
      by (rule writable_date)
    have "d \<le> 31" "m \<le> 12" using v(1) by (auto simp: valid_date_def days_in_month_def nth_Cons' split: if_splits)
    then have "length (date_render (y, m, d)) = 10" using v by (simp add: date_render_def length_pad0)
    moreover have "length (clock_render (clock_of_instant i)) = 15"
      using wf_clock_of_instant [of i] by (simp add: clock_render_def wf_clock_def clock_of_instant_def Let_def length_pad0)
    ultimately have "take 10 (instant_text i) = date_render (y, m, d)"
      "take 15 (drop 11 (instant_text i)) = clock_render (clock_of_instant i)" by (simp_all add: t)
    with parse_date_render [OF v] parse_time_render [OF wf_clock_of_instant] instant_of_its_clock [OF c] v(2)
    show ?thesis by (intro exI [of _ y] exI [of _ m] exI [of _ d]) simp
  qed
  from *[OF assms(1), of KDate] *[OF assms(2), of KDate] assms(3) show ?thesis by auto
qed

section \<open>Properties\<close>

lemma ok_is_Inr: "ok x = Inr x"
  by (simp add: ok_def)

lemma split_time_zone_zoned:
  "split_time_zone kind text zoned = Inr (body, Some z) \<Longrightarrow> zoned \<and> wf_offset z"
  using split_time_zone_ok [of kind "text" zoned body z, unfolded ok_is_Inr]
  by (auto simp: split_time_zone_def Let_def split_beta res_bind_eq_ok split: option.splits if_splits)

lemma year_10000_text: "pad0 4 10000 = ''10000''"
proof -
  have "digit_char 0 = CHR ''0''" "digit_char 1 = CHR ''1''" by code_simp+
  then show ?thesis
    by (simp add: pad0_def Let_def show_nat.simps [of 10000] show_nat.simps [of 1000] show_nat.simps [of 100]
        show_nat.simps [of 10] show_nat.simps [of "Suc 0"])
qed

lemma next_day_year: "next_day y m d = (y', m', d') \<Longrightarrow> y' = y \<or> y' = y + 1"
  by (auto simp: next_day_def split: if_splits)

lemma wf_midnight: "wf_clock MIDNIGHT"
  by (simp add: wf_clock_def MIDNIGHT_def)

lemma normalize_timestamp_cases:
  assumes "normalize_temporal_literal (KTimestamp zoned) text = Inr out"
  obtains y m d c zone where "valid_date y m d" "1 \<le> y" "y \<le> 9999" "wf_clock c" "\<And>z. zone = Some z \<Longrightarrow> zoned \<and> wf_offset z"
    "out = (if zoned then instant_text (instant_micros (y, m, d) c (case zone of None \<Rightarrow> 0 | Some z \<Rightarrow> offset_seconds z))
      else if cl_hour c = 24 then date_render (next_day y m d) @ '' '' @ clock_render MIDNIGHT
      else date_render (y, m, d) @ '' '' @ clock_render c)"
    "zoned \<Longrightarrow> writable_instant (instant_micros (y, m, d) c (case zone of None \<Rightarrow> 0 | Some z \<Rightarrow> offset_seconds z))"
proof -
  let ?k = "KTimestamp zoned" and ?t = "trim text"
  obtain body zone where s: "split_time_zone ?k ?t zoned = Inr (body, zone)" and
    r1: "(let (date, time) = split_timestamp body in
           res_bind (parse_date ?k date ?t) (\<lambda>(year, month, day).
           res_bind (case time of Some t \<Rightarrow> parse_time ?k t ?t | None \<Rightarrow> ok MIDNIGHT) (\<lambda>c.
           if zoned then
             canonical_instant (year, month, day) c (case zone of None \<Rightarrow> 0 | Some z \<Rightarrow> offset_seconds z) ?t
           else if cl_hour c = 24 then
             ok (date_render (next_day year month day) @ '' '' @ clock_render MIDNIGHT)
           else ok (date_render (year, month, day) @ '' '' @ clock_render c)))) = Inr out"
    using assms unfolding normalize_temporal_literal_def Let_def [where s = ?t] temporal_literal_kind.case res_bind_eq_ok split_paired_Ex prod.case by blast
  obtain date time where st: "split_timestamp body = (date, time)" by (cases "split_timestamp body")
  from r1 obtain y m d c where p: "parse_date ?k date ?t = Inr (y, m, d)"
      "(case time of Some t \<Rightarrow> parse_time ?k t ?t | None \<Rightarrow> ok MIDNIGHT) = Inr c" and
    o: "(if zoned then canonical_instant (y, m, d) c (case zone of None \<Rightarrow> 0 | Some z \<Rightarrow> offset_seconds z) ?t
      else if cl_hour c = 24 then ok (date_render (next_day y m d) @ '' '' @ clock_render MIDNIGHT)
      else ok (date_render (y, m, d) @ '' '' @ clock_render c)) = Inr out"
    unfolding st Let_def prod.case res_bind_eq_ok split_paired_Ex by blast
  have "wf_clock c"
    using p(2) wf_midnight parse_time_ok [unfolded ok_is_Inr] by (cases time) (auto simp: ok_is_Inr)
  then show thesis
    using o s parse_date_ok [OF p(1) [folded ok_is_Inr]]
    by (intro that [of y m d c zone]) (auto simp: canonical_instant_alt Let_def split: if_splits dest: split_time_zone_zoned)
qed

text \<open>
  A normalised literal is its own normal form: whatever \<open>normalize_temporal_literal\<close> answers for a
  date, time, timestamp or timestamp with time zone is accepted again and answered unchanged, so the
  text stored for a value does not depend on how often it was translated. The one exception is a
  timestamp moved from \<open>9999-12-31 24:00:00\<close> into the year 10000.
\<close>

lemma normalized_literals_are_fixed_points:
  assumes n: "normalize_temporal_literal kind text = Inr out"
    and y: "kind = KTimestamp False \<Longrightarrow> \<not> starts_with ''10000'' out"
  shows "normalize_temporal_literal kind out = Inr out"
proof (cases kind)
  case KDate
  with n obtain y m d where "parse_date KDate (trim text) (trim text) = ok (y, m, d)" "out = date_render (y, m, d)"
    by (auto simp: normalize_temporal_literal_def Let_def res_bind_eq_ok ok_is_Inr)
  with KDate show ?thesis using normalize_printed_date parse_date_ok by (simp add: ok_is_Inr)
next
  case (KTime zoned)
  with n obtain body zone c where "split_time_zone kind (trim text) zoned = Inr (body, zone)"
    "parse_time kind body (trim text) = ok c" "out = clock_render c @ zone_render zone"
    by (auto simp: normalize_temporal_literal_def Let_def res_bind_eq_ok ok_is_Inr zone_render_def)
  moreover from this have "\<And>z. zone = Some z \<Longrightarrow> zoned \<and> wf_offset z" by (blast dest: split_time_zone_zoned)
  ultimately show ?thesis
    using KTime normalize_printed_time [of c zone zoned] parse_time_ok by (simp add: ok_is_Inr)
next
  case (KTimestamp zoned)
  from n [unfolded KTimestamp] obtain y m d c zone where v: "valid_date y m d" "1 \<le> y" "y \<le> 9999"
    and c: "wf_clock c" and z: "\<And>z. zone = Some z \<Longrightarrow> zoned \<and> wf_offset z"
    and out: "out = (if zoned then instant_text (instant_micros (y, m, d) c (case zone of None \<Rightarrow> 0 | Some z \<Rightarrow> offset_seconds z))
      else if cl_hour c = 24 then date_render (next_day y m d) @ '' '' @ clock_render MIDNIGHT
      else date_render (y, m, d) @ '' '' @ clock_render c)"
    and w: "zoned \<Longrightarrow> writable_instant (instant_micros (y, m, d) c (case zone of None \<Rightarrow> 0 | Some z \<Rightarrow> offset_seconds z))"
    by (rule normalize_timestamp_cases) blast
  show ?thesis
  proof (cases zoned)
    case True
    with out w normalize_instant_text KTimestamp show ?thesis by (simp add: ok_is_Inr)
  next
    case False
    obtain y' m' d' where nd: "next_day y m d = (y', m', d')" by (cases "next_day y m d")
    have *: "normalize_temporal_literal (KTimestamp False) (date_render (a, b, e) @ '' '' @ clock_render k)
        = ok (date_render (a, b, e) @ '' '' @ clock_render k)"
      if "valid_date a b e" "1 \<le> a" "a \<le> 9999" "wf_clock k" "cl_hour k \<noteq> 24" for a b e k
      using normalize_printed_timestamp [OF that(1-4), of None False "date_render (a, b, e) @ '' '' @ clock_render k"] that(5)
      by (simp add: zone_render_def)
    show ?thesis
    proof (cases "cl_hour c = 24")
      case True
      with out False nd have o: "out = date_render (y', m', d') @ '' '' @ clock_render MIDNIGHT" by simp
      have "y' \<noteq> 10000"
      proof
        assume "y' = 10000"
        with o year_10000_text have "starts_with ''10000'' out" by (simp add: starts_with_def date_render_def)
        with y KTimestamp False show False by simp
      qed
      with next_day_year [OF nd] v have "1 \<le> y'" "y' \<le> 9999" by auto
      with * [of y' m' d' MIDNIGHT] next_day_steps(1) [OF v(1) nd] wf_midnight o KTimestamp False show ?thesis
        by (simp add: MIDNIGHT_def ok_is_Inr)
    next
      case hour: False
      with out False * [OF v c hour] KTimestamp show ?thesis by (simp add: ok_is_Inr)
    qed
  qed
qed

lemma normalized_literals_are_fixed_points_witness:
  "normalize_temporal_literal KDate ''2024-03-05'' = Inr ''2024-03-05''"
proof -
  have "split_on (CHR ''-'') ''2024-3-5'' = [''2024'', ''3'', ''5'']" "trim ''2024-3-5'' = ''2024-3-5''"
    "reject_non_iso_input KDate ''2024-3-5'' = ok ()" "date_render (2024, 3, 5) = ''2024-03-05''" by code_simp+
  moreover have "digits_value ''2024'' = 2024" "digits_value ''3'' = 3" "digits_value ''5'' = 5"
    "all_digits ''2024''" "all_digits ''3''" "all_digits ''5''" by code_simp+
  then have "parse_component KDate ''2024'' t = ok 2024" "parse_component KDate ''3'' t = ok 3" "parse_component KDate ''5'' t = ok 5" for t
    by (simp_all only: parse_component_ok) simp_all
  ultimately have "normalize_temporal_literal KDate ''2024-3-5'' = Inr ''2024-03-05''"
    by (simp add: normalize_temporal_literal_def parse_date_def unwrap_or_def days_in_month_def)
  then show ?thesis by (rule normalized_literals_are_fixed_points) simp
qed

text \<open>The instant a literal of a \<open>timestamp with time zone\<close> stands for, in microseconds since 1970.\<close>

definition literal_instant :: "string \<Rightarrow> int option" where
  "literal_instant text =
     (case split_time_zone TIMESTAMPTZ (trim text) True of
        Inr (body, zone) \<Rightarrow>
          (let (date, time) = split_timestamp body in
           case (parse_date TIMESTAMPTZ date (trim text),
                 case time of Some t \<Rightarrow> parse_time TIMESTAMPTZ t (trim text) | None \<Rightarrow> ok MIDNIGHT) of
             (Inr d, Inr c) \<Rightarrow> Some (instant_micros d c (case zone of None \<Rightarrow> 0 | Some z \<Rightarrow> offset_seconds z))
           | _ \<Rightarrow> None)
      | Inl _ \<Rightarrow> None)"

lemma normalize_is_instant_text:
  assumes "normalize_temporal_literal TIMESTAMPTZ text = Inr out"
  shows "\<exists>i. literal_instant text = Some i \<and> writable_instant i \<and> out = instant_text i"
proof -
  let ?t = "trim text"
  obtain body zone where s: "split_time_zone TIMESTAMPTZ ?t True = Inr (body, zone)" and
    r: "(let (date, time) = split_timestamp body in
           res_bind (parse_date TIMESTAMPTZ date ?t) (\<lambda>(year, month, day).
           res_bind (case time of Some t \<Rightarrow> parse_time TIMESTAMPTZ t ?t | None \<Rightarrow> ok MIDNIGHT) (\<lambda>c.
           canonical_instant (year, month, day) c (case zone of None \<Rightarrow> 0 | Some z \<Rightarrow> offset_seconds z) ?t))) = Inr out"
    using assms unfolding TIMESTAMPTZ_def normalize_temporal_literal_def Let_def [where s = ?t] temporal_literal_kind.case
      res_bind_eq_ok split_paired_Ex prod.case if_True by blast
  obtain date time where st: "split_timestamp body = (date, time)" by (cases "split_timestamp body")
  from r obtain y m d c where p: "parse_date TIMESTAMPTZ date ?t = Inr (y, m, d)"
      "(case time of Some t \<Rightarrow> parse_time TIMESTAMPTZ t ?t | None \<Rightarrow> ok MIDNIGHT) = Inr c"
      "canonical_instant (y, m, d) c (case zone of None \<Rightarrow> 0 | Some z \<Rightarrow> offset_seconds z) ?t = Inr out"
    unfolding st Let_def prod.case res_bind_eq_ok split_paired_Ex by blast
  show ?thesis
    using p(3) unfolding literal_instant_def s sum.case prod.case st Let_def p(1,2)
    by (auto simp: canonical_instant_alt Let_def split: if_splits)
qed

text \<open>
  C19. One text per instant: two literals of a \<open>timestamp with time zone\<close> that the translation accepts
  are stored as the same text exactly when they stand for the same microsecond, whatever zone and
  padding they were written with.
\<close>

theorem one_text_per_instant:
  assumes "normalize_temporal_literal TIMESTAMPTZ a = Inr x" and "normalize_temporal_literal TIMESTAMPTZ b = Inr y"
  shows "x = y \<longleftrightarrow> literal_instant a = literal_instant b"
  using normalize_is_instant_text [OF assms(1)] normalize_is_instant_text [OF assms(2)] instant_text_inject by auto

lemma join_split_on: "join [c] (split_on c s) = s"
  unfolding split_on_def
proof (induction s)
  case (Cons x s)
  obtain p ps where "split_by (\<lambda>x. x = c) s = p # ps" by (cases "split_by (\<lambda>x. x = c) s") auto
  with Cons show ?case by (cases ps) auto
qed simp

lemma parse_date_parts:
  assumes "parse_date kind date text = Inr (y, m, d)"
  obtains ys ms ds where "split_on (CHR ''-'') date = [ys, ms, ds]" "parse_component kind ys text = Inr y"
    "parse_component kind ms text = Inr m" "parse_component kind ds text = Inr d"
proof -
  obtain ys r1 where 1: "split_on (CHR ''-'') date = ys # r1"
    unfolding split_on_def by (cases "split_by (\<lambda>x. x = CHR ''-'') date") auto
  with assms obtain ms r2 where 2: "r1 = ms # r2"
    by (cases r1) (auto simp: parse_date_def res_bind_eq_ok)
  with assms 1 obtain ds r3 where 3: "r2 = ds # r3"
    by (cases r2) (auto simp: parse_date_def res_bind_eq_ok)
  with assms 1 2 have "r3 = []"
    by (cases r3) (auto simp: parse_date_def res_bind_eq_ok)
  with 1 2 3 assms show thesis
    by (intro that [of ys ms ds]) (auto simp: parse_date_def res_bind_eq_ok unwrap_or_def split: if_splits)
qed

theorem one_text_per_instant_witness:
  "literal_instant ''1970-01-01 05:30:00+05:30'' = literal_instant ''1970-01-01 00:00:00+00:00''"
proof -
  let ?z = "\<lparr>uo_negative = False, uo_hours = 5, uo_minutes = 30\<rparr>" and ?c = "\<lparr>cl_hour = 5, cl_minute = 30, cl_second = 0, cl_fraction = None\<rparr>"
  have t: "''1970-01-01 05:30:00+05:30'' = date_render (1970, 1, 1) @ '' '' @ clock_render ?c @ zone_render (Some ?z)"
    "''1970-01-01 00:00:00+00:00'' = date_render (1970, 1, 1) @ '' '' @ clock_render MIDNIGHT @ zone_render (Some OFFSET_UTC)"
    by code_simp+
  have v: "valid_date 1970 1 1" "(1 :: nat) \<le> 1970" "(1970 :: nat) \<le> 9999" by (simp_all add: valid_date_def days_in_month_def)
  have days: "days_from_civil 1970 1 1 = 0" by (simp add: days_from_civil_alt days_before_def)
  from civil_from_days_from_civil [OF v(1), unfolded days] have w: "writable_instant 0" by (simp add: writable_instant_def)
  have i: "instant_micros (1970, 1, 1) ?c (offset_seconds ?z) = 0" "instant_micros (1970, 1, 1) MIDNIGHT (offset_seconds OFFSET_UTC) = 0"
    by (simp_all add: instant_micros_def days [unfolded One_nat_def] offset_seconds_def MIDNIGHT_def OFFSET_UTC_def)
  have c: "wf_clock ?c" "wf_offset ?z" "wf_offset OFFSET_UTC" by (simp_all add: wf_clock_def wf_offset_def OFFSET_UTC_def)
  have "normalize_temporal_literal TIMESTAMPTZ ''1970-01-01 05:30:00+05:30'' = Inr (instant_text 0)"
    using normalize_printed_timestamp [OF v c(1) _ t(1), of True] c i w by (simp add: TIMESTAMPTZ_def canonical_instant_alt ok_is_Inr)
  moreover have "normalize_temporal_literal TIMESTAMPTZ ''1970-01-01 00:00:00+00:00'' = Inr (instant_text 0)"
    using normalize_printed_timestamp [OF v wf_midnight _ t(2), of True] c i w by (simp add: TIMESTAMPTZ_def canonical_instant_alt ok_is_Inr)
  ultimately show ?thesis using one_text_per_instant by blast
qed

text \<open>
  A \<open>date\<close> literal is accepted exactly when it is three runs of digits that name a day of the
  Gregorian calendar in the years 1 to 9999, and it is then stored padded; everything else is refused.
\<close>

lemma date_literals_are_calendar_dates:
  "normalize_temporal_literal KDate text = Inr out \<longleftrightarrow>
     (\<exists>ys ms ds. trim text = ys @ ''-'' @ ms @ ''-'' @ ds
        \<and> ys \<noteq> [] \<and> all_digits ys \<and> ms \<noteq> [] \<and> all_digits ms \<and> ds \<noteq> [] \<and> all_digits ds
        \<and> 1 \<le> digits_value ys \<and> digits_value ys \<le> 9999
        \<and> valid_date (digits_value ys) (digits_value ms) (digits_value ds)
        \<and> out = date_render (digits_value ys, digits_value ms, digits_value ds))"
  (is "?lhs \<longleftrightarrow> ?rhs")
proof
  assume ?lhs
  then obtain y m d where p: "parse_date KDate (trim text) (trim text) = Inr (y, m, d)" and o: "out = date_render (y, m, d)"
    unfolding normalize_temporal_literal_def Let_def temporal_literal_kind.case res_bind_eq_ok split_paired_Ex by (auto simp: ok_is_Inr)
  from p obtain ys ms ds where s: "split_on (CHR ''-'') (trim text) = [ys, ms, ds]"
    and c: "parse_component KDate ys (trim text) = Inr y" "parse_component KDate ms (trim text) = Inr m"
      "parse_component KDate ds (trim text) = Inr d"
    by (rule parse_date_parts)
  from s have t: "trim text = ys @ ''-'' @ ms @ ''-'' @ ds" by (metis join_split_on join.simps(2,3) append.assoc)
  from c have d: "ys \<noteq> [] \<and> all_digits ys \<and> ms \<noteq> [] \<and> all_digits ms \<and> ds \<noteq> [] \<and> all_digits ds" "digits_value ys = y" "digits_value ms = m" "digits_value ds = d"
    by (simp_all only: ok_is_Inr [symmetric] parse_component_ok) simp_all
  from parse_date_ok [OF p [folded ok_is_Inr]] t d o show ?rhs by blast
next
  assume ?rhs
  then obtain ys ms ds where t: "trim text = ys @ ''-'' @ ms @ ''-'' @ ds"
    and d: "ys \<noteq> []" "all_digits ys" "ms \<noteq> []" "all_digits ms" "ds \<noteq> []" "all_digits ds"
    and v: "1 \<le> digits_value ys" "digits_value ys \<le> 9999" "valid_date (digits_value ys) (digits_value ms) (digits_value ds)"
    and o: "out = date_render (digits_value ys, digits_value ms, digits_value ds)"
    by blast
  have "split_on (CHR ''-'') (trim text) = [ys, ms, ds]"
    unfolding t using d by (simp add: split_on_append_sep split_on_no_match digits_avoid)
  moreover have "digits_value ms \<le> 12" "digits_value ds \<le> 31"
    using v(3) by (auto simp: valid_date_def days_in_month_def nth_Cons' split: if_splits)
  then have "parse_component KDate ys (trim text) = ok (digits_value ys)" "parse_component KDate ms (trim text) = ok (digits_value ms)"
    "parse_component KDate ds (trim text) = ok (digits_value ds)"
    using d v by (simp_all only: parse_component_ok) simp_all
  moreover have "reject_non_iso_input KDate (trim text) = ok ()"
    unfolding t using d digits_plain by (intro reject_plain) (auto simp: plain_def)
  ultimately show ?lhs
    using v o by (auto simp: normalize_temporal_literal_def Let_def parse_date_def unwrap_or_def valid_date_def)
qed

end
