(* ===== verification/Timezone.thy ===== *)
theory Timezone
  imports Sql_Types Sql_Ast
begin

text \<open>
  Time zones of \<open>AT TIME ZONE\<close>: \<open>src/src/impls/timezone.rs\<close>, with the two callers that pick the sign
  of an offset, \<open>translate_at_time_zone\<close> of \<open>translator_impls/expr.rs\<close> and
  \<open>at_time_zone_for_modifier\<close> of \<open>reverse_translator_impls/function.rs\<close>.

  The declared type of a column is looked up in the schema: the lookup is the parameter \<open>declared\<close>.
  How an expression prints and what it translates to are the parameters \<open>show_expr\<close> and
  \<open>translated\<close>.
\<close>

section \<open>Offsets\<close>

definition is_fixed_utc_offset :: "string \<Rightarrow> bool" where
  "is_fixed_utc_offset v =
     (if length v \<noteq> 6 \<or> (v ! 0 \<noteq> CHR ''+'' \<and> v ! 0 \<noteq> CHR ''-'') \<or> v ! 3 \<noteq> CHR '':'' then False
      else if \<not> is_ascii_digit (v ! 1) \<or> \<not> is_ascii_digit (v ! 2) \<or> \<not> is_ascii_digit (v ! 4) \<or> \<not> is_ascii_digit (v ! 5)
      then False
      else (let hour = digit_val (v ! 1) * 10 + digit_val (v ! 2);
                minute = digit_val (v ! 4) * 10 + digit_val (v ! 5) in
            hour \<le> 23 \<and> minute \<le> 59))"

fun prefixed_offset :: "string list \<Rightarrow> string \<Rightarrow> string option" where
  "prefixed_offset [] lower = None"
| "prefixed_offset (p # ps) lower = (case strip_prefix p lower of
     Some rest \<Rightarrow> if is_fixed_utc_offset rest then Some rest else prefixed_offset ps lower
   | None \<Rightarrow> prefixed_offset ps lower)"

definition normalize_timezone_modifier :: "string \<Rightarrow> string \<Rightarrow> string \<Rightarrow> string option" where
  "normalize_timezone_modifier v normalized_utc normalized_local =
     (let trimmed = trim v; lower = to_ascii_lowercase trimmed in
      if lower \<in> {''utc'', ''gmt'', ''z''} then Some normalized_utc
      else if lower \<in> {''local'', ''localtime''} then Some normalized_local
      else if is_fixed_utc_offset trimmed then Some trimmed
      else prefixed_offset [''utc'', ''gmt''] lower)"

definition normalize_timezone_modifier_for_sqlite :: "string \<Rightarrow> string option" where
  "normalize_timezone_modifier_for_sqlite v = normalize_timezone_modifier v ''utc'' ''localtime''"

definition normalize_timezone_modifier_for_postgres :: "string \<Rightarrow> string option" where
  "normalize_timezone_modifier_for_postgres v = normalize_timezone_modifier v ''UTC'' ''localtime''"

definition flipped_shifting_offset :: "string \<Rightarrow> string option" where
  "flipped_shifting_offset m =
     (if \<not> is_fixed_utc_offset m \<or> drop 1 m = ''00:00'' then None
      else Some ((if starts_with ''-'' m then CHR ''+'' else CHR ''-'') # drop 1 m))"

section \<open>Naive and aware timestamps\<close>

datatype (plugins only: code size) timestamp_awareness = Naive | Aware

datatype (plugins only: code size) ts_expr =
    TsNested ts_expr
  | TsTypedString data_type
  | TsCast data_type
  | TsAtTimeZone ts_expr
  | TsFunction object_name
  | TsIdentifier ident
  | TsCompoundIdentifier "ident list"
  | TsOther string

fun from_data_type :: "data_type \<Rightarrow> timestamp_awareness option" where
  "from_data_type (DtTimestamp _ info) = Some (if info = Tz \<or> info = WithTimeZone then Aware else Naive)"
| "from_data_type DtDate = Some Naive"
| "from_data_type _ = None"

definition function_awareness :: "object_name \<Rightarrow> timestamp_awareness option" where
  "function_awareness name = (case last_ident name of
     None \<Rightarrow> None
   | Some i \<Rightarrow>
       (let f = to_ascii_lowercase (ident_value i) in
        if f \<in> {''now'', ''current_timestamp'', ''transaction_timestamp'', ''statement_timestamp'', ''clock_timestamp''} then Some Aware
        else if f = ''localtimestamp'' then Some Naive else None))"

fun contains_str :: "string \<Rightarrow> string \<Rightarrow> bool" where
  "contains_str needle [] \<longleftrightarrow> needle = []"
| "contains_str needle (c # s) \<longleftrightarrow> starts_with needle (c # s) \<or> contains_str needle s"

definition declared_contains :: "(ts_expr \<Rightarrow> (string \<Rightarrow> bool) \<Rightarrow> 'e + bool) \<Rightarrow> ts_expr \<Rightarrow> string \<Rightarrow> 'e + bool" where
  "declared_contains declared e needle = declared e (\<lambda>d. contains_str needle (to_ascii_lowercase d))"

fun or_else_res :: "'e + bool \<Rightarrow> 'e + bool \<Rightarrow> 'e + bool" where
  "or_else_res (Inl e) _ = Inl e"
| "or_else_res (Inr True) _ = Inr True"
| "or_else_res (Inr False) r = r"

definition column_awareness :: "(ts_expr \<Rightarrow> (string \<Rightarrow> bool) \<Rightarrow> 'e + bool) \<Rightarrow> ts_expr \<Rightarrow> 'e + timestamp_awareness option" where
  "column_awareness declared e =
     (case or_else_res (declared_contains declared e ''with time zone'') (declared_contains declared e ''timestamptz'') of
        Inl x \<Rightarrow> Inl x
      | Inr True \<Rightarrow> Inr (Some Aware)
      | Inr False \<Rightarrow>
          (case or_else_res (declared_contains declared e ''timestamp'') (declared_contains declared e ''date'') of
             Inl x \<Rightarrow> Inl x
           | Inr True \<Rightarrow> Inr (Some Naive)
           | Inr False \<Rightarrow> Inr None))"

fun invert_awareness :: "timestamp_awareness \<Rightarrow> timestamp_awareness" where
  "invert_awareness Aware = Naive"
| "invert_awareness Naive = Aware"

fun timestamp_awareness_of ::
  "(ts_expr \<Rightarrow> (string \<Rightarrow> bool) \<Rightarrow> 'e + bool) \<Rightarrow> ts_expr \<Rightarrow> 'e + timestamp_awareness option" where
  "timestamp_awareness_of declared (TsNested e) = timestamp_awareness_of declared e"
| "timestamp_awareness_of declared (TsTypedString ty) = Inr (from_data_type ty)"
| "timestamp_awareness_of declared (TsCast ty) = Inr (from_data_type ty)"
| "timestamp_awareness_of declared (TsAtTimeZone e) =
     map_sum id (map_option invert_awareness) (timestamp_awareness_of declared e)"
| "timestamp_awareness_of declared (TsFunction name) = Inr (function_awareness name)"
| "timestamp_awareness_of declared (TsIdentifier i) = column_awareness declared (TsIdentifier i)"
| "timestamp_awareness_of declared (TsCompoundIdentifier is) = column_awareness declared (TsCompoundIdentifier is)"
| "timestamp_awareness_of declared (TsOther _) = Inr None"

section \<open>The two directions\<close>

datatype (plugins only: code size) 'e zone_error = ZoneRefusal string | ZoneLookup 'e | ZoneOperand 'e

definition unsupported_zone :: string where
  "unsupported_zone = ''AT TIME ZONE supports only literal UTC/local or fixed offsets (+HH:MM/-HH:MM) in SQLite translation.''"

definition unknown_operand :: "string \<Rightarrow> string" where
  "unknown_operand t = ''AT TIME ZONE shifts a bare timestamp and a timestamptz in opposite directions, and `'' @ t
     @ ''` is not known to be either, so either choice would be wrong half the time. Cast the operand, as `'' @ t
     @ ''::timestamptz`, to say which it is.''"

text \<open>The arguments of the emitted \<open>datetime\<close> call: the operand and its modifiers.\<close>

definition translate_at_time_zone ::
  "(ts_expr \<Rightarrow> (string \<Rightarrow> bool) \<Rightarrow> 'e + bool) \<Rightarrow> (ts_expr \<Rightarrow> string) \<Rightarrow> (ts_expr \<Rightarrow> 'e + 'x) \<Rightarrow> ts_expr \<Rightarrow> string option
     \<Rightarrow> 'e zone_error + 'x \<times> string list" where
  "translate_at_time_zone declared show_expr translated timestamp time_zone =
     (case translated timestamp of
        Inl e \<Rightarrow> Inl (ZoneOperand e)
      | Inr x \<Rightarrow>
          (case Option.bind time_zone normalize_timezone_modifier_for_sqlite of
             None \<Rightarrow> Inl (ZoneRefusal unsupported_zone)
           | Some m \<Rightarrow>
               if m = ''utc'' \<or> m = ''+00:00'' \<or> m = ''-00:00'' then Inr (x, [])
               else (case flipped_shifting_offset m of
                  None \<Rightarrow> Inr (x, [m])
                | Some negated \<Rightarrow>
                    (case timestamp_awareness_of declared timestamp of
                       Inl e \<Rightarrow> Inl (ZoneLookup e)
                     | Inr None \<Rightarrow> Inl (ZoneRefusal (unknown_operand (show_expr timestamp)))
                     | Inr (Some Naive) \<Rightarrow> Inr (x, [m])
                     | Inr (Some Aware) \<Rightarrow> Inr (x, [negated])))))"

definition unknown_shifted :: "string \<Rightarrow> string \<Rightarrow> string" where
  "unknown_shifted m t = ''a datetime offset modifier of '' @ [CHR 0x27] @ m @ [CHR 0x27]
     @ '' shifts a bare timestamp and a timestamptz in opposite directions, and `'' @ t
     @ ''` is not known to be either, so either sign would be wrong half the time. Cast the operand, as `'' @ t
     @ ''::timestamptz`, to say which it is.''"

definition not_a_timestamp :: "string \<Rightarrow> string \<Rightarrow> string" where
  "not_a_timestamp m t = ''PostgreSQL applies AT TIME ZONE only to a timestamp, and `'' @ t
     @ ''` is not known to be a timestamp here, so reversing the datetime modifier '' @ [CHR 0x27] @ m @ [CHR 0x27]
     @ '' onto it would emit SQL PostgreSQL refuses. Cast the operand, as `'' @ t @ ''::timestamp`, to say what it holds.''"

definition at_time_zone_for_modifier ::
  "(ts_expr \<Rightarrow> (string \<Rightarrow> bool) \<Rightarrow> 'e + bool) \<Rightarrow> (ts_expr \<Rightarrow> string) \<Rightarrow> string \<Rightarrow> ts_expr \<Rightarrow> 'e zone_error + string" where
  "at_time_zone_for_modifier declared show_expr m timestamp =
     (let flipped = flipped_shifting_offset m in
      case timestamp_awareness_of declared timestamp of
        Inl e \<Rightarrow> Inl (ZoneLookup e)
      | Inr None \<Rightarrow> Inl (ZoneRefusal (if flipped \<noteq> None then unknown_shifted m (show_expr timestamp)
          else not_a_timestamp m (show_expr timestamp)))
      | Inr (Some awareness) \<Rightarrow> (case (flipped, awareness) of (Some f, Aware) \<Rightarrow> Inr f | _ \<Rightarrow> Inr m))"

section \<open>What an offset means\<close>

text \<open>The minutes a fixed offset stands for as a SQLite modifier.\<close>

definition offset_minutes :: "string \<Rightarrow> int" where
  "offset_minutes v =
     (let magnitude = int (digit_val (v ! 1) * 10 + digit_val (v ! 2)) * 60 + int (digit_val (v ! 4) * 10 + digit_val (v ! 5)) in
      if v ! 0 = CHR ''-'' then - magnitude else magnitude)"

lemma offset_chars:
  assumes "is_fixed_utc_offset v"
  obtains a b c d s where "v = [s, a, b, CHR '':'', c, d]" "s = CHR ''+'' \<or> s = CHR ''-''"
    "is_ascii_digit a" "is_ascii_digit b" "is_ascii_digit c" "is_ascii_digit d"
proof -
  from assms have l: "length v = 6" by (auto simp: is_fixed_utc_offset_def split: if_splits)
  then obtain s a b e c d where v: "v = [s, a, b, e, c, d]" by (auto simp: numeral_eq_Suc length_Suc_conv)
  from assms show thesis
    by (intro that [of s a b c d]) (auto simp: is_fixed_utc_offset_def v numeral_eq_Suc split: if_splits)
qed

lemma flipped_is_offset:
  assumes "flipped_shifting_offset m = Some f"
  shows "is_fixed_utc_offset m" "is_fixed_utc_offset f" "flipped_shifting_offset f = Some m"
    "offset_minutes f = - offset_minutes m" "drop 1 m \<noteq> ''00:00''"
proof -
  from assms show m: "is_fixed_utc_offset m" "drop 1 m \<noteq> ''00:00''" by (auto simp: flipped_shifting_offset_def split: if_splits)
  from m(1) obtain s a b c d where v: "m = [s, a, b, CHR '':'', c, d]" "s = CHR ''+'' \<or> s = CHR ''-''" by (rule offset_chars)
  with assms have f: "f = (if s = CHR ''-'' then CHR ''+'' else CHR ''-'') # [a, b, CHR '':'', c, d]"
    by (auto simp: flipped_shifting_offset_def starts_with_def split: if_splits)
  show i: "is_fixed_utc_offset f" using m(1) v unfolding f by (auto simp: is_fixed_utc_offset_def numeral_eq_Suc split: if_splits)
  show "flipped_shifting_offset f = Some m" using m(2) v i unfolding f by (auto simp: flipped_shifting_offset_def starts_with_def)
  show "offset_minutes f = - offset_minutes m" using v unfolding f by (auto simp: offset_minutes_def numeral_eq_Suc Let_def)
qed

lemma normalize_offset:
  assumes "is_fixed_utc_offset v"
  shows "normalize_timezone_modifier v u l = Some v"
proof -
  from assms obtain s a b c d where v: "v = [s, a, b, CHR '':'', c, d]" "s = CHR ''+'' \<or> s = CHR ''-''"
    and d: "is_ascii_digit d" by (rule offset_chars)
  have t: "trim v = v"
    using v d by (intro trim_id) (auto simp: is_whitespace_def is_ascii_digit_def)
  have "ascii_lower s = s" using v(2) by (auto simp: ascii_lower_def is_ascii_uppercase_def)
  then have "to_ascii_lowercase v \<notin> {''utc'', ''gmt'', ''z'', ''local'', ''localtime''}" using v by auto
  with assms t show ?thesis by (simp add: normalize_timezone_modifier_def Let_def)
qed

lemma prefixed_offset_Some: "prefixed_offset ps lower = Some m \<Longrightarrow> is_fixed_utc_offset m"
  by (induction ps) (auto split: option.splits if_splits)

lemma sqlite_modifier_forms:
  "normalize_timezone_modifier_for_sqlite v = Some m \<Longrightarrow> m = ''utc'' \<or> m = ''localtime'' \<or> is_fixed_utc_offset m"
  by (auto simp: normalize_timezone_modifier_for_sqlite_def normalize_timezone_modifier_def Let_def
      simp del: prefixed_offset.simps dest: prefixed_offset_Some split: if_splits)

lemma zero_offset: "is_fixed_utc_offset m \<Longrightarrow> drop 1 m = ''00:00'' \<Longrightarrow> m = ''+00:00'' \<or> m = ''-00:00''"
  by (erule offset_chars) auto

lemma zero_offset_minutes: "offset_minutes ''+00:00'' = 0" "offset_minutes ''-00:00'' = 0"
  by code_simp+

lemma translated_zone:
  assumes "translate_at_time_zone declared show_expr translated ts (Some z) = Inr (x, mods)"
    and "timestamp_awareness_of declared ts = Inr (Some a)"
  obtains m where "normalize_timezone_modifier_for_sqlite z = Some m" "mods = [] \<longrightarrow> m \<in> {''utc'', ''+00:00'', ''-00:00''}"
    "mods \<noteq> [] \<longrightarrow> (m = ''localtime'' \<and> mods = [m]) \<or> (\<exists>f. flipped_shifting_offset m = Some f \<and> mods = [case a of Naive \<Rightarrow> m | Aware \<Rightarrow> f])"
proof -
  from assms(1) obtain m where m: "normalize_timezone_modifier_for_sqlite z = Some m"
    by (auto simp: translate_at_time_zone_def split: sum.splits option.splits)
  have "m = ''localtime''" if "flipped_shifting_offset m = None" "m \<noteq> ''utc''" "m \<noteq> ''+00:00''" "m \<noteq> ''-00:00''"
    using that sqlite_modifier_forms [OF m] zero_offset by (auto simp: flipped_shifting_offset_def split: if_splits)
  with m assms show thesis
    by (intro that [of m])
      (auto simp: translate_at_time_zone_def split: sum.splits option.splits if_splits timestamp_awareness.splits)
qed

section \<open>PostgreSQL's reading\<close>

text \<open>The type PostgreSQL gives an operand. A column has the type it is declared with, spelled in one of the ways
  PostgreSQL spells the two timestamp types without a precision.\<close>

datatype (plugins only: code size) pg_time = PgTimestamp | PgTimestamptz | PgDate

definition pg_column_type :: "string \<Rightarrow> pg_time option" where
  "pg_column_type d = map_of [(''timestamp'', PgTimestamp), (''timestamp without time zone'', PgTimestamp),
     (''timestamptz'', PgTimestamptz), (''timestamp with time zone'', PgTimestamptz), (''date'', PgDate)] (to_ascii_lowercase d)"

definition pg_function_type :: "object_name \<Rightarrow> pg_time option" where
  "pg_function_type name = (case name of [Identifier i] \<Rightarrow>
     map_of [(''now'', PgTimestamptz), (''transaction_timestamp'', PgTimestamptz), (''statement_timestamp'', PgTimestamptz),
       (''clock_timestamp'', PgTimestamptz), (''current_timestamp'', PgTimestamptz), (''localtimestamp'', PgTimestamp)]
       (to_ascii_lowercase (ident_value i)) | _ \<Rightarrow> None)"

fun pg_data_type :: "data_type \<Rightarrow> pg_time option" where
  "pg_data_type (DtTimestamp _ info) = Some (if info = Tz \<or> info = WithTimeZone then PgTimestamptz else PgTimestamp)"
| "pg_data_type DtDate = Some PgDate"
| "pg_data_type _ = None"

text \<open>\<open>AT TIME ZONE\<close> takes a \<open>timestamp\<close> to a \<open>timestamptz\<close> and everything else to a \<open>timestamp\<close>: a \<open>date\<close> is
  taken as a \<open>timestamptz\<close>, the preferred type.\<close>

fun pg_type :: "(ts_expr \<Rightarrow> string option) \<Rightarrow> ts_expr \<Rightarrow> pg_time option" where
  "pg_type columns (TsNested e) = pg_type columns e"
| "pg_type columns (TsTypedString ty) = pg_data_type ty"
| "pg_type columns (TsCast ty) = pg_data_type ty"
| "pg_type columns (TsAtTimeZone e) =
     map_option (\<lambda>t. if t = PgTimestamp then PgTimestamptz else PgTimestamp) (pg_type columns e)"
| "pg_type columns (TsFunction name) = pg_function_type name"
| "pg_type columns (TsIdentifier i) = Option.bind (columns (TsIdentifier i)) pg_column_type"
| "pg_type columns (TsCompoundIdentifier is) = Option.bind (columns (TsCompoundIdentifier is)) pg_column_type"
| "pg_type columns (TsOther _) = None"

fun no_date :: "(ts_expr \<Rightarrow> string option) \<Rightarrow> ts_expr \<Rightarrow> bool" where
  "no_date columns (TsNested e) = no_date columns e"
| "no_date columns (TsAtTimeZone e) = no_date columns e"
| "no_date columns e = (pg_type columns e \<noteq> Some PgDate)"

text \<open>A zone as minutes east of Greenwich: an offset, bare or after \<open>UTC\<close> or \<open>GMT\<close>, is a POSIX one, which
  counts to the west.\<close>

definition pg_offset :: "string \<Rightarrow> int option" where
  "pg_offset v = (case v of
     [s, a, b, k, c, d] \<Rightarrow>
       (let hours = digit_val a * 10 + digit_val b; minutes = digit_val c * 10 + digit_val d in
        if (s = CHR ''+'' \<or> s = CHR ''-'') \<and> k = CHR '':'' \<and> list_all is_ascii_digit [a, b, c, d] \<and> hours \<le> 23 \<and> minutes \<le> 59
        then Some ((if s = CHR ''-'' then - 1 else 1) * (int hours * 60 + int minutes)) else None)
   | _ \<Rightarrow> None)"

definition pg_zone :: "string \<Rightarrow> int option" where
  "pg_zone z =
     (if trim z \<noteq> z then None
      else if to_ascii_lowercase z \<in> {''utc'', ''gmt'', ''z''} then Some 0
      else map_option uminus (pg_offset (if to_ascii_lowercase (take 3 z) \<in> {''utc'', ''gmt''} then drop 3 z else z)))"

text \<open>A wall-clock reading in a zone is an instant, and an instant has a wall-clock reading there.\<close>

fun pg_at_time_zone :: "pg_time \<Rightarrow> int \<Rightarrow> int \<Rightarrow> int" where
  "pg_at_time_zone PgTimestamp east wall = wall - east"
| "pg_at_time_zone _ east instant = instant + east"

lemma column_types_read:
  "pg_column_type d = Some PgTimestamp \<Longrightarrow> \<not> contains_str ''with time zone'' (to_ascii_lowercase d)
    \<and> \<not> contains_str ''timestamptz'' (to_ascii_lowercase d) \<and> contains_str ''timestamp'' (to_ascii_lowercase d)"
  "pg_column_type d = Some PgTimestamptz \<Longrightarrow> contains_str ''with time zone'' (to_ascii_lowercase d) \<or> contains_str ''timestamptz'' (to_ascii_lowercase d)"
  by (auto simp: pg_column_type_def starts_with_def split: if_splits)

lemma or_else_values [simp]: "or_else_res (Inr a) (Inr b) = Inr (a \<or> b)"
  by (cases a) simp_all

lemma column_awareness_read:
  assumes "\<And>P. declared e P = Inr (P d)" and "pg_column_type d = Some t" and "t \<noteq> PgDate"
  shows "column_awareness declared e = Inr (Some (if t = PgTimestamp then Naive else Aware))"
proof (cases t)
  case PgTimestamp
  then show ?thesis using column_types_read(1) [of d] assms by (simp add: column_awareness_def declared_contains_def)
next
  case PgTimestamptz
  then have "(contains_str ''with time zone'' (to_ascii_lowercase d) \<or> contains_str ''timestamptz'' (to_ascii_lowercase d)) = True"
    using column_types_read(2) [of d] assms(2) by simp
  then show ?thesis using PgTimestamptz by (simp only: column_awareness_def declared_contains_def assms(1) or_else_values) simp
qed (use assms(3) in simp)

lemma awareness_is_the_type:
  assumes "\<And>e d P. columns e = Some d \<Longrightarrow> declared e P = Inr (P d)" and "pg_type columns e = Some t" and "no_date columns e"
  shows "timestamp_awareness_of declared e = Inr (Some (if t = PgTimestamp then Naive else Aware)) \<and> t \<noteq> PgDate"
  using assms(2,3)
proof (induction e arbitrary: t)
  case (TsAtTimeZone e)
  then show ?case by (auto split: if_splits)
next
  case (TsFunction name)
  then obtain i where "name = [Identifier i]" by (auto simp: pg_function_type_def split: list.splits object_name_part.splits)
  with TsFunction show ?case by (auto simp: pg_function_type_def function_awareness_def split: if_splits)
next
  case (TsIdentifier i)
  then show ?case using assms(1) [of "TsIdentifier i"] column_awareness_read [of declared "TsIdentifier i"] by (auto simp: bind_eq_Some_conv)
next
  case (TsCompoundIdentifier i)
  then show ?case using assms(1) [of "TsCompoundIdentifier i"] column_awareness_read [of declared "TsCompoundIdentifier i"]
    by (auto simp: bind_eq_Some_conv)
next
  case (TsTypedString ty)
  then show ?case by (cases ty) (auto split: if_splits)
next
  case (TsCast ty)
  then show ?case by (cases ty) (auto split: if_splits)
qed auto

lemma pg_offset_read:
  assumes "pg_offset v = Some m"
  shows "is_fixed_utc_offset v" "offset_minutes v = m" "to_ascii_lowercase v = v"
proof -
  from assms obtain s a b c d where v: "v = [s, a, b, CHR '':'', c, d]" and s: "s = CHR ''+'' \<or> s = CHR ''-''"
    and d: "is_ascii_digit a" "is_ascii_digit b" "is_ascii_digit c" "is_ascii_digit d"
    and r: "digit_val a * 10 + digit_val b \<le> 23" "digit_val c * 10 + digit_val d \<le> 59"
      "m = (if s = CHR ''-'' then - 1 else 1) * (int (digit_val a * 10 + digit_val b) * 60 + int (digit_val c * 10 + digit_val d))"
    unfolding pg_offset_def by (auto simp: Let_def split: list.splits if_splits)
  show "is_fixed_utc_offset v" using v s d r by (auto simp: is_fixed_utc_offset_def numeral_eq_Suc Let_def)
  show "offset_minutes v = m" using v s r by (auto simp: offset_minutes_def numeral_eq_Suc Let_def)
  have "ascii_lower x = x" if "is_ascii_digit x" for x using that by (auto simp: ascii_lower_def is_ascii_uppercase_def is_ascii_digit_def)
  then show "to_ascii_lowercase v = v" using v s d by (auto simp: ascii_lower_def is_ascii_uppercase_def)
qed

lemma zones_read:
  assumes "pg_zone z = Some east"
  shows "\<exists>m. normalize_timezone_modifier_for_sqlite z = Some m
    \<and> (m = ''utc'' \<and> east = 0 \<or> is_fixed_utc_offset m \<and> offset_minutes m = - east)"
proof (cases "to_ascii_lowercase z \<in> {''utc'', ''gmt'', ''z''}")
  case True
  with assms show ?thesis by (auto simp: pg_zone_def normalize_timezone_modifier_for_sqlite_def normalize_timezone_modifier_def Let_def split: if_splits)
next
  case False
  have t: "trim z = z" using assms by (simp add: pg_zone_def split: if_splits)
  show ?thesis
  proof (cases "to_ascii_lowercase (take 3 z) \<in> {''utc'', ''gmt''}")
    case True
    with assms False t obtain m where m: "pg_offset (drop 3 z) = Some m" "east = - m" by (auto simp: pg_zone_def)
    note r = pg_offset_read [OF m(1)]
    obtain p where p: "p \<in> {''utc'', ''gmt''}" "to_ascii_lowercase (take 3 z) = p" using True by blast
    have low: "to_ascii_lowercase z = p @ drop 3 z"
      using r(3) p(2) by (metis append_take_drop_id to_ascii_lowercase_simps(3))
    have "length (drop 3 z) = 6" using r(1) by (auto simp: is_fixed_utc_offset_def split: if_splits)
    then have "length z = 9" by simp
    then have "\<not> is_fixed_utc_offset z" "to_ascii_lowercase z \<notin> {''local'', ''localtime''}"
      using p low r(1) by (auto simp: is_fixed_utc_offset_def)
    moreover have "prefixed_offset [''utc'', ''gmt''] (to_ascii_lowercase z) = Some (drop 3 z)"
      using p(1) low r(1) by auto
    ultimately show ?thesis using False t r m(2)
      by (simp add: normalize_timezone_modifier_for_sqlite_def normalize_timezone_modifier_def Let_def)
  next
    case False': False
    with assms False t obtain m where m: "pg_offset z = Some m" "east = - m" by (auto simp: pg_zone_def)
    then show ?thesis using pg_offset_read [OF m(1)] normalize_offset by (simp add: normalize_timezone_modifier_for_sqlite_def)
  qed
qed

section \<open>Properties\<close>

text \<open>
  C21. \<open>AT TIME ZONE\<close> answers what PostgreSQL answers. For an operand PostgreSQL types as \<open>timestamp\<close> or
  \<open>timestamptz\<close> (from a literal, a cast, a nested \<open>AT TIME ZONE\<close>, one of its clock functions or the declared type
  of a column) and a zone spelled as \<open>UTC\<close>, \<open>GMT\<close> or an offset, the translation succeeds and the modifiers
  of the emitted \<open>datetime\<close> call shift the stored value to the one PostgreSQL computes: a wall-clock reading
  becomes the instant, an instant the wall-clock reading. No \<open>date\<close> stands under it, and the schema answers
  the declared types.
\<close>

theorem at_time_zone_shifts_as_postgres:
  assumes "\<And>e d P. columns e = Some d \<Longrightarrow> declared e P = Inr (P d)" and "translated ts = Inr x"
    and "pg_type columns ts = Some t" and "no_date columns ts" and "pg_zone z = Some east"
  shows "\<exists>mods. translate_at_time_zone declared show_expr translated ts (Some z) = Inr (x, mods)
    \<and> v + sum_list (map offset_minutes mods) = pg_at_time_zone t east v"
proof -
  note aware = awareness_is_the_type [of columns declared, OF assms(1) assms(3,4)]
  obtain m where m: "normalize_timezone_modifier_for_sqlite z = Some m"
    "m = ''utc'' \<and> east = 0 \<or> is_fixed_utc_offset m \<and> offset_minutes m = - east" using zones_read [OF assms(5)] by blast
  show ?thesis
  proof (cases "flipped_shifting_offset m")
    case None
    then have "m \<in> {''utc'', ''+00:00'', ''-00:00''}" using m(2) zero_offset by (auto simp: flipped_shifting_offset_def split: if_splits)
    then have "east = 0" using m(2) zero_offset_minutes by (auto simp: is_fixed_utc_offset_def)
    then show ?thesis using assms(2) m(1) \<open>m \<in> _\<close> by (cases t) (auto simp: translate_at_time_zone_def)
  next
    case (Some f)
    note f = flipped_is_offset [OF Some]
    have "m \<noteq> ''utc''" "m \<noteq> ''+00:00''" "m \<noteq> ''-00:00''" using f(1,5) by (auto simp: is_fixed_utc_offset_def)
    then show ?thesis using assms(2) m aware f(4) Some by (cases t) (auto simp: translate_at_time_zone_def)
  qed
qed

theorem at_time_zone_shifts_as_postgres_witness:
  "\<exists>mods. translate_at_time_zone (\<lambda>e P. if e = TsIdentifier (bare_ident ''at'') then Inr (P ''TIMESTAMPTZ'') else Inl ''unknown'') (\<lambda>_. [])
      (\<lambda>_. Inr ()) (TsNested (TsIdentifier (bare_ident ''at''))) (Some ''UTC+05:30'') = Inr ((), mods)
    \<and> 720 + sum_list (map offset_minutes mods) = 390"
proof -
  let ?c = "\<lambda>e. if e = TsIdentifier (bare_ident ''at'') then Some ''TIMESTAMPTZ'' else None"
  let ?d = "\<lambda>e P. if e = TsIdentifier (bare_ident ''at'') then Inr (P ''TIMESTAMPTZ'') else Inl ''unknown''"
  have "pg_zone ''UTC+05:30'' = Some (- 330)" "pg_column_type ''TIMESTAMPTZ'' = Some PgTimestamptz" by code_simp+
  then have "\<exists>mods. translate_at_time_zone ?d (\<lambda>_. []) (\<lambda>_. Inr ()) (TsNested (TsIdentifier (bare_ident ''at''))) (Some ''UTC+05:30'') = Inr ((), mods)
    \<and> 720 + sum_list (map offset_minutes mods) = pg_at_time_zone PgTimestamptz (- 330) 720"
    by (intro at_time_zone_shifts_as_postgres [of ?c]) (simp_all split: if_splits)
  then show ?thesis by simp
qed

text \<open>A \<open>date\<close> is shifted the other way: PostgreSQL takes it as an instant, the translation as a wall-clock reading.\<close>

lemma dates_are_read_as_wall_clock:
  "translate_at_time_zone declared show_expr (\<lambda>_. Inr ()) (TsCast DtDate) (Some ''+05:30'') = Inr ((), [''+05:30''])
   \<and> v + sum_list (map offset_minutes [''+05:30'']) = v + 330 \<and> pg_zone ''+05:30'' = Some (- 330) \<and> pg_at_time_zone PgDate (- 330) v = v - 330"
proof -
  have "normalize_timezone_modifier_for_sqlite ''+05:30'' = Some ''+05:30''" "flipped_shifting_offset ''+05:30'' = Some ''-05:30''"
    "offset_minutes ''+05:30'' = 330" "pg_zone ''+05:30'' = Some (- 330)" by code_simp+
  then show ?thesis by (simp add: translate_at_time_zone_def)
qed

text \<open>
  A zone survives the round trip: reversing the emitted modifier over the same operand names a
  zone that translates to the same modifier again, because flipping the sign of an offset is its own
  inverse.
\<close>

lemma time_zone_round_trip:
  assumes "translate_at_time_zone declared show_expr translated ts (Some z) = Inr (x, [applied])"
    and "timestamp_awareness_of declared ts = Inr (Some a)"
  shows "\<exists>w zone. normalize_timezone_modifier_for_postgres applied = Some w
    \<and> at_time_zone_for_modifier declared show_expr w ts = Inr zone
    \<and> normalize_timezone_modifier_for_sqlite zone = normalize_timezone_modifier_for_sqlite z"
proof -
  from assms obtain m where m: "normalize_timezone_modifier_for_sqlite z = Some m"
    and "(m = ''localtime'' \<and> applied = m) \<or> (\<exists>f. flipped_shifting_offset m = Some f \<and> applied = (case a of Naive \<Rightarrow> m | Aware \<Rightarrow> f))"
    by (rule translated_zone) auto
  then consider "m = ''localtime''" "applied = m" | f where "flipped_shifting_offset m = Some f" "applied = (case a of Naive \<Rightarrow> m | Aware \<Rightarrow> f)"
    by blast
  then show ?thesis
  proof cases
    case 1
    have "normalize_timezone_modifier_for_postgres ''localtime'' = Some ''localtime''"
      "normalize_timezone_modifier_for_sqlite ''localtime'' = Some ''localtime''" "flipped_shifting_offset ''localtime'' = None"
      by code_simp+
    with 1 m assms(2) show ?thesis by (simp add: at_time_zone_for_modifier_def)
  next
    case 2
    note f = flipped_is_offset [OF 2(1)]
    show ?thesis
      using 2 m f assms(2) normalize_offset
      by (cases a) (simp_all add: at_time_zone_for_modifier_def normalize_timezone_modifier_for_postgres_def
          normalize_timezone_modifier_for_sqlite_def)
  qed
qed

lemma time_zone_round_trip_witness:
  "\<exists>w zone. normalize_timezone_modifier_for_postgres ''-05:30'' = Some w
    \<and> at_time_zone_for_modifier (\<lambda>_ _. Inr False :: string + bool) (\<lambda>_. []) w (TsTypedString (DtTimestamp None Tz)) = Inr zone
    \<and> normalize_timezone_modifier_for_sqlite zone = normalize_timezone_modifier_for_sqlite ''utc+05:30''"
  by (rule time_zone_round_trip [where translated = "\<lambda>_. Inr ()" and x = "()" and a = Aware]) code_simp+

end
