(* ===== verification/Placeholders.thy ===== *)
theory Placeholders
  imports Rust_Std "HOL-Library.Product_Lexorder"
begin

text \<open>
  Bind placeholders between SQLite and PostgreSQL: \<open>src/src/impls/placeholder.rs\<close>.

  A node is the list of the values its traversal visits, each with the location it starts at; the
  traversal itself is the syntax-tree crate's. A location is a line and a column, in that order. The
  parameter number is a \<open>u32\<close>, and the counter's unchecked increment is a \<open>Panic\<close> at its bound.
\<close>

type_synonym location = "nat \<times> nat"

datatype (plugins only: code size) sql_value = VPlaceholder string | VOther string

type_synonym node_values = "(location \<times> sql_value) list"

datatype (plugins only: code size) numberable_placeholder = Positional | Numbered nat

datatype (plugins only: code size) placeholder_token = Numberable numberable_placeholder | Named | Unrecognized

datatype (plugins only: code size) placeholder_error = UnsupportedNamedPlaceholder string

definition U32_BOUND :: nat where
  "U32_BOUND = 2 ^ 32"

definition classify :: "string \<Rightarrow> placeholder_token" where
  "classify token =
     (case strip_prefix ''?'' token of
        Some digits \<Rightarrow>
          if digits = [] then Numberable Positional
          else (case parse_unsigned U32_BOUND digits of
             Some n \<Rightarrow> Numberable (Numbered n)
           | None \<Rightarrow> Unrecognized)
      | None \<Rightarrow>
          if starts_with '':'' token \<or> starts_with ''@'' token \<or> starts_with ''$'' token then Named
          else Unrecognized)"

section \<open>SQLite to PostgreSQL\<close>

fun collect :: "node_values \<Rightarrow> string + (location \<times> numberable_placeholder) list" where
  "collect [] = Inr []"
| "collect ((l, VPlaceholder token) # vs) =
     (case classify token of
        Numberable kind \<Rightarrow> map_sum id (\<lambda>found. (l, kind) # found) (collect vs)
      | Named \<Rightarrow> Inl token
      | Unrecognized \<Rightarrow> collect vs)"
| "collect ((l, VOther _) # vs) = collect vs"

fun number_from :: "nat \<Rightarrow> (location \<times> numberable_placeholder) list \<Rightarrow> (placeholder_error, nat list) res" where
  "number_from mx [] = ok []"
| "number_from mx ((l, Positional) # found) =
     (if U32_BOUND \<le> mx + 1 then Inl Panic
      else res_bind (number_from (mx + 1) found) (\<lambda>ns. ok ((mx + 1) # ns)))"
| "number_from mx ((l, Numbered n) # found) =
     res_bind (number_from (max mx n) found) (\<lambda>ns. ok (n # ns))"

definition dollar :: "nat \<Rightarrow> string" where
  "dollar n = CHR ''$'' # show_nat n"

definition insert_dollar :: "location \<times> nat \<Rightarrow> (location \<rightharpoonup> string) \<Rightarrow> location \<rightharpoonup> string" where
  "insert_dollar = (\<lambda>(l, n) m. m(l \<mapsto> dollar n))"

definition assign_numbers :: "(location \<times> numberable_placeholder) list \<Rightarrow> (placeholder_error, location \<rightharpoonup> string) res" where
  "assign_numbers found =
     (let ordered = sort_key fst found in
      res_bind (number_from 0 ordered) (\<lambda>ns.
        ok (fold insert_dollar (zip (map fst ordered) ns) Map.empty)))"

fun rewrite_value :: "(location \<rightharpoonup> string) \<Rightarrow> location \<times> sql_value \<Rightarrow> location \<times> sql_value" where
  "rewrite_value mapping (l, VPlaceholder token) =
     (l, case mapping l of Some replacement \<Rightarrow> VPlaceholder replacement | None \<Rightarrow> VPlaceholder token)"
| "rewrite_value mapping (l, VOther s) = (l, VOther s)"

definition rewrite_placeholders_for_postgres :: "node_values \<Rightarrow> (placeholder_error, node_values) res" where
  "rewrite_placeholders_for_postgres node =
     (case collect node of
        Inl placeholder \<Rightarrow> refuse (UnsupportedNamedPlaceholder placeholder)
      | Inr found \<Rightarrow>
          if found = [] then ok node
          else res_bind (assign_numbers found) (\<lambda>mapping. ok (map (rewrite_value mapping) node)))"

section \<open>PostgreSQL to SQLite\<close>

definition postgres_parameter_digits :: "string \<Rightarrow> string option" where
  "postgres_parameter_digits token = Option.bind (strip_prefix ''$'' token)
     (\<lambda>digits. if digits \<noteq> [] \<and> all_digits digits then Some digits else None)"

fun sqlite_value :: "location \<times> sql_value \<Rightarrow> location \<times> sql_value" where
  "sqlite_value (l, VPlaceholder token) =
     (l, case postgres_parameter_digits token of Some digits \<Rightarrow> VPlaceholder (CHR ''?'' # digits) | None \<Rightarrow> VPlaceholder token)"
| "sqlite_value (l, VOther s) = (l, VOther s)"

definition rewrite_placeholders_for_sqlite :: "node_values \<Rightarrow> node_values" where
  "rewrite_placeholders_for_sqlite node = map sqlite_value node"

section \<open>SQLite's rule for bind indexes\<close>

text \<open>In source order a bare \<open>?\<close> takes one more than the largest number taken so far, and \<open>?N\<close> takes \<open>N\<close>.\<close>

definition follows_bind_rule :: "numberable_placeholder list \<Rightarrow> nat list \<Rightarrow> bool" where
  "follows_bind_rule kinds ns \<longleftrightarrow> length ns = length kinds \<and>
     (\<forall>i < length kinds. ns ! i = (case kinds ! i of
        Positional \<Rightarrow> 1 + Max (insert 0 (set (take i ns))) | Numbered n \<Rightarrow> n))"

lemma number_from_rule:
  assumes "number_from mx found = Inr ns"
  shows "length ns = length found"
    "i < length found \<Longrightarrow> ns ! i = (case snd (found ! i) of
        Positional \<Rightarrow> 1 + Max (insert mx (set (take i ns))) | Numbered n \<Rightarrow> n)"
proof -
  have "length ns = length found \<and> (\<forall>i < length found. ns ! i = (case snd (found ! i) of
        Positional \<Rightarrow> 1 + Max (insert mx (set (take i ns))) | Numbered n \<Rightarrow> n))"
    using assms
  proof (induction mx found arbitrary: ns rule: number_from.induct)
    case (2 mx l found)
    from 2(2) obtain ns' where n: "number_from (mx + 1) found = Inr ns'" "ns = (mx + 1) # ns'" and b: "\<not> U32_BOUND \<le> mx + 1"
      by (auto simp: res_bind_eq_ok split: if_splits)
    have "Max (insert mx (insert (Suc mx) S)) = Max (insert (Suc mx) S)" if "finite S" for S :: "nat set"
      using that by (cases "S = {}") (auto simp: max_def)
    with 2(1) [OF b n(1)] n(2) show ?case by (auto simp: less_Suc_eq_0_disj split: numberable_placeholder.splits)
  next
    case (3 mx l n found)
    from 3(2) obtain ns' where n: "number_from (max mx n) found = Inr ns'" "ns = n # ns'"
      by (auto simp: res_bind_eq_ok)
    have "Max (insert mx (insert n S)) = Max (insert (max mx n) S)" if "finite S" for S :: "nat set"
      using that by (cases "S = {}") (auto simp: ac_simps)
    with 3(1) [OF n(1)] n(2) show ?case by (auto simp: less_Suc_eq_0_disj split: numberable_placeholder.splits)
  qed simp
  then show "length ns = length found"
    "i < length found \<Longrightarrow> ns ! i = (case snd (found ! i) of
        Positional \<Rightarrow> 1 + Max (insert mx (set (take i ns))) | Numbered n \<Rightarrow> n)"
    by blast+
qed

lemma number_from_total:
  assumes "\<forall>x \<in> set found. \<forall>n. snd x = Numbered n \<longrightarrow> n \<le> b" "mx \<le> b" "b + length found < U32_BOUND"
  shows "\<exists>ns. number_from mx found = Inr ns"
  using assms
proof (induction mx found arbitrary: b rule: number_from.induct)
  case (2 mx l found)
  have "\<not> U32_BOUND \<le> mx + 1" using 2(3,4) by simp
  moreover have "\<exists>ns. number_from (mx + 1) found = Inr ns"
    using 2(2-4) by (intro 2(1) [OF \<open>\<not> U32_BOUND \<le> mx + 1\<close>, of "b + 1"]) (auto intro: le_SucI)
  ultimately show ?case by auto
next
  case (3 mx l n found)
  then have "\<exists>ns. number_from (max mx n) found = Inr ns" by (intro 3(1) [of b]) auto
  then show ?case by auto
qed simp

lemma insert_dollar_apply: "insert_dollar (l, n) m x = (if x = l then Some (dollar n) else m x)"
  by (simp add: insert_dollar_def)

lemma fold_insert_other: "x \<notin> set xs \<Longrightarrow> fold insert_dollar (zip xs ys) m x = m x"
proof (induction xs arbitrary: ys m)
  case (Cons a xs)
  then show ?case by (cases ys) (auto simp: insert_dollar_apply)
qed simp

lemma fold_insert_lookup:
  assumes "distinct ls" "length ns = length ls" "i < length ls"
  shows "fold insert_dollar (zip ls ns) m0 (ls ! i) = Some (dollar (ns ! i))"
  using assms
proof (induction ls arbitrary: ns i m0)
  case (Cons l ls)
  then obtain n ns' where n: "ns = n # ns'" by (cases ns) auto
  show ?case
  proof (cases i)
    case 0
    with Cons.prems show ?thesis by (simp add: n fold_insert_other insert_dollar_apply)
  next
    case (Suc j)
    with Cons show ?thesis by (simp add: n)
  qed
qed simp

lemma fold_insert_agrees:
  assumes "length ns = length ls" "\<forall>(l, n) \<in> set (zip ls ns). g l = Some (dollar n)"
  shows "fold insert_dollar (zip ls ns) m0 x = (if x \<in> set ls then g x else m0 x)"
  using assms
proof (induction ls arbitrary: ns m0)
  case (Cons l ls)
  then obtain n ns' where n: "ns = n # ns'" by (cases ns) auto
  with Cons show ?case by (simp add: insert_dollar_apply)
qed simp

lemma collect_member: "collect node = Inr found \<Longrightarrow> x \<in> set found \<Longrightarrow> \<exists>token. (fst x, VPlaceholder token) \<in> set node"
proof (induction node arbitrary: found rule: collect.induct)
  case (2 l token vs)
  then show ?case by (cases "classify token"; cases "collect vs") (fastforce+)
qed auto

lemma collect_distinct: "collect node = Inr found \<Longrightarrow> distinct (map fst node) \<Longrightarrow> distinct (map fst found)"
proof (induction node arbitrary: found rule: collect.induct)
  case (2 l token vs)
  then show ?case
    by (cases "classify token"; cases "collect vs") (force dest: collect_member)+
qed auto

section \<open>Properties\<close>

text \<open>
  C22. The reverse rewriting gives every placeholder the bind index SQLite gives it: the placeholders of
  a node, taken in source order and not in the order of the traversal, are numbered by SQLite's rule, and the
  rewritten node has the number of each placeholder at its place and no other value changed.
\<close>

theorem placeholders_take_sqlite_bind_indexes:
  assumes "rewrite_placeholders_for_postgres node = Inr node'" and "collect node = Inr found"
    and "distinct (map fst node)"
  shows "\<exists>ns. follows_bind_rule (map snd (sort_key fst found)) ns
    \<and> (\<forall>i < length found. (fst (sort_key fst found ! i), VPlaceholder (dollar (ns ! i))) \<in> set node')
    \<and> map fst node' = map fst node
    \<and> filter (\<lambda>(_, v). v = VOther s) node' = filter (\<lambda>(_, v). v = VOther s) node"
proof (cases "found = []")
  case True
  with assms show ?thesis by (intro exI [of _ "[]"]) (simp add: rewrite_placeholders_for_postgres_def follows_bind_rule_def)
next
  case False
  define ordered where "ordered = sort_key fst found"
  have len: "length ordered = length found" and st: "set ordered = set found" by (simp_all add: ordered_def)
  from assms(1,2) False obtain ns where n: "number_from 0 ordered = Inr ns" and
    r: "node' = map (rewrite_value (fold insert_dollar (zip (map fst ordered) ns) Map.empty)) node"
    by (auto simp: rewrite_placeholders_for_postgres_def assign_numbers_def Let_def ordered_def res_bind_eq_ok)
  let ?m = "fold insert_dollar (zip (map fst ordered) ns) Map.empty"
  note rule = number_from_rule [OF n]
  have "distinct (map fst ordered)" using collect_distinct [OF assms(2,3)]
    by (simp add: ordered_def distinct_map)
  then have look: "?m (fst (ordered ! i)) = Some (dollar (ns ! i))" if "i < length found" for i
    using fold_insert_lookup [of "map fst ordered" ns i] rule(1) that len by simp
  have "(fst (ordered ! i), VPlaceholder (dollar (ns ! i))) \<in> set node'" if i: "i < length found" for i
  proof -
    from i len st have "ordered ! i \<in> set found" using nth_mem by metis
    with collect_member [OF assms(2)] obtain token where t: "(fst (ordered ! i), VPlaceholder token) \<in> set node" by blast
    have "rewrite_value ?m (fst (ordered ! i), VPlaceholder token) = (fst (ordered ! i), VPlaceholder (dollar (ns ! i)))"
      using look [OF i] by simp
    with t show ?thesis unfolding r by force
  qed
  moreover have "follows_bind_rule (map snd ordered) ns"
    using rule len by (auto simp: follows_bind_rule_def)
  moreover have f: "fst (rewrite_value m x) = fst x" "snd (rewrite_value m x) = VOther s \<longleftrightarrow> snd x = VOther s"
      "snd x = VOther s \<Longrightarrow> rewrite_value m x = x" for m x
    by (cases x; cases "snd x"; auto split: option.splits)+
  have "map fst node' = map fst node" by (simp add: r f)
  moreover have "filter (\<lambda>(_, v). v = VOther s) node' = filter (\<lambda>(_, v). v = VOther s) node"
    unfolding r by (induction node) (auto simp: f split_beta)
  ultimately show ?thesis unfolding ordered_def by (intro exI [of _ ns]) simp
qed

theorem placeholders_take_sqlite_bind_indexes_witness:
  "\<exists>ns. follows_bind_rule [Positional, Positional] ns
    \<and> (\<forall>i < 2. ([(1, 2), (1, 5)] ! i, VPlaceholder (dollar (ns ! i))) \<in> {((1, 5), VPlaceholder ''$2''), ((1, 2), VPlaceholder ''$1'')})"
proof -
  let ?node = "[((1, 5), VPlaceholder ''?''), ((1, 2), VPlaceholder ''?'')]"
  have d: "dollar (Suc 0) = ''$1''" "dollar (Suc (Suc 0)) = ''$2''" by code_simp+
  have r: "rewrite_placeholders_for_postgres ?node = Inr [((1, 5), VPlaceholder ''$2''), ((1, 2), VPlaceholder ''$1'')]"
    by (simp add: rewrite_placeholders_for_postgres_def classify_def assign_numbers_def Let_def U32_BOUND_def insert_dollar_def d ok_def)
  have c: "collect ?node = Inr [((1, 5), Positional), ((1, 2), Positional)]" by (simp add: classify_def)
  have o: "sort_key fst [((1, 5), Positional), ((1, 2), Positional)] = [((1 :: nat, 2 :: nat), Positional), ((1, 5), Positional)]" by simp
  from placeholders_take_sqlite_bind_indexes [OF r c] obtain ns where
    "follows_bind_rule (map snd [((1 :: nat, 2 :: nat), Positional), ((1, 5), Positional)]) ns"
    "\<forall>i < length [((1, 5), Positional), ((1, 2), Positional)]. (fst ([((1 :: nat, 2 :: nat), Positional), ((1, 5), Positional)] ! i),
       VPlaceholder (dollar (ns ! i))) \<in> set [((1, 5), VPlaceholder ''$2''), ((1, 2), VPlaceholder ''$1'')]"
    unfolding o by auto
  then show ?thesis by (intro exI [of _ ns]) (auto simp: less_2_cases_iff)
qed

lemma classify_bound: "classify token = Numberable (Numbered n) \<Longrightarrow> n < U32_BOUND"
  by (auto simp: classify_def parse_unsigned_def Let_def split: option.splits if_splits)

lemma collect_numbered: "collect node = Inr found \<Longrightarrow> (l, Numbered n) \<in> set found \<Longrightarrow> n < U32_BOUND"
proof (induction node arbitrary: found rule: collect.induct)
  case (2 l' token vs)
  then show ?case
    using classify_bound by (cases "classify token"; cases "collect vs") (fastforce split: placeholder_token.splits)+
qed auto

lemma number_from_bound:
  assumes "number_from mx found = Inr ns" "\<forall>x \<in> set found. \<forall>n. snd x = Numbered n \<longrightarrow> n < U32_BOUND"
  shows "\<forall>n \<in> set ns. n < U32_BOUND"
  using assms
  by (induction mx found arbitrary: ns rule: number_from.induct) (auto simp: res_bind_eq_ok split: if_splits)

lemma number_from_numbered:
  "\<forall>x \<in> set found. \<exists>n. snd x = Numbered n \<Longrightarrow>
     number_from mx found = Inr (map (\<lambda>x. case snd x of Numbered n \<Rightarrow> n | Positional \<Rightarrow> 0) found)"
  by (induction mx found rule: number_from.induct) auto

lemma dollar_forms:
  assumes "n < U32_BOUND"
  shows "postgres_parameter_digits (dollar n) = Some (show_nat n)" "classify (CHR ''?'' # show_nat n) = Numberable (Numbered n)"
  using assms parse_unsigned_digits [of "show_nat n" U32_BOUND]
  by (simp_all add: postgres_parameter_digits_def dollar_def classify_def)

lemma unrecognized_stays: "classify t = Unrecognized \<Longrightarrow> postgres_parameter_digits t = None"
  by (cases "strip_prefix ''$'' t")
    (auto simp: classify_def postgres_parameter_digits_def starts_with_def split: option.splits if_splits)

lemma fold_insert_values:
  assumes "length ns = length ls"
  shows "(\<exists>n \<in> set ns. fold insert_dollar (zip ls ns) m0 l = Some (dollar n)) \<or> fold insert_dollar (zip ls ns) m0 l = m0 l \<and> l \<notin> set ls"
  using assms
proof (induction ls arbitrary: ns m0)
  case (Cons a ls)
  then obtain n ns' where n: "ns = n # ns'" by (cases ns) auto
  define m1 where "m1 = insert_dollar (a, n) m0"
  have m1: "m1 l = (if l = a then Some (dollar n) else m0 l)" by (simp add: m1_def insert_dollar_apply)
  have "length ns' = length ls" using Cons.prems n by simp
  from Cons.IH [OF this, of m1] m1 show ?case by (auto simp: n m1_def [symmetric] split: if_splits)
qed simp

lemma collect_unrecognized:
  "collect node = Inr found \<Longrightarrow> (l, VPlaceholder t) \<in> set node \<Longrightarrow> l \<notin> fst ` set found \<Longrightarrow> classify t = Unrecognized"
proof (induction node arbitrary: found rule: collect.induct)
  case (2 l' token vs)
  then show ?case by (cases "classify token"; cases "collect vs") fastforce+
qed auto

text \<open>A node whose placeholders are all in the form \<open>g\<close> gives them, as the reverse rewriting leaves it.\<close>

definition numbered_by :: "(location \<rightharpoonup> string) \<Rightarrow> location \<times> sql_value \<Rightarrow> bool" where
  "numbered_by g x \<longleftrightarrow> (\<forall>t. snd x = VPlaceholder t \<longrightarrow> (case g (fst x) of
     Some r \<Rightarrow> t = r \<and> (\<exists>n < U32_BOUND. r = dollar n) | None \<Rightarrow> classify t = Unrecognized))"

lemma collect_sqlite_values:
  assumes "\<forall>x \<in> set node. numbered_by g x"
  shows "\<exists>found. collect (map sqlite_value node) = Inr found
    \<and> (\<forall>x \<in> set found. \<exists>n. snd x = Numbered n \<and> g (fst x) = Some (dollar n))
    \<and> (\<forall>l t. (l, VPlaceholder t) \<in> set node \<longrightarrow> g l \<noteq> None \<longrightarrow> l \<in> fst ` set found)"
  using assms
proof (induction node)
  case (Cons x node)
  then obtain found where f: "collect (map sqlite_value node) = Inr found"
    "\<forall>x \<in> set found. \<exists>n. snd x = Numbered n \<and> g (fst x) = Some (dollar n)"
    "\<forall>l t. (l, VPlaceholder t) \<in> set node \<longrightarrow> g l \<noteq> None \<longrightarrow> l \<in> fst ` set found" by auto
  obtain l v where x: "x = (l, v)" by (cases x)
  show ?case
  proof (cases v)
    case (VOther s)
    with f x show ?thesis by auto
  next
    case (VPlaceholder t)
    show ?thesis
    proof (cases "g l")
      case None
      with Cons.prems VPlaceholder x have "classify t = Unrecognized" by (auto simp: numbered_by_def)
      with f x VPlaceholder None unrecognized_stays show ?thesis by auto
    next
      case (Some r)
      with Cons.prems VPlaceholder x obtain n where "n < U32_BOUND" "t = dollar n" "r = dollar n" by (auto simp: numbered_by_def)
      with f x VPlaceholder Some dollar_forms [of n] show ?thesis
        by (intro exI [of _ "(l, Numbered n) # found"]) auto
    qed
  qed
qed simp

lemma postgres_of_sqlite:
  assumes n: "\<forall>x \<in> set node. numbered_by g x"
  shows "rewrite_placeholders_for_postgres (map sqlite_value node) = Inr node"
proof -
  from collect_sqlite_values [OF n] obtain found where c: "collect (map sqlite_value node) = Inr found"
    and f: "\<forall>x \<in> set found. \<exists>n. snd x = Numbered n \<and> g (fst x) = Some (dollar n)"
    and d: "\<forall>l t. (l, VPlaceholder t) \<in> set node \<longrightarrow> g l \<noteq> None \<longrightarrow> l \<in> fst ` set found" by blast
  define ordered where "ordered = sort_key fst found"
  let ?ns = "map (\<lambda>x. case snd x of Numbered n \<Rightarrow> n | Positional \<Rightarrow> 0) ordered"
  have st: "set ordered = set found" by (simp add: ordered_def)
  have nf: "number_from 0 ordered = Inr ?ns" using f st by (intro number_from_numbered) auto
  have "\<forall>(l, n) \<in> set (zip (map fst ordered) ?ns). g l = Some (dollar n)"
    using f st by (fastforce simp: zip_map1 zip_map2 zip_same_conv_map)
  then have m: "fold insert_dollar (zip (map fst ordered) ?ns) Map.empty x = (if x \<in> fst ` set found then g x else None)" for x
    using fold_insert_agrees [of ?ns "map fst ordered" g Map.empty x] st by simp
  have "rewrite_value (fold insert_dollar (zip (map fst ordered) ?ns) Map.empty) (sqlite_value x) = x" if x: "x \<in> set node" for x
  proof -
    obtain l v where lv: "x = (l, v)" by (cases x)
    show ?thesis
    proof (cases v)
      case (VPlaceholder t)
      show ?thesis
      proof (cases "g l")
        case None
        with n x lv VPlaceholder unrecognized_stays show ?thesis by (auto simp: numbered_by_def m)
      next
        case (Some r)
        have "l \<in> fst ` set found" using d x lv VPlaceholder Some by blast
        with Some n x lv VPlaceholder show ?thesis by (auto simp: numbered_by_def m split: option.splits)
      qed
    qed (simp add: lv)
  qed
  then have r: "map (rewrite_value (fold insert_dollar (zip (map fst ordered) ?ns) Map.empty)) (map sqlite_value node) = node"
    by (simp add: map_idI)
  show ?thesis
  proof (cases "found = []")
    case True
    with r have "map (rewrite_value Map.empty) (map sqlite_value node) = node" by (simp add: ordered_def)
    moreover have "rewrite_value Map.empty x = x" for x by (cases x; cases "snd x") auto
    ultimately show ?thesis using c True by (simp add: rewrite_placeholders_for_postgres_def comp_def)
  next
    case False
    with c nf r show ?thesis
      by (simp add: rewrite_placeholders_for_postgres_def assign_numbers_def Let_def ordered_def ok_def)
  qed
qed

text \<open>
  A bind index survives the round trip: once placeholders are in PostgreSQL's form, going to
  SQLite's form and back gives the same node.
\<close>

lemma placeholders_round_trip:
  assumes "rewrite_placeholders_for_postgres node = Inr node'"
  shows "rewrite_placeholders_for_postgres (rewrite_placeholders_for_sqlite node') = Inr node'"
proof -
  from assms obtain found where c: "collect node = Inr found"
    by (auto simp: rewrite_placeholders_for_postgres_def split: sum.splits)
  define ordered where "ordered = sort_key fst found"
  have st: "set ordered = set found" by (simp add: ordered_def)
  obtain ns where n: "number_from 0 ordered = Inr ns"
    and r: "node' = map (rewrite_value (fold insert_dollar (zip (map fst ordered) ns) Map.empty)) node"
  proof (cases "found = []")
    case True
    have "rewrite_value Map.empty x = x" for x by (cases x; cases "snd x") auto
    with True that [of "[]"] assms c show thesis by (simp add: ordered_def rewrite_placeholders_for_postgres_def map_idI)
  next
    case False
    with assms c that show thesis
      by (auto simp: rewrite_placeholders_for_postgres_def assign_numbers_def Let_def ordered_def res_bind_eq_ok)
  qed
  let ?g = "fold insert_dollar (zip (map fst ordered) ns) Map.empty"
  have b: "\<forall>n \<in> set ns. n < U32_BOUND"
    using collect_numbered [OF c] by (intro number_from_bound [OF n]) (auto simp: st)
  have vals: "(\<exists>n < U32_BOUND. ?g l = Some (dollar n)) \<or> ?g l = None \<and> l \<notin> fst ` set found" for l
    using fold_insert_values [of ns "map fst ordered" Map.empty l] number_from_rule(1) [OF n] b st by auto
  have "\<forall>x \<in> set node'. numbered_by ?g x"
  proof
    fix x
    assume "x \<in> set node'"
    then obtain l v where x: "x = rewrite_value ?g (l, v)" and lv: "(l, v) \<in> set node" unfolding r by auto
    show "numbered_by ?g x"
    proof (cases v)
      case (VPlaceholder t)
      from vals [of l] show ?thesis
      proof
        assume "\<exists>n < U32_BOUND. ?g l = Some (dollar n)"
        with x VPlaceholder show ?thesis by (auto simp: numbered_by_def)
      next
        assume "?g l = None \<and> l \<notin> fst ` set found"
        with x VPlaceholder collect_unrecognized [OF c, of l t] lv show ?thesis by (simp add: numbered_by_def)
      qed
    qed (simp add: x numbered_by_def)
  qed
  from postgres_of_sqlite [OF this] show ?thesis by (simp add: rewrite_placeholders_for_sqlite_def)
qed

theorem placeholders_round_trip_witness:
  "rewrite_placeholders_for_postgres (rewrite_placeholders_for_sqlite [((1, 5), VPlaceholder ''$2''), ((1, 2), VPlaceholder ''$1'')])
    = Inr [((1, 5), VPlaceholder ''$2''), ((1, 2), VPlaceholder ''$1'')]"
proof (rule placeholders_round_trip)
  have d: "dollar (Suc 0) = ''$1''" "dollar (Suc (Suc 0)) = ''$2''" by code_simp+
  show "rewrite_placeholders_for_postgres [((1, 5), VPlaceholder ''?''), ((1, 2), VPlaceholder ''?'')]
    = Inr [((1, 5), VPlaceholder ''$2''), ((1, 2), VPlaceholder ''$1'')]"
    by (simp add: rewrite_placeholders_for_postgres_def classify_def assign_numbers_def Let_def U32_BOUND_def insert_dollar_def d ok_def)
qed

end
