(* ===== verification/Intervals.thy ===== *)
theory Intervals
  imports Sql_Types
begin

text \<open>
  Interval operands and literals: \<open>src/src/impls/interval.rs\<close>.

  Counts are \<open>i128\<close>: \<^typ>\<open>int\<close> with the checked operations of the prelude, and a \<open>Panic\<close> where the code
  uses an unchecked operator out of range (the sum inside \<open>rounding_div\<close> and the two negations).
  Division is Rust's, truncating towards zero. A refusal is its message.
\<close>

type_synonym 'a ires = "(string, 'a) res"

definition MICROS_PER_DAY :: int where "MICROS_PER_DAY = 86400000000"

definition MICROS_PER_HOUR :: int where "MICROS_PER_HOUR = 3600000000"

definition MICROS_PER_MINUTE :: int where "MICROS_PER_MINUTE = 60000000"

definition MICROS_PER_SECOND :: int where "MICROS_PER_SECOND = 1000000"

definition DAYS_PER_FRACTIONAL_MONTH :: int where "DAYS_PER_FRACTIONAL_MONTH = 30"

lemmas micros_defs = MICROS_PER_DAY_def MICROS_PER_HOUR_def MICROS_PER_MINUTE_def MICROS_PER_SECOND_def
  DAYS_PER_FRACTIONAL_MONTH_def

section \<open>Units and counts\<close>

datatype (plugins only: code size) unit_scale = UMonth | UMonths int | UMicros int

definition unit_scale_of :: "string \<Rightarrow> unit_scale option" where
  "unit_scale_of word =
     (if word \<in> {''microsecond'', ''microseconds'', ''us'', ''usec'', ''usecs'', ''useconds''} then Some (UMicros 1)
      else if word \<in> {''millisecond'', ''milliseconds'', ''ms'', ''msec'', ''msecs'', ''mseconds''} then Some (UMicros 1000)
      else if word \<in> {''second'', ''seconds'', ''sec'', ''secs'', ''s''} then Some (UMicros MICROS_PER_SECOND)
      else if word \<in> {''minute'', ''minutes'', ''min'', ''mins'', ''m''} then Some (UMicros MICROS_PER_MINUTE)
      else if word \<in> {''hour'', ''hours'', ''hr'', ''hrs'', ''h''} then Some (UMicros MICROS_PER_HOUR)
      else if word \<in> {''day'', ''days'', ''d''} then Some (UMicros MICROS_PER_DAY)
      else if word \<in> {''week'', ''weeks'', ''w''} then Some (UMicros (7 * MICROS_PER_DAY))
      else if word \<in> {''month'', ''months'', ''mon'', ''mons''} then Some UMonth
      else if word \<in> {''year'', ''years'', ''yr'', ''yrs'', ''y''} then Some (UMonths 12)
      else if word \<in> {''decade'', ''decades'', ''dec'', ''decs''} then Some (UMonths 120)
      else if word \<in> {''century'', ''centuries'', ''cent''} then Some (UMonths 1200)
      else if word \<in> {''millennium'', ''millennia'', ''mil'', ''mils''} then Some (UMonths 12000)
      else None)"

record decimal =
  dec_numerator :: int
  dec_denominator :: int

fun accumulate :: "int \<Rightarrow> string \<Rightarrow> int option" where
  "accumulate n [] = Some n"
| "accumulate n (c # cs) =
     Option.bind (checked_mul n 10) (\<lambda>t. Option.bind (checked_add t (int (digit_val c))) (\<lambda>n'. accumulate n' cs))"

definition decimal_parse :: "string \<Rightarrow> decimal option" where
  "decimal_parse s =
     (case s of [] \<Rightarrow> None
      | b # rest \<Rightarrow>
          (let (negative, digits) = (if b = CHR ''-'' then (True, rest) else if b = CHR ''+'' then (False, rest) else (False, s));
               (whole, fraction) = (case split_once (CHR ''.'') digits of Some p \<Rightarrow> p | None \<Rightarrow> (digits, [])) in
           if whole = [] \<and> fraction = [] then None
           else if \<not> all_digits (whole @ fraction) then None
           else Option.bind (if length fraction < 2 ^ 32 then checked (10 ^ length fraction) else None) (\<lambda>denominator.
             Option.bind (accumulate 0 (whole @ fraction)) (\<lambda>numerator.
               Some \<lparr>dec_numerator = (if negative then - numerator else numerator), dec_denominator = denominator\<rparr>))))"

definition truncating_div :: "int \<Rightarrow> int \<Rightarrow> int" where
  "truncating_div n d = n sdiv d"

text \<open>The sum inside is not checked: leaving the width is a panic.\<close>

definition rounding_div :: "int \<Rightarrow> int \<Rightarrow> ('e, int) res" where
  "rounding_div n d =
     (let half = d sdiv 2; s = (if 0 \<le> n then n + half else n - half) in
      if in_i128 s then ok (s sdiv d) else Inl Panic)"

definition neg128 :: "int \<Rightarrow> ('e, int) res" where
  "neg128 x = (if in_i128 (- x) then ok (- x) else Inl Panic)"

text \<open>A checked operation whose \<open>None\<close> leaves the function with \<open>None\<close>.\<close>

definition try_op :: "int option \<Rightarrow> (unit, int) res" where
  "try_op x = (case x of Some y \<Rightarrow> ok y | None \<Rightarrow> refuse ())"

section \<open>Date modifiers\<close>

record interval_fields =
  if_months :: int
  if_micros :: int

definition interval_fields_default :: interval_fields where
  "interval_fields_default = \<lparr>if_months = 0, if_micros = 0\<rparr>"

definition interval_add :: "interval_fields \<Rightarrow> decimal \<Rightarrow> unit_scale \<Rightarrow> (unit, interval_fields) res" where
  "interval_add f c sc = (case sc of
     UMonths per_unit \<Rightarrow>
       res_bind (try_op (checked_mul (dec_numerator c) per_unit)) (\<lambda>n.
       res_bind (rounding_div n (dec_denominator c)) (\<lambda>q.
       res_bind (try_op (checked_add (if_months f) q)) (\<lambda>m. ok (f\<lparr>if_months := m\<rparr>))))
   | UMonth \<Rightarrow>
       (let whole = truncating_div (dec_numerator c) (dec_denominator c) in
        res_bind (try_op (checked_add (if_months f) whole)) (\<lambda>m.
        res_bind (try_op (checked_mul whole (dec_denominator c))) (\<lambda>w.
        res_bind (try_op (checked_sub (dec_numerator c) w)) (\<lambda>remainder.
        res_bind (try_op (checked_mul remainder (DAYS_PER_FRACTIONAL_MONTH * MICROS_PER_DAY))) (\<lambda>r.
        res_bind (try_op (checked_add (if_micros f) (truncating_div r (dec_denominator c)))) (\<lambda>u.
          ok (f\<lparr>if_months := m, if_micros := u\<rparr>)))))))
   | UMicros per_unit \<Rightarrow>
       res_bind (try_op (checked_mul (dec_numerator c) per_unit)) (\<lambda>n.
       res_bind (try_op (checked_add (if_micros f) (truncating_div n (dec_denominator c)))) (\<lambda>u. ok (f\<lparr>if_micros := u\<rparr>))))"

definition interval_negate :: "interval_fields \<Rightarrow> ('e, interval_fields) res" where
  "interval_negate f = res_bind (neg128 (if_months f)) (\<lambda>m. res_bind (neg128 (if_micros f)) (\<lambda>u.
     ok \<lparr>if_months = m, if_micros = u\<rparr>))"

definition interval_scale :: "interval_fields \<Rightarrow> int \<Rightarrow> interval_fields option" where
  "interval_scale f factor = Option.bind (checked_mul (if_months f) factor) (\<lambda>m.
     Option.bind (checked_mul (if_micros f) factor) (\<lambda>u. Some \<lparr>if_months = m, if_micros = u\<rparr>))"

definition signed_count :: "int \<Rightarrow> string \<Rightarrow> string" where
  "signed_count count unit = (if count < 0 then CHR ''-'' else CHR ''+'') # show_nat (nat \<bar>count\<bar>) @ '' '' @ unit"

definition trim_end_zeros :: "string \<Rightarrow> string" where
  "trim_end_zeros s = rev (dropWhile (\<lambda>c. c = CHR ''0'') (rev s))"

definition time_modifier :: "int \<Rightarrow> string" where
  "time_modifier micros =
     (if micros smod MICROS_PER_HOUR = 0 then signed_count (micros sdiv MICROS_PER_HOUR) ''hours''
      else if micros smod MICROS_PER_MINUTE = 0 then signed_count (micros sdiv MICROS_PER_MINUTE) ''minutes''
      else if micros smod MICROS_PER_SECOND = 0 then signed_count (micros sdiv MICROS_PER_SECOND) ''seconds''
      else (let magnitude = nat \<bar>micros\<bar>; fraction = pad0 6 (magnitude mod 1000000) in
        (if micros < 0 then CHR ''-'' else CHR ''+'') # show_nat (magnitude div 1000000) @ ''.'' @ trim_end_zeros fraction @ '' seconds''))"

definition modifiers :: "interval_fields \<Rightarrow> string list" where
  "modifiers f =
     (let days = if_micros f sdiv MICROS_PER_DAY; time = if_micros f smod MICROS_PER_DAY in
      (if if_months f \<noteq> 0 then [signed_count (if_months f) ''months'', ''floor''] else [])
      @ (if days \<noteq> 0 then [signed_count days ''days''] else [])
      @ (if time \<noteq> 0 then [time_modifier time] else []))"

text \<open>An interval operand: its value when it is a quoted literal, the unit of its leading field as it
  prints, and whether it has a last field.\<close>

record sql_interval =
  iv_body :: "string option"
  iv_leading_field :: "string option"
  iv_last_field :: bool

fun chunk_pairs :: "string list \<Rightarrow> (string \<times> string) list" where
  "chunk_pairs (a # b # ts) = (a, to_lowercase b) # chunk_pairs ts"
| "chunk_pairs _ = []"

definition unit_pairs :: "sql_interval \<Rightarrow> (string \<times> string) list option" where
  "unit_pairs iv =
     (if iv_last_field iv then None
      else Option.bind (iv_body iv) (\<lambda>body.
        (let tokens = split_whitespace body in
         case iv_leading_field iv of
           Some field \<Rightarrow> (case tokens of [count] \<Rightarrow> Some [(count, to_lowercase field)] | _ \<Rightarrow> None)
         | None \<Rightarrow> if tokens = [] \<or> odd (length tokens) then None else Some (chunk_pairs tokens))))"

definition not_a_decimal :: "string \<Rightarrow> string \<Rightarrow> string" where
  "not_a_decimal count unit = ''INTERVAL '' @ [CHR 0x27] @ count @ '' '' @ unit @ [CHR 0x27] @ '' cannot be translated: '' @ count
     @ '' is not a plain decimal count. Write the interval as a sequence of count and unit pairs, such as INTERVAL ''
     @ [CHR 0x27] @ ''1 month 2 days'' @ [CHR 0x27] @ ''.''"

definition not_a_unit :: "string \<Rightarrow> string" where
  "not_a_unit unit = ''INTERVAL unit '' @ [CHR 0x27] @ unit @ [CHR 0x27] @ '' is not a PostgreSQL interval unit, so it has no SQLite date modifier. ''
     @ ''The units are microsecond, millisecond, second, minute, hour, day, week, month, year, decade, century and millennium, with their usual abbreviations.''"

definition too_large :: "string \<Rightarrow> string \<Rightarrow> string" where
  "too_large count unit = ''INTERVAL '' @ [CHR 0x27] @ count @ '' '' @ unit @ [CHR 0x27]
     @ '' is too large to translate: the count overflows the months and microseconds PostgreSQL would hold it in.''"

definition scaled_overflow :: "int \<Rightarrow> string" where
  "scaled_overflow factor = ''INTERVAL scaled by '' @ show_int factor @ '' overflows the months and microseconds it would hold.''"

fun or_refuse :: "(unit, 'a) res \<Rightarrow> string \<Rightarrow> 'a ires" where
  "or_refuse (Inr x) msg = ok x"
| "or_refuse (Inl (Err _)) msg = refuse msg"
| "or_refuse (Inl Panic) msg = Inl Panic"

fun add_pairs :: "interval_fields \<Rightarrow> (string \<times> string) list \<Rightarrow> interval_fields ires" where
  "add_pairs f [] = ok f"
| "add_pairs f ((count, unit) # pairs) =
     res_bind (ok_or (decimal_parse count) (not_a_decimal count unit)) (\<lambda>parsed.
     res_bind (ok_or (unit_scale_of unit) (not_a_unit unit)) (\<lambda>sc.
     res_bind (or_refuse (interval_add f parsed sc) (too_large count unit)) (\<lambda>f'.
       add_pairs f' pairs)))"

definition interval_date_modifiers_scaled :: "sql_interval \<Rightarrow> bool \<Rightarrow> int \<Rightarrow> string list option ires" where
  "interval_date_modifiers_scaled iv negated factor =
     (case unit_pairs iv of
        None \<Rightarrow> ok None
      | Some pairs \<Rightarrow>
          res_bind (add_pairs interval_fields_default pairs) (\<lambda>f.
          res_bind (ok_or (interval_scale f factor) (scaled_overflow factor)) (\<lambda>f.
          res_bind (if negated then interval_negate f else ok f) (\<lambda>f.
            ok (Some (modifiers f))))))"

definition interval_date_modifiers :: "sql_interval \<Rightarrow> bool \<Rightarrow> string list option ires" where
  "interval_date_modifiers iv negated = interval_date_modifiers_scaled iv negated 1"

section \<open>Literals\<close>

datatype (plugins only: code size) literal_scale = LMonths int | LMonth | LDays int | LMicros int

definition literal_unit_scale :: "string \<Rightarrow> literal_scale option" where
  "literal_unit_scale word =
     (if word \<in> {''day'', ''days'', ''d''} then Some (LDays 1)
      else if word \<in> {''week'', ''weeks'', ''w''} then Some (LDays 7)
      else map_option (\<lambda>sc. case sc of UMonth \<Rightarrow> LMonth | UMonths p \<Rightarrow> LMonths p | UMicros p \<Rightarrow> LMicros p) (unit_scale_of word))"

record literal_fields =
  lf_months :: int
  lf_days :: int
  lf_micros :: int

definition literal_fields_default :: literal_fields where
  "literal_fields_default = \<lparr>lf_months = 0, lf_days = 0, lf_micros = 0\<rparr>"

definition add_micros :: "literal_fields \<Rightarrow> int \<Rightarrow> (unit, literal_fields) res" where
  "add_micros f micros =
     res_bind (try_op (checked_add (lf_days f) (micros sdiv MICROS_PER_DAY))) (\<lambda>d.
     res_bind (try_op (checked_add (lf_micros f) (micros smod MICROS_PER_DAY))) (\<lambda>u.
       ok (f\<lparr>lf_days := d, lf_micros := u\<rparr>)))"

definition literal_add :: "literal_fields \<Rightarrow> decimal \<Rightarrow> literal_scale \<Rightarrow> (unit, literal_fields) res" where
  "literal_add f c sc = (case sc of
     LMonths per_unit \<Rightarrow>
       res_bind (try_op (checked_mul (dec_numerator c) per_unit)) (\<lambda>n.
       res_bind (rounding_div n (dec_denominator c)) (\<lambda>q.
       res_bind (try_op (checked_add (lf_months f) q)) (\<lambda>m. ok (f\<lparr>lf_months := m\<rparr>))))
   | LMonth \<Rightarrow>
       (let whole = truncating_div (dec_numerator c) (dec_denominator c) in
        res_bind (try_op (checked_add (lf_months f) whole)) (\<lambda>m.
        res_bind (try_op (checked_mul whole (dec_denominator c))) (\<lambda>w.
        res_bind (try_op (checked_sub (dec_numerator c) w)) (\<lambda>remainder.
        res_bind (try_op (checked_mul remainder (DAYS_PER_FRACTIONAL_MONTH * MICROS_PER_DAY))) (\<lambda>r.
          add_micros (f\<lparr>lf_months := m\<rparr>) (truncating_div r (dec_denominator c)))))))
   | LDays per_unit \<Rightarrow>
       res_bind (try_op (checked_mul (dec_numerator c) per_unit)) (\<lambda>scaled.
        (let whole = truncating_div scaled (dec_denominator c) in
         res_bind (try_op (checked_add (lf_days f) whole)) (\<lambda>d.
         res_bind (try_op (checked_mul whole (dec_denominator c))) (\<lambda>w.
         res_bind (try_op (checked_sub scaled w)) (\<lambda>remainder.
         res_bind (try_op (checked_mul remainder MICROS_PER_DAY)) (\<lambda>r.
         res_bind (try_op (checked_add (lf_micros f) (truncating_div r (dec_denominator c)))) (\<lambda>u.
           ok (f\<lparr>lf_days := d, lf_micros := u\<rparr>))))))))
   | LMicros per_unit \<Rightarrow>
       res_bind (try_op (checked_mul (dec_numerator c) per_unit)) (\<lambda>n.
       res_bind (try_op (checked_add (lf_micros f) (truncating_div n (dec_denominator c)))) (\<lambda>u. ok (f\<lparr>lf_micros := u\<rparr>))))"

definition literal_negate :: "literal_fields \<Rightarrow> ('e, literal_fields) res" where
  "literal_negate f = res_bind (neg128 (lf_months f)) (\<lambda>m. res_bind (neg128 (lf_days f)) (\<lambda>d. res_bind (neg128 (lf_micros f)) (\<lambda>u.
     ok \<lparr>lf_months = m, lf_days = d, lf_micros = u\<rparr>)))"

definition clock_text :: "int \<Rightarrow> string" where
  "clock_text micros =
     (let magnitude = nat \<bar>micros\<bar>;
          seconds_total = magnitude div 1000000;
          fraction = magnitude mod 1000000;
          clock = (if micros < 0 then ''-'' else []) @ pad0 2 (seconds_total div 3600) @ '':''
            @ pad0 2 (seconds_total mod 3600 div 60) @ '':'' @ pad0 2 (seconds_total mod 60) in
      if fraction = 0 then clock else clock @ ''.'' @ trim_end_zeros (pad0 6 fraction))"

definition counted :: "int \<Rightarrow> string \<Rightarrow> string \<Rightarrow> string" where
  "counted n one many = show_int n @ '' '' @ (if n = 1 then one else many)"

definition text_parts :: "literal_fields \<Rightarrow> string list" where
  "text_parts f =
     (let years = lf_months f sdiv 12; months = lf_months f smod 12;
          parts = (if years \<noteq> 0 then [counted years ''year'' ''years''] else [])
            @ (if months \<noteq> 0 then [counted months ''mon'' ''mons''] else [])
            @ (if lf_days f \<noteq> 0 then [counted (lf_days f) ''day'' ''days''] else []) in
      if lf_micros f \<noteq> 0 \<or> parts = [] then parts @ [clock_text (lf_micros f)] else parts)"

definition to_postgres_text :: "literal_fields \<Rightarrow> string" where
  "to_postgres_text f = join '' '' (text_parts f)"

definition unreadable_interval :: "string \<Rightarrow> string \<Rightarrow> string" where
  "unreadable_interval t reason = ''invalid input syntax for type interval: '' @ dquoted t @ '': '' @ reason
     @ ''. The replica stores an interval column as the text PostgreSQL prints for it, so a value it cannot read is a value the two databases would disagree about. ''
     @ ''Write it as a count and a unit, a clock reading, or an ISO 8601 duration.''"

definition quoted_word :: "string \<Rightarrow> string" where
  "quoted_word s = [CHR 0x27] @ s @ [CHR 0x27]"

definition split_count_and_unit :: "string \<Rightarrow> string \<times> string option" where
  "split_count_and_unit token = (case find_index is_ascii_alphabetic token of
     Some i \<Rightarrow> (take i token, Some (drop i token)) | None \<Rightarrow> (token, None))"

definition add_unit :: "literal_fields \<Rightarrow> string \<Rightarrow> string \<Rightarrow> string \<Rightarrow> literal_fields ires" where
  "add_unit f count unit t =
     res_bind (ok_or (decimal_parse count) (unreadable_interval t (quoted_word count @ '' is not a number''))) (\<lambda>parsed.
     res_bind (ok_or (literal_unit_scale (to_ascii_lowercase unit)) (unreadable_interval t (quoted_word unit @ '' is not an interval unit''))) (\<lambda>sc.
       or_refuse (literal_add f parsed sc) (unreadable_interval t ''the counts overflow what PostgreSQL holds'')))"

definition add_clock_token :: "literal_fields \<Rightarrow> string option \<Rightarrow> string \<Rightarrow> string \<Rightarrow> literal_fields ires" where
  "add_clock_token f leading_days token t =
     res_bind (case leading_days of Some days \<Rightarrow> add_unit f days ''days'' t | None \<Rightarrow> ok f) (\<lambda>f.
     (let (negative, clock) = (case strip_prefix ''-'' token of
            Some rest \<Rightarrow> (True, rest)
          | None \<Rightarrow> (False, case strip_prefix ''+'' token of Some rest \<Rightarrow> rest | None \<Rightarrow> token));
          parts = split_on (CHR '':'') clock;
          part = (\<lambda>i d. if i < length parts then parts ! i else d) in
      if 3 < length parts then refuse (unreadable_interval t ''a clock reading has three parts at most'')
      else
        res_bind (add_unit literal_fields_default (part 0 []) ''hours'' t) (\<lambda>c1.
        res_bind (add_unit c1 (part 1 []) ''minutes'' t) (\<lambda>c2.
        res_bind (add_unit c2 (part 2 ''0'') ''seconds'' t) (\<lambda>c3.
        res_bind (if negative then literal_negate c3 else ok c3) (\<lambda>c.
        res_bind (ok_or (checked_add (lf_micros f) (lf_micros c)) (unreadable_interval t ''the counts overflow what PostgreSQL holds'')) (\<lambda>u.
          ok (f\<lparr>lf_micros := u\<rparr>))))))))"

definition parse_year_month_interval :: "string \<Rightarrow> literal_fields option" where
  "parse_year_month_interval body =
     (let (negative, digits) = (case strip_prefix ''-'' body of
            Some rest \<Rightarrow> (True, rest)
          | None \<Rightarrow> (False, case strip_prefix ''+'' body of Some rest \<Rightarrow> rest | None \<Rightarrow> body)) in
      Option.bind (split_once (CHR ''-'') digits) (\<lambda>(years, months).
        if years = [] \<or> months = [] \<or> \<not> all_digits (years @ months) then None
        else Option.bind (parse_i128_digits years) (\<lambda>y.
          Option.bind (checked_mul y 12) (\<lambda>y12.
          Option.bind (parse_i128_digits months) (\<lambda>m.
          Option.bind (checked_add y12 m) (\<lambda>total.
            Some (literal_fields_default\<lparr>lf_months := (if negative then - total else total)\<rparr>)))))))"

definition iso_unit :: "char \<Rightarrow> bool \<Rightarrow> string option" where
  "iso_unit c in_time =
     (if c = CHR ''Y'' \<or> c = CHR ''y'' then Some ''years''
      else if (c = CHR ''M'' \<or> c = CHR ''m'') \<and> \<not> in_time then Some ''months''
      else if c = CHR ''W'' \<or> c = CHR ''w'' then Some ''weeks''
      else if c = CHR ''D'' \<or> c = CHR ''d'' then Some ''days''
      else if (c = CHR ''H'' \<or> c = CHR ''h'') \<and> in_time then Some ''hours''
      else if (c = CHR ''M'' \<or> c = CHR ''m'') \<and> in_time then Some ''minutes''
      else if (c = CHR ''S'' \<or> c = CHR ''s'') \<and> in_time then Some ''seconds''
      else None)"

text \<open>The loop over what is left of the body, from the count it stands at.\<close>

function iso_loop :: "literal_fields \<Rightarrow> bool \<Rightarrow> string \<Rightarrow> string \<Rightarrow> literal_fields ires" where
  "iso_loop f in_time [] t = ok f"
| "iso_loop f in_time (c # cs) t =
     (if c = CHR ''T'' \<or> c = CHR ''t'' then iso_loop f True cs t
      else case find_index is_ascii_alphabetic (c # cs) of
        None \<Rightarrow> refuse (unreadable_interval t ''a count has no unit designator'')
      | Some at \<Rightarrow>
          (case iso_unit ((c # cs) ! at) in_time of
             None \<Rightarrow> refuse (unreadable_interval t (quoted_word [(c # cs) ! at] @ '' is not an ISO 8601 interval designator here''))
           | Some unit \<Rightarrow>
               res_bind (add_unit f (take at (c # cs)) unit t) (\<lambda>f'. iso_loop f' in_time (drop (at + 1) (c # cs)) t)))"
  by pat_completeness auto
termination
  by (relation "measure (\<lambda>(_, _, s, _). length s)") auto

definition parse_iso_interval :: "string \<Rightarrow> string \<Rightarrow> literal_fields ires" where
  "parse_iso_interval body t = iso_loop literal_fields_default False (drop 1 body) t"

fun token_loop :: "literal_fields \<Rightarrow> string option \<Rightarrow> string list \<Rightarrow> string \<Rightarrow> literal_fields ires" where
  "token_loop f pending [] t = (case pending of Some seconds \<Rightarrow> add_unit f seconds ''seconds'' t | None \<Rightarrow> ok f)"
| "token_loop f pending (token # ts) t =
     (if CHR '':'' \<in> set token then
        res_bind (add_clock_token f pending token t) (\<lambda>f'. token_loop f' None ts t)
      else
        (let (count, unit) = split_count_and_unit token in
         case unit of
           Some u \<Rightarrow>
             if count = [] then
               res_bind (ok_or pending (unreadable_interval t (quoted_word u @ '' has no count''))) (\<lambda>c.
               res_bind (add_unit f c u t) (\<lambda>f'. token_loop f' None ts t))
             else
               res_bind (case pending of Some previous \<Rightarrow> add_unit f previous ''seconds'' t | None \<Rightarrow> ok f) (\<lambda>f.
               res_bind (add_unit f count u t) (\<lambda>f'. token_loop f' None ts t))
         | None \<Rightarrow>
             (case pending of
                Some previous \<Rightarrow> refuse (unreadable_interval t (quoted_word previous @ '' names no unit''))
              | None \<Rightarrow> token_loop f (Some count) ts t)))"

definition parse_interval_fields :: "string \<Rightarrow> string \<Rightarrow> literal_fields ires" where
  "parse_interval_fields body t =
     (if starts_with ''P'' body \<or> starts_with ''p'' body then parse_iso_interval body t
      else case parse_year_month_interval body of
        Some f \<Rightarrow> ok f
      | None \<Rightarrow> token_loop literal_fields_default None (split_whitespace body) t)"

definition normalize_interval_literal :: "string \<Rightarrow> string ires" where
  "normalize_interval_literal t =
     (let body = trim (case strip_prefix ''@'' (trim t) of Some rest \<Rightarrow> rest | None \<Rightarrow> trim t);
          (body, negated) = (case strip_suffix ''ago'' (to_ascii_lowercase body) of
             Some head \<Rightarrow> if head = [] \<or> ends_with '' '' head then (take (length head) body, True) else (body, False)
           | None \<Rightarrow> (body, False)) in
      res_bind (parse_interval_fields (trim body) t) (\<lambda>f.
      res_bind (if negated then literal_negate f else ok f) (\<lambda>f.
        ok (to_postgres_text f))))"

end
