(* ===== verification/Interval_Facts.thy ===== *)
theory Interval_Facts
  imports Intervals
begin

text \<open>
  What intervals promise: the text printed for an interval reads back as the same three counts, and
  the date modifiers emitted for one mean its months and its microseconds.
\<close>

section \<open>Reading a printed count\<close>

definition small :: "int \<Rightarrow> bool" where
  "small x \<longleftrightarrow> \<bar>x\<bar> < 2 ^ 127"

lemma small_in [simp]: "small x \<Longrightarrow> in_i128 x"
  by (auto simp: small_def in_i128_def)

lemma small_le: "\<bar>y\<bar> \<le> \<bar>x\<bar> \<Longrightarrow> small x \<Longrightarrow> small y"
  by (simp add: small_def)

lemma accumulate_digits:
  "all_digits s \<Longrightarrow> int (a * 10 ^ length s + digits_value s) < 2 ^ 127 \<Longrightarrow>
     accumulate (int a) s = Some (int (a * 10 ^ length s + digits_value s))"
proof (induction s arbitrary: a)
  case (Cons c s)
  have v: "digits_value (c # s) = digit_val c * 10 ^ length s + digits_value s"
    using digits_value_append [of "[c]" s] by (simp add: digits_value_def)
  define a' where "a' = a * 10 + digit_val c"
  have e: "a * 10 ^ length (c # s) + digits_value (c # s) = a' * 10 ^ length s + digits_value s"
    by (simp add: v a'_def algebra_simps)
  have "a' \<le> a' * 10 ^ length s + digits_value s" by (simp add: trans_le_add1)
  then have b: "int a' < 2 ^ 127" using Cons.prems(2) unfolding e by linarith
  then have "in_i128 (int a * 10)" "in_i128 (int a * 10 + int (digit_val c))" by (auto simp: a'_def in_i128_def)
  moreover have "int a * 10 + int (digit_val c) = int a'" by (simp add: a'_def)
  ultimately show ?case using Cons.IH [of a'] Cons.prems unfolding e by (simp add: checked_def)
qed simp

lemma accumulate_show:
  "all_digits s \<Longrightarrow> small (int (digits_value s)) \<Longrightarrow> accumulate 0 s = Some (int (digits_value s))"
  using accumulate_digits [of s 0] by (simp add: small_def)

lemma no_point: "all_digits s \<Longrightarrow> split_once (CHR ''.'') s = None"
  by (auto simp: split_once_None_iff is_ascii_digit_def dest: all_digitsD)

lemma digits_head:
  "all_digits s \<Longrightarrow> s \<noteq> [] \<Longrightarrow> \<exists>c cs. s = c # cs \<and> c \<noteq> CHR ''-'' \<and> c \<noteq> CHR ''+'' \<and> is_ascii_digit c"
  by (cases s) (auto simp: is_ascii_digit_def)

lemma decimal_parse_digits:
  assumes "all_digits s" "s \<noteq> []" "small (int (digits_value s))"
  shows "decimal_parse s = Some \<lparr>dec_numerator = int (digits_value s), dec_denominator = 1\<rparr>"
proof -
  obtain c cs where s: "s = c # cs" "c \<noteq> CHR ''-''" "c \<noteq> CHR ''+''" using digits_head [OF assms(1,2)] by blast
  from no_point [OF assms(1)] accumulate_show [OF assms(1,3)] assms(1,2) show ?thesis
    unfolding decimal_parse_def by (simp add: s checked_def in_i128_def)
qed

lemma decimal_parse_point:
  assumes "all_digits w" "w \<noteq> []" "all_digits z" "length z < 2 ^ 32" "in_i128 (10 ^ length z)" "accumulate 0 (w @ z) = Some n"
  shows "decimal_parse (w @ CHR ''.'' # z) = Some \<lparr>dec_numerator = n, dec_denominator = 10 ^ length z\<rparr>"
proof -
  define x where "x = w @ CHR ''.'' # z"
  obtain c cs where c: "w = c # cs" "c \<noteq> CHR ''-''" "c \<noteq> CHR ''+''" using digits_head [OF assms(1,2)] by blast
  then obtain rest where x: "x = c # rest" by (simp add: x_def)
  have s: "split_once (CHR ''.'') (c # rest) = Some (w, z)"
    unfolding x [symmetric] x_def using assms(1) by (intro split_once_append) (auto simp: is_ascii_digit_def dest: all_digitsD)
  with assms show ?thesis
    unfolding x_def [symmetric] x decimal_parse_def list.case using c by (simp add: checked_def)
qed

lemma decimal_parse_int:
  assumes "small n"
  shows "decimal_parse (show_int n) = Some \<lparr>dec_numerator = n, dec_denominator = 1\<rparr>"
proof (cases "n < 0")
  case True
  let ?s = "show_nat (nat (- n))"
  have "accumulate 0 ?s = Some (- n)" using accumulate_show [of ?s] True assms by (simp add: small_def)
  with no_point [of ?s] True show ?thesis
    by (simp add: show_int_def decimal_parse_def checked_def in_i128_def)
next
  case False
  with assms decimal_parse_digits [of "show_nat (nat n)"] show ?thesis by (simp add: show_int_def small_def)
qed

section \<open>Adding a printed count\<close>

lemma sdiv_one [simp]: "(n :: int) sdiv 1 = n"
  by (simp add: signed_divide_int_def sgn_mult_abs)

lemma rounding_div_one: "in_i128 n \<Longrightarrow> rounding_div n 1 = ok n"
  by (auto simp: rounding_div_def signed_divide_int_def sgn_mult_abs sgn_if)

lemma sdiv_0 [simp]: "(0 :: int) sdiv d = 0" "(0 :: int) smod d = 0"
  by (simp_all add: signed_divide_int_def signed_modulo_int_def)

lemma try_op_checked: "in_i128 x \<Longrightarrow> try_op (checked x) = ok x"
  by (simp add: try_op_def checked_def)

lemma literal_units:
  "literal_unit_scale (to_ascii_lowercase ''year'') = Some (LMonths 12)"
  "literal_unit_scale (to_ascii_lowercase ''years'') = Some (LMonths 12)"
  "literal_unit_scale (to_ascii_lowercase ''mon'') = Some LMonth"
  "literal_unit_scale (to_ascii_lowercase ''mons'') = Some LMonth"
  "literal_unit_scale (to_ascii_lowercase ''day'') = Some (LDays 1)"
  "literal_unit_scale (to_ascii_lowercase ''days'') = Some (LDays 1)"
  "literal_unit_scale (to_ascii_lowercase ''hours'') = Some (LMicros 3600000000)"
  "literal_unit_scale (to_ascii_lowercase ''minutes'') = Some (LMicros 60000000)"
  "literal_unit_scale (to_ascii_lowercase ''seconds'') = Some (LMicros 1000000)"
  by code_simp+

lemma add_years:
  assumes "small n" "small (n * 12)" "small (lf_months f + n * 12)" "literal_unit_scale (to_ascii_lowercase u) = Some (LMonths 12)"
  shows "add_unit f (show_int n) u t = ok (f\<lparr>lf_months := lf_months f + n * 12\<rparr>)"
  using assms by (simp add: add_unit_def decimal_parse_int literal_add_def try_op_checked rounding_div_one ok_def)

lemma in_i128_0 [simp]: "in_i128 0"
  by (simp add: in_i128_def)

lemma add_months:
  assumes "small n" "small (lf_months f + n)" "small (lf_days f)" "small (lf_micros f)"
    "literal_unit_scale (to_ascii_lowercase u) = Some LMonth"
  shows "add_unit f (show_int n) u t = ok (f\<lparr>lf_months := lf_months f + n\<rparr>)"
  using assms by (simp add: add_unit_def decimal_parse_int literal_add_def try_op_checked truncating_div_def add_micros_def ok_def)

lemma add_days:
  assumes "small n" "small (lf_days f + n)" "small (lf_micros f)" "literal_unit_scale (to_ascii_lowercase u) = Some (LDays 1)"
  shows "add_unit f (show_int n) u t = ok (f\<lparr>lf_days := lf_days f + n\<rparr>)"
  using assms by (simp add: add_unit_def decimal_parse_int literal_add_def try_op_checked truncating_div_def ok_def)

lemma add_clock_part:
  assumes "decimal_parse s = Some \<lparr>dec_numerator = n, dec_denominator = d\<rparr>" "small (n * p)" "small (lf_micros f + (n * p) sdiv d)"
    and "literal_unit_scale (to_ascii_lowercase u) = Some (LMicros p)"
  shows "add_unit f s u t = ok (f\<lparr>lf_micros := lf_micros f + (n * p) sdiv d\<rparr>)"
  using assms by (simp add: add_unit_def literal_add_def try_op_checked truncating_div_def ok_def)

section \<open>The clock reading\<close>

lemma trim_end_zeros_decomp:
  "\<exists>j. s = trim_end_zeros s @ replicate j (CHR ''0'')"
proof -
  have "rev s = takeWhile (\<lambda>c. c = CHR ''0'') (rev s) @ dropWhile (\<lambda>c. c = CHR ''0'') (rev s)" by simp
  then have "s = rev (dropWhile (\<lambda>c. c = CHR ''0'') (rev s)) @ rev (takeWhile (\<lambda>c. c = CHR ''0'') (rev s))"
    by (metis rev_append rev_rev_ident)
  moreover have "takeWhile (\<lambda>c. c = CHR ''0'') (rev s) = replicate (length (takeWhile (\<lambda>c. c = CHR ''0'') (rev s))) (CHR ''0'')"
    by (rule replicate_eqI) (auto dest: set_takeWhileD)
  ultimately show ?thesis unfolding trim_end_zeros_def by (metis rev_replicate)
qed

lemma trimmed_fraction:
  assumes "0 < fr" "fr < 1000000"
  obtains k where "k \<le> 6" "length (trim_end_zeros (pad0 6 fr)) = k" "digits_value (trim_end_zeros (pad0 6 fr)) * 10 ^ (6 - k) = fr"
    "all_digits (trim_end_zeros (pad0 6 fr))" "trim_end_zeros (pad0 6 fr) \<noteq> []"
proof -
  let ?z = "trim_end_zeros (pad0 6 fr)"
  obtain j where j: "pad0 6 fr = ?z @ replicate j (CHR ''0'')" using trim_end_zeros_decomp by blast
  have l: "length ?z + j = 6" using arg_cong [OF j, of length] length_pad0 [of fr 6] assms by simp
  have v: "fr = digits_value ?z * 10 ^ j"
    using arg_cong [OF j, of digits_value] by (simp add: digits_value_append)
  have "all_digits (?z @ replicate j (CHR ''0''))" unfolding j [symmetric] by simp
  then have "all_digits ?z" by simp
  moreover have "?z \<noteq> []" using v assms(1) by auto
  moreover have "6 - length ?z = j" using l by simp
  ultimately show thesis using that [of "length ?z"] l v by simp
qed

definition second_text :: "nat \<Rightarrow> nat \<Rightarrow> string" where
  "second_text s fr = pad0 2 s @ (if fr = 0 then [] else ''.'' @ trim_end_zeros (pad0 6 fr))"

lemma second_text_parses:
  assumes "s < 60" "fr < 1000000"
  obtains n d where "decimal_parse (second_text s fr) = Some \<lparr>dec_numerator = n, dec_denominator = d\<rparr>"
    "small (n * 1000000)" "(n * 1000000) sdiv d = int (s * 1000000 + fr)"
proof (cases "fr = 0")
  case True
  have "decimal_parse (pad0 2 s) = Some \<lparr>dec_numerator = int s, dec_denominator = 1\<rparr>"
    using decimal_parse_digits [of "pad0 2 s"] assms by (simp add: small_def)
  with True assms show thesis by (intro that [of "int s" 1]) (auto simp: second_text_def small_def)
next
  case False
  let ?z = "trim_end_zeros (pad0 6 fr)"
  obtain k where k: "k \<le> 6" "length ?z = k" "digits_value ?z * 10 ^ (6 - k) = fr" "all_digits ?z" "?z \<noteq> []"
    using trimmed_fraction [of fr] False assms by auto
  define n where "n = digits_value (pad0 2 s @ ?z)"
  have n: "n = s * 10 ^ k + digits_value ?z" using k by (simp add: n_def digits_value_append)
  have zb: "digits_value ?z < 10 ^ k" using digits_value_less [OF k(4)] k(2) by simp
  have "10 ^ k \<le> (10 :: nat) ^ 6" using k(1) by (intro power_increasing) auto
  then have p: "10 ^ k \<le> (1000000 :: nat)" by simp
  have "(s + 1) * 10 ^ k \<le> 60 * 10 ^ k" using assms(1) by (intro mult_le_mono1) simp
  then have "n < 60 * 10 ^ k" using zb unfolding n distrib_right by linarith
  with p have nb: "n < 60000000" by simp
  have e: "n * 1000000 = (s * 1000000 + fr) * 10 ^ k"
  proof -
    have "(1000000 :: nat) = 10 ^ (6 - k) * 10 ^ k" using k(1) by (simp flip: power_add)
    then have "digits_value ?z * 1000000 = fr * 10 ^ k" using k(3) by (metis mult.assoc)
    then show ?thesis by (simp add: n algebra_simps)
  qed
  have "accumulate 0 (pad0 2 s @ ?z) = Some (int n)"
    using accumulate_show [of "pad0 2 s @ ?z"] k nb by (simp add: n_def small_def)
  moreover have "(10 :: int) ^ k \<le> 10 ^ 6" using k(1) by (intro power_increasing) auto
  then have "in_i128 (10 ^ k)" by (auto simp: in_i128_def intro: order.trans [of _ 0])
  moreover have "k < 2 ^ 32" using k(1) by simp
  ultimately have "decimal_parse (second_text s fr) = Some \<lparr>dec_numerator = int n, dec_denominator = 10 ^ k\<rparr>"
    using False k decimal_parse_point [of "pad0 2 s" ?z "int n"] by (simp add: second_text_def)
  moreover have "(int n * 1000000) sdiv 10 ^ k = int (s * 1000000 + fr)"
  proof -
    have "int n * 1000000 = int (s * 1000000 + fr) * 10 ^ k" using arg_cong [OF e, of int] by simp
    then show ?thesis by (simp add: signed_divide_int_def sgn_if)
  qed
  moreover have "small (int n * 1000000)" using nb by (simp add: small_def)
  ultimately show thesis by (intro that)
qed

lemma clock_reads_back:
  assumes "small m" "lf_micros f = 0"
  shows "add_clock_token f None (clock_text m) t = ok (f\<lparr>lf_micros := m\<rparr>)"
proof -
  define mag st fr h mi s where "mag = nat \<bar>m\<bar>" and "st = mag div 1000000" and "fr = mag mod 1000000"
    and "h = st div 3600" and "mi = st mod 3600 div 60" and "s = st mod 60"
  have hms: "h * 3600 + mi * 60 + s = st"
  proof -
    have "st mod 3600 mod 60 = s" by (simp add: s_def mod_mod_cancel)
    then have "mi * 60 + s = st mod 3600" using div_mult_mod_eq [of "st mod 3600" 60] by (simp add: mi_def)
    then show ?thesis using div_mult_mod_eq [of st 3600] unfolding h_def by linarith
  qed
  have mag: "st * 1000000 + fr = mag" by (simp add: st_def fr_def)
  have total: "h * 3600000000 + mi * 60000000 + (s * 1000000 + fr) = mag" using hms mag by simp
  have mb: "int mag < 2 ^ 127" using assms(1) by (simp add: mag_def small_def)
  have b: "mi < 60" "s < 60" "fr < 1000000"
    by (auto simp: mi_def s_def fr_def div_less_iff_less_mult)
  have shown: "clock_text m = (if m < 0 then ''-'' else []) @ pad0 2 h @ '':'' @ pad0 2 mi @ '':'' @ second_text s fr"
    by (simp add: clock_text_def Let_def second_text_def mag_def st_def fr_def h_def mi_def s_def)
  have nc: "CHR '':'' \<notin> set (pad0 w n)" for w n
    using all_digitsD [OF pad0_simps(1) [of w n]] by (fastforce simp: is_ascii_digit_def)
  have ns: "CHR '':'' \<notin> set (second_text s fr)"
  proof (cases "fr = 0")
    case False
    then obtain k where "all_digits (trim_end_zeros (pad0 6 fr))" using trimmed_fraction [of fr] b by auto
    then show ?thesis using nc by (auto simp: second_text_def is_ascii_digit_def dest: all_digitsD)
  qed (simp add: second_text_def nc)
  have parts: "split_on (CHR '':'') (pad0 2 h @ '':'' @ pad0 2 mi @ '':'' @ second_text s fr) = [pad0 2 h, pad0 2 mi, second_text s fr]"
    using nc ns by (simp add: split_on_append_sep split_on_no_match)
  let ?f0 = literal_fields_default
  have z: "lf_micros ?f0 = 0" by (simp add: literal_fields_default_def)
  have sm: "small (int x)" if "x \<le> mag" for x using that mb by (simp add: small_def)
  have c1: "add_unit ?f0 (pad0 2 h) ''hours'' t = ok (?f0\<lparr>lf_micros := int (h * 3600000000)\<rparr>)"
    using add_clock_part [OF decimal_parse_digits [of "pad0 2 h"], of 3600000000 ?f0 "''hours''" t] literal_units(7) z
      sm [of h] sm [of "h * 3600000000"] total by simp
  have c2: "add_unit (?f0\<lparr>lf_micros := int (h * 3600000000)\<rparr>) (pad0 2 mi) ''minutes'' t
      = ok (?f0\<lparr>lf_micros := int (h * 3600000000 + mi * 60000000)\<rparr>)"
    using add_clock_part [OF decimal_parse_digits [of "pad0 2 mi"], of 60000000 "?f0\<lparr>lf_micros := int (h * 3600000000)\<rparr>" "''minutes''" t]
      literal_units(8) sm [of mi] sm [of "mi * 60000000"] sm [of "h * 3600000000 + mi * 60000000"] total by simp
  obtain n d where nd: "decimal_parse (second_text s fr) = Some \<lparr>dec_numerator = n, dec_denominator = d\<rparr>"
    "small (n * 1000000)" "(n * 1000000) sdiv d = int (s * 1000000 + fr)" using second_text_parses [OF b(2,3)] .
  have c3: "add_unit (?f0\<lparr>lf_micros := int (h * 3600000000 + mi * 60000000)\<rparr>) (second_text s fr) ''seconds'' t
      = ok (?f0\<lparr>lf_micros := int mag\<rparr>)"
    using add_clock_part [OF nd(1,2), of "?f0\<lparr>lf_micros := int (h * 3600000000 + mi * 60000000)\<rparr>" "''seconds''" t] nd(3) literal_units(9)
      sm [of mag] arg_cong [OF total, of int] by simp
  have neg: "literal_negate (?f0\<lparr>lf_micros := int mag\<rparr>) = (ok (?f0\<lparr>lf_micros := - int mag\<rparr>) :: literal_fields ires)"
    using mb by (simp add: literal_negate_def neg128_def literal_fields_default_def in_i128_def)
  obtain c cs where pc: "pad0 2 h = c # cs" "c \<noteq> CHR ''-''" "c \<noteq> CHR ''+''" using digits_head [of "pad0 2 h"] by auto
  have m: "m = (if m < 0 then - int mag else int mag)" by (simp add: mag_def)
  have "in_i128 m" using assms(1) by simp
  show ?thesis
  proof (cases "m < 0")
    case True
    with m have "m = - int mag" by simp
    then show ?thesis
      using True parts c1 c2 c3 neg assms(2) \<open>in_i128 m\<close> unfolding add_clock_token_def shown
      by (simp add: Let_def checked_def)
  next
    case False
    with m have "m = int mag" by simp
    moreover have "strip_prefix ''-'' (pad0 2 h @ x) = None" "strip_prefix ''+'' (pad0 2 h @ x) = None" for x
      using pc by simp_all
    ultimately show ?thesis
      using False parts c1 c2 c3 assms(2) \<open>in_i128 m\<close> unfolding add_clock_token_def shown
      by (simp add: Let_def checked_def)
  qed
qed

section \<open>Tokens\<close>

definition solid :: "string \<Rightarrow> bool" where
  "solid s \<longleftrightarrow> s \<noteq> [] \<and> (\<forall>c \<in> set s. \<not> is_whitespace c)"

lemma space_is_whitespace [simp]: "is_whitespace (CHR '' '')"
  by code_simp

lemma split_whitespace_solid: "solid s \<Longrightarrow> split_whitespace s = [s]"
  by (simp add: solid_def split_whitespace_def split_by_no_match)

lemma split_whitespace_join: "list_all solid ts \<Longrightarrow> split_whitespace (join '' '' ts) = ts"
proof (induction "'' ''" ts rule: join.induct)
  case (3 x y xs)
  then have "split_by is_whitespace (x @ CHR '' '' # join '' '' (y # xs)) = x # split_by is_whitespace (join '' '' (y # xs))"
    by (intro split_by_append_sep) (auto simp: solid_def)
  with 3 show ?case by (simp add: split_whitespace_def solid_def)
qed (auto simp: split_whitespace_def split_by_no_match solid_def)

definition count_tokens :: "int \<Rightarrow> string \<Rightarrow> string \<Rightarrow> string list" where
  "count_tokens n one many = (if n = 0 then [] else [show_int n, if n = 1 then one else many])"

definition tokens_of :: "literal_fields \<Rightarrow> string list" where
  "tokens_of f =
     (let parts = count_tokens (lf_months f sdiv 12) ''year'' ''years'' @ count_tokens (lf_months f smod 12) ''mon'' ''mons''
        @ count_tokens (lf_days f) ''day'' ''days'' in
      if lf_micros f \<noteq> 0 \<or> parts = [] then parts @ [clock_text (lf_micros f)] else parts)"

lemma join_counted: "join '' '' (counted n one many # xs) = join '' '' (show_int n # (if n = 1 then one else many) # xs)"
  by (cases xs) (simp_all add: counted_def)

lemma join_append_cong: "join sep xs = join sep ys \<Longrightarrow> (xs = [] \<longleftrightarrow> ys = []) \<Longrightarrow> join sep (as @ xs) = join sep (as @ ys)"
proof (induction as)
  case (Cons a as)
  then show ?case by (cases "as @ xs"; cases "as @ ys") auto
qed simp

lemma text_is_tokens: "to_postgres_text f = join '' '' (tokens_of f)"
proof -
  have c: "join '' '' ((if n \<noteq> 0 then [counted n a b] else []) @ xs) = join '' '' (count_tokens n a b @ ys)"
    if "join '' '' xs = join '' '' ys" "xs = [] \<longleftrightarrow> ys = []" for n a b xs ys
  proof (cases "n = 0")
    case False
    have "join '' '' (show_int n # (if n = 1 then a else b) # xs) = join '' '' (show_int n # (if n = 1 then a else b) # ys)"
      using join_append_cong [OF that, of "[show_int n, if n = 1 then a else b]"] by simp
    with False show ?thesis by (simp add: join_counted count_tokens_def)
  qed (simp add: that count_tokens_def)
  have e: "(if n \<noteq> 0 then [counted n a b] else []) @ xs = [] \<longleftrightarrow> count_tokens n a b @ ys = []" if "xs = [] \<longleftrightarrow> ys = []" for n a b xs ys
    using that by (simp add: count_tokens_def)
  define y m where "y = lf_months f sdiv 12" and "m = lf_months f smod 12"
  show ?thesis
  proof (cases "lf_micros f \<noteq> 0 \<or> y = 0 \<and> m = 0 \<and> lf_days f = 0")
    case True
    then have "text_parts f = (if y \<noteq> 0 then [counted y ''year'' ''years''] else []) @ (if m \<noteq> 0 then [counted m ''mon'' ''mons''] else [])
        @ (if lf_days f \<noteq> 0 then [counted (lf_days f) ''day'' ''days''] else []) @ [clock_text (lf_micros f)]"
      by (auto simp: text_parts_def y_def m_def Let_def)
    moreover have "tokens_of f = count_tokens y ''year'' ''years'' @ count_tokens m ''mon'' ''mons''
        @ count_tokens (lf_days f) ''day'' ''days'' @ [clock_text (lf_micros f)]"
      using True by (auto simp: tokens_of_def y_def m_def Let_def count_tokens_def)
    ultimately show ?thesis unfolding to_postgres_text_def by (simp only:) (intro c e; simp)
  next
    case False
    then have "text_parts f = (if y \<noteq> 0 then [counted y ''year'' ''years''] else []) @ (if m \<noteq> 0 then [counted m ''mon'' ''mons''] else [])
        @ (if lf_days f \<noteq> 0 then [counted (lf_days f) ''day'' ''days''] else []) @ []"
      by (auto simp: text_parts_def y_def m_def Let_def)
    moreover have "tokens_of f = count_tokens y ''year'' ''years'' @ count_tokens m ''mon'' ''mons''
        @ count_tokens (lf_days f) ''day'' ''days'' @ []"
      using False by (auto simp: tokens_of_def y_def m_def Let_def count_tokens_def)
    ultimately show ?thesis unfolding to_postgres_text_def by (simp only:) (intro c e; simp)
  qed
qed

lemma show_int_chars: "c \<in> set (show_int n) \<Longrightarrow> is_ascii_digit c \<or> c = CHR ''-''"
  using all_digitsD [OF show_nat_digits] by (auto simp: show_int_def split: if_splits)

lemma show_int_nonempty [simp]: "show_int n \<noteq> []"
  by (simp add: show_int_def)

lemma count_token_split: "split_count_and_unit (show_int n) = (show_int n, None)" "CHR '':'' \<notin> set (show_int n)"
proof -
  have "\<forall>c \<in> set (show_int n). \<not> is_ascii_alphabetic c"
    using show_int_chars by (fastforce simp: is_ascii_alphabetic_def is_ascii_uppercase_def is_ascii_lowercase_def is_ascii_digit_def)
  then show "split_count_and_unit (show_int n) = (show_int n, None)"
    using find_index_None_iff [of is_ascii_alphabetic "show_int n"] by (simp add: split_count_and_unit_def)
  show "CHR '':'' \<notin> set (show_int n)" using show_int_chars by (fastforce simp: is_ascii_digit_def)
qed

definition word :: "string \<Rightarrow> bool" where
  "word u \<longleftrightarrow> u \<noteq> [] \<and> list_all is_ascii_alphabetic u"

lemma words: "word ''year''" "word ''years''" "word ''mon''" "word ''mons''" "word ''day''" "word ''days''"
  by code_simp+

lemma word_split: "word u \<Longrightarrow> split_count_and_unit u = ([], Some u)" "word u \<Longrightarrow> CHR '':'' \<notin> set u"
proof -
  assume w: "word u"
  then obtain c cs where u: "u = c # cs" "is_ascii_alphabetic c" by (cases u) (auto simp: word_def)
  then show "split_count_and_unit u = ([], Some u)" by (simp add: split_count_and_unit_def)
  show "CHR '':'' \<notin> set u"
    using w by (auto simp: word_def list_all_iff is_ascii_alphabetic_def is_ascii_uppercase_def is_ascii_lowercase_def)
qed

lemma token_loop_count:
  assumes "word one" "word many"
  shows "token_loop f None (count_tokens n one many @ ts) t =
    (if n = 0 then token_loop f None ts t
     else res_bind (add_unit f (show_int n) (if n = 1 then one else many) t) (\<lambda>f'. token_loop f' None ts t))"
  using assms by (simp add: count_tokens_def count_token_split word_split)

lemma clock_has_colon: "CHR '':'' \<in> set (clock_text m)"
  by (simp add: clock_text_def Let_def)

lemma token_loop_years:
  assumes "small n" "small (n * 12)" "small (lf_months f + n * 12)"
  shows "token_loop f None (count_tokens n ''year'' ''years'' @ ts) t = token_loop (f\<lparr>lf_months := lf_months f + n * 12\<rparr>) None ts t"
  using add_years [OF assms] literal_units(1,2) by (simp add: token_loop_count words)

lemma token_loop_months:
  assumes "small n" "small (lf_months f + n)" "small (lf_days f)" "small (lf_micros f)"
  shows "token_loop f None (count_tokens n ''mon'' ''mons'' @ ts) t = token_loop (f\<lparr>lf_months := lf_months f + n\<rparr>) None ts t"
  using add_months [OF assms] literal_units(3,4) by (simp add: token_loop_count words)

lemma token_loop_days:
  assumes "small n" "small (lf_days f + n)" "small (lf_micros f)"
  shows "token_loop f None (count_tokens n ''day'' ''days'' @ ts) t = token_loop (f\<lparr>lf_days := lf_days f + n\<rparr>) None ts t"
  using add_days [OF assms] literal_units(5,6) by (simp add: token_loop_count words)

lemma months_split:
  fixes n :: int
  shows "n sdiv 12 * 12 + n smod 12 = n" "\<bar>n sdiv 12 * 12\<bar> \<le> \<bar>n\<bar>" "\<bar>n sdiv 12\<bar> \<le> \<bar>n\<bar>" "\<bar>n smod 12\<bar> \<le> \<bar>n\<bar>"
proof -
  have d: "\<bar>n\<bar> = \<bar>n\<bar> div 12 * 12 + \<bar>n\<bar> mod 12" by simp
  have q: "0 \<le> \<bar>n\<bar> div 12" "0 \<le> \<bar>n\<bar> mod 12" by (simp_all add: pos_imp_zdiv_nonneg_iff)
  have s: "n sdiv 12 = sgn n * (\<bar>n\<bar> div 12)" by (simp add: signed_divide_int_def)
  have r: "n smod 12 = sgn n * (\<bar>n\<bar> mod 12)" by (simp add: signed_modulo_int_def)
  show "n sdiv 12 * 12 + n smod 12 = n" 
  proof (cases "n < 0")
    case True
    then have n: "sgn n = - 1" "\<bar>n\<bar> = - n" by simp_all
    show ?thesis using div_mult_mod_eq [of "- n" 12] unfolding s r n by linarith
  qed (auto simp: s r sgn_if)
  show "\<bar>n sdiv 12 * 12\<bar> \<le> \<bar>n\<bar>" "\<bar>n sdiv 12\<bar> \<le> \<bar>n\<bar>"
    using d q unfolding s by (auto simp: abs_mult sgn_if)
  show "\<bar>n smod 12\<bar> \<le> \<bar>n\<bar>"
    using zmod_le_nonneg_dividend [of "\<bar>n\<bar>" 12] unfolding r by (cases "n = 0") (simp_all add: abs_mult)
qed

definition small_fields :: "literal_fields \<Rightarrow> bool" where
  "small_fields f \<longleftrightarrow> small (lf_months f) \<and> small (lf_days f) \<and> small (lf_micros f)"

lemma small_0 [simp]: "small 0"
  by (simp add: small_def)

lemma tokens_read_back:
  assumes "small_fields f"
  shows "token_loop literal_fields_default None (tokens_of f) t = ok f"
proof -
  let ?y = "lf_months f sdiv 12" and ?m = "lf_months f smod 12"
  have s: "small (lf_months f)" "small (lf_days f)" "small (lf_micros f)" using assms by (simp_all add: small_fields_def)
  note ms = months_split [of "lf_months f"]
  have y: "small ?y" "small (?y * 12)" "small ?m" using ms(2-4) s(1) small_le by blast+
  have rest: "token_loop literal_fields_default None (count_tokens ?y ''year'' ''years'' @ count_tokens ?m ''mon'' ''mons''
      @ count_tokens (lf_days f) ''day'' ''days'' @ ts) t
    = token_loop \<lparr>lf_months = lf_months f, lf_days = lf_days f, lf_micros = 0\<rparr> None ts t" for ts
    using y s ms(1) by (simp add: literal_fields_default_def token_loop_years token_loop_months token_loop_days)
  show ?thesis
  proof (cases "lf_micros f \<noteq> 0 \<or> ?y = 0 \<and> ?m = 0 \<and> lf_days f = 0")
    case True
    then have "tokens_of f = count_tokens ?y ''year'' ''years'' @ count_tokens ?m ''mon'' ''mons''
        @ count_tokens (lf_days f) ''day'' ''days'' @ [clock_text (lf_micros f)]"
      by (auto simp: tokens_of_def Let_def count_tokens_def)
    with rest [of "[clock_text (lf_micros f)]"] clock_has_colon clock_reads_back [OF s(3)] show ?thesis by simp
  next
    case False
    then have "tokens_of f = count_tokens ?y ''year'' ''years'' @ count_tokens ?m ''mon'' ''mons''
        @ count_tokens (lf_days f) ''day'' ''days'' @ []"
      by (auto simp: tokens_of_def Let_def count_tokens_def)
    with False rest [of "[]"] show ?thesis by simp
  qed
qed

section \<open>The literal as a whole\<close>

lemma clock_text_body:
  obtains b where "clock_text m = (if m < 0 then ''-'' else []) @ pad0 2 (nat \<bar>m\<bar> div 1000000 div 3600) @ b"
    "\<forall>c \<in> set b. is_ascii_digit c \<or> c = CHR '':'' \<or> c = CHR ''.''"
proof -
  let ?st = "nat \<bar>m\<bar> div 1000000" and ?fr = "nat \<bar>m\<bar> mod 1000000"
  let ?b = "'':'' @ pad0 2 (?st mod 3600 div 60) @ '':'' @ pad0 2 (?st mod 60) @ (if ?fr = 0 then [] else ''.'' @ trim_end_zeros (pad0 6 ?fr))"
  have "set (trim_end_zeros s) \<subseteq> set s" for s by (auto simp: trim_end_zeros_def dest: set_dropWhileD)
  then have z: "is_ascii_digit c" if "c \<in> set (trim_end_zeros (pad0 w n))" for c w n
    using that all_digitsD [OF pad0_simps(1)] by blast
  have d: "is_ascii_digit c" if "c \<in> set (pad0 w n)" for c w n using that all_digitsD [OF pad0_simps(1)] by blast
  show thesis by (rule that [of ?b]) (auto simp: clock_text_def Let_def dest: z d)
qed

lemma tokens_solid: "list_all solid (tokens_of f)"
proof -
  have i: "solid (show_int n)" for n
    using show_int_chars by (fastforce simp: solid_def is_ascii_digit_def is_whitespace_def)
  have w: "solid u" if "word u" for u
    using that by (auto simp: solid_def word_def list_all_iff is_ascii_alphabetic_def is_ascii_uppercase_def is_ascii_lowercase_def is_whitespace_def)
  have c: "solid (clock_text m)" for m
  proof -
    obtain b where b: "clock_text m = (if m < 0 then ''-'' else []) @ pad0 2 (nat \<bar>m\<bar> div 1000000 div 3600) @ b"
      "\<forall>c \<in> set b. is_ascii_digit c \<or> c = CHR '':'' \<or> c = CHR ''.''" by (rule clock_text_body)
    have "\<not> is_whitespace c" if "c \<in> set (clock_text m)" for c
      using that b(2) all_digitsD [OF pad0_simps(1)] digit_not_whitespace unfolding b(1)
      by (fastforce simp: is_whitespace_def split: if_splits)
    then show ?thesis by (simp add: solid_def b(1))
  qed
  show ?thesis using i w c words by (auto simp: tokens_of_def Let_def count_tokens_def)
qed

lemma tokens_nonempty: "tokens_of f \<noteq> []"
  by (simp add: tokens_of_def Let_def)

text \<open>The first token is a count or a clock reading: it starts with a digit or a minus and has no other minus.\<close>

definition numeric_head :: "string \<Rightarrow> bool" where
  "numeric_head s \<longleftrightarrow> (\<exists>r c cs. (s = r \<or> s = CHR ''-'' # r) \<and> r = c # cs \<and> is_ascii_digit c \<and> CHR ''-'' \<notin> set r)"

lemma numeric_headI: "all_digits d \<Longrightarrow> d \<noteq> [] \<Longrightarrow> CHR ''-'' \<notin> set b \<Longrightarrow> numeric_head ((if n then ''-'' else []) @ d @ b)"
proof -
  assume d: "all_digits d" "d \<noteq> []" and b: "CHR ''-'' \<notin> set b"
  then obtain c cs where c: "d = c # cs" "is_ascii_digit c" using digits_head [of d] by blast
  have "CHR ''-'' \<notin> set d" using all_digitsD [OF d(1), of "CHR ''-''"] by (auto simp: is_ascii_digit_def)
  with b c show ?thesis
    unfolding numeric_head_def by (intro exI [of _ "d @ b"] exI [of _ c] exI [of _ "cs @ b"]) simp
qed

lemma first_token_numeric: "numeric_head (hd (tokens_of f))"
proof -
  have i: "numeric_head (show_int n)" for n
    using numeric_headI [of "show_nat (nat \<bar>n\<bar>)" "[]" "n < 0"] by (cases "n < 0") (simp_all add: show_int_def)
  have c: "numeric_head (clock_text m)" for m
  proof -
    obtain b where b: "clock_text m = (if m < 0 then ''-'' else []) @ pad0 2 (nat \<bar>m\<bar> div 1000000 div 3600) @ b"
      "\<forall>c \<in> set b. is_ascii_digit c \<or> c = CHR '':'' \<or> c = CHR ''.''" by (rule clock_text_body)
    then have "CHR ''-'' \<notin> set b" by (auto simp: is_ascii_digit_def)
    then show ?thesis unfolding b(1) by (intro numeric_headI) simp_all
  qed
  show ?thesis using i c by (auto simp: tokens_of_def Let_def count_tokens_def)
qed

lemma hd_join: "ts \<noteq> [] \<Longrightarrow> hd ts \<noteq> [] \<Longrightarrow> \<exists>rest. join '' '' ts = hd ts @ rest \<and> (rest = [] \<or> hd rest = CHR '' '')"
  by (induction "'' ''" ts rule: join.induct) auto

lemma no_year_month:
  assumes "numeric_head s" "rest = [] \<or> hd rest = CHR '' ''"
  shows "parse_year_month_interval (s @ rest) = None"
proof -
  from assms(1) obtain r c cs where s: "s = r \<or> s = CHR ''-'' # r" "r = c # cs" "is_ascii_digit c" "CHR ''-'' \<notin> set r"
    unfolding numeric_head_def by blast
  have c: "c \<noteq> CHR ''-''" "c \<noteq> CHR ''+''" using s(3) by (auto simp: is_ascii_digit_def)
  have "years = [] \<or> months = [] \<or> \<not> all_digits (years @ months)" if p: "split_once (CHR ''-'') (r @ rest) = Some (years, months)" for years months
  proof -
    from split_once_SomeD [OF p] have e: "r @ rest = years @ CHR ''-'' # months" by simp
    from e obtain us where "r @ us = years \<and> rest = us @ CHR ''-'' # months \<or> r = years @ us \<and> us @ rest = CHR ''-'' # months"
      by (auto simp: append_eq_append_conv2)
    then have u: "r @ us = years" "rest = us @ CHR ''-'' # months"
      using s(4) assms(2) by (cases us; cases rest; auto)+
    with assms(2) have "us \<noteq> []" "hd us = CHR '' ''" by (cases us; auto)+
    then have "CHR '' '' \<in> set years" using u(1) by (cases us) auto
    then show ?thesis using all_digitsD [of "years @ months" "CHR '' ''"] by (auto simp: is_ascii_digit_def)
  qed
  then have "Option.bind (split_once (CHR ''-'') (r @ rest)) (\<lambda>(years, months).
      if years = [] \<or> months = [] \<or> \<not> all_digits (years @ months) then None else X years months) = None" for X
    by (cases "split_once (CHR ''-'') (r @ rest)") auto
  then show ?thesis
    using s c unfolding parse_year_month_interval_def by (auto simp: Let_def)
qed

lemma last_join: "ts \<noteq> [] \<Longrightarrow> last ts \<noteq> [] \<Longrightarrow> join '' '' ts \<noteq> [] \<and> last (join '' '' ts) = last (last ts)"
proof (induction "'' ''" ts rule: join.induct)
  case (3 x y xs)
  then show ?case by (cases "join '' '' (y # xs)") auto
qed auto

lemma last_token_end: "is_ascii_digit (last (last (tokens_of f))) \<or> last (last (tokens_of f)) \<in> set ''rsny''"
proof -
  have c: "is_ascii_digit (last (clock_text m))" for m
  proof -
    let ?fr = "nat \<bar>m\<bar> mod 1000000"
    have "is_ascii_digit (last (trim_end_zeros (pad0 6 ?fr))) \<and> trim_end_zeros (pad0 6 ?fr) \<noteq> []" if "0 < ?fr"
      using trimmed_fraction [OF that] all_digitsD by (metis last_in_set mod_less_divisor zero_less_numeral)
    then show ?thesis by (auto simp: clock_text_def Let_def)
  qed
  show ?thesis using c by (auto simp: tokens_of_def Let_def count_tokens_def)
qed

lemma text_frame:
  shows "trim (to_postgres_text f) = to_postgres_text f" "strip_prefix ''@'' (to_postgres_text f) = None"
    "strip_suffix ''ago'' (to_ascii_lowercase (to_postgres_text f)) = None"
    "\<not> starts_with ''P'' (to_postgres_text f)" "\<not> starts_with ''p'' (to_postgres_text f)"
    "parse_year_month_interval (to_postgres_text f) = None"
proof -
  have solid: "hd (tokens_of g) \<noteq> []" "last (tokens_of g) \<noteq> []" for g
    using tokens_solid [of g] tokens_nonempty [of g] by (auto simp: list_all_iff solid_def)
  have e: "to_postgres_text g \<noteq> []" "is_ascii_digit (last (to_postgres_text g)) \<or> last (to_postgres_text g) \<in> set ''rsny''" for g
    using last_join [OF tokens_nonempty solid(2)] last_token_end [of g] unfolding text_is_tokens by metis+
  obtain rest where r: "to_postgres_text f = hd (tokens_of f) @ rest" "rest = [] \<or> hd rest = CHR '' ''"
    using hd_join [OF tokens_nonempty solid(1)] unfolding text_is_tokens by blast
  from first_token_numeric [of f] obtain c cs where h: "to_postgres_text f = c # cs" "is_ascii_digit c \<or> c = CHR ''-''"
    unfolding r(1) numeric_head_def by auto
  show "trim (to_postgres_text f) = to_postgres_text f"
    using e [of f] h by (intro trim_id) (auto simp: is_whitespace_def is_ascii_digit_def)
  show "strip_prefix ''@'' (to_postgres_text f) = None" "\<not> starts_with ''P'' (to_postgres_text f)" "\<not> starts_with ''p'' (to_postgres_text f)"
    using h by (auto simp: starts_with_def is_ascii_digit_def)
  show "parse_year_month_interval (to_postgres_text f) = None"
    using no_year_month [OF first_token_numeric r(2), of f] by (simp add: r(1))
  have "last (to_ascii_lowercase (to_postgres_text f)) = ascii_lower (last (to_postgres_text f))"
    using e(1) by (simp add: to_ascii_lowercase_def last_map)
  moreover have "ascii_lower c \<noteq> CHR ''o''" if "is_ascii_digit c \<or> c \<in> set ''rsny''" for c
    using that by (auto simp: ascii_lower_def is_ascii_uppercase_def is_ascii_digit_def)
  ultimately have "last (to_ascii_lowercase (to_postgres_text f)) \<noteq> CHR ''o''" using e(2) [of f] by simp
  then show "strip_suffix ''ago'' (to_ascii_lowercase (to_postgres_text f)) = None" by (auto simp: strip_suffix_None_iff)
qed

section \<open>Properties\<close>

text \<open>
  C23. The text of an interval is the interval: the three counts PostgreSQL would hold, printed as it
  prints them (plural by count, each with its own sign, the clock unbounded in hours and with its
  fraction trimmed), read back as the same three counts, and so the printed text normalises to itself.
\<close>

theorem interval_text_round_trip:
  assumes "small_fields f"
  shows "parse_interval_fields (to_postgres_text f) t = Inr f
    \<and> normalize_interval_literal (to_postgres_text f) = Inr (to_postgres_text f)"
proof -
  have p: "parse_interval_fields (to_postgres_text f) t = Inr f" for t
    using text_frame [of f] tokens_read_back [OF assms, of t] split_whitespace_join [OF tokens_solid, of f]
    by (simp add: parse_interval_fields_def text_is_tokens ok_def)
  then show ?thesis using text_frame [of f] by (simp add: normalize_interval_literal_def ok_def)
qed

theorem interval_text_round_trip_witness:
  "normalize_interval_literal ''1 year 2 mons -1 days'' = Inr ''1 year 2 mons -1 days''"
proof -
  have "to_postgres_text \<lparr>lf_months = 14, lf_days = -1, lf_micros = 0\<rparr> = ''1 year 2 mons -1 days''"
    by code_simp
  then show ?thesis
    using interval_text_round_trip [of "\<lparr>lf_months = 14, lf_days = -1, lf_micros = 0\<rparr>"]
    by (simp add: small_fields_def small_def)
qed

text \<open>What SQLite reads in a date modifier: months, or a span in microseconds; \<open>floor\<close> adds nothing.\<close>

definition read_modifier :: "string \<Rightarrow> (int \<times> int) option" where
  "read_modifier m =
     (if m = ''floor'' then Some (0, 0)
      else Option.bind (split_once (CHR '' '') m) (\<lambda>(count, unit).
        Option.bind (decimal_parse count) (\<lambda>c.
          (if unit = ''months'' then Some (dec_numerator c sdiv dec_denominator c, 0)
           else map_option (\<lambda>p. (0, (dec_numerator c * p) sdiv dec_denominator c))
             (map_of [(''days'', 86400000000), (''hours'', 3600000000), (''minutes'', 60000000), (''seconds'', 1000000)] unit)))))"

definition read_modifiers :: "string list \<Rightarrow> (int \<times> int) option" where
  "read_modifiers ms = (if list_all (\<lambda>m. read_modifier m \<noteq> None) ms
     then Some (sum_list (map (fst \<circ> the \<circ> read_modifier) ms), sum_list (map (snd \<circ> the \<circ> read_modifier) ms)) else None)"

lemma decimal_parse_sign:
  assumes "all_digits w" "w \<noteq> []" "small (int (digits_value w))"
  shows "decimal_parse ((if neg then CHR ''-'' else CHR ''+'') # w)
    = Some \<lparr>dec_numerator = (if neg then - int (digits_value w) else int (digits_value w)), dec_denominator = 1\<rparr>"
  using assms no_point [of w] accumulate_show [of w] by (auto simp: decimal_parse_def checked_def in_i128_def)

lemma decimal_parse_sign_point:
  assumes "all_digits w" "all_digits z" "z \<noteq> []" "length z < 2 ^ 32" "in_i128 (10 ^ length z)" "accumulate 0 (w @ z) = Some n"
  shows "decimal_parse ((if neg then CHR ''-'' else CHR ''+'') # w @ CHR ''.'' # z)
    = Some \<lparr>dec_numerator = (if neg then - n else n), dec_denominator = 10 ^ length z\<rparr>"
proof -
  have "split_once (CHR ''.'') (w @ CHR ''.'' # z) = Some (w, z)"
    using assms(1) by (intro split_once_append) (auto simp: is_ascii_digit_def dest: all_digitsD)
  with assms show ?thesis by (auto simp: decimal_parse_def checked_def)
qed

lemma no_blank: "all_digits s \<Longrightarrow> CHR '' '' \<notin> set s"
  by (auto simp: is_ascii_digit_def dest: all_digitsD)

lemma read_signed:
  assumes "small n"
  shows "split_once (CHR '' '') (signed_count n u) = Some ((if n < 0 then CHR ''-'' else CHR ''+'') # show_nat (nat \<bar>n\<bar>), u)"
    "decimal_parse ((if n < 0 then CHR ''-'' else CHR ''+'') # show_nat (nat \<bar>n\<bar>)) = Some \<lparr>dec_numerator = n, dec_denominator = 1\<rparr>"
proof -
  have "CHR '' '' \<notin> set ((if n < 0 then CHR ''-'' else CHR ''+'') # show_nat (nat \<bar>n\<bar>))"
    using no_blank [of "show_nat (nat \<bar>n\<bar>)"] by auto
  from split_once_append [OF this, of u] show "split_once (CHR '' '') (signed_count n u) = Some ((if n < 0 then CHR ''-'' else CHR ''+'') # show_nat (nat \<bar>n\<bar>), u)"
    by (simp add: signed_count_def)
  show "decimal_parse ((if n < 0 then CHR ''-'' else CHR ''+'') # show_nat (nat \<bar>n\<bar>)) = Some \<lparr>dec_numerator = n, dec_denominator = 1\<rparr>"
    using decimal_parse_sign [of "show_nat (nat \<bar>n\<bar>)" "n < 0"] assms by (auto simp: small_def)
qed

lemma signed_not_floor: "signed_count n u \<noteq> ''floor''"
  by (simp add: signed_count_def)

lemma read_signed_modifier:
  assumes "small n"
  shows "read_modifier (signed_count n ''months'') = Some (n, 0)" "read_modifier (signed_count n ''days'') = Some (0, n * 86400000000)"
    "read_modifier (signed_count n ''hours'') = Some (0, n * 3600000000)" "read_modifier (signed_count n ''minutes'') = Some (0, n * 60000000)"
    "read_modifier (signed_count n ''seconds'') = Some (0, n * 1000000)"
  using read_signed [OF assms] signed_not_floor by (simp_all add: read_modifier_def)

lemma read_fraction:
  fixes micros :: int
  defines "mag \<equiv> nat \<bar>micros\<bar>"
  assumes "mag mod 1000000 \<noteq> 0" "mag < 86400000000"
  shows "read_modifier ((if micros < 0 then CHR ''-'' else CHR ''+'') # show_nat (mag div 1000000) @ ''.''
      @ trim_end_zeros (pad0 6 (mag mod 1000000)) @ '' seconds'') = Some (0, micros)"
proof -
  define q fr where "q = mag div 1000000" and "fr = mag mod 1000000"
  let ?z = "trim_end_zeros (pad0 6 fr)" and ?sg = "if micros < 0 then CHR ''-'' else CHR ''+''"
  have mag: "mag = q * 1000000 + fr" by (simp add: q_def fr_def)
  have "0 < fr" "fr < 1000000" using assms(2) by (simp_all add: fr_def)
  then obtain k where k: "k \<le> 6" "length ?z = k" "digits_value ?z * 10 ^ (6 - k) = fr" "all_digits ?z" "?z \<noteq> []"
    by (rule trimmed_fraction)
  have qb: "q < 86400" using assms(3) by (simp add: q_def div_less_iff_less_mult)
  define n where "n = digits_value (show_nat q @ ?z)"
  have n: "n = q * 10 ^ k + digits_value ?z" using k by (simp add: n_def digits_value_append)
  have "(1000000 :: nat) = 10 ^ (6 - k) * 10 ^ k" using k(1) by (simp flip: power_add)
  then have "digits_value ?z * 1000000 = fr * 10 ^ k" using k(3) by (metis mult.assoc)
  then have e: "n * 1000000 = mag * 10 ^ k" by (simp add: n mag algebra_simps)
  have p: "(10 :: nat) ^ k \<le> 10 ^ 6" using k(1) by (intro power_increasing) auto
  have "n * 1000000 \<le> mag * 1000000" unfolding e using p by simp
  then have nb: "n < 86400000000" using assms(3) by simp
  have acc: "accumulate 0 (show_nat q @ ?z) = Some (int n)"
    using accumulate_show [of "show_nat q @ ?z"] k nb by (simp add: n_def small_def)
  have "(10 :: int) ^ k \<le> 10 ^ 6" using k(1) by (intro power_increasing) auto
  then have i: "in_i128 (10 ^ k)" by (auto simp: in_i128_def intro: order.trans [of _ 0])
  have d: "decimal_parse (?sg # show_nat q @ CHR ''.'' # ?z) = Some \<lparr>dec_numerator = (if micros < 0 then - int n else int n), dec_denominator = 10 ^ k\<rparr>"
    using decimal_parse_sign_point [of "show_nat q" ?z "int n" "micros < 0"] acc i k by simp
  have "CHR '' '' \<notin> set (?sg # show_nat q @ CHR ''.'' # ?z)" using no_blank [of "show_nat q"] no_blank [of ?z] k by auto
  from split_once_append [OF this, of "''seconds''"]
  have s: "split_once (CHR '' '') (?sg # show_nat q @ ''.'' @ ?z @ '' seconds'') = Some (?sg # show_nat q @ CHR ''.'' # ?z, ''seconds'')" by simp
  have "int n * 1000000 = int mag * 10 ^ k" using arg_cong [OF e, of int] by simp
  then have "(if micros < 0 then - int n else int n) * 1000000 = micros * 10 ^ k"
    by (auto simp: mag_def)
  then have "((if micros < 0 then - int n else int n) * 1000000) sdiv 10 ^ k = micros"
    by (simp only: mult_sdiv_cancel zero_less_power zero_less_numeral)
  then show ?thesis unfolding q_def [symmetric] fr_def [symmetric] read_modifier_def using s d by simp
qed

lemma read_time_modifier:
  assumes "\<bar>micros\<bar> < 86400000000"
  shows "read_modifier (time_modifier micros) = Some (0, micros)"
proof -
  have b: "small (micros sdiv d)" for d
  proof -
    have "\<bar>micros sdiv d\<bar> \<le> \<bar>micros\<bar>" by (rule sdiv_abs_le)
    with assms show ?thesis by (simp add: small_def)
  qed
  have m: "micros sdiv d * d = micros" if "micros smod d = 0" for d using sdiv_mult_smod_eq [of micros d] that by simp
  have "nat \<bar>micros\<bar> mod 1000000 \<noteq> 0" if "micros smod 1000000 \<noteq> 0"
  proof -
    have "\<bar>micros\<bar> mod 1000000 \<noteq> 0" using that by (auto simp: signed_modulo_int_def)
    moreover have "int (nat \<bar>micros\<bar> mod 1000000) = \<bar>micros\<bar> mod 1000000" by (simp add: zmod_int)
    ultimately show ?thesis by linarith
  qed
  with read_fraction [of micros] assms show ?thesis
    unfolding time_modifier_def micros_defs Let_def using read_signed_modifier(3-5) [OF b] m by auto
qed

text \<open>
  C24. The date modifiers mean the interval: read as SQLite reads them, in their order, they add up to
  exactly the months and the microseconds of the interval, and the month step, when there is one, comes
  first and is followed by the clamp to the month's end.
\<close>

theorem modifiers_mean_the_interval:
  assumes "small (if_months f)" and "small (if_micros f)"
  shows "read_modifiers (modifiers f) = Some (if_months f, if_micros f)
    \<and> (\<exists>rest. modifiers f = (if if_months f = 0 then rest else signed_count (if_months f) ''months'' # ''floor'' # rest) \<and> ''floor'' \<notin> set rest)"
proof -
  let ?d = "if_micros f sdiv 86400000000" and ?t = "if_micros f smod 86400000000"
  have t: "\<bar>?t\<bar> < 86400000000" using smod_abs_less [of 86400000000 "if_micros f"] by simp
  have "\<bar>?d\<bar> \<le> \<bar>if_micros f\<bar>" by (rule sdiv_abs_le)
  then have d: "small ?d" using assms(2) small_le by blast
  note sum = sdiv_mult_smod_eq [of "if_micros f" 86400000000]
  have fl: "read_modifier ''floor'' = Some (0, 0)" by (simp add: read_modifier_def)
  have nf: "time_modifier ?t \<noteq> ''floor''" by (simp add: time_modifier_def signed_not_floor Let_def)
  show ?thesis
  proof
    show "read_modifiers (modifiers f) = Some (if_months f, if_micros f)"
      using sum read_signed_modifier(1) [OF assms(1)] read_signed_modifier(2) [OF d] read_time_modifier [OF t] fl
      by (simp add: read_modifiers_def modifiers_def Let_def micros_defs)
    let ?rest = "(if ?d \<noteq> 0 then [signed_count ?d ''days''] else []) @ (if ?t \<noteq> 0 then [time_modifier ?t] else [])"
    show "\<exists>rest. modifiers f = (if if_months f = 0 then rest else signed_count (if_months f) ''months'' # ''floor'' # rest) \<and> ''floor'' \<notin> set rest"
      using nf signed_not_floor [of ?d "''days''"] by (intro exI [of _ ?rest]) (auto simp: modifiers_def Let_def micros_defs)
  qed
qed

theorem modifiers_mean_the_interval_witness:
  "read_modifiers (modifiers \<lparr>if_months = 1, if_micros = 90000000\<rparr>) = Some (1, 90000000)"
  using modifiers_mean_the_interval [of "\<lparr>if_months = 1, if_micros = 90000000\<rparr>"] by (simp add: small_def)

text \<open>The sum inside \<open>rounding_div\<close> can leave the width: this is the numerator of
  \<open>interval '0.14178431955039102644307275309657008810 years'\<close> in months, over its denominator.\<close>

lemma rounding_div_can_overflow:
  "rounding_div (14178431955039102644307275309657008810 * 12) (10 ^ 38) = (Inl Panic :: (string, int) res)"
  "checked_mul 14178431955039102644307275309657008810 12 \<noteq> None"
  by code_simp+

end
