(* ===== verification/Utf8.thy ===== *)
theory Utf8
  imports Rust_Std
begin

text \<open>
  Characters beyond the Latin-1 block, for the components that decode bytes: a Rust \<open>char\<close> is its
  Unicode scalar value, a \<open>u8\<close> a number below 256, and \<open>char::encode_utf8\<close> and
  \<open>String::from_utf8\<close> are the encoding and the strict decoding of the standard library.
\<close>

type_synonym uchar = nat

type_synonym ustring = "uchar list"

type_synonym byte = nat

definition is_scalar :: "uchar \<Rightarrow> bool" where
  "is_scalar c \<longleftrightarrow> c < 0xD800 \<or> 0xDFFF < c \<and> c < 0x110000"

definition ucs :: "string \<Rightarrow> ustring" where
  "ucs = map of_char"

definition encode_utf8 :: "uchar \<Rightarrow> byte list" where
  "encode_utf8 c =
     (if c < 0x80 then [c]
      else if c < 0x800 then [0xC0 + c div 64, 0x80 + c mod 64]
      else if c < 0x10000 then [0xE0 + c div 4096, 0x80 + c div 64 mod 64, 0x80 + c mod 64]
      else [0xF0 + c div 262144, 0x80 + c div 4096 mod 64, 0x80 + c div 64 mod 64, 0x80 + c mod 64])"

definition utf8 :: "ustring \<Rightarrow> byte list" where
  "utf8 s = concat (map encode_utf8 s)"

definition continuation :: "byte \<Rightarrow> bool" where
  "continuation b \<longleftrightarrow> 0x80 \<le> b \<and> b < 0xC0"

fun from_utf8 :: "byte list \<Rightarrow> ustring option" where
  "from_utf8 [] = Some []"
| "from_utf8 (b # bs) =
     (if b < 0x80 then map_option ((#) b) (from_utf8 bs)
      else case bs of
        [] \<Rightarrow> None
      | b1 # bs1 \<Rightarrow>
          if \<not> continuation b1 then None
          else if 0xC2 \<le> b \<and> b < 0xE0 then map_option ((#) ((b - 0xC0) * 64 + (b1 - 0x80))) (from_utf8 bs1)
          else (case bs1 of
            [] \<Rightarrow> None
          | b2 # bs2 \<Rightarrow>
              if \<not> continuation b2 then None
              else if 0xE0 \<le> b \<and> b < 0xF0 then
                (let c = (b - 0xE0) * 4096 + (b1 - 0x80) * 64 + (b2 - 0x80) in
                 if 0x800 \<le> c \<and> is_scalar c then map_option ((#) c) (from_utf8 bs2) else None)
              else (case bs2 of
                [] \<Rightarrow> None
              | b3 # bs3 \<Rightarrow>
                  if \<not> continuation b3 \<or> \<not> (0xF0 \<le> b \<and> b < 0xF8) then None
                  else let c = (b - 0xF0) * 262144 + (b1 - 0x80) * 4096 + (b2 - 0x80) * 64 + (b3 - 0x80) in
                    if 0x10000 \<le> c \<and> is_scalar c then map_option ((#) c) (from_utf8 bs3) else None)))"

lemma utf8_simps [simp]: "utf8 [] = []" "utf8 (c # s) = encode_utf8 c @ utf8 s" "utf8 (s @ t) = utf8 s @ utf8 t"
  by (simp_all add: utf8_def)

lemma split_base: "(c :: nat) div 64 * 64 + c mod 64 = c"
    "c div 4096 * 4096 + c div 64 mod 64 * 64 + c mod 64 = (c :: nat)"
    "c div 262144 * 262144 + c div 4096 mod 64 * 4096 + c div 64 mod 64 * 64 + c mod 64 = (c :: nat)"
proof -
  have "c div 64 = c div 4096 * 64 + c div 64 mod 64" "c div 4096 = c div 262144 * 64 + c div 4096 mod 64"
    using div_mult_mod_eq [of "c div 64" 64] div_mult_mod_eq [of "c div 4096" 64]
    by (simp_all add: div_mult2_eq [symmetric])
  then show "c div 64 * 64 + c mod 64 = c"
    and "c div 4096 * 4096 + c div 64 mod 64 * 64 + c mod 64 = c"
    and "c div 262144 * 262144 + c div 4096 mod 64 * 4096 + c div 64 mod 64 * 64 + c mod 64 = c"
    using div_mult_mod_eq [of c 64] by linarith+
qed

lemma continuation_mod [simp]: "continuation (128 + c mod 64)"
  using mod_less_divisor [of 64 c] by (simp add: continuation_def)

lemma from_utf8_encode:
  assumes "is_scalar c"
  shows "from_utf8 (encode_utf8 c @ bs) = map_option ((#) c) (from_utf8 bs)"
proof -
  consider "c < 0x80" | "0x80 \<le> c" "c < 0x800" | "0x800 \<le> c" "c < 0x10000" | "0x10000 \<le> c" by linarith
  then show ?thesis
  proof cases
    case 1 then show ?thesis by (simp add: encode_utf8_def)
  next
    case 2
    define q where "q = c div 64"
    have "2 \<le> q" "q < 32" using 2 by (simp_all add: q_def div_less_iff_less_mult less_eq_div_iff_mult_less_eq)
    then show ?thesis using 2 split_base(1) [of c] by (simp add: encode_utf8_def flip: q_def)
  next
    case 3
    then have "c div 4096 < 16" by (simp add: div_less_iff_less_mult)
    then show ?thesis using 3 split_base(2) [of c] assms by (simp add: encode_utf8_def)
  next
    case 4
    then have "c div 262144 < 8" using assms by (simp add: is_scalar_def div_less_iff_less_mult)
    then show ?thesis using 4 split_base(3) [of c] assms by (simp add: encode_utf8_def)
  qed
qed

lemma from_utf8_utf8 [simp]: "list_all is_scalar s \<Longrightarrow> from_utf8 (utf8 s) = Some s"
  by (induction s) (simp_all add: from_utf8_encode)

end
