(* ===== verification/Copy_Rows.thy ===== *)
theory Copy_Rows
  imports Sql_Ast Utf8
begin

text \<open>
  \<open>COPY ... FROM STDIN\<close> as \<open>src/src/impls/translator_impls/copy.rs\<close> reads it: the options, the
  text and CSV decoders of the inline rows, and the \<open>INSERT\<close> they become. The payload and its
  values are texts of Unicode scalar values. The iterator over the payload is the list of the
  characters not yet read, passed on and returned.
\<close>

type_synonym 'a cres = "(string, 'a) res"

fun try_each :: "('a \<Rightarrow> 's \<Rightarrow> ('e, 's) res) \<Rightarrow> 'a list \<Rightarrow> 's \<Rightarrow> ('e, 's) res" where
  "try_each f [] s = ok s"
| "try_each f (x # xs) s = res_bind (f x s) (try_each f xs)"

section \<open>Options\<close>

datatype (plugins only: code size) copy_option =
    CoFormat ident | CoFreeze bool | CoDelimiter uchar | CoNull ustring | CoHeader bool | CoQuote uchar
  | CoEscape uchar | CoForceQuote "ident list" | CoForceNotNull "ident list" | CoForceNull "ident list"
  | CoEncoding string

datatype (plugins only: code size) copy_legacy_csv_option =
    LcHeader | LcQuote uchar | LcEscape uchar | LcForceQuote "ident list" | LcForceNotNull "ident list"

datatype (plugins only: code size) copy_legacy_option =
    LoDelimiter uchar | LoNull ustring | LoCsv "copy_legacy_csv_option list" | LoOther string

datatype (plugins only: code size) copy_kind = KText | KCsv

record copy_format =
  kind :: copy_kind
  delimiter :: uchar
  null_text :: ustring
  header :: bool
  quote :: uchar
  escape :: uchar
  force_null :: "ident list"
  force_not_null :: "ident list"

record written =
  w_kind :: "copy_kind option"
  w_delimiter :: "uchar option"
  w_null :: "ustring option"
  w_header :: "bool option"
  w_quote :: "uchar option"
  w_escape :: "uchar option"
  w_force_null :: "ident list option"
  w_force_not_null :: "ident list option"

definition written_default :: written where
  "written_default = \<lparr>w_kind = None, w_delimiter = None, w_null = None, w_header = None, w_quote = None,
     w_escape = None, w_force_null = None, w_force_not_null = None\<rparr>"

definition unsupported_option :: "string \<Rightarrow> string" where
  "unsupported_option opt = ''COPY option '' @ opt @ '' cannot be translated. Only the text and CSV formats with DELIMITER, ''
     @ ''NULL, HEADER, QUOTE, ESCAPE, FORCE_NULL and FORCE_NOT_NULL become INSERT statements.''"

definition invalid_option :: "string \<Rightarrow> string" where
  "invalid_option reason = reason @ '', so PostgreSQL refuses the COPY.''"

definition malformed :: "nat \<Rightarrow> string \<Rightarrow> string" where
  "malformed record_no reason = ''row '' @ show_nat record_no @ '' of the COPY payload '' @ reason
     @ '', so PostgreSQL refuses the whole COPY.''"

definition once :: "'a option \<Rightarrow> 'a \<Rightarrow> string \<Rightarrow> 'a option cres" where
  "once slot v name =
     (if slot \<noteq> None then refuse (invalid_option (''COPY '' @ name @ '' is given more than once'')) else ok (Some v))"

text \<open>How the syntax-tree crate prints an option is the parameter \<open>shown\<close>.\<close>

fun read_option :: "(copy_option \<Rightarrow> string) \<Rightarrow> copy_option \<Rightarrow> written \<Rightarrow> written cres" where
  "read_option shown (CoFormat name) w =
     (let word = to_ascii_lowercase (ident_value name) in
      res_bind (if word = ''text'' then ok KText else if word = ''csv'' then ok KCsv
          else refuse (unsupported_option (shown (CoFormat name))))
        (\<lambda>k. res_bind (once (w_kind w) k ''FORMAT'') (\<lambda>s. ok (w\<lparr>w_kind := s\<rparr>))))"
| "read_option shown (CoDelimiter d) w = res_bind (once (w_delimiter w) d ''DELIMITER'') (\<lambda>s. ok (w\<lparr>w_delimiter := s\<rparr>))"
| "read_option shown (CoNull n) w = res_bind (once (w_null w) n ''NULL'') (\<lambda>s. ok (w\<lparr>w_null := s\<rparr>))"
| "read_option shown (CoHeader h) w = res_bind (once (w_header w) h ''HEADER'') (\<lambda>s. ok (w\<lparr>w_header := s\<rparr>))"
| "read_option shown (CoQuote q) w = res_bind (once (w_quote w) q ''QUOTE'') (\<lambda>s. ok (w\<lparr>w_quote := s\<rparr>))"
| "read_option shown (CoEscape e) w = res_bind (once (w_escape w) e ''ESCAPE'') (\<lambda>s. ok (w\<lparr>w_escape := s\<rparr>))"
| "read_option shown (CoForceNull cs) w = res_bind (once (w_force_null w) cs ''FORCE_NULL'') (\<lambda>s. ok (w\<lparr>w_force_null := s\<rparr>))"
| "read_option shown (CoForceNotNull cs) w =
     res_bind (once (w_force_not_null w) cs ''FORCE_NOT_NULL'') (\<lambda>s. ok (w\<lparr>w_force_not_null := s\<rparr>))"
| "read_option shown (CoFreeze b) w = refuse (unsupported_option (shown (CoFreeze b)))"
| "read_option shown (CoForceQuote cs) w = refuse (unsupported_option (shown (CoForceQuote cs)))"
| "read_option shown (CoEncoding e) w = refuse (unsupported_option (shown (CoEncoding e)))"

fun read_csv_option :: "(copy_legacy_csv_option \<Rightarrow> string) \<Rightarrow> copy_legacy_csv_option \<Rightarrow> written \<Rightarrow> written cres" where
  "read_csv_option shown LcHeader w = res_bind (once (w_header w) True ''HEADER'') (\<lambda>s. ok (w\<lparr>w_header := s\<rparr>))"
| "read_csv_option shown (LcQuote q) w = res_bind (once (w_quote w) q ''QUOTE'') (\<lambda>s. ok (w\<lparr>w_quote := s\<rparr>))"
| "read_csv_option shown (LcEscape e) w = res_bind (once (w_escape w) e ''ESCAPE'') (\<lambda>s. ok (w\<lparr>w_escape := s\<rparr>))"
| "read_csv_option shown (LcForceNotNull cs) w =
     res_bind (once (w_force_not_null w) cs ''FORCE NOT NULL'') (\<lambda>s. ok (w\<lparr>w_force_not_null := s\<rparr>))"
| "read_csv_option shown (LcForceQuote cs) w = refuse (unsupported_option (shown (LcForceQuote cs)))"

fun read_legacy_option :: "(copy_legacy_csv_option \<Rightarrow> string) \<Rightarrow> copy_legacy_option \<Rightarrow> written \<Rightarrow> written cres" where
  "read_legacy_option shown (LoDelimiter d) w = res_bind (once (w_delimiter w) d ''DELIMITER'') (\<lambda>s. ok (w\<lparr>w_delimiter := s\<rparr>))"
| "read_legacy_option shown (LoNull n) w = res_bind (once (w_null w) n ''NULL'') (\<lambda>s. ok (w\<lparr>w_null := s\<rparr>))"
| "read_legacy_option shown (LoCsv csv) w =
     res_bind (once (w_kind w) KCsv ''CSV'') (\<lambda>s. try_each (read_csv_option shown) csv (w\<lparr>w_kind := s\<rparr>))"
| "read_legacy_option shown (LoOther text_of) w = refuse (unsupported_option text_of)"

definition unwrap_or :: "'a option \<Rightarrow> 'a \<Rightarrow> 'a" where
  "unwrap_or x d = (case x of None \<Rightarrow> d | Some y \<Rightarrow> y)"

definition TEXT_DELIMITERS_REFUSED :: ustring where
  "TEXT_DELIMITERS_REFUSED = ucs (CHR 0x5C # ''.abcdefghijklmnopqrstuvwxyz0123456789'')"

definition check_written :: "written \<Rightarrow> copy_format cres" where
  "check_written w =
     (let k = unwrap_or (w_kind w) KText; csv = (k = KCsv) in
      if \<not> csv \<and> w_quote w \<noteq> None then refuse (invalid_option ''COPY QUOTE requires CSV mode'')
      else if \<not> csv \<and> w_escape w \<noteq> None then refuse (invalid_option ''COPY ESCAPE requires CSV mode'')
      else if \<not> csv \<and> w_force_null w \<noteq> None then refuse (invalid_option ''COPY FORCE_NULL requires CSV mode'')
      else if \<not> csv \<and> w_force_not_null w \<noteq> None then refuse (invalid_option ''COPY FORCE_NOT_NULL requires CSV mode'')
      else
      let d = unwrap_or (w_delimiter w) (if csv then 44 else 9); q = unwrap_or (w_quote w) 34; e = unwrap_or (w_escape w) q;
        nl = unwrap_or (w_null w) (if csv then [] else [92, 78]) in
      if d = 10 \<or> d = 13 then refuse (invalid_option ''COPY delimiter cannot be newline or carriage return'')
      else if 10 \<in> set nl \<or> 13 \<in> set nl
        then refuse (invalid_option ''COPY null representation cannot use newline or carriage return'')
      else if \<not> csv \<and> d \<in> set TEXT_DELIMITERS_REFUSED
        then refuse (invalid_option (''COPY delimiter cannot be '' @ [CHR 0x22, char_of d, CHR 0x22]))
      else if csv \<and> d = q then refuse (invalid_option ''COPY delimiter and quote must be different'')
      else if d \<in> set nl
        then refuse (invalid_option ''COPY delimiter character must not appear in the NULL specification'')
      else if csv \<and> q \<in> set nl
        then refuse (invalid_option ''CSV quote character must not appear in the NULL specification'')
      else ok \<lparr>kind = k, delimiter = d, null_text = nl, header = unwrap_or (w_header w) False, quote = q, escape = e,
        force_null = unwrap_or (w_force_null w) [], force_not_null = unwrap_or (w_force_not_null w) []\<rparr>)"

definition format_new ::
  "(copy_option \<Rightarrow> string) \<Rightarrow> (copy_legacy_csv_option \<Rightarrow> string) \<Rightarrow> copy_option list \<Rightarrow> copy_legacy_option list \<Rightarrow> copy_format cres" where
  "format_new shown csv_shown options legacy =
     res_bind (try_each (read_option shown) options written_default) (\<lambda>w.
     res_bind (try_each (read_legacy_option csv_shown) legacy w) check_written)"

section \<open>Line endings\<close>

datatype (plugins only: code size) line_ending = Lf | CrLf | Cr

definition line_end :: "uchar \<Rightarrow> ustring \<Rightarrow> line_ending option \<Rightarrow> nat \<Rightarrow> (ustring \<times> line_ending option) cres" where
  "line_end first chars seen record_no =
     (let (ending, rest) =
        (if first = 13 \<and> chars \<noteq> [] \<and> hd chars = 10 then (CrLf, tl chars) else if first = 13 then (Cr, chars) else (Lf, chars));
        s = unwrap_or seen ending in
      if s = ending then ok (rest, Some s)
      else refuse (malformed record_no ''ends with a different line ending than the first row''))"

lemma line_end_shrinks: "line_end c chars seen n = Inr (rest, s) \<Longrightarrow> length rest \<le> length chars"
  by (auto simp: line_end_def Let_def split: if_splits list.splits prod.splits nat.splits)

section \<open>Text rows\<close>

definition push_char :: "byte list \<Rightarrow> uchar \<Rightarrow> byte list" where
  "push_char v c = v @ encode_utf8 c"

text \<open>\<open>char::to_digit\<close> for a radix of at most 16.\<close>

definition to_digit :: "nat \<Rightarrow> uchar \<Rightarrow> nat option" where
  "to_digit radix c =
     (let d = (if 48 \<le> c \<and> c \<le> 57 then c - 48 else if 97 \<le> c \<and> c \<le> 102 then c - 87
               else if 65 \<le> c \<and> c \<le> 70 then c - 55 else radix) in
      if d < radix then Some d else None)"

fun take_digits :: "nat \<Rightarrow> nat \<Rightarrow> nat \<Rightarrow> ustring \<Rightarrow> ustring \<Rightarrow> nat \<times> ustring \<times> ustring" where
  "take_digits radix (Suc n) acc (c # chars) raw =
     (case to_digit radix c of
        None \<Rightarrow> (acc, c # chars, raw)
      | Some d \<Rightarrow> take_digits radix n (acc * radix + d) chars (raw @ [c]))"
| "take_digits radix n acc chars raw = (acc, chars, raw)"

definition unescape :: "uchar \<Rightarrow> ustring \<Rightarrow> ustring \<Rightarrow> byte list \<Rightarrow> ustring \<times> ustring \<times> byte list" where
  "unescape escaped chars raw v =
     (if escaped = 98 then (chars, raw, v @ [8])
      else if escaped = 102 then (chars, raw, v @ [12])
      else if escaped = 110 then (chars, raw, v @ [10])
      else if escaped = 114 then (chars, raw, v @ [13])
      else if escaped = 116 then (chars, raw, v @ [9])
      else if escaped = 118 then (chars, raw, v @ [11])
      else if 48 \<le> escaped \<and> escaped \<le> 55 then
        (let (acc, chars', raw') = take_digits 8 2 (escaped - 48) chars raw in (chars', raw', v @ [acc mod 256]))
      else if escaped = 120 \<and> chars \<noteq> [] \<and> to_digit 16 (hd chars) \<noteq> None then
        (let (acc, chars', raw') = take_digits 16 2 0 chars raw in (chars', raw', v @ [acc]))
      else (chars, raw, push_char v escaped))"

definition text_field :: "ustring \<Rightarrow> byte list \<Rightarrow> copy_format \<Rightarrow> nat \<Rightarrow> ustring option cres" where
  "text_field raw v fmt record_no =
     (if raw = null_text fmt then ok None
      else case from_utf8 v of
        Some s \<Rightarrow> ok (Some s)
      | None \<Rightarrow> refuse (malformed record_no ''decodes to bytes that are not valid UTF-8''))"

lemma take_digits_shrinks: "take_digits r n a chars raw = (a', chars', raw') \<Longrightarrow> length chars' \<le> length chars"
  by (induction r n a chars raw rule: take_digits.induct) (fastforce split: option.splits)+

lemma unescape_shrinks: "unescape e chars raw v = (chars', raw', v') \<Longrightarrow> length chars' \<le> length chars"
  by (auto simp: unescape_def split: if_splits prod.splits dest: take_digits_shrinks)

text \<open>One record of the payload: its fields, what is left to read and the line ending seen.\<close>

type_synonym record_read = "ustring option list \<times> ustring \<times> line_ending option"

function text_record ::
  "copy_format \<Rightarrow> nat \<Rightarrow> line_ending option \<Rightarrow> ustring \<Rightarrow> ustring option list \<Rightarrow> ustring \<Rightarrow> byte list \<Rightarrow> record_read cres" where
  "text_record fmt n seen [] cells raw v = res_bind (text_field raw v fmt n) (\<lambda>f. ok (cells @ [f], [], seen))"
| "text_record fmt n seen (c # chars) cells raw v =
     (if c = 10 \<or> c = 13 then
        res_bind (line_end c chars seen n) (\<lambda>(rest, seen').
        res_bind (text_field raw v fmt n) (\<lambda>f. ok (cells @ [f], rest, seen')))
      else if c = delimiter fmt then
        res_bind (text_field raw v fmt n) (\<lambda>f. text_record fmt n seen chars (cells @ [f]) [] [])
      else if c = 92 then
        (case chars of
           [] \<Rightarrow> res_bind (text_field (raw @ [92]) v fmt n) (\<lambda>f. ok (cells @ [f], [], seen))
         | escaped # rest \<Rightarrow>
             (let (chars', raw', v') = unescape escaped rest (raw @ [92, escaped]) v in
              text_record fmt n seen chars' cells raw' v'))
      else text_record fmt n seen chars cells (raw @ [c]) (push_char v c))"
  by pat_completeness auto

termination text_record
proof (relation "measure (\<lambda>(_, _, _, chars, _). length chars)")
  fix rest raw :: ustring and v v' :: "byte list" and e x y z and chars' raw'
  assume "x = unescape e rest (raw @ [92, e]) v" "(chars', y) = x" "(raw', v') = y"
  then have "length chars' \<le> length rest" using unescape_shrinks by metis
  then show "((fmt, n, seen, chars', cells, raw', v'), fmt, n, seen, c # chars, cells', raw, v)
      \<in> measure (\<lambda>(_, _, _, chars, _). length chars)" if "chars = e # rest" for fmt n seen cells cells' c chars
    using that by simp
qed auto

lemma text_record_shrinks:
  "text_record fmt n seen chars cells raw v = Inr (cells', chars', seen') \<Longrightarrow> chars \<noteq> [] \<Longrightarrow> length chars' < length chars"
proof (induction fmt n seen chars cells raw v rule: text_record.induct)
  case (2 fmt n seen c chars cells raw v)
  have step: "length chars' < length (c # chars)"
    if "text_record fmt n seen rest fs r w = Inr (cells', chars', seen')" "length rest \<le> length chars"
      "rest \<noteq> [] \<Longrightarrow> length chars' < length rest" for rest fs r w
    using that by (cases rest) (auto simp: res_bind_eq_ok)
  show ?case
    using 2 by (fastforce simp: res_bind_eq_ok Let_def split: if_splits list.splits prod.splits
        dest: line_end_shrinks unescape_shrinks intro: step)
qed simp

function text_rows_from :: "copy_format \<Rightarrow> nat \<Rightarrow> line_ending option \<Rightarrow> ustring \<Rightarrow> ustring option list list cres" where
  "text_rows_from fmt record_no seen chars =
     (if chars = [] then ok []
      else case text_record fmt (record_no + 1) seen chars [] [] [] of
        Inl e \<Rightarrow> Inl e
      | Inr (cells, rest, seen') \<Rightarrow>
          res_bind (text_rows_from fmt (record_no + 1) seen' rest) (\<lambda>rows.
            ok (if header fmt \<and> record_no + 1 = 1 then rows else cells # rows)))"
  by pat_completeness auto

termination text_rows_from
  by (relation "measure (\<lambda>(_, _, _, chars). length chars)") (auto dest: text_record_shrinks)

declare text_rows_from.simps [simp del]

definition text_rows :: "ustring \<Rightarrow> copy_format \<Rightarrow> ustring option list list cres" where
  "text_rows data fmt = text_rows_from fmt 0 None data"

section \<open>CSV rows\<close>

definition same_column :: "ident \<Rightarrow> ident \<Rightarrow> bool" where
  "same_column left right =
     (if quote_style left \<noteq> None \<and> quote_style right \<noteq> None then ident_value left = ident_value right
      else eq_ignore_ascii_case (ident_value left) (ident_value right))"

fun positions :: "ident list \<Rightarrow> ident list \<Rightarrow> string \<Rightarrow> nat list cres" where
  "positions [] columns opt = ok []"
| "positions (name # named) columns opt =
     res_bind (ok_or (find_index (\<lambda>column. same_column column name) columns)
         (invalid_option (opt @ '' column '' @ [CHR 0x22] @ display_ident name @ [CHR 0x22] @ '' is not referenced by COPY'')))
       (\<lambda>p. res_bind (positions named columns opt) (\<lambda>ps. ok (p # ps)))"

definition csv_field :: "copy_format \<Rightarrow> nat list \<Rightarrow> nat list \<Rightarrow> ustring \<Rightarrow> bool \<Rightarrow> nat \<Rightarrow> ustring option" where
  "csv_field fmt fnull fnot v quoted position =
     (if v = null_text fmt \<and> (if quoted then position \<in> set fnull else position \<notin> set fnot) then None else Some v)"

function csv_record ::
  "copy_format \<Rightarrow> nat list \<Rightarrow> nat list \<Rightarrow> nat \<Rightarrow> line_ending option \<Rightarrow> ustring \<Rightarrow> ustring option list \<Rightarrow> ustring
     \<Rightarrow> bool \<Rightarrow> bool \<Rightarrow> record_read cres" where
  "csv_record fmt fnull fnot n seen [] cells v quoted in_quotes =
     (if in_quotes then refuse (malformed n ''ends inside a quoted field'')
      else ok (cells @ [csv_field fmt fnull fnot v quoted (length cells)], [], seen))"
| "csv_record fmt fnull fnot n seen (c # chars) cells v quoted in_quotes =
     (if in_quotes then
        (if c = escape fmt \<and> chars \<noteq> [] \<and> (hd chars = quote fmt \<or> hd chars = escape fmt)
         then csv_record fmt fnull fnot n seen (tl chars) cells (v @ [hd chars]) quoted True
         else if c = quote fmt then csv_record fmt fnull fnot n seen chars cells v quoted False
         else csv_record fmt fnull fnot n seen chars cells (v @ [c]) quoted True)
      else if c = 10 \<or> c = 13 then
        res_bind (line_end c chars seen n) (\<lambda>(rest, seen').
          ok (cells @ [csv_field fmt fnull fnot v quoted (length cells)], rest, seen'))
      else if c = delimiter fmt then
        csv_record fmt fnull fnot n seen chars (cells @ [csv_field fmt fnull fnot v quoted (length cells)]) [] False False
      else if c = quote fmt then csv_record fmt fnull fnot n seen chars cells v True True
      else csv_record fmt fnull fnot n seen chars cells (v @ [c]) quoted False)"
  by pat_completeness auto

termination csv_record
  by (relation "measure (\<lambda>(_, _, _, _, _, chars, _). length chars)") auto

lemma csv_record_length:
  "csv_record fmt fnull fnot n seen chars cells v quoted in_quotes = Inr (cells', chars', seen') \<Longrightarrow>
     length chars' \<le> length chars - 1"
proof (induction fmt fnull fnot n seen chars cells v quoted in_quotes rule: csv_record.induct)
  case (2 fmt fnull fnot n seen c chars cells v quoted in_quotes)
  show ?case
  proof (cases in_quotes)
    case True
    then show ?thesis using 2(1-3) 2(7) by (auto split: if_splits dest: order.trans [OF _ diff_le_self])
  next
    case False
    then show ?thesis using 2(4-7)
      by (auto simp: res_bind_eq_ok split: if_splits dest: line_end_shrinks order.trans [OF _ diff_le_self])
  qed
qed (auto split: if_splits)

lemma csv_record_shrinks:
  "csv_record fmt fnull fnot n seen chars cells v quoted in_quotes = Inr (cells', chars', seen') \<Longrightarrow> chars \<noteq> []
     \<Longrightarrow> length chars' < length chars"
  by (drule csv_record_length) (cases chars, auto)

function csv_rows_from ::
  "copy_format \<Rightarrow> nat list \<Rightarrow> nat list \<Rightarrow> nat \<Rightarrow> line_ending option \<Rightarrow> ustring \<Rightarrow> ustring option list list cres" where
  "csv_rows_from fmt fnull fnot record_no seen chars =
     (if chars = [] then ok []
      else case csv_record fmt fnull fnot (record_no + 1) seen chars [] [] False False of
        Inl e \<Rightarrow> Inl e
      | Inr (cells, rest, seen') \<Rightarrow>
          res_bind (csv_rows_from fmt fnull fnot (record_no + 1) seen' rest) (\<lambda>rows.
            ok (if header fmt \<and> record_no + 1 = 1 then rows else cells # rows)))"
  by pat_completeness auto

termination csv_rows_from
  by (relation "measure (\<lambda>(_, _, _, _, _, chars). length chars)") (auto dest: csv_record_shrinks)

declare csv_rows_from.simps [simp del]

definition csv_rows :: "ustring \<Rightarrow> copy_format \<Rightarrow> ident list \<Rightarrow> ustring option list list cres" where
  "csv_rows data fmt columns =
     res_bind (positions (force_null fmt) columns ''FORCE_NULL'') (\<lambda>fnull.
     res_bind (positions (force_not_null fmt) columns ''FORCE_NOT_NULL'') (\<lambda>fnot.
       csv_rows_from fmt fnull fnot 0 None data))"

section \<open>The statement\<close>

datatype (plugins only: code size) copy_source = CopyTable object_name "ident list" | CopyQuery

datatype (plugins only: code size) copy_target = Stdin | OtherTarget

record copy_payload =
  payload_data :: ustring
  terminated :: bool

record copy_statement =
  cp_source :: copy_source
  cp_to :: bool
  cp_target :: copy_target
  cp_options :: "copy_option list"
  cp_legacy_options :: "copy_legacy_option list"
  cp_payload :: "copy_payload option"

text \<open>A column of a declared table: its name, whether it was quoted, and whether it is computed by a
  generation expression.\<close>

record copy_column =
  col_name :: string
  col_quoted :: bool
  col_generated :: bool

definition reject_copy :: "string \<Rightarrow> bool \<Rightarrow> string" where
  "reject_copy subject to = subject @ '' cannot be translated. '' @
     (if to then ''SQLite has no COPY statement, and the translator cannot write the destination. Export the ''
        @ ''rows with your client instead.''
      else ''SQLite has no COPY statement, and the translator cannot read the source. Load the rows ''
        @ ''with INSERT statements instead.'')"

definition column_ident :: "copy_column \<Rightarrow> ident" where
  "column_ident c = (if col_quoted c then ident_with_quote (CHR 0x22) (col_name c) else bare_ident (col_name c))"

text \<open>What the schema answers for a name, first for the translated tables and then on the search path,
  are parameters.\<close>

definition table_columns ::
  "(object_name \<Rightarrow> copy_column list option cres) \<Rightarrow> (object_name \<Rightarrow> copy_column list option cres) \<Rightarrow> object_name \<Rightarrow> ident list cres" where
  "table_columns resolve_translation resolve_search_path table_name =
     res_bind (resolve_translation table_name) (\<lambda>found.
     res_bind (case found of Some t \<Rightarrow> ok (Some t) | None \<Rightarrow> resolve_search_path table_name) (\<lambda>resolved.
     case resolved of
       None \<Rightarrow> refuse (''COPY '' @ display_name table_name @ '' names no table the translation declares, so the columns its rows ''
         @ ''fill are unknown.'')
     | Some columns \<Rightarrow> ok (map column_ident (filter (\<lambda>c. \<not> col_generated c) columns))))"

datatype (plugins only: code size) copy_value = CopyNull | CopyString ustring

fun field_value :: "ustring option \<Rightarrow> copy_value" where
  "field_value None = CopyNull"
| "field_value (Some s) = CopyString s"

record insert_rows =
  ins_table :: object_name
  ins_columns :: "ident list"
  ins_values :: "copy_value list list"

definition no_payload :: "object_name \<Rightarrow> string" where
  "no_payload n = ''COPY '' @ display_name n @ '' FROM STDIN has no payload ended by a `'' @ [CHR 0x5C]
     @ ''.` line, and PostgreSQL refuses a payload that runs to the end of the input. End the rows with `'' @ [CHR 0x5C]
     @ ''.` on a line of its own.''"

definition wrong_width :: "object_name \<Rightarrow> nat \<Rightarrow> nat \<Rightarrow> nat \<Rightarrow> string" where
  "wrong_width n row cells columns = ''row '' @ show_nat (row + 1) @ '' of COPY '' @ display_name n @ '' has '' @ show_nat cells
     @ '' fields, and the statement writes '' @ show_nat columns @ '' columns, so PostgreSQL refuses the whole COPY.''"

text \<open>The rows of the statement: the \<open>INSERT\<close> that is handed on to the ordinary translation, or none.\<close>

definition copy_insert ::
  "(copy_option \<Rightarrow> string) \<Rightarrow> (copy_legacy_csv_option \<Rightarrow> string) \<Rightarrow> (object_name \<Rightarrow> ident list cres) \<Rightarrow> copy_statement
     \<Rightarrow> insert_rows option cres" where
  "copy_insert shown csv_shown columns_of cp =
     (case cp_source cp of
        CopyQuery \<Rightarrow> refuse (reject_copy ''COPY (query)'' (cp_to cp))
      | CopyTable table_name named \<Rightarrow>
          if cp_to cp \<or> cp_target cp \<noteq> Stdin then refuse (reject_copy (''COPY '' @ display_name table_name) (cp_to cp))
          else (case cp_payload cp of
            None \<Rightarrow> refuse (no_payload table_name)
          | Some payload \<Rightarrow>
              if \<not> terminated payload then refuse (no_payload table_name)
              else
                res_bind (format_new shown csv_shown (cp_options cp) (cp_legacy_options cp)) (\<lambda>fmt.
                res_bind (if named = [] then columns_of table_name else ok named) (\<lambda>columns.
                res_bind (case kind fmt of KText \<Rightarrow> text_rows (payload_data payload) fmt
                    | KCsv \<Rightarrow> csv_rows (payload_data payload) fmt columns) (\<lambda>rows.
                case find_index (\<lambda>cells. length cells \<noteq> length columns) rows of
                  Some row \<Rightarrow> refuse (wrong_width table_name row (length (rows ! row)) (length columns))
                | None \<Rightarrow> ok (if rows = [] then None
                    else Some \<lparr>ins_table = table_name, ins_columns = columns, ins_values = map (map field_value) rows\<rparr>))))))"

text \<open>The translation of an \<open>INSERT\<close>, which answers the name it writes when that is a table and the
  rest of the statement, the row-security flag of a table and the name of its backing table are
  parameters.\<close>

definition translate_copy ::
  "(copy_option \<Rightarrow> string) \<Rightarrow> (copy_legacy_csv_option \<Rightarrow> string) \<Rightarrow> (object_name \<Rightarrow> ident list cres)
     \<Rightarrow> (insert_rows \<Rightarrow> (object_name option \<times> 'r) cres) \<Rightarrow> (string \<Rightarrow> bool cres) \<Rightarrow> (object_name \<Rightarrow> object_name)
     \<Rightarrow> copy_statement \<Rightarrow> (object_name option \<times> 'r) list cres" where
  "translate_copy shown csv_shown columns_of translate_insert table_has_rls backing_table_name cp =
     res_bind (copy_insert shown csv_shown columns_of cp) (\<lambda>ins.
     case ins of
       None \<Rightarrow> ok []
     | Some i \<Rightarrow> res_bind (translate_insert i) (\<lambda>(target, rest).
         case last_ident (ins_table i) of
           None \<Rightarrow> ok [(target, rest)]
         | Some l \<Rightarrow> res_bind (table_has_rls (ident_value l)) (\<lambda>rls.
             ok [(if rls then map_option backing_table_name target else target, rest)])))"


end
