(* ===== verification/Copy_Facts.thy ===== *)
theory Copy_Facts
  imports Copy_Rows
begin

text \<open>
  What PostgreSQL writes with \<open>COPY ... TO\<close>, the decoders of \<open>Copy_Rows\<close> read back: the row
  formats of the PostgreSQL manual as printers, the record readers behind one interface, and the
  round trips of the text and the CSV format.
\<close>

section \<open>Reading records\<close>

fun eol :: "line_ending \<Rightarrow> ustring" where
  "eol Lf = [10]"
| "eol CrLf = [13, 10]"
| "eol Cr = [13]"

definition payload_of :: "('r \<Rightarrow> ustring) \<Rightarrow> line_ending \<Rightarrow> 'r list \<Rightarrow> ustring" where
  "payload_of line e rs = concat (map (\<lambda>r. line r @ eol e) rs)"

lemma payload_of_simps [simp]:
  "payload_of line e [] = []" "payload_of line e (r # rs) = line r @ eol e @ payload_of line e rs"
  by (simp_all add: payload_of_def)

text \<open>What may follow the line ending \<open>e\<close>: after a carriage return no newline, which would be read
  as part of it.\<close>

definition after_eol :: "line_ending \<Rightarrow> ustring \<Rightarrow> bool" where
  "after_eol e rest \<longleftrightarrow> \<not> (e = Cr \<and> rest \<noteq> [] \<and> hd rest = 10)"

lemma line_end_eol:
  "seen = None \<or> seen = Some e \<Longrightarrow> after_eol e rest \<Longrightarrow> line_end (hd (eol e)) (tl (eol e) @ rest) seen n = ok (rest, Some e)"
  by (cases e) (auto simp: line_end_def unwrap_or_def after_eol_def)

locale record_reader =
  fixes rd :: "nat \<Rightarrow> line_ending option \<Rightarrow> ustring \<Rightarrow> record_read cres"
    and rows_from :: "nat \<Rightarrow> line_ending option \<Rightarrow> ustring \<Rightarrow> ustring option list list cres"
    and skip_first :: bool
    and line :: "'r \<Rightarrow> ustring"
    and cells_of :: "'r \<Rightarrow> ustring option list"
    and fits :: "'r \<Rightarrow> bool"
  assumes rows_from_eq: "rows_from k seen chars =
      (if chars = [] then ok []
       else case rd (k + 1) seen chars of
         Inl e \<Rightarrow> Inl e
       | Inr (cells, rest, seen') \<Rightarrow>
           res_bind (rows_from (k + 1) seen' rest) (\<lambda>rows. ok (if skip_first \<and> k + 1 = 1 then rows else cells # rows)))"
    and rd_line: "fits r \<Longrightarrow> seen = None \<or> seen = Some e \<Longrightarrow> after_eol e rest \<Longrightarrow>
      rd n seen (line r @ eol e @ rest) = ok (cells_of r, rest, Some e)"
    and line_start: "fits r \<Longrightarrow> line r \<noteq> [] \<Longrightarrow> hd (line r) \<noteq> 10"
begin

lemma after_payload: "list_all fits rs \<Longrightarrow> after_eol e (payload_of line e rs)"
  by (cases rs) (auto simp: after_eol_def hd_append dest: line_start)

lemma rows_from_payload:
  assumes "list_all fits rs" and "seen = None \<or> seen = Some e"
  shows "rows_from k seen (payload_of line e rs) = ok (if skip_first \<and> k = 0 then tl (map cells_of rs) else map cells_of rs)"
  using assms
proof (induction rs arbitrary: k seen)
  case Nil then show ?case using rows_from_eq [of k seen "[]"] by simp
next
  case (Cons r rs)
  have ne: "payload_of line e (r # rs) \<noteq> []" by (cases e) auto
  have "rd (k + 1) seen (payload_of line e (r # rs)) = ok (cells_of r, payload_of line e rs, Some e)"
    using Cons.prems after_payload by (simp add: rd_line)
  moreover have "rows_from (k + 1) (Some e) (payload_of line e rs) = ok (map cells_of rs)"
    using Cons by simp
  ultimately show ?case using ne by (subst rows_from_eq) (simp add: ok_def del: payload_of_simps)
qed

end

section \<open>The text format\<close>

definition text_escape :: "copy_format \<Rightarrow> uchar \<Rightarrow> ustring" where
  "text_escape fmt c =
     (if c = 8 then [92, 98] else if c = 12 then [92, 102] else if c = 10 then [92, 110] else if c = 13 then [92, 114]
      else if c = 9 then [92, 116] else if c = 11 then [92, 118] else if c = 92 \<or> c = delimiter fmt then [92, c] else [c])"

fun text_cell :: "copy_format \<Rightarrow> ustring option \<Rightarrow> ustring" where
  "text_cell fmt None = null_text fmt"
| "text_cell fmt (Some s) = concat (map (text_escape fmt) s)"

definition text_line :: "copy_format \<Rightarrow> ustring option list \<Rightarrow> ustring" where
  "text_line fmt r = join [delimiter fmt] (map (text_cell fmt) r)"

text \<open>A text format the option check lets through, whose null marker is the default or has no
  backslash.\<close>

definition text_format_ok :: "copy_format \<Rightarrow> bool" where
  "text_format_ok fmt \<longleftrightarrow> delimiter fmt \<notin> {10, 13} \<union> set TEXT_DELIMITERS_REFUSED
     \<and> (null_text fmt = [92, 78] \<or> 92 \<notin> set (null_text fmt)) \<and> set (null_text fmt) \<inter> {10, 13, delimiter fmt} = {}"

text \<open>A value that is not written like the null marker.\<close>

fun text_cell_ok :: "copy_format \<Rightarrow> ustring option \<Rightarrow> bool" where
  "text_cell_ok fmt None = True"
| "text_cell_ok fmt (Some s) \<longleftrightarrow> list_all is_scalar s \<and> text_cell fmt (Some s) \<noteq> null_text fmt"

definition text_fits :: "copy_format \<Rightarrow> ustring option list \<Rightarrow> bool" where
  "text_fits fmt r \<longleftrightarrow> text_format_ok fmt \<and> r \<noteq> [] \<and> list_all (text_cell_ok fmt) r"

lemma refused_delimiters:
  assumes "text_format_ok fmt"
  shows "delimiter fmt \<noteq> 92" "delimiter fmt \<noteq> 10" "delimiter fmt \<noteq> 13"
    "delimiter fmt \<notin> {98, 102, 110, 114, 116, 118, 120}" "\<not> (48 \<le> delimiter fmt \<and> delimiter fmt \<le> 55)"
proof -
  have "set TEXT_DELIMITERS_REFUSED = {92, 46} \<union> {97..122} \<union> {48..57}"
    by code_simp
  then show "delimiter fmt \<noteq> 92" "delimiter fmt \<noteq> 10" "delimiter fmt \<noteq> 13"
    "delimiter fmt \<notin> {98, 102, 110, 114, 116, 118, 120}" "\<not> (48 \<le> delimiter fmt \<and> delimiter fmt \<le> 55)"
    using assms by (auto simp: text_format_ok_def)
qed

lemma text_record_escape:
  assumes "text_format_ok fmt"
  shows "text_record fmt n seen (text_escape fmt c @ rest) cells raw v
    = text_record fmt n seen rest cells (raw @ text_escape fmt c) (v @ encode_utf8 c)"
  using refused_delimiters [OF assms]
  by (auto simp: text_escape_def unescape_def push_char_def encode_utf8_def)

lemma text_record_value:
  assumes "text_format_ok fmt"
  shows "text_record fmt n seen (text_cell fmt (Some s) @ rest) cells raw v
    = text_record fmt n seen rest cells (raw @ text_cell fmt (Some s)) (v @ utf8 s)"
  using text_record_escape [OF assms] by (induction s arbitrary: raw v) simp_all

lemma text_record_plain:
  assumes "set s \<inter> {10, 13, 92, delimiter fmt} = {}"
  shows "text_record fmt n seen (s @ rest) cells raw v = text_record fmt n seen rest cells (raw @ s) (v @ utf8 s)"
  using assms by (induction s arbitrary: raw v) (auto simp: push_char_def)

lemma text_record_cell:
  assumes "text_format_ok fmt" and "text_cell_ok fmt x"
  obtains w where "\<And>rest cells. text_record fmt n seen (text_cell fmt x @ rest) cells [] []
      = text_record fmt n seen rest cells (text_cell fmt x) w" and "text_field (text_cell fmt x) w fmt n = ok x"
proof (cases x)
  case (Some s)
  then show thesis
    using that [of "utf8 s"] text_record_value [OF assms(1), of n seen s] assms(2) by (simp add: text_field_def)
next
  case None
  show thesis
  proof (cases "null_text fmt = [92, 78]")
    case True
    then show thesis using that [of "[78]"] None refused_delimiters [OF assms(1)]
      by (simp add: text_field_def unescape_def push_char_def encode_utf8_def)
  next
    case False
    then have "set (null_text fmt) \<inter> {10, 13, 92, delimiter fmt} = {}" using assms(1) by (auto simp: text_format_ok_def)
    from text_record_plain [OF this] show thesis using that [of "utf8 (null_text fmt)"] None by (simp add: text_field_def)
  qed
qed

lemma text_record_end:
  assumes "seen = None \<or> seen = Some e" "after_eol e rest" "text_field raw v fmt n = ok x"
  shows "text_record fmt n seen (eol e @ rest) cells raw v = ok (cells @ [x], rest, Some e)"
proof -
  obtain c cs where c: "eol e = c # cs" "c = 10 \<or> c = 13" by (cases e) auto
  then show ?thesis using line_end_eol [OF assms(1,2), of n] assms(3) by simp
qed

lemma text_record_line:
  assumes "text_format_ok fmt" "seen = None \<or> seen = Some e" "after_eol e rest"
  shows "list_all (text_cell_ok fmt) r \<Longrightarrow> r \<noteq> [] \<Longrightarrow>
    text_record fmt n seen (text_line fmt r @ eol e @ rest) cells [] [] = ok (cells @ r, rest, Some e)"
proof (induction r arbitrary: cells)
  case (Cons x r)
  from Cons.prems have "text_cell_ok fmt x" by simp
  from text_record_cell [OF assms(1) this, of n seen]
  obtain w where w: "\<And>rest cells. text_record fmt n seen (text_cell fmt x @ rest) cells [] []
      = text_record fmt n seen rest cells (text_cell fmt x) w" "text_field (text_cell fmt x) w fmt n = ok x" by blast
  show ?case
  proof (cases r)
    case Nil
    then show ?thesis using w text_record_end [OF assms(2,3) w(2)] by (simp add: text_line_def)
  next
    case (Cons y ys)
    then show ?thesis using w Cons.IH [of "cells @ [x]"] Cons.prems refused_delimiters [OF assms(1)]
      by (simp add: text_line_def)
  qed
qed simp

lemma set_join: "set (join sep xs) \<subseteq> set sep \<union> (\<Union>x\<in>set xs. set x)"
  by (induction sep xs rule: join.induct) auto

lemma text_cell_no_newline: "text_format_ok fmt \<Longrightarrow> 10 \<notin> set (text_cell fmt x)"
  by (cases x) (auto simp: text_format_ok_def text_escape_def)

lemma text_line_no_newline: "text_fits fmt r \<Longrightarrow> 10 \<notin> set (text_line fmt r)"
  using set_join [of "[delimiter fmt]" "map (text_cell fmt) r"] refused_delimiters(2) [of fmt] text_cell_no_newline
  by (fastforce simp: text_fits_def text_line_def)

lemma text_line_start: "text_fits fmt r \<Longrightarrow> text_line fmt r \<noteq> [] \<Longrightarrow> hd (text_line fmt r) \<noteq> 10"
  using text_line_no_newline [of fmt r] by (metis hd_in_set)

interpretation text_reader: record_reader "\<lambda>n seen chars. text_record fmt n seen chars [] [] []" "text_rows_from fmt" "header fmt"
    "text_line fmt" "\<lambda>r. r" "text_fits fmt" for fmt
proof unfold_locales
  show "text_rows_from fmt k seen chars = (if chars = [] then ok []
       else case text_record fmt (k + 1) seen chars [] [] [] of
         Inl e \<Rightarrow> Inl e
       | Inr (cells, rest, seen') \<Rightarrow>
           res_bind (text_rows_from fmt (k + 1) seen' rest) (\<lambda>rows. ok (if header fmt \<and> k + 1 = 1 then rows else cells # rows)))"
    for k seen chars by (rule text_rows_from.simps)
qed (auto simp: text_fits_def text_record_line text_line_start)

lemma format_new_checked:
  assumes "format_new shown csv_shown options legacy = ok fmt"
  shows "delimiter fmt \<notin> {10, 13}" "set (null_text fmt) \<inter> {10, 13, delimiter fmt} = {}"
    "kind fmt = KText \<Longrightarrow> delimiter fmt \<notin> set TEXT_DELIMITERS_REFUSED"
    "kind fmt = KCsv \<Longrightarrow> delimiter fmt \<noteq> quote fmt \<and> quote fmt \<notin> set (null_text fmt)"
proof -
  obtain w where "check_written w = ok fmt" using assms by (auto simp: format_new_def res_bind_eq_ok)
  then show "delimiter fmt \<notin> {10, 13}" "set (null_text fmt) \<inter> {10, 13, delimiter fmt} = {}"
    "kind fmt = KText \<Longrightarrow> delimiter fmt \<notin> set TEXT_DELIMITERS_REFUSED"
    "kind fmt = KCsv \<Longrightarrow> delimiter fmt \<noteq> quote fmt \<and> quote fmt \<notin> set (null_text fmt)"
    by (auto simp: check_written_def Let_def split: if_splits)
qed

text \<open>
  C25. What PostgreSQL writes in the text format is read back exactly: under any options the
  translator accepts, the rows PostgreSQL's \<open>COPY TO\<close> prints, with any one line ending, decode to the
  same values and nulls, less the header row when one is announced. A value must not itself be written
  like the null marker, which PostgreSQL cannot tell from a null either.
\<close>

theorem copy_text_round_trip:
  assumes "format_new shown csv_shown options legacy = ok fmt" and "kind fmt = KText"
    and "null_text fmt = [92, 78] \<or> 92 \<notin> set (null_text fmt)"
    and "\<forall>r\<in>set rows. r \<noteq> [] \<and> list_all (text_cell_ok fmt) r"
  shows "text_rows (payload_of (text_line fmt) e rows) fmt = ok (if header fmt then tl rows else rows)"
proof -
  have "text_format_ok fmt" using format_new_checked [OF assms(1)] assms(2,3) by (auto simp: text_format_ok_def)
  then have "list_all (text_fits fmt) rows" using assms(4) by (simp add: text_fits_def list_all_iff)
  then show ?thesis using text_reader.rows_from_payload [of fmt rows None e 0] by (simp add: text_rows_def)
qed

theorem copy_text_round_trip_witness:
  "text_rows (payload_of (text_line \<lparr>kind = KText, delimiter = 44, null_text = [92, 78], header = False, quote = 34, escape = 34,
      force_null = [], force_not_null = []\<rparr>) CrLf [[Some (ucs ''a,b''), None], [Some [9, 233, 128512], Some []]])
     \<lparr>kind = KText, delimiter = 44, null_text = [92, 78], header = False, quote = 34, escape = 34, force_null = [], force_not_null = []\<rparr>
   = ok [[Some (ucs ''a,b''), None], [Some [9, 233, 128512], Some []]]"
proof -
  let ?fmt = "\<lparr>kind = KText, delimiter = 44, null_text = [92, 78], header = False, quote = 34, escape = 34,
      force_null = [], force_not_null = []\<rparr>"
  let ?rows = "[[Some (ucs ''a,b''), None], [Some [9, 233, 128512], Some []]]"
  have f: "format_new (\<lambda>_. []) (\<lambda>_. []) [CoDelimiter 44] [] = ok ?fmt"
    by (simp add: format_new_def once_def written_default_def check_written_def unwrap_or_def TEXT_DELIMITERS_REFUSED_def ucs_def)
  have "\<forall>r\<in>set ?rows. r \<noteq> [] \<and> list_all (text_cell_ok ?fmt) r"
    by (simp add: is_scalar_def text_escape_def ucs_def)
  with copy_text_round_trip [OF f, of ?rows CrLf] show ?thesis by simp
qed


section \<open>The CSV format\<close>

text \<open>A field as it is to be written: whether inside quotes, and its value.\<close>

type_synonym csv_cell_text = "bool \<times> ustring option"

definition csv_escape :: "copy_format \<Rightarrow> uchar \<Rightarrow> ustring" where
  "csv_escape fmt c = (if c = quote fmt \<or> c = escape fmt then [escape fmt, c] else [c])"

fun csv_cell :: "copy_format \<Rightarrow> csv_cell_text \<Rightarrow> ustring" where
  "csv_cell fmt (q, None) = null_text fmt"
| "csv_cell fmt (q, Some s) = (if q then [quote fmt] @ concat (map (csv_escape fmt) s) @ [quote fmt] else s)"

definition csv_line :: "copy_format \<Rightarrow> csv_cell_text list \<Rightarrow> ustring" where
  "csv_line fmt r = join [delimiter fmt] (map (csv_cell fmt) r)"

definition csv_format_ok :: "copy_format \<Rightarrow> bool" where
  "csv_format_ok fmt \<longleftrightarrow> delimiter fmt \<notin> {10, 13, quote fmt} \<and> quote fmt \<notin> {10, 13}
     \<and> set (null_text fmt) \<inter> {10, 13, delimiter fmt, quote fmt} = {}"

text \<open>The rules of the manual: a bare field holds no delimiter, quote or line end; a bare null marker is
  a null unless the column is forced not null, and a quoted one a value unless it is forced null.\<close>

fun csv_cell_ok :: "copy_format \<Rightarrow> nat list \<Rightarrow> nat list \<Rightarrow> nat \<Rightarrow> csv_cell_text \<Rightarrow> bool" where
  "csv_cell_ok fmt fnull fnot p (q, None) \<longleftrightarrow> p \<notin> set fnot"
| "csv_cell_ok fmt fnull fnot p (True, Some s) \<longleftrightarrow> (s = null_text fmt \<longrightarrow> p \<notin> set fnull)"
| "csv_cell_ok fmt fnull fnot p (False, Some s) \<longleftrightarrow>
     set s \<inter> {10, 13, delimiter fmt, quote fmt} = {} \<and> (s = null_text fmt \<longrightarrow> p \<in> set fnot)"

fun csv_cells_ok :: "copy_format \<Rightarrow> nat list \<Rightarrow> nat list \<Rightarrow> nat \<Rightarrow> csv_cell_text list \<Rightarrow> bool" where
  "csv_cells_ok fmt fnull fnot p [] \<longleftrightarrow> True"
| "csv_cells_ok fmt fnull fnot p (x # r) \<longleftrightarrow> csv_cell_ok fmt fnull fnot p x \<and> csv_cells_ok fmt fnull fnot (p + 1) r"

definition csv_fits :: "copy_format \<Rightarrow> nat list \<Rightarrow> nat list \<Rightarrow> csv_cell_text list \<Rightarrow> bool" where
  "csv_fits fmt fnull fnot r \<longleftrightarrow> csv_format_ok fmt \<and> r \<noteq> [] \<and> csv_cells_ok fmt fnull fnot 0 r"

lemma csv_record_bare:
  assumes "set s \<inter> {10, 13, delimiter fmt, quote fmt} = {}"
  shows "csv_record fmt fnull fnot n seen (s @ rest) cells v quoted False
    = csv_record fmt fnull fnot n seen rest cells (v @ s) quoted False"
  using assms by (induction s arbitrary: v) auto

lemma csv_record_quoted:
  assumes "rest \<noteq> []" "hd rest \<noteq> quote fmt"
  shows "csv_record fmt fnull fnot n seen (concat (map (csv_escape fmt) s) @ quote fmt # rest) cells v True True
    = csv_record fmt fnull fnot n seen rest cells (v @ s) True False"
  using assms by (induction s arbitrary: v) (auto simp: csv_escape_def)

lemma csv_record_cell:
  assumes "csv_format_ok fmt" "csv_cell_ok fmt fnull fnot (length cells) x" "rest \<noteq> []" "hd rest \<noteq> quote fmt"
  obtains v quoted where "csv_record fmt fnull fnot n seen (csv_cell fmt x @ rest) cells [] False False
      = csv_record fmt fnull fnot n seen rest cells v quoted False" and "csv_field fmt fnull fnot v quoted (length cells) = snd x"
proof (cases rule: csv_cell_ok.cases [of "(fmt, fnull, fnot, length cells, x)"])
  case (1 _ _ _ _ q)
  then have "set (null_text fmt) \<inter> {10, 13, delimiter fmt, quote fmt} = {}" using assms(1) by (simp add: csv_format_ok_def)
  from csv_record_bare [OF this] show thesis using that [of "null_text fmt" False] 1 assms(2) by (simp add: csv_field_def)
next
  case (2 _ _ _ _ s)
  then show thesis using that [of s True] csv_record_quoted [OF assms(3,4), of fnull fnot n seen s cells "[]"] assms(1,2)
    by (auto simp: csv_field_def csv_format_ok_def)
next
  case (3 _ _ _ _ s)
  then have "set s \<inter> {10, 13, delimiter fmt, quote fmt} = {}" using assms(2) by simp
  from csv_record_bare [OF this] show thesis using that [of s False] 3 assms(2) by (simp add: csv_field_def)
qed

lemma csv_record_end:
  assumes "seen = None \<or> seen = Some e" "after_eol e rest"
  shows "csv_record fmt fnull fnot n seen (eol e @ rest) cells v quoted False
    = ok (cells @ [csv_field fmt fnull fnot v quoted (length cells)], rest, Some e)"
proof -
  obtain c cs where c: "eol e = c # cs" "c = 10 \<or> c = 13" by (cases e) auto
  then show ?thesis using line_end_eol [OF assms, of n] by simp
qed

lemma csv_record_line:
  assumes "csv_format_ok fmt" "seen = None \<or> seen = Some e" "after_eol e rest"
  shows "csv_cells_ok fmt fnull fnot (length cells) r \<Longrightarrow> r \<noteq> [] \<Longrightarrow>
    csv_record fmt fnull fnot n seen (csv_line fmt r @ eol e @ rest) cells [] False False = ok (cells @ map snd r, rest, Some e)"
proof (induction r arbitrary: cells)
  case (Cons x r)
  define more where "more = (if r = [] then eol e @ rest else delimiter fmt # csv_line fmt r @ eol e @ rest)"
  have "more \<noteq> []" "hd more \<noteq> quote fmt" using assms(1) by (cases e; auto simp: more_def csv_format_ok_def)+
  with csv_record_cell [OF assms(1), of fnull fnot cells x more n seen] Cons.prems(1) obtain v quoted where
    v: "csv_record fmt fnull fnot n seen (csv_cell fmt x @ more) cells [] False False
      = csv_record fmt fnull fnot n seen more cells v quoted False" "csv_field fmt fnull fnot v quoted (length cells) = snd x"
    by auto
  have l: "csv_line fmt (x # r) @ eol e @ rest = csv_cell fmt x @ more" by (cases r) (simp_all add: csv_line_def more_def)
  show ?case
  proof (cases "r = []")
    case True
    then show ?thesis unfolding l using v csv_record_end [OF assms(2,3)] by (simp add: more_def)
  next
    case False
    then show ?thesis unfolding l using v Cons.IH [of "cells @ [snd x]"] Cons.prems assms(1) by (simp add: more_def csv_format_ok_def)
  qed
qed simp

lemma csv_line_start:
  assumes "csv_fits fmt fnull fnot r" "csv_line fmt r \<noteq> []"
  shows "hd (csv_line fmt r) \<noteq> 10"
proof -
  obtain x r' where r: "r = x # r'" using assms(1) by (cases r) (auto simp: csv_fits_def)
  have "csv_cell fmt x \<noteq> [] \<Longrightarrow> hd (csv_cell fmt x) \<noteq> 10"
    using assms(1) r by (cases rule: csv_cell_ok.cases [of "(fmt, fnull, fnot, 0, x)"])
      (auto simp: csv_fits_def csv_format_ok_def dest!: hd_in_set)
  then show ?thesis using assms r by (cases r') (auto simp: csv_line_def csv_fits_def csv_format_ok_def hd_append)
qed

interpretation csv_reader: record_reader "\<lambda>n seen chars. csv_record fmt fnull fnot n seen chars [] [] False False"
    "csv_rows_from fmt fnull fnot" "header fmt" "csv_line fmt" "map snd" "csv_fits fmt fnull fnot" for fmt fnull fnot
proof unfold_locales
  show "csv_rows_from fmt fnull fnot k seen chars = (if chars = [] then ok []
       else case csv_record fmt fnull fnot (k + 1) seen chars [] [] False False of
         Inl e \<Rightarrow> Inl e
       | Inr (cells, rest, seen') \<Rightarrow>
           res_bind (csv_rows_from fmt fnull fnot (k + 1) seen' rest) (\<lambda>rows. ok (if header fmt \<and> k + 1 = 1 then rows else cells # rows)))"
    for k seen chars by (rule csv_rows_from.simps)
qed (auto simp: csv_fits_def csv_record_line csv_line_start)

text \<open>
  C26. What PostgreSQL writes as CSV is read back exactly: under any CSV options the translator
  accepts, whichever fields are quoted, rows that follow the format's rules for nulls, \<open>FORCE_NULL\<close> and
  \<open>FORCE_NOT_NULL\<close>, with any one line ending, decode to the same values and nulls, less the header row
  when one is announced.
\<close>

theorem copy_csv_round_trip:
  assumes "format_new shown csv_shown options legacy = ok fmt" and "kind fmt = KCsv" and "quote fmt \<notin> {10, 13}"
    and "positions (force_null fmt) columns ''FORCE_NULL'' = ok fnull"
    and "positions (force_not_null fmt) columns ''FORCE_NOT_NULL'' = ok fnot"
    and "\<forall>r\<in>set rows. r \<noteq> [] \<and> csv_cells_ok fmt fnull fnot 0 r"
  shows "csv_rows (payload_of (csv_line fmt) e rows) fmt columns = ok (if header fmt then tl (map (map snd) rows) else map (map snd) rows)"
proof -
  have "csv_format_ok fmt" using format_new_checked [OF assms(1)] assms(2,3) by (auto simp: csv_format_ok_def)
  then have "list_all (csv_fits fmt fnull fnot) rows" using assms(6) by (simp add: csv_fits_def list_all_iff)
  then show ?thesis using csv_reader.rows_from_payload [of fmt fnull fnot rows None e 0] assms(4,5) by (simp add: csv_rows_def)
qed

theorem copy_csv_round_trip_witness:
  "let fmt = \<lparr>kind = KCsv, delimiter = 44, null_text = [], header = True, quote = 34, escape = 92,
      force_null = [], force_not_null = [bare_ident ''b'']\<rparr> in
   csv_rows (payload_of (csv_line fmt) Lf [[(False, Some (ucs ''a'')), (False, Some (ucs ''b''))],
        [(False, None), (True, Some [34, 92, 10])], [(True, Some []), (False, Some [])]]) fmt [bare_ident ''a'', bare_ident ''B'']
     = ok [[None, Some [34, 92, 10]], [Some [], Some []]]"
proof -
  let ?fmt = "\<lparr>kind = KCsv, delimiter = 44, null_text = [], header = True, quote = 34, escape = 92,
      force_null = [], force_not_null = [bare_ident ''b'']\<rparr>"
  let ?rows = "[[(False, Some (ucs ''a'')), (False, Some (ucs ''b''))],
        [(False, None), (True, Some [34, 92, 10])], [(True, Some []), (False, Some [])]]"
  have f: "format_new (\<lambda>_. []) (\<lambda>_. []) [] [LoCsv [LcHeader, LcEscape 92, LcForceNotNull [bare_ident ''b'']]] = ok ?fmt"
    by (simp add: format_new_def once_def written_default_def check_written_def unwrap_or_def)
  have p: "positions (force_not_null ?fmt) [bare_ident ''a'', bare_ident ''B''] ''FORCE_NOT_NULL'' = ok [1]" by code_simp
  have "\<forall>r\<in>set ?rows. r \<noteq> [] \<and> csv_cells_ok ?fmt [] [1] 0 r" by (simp add: ucs_def)
  with copy_csv_round_trip [OF f _ _ _ p, of "[]" ?rows Lf] show ?thesis by (simp add: ok_def)
qed


section \<open>The rows that are inserted\<close>

fun valid_cell :: "ustring option \<Rightarrow> bool" where
  "valid_cell None = True"
| "valid_cell (Some s) = list_all is_scalar s"

lemma two_bytes_scalar: "b < 0xE0 \<Longrightarrow> continuation b1 \<Longrightarrow> is_scalar ((b - 0xC0) * 64 + (b1 - 0x80))"
  by (auto simp: continuation_def is_scalar_def)

lemma from_utf8_scalar: "from_utf8 bs = Some cs \<Longrightarrow> list_all is_scalar cs"
proof (induction bs arbitrary: cs rule: from_utf8.induct)
  case (2 b bs)
  have one: "is_scalar b" if "b < 0x80" using that by (simp add: is_scalar_def)
  show ?case
    using 2(5) [unfolded from_utf8.simps(2) [of b bs]] 2(1-4) one
    by (auto simp: two_bytes_scalar Let_def simp del: from_utf8.simps split: if_splits list.splits)
qed simp

lemma text_field_valid: "text_field raw v fmt n = Inr x \<Longrightarrow> valid_cell x"
proof (cases "from_utf8 v")
  case (Some s)
  moreover assume "text_field raw v fmt n = Inr x"
  ultimately have "x = None \<or> x = Some s" by (auto simp: text_field_def split: if_splits)
  then show ?thesis using from_utf8_scalar [OF Some] by auto
qed (auto simp: text_field_def split: if_splits)

lemma text_record_valid:
  "text_record fmt n seen chars cells raw v = Inr (cells', rest, seen') \<Longrightarrow> list_all valid_cell cells \<Longrightarrow> list_all valid_cell cells'"
proof (induction fmt n seen chars cells raw v rule: text_record.induct)
  case (2 fmt n seen c chars cells raw v)
  consider "c = 10 \<or> c = 13" | "c \<noteq> 10" "c \<noteq> 13" "c = delimiter fmt" | "c \<noteq> 10" "c \<noteq> 13" "c \<noteq> delimiter fmt" "c = 92"
    | "c \<noteq> 10" "c \<noteq> 13" "c \<noteq> delimiter fmt" "c \<noteq> 92" by blast
  then show ?case
  proof cases
    case 1
    then show ?thesis using 2(4,5) by (auto simp: res_bind_eq_ok text_field_valid)
  next
    case c: 2
    then show ?thesis using 2(1,4,5) by (auto simp: res_bind_eq_ok text_field_valid)
  next
    case 3
    then show ?thesis using 2(2,4,5) by (auto simp: res_bind_eq_ok text_field_valid split: list.splits prod.splits)
  next
    case 4
    then show ?thesis using 2(3,4,5) by simp
  qed
qed (auto simp: res_bind_eq_ok text_field_valid)

lemma text_rows_valid:
  "text_rows_from fmt k seen chars = Inr rows \<Longrightarrow> list_all (list_all valid_cell) rows"
proof (induction fmt k seen chars arbitrary: rows rule: text_rows_from.induct)
  case (1 fmt k seen chars)
  show ?case
    using 1(2) text_rows_from.simps [of fmt k seen chars] 1(1)
    by (auto simp: res_bind_eq_ok dest: text_record_valid split: if_splits sum.splits prod.splits)
qed

lemma line_end_suffix: "line_end c chars seen n = Inr (rest, s) \<Longrightarrow> set rest \<subseteq> set chars"
  by (auto simp: line_end_def Let_def dest: list.set_sel(2) split: if_splits)

lemma csv_field_valid: "list_all is_scalar v \<Longrightarrow> valid_cell (csv_field fmt fnull fnot v quoted p)"
  by (simp add: csv_field_def)

lemma csv_record_valid:
  "csv_record fmt fnull fnot n seen chars cells v quoted in_quotes = Inr (cells', rest, seen') \<Longrightarrow>
     list_all valid_cell cells \<Longrightarrow> list_all is_scalar v \<Longrightarrow> list_all is_scalar chars
     \<Longrightarrow> list_all valid_cell cells' \<and> list_all is_scalar rest"
proof (induction fmt fnull fnot n seen chars cells v quoted in_quotes rule: csv_record.induct)
  case (2 fmt fnull fnot n seen c chars cells v quoted in_quotes)
  have tl: "list_all is_scalar (tl chars)" "chars \<noteq> [] \<Longrightarrow> is_scalar (hd chars)" "list_all is_scalar chars" "is_scalar c"
    using 2(10) by (cases chars; simp)+
  show ?case
  proof (cases in_quotes)
    case True
    then show ?thesis using 2(1-3) 2(7-9) tl by (auto split: if_splits)
  next
    case False
    have "list_all is_scalar rest" if "line_end c chars seen n = Inr (rest, s)" for rest s
      using line_end_suffix [OF that] tl(3) by (auto simp: list_all_iff)
    then show ?thesis using False 2(4-9) tl
      by (auto simp: res_bind_eq_ok csv_field_valid split: if_splits)
  qed
qed (auto simp: csv_field_valid split: if_splits)

lemma csv_rows_valid:
  "csv_rows_from fmt fnull fnot k seen chars = Inr rows \<Longrightarrow> list_all is_scalar chars \<Longrightarrow> list_all (list_all valid_cell) rows"
proof (induction fmt fnull fnot k seen chars arbitrary: rows rule: csv_rows_from.induct)
  case (1 fmt fnull fnot k seen chars)
  show ?case
    using 1(2,3) csv_rows_from.simps [of fmt fnull fnot k seen chars] 1(1)
    by (auto simp: res_bind_eq_ok dest!: csv_record_valid split: if_splits sum.splits prod.splits)
qed

text \<open>
  C27. Every \<open>INSERT\<close> a \<open>COPY\<close> becomes is well formed: it has a row, each of its rows gives every column
  one value, and each value is null or a text of Unicode scalar values, although the text format lets
  a payload spell arbitrary bytes.
\<close>

theorem copied_rows_are_well_formed:
  assumes "copy_insert shown csv_shown columns_of cp = ok (Some i)"
    and "list_all is_scalar (payload_data (the (cp_payload cp)))"
  shows "ins_values i \<noteq> [] \<and> (\<forall>r\<in>set (ins_values i). length r = length (ins_columns i)
    \<and> (\<forall>x\<in>set r. x = CopyNull \<or> (\<exists>s. x = CopyString s \<and> list_all is_scalar s)))"
proof -
  have valid: "x = CopyNull \<or> (\<exists>s. x = CopyString s \<and> list_all is_scalar s)" if "x \<in> field_value ` set r" "list_all valid_cell r" for x r
  proof -
    from that(1) obtain y where "y \<in> set r" "x = field_value y" by blast
    with that(2) show ?thesis by (cases y) (auto simp: list_all_iff)
  qed
  obtain rows where rows: "rows \<noteq> []" "find_index (\<lambda>cells. length cells \<noteq> length (ins_columns i)) rows = None"
      "ins_values i = map (map field_value) rows" "list_all (list_all valid_cell) rows"
    using assms by (auto simp: copy_insert_def res_bind_eq_ok text_rows_def csv_rows_def
        dest: text_rows_valid csv_rows_valid split: copy_source.splits if_splits option.splits copy_kind.splits)
  then show ?thesis using valid by (auto simp: find_index_None_iff list_all_iff)
qed

theorem copied_rows_are_well_formed_witness:
  "copy_insert (\<lambda>_. []) (\<lambda>_. []) (\<lambda>_. ok []) \<lparr>cp_source = CopyTable [Identifier (bare_ident ''t'')] [bare_ident ''a''], cp_to = False,
      cp_target = Stdin, cp_options = [], cp_legacy_options = [], cp_payload = Some \<lparr>payload_data = [92, 120, 52, 49, 10], terminated = True\<rparr>\<rparr>
    = ok (Some \<lparr>ins_table = [Identifier (bare_ident ''t'')], ins_columns = [bare_ident ''a''], ins_values = [[CopyString [65]]]\<rparr>)
   \<and> length [CopyString [65]] = length [bare_ident ''a'']"
proof -
  let ?cp = "\<lparr>cp_source = CopyTable [Identifier (bare_ident ''t'')] [bare_ident ''a''], cp_to = False,
      cp_target = Stdin, cp_options = [], cp_legacy_options = [], cp_payload = Some \<lparr>payload_data = [92, 120, 52, 49, 10], terminated = True\<rparr>\<rparr>"
  have "copy_insert (\<lambda>_. []) (\<lambda>_. []) (\<lambda>_. ok []) ?cp
    = ok (Some \<lparr>ins_table = [Identifier (bare_ident ''t'')], ins_columns = [bare_ident ''a''], ins_values = [[CopyString [65]]]\<rparr>)"
    by code_simp
  from this copied_rows_are_well_formed [OF this] show ?thesis by (simp add: is_scalar_def)
qed

end
