(* ===== verification/Sql_Exprs.thy ===== *)
theory Sql_Exprs
  imports Sql_Ast
begin

text \<open>
  The part of the expression type of the syntax-tree crate that the modelled rewritings look into, and
  the builders of \<open>src/src/impls/function_helpers.rs\<close> and \<open>src/src/impls/expr_helpers.rs\<close> they use. A node
  none of them looks into is \<open>EOther\<close>, with its spelling and the expressions below it. Source positions,
  which do not take part in the equality of the crate's nodes, are left out. A window and a clause of an
  argument list are a spelling and the expressions in it; a query is a spelling.
\<close>

datatype (plugins only: code size) exact_number_info = ExNone | ExPrecision nat | ExPrecisionAndScale nat int

datatype (plugins only: code size) tz_info = TzUnstated | TzWith | TzWithout | TzShort

datatype (plugins only: code size) sql_type =
    TInt "nat option" | TInteger "nat option" | TInt4 "nat option" | TSmallInt "nat option" | TInt2 "nat option"
  | TBigInt "nat option" | TInt8 "nat option" | TNumeric exact_number_info | TDecimal exact_number_info
  | TDec exact_number_info | TReal | TFloat4 | TDoublePrecision | TFloat8 | TVarchar "string option"
  | TCharacterVarying "string option" | TChar "string option" | TCharacter "string option" | TBool | TBoolean
  | TVarBit "nat option" | TBitVarying "nat option" | TTimestamp "nat option" tz_info | TTime "nat option" tz_info
  | TText | TUuid | TCustom object_name "string list" | TOther string

datatype (plugins only: code size) sql_literal =
    LNumber string bool | LSingleQuoted string | LByteString string | LHexString string | LBoolean bool | LNull
  | LPlaceholder string | LOther string

datatype (plugins only: code size) binary_operator =
    OpPlus | OpMinus | OpMultiply | OpDivide | OpModulo | OpEq | OpNotEq | OpLt | OpLtEq | OpGt | OpGtEq | OpAnd | OpOr | OpXor
  | OpStringConcat | OpOther string

datatype (plugins only: code size) unary_operator = UnNot | UnMinus | UnPlus | UnOther string

datatype (plugins only: code size) cast_kind = PlainCast | DoubleColon | OtherCast string

datatype (plugins only: code size) trim_where = TrimBoth | TrimLeading | TrimTrailing

datatype (plugins only: code size) expr =
    EIdentifier ident
  | ECompoundIdentifier "ident list"
  | ECollate expr object_name
  | EValue sql_literal
  | ENested expr
  | EBinaryOp expr binary_operator expr
  | EUnaryOp unary_operator expr
  | EIsNull expr
  | EIsNotNull expr
  | EIsTrue expr
  | EIsNotTrue expr
  | EIsDistinctFrom expr expr
  | EIsNotDistinctFrom expr expr
  | EInList expr "expr list" bool
  | ECase "expr option" "(expr \<times> expr) list" "expr option"
  | ECast cast_kind expr sql_type "string option"
  | EFunction func
  | EAnyOp expr binary_operator expr bool
  | EAllOp expr binary_operator expr
  | ESubstring expr "expr option" "expr option" bool bool
  | ETrim expr "trim_where option" "expr option" "expr list option"
  | ESubquery string
  | EExists string
  | EInSubquery expr string
  | EOther string "expr list"
and func = Func (f_name: object_name) (f_odbc: bool) (f_parameters: func_args) (f_args: func_args) (f_filter: "expr option")
    (f_null_treatment: "bool option") (f_over: "(string \<times> expr list) option") (f_within_group: "expr list")
and func_args = ArgsNone | ArgsSubquery string | ArgsList "bool option" "func_arg list" "(string \<times> expr list) list"
and func_arg = ArgUnnamed func_arg_expr | ArgNamed ident func_arg_expr | ArgExprNamed expr func_arg_expr
and func_arg_expr = ArgExpr expr | ArgQualifiedWildcard object_name | ArgWildcard

section \<open>Builders\<close>

definition unnamed_arg :: "expr \<Rightarrow> func_arg" where
  "unnamed_arg e = ArgUnnamed (ArgExpr e)"

definition string_literal :: "string \<Rightarrow> expr" where
  "string_literal s = EValue (LSingleQuoted s)"

fun single_quoted_literal :: "expr \<Rightarrow> string option" where
  "single_quoted_literal (EValue (LSingleQuoted s)) = Some s"
| "single_quoted_literal _ = None"

definition number_literal :: "string \<Rightarrow> expr" where
  "number_literal n = EValue (LNumber n False)"

definition integer_literal :: "int \<Rightarrow> expr" where
  "integer_literal v = EValue (LNumber (show_int v) False)"

definition simple_function_expr :: "string \<Rightarrow> expr list \<Rightarrow> (string \<times> expr list) option \<Rightarrow> expr" where
  "simple_function_expr name args over = EFunction (Func [Identifier (bare_ident name)] False ArgsNone
     (ArgsList None (map unnamed_arg args) []) None None over [])"

definition case_when :: "expr \<Rightarrow> expr \<Rightarrow> expr option \<Rightarrow> expr" where
  "case_when cond then_expr else_expr = ECase None [(cond, then_expr)] else_expr"

definition not_predicate :: "expr \<Rightarrow> expr" where
  "not_predicate e = EUnaryOp UnNot (ENested e)"

definition expr_concat :: "expr \<Rightarrow> expr \<Rightarrow> expr" where
  "expr_concat left right = EBinaryOp left OpStringConcat right"

text \<open>One positional argument written as a bare expression.\<close>

fun unnamed_argument :: "func_arg \<Rightarrow> expr option" where
  "unnamed_argument (ArgUnnamed (ArgExpr e)) = Some e"
| "unnamed_argument _ = None"

lemmas builder_defs = unnamed_arg_def string_literal_def number_literal_def integer_literal_def
  simple_function_expr_def case_when_def not_predicate_def expr_concat_def bare_ident_def

lemma simple_function_expr_eq_iff [simp]:
  "simple_function_expr n as ov = simple_function_expr n' as' ov' \<longleftrightarrow> n = n' \<and> as = as' \<and> ov = ov'"
  by (auto simp: builder_defs inj_map_eq_map inj_def)

lemma single_quoted_literal_Some_iff: "single_quoted_literal e = Some s \<longleftrightarrow> e = string_literal s"
  by (cases e rule: single_quoted_literal.cases) (auto simp: string_literal_def)

lemma unnamed_argument_Some_iff: "unnamed_argument a = Some e \<longleftrightarrow> a = unnamed_arg e"
  by (cases a rule: unnamed_argument.cases) (auto simp: unnamed_arg_def)

end
