(* ===== verification/Idioms.thy ===== *)
theory Idioms
  imports Sql_Exprs
begin

text \<open>
  The SQLite shapes the translator invents for PostgreSQL constructs and reads back:
  \<open>src/src/impls/idioms.rs\<close>, each builder with its recognizer. A recognizer that rebuilds and compares
  accepts exactly what its builder makes. The search emitted for a membership test over delimited text
  is evaluated by SQLite's rules and compared with what PostgreSQL answers.
\<close>

section \<open>Builders and recognizers\<close>

definition wrap_with_lower :: "expr \<Rightarrow> expr" where
  "wrap_with_lower e = simple_function_expr ''lower'' [e] None"

text \<open>The single positional argument of a call, which two recognizers start from.\<close>

definition only_argument :: "func_args \<Rightarrow> expr option" where
  "only_argument args = (case args of ArgsList dup [a] clauses \<Rightarrow> unnamed_argument a | _ \<Rightarrow> None)"

definition forward_lower_argument :: "expr \<Rightarrow> expr option" where
  "forward_lower_argument e =
     (case e of
        EFunction f \<Rightarrow>
          (case only_argument (f_args f) of
             None \<Rightarrow> None
           | Some argument \<Rightarrow> if wrap_with_lower argument = e then Some argument else None)
      | _ \<Rightarrow> None)"

definition uniform_random_float :: expr where
  "uniform_random_float =
     EBinaryOp (ENested (EBinaryOp (ECast PlainCast (simple_function_expr ''random'' [] None) TReal None) OpPlus
       (number_literal ''9223372036854775808.0''))) OpDivide (number_literal ''18446744073709551616.0'')"

definition is_random_call :: "func \<Rightarrow> bool" where
  "is_random_call f \<longleftrightarrow> map_option (\<lambda>i. to_ascii_lowercase (ident_value i)) (last_ident (f_name f)) = Some ''random''
     \<and> (case f_args f of ArgsList _ args _ \<Rightarrow> args = [] | _ \<Rightarrow> False)"

definition is_number :: "string \<Rightarrow> expr \<Rightarrow> bool" where
  "is_number n e = (case e of EValue (LNumber digits _) \<Rightarrow> digits = n | _ \<Rightarrow> False)"

definition is_random_cast :: "expr \<Rightarrow> bool" where
  "is_random_cast e = (case e of
     ECast k inner t fmt \<Rightarrow> k = PlainCast \<and> t = TReal \<and> (case inner of EFunction f \<Rightarrow> is_random_call f | _ \<Rightarrow> False)
   | _ \<Rightarrow> False)"

definition is_shifted_random :: "expr \<Rightarrow> bool" where
  "is_shifted_random e = (case e of
     EBinaryOp cast_expr op addend \<Rightarrow> op = OpPlus \<and> is_number ''9223372036854775808.0'' addend \<and> is_random_cast cast_expr
   | _ \<Rightarrow> False)"

definition is_uniform_random_float :: "expr \<Rightarrow> bool" where
  "is_uniform_random_float e = (case e of
     EBinaryOp left op right \<Rightarrow> op = OpDivide \<and> is_number ''18446744073709551616.0'' right
       \<and> (case left of ENested inner \<Rightarrow> is_shifted_random inner | _ \<Rightarrow> False)
   | _ \<Rightarrow> False)"

definition now_localtime_args :: "expr list" where
  "now_localtime_args = [string_literal ''now'', string_literal ''localtime'']"

definition is_now_localtime_args :: "func_args \<Rightarrow> bool" where
  "is_now_localtime_args args = (case args of
     ArgsList dup [first, second] clauses \<Rightarrow>
       Option.bind (unnamed_argument first) single_quoted_literal = Some ''now''
       \<and> Option.bind (unnamed_argument second) single_quoted_literal = Some ''localtime''
   | _ \<Rightarrow> False)"

definition ascii_code_point :: "expr \<Rightarrow> expr" where
  "ascii_code_point e = case_when (EBinaryOp e OpEq (string_literal [])) (integer_literal 0)
     (Some (simple_function_expr ''unicode'' [e] None))"

definition ascii_code_point_argument :: "expr \<Rightarrow> expr option" where
  "ascii_code_point_argument e =
     (case e of
        ECase operand conditions (Some else_result) \<Rightarrow>
          (case else_result of
             EFunction f \<Rightarrow>
               (case only_argument (f_args f) of
                  None \<Rightarrow> None
                | Some argument \<Rightarrow> if ascii_code_point argument = e then Some argument else None)
           | _ \<Rightarrow> None)
      | _ \<Rightarrow> None)"

definition surrounded :: "char \<Rightarrow> expr \<Rightarrow> expr" where
  "surrounded d inner = expr_concat (expr_concat (string_literal [d]) inner) (string_literal [d])"

definition delimited_membership :: "expr \<Rightarrow> expr \<Rightarrow> char \<Rightarrow> bool \<Rightarrow> expr" where
  "delimited_membership left text_expr d negated =
     (let whole_element = EBinaryOp (simple_function_expr ''instr'' [left, string_literal [d]] None) OpEq (integer_literal 0);
          text_is_present = EIsNotNull text_expr;
          text_is_split = EBinaryOp text_expr OpNotEq (string_literal []);
          found = EBinaryOp (simple_function_expr ''instr'' [surrounded d text_expr, surrounded d left] None) OpGt (integer_literal 0);
          membership = EBinaryOp (EBinaryOp text_is_split OpAnd whole_element) OpAnd found;
          guarded = case_when text_is_present membership None
      in if negated then not_predicate guarded else guarded)"

record membership_operands =
  m_left :: expr
  m_text :: expr
  m_delimiter :: char
  m_negated :: bool

fun single_character :: "string \<Rightarrow> char option" where
  "single_character [c] = Some c"
| "single_character _ = None"

definition as_concat :: "expr \<Rightarrow> (expr \<times> expr) option" where
  "as_concat e = (case e of EBinaryOp l op r \<Rightarrow> if op = OpStringConcat then Some (l, r) else None | _ \<Rightarrow> None)"

definition surrounded_operand :: "expr \<Rightarrow> (char \<times> expr) option" where
  "surrounded_operand e =
     (case as_concat e of
        None \<Rightarrow> None
      | Some (inner, _) \<Rightarrow>
          (case as_concat inner of
             None \<Rightarrow> None
           | Some (delimiter_expr, operand) \<Rightarrow>
               map_option (\<lambda>d. (d, operand)) (Option.bind (single_quoted_literal delimiter_expr) single_character)))"

text \<open>The body under the negation, if any.\<close>

definition membership_body :: "expr \<Rightarrow> (expr \<times> bool) option" where
  "membership_body e = (case e of
     EUnaryOp op nested \<Rightarrow>
       if op = UnNot then (case nested of ENested inner \<Rightarrow> Some (inner, True) | _ \<Rightarrow> None) else Some (e, False)
   | _ \<Rightarrow> Some (e, False))"

text \<open>The two arguments of the search in the last conjunct of the only branch.\<close>

definition search_arguments :: "expr \<Rightarrow> (expr \<times> expr) option" where
  "search_arguments body = (case body of
     ECase operand [(cond, result)] els \<Rightarrow>
       (case result of
          EBinaryOp l op found \<Rightarrow>
            (case found of
               EBinaryOp search op' r \<Rightarrow>
                 (case search of
                    EFunction f \<Rightarrow>
                      (case f_args f of
                         ArgsList dup [a, b] clauses \<Rightarrow>
                           (case (unnamed_argument a, unnamed_argument b) of
                              (Some text_expr, Some left) \<Rightarrow> Some (text_expr, left)
                            | _ \<Rightarrow> None)
                       | _ \<Rightarrow> None)
                  | _ \<Rightarrow> None)
             | _ \<Rightarrow> None)
        | _ \<Rightarrow> None)
   | _ \<Rightarrow> None)"

definition delimited_membership_operands :: "expr \<Rightarrow> membership_operands option" where
  "delimited_membership_operands e =
     (case membership_body e of
        None \<Rightarrow> None
      | Some (body, negated) \<Rightarrow>
          (case search_arguments body of
             None \<Rightarrow> None
           | Some (t, l) \<Rightarrow>
               (case surrounded_operand t of
                  None \<Rightarrow> None
                | Some (d, text_expr) \<Rightarrow>
                    (case surrounded_operand l of
                       None \<Rightarrow> None
                     | Some (_, left) \<Rightarrow>
                         if delimited_membership left text_expr d negated = e
                         then Some \<lparr>m_left = left, m_text = text_expr, m_delimiter = d, m_negated = negated\<rparr> else None))))"

definition nullif_empty_json_array :: "expr \<Rightarrow> expr" where
  "nullif_empty_json_array aggregate = simple_function_expr ''NULLIF'' [aggregate, string_literal ''[]''] None"

definition nullif_empty_json_object :: "expr \<Rightarrow> expr" where
  "nullif_empty_json_object aggregate = simple_function_expr ''NULLIF'' [aggregate, string_literal ''{}''] None"

definition extract_nullif_wrapped :: "func \<Rightarrow> string \<Rightarrow> string \<Rightarrow> func option" where
  "extract_nullif_wrapped f inner_name sentinel =
     (case last_ident (f_name f) of
        None \<Rightarrow> None
      | Some outer \<Rightarrow>
          if \<not> eq_ignore_ascii_case (ident_value outer) ''nullif'' then None
          else (case f_args f of
            ArgsList dup [first, second] clauses \<Rightarrow>
              (case unnamed_argument first of
                 Some (EFunction inner) \<Rightarrow>
                   (case last_ident (f_name inner) of
                      None \<Rightarrow> None
                    | Some found \<Rightarrow>
                        if \<not> eq_ignore_ascii_case (ident_value found) inner_name then None
                        else if Option.bind (unnamed_argument second) single_quoted_literal = Some sentinel then Some inner else None)
               | _ \<Rightarrow> None)
          | _ \<Rightarrow> None))"

definition extract_json_group_array_nullif :: "func \<Rightarrow> func option" where
  "extract_json_group_array_nullif f = extract_nullif_wrapped f ''json_group_array'' ''[]''"

definition extract_json_group_object_nullif :: "func \<Rightarrow> func option" where
  "extract_json_group_object_nullif f = extract_nullif_wrapped f ''json_group_object'' ''{}''"

section \<open>What the recognizers accept\<close>

lemmas recognizer_defs = forward_lower_argument_def ascii_code_point_argument_def only_argument_def surrounded_operand_def
  as_concat_def membership_body_def search_arguments_def delimited_membership_operands_def

lemma lower_recognised: "forward_lower_argument e = Some a \<longleftrightarrow> e = wrap_with_lower a"
proof
  show "forward_lower_argument e = Some a" if "e = wrap_with_lower a"
    using that by (simp add: recognizer_defs wrap_with_lower_def builder_defs)
  show "e = wrap_with_lower a" if "forward_lower_argument e = Some a"
    using that by (cases e) (auto simp: forward_lower_argument_def split: option.splits if_splits)
qed

lemma ascii_recognised: "ascii_code_point_argument e = Some a \<longleftrightarrow> e = ascii_code_point a"
proof
  show "ascii_code_point_argument e = Some a" if "e = ascii_code_point a"
    using that by (simp add: recognizer_defs ascii_code_point_def builder_defs)
  show "e = ascii_code_point a" if "ascii_code_point_argument e = Some a"
    using that by (auto simp: ascii_code_point_argument_def split: expr.splits option.splits if_splits)
qed

lemma random_recognised: "is_uniform_random_float uniform_random_float"
  by code_simp

lemma now_localtime_recognised: "is_now_localtime_args (ArgsList dup (map unnamed_arg now_localtime_args) clauses)"
  by (simp add: is_now_localtime_args_def now_localtime_args_def builder_defs)

lemma surrounded_recognised [simp]: "surrounded_operand (surrounded d e) = Some (d, e)"
  by (simp add: surrounded_def recognizer_defs builder_defs)

lemma search_arguments_built:
  "search_arguments (case_when p (EBinaryOp l op (EBinaryOp (simple_function_expr n [t, x] ov) op' r)) els) = Some (t, x)"
  by (simp add: search_arguments_def builder_defs)

lemma membership_body_built:
  "membership_body (case_when p x y) = Some (case_when p x y, False)" "membership_body (not_predicate p) = Some (p, True)"
  by (simp_all add: membership_body_def builder_defs)

lemma membership_recognised:
  "delimited_membership_operands e = Some m \<longleftrightarrow> e = delimited_membership (m_left m) (m_text m) (m_delimiter m) (m_negated m)"
proof
  assume e: "e = delimited_membership (m_left m) (m_text m) (m_delimiter m) (m_negated m)"
  show "delimited_membership_operands e = Some m"
    unfolding e by (simp add: delimited_membership_operands_def delimited_membership_def Let_def search_arguments_built membership_body_built)
qed (auto simp: delimited_membership_operands_def split: option.splits prod.splits if_splits)

lemma nullif_spelling: "eq_ignore_ascii_case ''NULLIF'' ''nullif''"
  by code_simp

lemma nullif_recognised:
  assumes "last_ident (f_name f) = Some i"
  shows "eq_ignore_ascii_case (ident_value i) ''json_group_array'' \<Longrightarrow>
      \<exists>g. nullif_empty_json_array (EFunction f) = EFunction g \<and> extract_json_group_array_nullif g = Some f"
    "eq_ignore_ascii_case (ident_value i) ''json_group_object'' \<Longrightarrow>
      \<exists>g. nullif_empty_json_object (EFunction f) = EFunction g \<and> extract_json_group_object_nullif g = Some f"
  using assms by (simp_all add: nullif_empty_json_array_def nullif_empty_json_object_def extract_json_group_array_nullif_def
      extract_json_group_object_nullif_def extract_nullif_wrapped_def builder_defs last_ident_def nullif_spelling)

text \<open>
  What the translator invents it reads back, and nothing else: the recognizers of the case fold, of
  \<open>ascii\<close> and of the membership search accept exactly what their builders make, with the operands they
  were built from, and those of the uniform random number and of the local clock accept theirs.
\<close>

lemma idioms_are_read_back:
  "(forward_lower_argument e = Some a \<longleftrightarrow> e = wrap_with_lower a)
   \<and> (ascii_code_point_argument e = Some a \<longleftrightarrow> e = ascii_code_point a)
   \<and> (delimited_membership_operands e = Some m
        \<longleftrightarrow> e = delimited_membership (m_left m) (m_text m) (m_delimiter m) (m_negated m))
   \<and> is_uniform_random_float uniform_random_float
   \<and> is_now_localtime_args (ArgsList dup (map unnamed_arg now_localtime_args) clauses)"
  by (simp add: lower_recognised ascii_recognised membership_recognised random_recognised now_localtime_recognised)

end
