(* ===== verification/Sqlite_Eval.thy ===== *)
theory Sqlite_Eval
  imports Sql_Exprs
begin

text \<open>
  What SQLite answers to an expression, for the operators and functions the modelled rewritings emit, by
  the rules of its manual. A value is null, a 64-bit integer or a text. An answer outside these rules (a
  real, an implicit conversion, an integer overflow, an error) is \<open>None\<close>, and the whole expression then
  has the answer \<open>env\<close> gives it. \<open>env\<close> is also the answer to every node the rules do not know, the same for
  every reading of the same expression, which is what replaying an operand means.
\<close>

section \<open>Values and operators\<close>

datatype (plugins only: code size) sval = SNull | SInt int | SText string

definition of_truth :: "bool option \<Rightarrow> sval" where
  "of_truth b = (case b of None \<Rightarrow> SNull | Some t \<Rightarrow> SInt (if t then 1 else 0))"

text \<open>The truth value of an answer; texts, which SQLite first reads as numbers, are outside.\<close>

fun truth :: "sval \<Rightarrow> bool option option" where
  "truth SNull = Some None"
| "truth (SInt n) = Some (Some (n \<noteq> 0))"
| "truth (SText s) = None"

definition and3 :: "bool option \<Rightarrow> bool option \<Rightarrow> bool option" where
  "and3 a b = (if a = Some False \<or> b = Some False then Some False else if a = None \<or> b = None then None else Some True)"

definition or3 :: "bool option \<Rightarrow> bool option \<Rightarrow> bool option" where
  "or3 a b = map_option Not (and3 (map_option Not a) (map_option Not b))"

definition in_i64 :: "int \<Rightarrow> bool" where
  "in_i64 n \<longleftrightarrow> - (2 ^ 63) \<le> n \<and> n < 2 ^ 63"

definition int64 :: "int \<Rightarrow> sval option" where
  "int64 n = (if in_i64 n then Some (SInt n) else None)"

fun compare3 :: "(string \<Rightarrow> string \<Rightarrow> bool) \<Rightarrow> (int \<Rightarrow> int \<Rightarrow> bool) \<Rightarrow> sval \<Rightarrow> sval \<Rightarrow> sval option" where
  "compare3 ft fi (SText a) (SText b) = Some (of_truth (Some (ft a b)))"
| "compare3 ft fi (SInt a) (SInt b) = Some (of_truth (Some (fi a b)))"
| "compare3 ft fi SNull b = Some SNull"
| "compare3 ft fi a SNull = Some SNull"
| "compare3 ft fi a b = None"

fun sqlite_concat :: "sval \<Rightarrow> sval \<Rightarrow> sval option" where
  "sqlite_concat (SText a) (SText b) = Some (SText (a @ b))"
| "sqlite_concat SNull b = Some SNull"
| "sqlite_concat a SNull = Some SNull"
| "sqlite_concat a b = None"

fun arith :: "(int \<Rightarrow> int \<Rightarrow> sval option) \<Rightarrow> sval \<Rightarrow> sval \<Rightarrow> sval option" where
  "arith f (SInt a) (SInt b) = f a b"
| "arith f SNull SNull = Some SNull"
| "arith f SNull (SInt b) = Some SNull"
| "arith f (SInt a) SNull = Some SNull"
| "arith f a b = None"

definition logic3 :: "(bool option \<Rightarrow> bool option \<Rightarrow> bool option) \<Rightarrow> sval \<Rightarrow> sval \<Rightarrow> sval option" where
  "logic3 f a b = (case (truth a, truth b) of (Some x, Some y) \<Rightarrow> Some (of_truth (f x y)) | _ \<Rightarrow> None)"

text \<open>Integer division and remainder truncate; by zero they answer null.\<close>

fun sqlite_binary :: "binary_operator \<Rightarrow> sval \<Rightarrow> sval \<Rightarrow> sval option" where
  "sqlite_binary OpPlus a b = arith (\<lambda>x y. int64 (x + y)) a b"
| "sqlite_binary OpMinus a b = arith (\<lambda>x y. int64 (x - y)) a b"
| "sqlite_binary OpMultiply a b = arith (\<lambda>x y. int64 (x * y)) a b"
| "sqlite_binary OpDivide a b = arith (\<lambda>x y. if y = 0 then Some SNull else int64 (x sdiv y)) a b"
| "sqlite_binary OpModulo a b = arith (\<lambda>x y. if y = 0 then Some SNull else Some (SInt (x smod y))) a b"
| "sqlite_binary OpEq a b = compare3 (=) (=) a b"
| "sqlite_binary OpNotEq a b = compare3 (\<noteq>) (\<noteq>) a b"
| "sqlite_binary OpLt a b = compare3 (<) (<) a b"
| "sqlite_binary OpLtEq a b = compare3 (\<le>) (\<le>) a b"
| "sqlite_binary OpGt a b = compare3 (>) (>) a b"
| "sqlite_binary OpGtEq a b = compare3 (\<ge>) (\<ge>) a b"
| "sqlite_binary OpAnd a b = logic3 and3 a b"
| "sqlite_binary OpOr a b = logic3 or3 a b"
| "sqlite_binary OpStringConcat a b = sqlite_concat a b"
| "sqlite_binary _ a b = None"

fun sqlite_unary :: "unary_operator \<Rightarrow> sval \<Rightarrow> sval option" where
  "sqlite_unary UnNot v = map_option (\<lambda>b. of_truth (map_option Not b)) (truth v)"
| "sqlite_unary UnMinus (SInt n) = int64 (- n)"
| "sqlite_unary UnMinus SNull = Some SNull"
| "sqlite_unary UnPlus (SInt n) = Some (SInt n)"
| "sqlite_unary UnPlus SNull = Some SNull"
| "sqlite_unary _ _ = None"

text \<open>\<open>v IN (...)\<close>: null when the value or an element that could match is null.\<close>

fun sqlite_in :: "sval \<Rightarrow> sval list \<Rightarrow> bool option option" where
  "sqlite_in v [] = Some (Some False)"
| "sqlite_in v (x # xs) =
     (case (compare3 (=) (=) v x, sqlite_in v xs) of
        (Some r, Some rest) \<Rightarrow> map_option (\<lambda>b. or3 b rest) (truth r)
      | _ \<Rightarrow> None)"

section \<open>Functions\<close>

text \<open>The position of the first occurrence of \<open>t\<close>.\<close>

fun find_sub :: "'a list \<Rightarrow> 'a list \<Rightarrow> nat option" where
  "find_sub t s = (if starts_with t s then Some 0 else case s of [] \<Rightarrow> None | _ # s' \<Rightarrow> map_option Suc (find_sub t s'))"

declare find_sub.simps [simp del]

definition sqlite_instr :: "string \<Rightarrow> string \<Rightarrow> int" where
  "sqlite_instr s t = (case find_sub t s of None \<Rightarrow> 0 | Some p \<Rightarrow> int p + 1)"

text \<open>\<open>substr(s, p1 [, p2])\<close>: a negative start counts from the end, a negative length takes what stands
  before the start; without a length everything is taken.\<close>

definition sqlite_substr :: "string \<Rightarrow> int \<Rightarrow> int option \<Rightarrow> string" where
  "sqlite_substr s start len =
     (let n = int (length s);
        negative = (case len of None \<Rightarrow> False | Some z \<Rightarrow> z < 0);
        p2 = (case len of None \<Rightarrow> n + \<bar>start\<bar> + 1 | Some z \<Rightarrow> \<bar>z\<bar>);
        (p1, p2) =
          (if start < 0 then (if start + n < 0 then (0, max 0 (p2 + start + n)) else (start + n, p2))
           else if 0 < start then (start - 1, p2) else (0, if 0 < p2 then p2 - 1 else p2));
        (p1, p2) = (if negative then (if p1 - p2 < 0 then (0, p1) else (p1 - p2, p2)) else (p1, p2))
      in take (nat p2) (drop (nat p1) s))"

definition trim_spaces :: "string \<Rightarrow> string" where
  "trim_spaces s = rev (dropWhile (\<lambda>c. c = CHR '' '') (rev (dropWhile (\<lambda>c. c = CHR '' '') s)))"

fun typeof :: "sval \<Rightarrow> string" where
  "typeof SNull = ''null''"
| "typeof (SInt _) = ''integer''"
| "typeof (SText _) = ''text''"

text \<open>\<open>printf\<close> for the directives \<open>%s\<close> of a text, \<open>%d\<close> of an integer and \<open>%0<w>d\<close> of a non-negative one.\<close>

function printf :: "string \<Rightarrow> sval list \<Rightarrow> string option" where
  "printf [] args = Some []"
| "printf (c # cs) args =
     (if c \<noteq> CHR ''%'' then map_option ((#) c) (printf cs args)
      else case cs of
        [] \<Rightarrow> None
      | k # rest \<Rightarrow>
          (case args of
             [] \<Rightarrow> None
           | a # others \<Rightarrow>
               if k = CHR ''s'' then (case a of SText s \<Rightarrow> map_option ((@) s) (printf rest others) | _ \<Rightarrow> None)
               else if k = CHR ''d'' then (case a of SInt n \<Rightarrow> map_option ((@) (show_int n)) (printf rest others) | _ \<Rightarrow> None)
               else if k = CHR ''0'' then
                 (let w = takeWhile is_ascii_digit rest; after = dropWhile is_ascii_digit rest in
                  case a of
                    SInt n \<Rightarrow>
                      if 0 \<le> n \<and> after \<noteq> [] \<and> hd after = CHR ''d''
                      then map_option ((@) (pad0 (digits_value w) (nat n))) (printf (tl after) others) else None
                  | _ \<Rightarrow> None)
               else None))"
  by pat_completeness auto

termination printf
proof (relation "measure (\<lambda>(f, _). length f)", goal_cases)
  case (5 c cs args k rest a others w after n)
  have "length (dropWhile is_ascii_digit rest) \<le> length rest" by (rule length_dropWhile_le)
  then show ?case using 5 by simp
qed auto

text \<open>\<open>max\<close> and \<open>min\<close> of two or more integers; null when one of them is null.\<close>

fun int_of :: "sval \<Rightarrow> int option" where
  "int_of (SInt n) = Some n"
| "int_of _ = None"

definition largest :: "(int \<Rightarrow> int \<Rightarrow> int) \<Rightarrow> sval list \<Rightarrow> sval option" where
  "largest f vs =
     (if length vs < 2 \<or> list_ex (\<lambda>v. v \<noteq> SNull \<and> int_of v = None) vs then None
      else if SNull \<in> set vs then Some SNull
      else case List.map_filter int_of vs of n # ns \<Rightarrow> Some (SInt (foldl f n ns)) | [] \<Rightarrow> None)"

lemma largest_two [simp]:
  "largest f [SInt a, SInt b] = Some (SInt (f a b))" "largest f [SNull, SInt b] = Some SNull" "largest f [SInt a, SNull] = Some SNull"
  "largest f [SNull, SNull] = Some SNull"
  by (simp_all add: largest_def map_filter_def)

definition coalesce_call :: "sval list \<Rightarrow> sval option" where
  "coalesce_call vs = (if length vs < 2 then None else Some (case find (\<lambda>v. v \<noteq> SNull) vs of Some v \<Rightarrow> v | None \<Rightarrow> SNull))"

text \<open>\<open>replace(s, p, r)\<close>: every occurrence of \<open>p\<close>, read from the left; an empty \<open>p\<close> replaces nothing.\<close>

function replace_text :: "string \<Rightarrow> string \<Rightarrow> string \<Rightarrow> string" where
  "replace_text p r [] = []"
| "replace_text p r (c # s) =
     (if p \<noteq> [] \<and> starts_with p (c # s) then r @ replace_text p r (drop (length p) (c # s)) else c # replace_text p r s)"
  by pat_completeness auto
termination by (relation "measure (\<lambda>(_, _, s). length s)") auto

definition replace_call :: "sval list \<Rightarrow> sval option" where
  "replace_call vs = (if SNull \<in> set vs \<and> length vs = 3 then Some SNull
     else case vs of [SText s, SText p, SText r] \<Rightarrow> Some (SText (replace_text p r s)) | _ \<Rightarrow> None)"

definition text_call :: "(string \<Rightarrow> sval option) \<Rightarrow> sval list \<Rightarrow> sval option" where
  "text_call f vs = (case vs of [SText s] \<Rightarrow> f s | [SNull] \<Rightarrow> Some SNull | _ \<Rightarrow> None)"

definition int_call :: "(int \<Rightarrow> sval option) \<Rightarrow> sval list \<Rightarrow> sval option" where
  "int_call f vs = (case vs of [SInt n] \<Rightarrow> f n | [SNull] \<Rightarrow> Some SNull | _ \<Rightarrow> None)"

definition substr_call :: "sval list \<Rightarrow> sval option" where
  "substr_call vs =
     (if SNull \<in> set vs \<and> length vs \<in> {2, 3} then Some SNull
      else case vs of
        [SText s, SInt p] \<Rightarrow> Some (SText (sqlite_substr s p None))
      | [SText s, SInt p, SInt z] \<Rightarrow> Some (SText (sqlite_substr s p (Some z)))
      | _ \<Rightarrow> None)"

definition instr_call :: "sval list \<Rightarrow> sval option" where
  "instr_call vs =
     (if SNull \<in> set vs \<and> length vs = 2 then Some SNull
      else case vs of [SText s, SText t] \<Rightarrow> Some (SInt (sqlite_instr s t)) | _ \<Rightarrow> None)"

definition printf_call :: "sval list \<Rightarrow> sval option" where
  "printf_call vs = (case vs of SText f # args \<Rightarrow> map_option SText (printf f args) | _ \<Rightarrow> None)"

definition sqlite_call :: "string \<Rightarrow> sval list \<Rightarrow> sval option" where
  "sqlite_call name vs =
     (if name = ''instr'' then instr_call vs
      else if name = ''substr'' then substr_call vs
      else if name = ''length'' then text_call (\<lambda>s. Some (SInt (int (length s)))) vs
      else if name = ''unicode'' then text_call (\<lambda>s. Some (if s = [] then SNull else SInt (int (code (hd s))))) vs
      else if name = ''lower'' then text_call (\<lambda>s. Some (SText (to_ascii_lowercase s))) vs
      else if name = ''trim'' then text_call (\<lambda>s. Some (SText (trim_spaces s))) vs
      else if name = ''abs'' then int_call (\<lambda>n. int64 \<bar>n\<bar>) vs
      else if name = ''sign'' then int_call (\<lambda>n. Some (SInt (sgn n))) vs
      else if name = ''max'' then largest max vs
      else if name = ''min'' then largest min vs
      else if name = ''typeof'' then (case vs of [v] \<Rightarrow> Some (SText (typeof v)) | _ \<Rightarrow> None)
      else if name = ''printf'' then printf_call vs
      else if name = ''coalesce'' then coalesce_call vs
      else if name = ''replace'' then replace_call vs
      else None)"

section \<open>Evaluation\<close>

definition call_name :: "func \<Rightarrow> string option" where
  "call_name f = map_option (\<lambda>i. to_ascii_lowercase (ident_value i)) (last_ident (f_name f))"

definition call_arguments :: "func \<Rightarrow> expr list option" where
  "call_arguments f = (case f_args f of
     ArgsList None args [] \<Rightarrow>
       if list_all (\<lambda>a. unnamed_argument a \<noteq> None) args \<and> f_filter f = None \<and> f_over f = None \<and> f_within_group f = [] then Some (List.map_filter unnamed_argument args) else None
   | _ \<Rightarrow> None)"

lemma call_arguments_size:
  assumes "call_arguments f = Some es" "e \<in> set es"
  shows "size e < size f"
proof -
  obtain args where args: "f_args f = ArgsList None args []" "es = List.map_filter unnamed_argument args"
    using assms(1) by (auto simp: call_arguments_def split: func_args.splits option.splits list.splits if_splits)
  then obtain a where "a \<in> set args" "unnamed_argument a = Some e" using assms(2) by (auto simp: map_filter_def)
  then have "unnamed_arg e \<in> set args" by (simp add: unnamed_argument_Some_iff)
  then have "size (unnamed_arg e) \<le> size_list size args" by (simp add: size_list_estimation')
  then show ?thesis using args(1) by (cases f) (simp add: unnamed_arg_def)
qed

fun literal_value :: "sql_literal \<Rightarrow> sval option" where
  "literal_value (LSingleQuoted s) = Some (SText s)"
| "literal_value (LNumber digits _) =
     (let body = (if digits \<noteq> [] \<and> hd digits = CHR ''-'' then tl digits else digits) in
      if body \<noteq> [] \<and> all_digits body
      then int64 (if body = digits then int (digits_value body) else - int (digits_value body)) else None)"
| "literal_value (LBoolean b) = Some (SInt (if b then 1 else 0))"
| "literal_value LNull = Some SNull"
| "literal_value _ = None"

definition or_env :: "sval option \<Rightarrow> sval \<Rightarrow> sval" where
  "or_env r v = (case r of None \<Rightarrow> v | Some x \<Rightarrow> x)"

function sqlite_eval :: "(expr \<Rightarrow> sval) \<Rightarrow> expr \<Rightarrow> sval"
and eval_branches :: "(expr \<Rightarrow> sval) \<Rightarrow> expr option \<Rightarrow> (expr \<times> expr) list \<Rightarrow> sval option" where
  "sqlite_eval env e =
     (case e of
        EValue l \<Rightarrow> or_env (literal_value l) (env e)
      | ENested inner \<Rightarrow> sqlite_eval env inner
      | EBinaryOp l op r \<Rightarrow> or_env (sqlite_binary op (sqlite_eval env l) (sqlite_eval env r)) (env e)
      | EUnaryOp op inner \<Rightarrow> or_env (sqlite_unary op (sqlite_eval env inner)) (env e)
      | EIsNull inner \<Rightarrow> of_truth (Some (sqlite_eval env inner = SNull))
      | EIsNotNull inner \<Rightarrow> of_truth (Some (sqlite_eval env inner \<noteq> SNull))
      | EIsTrue inner \<Rightarrow> or_env (map_option (\<lambda>b. of_truth (Some (b = Some True))) (truth (sqlite_eval env inner))) (env e)
      | EIsNotTrue inner \<Rightarrow> or_env (map_option (\<lambda>b. of_truth (Some (b \<noteq> Some True))) (truth (sqlite_eval env inner))) (env e)
      | EIsDistinctFrom l r \<Rightarrow> of_truth (Some (sqlite_eval env l \<noteq> sqlite_eval env r))
      | EIsNotDistinctFrom l r \<Rightarrow> of_truth (Some (sqlite_eval env l = sqlite_eval env r))
      | EInList inner es negated \<Rightarrow>
          or_env (map_option (\<lambda>b. of_truth (if negated then map_option Not b else b))
            (sqlite_in (sqlite_eval env inner) (map (sqlite_eval env) es))) (env e)
      | ECase operand branches els \<Rightarrow>
          (case operand of None \<Rightarrow> or_env (eval_branches env els branches) (env e) | Some _ \<Rightarrow> env e)
      | ESubstring inner start len special shorthand \<Rightarrow>
          (case (start, len) of
             (None, _) \<Rightarrow> env e
           | (Some p, None) \<Rightarrow> or_env (substr_call [sqlite_eval env inner, sqlite_eval env p]) (env e)
           | (Some p, Some z) \<Rightarrow> or_env (substr_call [sqlite_eval env inner, sqlite_eval env p, sqlite_eval env z]) (env e))
      | EFunction f \<Rightarrow>
          (case (call_name f, call_arguments f) of
             (Some name, Some es) \<Rightarrow> or_env (sqlite_call name (map (sqlite_eval env) es)) (env e)
           | _ \<Rightarrow> env e)
      | _ \<Rightarrow> env e)"
| "eval_branches env els [] = (case els of None \<Rightarrow> Some SNull | Some other \<Rightarrow> Some (sqlite_eval env other))"
| "eval_branches env els (b # bs) =
     (case truth (sqlite_eval env (fst b)) of
        None \<Rightarrow> None
      | Some t \<Rightarrow> if t = Some True then Some (sqlite_eval env (snd b)) else eval_branches env els bs)"
  by pat_completeness auto

lemma size_member: "x \<in> set xs \<Longrightarrow> size x \<le> size_list size xs"
  by (simp add: size_list_estimation')

termination sqlite_eval
proof (relation "measure (\<lambda>x. case x of Inl (_, e) \<Rightarrow> size e
    | Inr (_, els, bs) \<Rightarrow> size_option size els + size_list (size_prod size size) bs)", goal_cases)
qed (auto simp: less_Suc_eq dest: size_member call_arguments_size [OF sym])

declare sqlite_eval.simps [simp del]

section \<open>Answers to the builders\<close>

lemma or_env_simps [simp]: "or_env (Some x) v = x" "or_env None v = v"
  by (simp_all add: or_env_def)

lemma truth_of_truth [simp]: "truth (of_truth b) = Some b"
  by (cases b) (auto simp: of_truth_def)

lemma literal_nat: "in_i64 (int n) \<Longrightarrow> literal_value (LNumber (show_nat n) l) = Some (SInt (int n))"
proof -
  assume n: "in_i64 (int n)"
  have "hd (show_nat n) \<noteq> CHR ''-''" using all_digitsD [of "show_nat n" "hd (show_nat n)"] by (auto simp: is_ascii_digit_def)
  then show ?thesis using n by (simp add: int64_def)
qed

lemma eval_simps:
  "sqlite_eval env (EValue lit) = or_env (literal_value lit) (env (EValue lit))"
  "sqlite_eval env (ENested x) = sqlite_eval env x"
  "sqlite_eval env (EBinaryOp l op r) = or_env (sqlite_binary op (sqlite_eval env l) (sqlite_eval env r)) (env (EBinaryOp l op r))"
  "sqlite_eval env (EUnaryOp uop x) = or_env (sqlite_unary uop (sqlite_eval env x)) (env (EUnaryOp uop x))"
  "sqlite_eval env (EIsNull x) = of_truth (Some (sqlite_eval env x = SNull))"
  "sqlite_eval env (EIsNotNull x) = of_truth (Some (sqlite_eval env x \<noteq> SNull))"
  "sqlite_eval env (EIsTrue x) = or_env (map_option (\<lambda>b. of_truth (Some (b = Some True))) (truth (sqlite_eval env x))) (env (EIsTrue x))"
  "sqlite_eval env (EIsNotTrue x) = or_env (map_option (\<lambda>b. of_truth (Some (b \<noteq> Some True))) (truth (sqlite_eval env x))) (env (EIsNotTrue x))"
  "sqlite_eval env (EIsDistinctFrom l r) = of_truth (Some (sqlite_eval env l \<noteq> sqlite_eval env r))"
  "sqlite_eval env (EIsNotDistinctFrom l r) = of_truth (Some (sqlite_eval env l = sqlite_eval env r))"
  "sqlite_eval env (EInList x es neg) = or_env (map_option (\<lambda>b. of_truth (if neg then map_option Not b else b))
     (sqlite_in (sqlite_eval env x) (map (sqlite_eval env) es))) (env (EInList x es neg))"
  "sqlite_eval env (ECase None bs els) = or_env (eval_branches env els bs) (env (ECase None bs els))"
  "sqlite_eval env (ESubstring x (Some p) None a b) =
     or_env (substr_call [sqlite_eval env x, sqlite_eval env p]) (env (ESubstring x (Some p) None a b))"
  "sqlite_eval env (ESubstring x (Some p) (Some z) a b) =
     or_env (substr_call [sqlite_eval env x, sqlite_eval env p, sqlite_eval env z]) (env (ESubstring x (Some p) (Some z) a b))"
  by (simp_all add: sqlite_eval.simps(1))

lemma eval_string_literal: "sqlite_eval env (string_literal s) = SText s"
  by (simp add: string_literal_def eval_simps)

lemma eval_number_literal: "in_i64 (int n) \<Longrightarrow> sqlite_eval env (number_literal (show_nat n)) = SInt (int n)"
  by (simp add: number_literal_def eval_simps literal_nat del: literal_value.simps)

lemma eval_integer_literal: "in_i64 (int n) \<Longrightarrow> sqlite_eval env (integer_literal (int n)) = SInt (int n)"
  by (simp add: integer_literal_def show_int_def eval_simps literal_nat del: literal_value.simps)

lemma eval_0_1 [simp]: "sqlite_eval env (integer_literal 0) = SInt 0" "sqlite_eval env (integer_literal 1) = SInt 1"
  using eval_integer_literal [of 0 env] eval_integer_literal [of 1 env] by (simp_all add: in_i64_def)

lemma eval_case_when:
  "sqlite_eval env (case_when c x y) = or_env (eval_branches env y [(c, x)]) (env (case_when c x y))"
  by (simp add: case_when_def eval_simps)

lemma eval_not: "sqlite_eval env e = of_truth p \<Longrightarrow> sqlite_eval env (not_predicate e) = of_truth (map_option Not p)"
  by (simp add: not_predicate_def eval_simps)

lemma eval_and:
  assumes "sqlite_eval env l = of_truth p" "sqlite_eval env r = of_truth q"
  shows "sqlite_eval env (EBinaryOp l OpAnd r) = of_truth (and3 p q)"
  using assms by (simp add: eval_simps logic3_def)

lemma eval_call:
  "sqlite_eval env (simple_function_expr name es None) =
     or_env (sqlite_call (to_ascii_lowercase name) (map (sqlite_eval env) es)) (env (simple_function_expr name es None))"
proof -
  have "List.map_filter unnamed_argument (map unnamed_arg es) = es" by (induction es) (simp_all add: map_filter_def unnamed_arg_def)
  then show ?thesis
    by (subst sqlite_eval.simps)
      (simp add: simple_function_expr_def call_name_def call_arguments_def last_ident_def bare_ident_def list_all_iff unnamed_arg_def)
qed

lemma function_names:
  "to_ascii_lowercase ''instr'' = ''instr''" "to_ascii_lowercase ''INSTR'' = ''instr''" "to_ascii_lowercase ''substr'' = ''substr''"
  "to_ascii_lowercase ''length'' = ''length''" "to_ascii_lowercase ''unicode'' = ''unicode''" "to_ascii_lowercase ''lower'' = ''lower''"
  "to_ascii_lowercase ''trim'' = ''trim''" "to_ascii_lowercase ''abs'' = ''abs''" "to_ascii_lowercase ''sign'' = ''sign''"
  "to_ascii_lowercase ''max'' = ''max''" "to_ascii_lowercase ''min'' = ''min''" "to_ascii_lowercase ''typeof'' = ''typeof''"
  "to_ascii_lowercase ''printf'' = ''printf''" "to_ascii_lowercase ''coalesce'' = ''coalesce''" "to_ascii_lowercase ''COALESCE'' = ''coalesce''"
  "to_ascii_lowercase ''replace'' = ''replace''" "to_ascii_lowercase ''MAX'' = ''max''" "to_ascii_lowercase ''MIN'' = ''min''"
  by code_simp+

lemmas eval_function = eval_call [where name = "''instr''", unfolded function_names] eval_call [where name = "''INSTR''", unfolded function_names]
  eval_call [where name = "''substr''", unfolded function_names] eval_call [where name = "''length''", unfolded function_names]
  eval_call [where name = "''unicode''", unfolded function_names] eval_call [where name = "''lower''", unfolded function_names]
  eval_call [where name = "''trim''", unfolded function_names] eval_call [where name = "''abs''", unfolded function_names]
  eval_call [where name = "''sign''", unfolded function_names] eval_call [where name = "''max''", unfolded function_names]
  eval_call [where name = "''min''", unfolded function_names] eval_call [where name = "''typeof''", unfolded function_names]
  eval_call [where name = "''printf''", unfolded function_names] eval_call [where name = "''coalesce''", unfolded function_names]
  eval_call [where name = "''COALESCE''", unfolded function_names] eval_call [where name = "''replace''", unfolded function_names]
  eval_call [where name = "''MAX''", unfolded function_names] eval_call [where name = "''MIN''", unfolded function_names]

lemma sqlite_call_simps [simp]:
  "sqlite_call ''instr'' = instr_call" "sqlite_call ''substr'' = substr_call"
  "sqlite_call ''length'' = text_call (\<lambda>s. Some (SInt (int (length s))))"
  "sqlite_call ''unicode'' = text_call (\<lambda>s. Some (if s = [] then SNull else SInt (int (code (hd s)))))"
  "sqlite_call ''lower'' = text_call (\<lambda>s. Some (SText (to_ascii_lowercase s)))"
  "sqlite_call ''trim'' = text_call (\<lambda>s. Some (SText (trim_spaces s)))"
  "sqlite_call ''abs'' = int_call (\<lambda>n. int64 \<bar>n\<bar>)" "sqlite_call ''sign'' = int_call (\<lambda>n. Some (SInt (sgn n)))"
  "sqlite_call ''max'' = largest max" "sqlite_call ''min'' = largest min" "sqlite_call ''printf'' = printf_call"
  "sqlite_call ''coalesce'' = coalesce_call" "sqlite_call ''replace'' = replace_call"
  "sqlite_call ''typeof'' [v] = Some (SText (typeof v))"
  by (auto simp: sqlite_call_def fun_eq_iff)

end
