(* ===== verification/Membership.thy ===== *)
theory Membership
  imports Idioms Sqlite_Eval
begin

text \<open>
  The membership search \<open>delimited_membership\<close> of \<open>src/src/impls/idioms.rs\<close>, evaluated by the rules of
  SQLite and compared with PostgreSQL's \<open>x = ANY(string_to_array(a, d))\<close> and \<open>x <> ALL(...)\<close>.
\<close>

section \<open>Finding an element between delimiters\<close>

lemma find_sub_None_iff: "find_sub t s = None \<longleftrightarrow> (\<nexists>p q. s = p @ t @ q)"
proof (induction s)
  case Nil
  then show ?case by (subst find_sub.simps) (auto simp: starts_with_def split: option.splits)
next
  case (Cons c s)
  have "(\<exists>p q. c # s = p @ t @ q) \<longleftrightarrow> starts_with t (c # s) \<or> (\<exists>p q. s = p @ t @ q)"
    by (auto simp: starts_with_def Cons_eq_append_conv split: option.splits)
  then show ?case using Cons by (subst find_sub.simps) auto
qed

lemma instr_pos_iff: "0 < sqlite_instr s t \<longleftrightarrow> (\<exists>p q. s = p @ t @ q)"
  using find_sub_None_iff [of t s] by (auto simp: sqlite_instr_def split: option.splits)

lemma instr_char: "sqlite_instr s [d] = 0 \<longleftrightarrow> d \<notin> set s"
  using find_sub_None_iff [of "[d]" s] by (auto simp: sqlite_instr_def in_set_conv_decomp split: option.splits)

lemma occurrence_after_prefix:
  assumes "d \<notin> set u"
  shows "(\<exists>p q. u @ d # w = p @ d # x @ d # q) \<longleftrightarrow> (\<exists>p q. d # w = p @ d # x @ d # q)"
proof
  assume "\<exists>p q. u @ d # w = p @ d # x @ d # q"
  then obtain p q where "u @ d # w = p @ d # x @ d # q" by blast
  then consider us where "u = p @ us" "us @ d # w = d # x @ d # q" | us where "p = u @ us" "d # w = us @ d # x @ d # q"
    by (auto simp: append_eq_append_conv2)
  then show "\<exists>p q. d # w = p @ d # x @ d # q"
  proof cases
    case 1
    then have "us = []" using assms by (cases us) auto
    with 1 show ?thesis by (metis append_Nil)
  qed blast
next
  assume "\<exists>p q. d # w = p @ d # x @ d # q"
  then show "\<exists>p q. u @ d # w = p @ d # x @ d # q" by (metis append.assoc)
qed

lemma first_piece: "d \<notin> set u \<Longrightarrow> d \<notin> set x \<Longrightarrow> u @ d # w = x @ d # q \<Longrightarrow> u = x"
  using split_once_append by (metis option.inject prod.inject)

lemma element_between_delimiters:
  assumes "d \<notin> set x"
  shows "(\<exists>p q. d # a @ [d] = p @ d # x @ d # q) \<longleftrightarrow> x \<in> set (split_on d a)"
proof (induction "length a" arbitrary: a rule: less_induct)
  case less
  have head: "(\<exists>p q. d # u @ d # w = p @ d # x @ d # q) \<longleftrightarrow> u = x \<or> (\<exists>p q. d # w = p @ d # x @ d # q)" if "d \<notin> set u" for u w
  proof -
    have "(\<exists>p q. d # u @ d # w = p @ d # x @ d # q) \<longleftrightarrow> (\<exists>q. u @ d # w = x @ d # q) \<or> (\<exists>p q. u @ d # w = p @ d # x @ d # q)"
      by (subst Cons_eq_append_conv) blast
    also have "(\<exists>q. u @ d # w = x @ d # q) \<longleftrightarrow> u = x" using first_piece [OF that assms] by blast
    finally show ?thesis unfolding occurrence_after_prefix [OF that] .
  qed
  show ?case
  proof (cases "d \<in> set a")
    case False
    have "\<not> (\<exists>p q. [d] = p @ d # x @ d # q)" by (auto simp: Cons_eq_append_conv)
    then show ?thesis using head [OF False, of "[]"] split_on_no_match [OF False] by auto
  next
    case True
    then obtain u v where a: "a = u @ d # v" "d \<notin> set u" by (meson split_list_first)
    then show ?thesis using head [of u "v @ [d]"] less [of v] split_on_append_sep [OF a(2), of v] by auto
  qed
qed

lemma element_has_no_delimiter: "x \<in> set (split_on d a) \<Longrightarrow> d \<notin> set x"
  using split_by_pieces [of x "\<lambda>c. c = d" a d] by (auto simp: split_on_def)

section \<open>PostgreSQL's answer\<close>

text \<open>\<open>string_to_array\<close> with a one-character delimiter: an empty text has no elements.\<close>

definition string_to_array :: "string \<Rightarrow> char \<Rightarrow> string list" where
  "string_to_array a d = (if a = [] then [] else split_on d a)"

text \<open>\<open>x = ANY(array)\<close> over an array without nulls: a null array answers null, an empty one false, and a
  null left side null; \<open>x <> ALL(array)\<close> is its negation.\<close>

definition pg_any_equal :: "string option \<Rightarrow> string list option \<Rightarrow> bool option" where
  "pg_any_equal x xs = (case xs of
     None \<Rightarrow> None
   | Some ys \<Rightarrow> if ys = [] then Some False else map_option (\<lambda>v. v \<in> set ys) x)"

fun as_text :: "sval \<Rightarrow> string option" where
  "as_text (SText s) = Some s"
| "as_text _ = None"

definition to_sval :: "string option \<Rightarrow> sval" where
  "to_sval x = (case x of None \<Rightarrow> SNull | Some s \<Rightarrow> SText s)"

lemma eval_surrounded:
  assumes "sqlite_eval env e = to_sval x"
  shows "sqlite_eval env (surrounded d e) = to_sval (map_option (\<lambda>s. d # s @ [d]) x)"
  using assms by (cases x) (simp_all add: surrounded_def expr_concat_def eval_simps eval_string_literal to_sval_def)

lemma eval_instr:
  assumes "sqlite_eval env e = to_sval x" "sqlite_eval env f = to_sval y"
  shows "sqlite_eval env (simple_function_expr ''instr'' [e, f] None)
    = (case (x, y) of (Some s, Some t) \<Rightarrow> SInt (sqlite_instr s t) | _ \<Rightarrow> SNull)"
  using assms by (cases x; cases y) (simp_all add: eval_function instr_call_def to_sval_def)

lemma eval_text_split:
  "sqlite_eval env a = to_sval t \<Longrightarrow> sqlite_eval env (EBinaryOp a OpNotEq (string_literal [])) = of_truth (map_option (\<lambda>s. s \<noteq> []) t)"
  by (cases t) (simp_all add: eval_simps eval_string_literal to_sval_def of_truth_def)

lemma eval_whole_element:
  assumes "sqlite_eval env e = to_sval x"
  shows "sqlite_eval env (EBinaryOp (simple_function_expr ''instr'' [e, string_literal [d]] None) OpEq (integer_literal 0))
    = of_truth (map_option (\<lambda>s. d \<notin> set s) x)"
  using eval_instr [OF assms, of "string_literal [d]" "Some [d]"]
  by (cases x) (simp_all add: eval_simps eval_string_literal to_sval_def of_truth_def instr_char)

lemma eval_found:
  assumes "sqlite_eval env e = to_sval x" "sqlite_eval env f = to_sval y"
  shows "sqlite_eval env (EBinaryOp (simple_function_expr ''instr'' [e, f] None) OpGt (integer_literal 0))
    = of_truth (case (x, y) of (Some s, Some t) \<Rightarrow> Some (\<exists>p q. s = p @ t @ q) | _ \<Rightarrow> None)"
  using eval_instr [OF assms]
  by (cases x; cases y) (simp_all add: eval_simps of_truth_def instr_pos_iff)

text \<open>
  C28. The emitted search answers what PostgreSQL answers: for operands that are text or null,
  evaluating \<open>delimited_membership\<close> by SQLite's rules gives the three-valued answer of
  \<open>x = ANY(string_to_array(a, d))\<close>, and of \<open>x <> ALL(...)\<close> when negated, over empty texts, nulls and left
  sides that carry the delimiter included.
\<close>

theorem membership_search_is_any:
  assumes "sqlite_eval env left \<in> {SNull} \<union> range SText" and "sqlite_eval env a \<in> {SNull} \<union> range SText"
  shows "sqlite_eval env (delimited_membership left a d negated) =
    of_truth (map_option (\<lambda>b. b \<noteq> negated)
      (pg_any_equal (as_text (sqlite_eval env left)) (map_option (\<lambda>s. string_to_array s d) (as_text (sqlite_eval env a)))))"
proof -
  obtain x t where x: "sqlite_eval env left = to_sval x" and t: "sqlite_eval env a = to_sval t"
    using assms by (metis Un_iff imageE option.simps(4,5) singletonD to_sval_def)
  let ?m = "EBinaryOp (EBinaryOp (EBinaryOp a OpNotEq (string_literal [])) OpAnd
      (EBinaryOp (simple_function_expr ''instr'' [left, string_literal [d]] None) OpEq (integer_literal 0))) OpAnd
      (EBinaryOp (simple_function_expr ''instr'' [surrounded d a, surrounded d left] None) OpGt (integer_literal 0))"
  let ?g = "case_when (EIsNotNull a) ?m None"
  have texts: "as_text (to_sval y) = y" for y by (cases y) (simp_all add: to_sval_def)
  have m: "sqlite_eval env ?m = of_truth (and3 (and3 (map_option (\<lambda>s. s \<noteq> []) t) (map_option (\<lambda>s. d \<notin> set s) x))
      (case (t, x) of (Some s, Some y) \<Rightarrow> Some (\<exists>p q. d # s @ [d] = p @ (d # y @ [d]) @ q) | _ \<Rightarrow> None))"
    using eval_found [OF eval_surrounded [OF t, of d] eval_surrounded [OF x, of d]]
    by (intro eval_and eval_text_split [OF t] eval_whole_element [OF x]) (cases t; cases x; simp)
  have g: "sqlite_eval env ?g = of_truth (pg_any_equal x (map_option (\<lambda>s. string_to_array s d) t))"
  proof (cases t)
    case (Some s)
    have c: "sqlite_eval env ?g = sqlite_eval env ?m" using t Some by (simp add: eval_simps eval_case_when to_sval_def)
    show ?thesis
    proof (cases x)
      case (Some y)
      have "d \<notin> set y \<and> (\<exists>p q. d # s @ [d] = p @ (d # y @ [d]) @ q) \<longleftrightarrow> y \<in> set (split_on d s)"
        using element_between_delimiters [of d y s] element_has_no_delimiter [of y d s] by auto
      then show ?thesis unfolding c m using \<open>t = Some s\<close> Some
        by (auto simp: and3_def pg_any_equal_def string_to_array_def split_on_def)
    next
      case None
      then show ?thesis unfolding c m using Some by (simp add: and3_def pg_any_equal_def string_to_array_def split_on_def)
    qed
  qed (use t in \<open>simp add: eval_simps eval_case_when to_sval_def of_truth_def pg_any_equal_def\<close>)
  have "delimited_membership left a d negated = (if negated then not_predicate ?g else ?g)"
    by (simp add: delimited_membership_def Let_def)
  then show ?thesis using g eval_not [OF g] by (simp add: x t texts option.map_ident)
qed

theorem membership_search_is_any_witness:
  "sqlite_eval (\<lambda>_. SNull) (delimited_membership (string_literal ''b'') (string_literal ''a,b'') (CHR '','') False) = SInt 1"
  using membership_search_is_any [of "\<lambda>_. SNull" "string_literal ''b''" "string_literal ''a,b''" "CHR '',''" False]
  by (simp add: eval_string_literal pg_any_equal_def string_to_array_def split_on_def of_truth_def)

text \<open>\<open>ascii\<close> of a text or a null: the code of the first character, 0 for the empty text.\<close>

lemma ascii_code_point_is_ascii:
  assumes "sqlite_eval env e \<in> {SNull} \<union> range SText"
  shows "sqlite_eval env (ascii_code_point e) = (case as_text (sqlite_eval env e) of
    None \<Rightarrow> SNull | Some s \<Rightarrow> SInt (if s = [] then 0 else int (code (hd s))))"
  using assms by (auto simp: ascii_code_point_def eval_case_when eval_simps eval_string_literal eval_function text_call_def of_truth_def)

end
