(* ===== verification/Minor_Units.thy ===== *)
theory Minor_Units
  imports Complex_Main Sqlite_Eval
begin

text \<open>
  Exact numerics as integers: a \<open>numeric(p, s)\<close> is stored as its count of minor units, \<open>10 ^ s\<close> to the
  unit. From \<open>src/src/impls/shared_helpers.rs\<close> the moves between scales, the scaling of literals and the
  rendering as text, and from \<open>src/src/impls/translator_impls/expr.rs\<close> the rounding to whole numbers. The
  emitted expressions, evaluated by SQLite's rules, answer what exact decimal arithmetic answers.
\<close>

type_synonym 'a xres = "(string, 'a) res"

section \<open>Builders\<close>

definition rescale_minor_units :: "expr \<Rightarrow> nat \<Rightarrow> nat \<Rightarrow> expr" where
  "rescale_minor_units v from to =
     (if from = to then v
      else if from < to then ENested (EBinaryOp v OpMultiply (number_literal (show_nat (10 ^ (to - from)))))
      else let divisor = 10 ^ (from - to); half = divisor div 2;
          biased = ENested (EBinaryOp v OpPlus
            (EBinaryOp (number_literal (show_nat half)) OpMultiply (simple_function_expr ''sign'' [v] None)))
        in ENested (EBinaryOp biased OpDivide (number_literal (show_nat divisor))))"

text \<open>The digits of a number literal, with the sign written over it.\<close>

definition signed_digits :: "expr \<Rightarrow> (bool \<times> string) option" where
  "signed_digits e = (case e of
     EValue l \<Rightarrow> (case l of LNumber digits _ \<Rightarrow> Some (False, digits) | _ \<Rightarrow> None)
   | EUnaryOp op inner \<Rightarrow>
       if op = UnMinus \<or> op = UnPlus
       then (case inner of EValue l \<Rightarrow> (case l of LNumber digits _ \<Rightarrow> Some (op = UnMinus, digits) | _ \<Rightarrow> None) | _ \<Rightarrow> None)
       else None
   | _ \<Rightarrow> None)"

definition exponent_refusal :: "string \<Rightarrow> string" where
  "exponent_refusal digits = ''the literal '' @ digits @ '' is in exponent notation, which this translator does not scale ''
     @ ''onto a NUMERIC column. Write it in full.''"

definition too_fine_refusal :: "string \<Rightarrow> nat \<Rightarrow> nat \<Rightarrow> string" where
  "too_fine_refusal digits places scale = ''the literal '' @ digits @ '' has '' @ show_nat places
     @ '' decimal places and the column holds '' @ show_nat scale
     @ ''. PostgreSQL would round it, which silently changes the value, so write it at the column's scale instead.''"

definition scale_decimal_literal :: "expr \<Rightarrow> nat \<Rightarrow> expr option xres" where
  "scale_decimal_literal e scale =
     (case signed_digits e of
        None \<Rightarrow> ok None
      | Some (negated, digits) \<Rightarrow>
          if CHR ''e'' \<in> set digits \<or> CHR ''E'' \<in> set digits then refuse (exponent_refusal digits)
          else let (whole, fraction) = (case split_once (CHR ''.'') digits of None \<Rightarrow> (digits, []) | Some p \<Rightarrow> p);
              places = length fraction in
            if scale < places then refuse (too_fine_refusal digits places scale)
            else ok (Some (EValue (LNumber ((if negated then ''-'' else []) @ whole @ fraction
              @ replicate (scale - places) (CHR ''0'')) False))))"

definition is_bound_parameter :: "expr \<Rightarrow> bool" where
  "is_bound_parameter e = (case e of EValue l \<Rightarrow> (case l of LPlaceholder _ \<Rightarrow> True | _ \<Rightarrow> False) | _ \<Rightarrow> False)"

definition scale_parameter :: "expr \<Rightarrow> nat \<Rightarrow> expr" where
  "scale_parameter e scale =
     ECast PlainCast (simple_function_expr ''ROUND'' [ENested (EBinaryOp e OpMultiply (number_literal (show_nat (10 ^ scale))))] None)
       (TInteger None) None"

definition quoted_decimal_as_number :: "string \<Rightarrow> expr option" where
  "quoted_decimal_as_number txt_of =
     (let trimmed = trim txt_of;
        unsigned = (if trimmed \<noteq> [] \<and> (hd trimmed = CHR ''-'' \<or> hd trimmed = CHR ''+'') then tl trimmed else trimmed);
        shape_holds = unsigned \<noteq> [] \<and> list_all (\<lambda>c. is_ascii_digit c \<or> c = CHR ''.'') unsigned
          \<and> length (filter (\<lambda>c. c = CHR ''.'') unsigned) \<le> 1 \<and> list_ex is_ascii_digit unsigned in
      if \<not> shape_holds then None
      else Some (EValue (LNumber (if starts_with ''-'' trimmed then CHR ''-'' # unsigned else unsigned) False)))"

definition numeric_text_literal :: "expr \<Rightarrow> expr option xres" where
  "numeric_text_literal e = (case single_quoted_literal e of
     None \<Rightarrow> ok None
   | Some t \<Rightarrow> res_bind (ok_or (quoted_decimal_as_number t) ([CHR 0x27] @ t @ [CHR 0x27]
         @ '' is not a number a NUMERIC column can hold as minor units, so it cannot be written into one.''))
       (\<lambda>x. ok (Some x)))"

definition render_minor_units_as_text :: "expr \<Rightarrow> nat \<Rightarrow> expr" where
  "render_minor_units_as_text v scale =
     (let factor = show_nat (10 ^ scale);
        absolute = simple_function_expr ''abs'' [v] None;
        sign = case_when (EBinaryOp v OpLt (number_literal ''0'')) (string_literal ''-'') (Some (string_literal []));
        whole = EBinaryOp absolute OpDivide (number_literal factor);
        fraction = EBinaryOp absolute OpModulo (number_literal factor);
        rendered = simple_function_expr ''printf''
          [string_literal (''%s%d.%0'' @ show_nat scale @ ''d''), sign, whole, fraction] None
      in case_when (EIsNull v) (EValue LNull) (Some rendered))"

fun is_decimal_number_literal :: "expr \<Rightarrow> bool" where
  "is_decimal_number_literal (EValue l) = (case l of LNumber digits _ \<Rightarrow> CHR ''.'' \<in> set digits | _ \<Rightarrow> False)"
| "is_decimal_number_literal (EUnaryOp op inner) = is_decimal_number_literal inner"
| "is_decimal_number_literal _ = False"

definition scale_arm :: "nat \<Rightarrow> expr \<Rightarrow> expr xres" where
  "scale_arm scale arm =
     (if is_decimal_number_literal arm
      then res_bind (scale_decimal_literal arm scale) (\<lambda>s. ok (case s of Some scaled \<Rightarrow> scaled | None \<Rightarrow> arm))
      else ok arm)"

fun scale_branches :: "nat \<Rightarrow> (expr \<times> expr) list \<Rightarrow> (expr \<times> expr) list xres" where
  "scale_branches scale [] = ok []"
| "scale_branches scale (b # bs) =
     res_bind (scale_arm scale (snd b)) (\<lambda>r. res_bind (scale_branches scale bs) (\<lambda>rest. ok ((fst b, r) # rest)))"

definition scale_literal_for_column :: "expr \<Rightarrow> string \<Rightarrow> (string \<times> nat) list \<Rightarrow> expr xres" where
  "scale_literal_for_column v column scales =
     (case find (\<lambda>(name, _). eq_ignore_ascii_case name column) scales of
        None \<Rightarrow> ok v
      | Some (_, scale) \<Rightarrow>
          (case v of
             ECase operand branches els \<Rightarrow>
               res_bind (scale_branches scale branches) (\<lambda>bs.
               res_bind (case els of None \<Rightarrow> ok None | Some arm \<Rightarrow> res_bind (scale_arm scale arm) (\<lambda>r. ok (Some r))) (\<lambda>els'.
                 ok (ECase operand bs els')))
           | _ \<Rightarrow> res_bind (scale_decimal_literal v scale) (\<lambda>s. ok (case s of Some scaled \<Rightarrow> scaled | None \<Rightarrow> v))))"

datatype (plugins only: code size) rounding_direction = Down | Up

definition floor_formula :: "string \<Rightarrow> expr \<Rightarrow> expr \<Rightarrow> expr" where
  "floor_formula f x x2 =
     EBinaryOp (ENested (EBinaryOp x OpMinus (ENested (EBinaryOp (ENested (EBinaryOp (ENested (EBinaryOp x2 OpModulo (number_literal f)))
       OpPlus (number_literal f))) OpModulo (number_literal f))))) OpDivide (number_literal f)"

definition numeric_floor_or_ceil :: "expr \<Rightarrow> nat \<Rightarrow> rounding_direction \<Rightarrow> expr" where
  "numeric_floor_or_ceil x factor direction = (case direction of
     Down \<Rightarrow> floor_formula (show_nat factor) x x
   | Up \<Rightarrow> EUnaryOp UnMinus (ENested (floor_formula (show_nat factor) (EUnaryOp UnMinus x) (EUnaryOp UnMinus x))))"

definition translate_real_rounding :: "(expr \<Rightarrow> expr xres) \<Rightarrow> expr \<Rightarrow> rounding_direction \<Rightarrow> expr xres" where
  "translate_real_rounding tr e direction =
     (let (truncation_is_exact, adjustment) = (case direction of Down \<Rightarrow> (OpGtEq, OpMinus) | Up \<Rightarrow> (OpLtEq, OpPlus)) in
      res_bind (tr e) (\<lambda>x.
        let cast_to_int = ECast PlainCast x (TInteger None) None;
          already_correct = EBinaryOp (EBinaryOp x truncation_is_exact (integer_literal 0)) OpOr (EBinaryOp x OpEq cast_to_int);
          adjusted = EBinaryOp cast_to_int adjustment (integer_literal 1)
        in ok (case_when already_correct cast_to_int (Some adjusted))))"

text \<open>The scale of the operand and the translation of the operand are parameters.\<close>

definition translate_integral_rounding ::
  "(expr \<Rightarrow> nat option) \<Rightarrow> (expr \<Rightarrow> expr xres) \<Rightarrow> expr \<Rightarrow> rounding_direction \<Rightarrow> expr xres" where
  "translate_integral_rounding scale_of tr e direction =
     (case scale_of e of
        Some scale \<Rightarrow>
          if 0 < scale then res_bind (tr e) (\<lambda>x. ok (numeric_floor_or_ceil x (10 ^ scale) direction))
          else translate_real_rounding tr e direction
      | None \<Rightarrow> translate_real_rounding tr e direction)"

section \<open>Rounding\<close>

text \<open>How PostgreSQL rounds an exact numeric: to the nearest integer, halves away from zero.\<close>

definition pg_round :: "real \<Rightarrow> int" where
  "pg_round x = (if x < 0 then - \<lfloor>- x + 1 / 2\<rfloor> else \<lfloor>x + 1 / 2\<rfloor>)"

lemma pg_round_of_int [simp]: "pg_round (of_int n) = n"
proof -
  have "\<lfloor>real_of_int m + 1 / 2\<rfloor> = m" for m by (simp add: floor_eq_iff)
  from this [of n] this [of "- n"] show ?thesis by (simp add: pg_round_def)
qed

lemma floor_half:
  assumes "0 < (d :: int)"
  shows "\<lfloor>real_of_int a / real_of_int (2 * d) + 1 / 2\<rfloor> = (a + d) div (2 * d)"
proof -
  have "real_of_int a / real_of_int (2 * d) + 1 / 2 = real_of_int (a + d) / real_of_int (2 * d)"
    using assms by (simp add: field_simps)
  then show ?thesis by (metis floor_divide_of_int_eq)
qed

lemma pg_round_quotient:
  assumes "0 < (d :: int)"
  shows "pg_round (real_of_int v / real_of_int (2 * d)) = (v + d * sgn v) sdiv (2 * d)"
proof (cases "v < 0")
  case True
  then have "real_of_int v / real_of_int (2 * d) < 0" using assms by (simp add: divide_less_0_iff)
  then have "pg_round (real_of_int v / real_of_int (2 * d)) = - ((- v + d) div (2 * d))"
    using floor_half [OF assms, of "- v"] by (simp add: pg_round_def)
  moreover have "(v + d * sgn v) sdiv (2 * d) = - ((- v + d) div (2 * d))"
    using True assms by (simp add: signed_divide_int_def sgn_if)
  ultimately show ?thesis by simp
next
  case False
  then have "pg_round (real_of_int v / real_of_int (2 * d)) = (v + d) div (2 * d)"
    using floor_half [OF assms, of v] assms by (simp add: pg_round_def divide_less_0_iff)
  then show ?thesis using False assms by (cases "v = 0") (simp_all add: signed_divide_int_def sgn_if)
qed

lemma abs_bias_le: "0 < (d :: int) \<Longrightarrow> \<bar>v + d * sgn v\<bar> \<le> \<bar>v\<bar> + d"
  by (auto simp: sgn_if)

lemma ten_power_i64: "k \<le> 18 \<Longrightarrow> in_i64 (10 ^ k)"
proof -
  assume "k \<le> 18"
  then have "(10 :: int) ^ k \<le> 10 ^ 18" by (intro power_increasing) auto
  then show ?thesis by (auto simp: in_i64_def intro: order.trans [of _ 0])
qed

lemma eval_ten_power: "k \<le> 18 \<Longrightarrow> sqlite_eval env (number_literal (show_nat (10 ^ k))) = SInt (10 ^ k)"
  using eval_number_literal [of "10 ^ k" env] ten_power_i64 by simp

text \<open>
  C34. Moving an exact numeric to another scale rounds as PostgreSQL rounds: evaluated by SQLite's integer
  rules, the emitted expression answers the value at the new scale, halves away from zero, for every value
  whose minor units, with half a unit added, fit 64 bits; a null stays null.
\<close>

theorem rescaling_rounds_as_postgres:
  assumes "from \<le> 18" and "to \<le> 18"
    and "sqlite_eval env e = SNull \<or> (\<exists>v. sqlite_eval env e = SInt v \<and> \<bar>v\<bar> * 10 ^ (to - from) + 10 ^ (from - to) div 2 < 2 ^ 63)"
  shows "sqlite_eval env (rescale_minor_units e from to) = (case sqlite_eval env e of
    SInt v \<Rightarrow> SInt (pg_round (real_of_int v * 10 ^ to / 10 ^ from)) | other \<Rightarrow> other)"
proof -
  consider "from = to" | "from < to" | "to < from" by linarith
  then show ?thesis
  proof cases
    case 1
    then show ?thesis by (simp add: rescale_minor_units_def split: sval.splits)
  next
    case 2
    have p: "real_of_int v * 10 ^ to / 10 ^ from = of_int (v * 10 ^ (to - from))" for v
    proof -
      have "(10 :: real) ^ to = 10 ^ from * 10 ^ (to - from)" using 2 by (simp flip: power_add)
      then show ?thesis by simp
    qed
    have "in_i64 (v * 10 ^ (to - from))" if "\<bar>v\<bar> * 10 ^ (to - from) < 2 ^ 63" for v
    proof -
      have "\<bar>v * 10 ^ (to - from)\<bar> < 2 ^ 63" using that by (simp add: abs_mult)
      then show ?thesis unfolding in_i64_def by linarith
    qed
    then show ?thesis using 2 assms eval_ten_power [of "to - from" env]
      unfolding p pg_round_of_int by (auto simp: rescale_minor_units_def eval_simps int64_def)
  next
    case 3
    define k where "k = from - to - 1"
    have k: "from - to = Suc k" "k \<le> 17" using 3 assms by (simp_all add: k_def)
    have p: "real_of_int v * 10 ^ to / 10 ^ from = real_of_int v / real_of_int (2 * (5 * 10 ^ k))" for v
    proof -
      have "from = to + Suc k" using 3 k(1) by linarith
      then have "(10 :: real) ^ from = 10 ^ to * 10 ^ Suc k" by (simp add: power_add)
      then show ?thesis by simp
    qed
    let ?d = "5 * 10 ^ k :: int"
    have d: "0 < ?d" "in_i64 ?d" "in_i64 (2 * ?d)" using ten_power_i64 [of "Suc k"] k by (auto simp: in_i64_def)
    define half divisor where "half = number_literal (show_nat (10 ^ Suc k div 2))" and "divisor = number_literal (show_nat (10 ^ Suc k))"
    have lit: "sqlite_eval env half = SInt ?d" "sqlite_eval env divisor = SInt (2 * ?d)"
      using eval_number_literal [of "5 * 10 ^ k" env] eval_ten_power [of "Suc k" env] d k
      by (simp_all add: half_def divisor_def)
    have expr: "rescale_minor_units e from to = ENested (EBinaryOp (ENested (EBinaryOp e OpPlus
        (EBinaryOp half OpMultiply (simple_function_expr ''sign'' [e] None)))) OpDivide divisor)"
      using 3 k by (simp add: rescale_minor_units_def Let_def half_def divisor_def)
    from assms(3) show ?thesis
    proof
      assume "sqlite_eval env e = SNull"
      then show ?thesis unfolding expr by (simp add: eval_simps eval_function int_call_def lit)
    next
      assume "\<exists>v. sqlite_eval env e = SInt v \<and> \<bar>v\<bar> * 10 ^ (to - from) + 10 ^ (from - to) div 2 < 2 ^ 63"
      then obtain v where v: "sqlite_eval env e = SInt v" "\<bar>v\<bar> + ?d < 2 ^ 63" using k by auto
      have i: "in_i64 (?d * sgn v)" "in_i64 (v + ?d * sgn v)" using v(2) d by (auto simp: in_i64_def sgn_if)
      have "\<bar>(v + ?d * sgn v) sdiv (2 * ?d)\<bar> \<le> \<bar>v + ?d * sgn v\<bar>" by (rule sdiv_abs_le)
      moreover have "\<bar>v + ?d * sgn v\<bar> \<le> \<bar>v\<bar> + ?d" by (rule abs_bias_le [OF d(1)])
      moreover note v(2)
      ultimately have "in_i64 ((v + ?d * sgn v) sdiv (2 * ?d))" unfolding in_i64_def by linarith
      then show ?thesis unfolding expr using v i d pg_round_quotient [OF d(1), of v]
        by (simp add: eval_simps eval_function int_call_def lit int64_def p)
    qed
  qed
qed


theorem rescaling_rounds_as_postgres_witness:
  "sqlite_eval (\<lambda>_. SInt (- 1005)) (rescale_minor_units (EIdentifier (bare_ident ''price'')) 3 2)
     = SInt (pg_round (real_of_int (- 1005) * 10 ^ 2 / 10 ^ 3))"
  using rescaling_rounds_as_postgres [of 3 2 "\<lambda>_. SInt (- 1005)" "EIdentifier (bare_ident ''price'')"]
  by (simp add: sqlite_eval.simps)

section \<open>Floor and ceiling\<close>

lemma smod_twice:
  assumes "0 < (f :: int)"
  shows "(v smod f + f) smod f = v mod f"
proof -
  have "v smod f = (if v < 0 then - ((- v) mod f) else v mod f)"
    using assms by (simp add: signed_modulo_int_def sgn_if)
  then have "(v smod f) mod f = v mod f" using assms by (auto simp: mod_minus_eq)
  moreover have "0 \<le> v smod f + f" using smod_abs_less [of f v] assms by linarith
  then have "(v smod f + f) smod f = (v smod f + f) mod f"
    using assms by (cases "v smod f + f = 0") (simp_all add: signed_modulo_int_def)
  ultimately show ?thesis by simp
qed

lemma smod_abs_le: "\<bar>(a :: int) smod b\<bar> \<le> \<bar>a\<bar>"
proof (cases "b = 0")
  case False
  then have "0 \<le> \<bar>a\<bar> mod \<bar>b\<bar>" "\<bar>a\<bar> mod \<bar>b\<bar> \<le> \<bar>a\<bar>" by (simp_all add: zmod_le_nonneg_dividend)
  then show ?thesis by (cases "a = 0") (simp_all add: signed_modulo_int_def abs_mult abs_sgn_eq)
qed (simp add: signed_modulo_int_def abs_mult abs_sgn_eq)

lemma div_as_sdiv:
  assumes "0 < (f :: int)"
  shows "(v - v mod f) sdiv f = v div f" "\<bar>v div f\<bar> \<le> \<bar>v - v mod f\<bar>"
proof -
  show d: "(v - v mod f) sdiv f = v div f"
    using mult_sdiv_cancel [OF assms, of "v div f"] by (simp add: minus_mod_eq_div_mult)
  show "\<bar>v div f\<bar> \<le> \<bar>v - v mod f\<bar>" using sdiv_abs_le [of "v - v mod f" f] unfolding d .
qed

lemma floor_formula_value:
  assumes "0 < f" "\<bar>v\<bar> + int f < 2 ^ 63" "sqlite_eval env x = SInt v"
  shows "sqlite_eval env (floor_formula (show_nat f) x x) = SInt (v div int f)"
proof -
  have f: "0 < int f" "in_i64 (int f)" using assms(1,2) by (auto simp: in_i64_def)
  have lit: "sqlite_eval env (number_literal (show_nat f)) = SInt (int f)" by (rule eval_number_literal [OF f(2)])
  have m: "0 \<le> v mod int f" "v mod int f < int f" using f(1) by simp_all
  have i: "in_i64 (v smod int f + int f)" "in_i64 (v - v mod int f)" "in_i64 (v div int f)"
    using smod_abs_less [of "int f" v] smod_abs_le [of v "int f"] div_as_sdiv(2) [OF f(1), of v] assms(2) m f(1)
    unfolding in_i64_def by linarith+
  show ?thesis using assms(3) f i div_as_sdiv(1) [OF f(1), of v] smod_twice [OF f(1), of v]
    by (simp add: floor_formula_def eval_simps lit int64_def)
qed

text \<open>
  \<open>FLOOR\<close> and \<open>CEIL\<close> of an exact numeric are its floor and ceiling: the emitted integer formula, whose
  division truncates, answers the greatest integer not above the value and the least not below it, for
  every value with a unit to spare in 64 bits.
\<close>

lemma floor_and_ceiling_are_exact:
  assumes "0 < f" and "\<bar>v\<bar> + int f < 2 ^ 63" and "sqlite_eval env x = SInt v"
  shows "sqlite_eval env (numeric_floor_or_ceil x f Down) = SInt \<lfloor>real_of_int v / real f\<rfloor>
    \<and> sqlite_eval env (numeric_floor_or_ceil x f Up) = SInt \<lceil>real_of_int v / real f\<rceil>"
proof
  have q: "\<lfloor>real_of_int w / real f\<rfloor> = w div int f" for w by (metis floor_divide_of_int_eq of_int_of_nat_eq)
  show "sqlite_eval env (numeric_floor_or_ceil x f Down) = SInt \<lfloor>real_of_int v / real f\<rfloor>"
    using floor_formula_value [OF assms] by (simp add: numeric_floor_or_ceil_def q)
  have "in_i64 (- v)" using assms(2) by (auto simp: in_i64_def)
  then have n: "sqlite_eval env (EUnaryOp UnMinus x) = SInt (- v)" using assms(3) by (simp add: eval_simps int64_def)
  have c: "\<lceil>real_of_int v / real f\<rceil> = - ((- v) div int f)" using q [of "- v"] by (simp add: ceiling_def)
  have f: "0 < int f" using assms(1) by simp
  have "0 \<le> (- v) mod int f" "(- v) mod int f < int f" using f by simp_all
  then have "in_i64 (- ((- v) div int f))"
    using div_as_sdiv(2) [OF f, of "- v"] assms(2) unfolding in_i64_def by linarith
  then show "sqlite_eval env (numeric_floor_or_ceil x f Up) = SInt \<lceil>real_of_int v / real f\<rceil>"
    using floor_formula_value [OF assms(1) _ n] assms(2) by (simp add: numeric_floor_or_ceil_def eval_simps int64_def c)
qed

theorem floor_and_ceiling_are_exact_witness:
  "sqlite_eval (\<lambda>_. SInt (- 150)) (numeric_floor_or_ceil (EIdentifier (bare_ident ''price'')) 100 Up)
     = SInt \<lceil>real_of_int (- 150) / real 100\<rceil>"
  using floor_and_ceiling_are_exact [of 100 "- 150" "\<lambda>_. SInt (- 150)" "EIdentifier (bare_ident ''price'')"]
  by (simp add: sqlite_eval.simps)

section \<open>Text and literals\<close>

text \<open>What PostgreSQL prints for \<open>n\<close> minor units: the sign, the whole part without leading zeros, and exactly
  \<open>scale\<close> decimals.\<close>

definition numeric_out :: "int \<Rightarrow> nat \<Rightarrow> string" where
  "numeric_out n scale = (if n < 0 then ''-'' else []) @ show_nat (nat \<bar>n\<bar> div 10 ^ scale) @ ''.'' @ pad0 scale (nat \<bar>n\<bar> mod 10 ^ scale)"

lemma show_nat_0: "show_nat 0 = ''0''"
  by code_simp

lemma printf_numeric:
  assumes "0 \<le> w" "0 \<le> fr"
  shows "printf (''%s%d.%0'' @ show_nat scale @ ''d'') [SText sg, SInt w, SInt fr]
    = Some (sg @ show_int w @ ''.'' @ pad0 scale (nat fr))"
proof -
  have "takeWhile is_ascii_digit (show_nat scale @ ''d'') = show_nat scale" "dropWhile is_ascii_digit (show_nat scale @ ''d'') = ''d''"
    using all_digitsD [OF show_nat_digits, of _ scale] by (simp_all add: takeWhile_append2 dropWhile_append2 is_ascii_digit_def)
  moreover have "\<not> is_ascii_digit (CHR ''d'')" by (simp add: is_ascii_digit_def)
  ultimately show ?thesis using assms(2) by (simp add: Let_def)
qed

lemma rendered_text:
  assumes "sqlite_eval env e = SInt n" "\<bar>n\<bar> < 2 ^ 63" "scale \<le> 18"
  shows "sqlite_eval env (render_minor_units_as_text e scale) = SText (numeric_out n scale)"
proof -
  let ?f = "10 ^ scale :: int"
  define factor where "factor = number_literal (show_nat (10 ^ scale))"
  have lit: "sqlite_eval env factor = SInt ?f" "sqlite_eval env (number_literal ''0'') = SInt 0"
    using eval_ten_power [OF assms(3), of env] eval_number_literal [of 0 env]
    by (simp_all add: factor_def show_nat_0 in_i64_def)
  have q: "0 \<le> \<bar>n\<bar> div ?f" "\<bar>n\<bar> div ?f \<le> \<bar>n\<bar>" using zdiv_mono2 [of "\<bar>n\<bar>" 1 ?f] by (simp_all add: pos_imp_zdiv_nonneg_iff)
  have d: "\<bar>n\<bar> sdiv ?f = \<bar>n\<bar> div ?f" "\<bar>n\<bar> smod ?f = \<bar>n\<bar> mod ?f"
    by (simp_all add: signed_divide_int_def signed_modulo_int_def sgn_if)
  have i: "in_i64 \<bar>n\<bar>" "in_i64 (\<bar>n\<bar> div ?f)" using assms(2) q unfolding in_i64_def by linarith+
  have nat: "nat (\<bar>n\<bar> div ?f) = nat \<bar>n\<bar> div 10 ^ scale" "nat (\<bar>n\<bar> mod ?f) = nat \<bar>n\<bar> mod 10 ^ scale"
    by (simp_all add: nat_div_distrib nat_mod_distrib nat_power_eq)
  have "sqlite_eval env (case_when (EBinaryOp e OpLt (number_literal ''0'')) (string_literal ''-'') (Some (string_literal [])))
      = SText (if n < 0 then ''-'' else [])"
    using assms(1) lit by (simp add: eval_case_when eval_simps eval_string_literal)
  moreover have "printf (''%s%d.%0'' @ show_nat scale @ ''d'') [SText (if n < 0 then ''-'' else []), SInt (\<bar>n\<bar> div ?f), SInt (\<bar>n\<bar> mod ?f)]
      = Some (numeric_out n scale)"
    using printf_numeric [OF q(1), of "\<bar>n\<bar> mod ?f" scale] q(1) by (simp add: numeric_out_def show_int_def nat del: printf.simps)
  ultimately show ?thesis
    using assms(1) i by (simp add: render_minor_units_as_text_def Let_def eval_case_when eval_simps eval_function eval_string_literal
        printf_call_def int_call_def int64_def d lit(1) of_truth_def flip: factor_def del: printf.simps)
qed


lemma digits_value_unique:
  "all_digits s \<Longrightarrow> all_digits t \<Longrightarrow> length s = length t \<Longrightarrow> digits_value s = digits_value t \<Longrightarrow> s = t"
proof (induction s arbitrary: t rule: rev_induct)
  case (snoc c s)
  then obtain d u where t: "t = u @ [d]" by (metis length_0_conv rev_exhaust snoc_eq_iff_butlast)
  have digits: "digit_val c < 10" "digit_val d < 10" if "is_ascii_digit c" "is_ascii_digit d" for c d
    using that by (auto simp: digit_val_def is_ascii_digit_def)
  have "digits_value s * 10 + digit_val c = digits_value u * 10 + digit_val d" using snoc.prems(4) t by simp
  moreover have "digit_val c < 10" "digit_val d < 10" using snoc.prems(1,2) t digits by auto
  ultimately have "digits_value s = digits_value u \<and> digit_val c = digit_val d" by presburger
  then have "digits_value s = digits_value u" "digit_val c = digit_val d" by simp_all
  moreover from this(2) have "c = d" using snoc.prems(1,2) t digit_char_digit_val by (metis all_digits_simps(2,3))
  ultimately show ?case using snoc t by simp
qed simp

lemma pad0_digits_value:
  assumes "all_digits s" "s \<noteq> []"
  shows "pad0 (length s) (digits_value s) = s"
  using assms by (intro digits_value_unique) (simp_all add: length_pad0 digits_value_less)

text \<open>A decimal as it is written: the whole part, and the fraction after a point when there is one.\<close>

definition decimal_text :: "nat \<Rightarrow> string \<Rightarrow> string" where
  "decimal_text w dec = show_nat w @ (if dec = [] then [] else ''.'' @ dec)"

definition minor_units :: "nat \<Rightarrow> string \<Rightarrow> nat \<Rightarrow> nat" where
  "minor_units w dec scale = digits_value (show_nat w @ dec @ replicate (scale - length dec) (CHR ''0''))"

lemma not_in_digits: "all_digits s \<Longrightarrow> \<not> is_ascii_digit c \<Longrightarrow> c \<notin> set s"
  using all_digitsD by blast

lemma scaled_written:
  assumes "all_digits dec" "length dec \<le> scale" and sgn: "sg \<in> {[], ''-''}"
    and "signed_digits e = Some (negated, sg @ decimal_text w dec)"
  shows "scale_decimal_literal e scale = ok (Some (EValue (LNumber ((if negated then ''-'' else []) @ sg
    @ show_nat w @ dec @ replicate (scale - length dec) (CHR ''0'')) False)))"
proof -
  have c: "CHR ''e'' \<notin> set (sg @ decimal_text w dec)" "CHR ''E'' \<notin> set (sg @ decimal_text w dec)" "CHR ''.'' \<notin> set (sg @ show_nat w)"
    using sgn not_in_digits [OF assms(1)] not_in_digits [OF show_nat_digits, of _ w]
    by (auto simp: decimal_text_def is_ascii_digit_def)
  have s: "(case split_once (CHR ''.'') (sg @ decimal_text w dec) of None \<Rightarrow> (sg @ decimal_text w dec, []) | Some p \<Rightarrow> p) = (sg @ show_nat w, dec)"
  proof (cases "dec = []")
    case True
    then have "split_once (CHR ''.'') (sg @ decimal_text w dec) = None" using c(3) by (simp add: decimal_text_def split_once_None_iff)
    then show ?thesis using True by (simp add: decimal_text_def)
  next
    case False
    then show ?thesis using split_once_append [OF c(3), of dec] by (simp add: decimal_text_def)
  qed
  show ?thesis using assms(2) c unfolding scale_decimal_literal_def assms(4) by (simp add: s Let_def)
qed

lemma minor_units_parts:
  assumes "all_digits dec" "length dec \<le> scale" "0 < scale"
  shows "minor_units w dec scale div 10 ^ scale = w"
    and "pad0 scale (minor_units w dec scale mod 10 ^ scale) = dec @ replicate (scale - length dec) (CHR ''0'')"
proof -
  let ?t = "dec @ replicate (scale - length dec) (CHR ''0'')"
  have t: "all_digits ?t" "length ?t = scale" "?t \<noteq> []" using assms by auto
  then have less: "digits_value ?t < 10 ^ scale" using digits_value_less [OF t(1)] by simp
  have m: "minor_units w dec scale = w * 10 ^ scale + digits_value ?t"
    unfolding minor_units_def digits_value_append [of "show_nat w"] t(2) by simp
  show "minor_units w dec scale div 10 ^ scale = w" using less m by simp
  have "minor_units w dec scale mod 10 ^ scale = digits_value ?t" using less m by simp
  then show "pad0 scale (minor_units w dec scale mod 10 ^ scale) = ?t" using pad0_digits_value [OF t(1,3)] t(2) by simp
qed

lemma stored_units:
  assumes "all_digits dec" "minor_units w dec scale < 2 ^ 63"
  shows "sqlite_eval env (EValue (LNumber ((if neg then ''-'' else []) @ show_nat w @ dec @ replicate (scale - length dec) (CHR ''0'')) False))
    = SInt (if neg then - int (minor_units w dec scale) else int (minor_units w dec scale))"
proof -
  have "hd (show_nat w) \<noteq> CHR ''-''" using all_digitsD [of "show_nat w" "hd (show_nat w)"] by (auto simp: is_ascii_digit_def)
  then show ?thesis using assms by (simp add: eval_simps minor_units_def int64_def in_i64_def)
qed

lemma quoted_written:
  assumes "all_digits dec" and sg: "sg \<in> {[], ''-''}"
  shows "numeric_text_literal (string_literal (sg @ decimal_text w dec)) = ok (Some (number_literal (sg @ decimal_text w dec)))"
proof -
  have h: "hd (decimal_text w dec) = hd (show_nat w)" "is_ascii_digit (hd (show_nat w))" "decimal_text w dec \<noteq> []"
    using all_digitsD [of "show_nat w" "hd (show_nat w)"] by (auto simp: decimal_text_def)
  have l: "is_ascii_digit (last (decimal_text w dec))"
    using all_digitsD [OF show_nat_digits, of "last (show_nat w)" w] all_digitsD [OF assms(1), of "last dec"] by (simp add: decimal_text_def)
  have ws: "\<not> is_whitespace (hd (sg @ decimal_text w dec))" "\<not> is_whitespace (last (sg @ decimal_text w dec))"
    using sg h l digit_not_whitespace by (auto simp: is_whitespace_def)
  have t: "trim (sg @ decimal_text w dec) = sg @ decimal_text w dec" using h(3) ws by (intro trim_id) auto
  have sign: "hd (show_nat w) \<noteq> CHR ''-''" "hd (show_nat w) \<noteq> CHR ''+''" using h(2) by (auto simp: is_ascii_digit_def)
  have all: "list_all (\<lambda>c. is_ascii_digit c \<or> c = CHR ''.'') (decimal_text w dec)" "list_ex is_ascii_digit (decimal_text w dec)"
    using all_digitsD [OF show_nat_digits, of _ w] all_digitsD [OF assms(1)] h(2) list.set_sel(1) [OF show_nat_nonempty, of w]
    by (fastforce simp: decimal_text_def list_all_iff list_ex_iff)+
  have "filter (\<lambda>c. c = CHR ''.'') d = []" if "all_digits d" for d
    using that by (auto simp: filter_empty_conv is_ascii_digit_def dest: all_digitsD)
  then have one: "length (filter (\<lambda>c. c = CHR ''.'') (decimal_text w dec)) \<le> 1" using assms(1) by (simp add: decimal_text_def)
  show ?thesis using sg h sign all one t
    by (auto simp: numeric_text_literal_def quoted_decimal_as_number_def Let_def string_literal_def number_literal_def ok_or_def starts_with_def)
qed

text \<open>
  C37. A decimal survives its storage: written bare, behind a sign or in quotes, with no more decimals than
  its column, it is stored as a count of minor units which SQLite prints back as the decimal written, its
  fraction padded to the scale of the column.
\<close>

theorem decimals_survive_storage:
  assumes "all_digits dec" and "length dec \<le> scale" and "0 < scale" and "scale \<le> 18"
    and "minor_units w dec scale < 2 ^ 63" and "neg \<longrightarrow> 0 < minor_units w dec scale"
  shows "\<exists>quoted. numeric_text_literal (string_literal ((if neg then ''-'' else []) @ decimal_text w dec)) = ok (Some quoted)
    \<and> (\<forall>e \<in> {quoted, if neg then EUnaryOp UnMinus (number_literal (decimal_text w dec)) else number_literal (decimal_text w dec)}.
      \<exists>stored. scale_decimal_literal e scale = ok (Some stored)
        \<and> sqlite_eval env (render_minor_units_as_text stored scale)
          = SText ((if neg then ''-'' else []) @ show_nat w @ ''.'' @ dec @ replicate (scale - length dec) (CHR ''0'')))"
proof -
  define sg where "sg = (if neg then ''-'' else [])"
  have sg: "sg \<in> {[], ''-''}" by (simp add: sg_def)
  define stored where "stored = EValue (LNumber (sg @ show_nat w @ dec @ replicate (scale - length dec) (CHR ''0'')) False)"
  define n where "n = (if neg then - int (minor_units w dec scale) else int (minor_units w dec scale))"
  have "sqlite_eval env stored = SInt n" unfolding stored_def n_def sg_def by (rule stored_units [OF assms(1,5)])
  moreover have "\<bar>n\<bar> < 2 ^ 63" using assms(5) by (auto simp: n_def)
  ultimately have "sqlite_eval env (render_minor_units_as_text stored scale) = SText (numeric_out n scale)"
    using rendered_text assms(4) by blast
  moreover have "numeric_out n scale = sg @ show_nat w @ ''.'' @ dec @ replicate (scale - length dec) (CHR ''0'')"
    using assms(6) minor_units_parts [OF assms(1,2,3), of w] by (simp add: numeric_out_def n_def sg_def)
  moreover have "scale_decimal_literal (number_literal (sg @ decimal_text w dec)) scale = ok (Some stored)"
    "scale_decimal_literal (if neg then EUnaryOp UnMinus (number_literal (decimal_text w dec)) else number_literal (decimal_text w dec)) scale = ok (Some stored)"
    using scaled_written [OF assms(1,2) sg, of _ False w] scaled_written [OF assms(1,2), of "[]" _ neg w]
    by (simp_all add: signed_digits_def number_literal_def stored_def sg_def)
  ultimately show ?thesis using quoted_written [OF assms(1) sg, of w] unfolding sg_def [symmetric] by auto
qed

theorem decimals_survive_storage_witness:
  "\<exists>quoted. numeric_text_literal (string_literal ''-19.9'') = ok (Some quoted)
    \<and> (\<exists>stored. scale_decimal_literal quoted 2 = ok (Some stored)
        \<and> sqlite_eval (\<lambda>_. SNull) (render_minor_units_as_text stored 2) = SText ''-19.90'')"
proof -
  have s: "show_nat 19 = ''19''" "decimal_text 19 ''9'' = ''19.9''" "minor_units 19 ''9'' 2 = 1990"
    "all_digits ''9''" "replicate (2 - length ''9'') (CHR ''0'') = ''0''" by code_simp+
  show ?thesis using decimals_survive_storage [of "''9''" 2 19 True "\<lambda>_. SNull", unfolded s] by (auto simp: is_ascii_digit_def)
qed

end
