(* ===== verification/Expr_Nodes.thy ===== *)
theory Expr_Nodes
  imports Sql_Ast
begin

text \<open>
  One node of the syntax-tree crate's expression type, over the types of its expressions and of its
  queries, with every variant the walkers of \<open>src/src/impls/expr_helpers.rs\<close> have an arm for. What no walker
  looks into (data types, operators, options) is a spelling.
\<close>

datatype (plugins only: code) 'e subscript = SubIndex 'e | SubSlice "'e option" "'e option" "'e option"

datatype (plugins only: code) 'e access_expr = AccessDot 'e | AccessSubscript "'e subscript"

datatype (plugins only: code) 'e json_path_elem = PathDot string bool | PathBracket 'e | PathColonBracket 'e

datatype (plugins only: code) 'e order_by_expr = OrderBy 'e string

datatype (plugins only: code) 'e frame_bound = CurrentRow | Preceding "'e option" | Following "'e option"

datatype (plugins only: code) 'e window_frame = Frame string "'e frame_bound" "'e frame_bound option"

datatype (plugins only: code) 'e window_spec = Window "ident option" "'e list" "'e order_by_expr list" "'e window_frame option"

datatype (plugins only: code) 'e window_type = WindowSpec "'e window_spec" | NamedWindow ident

datatype (plugins only: code) 'e arg_expr = ArgOf 'e | ArgAllOf object_name | ArgAll

datatype (plugins only: code) 'e call_arg = CallNamed ident "'e arg_expr" string | CallExprNamed 'e "'e arg_expr" string | CallUnnamed "'e arg_expr"

datatype (plugins only: code) 'e arg_clause = ClauseWhere 'e | ClauseOrderBy "'e order_by_expr list" | ClauseLimit 'e | ClauseHaving string 'e
  | ClauseOther string

datatype (plugins only: code) ('e, 'q) call_args = CallNone | CallSubquery 'q | CallList string "'e call_arg list" "'e arg_clause list"

datatype (plugins only: code) ('e, 'q) call = Call object_name bool "('e, 'q) call_args" "('e, 'q) call_args" "'e order_by_expr list" "'e option" string
    "'e window_type option"

datatype (plugins only: code) ('e, 'q) in_target = TargetList "'e list" | TargetSubquery 'q | TargetUnnest 'e

text \<open>The variants of an expression, in the groups of the walkers: no child, one, two, several.\<close>

datatype (plugins only: code) leaf_node = NIdentifier ident | NCompoundIdentifier "ident list" | NValue string | NTypedString string | NWildcard
  | NQualifiedWildcard object_name | NMatchAgainst string

datatype (plugins only: code) 'e single_node =
    NIsFalse 'e | NIsNotFalse 'e | NIsTrue 'e | NIsNotTrue 'e | NIsNull 'e | NIsNotNull 'e | NIsUnknown 'e | NIsNotUnknown 'e
  | NNested 'e | NOuterJoin 'e | NPrior 'e
  | NPrefixed ident 'e | NNamed 'e ident | NIsNormalized 'e string bool | NIsJson 'e string string bool
  | NUnaryOp string 'e | NCast string 'e string string | NExtract string string 'e | NCeil 'e string | NFloor 'e string
  | NCollate 'e object_name | NInterval 'e string | NLambda string 'e string

datatype (plugins only: code) 'e double_node =
    NIsDistinctFrom 'e 'e | NIsNotDistinctFrom 'e 'e | NBinaryOp 'e string 'e | NAnyOp 'e string 'e bool | NAllOp 'e string 'e
  | NLike bool bool 'e 'e string | NILike bool bool 'e 'e string | NSimilarTo bool 'e 'e string | NRLike bool 'e 'e bool
  | NAtTimeZone 'e 'e | NPosition 'e 'e | NMemberOf 'e 'e

datatype (plugins only: code) 'e several_node =
    NConvert bool 'e string string bool "'e list" | NBetween 'e bool 'e 'e | NOverlay 'e 'e 'e "'e option"
  | NTuple "'e list" | NArray "'e list" bool | NGroupingSets "'e list list" | NCube "'e list list" | NRollup "'e list list"
  | NStruct "'e list" string | NSubstring 'e "'e option" "'e option" bool bool | NTrim 'e string "'e option" "'e list option"
  | NCase "'e option" "('e \<times> 'e) list" "'e option" | NCompoundFieldAccess 'e "'e access_expr list"
  | NJsonAccess 'e "'e json_path_elem list" | NDictionary "(ident \<times> 'e) list" | NMap "('e \<times> 'e) list"

datatype (plugins only: code) ('e, 'q) node = NLeaf leaf_node | NSingle "'e single_node" | NDouble "'e double_node" | NSeveral "'e several_node"
  | NIn 'e "('e, 'q) in_target" bool bool | NSubquery 'q | NExists 'q bool | NFunction "('e, 'q) call"

end
