(* ===== verification/Expr_Walk.thy ===== *)
theory Expr_Walk
  imports Expr_Nodes
begin

text \<open>
  The walkers over one expression node, \<open>src/src/impls/expr_helpers.rs\<close>: the fallible map over the children
  that every rebuilding walker goes through, its two infallible adapters, and the hand-written read-only
  walk. A callback threads a state and may
  fail, so the order of the calls and the point where they stop are part of what is proved.
\<close>

section \<open>Callbacks\<close>

type_synonym ('s, 'r, 'a) walk = "'s \<Rightarrow> ('r + 'a) \<times> 's"

definition wret :: "'a \<Rightarrow> ('s, 'r, 'a) walk" where
  "wret x s = (Inr x, s)"

definition wbind :: "('s, 'r, 'a) walk \<Rightarrow> ('a \<Rightarrow> ('s, 'r, 'b) walk) \<Rightarrow> ('s, 'r, 'b) walk" where
  "wbind m k s = (case m s of (Inl e, t) \<Rightarrow> (Inl e, t) | (Inr x, t) \<Rightarrow> k x t)"

definition wmap :: "('a \<Rightarrow> 'b) \<Rightarrow> ('s, 'r, 'a) walk \<Rightarrow> ('s, 'r, 'b) walk" where
  "wmap c m = wbind m (\<lambda>x. wret (c x))"

definition wmap2 :: "('a \<Rightarrow> 'b \<Rightarrow> 'c) \<Rightarrow> ('s, 'r, 'a) walk \<Rightarrow> ('s, 'r, 'b) walk \<Rightarrow> ('s, 'r, 'c) walk" where
  "wmap2 c m n = wbind m (\<lambda>x. wbind n (\<lambda>y. wret (c x y)))"

definition wmap3 :: "('a \<Rightarrow> 'b \<Rightarrow> 'c \<Rightarrow> 'd) \<Rightarrow> ('s, 'r, 'a) walk \<Rightarrow> ('s, 'r, 'b) walk \<Rightarrow> ('s, 'r, 'c) walk \<Rightarrow> ('s, 'r, 'd) walk" where
  "wmap3 c m n p = wbind m (\<lambda>x. wmap2 (c x) n p)"

definition wmap4 :: "('a \<Rightarrow> 'b \<Rightarrow> 'c \<Rightarrow> 'd \<Rightarrow> 'e) \<Rightarrow> ('s, 'r, 'a) walk \<Rightarrow> ('s, 'r, 'b) walk \<Rightarrow> ('s, 'r, 'c) walk
    \<Rightarrow> ('s, 'r, 'd) walk \<Rightarrow> ('s, 'r, 'e) walk" where
  "wmap4 c m n p q = wbind m (\<lambda>x. wmap3 (c x) n p q)"

definition wmap5 :: "('a \<Rightarrow> 'b \<Rightarrow> 'c \<Rightarrow> 'd \<Rightarrow> 'e \<Rightarrow> 'f) \<Rightarrow> ('s, 'r, 'a) walk \<Rightarrow> ('s, 'r, 'b) walk \<Rightarrow> ('s, 'r, 'c) walk
    \<Rightarrow> ('s, 'r, 'd) walk \<Rightarrow> ('s, 'r, 'e) walk \<Rightarrow> ('s, 'r, 'f) walk" where
  "wmap5 c m n p q r = wbind m (\<lambda>x. wmap4 (c x) n p q r)"

text \<open>\<open>iter().map(f).collect()\<close> over a list and \<open>map(f).transpose()\<close> over an option stop at the first error.\<close>

fun wlist :: "('a \<Rightarrow> ('s, 'r, 'b) walk) \<Rightarrow> 'a list \<Rightarrow> ('s, 'r, 'b list) walk" where
  "wlist f [] = wret []"
| "wlist f (x # xs) = wmap2 (#) (f x) (wlist f xs)"

fun wopt :: "('a \<Rightarrow> ('s, 'r, 'b) walk) \<Rightarrow> 'a option \<Rightarrow> ('s, 'r, 'b option) walk" where
  "wopt f None = wret None"
| "wopt f (Some x) = wmap Some (f x)"

section \<open>The rebuilding walk\<close>

definition try_map_order_by_exprs :: "('e \<Rightarrow> ('s, 'r, 'f) walk) \<Rightarrow> 'e order_by_expr list \<Rightarrow> ('s, 'r, 'f order_by_expr list) walk" where
  "try_map_order_by_exprs f = wlist (\<lambda>key. case key of OrderBy e options \<Rightarrow> wmap (\<lambda>e. OrderBy e options) (f e))"

primrec try_map_window_frame_bound :: "('e \<Rightarrow> ('s, 'r, 'f) walk) \<Rightarrow> 'e frame_bound \<Rightarrow> ('s, 'r, 'f frame_bound) walk" where
  "try_map_window_frame_bound f CurrentRow = wret CurrentRow"
| "try_map_window_frame_bound f (Preceding offset) = (case offset of None \<Rightarrow> wret (Preceding None) | Some e \<Rightarrow> wmap (\<lambda>e. Preceding (Some e)) (f e))"
| "try_map_window_frame_bound f (Following offset) = (case offset of None \<Rightarrow> wret (Following None) | Some e \<Rightarrow> wmap (\<lambda>e. Following (Some e)) (f e))"

primrec try_map_window_frame :: "('e \<Rightarrow> ('s, 'r, 'f) walk) \<Rightarrow> 'e window_frame \<Rightarrow> ('s, 'r, 'f window_frame) walk" where
  "try_map_window_frame f (Frame units start_bound end_bound) =
     wmap2 (Frame units) (try_map_window_frame_bound f start_bound) (wopt (try_map_window_frame_bound f) end_bound)"

primrec try_map_window_spec :: "('e \<Rightarrow> ('s, 'r, 'f) walk) \<Rightarrow> 'e window_spec \<Rightarrow> ('s, 'r, 'f window_spec) walk" where
  "try_map_window_spec f (Window name partition_by order_by frame) =
     wmap3 (Window name) (wlist f partition_by) (try_map_order_by_exprs f order_by) (wopt (try_map_window_frame f) frame)"

primrec try_map_function_argument_clause :: "('e \<Rightarrow> ('s, 'r, 'f) walk) \<Rightarrow> 'e arg_clause \<Rightarrow> ('s, 'r, 'f arg_clause) walk" where
  "try_map_function_argument_clause f (ClauseWhere e) = wmap ClauseWhere (f e)"
| "try_map_function_argument_clause f (ClauseOrderBy keys) = wmap ClauseOrderBy (try_map_order_by_exprs f keys)"
| "try_map_function_argument_clause f (ClauseLimit e) = wmap ClauseLimit (f e)"
| "try_map_function_argument_clause f (ClauseHaving kind e) = wmap (ClauseHaving kind) (f e)"
| "try_map_function_argument_clause f (ClauseOther c) = wret (ClauseOther c)"

primrec try_map_function_arg_expr :: "('e \<Rightarrow> ('s, 'r, 'f) walk) \<Rightarrow> 'e arg_expr \<Rightarrow> ('s, 'r, 'f arg_expr) walk" where
  "try_map_function_arg_expr f (ArgOf e) = wmap ArgOf (f e)"
| "try_map_function_arg_expr f (ArgAllOf n) = wret (ArgAllOf n)"
| "try_map_function_arg_expr f ArgAll = wret ArgAll"

primrec try_map_function_arg :: "('e \<Rightarrow> ('s, 'r, 'f) walk) \<Rightarrow> 'e call_arg \<Rightarrow> ('s, 'r, 'f call_arg) walk" where
  "try_map_function_arg f (CallNamed name arg operator) = wmap (\<lambda>a. CallNamed name a operator) (try_map_function_arg_expr f arg)"
| "try_map_function_arg f (CallExprNamed name arg operator) =
     wmap2 (\<lambda>n a. CallExprNamed n a operator) (f name) (try_map_function_arg_expr f arg)"
| "try_map_function_arg f (CallUnnamed arg) = wmap CallUnnamed (try_map_function_arg_expr f arg)"

primrec try_map_function_arguments :: "('e \<Rightarrow> ('s, 'r, 'f) walk) \<Rightarrow> ('q \<Rightarrow> ('s, 'r, 'p) walk) \<Rightarrow> ('e, 'q) call_args
    \<Rightarrow> ('s, 'r, ('f, 'p) call_args) walk" where
  "try_map_function_arguments f f_query CallNone = wret CallNone"
| "try_map_function_arguments f f_query (CallSubquery query) = wmap CallSubquery (f_query query)"
| "try_map_function_arguments f f_query (CallList duplicates args clauses) =
     wmap2 (CallList duplicates) (wlist (try_map_function_arg f) args) (wlist (try_map_function_argument_clause f) clauses)"

primrec try_map_over :: "('e \<Rightarrow> ('s, 'r, 'f) walk) \<Rightarrow> 'e window_type \<Rightarrow> ('s, 'r, 'f window_type) walk" where
  "try_map_over f (WindowSpec spec) = wmap WindowSpec (try_map_window_spec f spec)"
| "try_map_over f (NamedWindow w) = wret (NamedWindow w)"

primrec try_map_function_children :: "('e \<Rightarrow> ('s, 'r, 'f) walk) \<Rightarrow> ('q \<Rightarrow> ('s, 'r, 'p) walk) \<Rightarrow> ('e, 'q) call
    \<Rightarrow> ('s, 'r, ('f, 'p) call) walk" where
  "try_map_function_children f f_query (Call name odbc parameters args within_group flt nulls over) =
     wmap5 (\<lambda>parameters args within_group flt over. Call name odbc parameters args within_group flt nulls over)
       (try_map_function_arguments f f_query parameters) (try_map_function_arguments f f_query args)
       (try_map_order_by_exprs f within_group) (wopt f flt) (wopt (try_map_over f) over)"

primrec try_map_subscript :: "('e \<Rightarrow> ('s, 'r, 'f) walk) \<Rightarrow> 'e subscript \<Rightarrow> ('s, 'r, 'f subscript) walk" where
  "try_map_subscript f (SubIndex index) = wmap SubIndex (f index)"
| "try_map_subscript f (SubSlice lower_bound upper_bound stride) =
     wmap3 SubSlice (wopt f lower_bound) (wopt f upper_bound) (wopt f stride)"

primrec try_map_access_expr :: "('e \<Rightarrow> ('s, 'r, 'f) walk) \<Rightarrow> 'e access_expr \<Rightarrow> ('s, 'r, 'f access_expr) walk" where
  "try_map_access_expr f (AccessDot e) = wmap AccessDot (f e)"
| "try_map_access_expr f (AccessSubscript sub) = wmap AccessSubscript (try_map_subscript f sub)"

primrec try_map_json_path_elem :: "('e \<Rightarrow> ('s, 'r, 'f) walk) \<Rightarrow> 'e json_path_elem \<Rightarrow> ('s, 'r, 'f json_path_elem) walk" where
  "try_map_json_path_elem f (PathDot key quoted) = wret (PathDot key quoted)"
| "try_map_json_path_elem f (PathBracket key) = wmap PathBracket (f key)"
| "try_map_json_path_elem f (PathColonBracket key) = wmap PathColonBracket (f key)"

primrec try_map_single :: "('e \<Rightarrow> ('s, 'r, 'f) walk) \<Rightarrow> 'e single_node \<Rightarrow> ('s, 'r, 'f single_node) walk" where
  "try_map_single f (NIsFalse e) = wmap NIsFalse (f e)"
| "try_map_single f (NIsNotFalse e) = wmap NIsNotFalse (f e)"
| "try_map_single f (NIsTrue e) = wmap NIsTrue (f e)"
| "try_map_single f (NIsNotTrue e) = wmap NIsNotTrue (f e)"
| "try_map_single f (NIsNull e) = wmap NIsNull (f e)"
| "try_map_single f (NIsNotNull e) = wmap NIsNotNull (f e)"
| "try_map_single f (NIsUnknown e) = wmap NIsUnknown (f e)"
| "try_map_single f (NIsNotUnknown e) = wmap NIsNotUnknown (f e)"
| "try_map_single f (NNested e) = wmap NNested (f e)"
| "try_map_single f (NOuterJoin e) = wmap NOuterJoin (f e)"
| "try_map_single f (NPrior e) = wmap NPrior (f e)"
| "try_map_single f (NPrefixed prefix v) = wmap (NPrefixed prefix) (f v)"
| "try_map_single f (NNamed e name) = wmap (\<lambda>e. NNamed e name) (f e)"
| "try_map_single f (NIsNormalized e form negated) = wmap (\<lambda>e. NIsNormalized e form negated) (f e)"
| "try_map_single f (NIsJson e kind unique_keys negated) = wmap (\<lambda>e. NIsJson e kind unique_keys negated) (f e)"
| "try_map_single f (NUnaryOp op e) = wmap (NUnaryOp op) (f e)"
| "try_map_single f (NCast kind e data_type format) = wmap (\<lambda>e. NCast kind e data_type format) (f e)"
| "try_map_single f (NExtract field_of syn e) = wmap (NExtract field_of syn) (f e)"
| "try_map_single f (NCeil e field_of) = wmap (\<lambda>e. NCeil e field_of) (f e)"
| "try_map_single f (NFloor e field_of) = wmap (\<lambda>e. NFloor e field_of) (f e)"
| "try_map_single f (NCollate e collation) = wmap (\<lambda>e. NCollate e collation) (f e)"
| "try_map_single f (NInterval e qualifiers) = wmap (\<lambda>e. NInterval e qualifiers) (f e)"
| "try_map_single f (NLambda params body syn) = wmap (\<lambda>e. NLambda params e syn) (f body)"

primrec try_map_double :: "('e \<Rightarrow> ('s, 'r, 'f) walk) \<Rightarrow> 'e double_node \<Rightarrow> ('s, 'r, 'f double_node) walk" where
  "try_map_double f (NIsDistinctFrom a b) = wmap2 NIsDistinctFrom (f a) (f b)"
| "try_map_double f (NIsNotDistinctFrom a b) = wmap2 NIsNotDistinctFrom (f a) (f b)"
| "try_map_double f (NBinaryOp l op r) = wmap2 (\<lambda>l r. NBinaryOp l op r) (f l) (f r)"
| "try_map_double f (NAnyOp l op r is_some) = wmap2 (\<lambda>l r. NAnyOp l op r is_some) (f l) (f r)"
| "try_map_double f (NAllOp l op r) = wmap2 (\<lambda>l r. NAllOp l op r) (f l) (f r)"
| "try_map_double f (NLike negated any e pattern esc) = wmap2 (\<lambda>e p. NLike negated any e p esc) (f e) (f pattern)"
| "try_map_double f (NILike negated any e pattern esc) = wmap2 (\<lambda>e p. NILike negated any e p esc) (f e) (f pattern)"
| "try_map_double f (NSimilarTo negated e pattern esc) = wmap2 (\<lambda>e p. NSimilarTo negated e p esc) (f e) (f pattern)"
| "try_map_double f (NRLike negated e pattern regexp) = wmap2 (\<lambda>e p. NRLike negated e p regexp) (f e) (f pattern)"
| "try_map_double f (NAtTimeZone timestamp time_zone) = wmap2 NAtTimeZone (f timestamp) (f time_zone)"
| "try_map_double f (NPosition e within) = wmap2 NPosition (f e) (f within)"
| "try_map_double f (NMemberOf v array) = wmap2 NMemberOf (f v) (f array)"

primrec try_map_several :: "('e \<Rightarrow> ('s, 'r, 'f) walk) \<Rightarrow> 'e several_node \<Rightarrow> ('s, 'r, 'f several_node) walk" where
  "try_map_several f (NConvert is_try e data_type charset before styles) =
     wmap2 (\<lambda>e styles. NConvert is_try e data_type charset before styles) (f e) (wlist f styles)"
| "try_map_several f (NBetween e negated low high) = wmap3 (\<lambda>e low high. NBetween e negated low high) (f e) (f low) (f high)"
| "try_map_several f (NOverlay e overlay_what overlay_from overlay_for) =
     wmap4 NOverlay (f e) (f overlay_what) (f overlay_from) (wopt f overlay_for)"
| "try_map_several f (NTuple items) = wmap NTuple (wlist f items)"
| "try_map_several f (NArray elems named) = wmap (\<lambda>es. NArray es named) (wlist f elems)"
| "try_map_several f (NGroupingSets sets) = wmap NGroupingSets (wlist (wlist f) sets)"
| "try_map_several f (NCube sets) = wmap NCube (wlist (wlist f) sets)"
| "try_map_several f (NRollup sets) = wmap NRollup (wlist (wlist f) sets)"
| "try_map_several f (NStruct vals names) = wmap (\<lambda>vs. NStruct vs names) (wlist f vals)"
| "try_map_several f (NSubstring e substring_from substring_for special shorthand) =
     wmap3 (\<lambda>e s l. NSubstring e s l special shorthand) (f e) (wopt f substring_from) (wopt f substring_for)"
| "try_map_several f (NTrim e trim_where trim_what trim_characters) =
     wmap3 (\<lambda>e w cs. NTrim e trim_where w cs) (f e) (wopt f trim_what) (wopt (wlist f) trim_characters)"
| "try_map_several f (NCase operand conditions else_result) =
     wmap3 NCase (wopt f operand) (wlist (\<lambda>cw. wmap2 Pair (f (fst cw)) (f (snd cw))) conditions) (wopt f else_result)"
| "try_map_several f (NCompoundFieldAccess root access_chain) =
     wmap2 NCompoundFieldAccess (f root) (wlist (try_map_access_expr f) access_chain)"
| "try_map_several f (NJsonAccess v path) = wmap2 NJsonAccess (f v) (wlist (try_map_json_path_elem f) path)"
| "try_map_several f (NDictionary entries) = wmap NDictionary (wlist (\<lambda>field. wmap (Pair (fst field)) (f (snd field))) entries)"
| "try_map_several f (NMap entries) = wmap NMap (wlist (\<lambda>entry. wmap2 Pair (f (fst entry)) (f (snd entry))) entries)"

primrec try_map_in_target :: "('e \<Rightarrow> ('s, 'r, 'f) walk) \<Rightarrow> ('q \<Rightarrow> ('s, 'r, 'p) walk) \<Rightarrow> ('e, 'q) in_target
    \<Rightarrow> ('s, 'r, ('f, 'p) in_target) walk" where
  "try_map_in_target f f_query (TargetList es) = wmap TargetList (wlist f es)"
| "try_map_in_target f f_query (TargetSubquery q) = wmap TargetSubquery (f_query q)"
| "try_map_in_target f f_query (TargetUnnest e) = wmap TargetUnnest (f e)"

primrec try_map_expr_children :: "('e \<Rightarrow> ('s, 'r, 'f) walk) \<Rightarrow> ('q \<Rightarrow> ('s, 'r, 'p) walk) \<Rightarrow> ('e, 'q) node
    \<Rightarrow> ('s, 'r, ('f, 'p) node) walk" where
  "try_map_expr_children f f_query (NLeaf l) = wret (NLeaf l)"
| "try_map_expr_children f f_query (NSingle n) = wmap NSingle (try_map_single f n)"
| "try_map_expr_children f f_query (NDouble n) = wmap NDouble (try_map_double f n)"
| "try_map_expr_children f f_query (NSeveral n) = wmap NSeveral (try_map_several f n)"
| "try_map_expr_children f f_query (NIn e target negated global) =
     wmap2 (\<lambda>e t. NIn e t negated global) (f e) (try_map_in_target f f_query target)"
| "try_map_expr_children f f_query (NSubquery q) = wmap NSubquery (f_query q)"
| "try_map_expr_children f f_query (NExists q negated) = wmap (\<lambda>q. NExists q negated) (f_query q)"
| "try_map_expr_children f f_query (NFunction c) = wmap NFunction (try_map_function_children f f_query c)"

text \<open>The two adapters: their callbacks cannot fail, and a query is left as it is.\<close>

definition infallible :: "(unit + 'a) \<times> 's \<Rightarrow> 'a \<times> 's" where
  "infallible r = (case r of (Inr x, s) \<Rightarrow> (x, s) | (Inl e, s) \<Rightarrow> undefined)"

definition map_expr_children :: "('e \<Rightarrow> 'e) \<Rightarrow> ('e, 'q) node \<Rightarrow> ('e, 'q) node" where
  "map_expr_children g n = fst (infallible (try_map_expr_children (\<lambda>e. wret (g e)) wret n ()))"

definition mutate_expr_children :: "('e \<Rightarrow> 's \<Rightarrow> 'e \<times> 's) \<Rightarrow> ('e, 'q) node \<Rightarrow> 's \<Rightarrow> ('e, 'q) node \<times> 's" where
  "mutate_expr_children g n s = infallible (try_map_expr_children (\<lambda>e s. case g e s of (e', s') \<Rightarrow> (Inr e', s')) wret n s)"

section \<open>The read-only walk\<close>

definition visit_option :: "('e \<Rightarrow> 's \<Rightarrow> 's) \<Rightarrow> 'e option \<Rightarrow> 's \<Rightarrow> 's" where
  "visit_option f o' = (case o' of None \<Rightarrow> id | Some e \<Rightarrow> f e)"

definition visit_keys :: "('e \<Rightarrow> 's \<Rightarrow> 's) \<Rightarrow> 'e order_by_expr list \<Rightarrow> 's \<Rightarrow> 's" where
  "visit_keys f = fold (\<lambda>key. case key of OrderBy e _ \<Rightarrow> f e)"

primrec for_each_subscript_expr :: "('e \<Rightarrow> 's \<Rightarrow> 's) \<Rightarrow> 'e subscript \<Rightarrow> 's \<Rightarrow> 's" where
  "for_each_subscript_expr f (SubIndex index) s = f index s"
| "for_each_subscript_expr f (SubSlice lower_bound upper_bound stride) s =
     visit_option f stride (visit_option f upper_bound (visit_option f lower_bound s))"

primrec for_each_function_argument_clause_expr :: "('e \<Rightarrow> 's \<Rightarrow> 's) \<Rightarrow> 'e arg_clause \<Rightarrow> 's \<Rightarrow> 's" where
  "for_each_function_argument_clause_expr f (ClauseWhere e) s = f e s"
| "for_each_function_argument_clause_expr f (ClauseOrderBy keys) s = visit_keys f keys s"
| "for_each_function_argument_clause_expr f (ClauseLimit e) s = f e s"
| "for_each_function_argument_clause_expr f (ClauseHaving _ e) s = f e s"
| "for_each_function_argument_clause_expr f (ClauseOther _) s = s"

definition visit_arg_expr :: "('e \<Rightarrow> 's \<Rightarrow> 's) \<Rightarrow> 'e arg_expr \<Rightarrow> 's \<Rightarrow> 's" where
  "visit_arg_expr f a = (case a of ArgOf e \<Rightarrow> f e | _ \<Rightarrow> id)"

primrec visit_arg :: "('e \<Rightarrow> 's \<Rightarrow> 's) \<Rightarrow> 'e call_arg \<Rightarrow> 's \<Rightarrow> 's" where
  "visit_arg f (CallNamed _ arg _) s = visit_arg_expr f arg s"
| "visit_arg f (CallExprNamed name arg _) s = visit_arg_expr f arg (f name s)"
| "visit_arg f (CallUnnamed arg) s = visit_arg_expr f arg s"

definition visit_args :: "('e \<Rightarrow> 's \<Rightarrow> 's) \<Rightarrow> ('e, 'q) call_args \<Rightarrow> 's \<Rightarrow> 's" where
  "visit_args f arguments s = (case arguments of
     CallList _ args clauses \<Rightarrow> fold (for_each_function_argument_clause_expr f) clauses (fold (visit_arg f) args s)
   | _ \<Rightarrow> s)"

definition visit_bound :: "('e \<Rightarrow> 's \<Rightarrow> 's) \<Rightarrow> 'e frame_bound \<Rightarrow> 's \<Rightarrow> 's" where
  "visit_bound f b = (case b of Preceding (Some e) \<Rightarrow> f e | Following (Some e) \<Rightarrow> f e | _ \<Rightarrow> id)"

definition visit_over :: "('e \<Rightarrow> 's \<Rightarrow> 's) \<Rightarrow> 'e window_type option \<Rightarrow> 's \<Rightarrow> 's" where
  "visit_over f over s = (case over of
     Some (WindowSpec (Window _ partition_by order_by frame)) \<Rightarrow>
       (let s = visit_keys f order_by (fold f partition_by s) in
        case frame of None \<Rightarrow> s | Some (Frame _ start_bound end_bound) \<Rightarrow>
          (case end_bound of None \<Rightarrow> id | Some b \<Rightarrow> visit_bound f b) (visit_bound f start_bound s))
   | _ \<Rightarrow> s)"

primrec for_each_function_child_expr :: "('e \<Rightarrow> 's \<Rightarrow> 's) \<Rightarrow> ('e, 'q) call \<Rightarrow> 's \<Rightarrow> 's" where
  "for_each_function_child_expr f (Call name odbc parameters args within_group flt nulls over) s =
     visit_over f over (visit_option f flt (visit_keys f within_group (visit_args f args (visit_args f parameters s))))"

primrec for_each_single :: "('e \<Rightarrow> 's \<Rightarrow> 's) \<Rightarrow> 'e single_node \<Rightarrow> 's \<Rightarrow> 's" where
  "for_each_single f (NIsFalse e) = f e"
| "for_each_single f (NIsNotFalse e) = f e"
| "for_each_single f (NIsTrue e) = f e"
| "for_each_single f (NIsNotTrue e) = f e"
| "for_each_single f (NIsNull e) = f e"
| "for_each_single f (NIsNotNull e) = f e"
| "for_each_single f (NIsUnknown e) = f e"
| "for_each_single f (NIsNotUnknown e) = f e"
| "for_each_single f (NNested e) = f e"
| "for_each_single f (NOuterJoin e) = f e"
| "for_each_single f (NPrior e) = f e"
| "for_each_single f (NPrefixed _ v) = f v"
| "for_each_single f (NNamed e _) = f e"
| "for_each_single f (NIsNormalized e _ _) = f e"
| "for_each_single f (NIsJson e _ _ _) = f e"
| "for_each_single f (NUnaryOp _ e) = f e"
| "for_each_single f (NCast _ e _ _) = f e"
| "for_each_single f (NExtract _ _ e) = f e"
| "for_each_single f (NCeil e _) = f e"
| "for_each_single f (NFloor e _) = f e"
| "for_each_single f (NCollate e _) = f e"
| "for_each_single f (NInterval e _) = f e"
| "for_each_single f (NLambda _ body _) = f body"

primrec for_each_double :: "('e \<Rightarrow> 's \<Rightarrow> 's) \<Rightarrow> 'e double_node \<Rightarrow> 's \<Rightarrow> 's" where
  "for_each_double f (NIsDistinctFrom a b) s = f b (f a s)"
| "for_each_double f (NIsNotDistinctFrom a b) s = f b (f a s)"
| "for_each_double f (NBinaryOp l _ r) s = f r (f l s)"
| "for_each_double f (NAnyOp l _ r _) s = f r (f l s)"
| "for_each_double f (NAllOp l _ r) s = f r (f l s)"
| "for_each_double f (NLike _ _ e pattern _) s = f pattern (f e s)"
| "for_each_double f (NILike _ _ e pattern _) s = f pattern (f e s)"
| "for_each_double f (NSimilarTo _ e pattern _) s = f pattern (f e s)"
| "for_each_double f (NRLike _ e pattern _) s = f pattern (f e s)"
| "for_each_double f (NAtTimeZone timestamp time_zone) s = f time_zone (f timestamp s)"
| "for_each_double f (NPosition e within) s = f within (f e s)"
| "for_each_double f (NMemberOf v array) s = f array (f v s)"

primrec for_each_several :: "('e \<Rightarrow> 's \<Rightarrow> 's) \<Rightarrow> 'e several_node \<Rightarrow> 's \<Rightarrow> 's" where
  "for_each_several f (NConvert _ e _ _ _ styles) s = fold f styles (f e s)"
| "for_each_several f (NBetween e _ low high) s = f high (f low (f e s))"
| "for_each_several f (NOverlay e overlay_what overlay_from overlay_for) s =
     visit_option f overlay_for (f overlay_from (f overlay_what (f e s)))"
| "for_each_several f (NTuple items) s = fold f items s"
| "for_each_several f (NArray elems _) s = fold f elems s"
| "for_each_several f (NGroupingSets sets) s = fold (fold f) sets s"
| "for_each_several f (NCube sets) s = fold (fold f) sets s"
| "for_each_several f (NRollup sets) s = fold (fold f) sets s"
| "for_each_several f (NStruct vals _) s = fold f vals s"
| "for_each_several f (NSubstring e substring_from substring_for _ _) s =
     visit_option f substring_for (visit_option f substring_from (f e s))"
| "for_each_several f (NTrim e _ trim_what trim_characters) s =
     visit_option (fold f) trim_characters (visit_option f trim_what (f e s))"
| "for_each_several f (NCase operand conditions else_result) s =
     visit_option f else_result (fold (\<lambda>cw s. f (snd cw) (f (fst cw) s)) conditions (visit_option f operand s))"
| "for_each_several f (NCompoundFieldAccess root access_chain) s =
     fold (\<lambda>a. case a of AccessDot e \<Rightarrow> f e | AccessSubscript sub \<Rightarrow> for_each_subscript_expr f sub) access_chain (f root s)"
| "for_each_several f (NJsonAccess v path) s = fold (\<lambda>elem. case elem of PathBracket key \<Rightarrow> f key | _ \<Rightarrow> id) path (f v s)"
| "for_each_several f (NDictionary entries) s = fold (\<lambda>field. f (snd field)) entries s"
| "for_each_several f (NMap entries) s = fold (\<lambda>entry s. f (snd entry) (f (fst entry) s)) entries s"

definition visit_in_target :: "('e \<Rightarrow> 's \<Rightarrow> 's) \<Rightarrow> ('e, 'q) in_target \<Rightarrow> 's \<Rightarrow> 's" where
  "visit_in_target f target = (case target of TargetList es \<Rightarrow> fold f es | TargetSubquery _ \<Rightarrow> id | TargetUnnest e \<Rightarrow> f e)"

primrec for_each_child_expr :: "('e \<Rightarrow> 's \<Rightarrow> 's) \<Rightarrow> ('e, 'q) node \<Rightarrow> 's \<Rightarrow> 's" where
  "for_each_child_expr f (NLeaf _) s = s"
| "for_each_child_expr f (NSingle n) s = for_each_single f n s"
| "for_each_child_expr f (NDouble n) s = for_each_double f n s"
| "for_each_child_expr f (NSeveral n) s = for_each_several f n s"
| "for_each_child_expr f (NIn e target _ _) s = visit_in_target f target (f e s)"
| "for_each_child_expr f (NSubquery _) s = s"
| "for_each_child_expr f (NExists _ _) s = s"
| "for_each_child_expr f (NFunction c) s = for_each_function_child_expr f c s"

section \<open>The parts of a node\<close>

text \<open>The expressions and the queries directly below a node, in the order they are written.\<close>

definition olist :: "'a option \<Rightarrow> 'a list" where
  "olist v = (case v of None \<Rightarrow> [] | Some x \<Rightarrow> [x])"

lemma olist_simps [simp]: "olist None = []" "olist (Some x) = [x]"
  by (simp_all add: olist_def)

primrec key_parts :: "'e order_by_expr \<Rightarrow> 'e list" where
  "key_parts (OrderBy e _) = [e]"

primrec bound_parts :: "'e frame_bound \<Rightarrow> 'e list" where
  "bound_parts CurrentRow = []"
| "bound_parts (Preceding offset) = olist offset"
| "bound_parts (Following offset) = olist offset"

primrec frame_parts :: "'e window_frame \<Rightarrow> 'e list" where
  "frame_parts (Frame _ start_bound end_bound) = bound_parts start_bound @ concat (map bound_parts (olist end_bound))"

primrec spec_parts :: "'e window_spec \<Rightarrow> 'e list" where
  "spec_parts (Window _ partition_by order_by frame) =
     partition_by @ concat (map key_parts order_by) @ concat (map frame_parts (olist frame))"

primrec over_parts :: "'e window_type \<Rightarrow> 'e list" where
  "over_parts (WindowSpec spec) = spec_parts spec"
| "over_parts (NamedWindow _) = []"

primrec clause_parts :: "'e arg_clause \<Rightarrow> 'e list" where
  "clause_parts (ClauseWhere e) = [e]"
| "clause_parts (ClauseOrderBy keys) = concat (map key_parts keys)"
| "clause_parts (ClauseLimit e) = [e]"
| "clause_parts (ClauseHaving _ e) = [e]"
| "clause_parts (ClauseOther _) = []"

primrec arg_expr_parts :: "'e arg_expr \<Rightarrow> 'e list" where
  "arg_expr_parts (ArgOf e) = [e]"
| "arg_expr_parts (ArgAllOf _) = []"
| "arg_expr_parts ArgAll = []"

primrec arg_parts :: "'e call_arg \<Rightarrow> 'e list" where
  "arg_parts (CallNamed _ arg _) = arg_expr_parts arg"
| "arg_parts (CallExprNamed name arg _) = name # arg_expr_parts arg"
| "arg_parts (CallUnnamed arg) = arg_expr_parts arg"

primrec args_parts :: "('e, 'q) call_args \<Rightarrow> ('e + 'q) list" where
  "args_parts CallNone = []"
| "args_parts (CallSubquery q) = [Inr q]"
| "args_parts (CallList _ args clauses) = map Inl (concat (map arg_parts args) @ concat (map clause_parts clauses))"

primrec call_parts :: "('e, 'q) call \<Rightarrow> ('e + 'q) list" where
  "call_parts (Call _ _ parameters args within_group flt _ over) = args_parts parameters @ args_parts args
     @ map Inl (concat (map key_parts within_group) @ olist flt @ concat (map over_parts (olist over)))"

primrec subscript_parts :: "'e subscript \<Rightarrow> 'e list" where
  "subscript_parts (SubIndex index) = [index]"
| "subscript_parts (SubSlice lower_bound upper_bound stride) = olist lower_bound @ olist upper_bound @ olist stride"

primrec access_parts :: "'e access_expr \<Rightarrow> 'e list" where
  "access_parts (AccessDot e) = [e]"
| "access_parts (AccessSubscript sub) = subscript_parts sub"

primrec path_parts :: "'e json_path_elem \<Rightarrow> 'e list" where
  "path_parts (PathDot _ _) = []"
| "path_parts (PathBracket key) = [key]"
| "path_parts (PathColonBracket key) = [key]"

primrec target_parts :: "('e, 'q) in_target \<Rightarrow> ('e + 'q) list" where
  "target_parts (TargetList es) = map Inl es"
| "target_parts (TargetSubquery q) = [Inr q]"
| "target_parts (TargetUnnest e) = [Inl e]"

primrec several_parts :: "'e several_node \<Rightarrow> 'e list" where
  "several_parts (NConvert _ e _ _ _ styles) = e # styles"
| "several_parts (NBetween e _ low high) = [e, low, high]"
| "several_parts (NOverlay e overlay_what overlay_from overlay_for) = e # overlay_what # overlay_from # olist overlay_for"
| "several_parts (NTuple items) = items"
| "several_parts (NArray elems _) = elems"
| "several_parts (NGroupingSets sets) = concat sets"
| "several_parts (NCube sets) = concat sets"
| "several_parts (NRollup sets) = concat sets"
| "several_parts (NStruct vals _) = vals"
| "several_parts (NSubstring e substring_from substring_for _ _) = e # olist substring_from @ olist substring_for"
| "several_parts (NTrim e _ trim_what trim_characters) = e # olist trim_what @ concat (olist trim_characters)"
| "several_parts (NCase operand conditions else_result) =
     olist operand @ concat (map (\<lambda>cw. [fst cw, snd cw]) conditions) @ olist else_result"
| "several_parts (NCompoundFieldAccess root access_chain) = root # concat (map access_parts access_chain)"
| "several_parts (NJsonAccess v path) = v # concat (map path_parts path)"
| "several_parts (NDictionary entries) = map snd entries"
| "several_parts (NMap entries) = concat (map (\<lambda>entry. [fst entry, snd entry]) entries)"

definition single_part :: "'e single_node \<Rightarrow> 'e" where
  "single_part n = the_elem (set_single_node n)"

primrec double_parts :: "'e double_node \<Rightarrow> 'e list" where
  "double_parts (NIsDistinctFrom a b) = [a, b]"
| "double_parts (NIsNotDistinctFrom a b) = [a, b]"
| "double_parts (NBinaryOp l _ r) = [l, r]"
| "double_parts (NAnyOp l _ r _) = [l, r]"
| "double_parts (NAllOp l _ r) = [l, r]"
| "double_parts (NLike _ _ e pattern _) = [e, pattern]"
| "double_parts (NILike _ _ e pattern _) = [e, pattern]"
| "double_parts (NSimilarTo _ e pattern _) = [e, pattern]"
| "double_parts (NRLike _ e pattern _) = [e, pattern]"
| "double_parts (NAtTimeZone timestamp time_zone) = [timestamp, time_zone]"
| "double_parts (NPosition e within) = [e, within]"
| "double_parts (NMemberOf v array) = [v, array]"

primrec parts :: "('e, 'q) node \<Rightarrow> ('e + 'q) list" where
  "parts (NLeaf _) = []"
| "parts (NSingle n) = [Inl (single_part n)]"
| "parts (NDouble n) = map Inl (double_parts n)"
| "parts (NSeveral n) = map Inl (several_parts n)"
| "parts (NIn e target _ _) = Inl e # target_parts target"
| "parts (NSubquery q) = [Inr q]"
| "parts (NExists q _) = [Inr q]"
| "parts (NFunction c) = call_parts c"

definition exprs_of :: "('e + 'q) list \<Rightarrow> 'e list" where
  "exprs_of ps = concat (map (\<lambda>p. case p of Inl e \<Rightarrow> [e] | Inr _ \<Rightarrow> []) ps)"

section \<open>The run of the rebuilding walk\<close>

text \<open>The callbacks called one after the other on a list of parts, up to the first that fails.\<close>

fun run :: "('e \<Rightarrow> ('s, 'r, 'f) walk) \<Rightarrow> ('q \<Rightarrow> ('s, 'r, 'p) walk) \<Rightarrow> ('e + 'q) list \<Rightarrow> 's \<Rightarrow> 'r option \<times> 's" where
  "run f fq [] s = (None, s)"
| "run f fq (Inl e # ps) s = (case f e s of (Inl r, t) \<Rightarrow> (Some r, t) | (Inr _, t) \<Rightarrow> run f fq ps t)"
| "run f fq (Inr q # ps) s = (case fq q s of (Inl r, t) \<Rightarrow> (Some r, t) | (Inr _, t) \<Rightarrow> run f fq ps t)"

definition walk_outcome :: "('r + 'a) \<times> 's \<Rightarrow> 'r option \<times> 's" where
  "walk_outcome v = (case v of (Inl r, t) \<Rightarrow> (Some r, t) | (Inr _, t) \<Rightarrow> (None, t))"

definition follows :: "('e \<Rightarrow> ('s, 'r, 'f) walk) \<Rightarrow> ('q \<Rightarrow> ('s, 'r, 'p) walk) \<Rightarrow> ('e + 'q) list \<Rightarrow> ('s, 'r, 'a) walk \<Rightarrow> bool" where
  "follows f fq ps m \<longleftrightarrow> (\<forall>s. walk_outcome (m s) = run f fq ps s)"

lemma run_append: "run f fq (ps @ qs) s = (case run f fq ps s of (Some r, t) \<Rightarrow> (Some r, t) | (None, t) \<Rightarrow> run f fq qs t)"
  by (induction f fq ps s rule: run.induct) (auto split: prod.split sum.split)

lemma follows_wret: "follows f fq [] (wret x)"
  by (simp add: follows_def walk_outcome_def wret_def)

lemma follows_wbind:
  assumes "follows f fq ps m" "\<And>x. follows f fq qs (k x)"
  shows "follows f fq (ps @ qs) (wbind m k)"
  unfolding follows_def
proof
  fix s
  obtain v t where m: "m s = (v, t)" by fastforce
  have "run f fq ps s = walk_outcome (v, t)" using assms(1) m by (metis follows_def)
  moreover have "walk_outcome (k x t) = run f fq qs t" for x using assms(2) by (simp add: follows_def)
  ultimately show "walk_outcome (wbind m k s) = run f fq (ps @ qs) s"
    using m by (cases v) (simp_all add: wbind_def run_append walk_outcome_def)
qed

lemma follows_wmap: "follows f fq ps m \<Longrightarrow> follows f fq ps (wmap c m)"
  unfolding wmap_def using follows_wbind [of f fq ps m "[]"] follows_wret by fastforce

lemma follows_wmap2: "follows f fq ps m \<Longrightarrow> follows f fq qs n \<Longrightarrow> follows f fq (ps @ qs) (wmap2 c m n)"
  unfolding wmap2_def by (intro follows_wbind) (use follows_wmap [of f fq qs n] in \<open>auto simp: wmap_def\<close>)

lemma follows_wmap3:
  "follows f fq ps m \<Longrightarrow> follows f fq qs n \<Longrightarrow> follows f fq rs p \<Longrightarrow> follows f fq (ps @ qs @ rs) (wmap3 c m n p)"
  unfolding wmap3_def by (intro follows_wbind follows_wmap2)

lemma follows_wmap4:
  "follows f fq ps m \<Longrightarrow> follows f fq qs n \<Longrightarrow> follows f fq rs p \<Longrightarrow> follows f fq ts q
     \<Longrightarrow> follows f fq (ps @ qs @ rs @ ts) (wmap4 c m n p q)"
  unfolding wmap4_def by (intro follows_wbind follows_wmap3)

lemma follows_wmap5:
  "follows f fq ps m \<Longrightarrow> follows f fq qs n \<Longrightarrow> follows f fq rs p \<Longrightarrow> follows f fq ts q \<Longrightarrow> follows f fq us r
     \<Longrightarrow> follows f fq (ps @ qs @ rs @ ts @ us) (wmap5 c m n p q r)"
  unfolding wmap5_def by (intro follows_wbind follows_wmap4)

lemma follows_callback: "follows f fq [Inl e] (f e)" "follows f fq [Inr q] (fq q)"
  by (auto simp: follows_def walk_outcome_def split: prod.split sum.split)

lemma follows_wlist: "(\<And>x. follows f fq (map Inl (t x)) (h x)) \<Longrightarrow> follows f fq (map Inl (concat (map t xs))) (wlist h xs)"
  by (induction xs) (simp_all add: follows_wret follows_wmap2)

lemma follows_wopt: "(\<And>x. follows f fq (map Inl (t x)) (h x)) \<Longrightarrow> follows f fq (map Inl (concat (map t (olist v)))) (wopt h v)"
  by (cases v) (simp_all add: follows_wret follows_wmap)

lemma follows_callbacks:
  "follows f fq (map Inl xs) (wlist f xs)" "follows f fq (map Inl (olist v)) (wopt f v)"
  "follows f fq (map Inl (concat sets)) (wlist (wlist f) sets)" "follows f fq (map Inl (concat (olist w))) (wopt (wlist f) w)"
proof -
  have f: "follows f fq (map Inl [x]) (f x)" for x using follows_callback(1) by simp
  show l: "follows f fq (map Inl xs) (wlist f xs)" for xs using follows_wlist [where t = "\<lambda>x. [x]" and xs = xs, OF f] by simp
  show "follows f fq (map Inl (olist v)) (wopt f v)" using follows_wopt [where t = "\<lambda>x. [x]" and v = v, OF f] by simp
  show "follows f fq (map Inl (concat sets)) (wlist (wlist f) sets)" using follows_wlist [where t = "\<lambda>x. x" and xs = sets, OF l] by simp
  show "follows f fq (map Inl (concat (olist w))) (wopt (wlist f) w)" using follows_wopt [where t = "\<lambda>x. x" and v = w, OF l] by simp
qed

lemma follows_trans: "follows f fq ps m \<Longrightarrow> ps = qs \<Longrightarrow> follows f fq qs m"
  by simp

lemmas follow_leaves = follows_callback follows_callbacks follows_wret
lemmas follow_maps = follows_wmap follows_wmap2 follows_wmap3 follows_wmap4 follows_wmap5

lemma follows_keys: "follows f fq (map Inl (concat (map key_parts keys))) (try_map_order_by_exprs f keys)"
proof -
  have "follows f fq (map Inl (key_parts key)) (case key of OrderBy e options \<Rightarrow> wmap (\<lambda>e. OrderBy e options) (f e))" for key
    by (cases key) (simp add: follows_wmap follow_leaves)
  then show ?thesis unfolding try_map_order_by_exprs_def by (rule follows_wlist)
qed

lemma follows_bound: "follows f fq (map Inl (bound_parts b)) (try_map_window_frame_bound f b)"
  by (cases b) (auto simp: follow_leaves follows_wmap split: option.splits)

lemma follows_frame: "follows f fq (map Inl (frame_parts w)) (try_map_window_frame f w)"
proof (cases w)
  case (Frame units b e)
  then show ?thesis by (simp only: frame_parts.simps try_map_window_frame.simps map_append)
      (intro follows_wmap2 follows_bound follows_wopt)
qed

lemma follows_spec: "follows f fq (map Inl (spec_parts w)) (try_map_window_spec f w)"
proof (cases w)
  case (Window name partition_by order_by frame)
  then show ?thesis by (simp only: spec_parts.simps try_map_window_spec.simps map_append)
      (intro follows_wmap3 follows_keys follows_wopt follows_frame follows_callbacks)
qed

lemma follows_over: "follows f fq (map Inl (over_parts w)) (try_map_over f w)"
  by (cases w) (simp_all add: follows_wmap follows_spec follows_wret)

lemma follows_clause: "follows f fq (map Inl (clause_parts c)) (try_map_function_argument_clause f c)"
  by (cases c) (simp_all add: follows_wmap follows_keys follow_leaves del: map_concat)

lemma follows_arg_expr: "follows f fq (map Inl (arg_expr_parts a)) (try_map_function_arg_expr f a)"
  by (cases a) (simp_all add: follows_wmap follow_leaves)

lemma follows_arg: "follows f fq (map Inl (arg_parts a)) (try_map_function_arg f a)"
proof (cases a)
  case (CallExprNamed name arg operator)
  then show ?thesis using follows_wmap2 [OF follows_callback(1) follows_arg_expr, of f fq name] by simp
qed (simp_all add: follows_wmap follows_arg_expr)

lemma follows_args: "follows f fq (args_parts a) (try_map_function_arguments f fq a)"
proof (cases a)
  case (CallList duplicates args clauses)
  then show ?thesis by (simp only: args_parts.simps try_map_function_arguments.simps map_append)
      (intro follows_wmap2 follows_wlist follows_arg follows_clause)
qed (simp_all add: follows_wmap follow_leaves)

lemma follows_call: "follows f fq (call_parts c) (try_map_function_children f fq c)"
proof (cases c)
  case (Call name odbc parameters args within_group flt nulls over)
  then show ?thesis by (simp only: call_parts.simps try_map_function_children.simps map_append)
      (intro follows_wmap5 follows_args follows_keys follows_callbacks follows_wopt follows_over)
qed

lemma follows_subscript: "follows f fq (map Inl (subscript_parts u)) (try_map_subscript f u)"
proof (cases u)
  case (SubSlice l h k)
  then show ?thesis by (simp only: subscript_parts.simps try_map_subscript.simps map_append)
      (intro follows_wmap3 follows_callbacks)
qed (simp add: follows_wmap follow_leaves)

lemma follows_access: "follows f fq (map Inl (access_parts a)) (try_map_access_expr f a)"
  by (cases a) (simp_all add: follows_wmap follows_subscript follow_leaves)

lemma follows_path: "follows f fq (map Inl (path_parts a)) (try_map_json_path_elem f a)"
  by (cases a) (simp_all add: follows_wmap follow_leaves)

lemma follows_target: "follows f fq (target_parts t) (try_map_in_target f fq t)"
  by (cases t) (simp_all add: follows_wmap follow_leaves)

lemma follows_single: "follows f fq [Inl (single_part n)] (try_map_single f n)"
  by (cases n) (simp_all add: single_part_def follows_wmap follow_leaves)

lemma follows_double: "follows f fq (map Inl (double_parts n)) (try_map_double f n)"
proof -
  have "follows f fq [Inl a, Inl b] (wmap2 c (f a) (f b))" for a b c
    using follows_wmap2 [OF follows_callback(1) follows_callback(1), of f fq a b] by simp
  then show ?thesis by (cases n) simp_all
qed

lemma follows_pair: "follows f fq (map Inl [fst cw, snd cw]) (wmap2 Pair (f (fst cw)) (f (snd cw)))"
  using follows_wmap2 [OF follows_callback(1) follows_callback(1), of f fq "fst cw" "snd cw"] by simp

lemma follows_entry: "follows f fq (map Inl [snd d]) (wmap (Pair (fst d)) (f (snd d)))"
  by (simp add: follows_wmap follow_leaves)

lemma follows_several: "follows f fq (map Inl (several_parts n)) (try_map_several f n)"
proof (cases n)
  case (NConvert is_try e data_type charset before styles)
  then show ?thesis using follows_wmap2 [OF follows_callback(1) follows_callbacks(1), of f fq e styles] by simp
next
  case (NBetween e negated low high)
  then show ?thesis using follows_wmap3 [OF follows_callback(1) follows_callback(1) follows_callback(1), of f fq e low high] by simp
next
  case (NOverlay e w p l)
  then show ?thesis using follows_wmap4 [OF follows_callback(1) follows_callback(1) follows_callback(1) follows_callbacks(2), of f fq e w p l]
    by simp
next
  case (NSubstring e p l special shorthand)
  then show ?thesis using follows_wmap3 [OF follows_callback(1) follows_callbacks(2) follows_callbacks(2), of f fq e p l] by simp
next
  case (NTrim e at what characters)
  then show ?thesis using follows_wmap3 [OF follows_callback(1) follows_callbacks(2) follows_callbacks(4), of f fq e what characters] by simp
next
  case (NCase operand conditions els)
  then show ?thesis
    using follows_wmap3 [OF follows_callbacks(2) [of f fq operand] follows_wlist [where xs = conditions, OF follows_pair] follows_callbacks(2) [of f fq els]]
    by (simp del: map_concat)
next
  case (NCompoundFieldAccess root chain)
  then show ?thesis using follows_wmap2 [OF follows_callback(1) [of f fq root] follows_wlist [where xs = chain, OF follows_access]]
    by (simp del: map_concat)
next
  case (NJsonAccess v path)
  then show ?thesis using follows_wmap2 [OF follows_callback(1) [of f fq v] follows_wlist [where xs = path, OF follows_path]]
    by (simp del: map_concat)
next
  case (NDictionary entries)
  then show ?thesis using follows_wlist [where t = "\<lambda>d. [snd d]" and h = "\<lambda>d. wmap (Pair (fst d)) (f (snd d))" and xs = entries
      and f = f and fq = fq, OF follows_entry] by (simp add: follows_wmap)
next
  case (NMap entries)
  then show ?thesis using follows_wlist [where f = f and fq = fq and xs = entries, OF follows_pair] by (simp add: follows_wmap del: map_concat)
qed (simp_all add: follows_wmap follow_leaves del: map_concat)

lemma follows_node: "follows f fq (parts n) (try_map_expr_children f fq n)"
proof (cases n)
  case (NIn e target negated global)
  then show ?thesis using follows_wmap2 [OF follows_callback(1) follows_target, of f fq e target] by simp
qed (simp_all add: follows_wmap follow_leaves follows_single follows_double follows_several follows_call)

section \<open>What the rebuilding walk answers\<close>

text \<open>A callback that answers \<open>g\<close> whatever its state.\<close>

definition answers :: "('a \<Rightarrow> ('s, 'r, 'b) walk) \<Rightarrow> ('a \<Rightarrow> 'b) \<Rightarrow> bool" where
  "answers f g \<longleftrightarrow> (\<forall>x s. fst (f x s) = Inr (g x))"

definition walk_yields :: "('s, 'r, 'a) walk \<Rightarrow> 'a \<Rightarrow> bool" where
  "walk_yields m x \<longleftrightarrow> (\<forall>s. fst (m s) = Inr x)"

lemma answers_iff: "answers f g \<longleftrightarrow> (\<forall>x. walk_yields (f x) (g x))"
  by (simp add: answers_def walk_yields_def)

lemma yields_wret [simp]: "walk_yields (wret x) x"
  by (simp add: walk_yields_def wret_def)

lemma yields_wbind: "walk_yields m x \<Longrightarrow> walk_yields (k x) y \<Longrightarrow> walk_yields (wbind m k) y"
  unfolding walk_yields_def
proof
  fix s
  assume "\<forall>s. fst (m s) = Inr x" "\<forall>s. fst (k x s) = Inr y"
  then show "fst (wbind m k s) = Inr y" by (cases "m s") (auto simp: wbind_def dest: spec [of _ s])
qed

lemma yields_wmap [intro]: "walk_yields m x \<Longrightarrow> walk_yields (wmap c m) (c x)"
  unfolding wmap_def by (rule yields_wbind) auto

lemma yields_wmap2 [intro]: "walk_yields m x \<Longrightarrow> walk_yields n y \<Longrightarrow> walk_yields (wmap2 c m n) (c x y)"
  unfolding wmap2_def by (intro yields_wbind) auto

lemma yields_wmap3 [intro]: "walk_yields m x \<Longrightarrow> walk_yields n y \<Longrightarrow> walk_yields p z \<Longrightarrow> walk_yields (wmap3 c m n p) (c x y z)"
  unfolding wmap3_def by (rule yields_wbind, assumption) (rule yields_wmap2)

lemma yields_wmap4 [intro]:
  "walk_yields m x \<Longrightarrow> walk_yields n y \<Longrightarrow> walk_yields p z \<Longrightarrow> walk_yields q u \<Longrightarrow> walk_yields (wmap4 c m n p q) (c x y z u)"
  unfolding wmap4_def by (rule yields_wbind, assumption) (rule yields_wmap3)

lemma yields_wmap5 [intro]:
  "walk_yields m x \<Longrightarrow> walk_yields n y \<Longrightarrow> walk_yields p z \<Longrightarrow> walk_yields q u \<Longrightarrow> walk_yields r v \<Longrightarrow> walk_yields (wmap5 c m n p q r) (c x y z u v)"
  unfolding wmap5_def by (rule yields_wbind, assumption) (rule yields_wmap4)

lemma yields_wlist: "(\<And>x. walk_yields (f x) (g x)) \<Longrightarrow> walk_yields (wlist f xs) (map g xs)"
  by (induction xs) auto

lemma yields_wopt: "(\<And>x. walk_yields (f x) (g x)) \<Longrightarrow> walk_yields (wopt f v) (map_option g v)"
  by (cases v) auto

lemmas yield_maps = yields_wmap yields_wmap2 yields_wmap3 yields_wmap4 yields_wmap5

lemma yields_keys:
  assumes "\<And>x. walk_yields (f x) (g x)"
  shows "walk_yields (try_map_order_by_exprs f keys) (map (map_order_by_expr g) keys)"
proof -
  have "walk_yields (case key of OrderBy e options \<Rightarrow> wmap (\<lambda>e. OrderBy e options) (f e)) (map_order_by_expr g key)" for key
    using assms yields_wmap by (cases key) fastforce
  then show ?thesis unfolding try_map_order_by_exprs_def by (rule yields_wlist)
qed

lemma yields_bound:
  assumes "\<And>x. walk_yields (f x) (g x)"
  shows "walk_yields (try_map_window_frame_bound f b) (map_frame_bound g b)"
  using assms yields_wmap [where c = "\<lambda>e. Preceding (Some e)"] yields_wmap [where c = "\<lambda>e. Following (Some e)"]
  by (cases b) (auto split: option.splits)

lemma yields_over:
  assumes "\<And>x. walk_yields (f x) (g x)"
  shows "walk_yields (try_map_over f w) (map_window_type g w)"
proof -
  have frame: "walk_yields (try_map_window_frame f v) (map_window_frame g v)" for v
    by (cases v) (simp, intro yields_wmap2 yields_bound yields_wopt assms)
  have "walk_yields (try_map_window_spec f v) (map_window_spec g v)" for v
    by (cases v) (simp, intro yields_wmap3 yields_keys yields_wlist yields_wopt frame assms)
  then show ?thesis by (cases w) (auto intro: yields_wmap)
qed

lemma yields_args:
  assumes "\<And>x. walk_yields (f x) (g x)" "\<And>x. walk_yields (fq x) (h x)"
  shows "walk_yields (try_map_function_arguments f fq a) (map_call_args g h a)"
proof -
  have e: "walk_yields (try_map_function_arg_expr f v) (map_arg_expr g v)" for v using assms(1) by (cases v) (auto intro: yields_wmap)
  have arg: "walk_yields (try_map_function_arg f v) (map_call_arg g v)" for v
  proof (cases v)
    case (CallNamed name w operator)
    then show ?thesis using yields_wmap [OF e, where c = "\<lambda>a. CallNamed name a operator"] by simp
  next
    case (CallExprNamed name w operator)
    then show ?thesis using yields_wmap2 [OF assms(1) e, where c = "\<lambda>n a. CallExprNamed n a operator"] by simp
  qed (auto intro: yields_wmap e)
  have clause: "walk_yields (try_map_function_argument_clause f c) (map_arg_clause g c)" for c
    using assms(1) by (cases c) (auto intro: yields_wmap yields_keys)
  show ?thesis using assms by (cases a) (auto intro!: yields_wmap yields_wmap2 yields_wlist arg clause)
qed

lemma yields_call:
  assumes "\<And>x. walk_yields (f x) (g x)" "\<And>x. walk_yields (fq x) (h x)"
  shows "walk_yields (try_map_function_children f fq c) (map_call g h c)"
proof (cases c)
  case (Call name odbc parameters args within_group flt nulls over)
  show ?thesis unfolding Call try_map_function_children.simps call.map
    by (rule yields_wmap5 [where c = "\<lambda>p a w fl ov. Call name odbc p a w fl nulls ov"])
      (intro yields_args yields_keys yields_wopt yields_over assms)+
qed

lemma yields_single:
  assumes "\<And>x. walk_yields (f x) (g x)"
  shows "walk_yields (try_map_single f n) (map_single_node g n)"
  by (cases n; simp; rule yields_wmap; rule assms)

lemma yields_double:
  assumes "\<And>x. walk_yields (f x) (g x)"
  shows "walk_yields (try_map_double f n) (map_double_node g n)"
  by (cases n; simp; rule yields_wmap2; rule assms)

lemma yields_several:
  assumes "\<And>x. walk_yields (f x) (g x)"
  shows "walk_yields (try_map_several f n) (map_several_node g n)"
proof -
  have subscript: "walk_yields (try_map_subscript f u) (map_subscript g u)" for u
    by (cases u; simp; rule yield_maps; (rule assms | rule yields_wopt, rule assms))
  have access: "walk_yields (try_map_access_expr f a) (map_access_expr g a)" for a
    by (cases a; simp; rule yield_maps; (rule assms | rule subscript))
  have path: "walk_yields (try_map_json_path_elem f a) (map_json_path_elem g a)" for a
    using assms by (cases a) (auto intro: yields_wmap)
  have pair: "walk_yields (wmap2 Pair (f (fst d)) (f (snd d))) (map_prod g g d)" for d
    using yields_wmap2 [OF assms assms, where c = Pair] by (cases d) simp
  have entry: "walk_yields (wmap (Pair (fst d)) (f (snd d))) (map_prod id g d)" for d :: "'z \<times> _"
    using yields_wmap [OF assms, where c = "Pair (fst d)"] by (cases d) simp
  note leaf = assms yields_wlist [OF assms] yields_wopt [OF assms] yields_wlist [OF yields_wlist [OF assms]]
    yields_wopt [OF yields_wlist [OF assms]] yields_wlist [OF access] yields_wlist [OF path] yields_wlist [OF pair] yields_wlist [OF entry]
  show ?thesis by (cases n; simp only: try_map_several.simps several_node.map; rule yield_maps; rule leaf)
qed

lemma yields_node:
  assumes "\<And>x. walk_yields (f x) (g x)" "\<And>x. walk_yields (fq x) (h x)"
  shows "walk_yields (try_map_expr_children f fq n) (map_node g h n)"
proof -
  have target: "walk_yields (try_map_in_target f fq t) (map_in_target g h t)" for t
    using assms by (cases t) (auto intro: yields_wmap yields_wlist)
  show ?thesis
  proof (cases n)
    case (NIn e t negated global)
    show ?thesis unfolding NIn try_map_expr_children.simps node.map by (rule yields_wmap2; rule assms target)
  next
    case (NExists q negated)
    show ?thesis unfolding NExists try_map_expr_children.simps node.map by (rule yields_wmap; rule assms)
  qed (auto intro: yields_wmap yields_single yields_double yields_several yields_call assms)
qed

section \<open>The walkers agree\<close>

lemma visit_keys_fold: "visit_keys f keys s = fold f (concat (map key_parts keys)) s"
proof -
  have "(case key of OrderBy e _ \<Rightarrow> f e) = fold f (key_parts key)" for key by (cases key) (simp add: fun_eq_iff)
  then show ?thesis unfolding visit_keys_def by (induction keys arbitrary: s) (simp_all add: fold_append)
qed

lemma visit_option_fold [simp]: "visit_option f v s = fold f (olist v) s"
  by (cases v) (simp_all add: visit_option_def)

lemma visit_lists_fold: "visit_option (fold f) v s = fold f (concat (olist v)) s"
  by (cases v) (simp_all add: visit_option_def)

lemma fold_parts: "(\<And>x s. h x s = fold f (t x) s) \<Longrightarrow> fold h xs s = fold f (concat (map t xs)) s"
  by (induction xs arbitrary: s) (simp_all add: fold_append)

lemma visit_clause: "for_each_function_argument_clause_expr f c s = fold f (clause_parts c) s"
  by (cases c) (simp_all add: visit_keys_fold)

lemma visit_arg_fold: "visit_arg f a s = fold f (arg_parts a) s"
proof -
  have "visit_arg_expr f v s = fold f (arg_expr_parts v) s" for v s by (cases v) (simp_all add: visit_arg_expr_def)
  then show ?thesis by (cases a) simp_all
qed

lemma exprs_of_simps [simp]:
  "exprs_of [] = []" "exprs_of (Inl e # ps) = e # exprs_of ps" "exprs_of (Inr q # ps) = exprs_of ps"
  "exprs_of (ps @ qs) = exprs_of ps @ exprs_of qs" "exprs_of (map Inl es) = es"
  by (simp_all add: exprs_of_def) (induction es; simp)

lemma visit_args_fold: "visit_args f a s = fold f (exprs_of (args_parts a)) s"
  using fold_parts [of "visit_arg f" f arg_parts] fold_parts [of "for_each_function_argument_clause_expr f" f clause_parts]
  by (cases a) (simp_all add: visit_args_def visit_arg_fold visit_clause del: map_append)

lemma visit_over_fold: "visit_over f w s = fold f (concat (map over_parts (olist w))) s"
proof -
  have b: "visit_bound f v s = fold f (bound_parts v) s" for v s
    by (cases v) (auto simp: visit_bound_def split: option.splits)
  show ?thesis
    by (cases w) (auto simp: visit_over_def visit_keys_fold b fold_append Let_def
        split: window_type.splits window_spec.splits option.splits window_frame.splits)
qed

lemma visit_call: "for_each_function_child_expr f c s = fold f (exprs_of (call_parts c)) s"
  by (cases c) (simp add: visit_over_fold visit_keys_fold visit_args_fold fold_append del: map_append)

lemma visit_single: "for_each_single f n s = f (single_part n) s"
  by (cases n) (simp_all add: single_part_def)

lemma visit_double: "for_each_double f n s = fold f (double_parts n) s"
  by (cases n) simp_all

text \<open>A path step written \<open>:[key]\<close>, which the read-only walk passes over.\<close>

fun colon_key :: "'e json_path_elem \<Rightarrow> bool" where
  "colon_key (PathColonBracket _) = True"
| "colon_key _ = False"

definition has_colon_key :: "('e, 'q) node \<Rightarrow> bool" where
  "has_colon_key n = (case n of NSeveral m \<Rightarrow> (case m of NJsonAccess _ path \<Rightarrow> list_ex colon_key path | _ \<Rightarrow> False) | _ \<Rightarrow> False)"

lemma visit_path:
  "\<not> list_ex colon_key path \<Longrightarrow> fold (\<lambda>elem. case elem of PathBracket key \<Rightarrow> f key | _ \<Rightarrow> id) path s = fold f (concat (map path_parts path)) s"
proof (induction path arbitrary: s)
  case (Cons a path)
  then show ?case by (cases a) simp_all
qed simp

lemma visit_access: "fold (\<lambda>a. case a of AccessDot e \<Rightarrow> f e | AccessSubscript sub \<Rightarrow> for_each_subscript_expr f sub) chain s
    = fold f (concat (map access_parts chain)) s"
proof -
  have "for_each_subscript_expr f u s = fold f (subscript_parts u) s" for u s by (cases u) (simp_all add: fold_append)
  then show ?thesis by (intro fold_parts) (auto split: access_expr.splits)
qed

lemma visit_several:
  assumes "\<not> has_colon_key (NSeveral n)"
  shows "for_each_several f n s = fold f (several_parts n) s"
proof (cases n)
  case (NJsonAccess v path)
  then show ?thesis using assms by (simp add: has_colon_key_def visit_path)
next
  case (NCase operand conditions els)
  then show ?thesis using fold_parts [of "\<lambda>cw s. f (snd cw) (f (fst cw) s)" f "\<lambda>cw. [fst cw, snd cw]"] by (simp add: fold_append)
next
  case (NMap entries)
  then show ?thesis using fold_parts [of "\<lambda>d s. f (snd d) (f (fst d) s)" f "\<lambda>d. [fst d, snd d]"] by simp
next
  case (NDictionary entries)
  then show ?thesis by (simp add: fold_map comp_def)
qed (simp_all add: fold_append visit_lists_fold visit_access fold_parts [where t = "\<lambda>x. x"])

lemma visit_node_fold:
  assumes "\<not> has_colon_key n"
  shows "for_each_child_expr f n s = fold f (exprs_of (parts n)) s"
proof (cases n)
  case (NIn e t negated global)
  then show ?thesis by (cases t) (simp_all add: visit_in_target_def)
qed (use assms in \<open>simp_all add: visit_single visit_double visit_several visit_call\<close>)

section \<open>No child is missed\<close>

lemma olist_set [simp]: "set (olist v) = set_option v"
  by (cases v) simp_all

lemma call_part_sets:
  "set (key_parts k) = set_order_by_expr k" "set (bound_parts b) = set_frame_bound b"
  "set (arg_expr_parts x) = set_arg_expr x"
  by (cases k, simp, cases b, simp_all, cases x, simp_all)

lemma arg_part_sets: "set (arg_parts a) = set_call_arg a" "set (clause_parts c) = set_arg_clause c"
  by (cases a; simp add: call_part_sets) (cases c; simp add: call_part_sets)

lemma over_part_set: "set (over_parts w) = set_window_type w"
proof -
  have "set (frame_parts v) = set_window_frame v" for v :: "'a window_frame" by (cases v) (simp add: call_part_sets)
  then have "set (spec_parts v) = set_window_spec v" for v :: "'a window_spec" by (cases v) (auto simp: call_part_sets)
  then show ?thesis by (cases w) simp_all
qed

lemma args_part_sets: "Inl e \<in> set (args_parts a) \<longleftrightarrow> e \<in> set1_call_args a" "Inr q \<in> set (args_parts a) \<longleftrightarrow> q \<in> set2_call_args a"
  by (cases a; auto simp: arg_part_sets)+

lemma call_part_set: "Inl e \<in> set (call_parts c) \<longleftrightarrow> e \<in> set1_call c" "Inr q \<in> set (call_parts c) \<longleftrightarrow> q \<in> set2_call c"
  by (cases c; auto simp: args_part_sets call_part_sets over_part_set)+

lemma single_part_set: "{single_part n} = set_single_node n"
  by (cases n) (simp_all add: single_part_def)

lemma double_part_set: "set (double_parts n) = set_double_node n"
  by (cases n) auto

lemma several_part_set: "set (several_parts n) = set_several_node n"
proof -
  have "set (subscript_parts u) = set_subscript u" for u :: "'a subscript" by (cases u) auto
  then have a: "set (access_parts v) = set_access_expr v" for v :: "'a access_expr" by (cases v) simp_all
  have p: "set (path_parts v) = set_json_path_elem v" for v :: "'a json_path_elem" by (cases v) simp_all
  show ?thesis by (cases n) (auto simp: a p prod_set_defs)
qed

lemma part_sets: "Inl e \<in> set (parts n) \<longleftrightarrow> e \<in> set1_node n" "Inr q \<in> set (parts n) \<longleftrightarrow> q \<in> set2_node n"
proof -
  have t: "Inl e \<in> set (target_parts t) \<longleftrightarrow> e \<in> set1_in_target t" "Inr q \<in> set (target_parts t) \<longleftrightarrow> q \<in> set2_in_target t" for t
    by (cases t; auto)+
  show "Inl e \<in> set (parts n) \<longleftrightarrow> e \<in> set1_node n"
    by (cases n) (auto simp: t call_part_set double_part_set several_part_set simp flip: single_part_set)
  show "Inr q \<in> set (parts n) \<longleftrightarrow> q \<in> set2_node n" by (cases n) (auto simp: t call_part_set)
qed

lemma infallible_yields: "walk_yields m x \<Longrightarrow> infallible (m s) = (x, snd (m s))"
  by (cases "m s") (auto simp: infallible_def walk_yields_def dest: spec [of _ s])

lemma exprs_of_set: "e \<in> set (exprs_of ps) \<longleftrightarrow> Inl e \<in> set ps"
  by (induction ps) (auto simp: exprs_of_def split: sum.splits)

text \<open>
  C36. The walkers over the children of a node agree: the read-only walk hands its callback exactly the
  expressions the fallible core hands its own, each once and in the same order, and these are all the
  expressions below the node. The core runs over them and the queries between them one after the other,
  stops at the first callback that fails, and answers that failure. A node with a path step written
  \<open>:[key]\<close> is left out: the read-only walk passes over the key.
\<close>

theorem walkers_visit_the_same_children:
  assumes "\<not> has_colon_key n"
  shows "for_each_child_expr visit n s = fold visit (exprs_of (parts n)) s
    \<and> walk_outcome (try_map_expr_children f f_query n t) = run f f_query (parts n) t
    \<and> set (exprs_of (parts n)) = set1_node n"
proof (intro conjI)
  show "for_each_child_expr visit n s = fold visit (exprs_of (parts n)) s" by (rule visit_node_fold [OF assms])
  show "walk_outcome (try_map_expr_children f f_query n t) = run f f_query (parts n) t"
    using follows_node [of f f_query n] by (simp add: follows_def)
  show "set (exprs_of (parts n)) = set1_node n" by (simp add: set_eq_iff exprs_of_set part_sets)
qed

theorem walkers_visit_the_same_children_witness:
  "for_each_child_expr (\<lambda>e s. s @ [e])
     (NSeveral (NCase (Some ''x'') [(''a'', ''b'')] (Some ''c'')) :: (string, unit) node) [] = [''x'', ''a'', ''b'', ''c'']"
  using walkers_visit_the_same_children [of "NSeveral (NCase (Some ''x'') [(''a'', ''b'')] (Some ''c'')) :: (string, unit) node"
      "\<lambda>e s. s @ [e]" "[]"]
  by (simp add: has_colon_key_def)

text \<open>
  Rebuilding a node changes its expressions and nothing else: both adapters answer the node with the
  callback applied to every expression below it, whatever its variant, and with its queries as they were;
  the mutating one threads its state through them in the order they are written.
\<close>

lemma rebuilding_maps_every_child:
  fixes g :: "'e \<Rightarrow> 'e" and step :: "'e \<Rightarrow> 's \<Rightarrow> 's" and n :: "('e, 'q) node"
  shows "map_expr_children g n = map_node g id n
    \<and> mutate_expr_children (\<lambda>e u. (g e, step e u)) n s = (map_node g id n, fold step (exprs_of (parts n)) s)"
proof
  have q: "walk_yields (wret x) (id x)" for x by simp
  show "map_expr_children g n = map_node g id n"
    using infallible_yields [where s = "()", OF yields_node [where g = g and h = id and fq = wret and n = n, OF yields_wret q]]
    by (simp add: map_expr_children_def)
  let ?f = "(\<lambda>e u. (Inr (g e), step e u)) :: 'e \<Rightarrow> ('s, unit, 'e) walk"
  have f: "walk_yields (?f e) (g e)" for e by (simp add: walk_yields_def)
  have "run ?f (wret :: 'q \<Rightarrow> ('s, unit, 'q) walk) ps s = (None, fold step (exprs_of ps) s)" for ps and s
  proof (induction ps arbitrary: s)
    case (Cons p ps)
    then show ?case by (cases p) (simp_all add: wret_def)
  qed simp
  then have "walk_outcome (try_map_expr_children ?f (wret :: 'q \<Rightarrow> ('s, unit, 'q) walk) n s) = (None, fold step (exprs_of (parts n)) s)"
    using follows_node [of ?f wret n] by (simp add: follows_def)
  then have "snd (try_map_expr_children ?f (wret :: 'q \<Rightarrow> ('s, unit, 'q) walk) n s) = fold step (exprs_of (parts n)) s"
    by (auto simp: walk_outcome_def split: prod.splits sum.splits)
  then show "mutate_expr_children (\<lambda>e u. (g e, step e u)) n s = (map_node g id n, fold step (exprs_of (parts n)) s)"
    using infallible_yields [OF yields_node [where n = n and h = id and fq = wret, OF f q]] by (simp add: mutate_expr_children_def)
qed

text \<open>The key of a path step written \<open>:[key]\<close> reaches the rebuilding walk and not the read-only one.\<close>

lemma colon_key_is_passed_over:
  "for_each_child_expr (\<lambda>e s. s @ [e]) (NSeveral (NJsonAccess ''v'' [PathColonBracket ''k'']) :: (string, unit) node) [] = [''v'']"
  "map_expr_children (\<lambda>e. e @ ''!'') (NSeveral (NJsonAccess ''v'' [PathColonBracket ''k'']) :: (string, unit) node)
     = NSeveral (NJsonAccess ''v!'' [PathColonBracket ''k!''])"
proof -
  show "for_each_child_expr (\<lambda>e s. s @ [e]) (NSeveral (NJsonAccess ''v'' [PathColonBracket ''k'']) :: (string, unit) node) [] = [''v'']"
    by simp
  show "map_expr_children (\<lambda>e. e @ ''!'') (NSeveral (NJsonAccess ''v'' [PathColonBracket ''k'']) :: (string, unit) node)
     = NSeveral (NJsonAccess ''v!'' [PathColonBracket ''k!''])"
    by (simp add: map_expr_children_def infallible_def wret_def wbind_def wmap_def wmap2_def)
qed

end
