(* ===== verification/Inventories.thy ===== *)
theory Inventories
  imports Rust_Std
begin

text \<open>
  The sorted name inventories and their binary searches: \<open>src/src/impls/sqlite_functions.rs\<close>
  (\<open>classify\<close>), \<open>src/src/impls/sqlite_keywords.rs\<close> (\<open>is_reserved\<close>) and the volatile calls of
  \<open>src/src/impls/replay.rs\<close>. The search is the standard library's halving loop; on a sorted list it is
  membership, and every inventory is sorted.
\<close>

section \<open>Binary search\<close>

datatype (plugins only: code size) ordering = Less | Equal | Greater

definition cmp :: "'a :: linorder \<Rightarrow> 'a \<Rightarrow> ordering" where
  "cmp a b = (if a < b then Less else if a = b then Equal else Greater)"

text \<open>\<open>f\<close> tells how an element compares with what is sought.\<close>

function search_base :: "('a \<Rightarrow> ordering) \<Rightarrow> 'a list \<Rightarrow> nat \<Rightarrow> nat \<Rightarrow> nat" where
  "search_base f xs base size_left =
     (if size_left \<le> 1 then base
      else let half = size_left div 2; mid = base + half in
        search_base f xs (if f (xs ! mid) = Greater then base else mid) (size_left - half))"
  by pat_completeness auto

termination search_base
  by (relation "measure (\<lambda>(_, _, _, n). n)") auto

declare search_base.simps [simp del]

definition binary_search_by :: "('a \<Rightarrow> ordering) \<Rightarrow> 'a list \<Rightarrow> nat option" where
  "binary_search_by f xs =
     (if xs = [] then None
      else let base = search_base f xs 0 (length xs) in if f (xs ! base) = Equal then Some base else None)"

definition binary_search :: "'a :: linorder \<Rightarrow> 'a list \<Rightarrow> nat option" where
  "binary_search x = binary_search_by (\<lambda>y. cmp y x)"

text \<open>The loop keeps the last element that is not greater inside the range it looks at.\<close>

lemma search_base_spec:
  assumes "0 < size_left" "base + size_left \<le> length xs"
    and "\<forall>i. base + size_left \<le> i \<longrightarrow> i < length xs \<longrightarrow> f (xs ! i) = Greater"
    and "\<forall>i j. i < j \<longrightarrow> j < length xs \<longrightarrow> f (xs ! i) = Greater \<longrightarrow> f (xs ! j) = Greater"
    and "0 < base \<longrightarrow> f (xs ! base) \<noteq> Greater"
    and "b = search_base f xs base size_left"
  shows "b < length xs \<and> (\<forall>i. b < i \<longrightarrow> i < length xs \<longrightarrow> f (xs ! i) = Greater) \<and> (0 < b \<longrightarrow> f (xs ! b) \<noteq> Greater)"
  using assms
proof (induction f xs base size_left rule: search_base.induct)
  case (1 f xs base size_left)
  show ?case
  proof (cases "size_left \<le> 1")
    case True
    then have "b = base" using 1(7) by (simp add: search_base.simps [of f xs base size_left])
    then show ?thesis using 1(2-6) True by (simp add: Suc_le_eq)
  next
    case False
    define half mid where "half = size_left div 2" and "mid = base + half"
    define nb where "nb = (if f (xs ! mid) = Greater then base else mid)"
    have half: "0 < half" "half < size_left" using False by (auto simp: half_def)
    have u: "b = search_base f xs nb (size_left - half)"
      using False 1(7) by (simp add: search_base.simps [of f xs base size_left] half_def mid_def nb_def Let_def)
    have mid: "mid \<le> i" if "base + (size_left - half) \<le> i" for i using that by (auto simp: mid_def half_def)
    have g: "f (xs ! i) = Greater" if "nb + (size_left - half) \<le> i" "i < length xs" for i
    proof (cases "f (xs ! mid) = Greater")
      case True
      then have "mid \<le> i" using mid that(1) by (simp add: nb_def)
      then show ?thesis using True 1(5) that(2) by (metis le_neq_implies_less)
    next
      case gr: False
      then have "base + size_left \<le> i" using that(1) half by (simp add: nb_def mid_def)
      then show ?thesis using 1(4) that(2) by blast
    qed
    have h: "0 < size_left - half" "nb + (size_left - half) \<le> length xs" "0 < nb \<longrightarrow> f (xs ! nb) \<noteq> Greater"
      using 1(3,6) half by (auto simp: nb_def mid_def)
    have up: "\<forall>i. nb + (size_left - half) \<le> i \<longrightarrow> i < length xs \<longrightarrow> f (xs ! i) = Greater" using g by blast
    show ?thesis by (rule 1(1) [OF False half_def mid_def, folded nb_def, OF h(1,2) up 1(5) h(3) u])
  qed
qed

text \<open>On a list in strictly ascending order the search finds exactly the members.\<close>

lemma binary_search_is_member:
  assumes "sorted_wrt (<) xs"
  shows "(binary_search x xs \<noteq> None) \<longleftrightarrow> x \<in> set xs"
proof (cases "xs = []")
  case False
  define f b where "f = (\<lambda>y. cmp y x)" and "b = search_base f xs 0 (length xs)"
  have lt: "xs ! i < xs ! j" if "i < j" "j < length xs" for i j using sorted_wrt_nth_less [OF assms that] .
  have "f (xs ! j) = Greater" if "i < j" "j < length xs" "f (xs ! i) = Greater" for i j
    using lt [OF that(1,2)] that(3) by (auto simp: f_def cmp_def split: if_splits)
  then have mono: "\<forall>i j. i < j \<longrightarrow> j < length xs \<longrightarrow> f (xs ! i) = Greater \<longrightarrow> f (xs ! j) = Greater" by blast
  have "0 < length xs" using False by simp
  from search_base_spec [OF this _ _ mono _ b_def]
  have b: "b < length xs" "\<forall>i. b < i \<longrightarrow> i < length xs \<longrightarrow> f (xs ! i) = Greater" "0 < b \<longrightarrow> f (xs ! b) \<noteq> Greater"
    by simp_all
  have "f (xs ! b) = Equal" if x: "x \<in> set xs"
  proof -
    obtain i where i: "i < length xs" "xs ! i = x" using x by (auto simp: in_set_conv_nth)
    have "f x = Equal" by (simp add: f_def cmp_def)
    then have "\<not> b < i" using b(2) i by auto
    moreover have "\<not> i < b"
    proof
      assume "i < b"
      then have "x < xs ! b" using lt [of i b] b(1) i(2) by simp
      then have "f (xs ! b) = Greater" by (auto simp: f_def cmp_def)
      then show False using b(3) \<open>i < b\<close> by simp
    qed
    ultimately show ?thesis using i \<open>f x = Equal\<close> by (metis linorder_neqE_nat)
  qed
  moreover have "xs ! b = x" if "f (xs ! b) = Equal" using that by (simp add: f_def cmp_def split: if_splits)
  ultimately have "f (xs ! b) = Equal \<longleftrightarrow> x \<in> set xs" using b(1) nth_mem by metis
  then show ?thesis
    using False by (simp add: binary_search_def binary_search_by_def Let_def flip: f_def b_def)
qed (simp add: binary_search_def binary_search_by_def)

text \<open>The difference of two ascending lists in one pass.\<close>

fun diff_asc :: "'a :: linorder list \<Rightarrow> 'a list \<Rightarrow> 'a list" where
  "diff_asc [] ys = []"
| "diff_asc (x # xs) [] = x # xs"
| "diff_asc (x # xs) (y # ys) =
     (if x < y then x # diff_asc xs (y # ys) else if x = y then diff_asc xs ys else diff_asc (x # xs) ys)"

lemma diff_asc_set:
  "sorted_wrt (<) xs \<Longrightarrow> sorted_wrt (<) ys \<Longrightarrow> set (diff_asc xs ys) = set xs - set ys \<and> sorted_wrt (<) (diff_asc xs ys)"
proof (induction xs ys rule: diff_asc.induct)
  case (3 x xs y ys)
  consider "x < y" | "x = y" | "y < x" by fastforce
  then show ?case
  proof cases
    case 1
    then have "x \<notin> set (y # ys)" using 3(5) by auto
    then show ?thesis using 1 3(1,4,5) by auto
  next
    case 2
    then show ?thesis using 3(2,4,5) by auto
  next
    case y: 3
    then have "y \<notin> set (x # xs)" using 3(4) by auto
    then show ?thesis using y 3(3,4,5) by auto
  qed
qed auto

section \<open>The inventories\<close>

definition SQLITE_BUILTINS :: "string list" where
  "SQLITE_BUILTINS = [
    ''abs'', ''changes'', ''char'', ''coalesce'', ''concat'', ''concat_ws'', ''cume_dist'', ''current_date'',
    ''current_time'', ''current_timestamp'', ''date'', ''datetime'', ''dense_rank'', ''first_value'', ''format'',
    ''glob'', ''group_concat'', ''hex'', ''if'', ''ifnull'', ''iif'', ''instr'', ''json'', ''json_array'',
    ''json_array_length'', ''json_each'', ''json_error_position'', ''json_extract'', ''json_group_array'',
    ''json_group_object'', ''json_insert'', ''json_object'', ''json_patch'', ''json_pretty'', ''json_quote'',
    ''json_remove'', ''json_replace'', ''json_set'', ''json_tree'', ''json_type'', ''json_valid'', ''jsonb'',
    ''jsonb_array'', ''jsonb_extract'', ''jsonb_group_array'', ''jsonb_group_object'', ''jsonb_insert'',
    ''jsonb_object'', ''jsonb_patch'', ''jsonb_remove'', ''jsonb_replace'', ''jsonb_set'', ''julianday'', ''lag'',
    ''last_insert_rowid'', ''last_value'', ''lead'', ''length'', ''like'', ''likelihood'', ''likely'', ''lower'',
    ''ltrim'', ''max'', ''min'', ''nth_value'', ''ntile'', ''nullif'', ''octet_length'', ''percent_rank'',
    ''printf'', ''quote'', ''raise'', ''random'', ''randomblob'', ''rank'', ''replace'', ''round'', ''row_number'',
    ''rtrim'', ''sign'', ''soundex'', ''sqlite_source_id'', ''sqlite_version'', ''strftime'', ''string_agg'',
    ''substr'', ''substring'', ''sum'', ''time'', ''timediff'', ''total'', ''total_changes'', ''trim'', ''typeof'',
    ''unhex'', ''unicode'', ''unixepoch'', ''unlikely'', ''upper'', ''zeroblob'']"

definition SQLITE_AGGREGATES :: "string list" where
  "SQLITE_AGGREGATES = [
    ''avg'', ''count'']"

definition TRANSLATOR_EMITTED :: "string list" where
  "TRANSLATOR_EMITTED = [
    ''vec_f32'']"

definition SQLITE_MATH :: "string list" where
  "SQLITE_MATH = [
    ''acos'', ''acosh'', ''asin'', ''asinh'', ''atan'', ''atan2'', ''atanh'', ''ceil'', ''ceiling'', ''cos'',
    ''cosh'', ''degrees'', ''exp'', ''floor'', ''ln'', ''log'', ''log10'', ''log2'', ''mod'', ''pi'', ''pow'',
    ''power'', ''radians'', ''sin'', ''sinh'', ''sqrt'', ''tan'', ''tanh'', ''trunc'']"

definition SHARED_WITH_POSTGRES :: "string list" where
  "SHARED_WITH_POSTGRES = [
    ''abs'', ''acos'', ''acosh'', ''asin'', ''asinh'', ''atan'', ''atan2'', ''atanh'', ''avg'', ''ceil'',
    ''ceiling'', ''coalesce'', ''concat'', ''concat_ws'', ''cos'', ''cosh'', ''count'', ''cume_dist'',
    ''current_date'', ''current_time'', ''current_timestamp'', ''degrees'', ''dense_rank'', ''exp'', ''first_value'',
    ''floor'', ''lag'', ''last_value'', ''lead'', ''length'', ''ln'', ''log'', ''log10'', ''lower'', ''mod'',
    ''nth_value'', ''ntile'', ''nullif'', ''octet_length'', ''percent_rank'', ''pi'', ''pow'', ''power'',
    ''radians'', ''rank'', ''replace'', ''round'', ''row_number'', ''sign'', ''sin'', ''sinh'', ''sqrt'',
    ''string_agg'', ''substr'', ''substring'', ''sum'', ''tan'', ''tanh'', ''trunc'', ''upper'']"

definition POSTGRES_ONLY :: "string list" where
  "POSTGRES_ONLY = [
    ''abbrev'', ''age'', ''any_value'', ''array_agg'', ''array_append'', ''array_cat'', ''array_dims'',
    ''array_fill'', ''array_length'', ''array_lower'', ''array_ndims'', ''array_position'', ''array_positions'',
    ''array_prepend'', ''array_remove'', ''array_replace'', ''array_to_string'', ''array_upper'', ''ascii'',
    ''bit_and'', ''bit_or'', ''bit_xor'', ''bool_and'', ''bool_or'', ''broadcast'', ''btrim'', ''cardinality'',
    ''cbrt'', ''char_length'', ''character_length'', ''chr'', ''clock_timestamp'', ''col_description'', ''convert'',
    ''convert_from'', ''convert_to'', ''corr'', ''covar_pop'', ''covar_samp'', ''current_database'',
    ''current_schema'', ''current_schemas'', ''currval'', ''date_part'', ''date_trunc'', ''decode'', ''div'',
    ''encode'', ''every'', ''factorial'', ''family'', ''gcd'', ''gen_random_uuid'', ''generate_series'',
    ''greatest'', ''has_column_privilege'', ''has_database_privilege'', ''has_function_privilege'',
    ''has_schema_privilege'', ''has_sequence_privilege'', ''has_table_privilege'', ''host'', ''hostmask'',
    ''initcap'', ''isfinite'', ''json_agg'', ''json_agg_strict'', ''json_array_elements'',
    ''json_array_elements_text'', ''json_build_array'', ''json_build_object'', ''json_each_text'',
    ''json_extract_path'', ''json_extract_path_text'', ''json_object_agg'', ''json_object_agg_strict'',
    ''json_object_agg_unique'', ''json_object_agg_unique_strict'', ''json_object_keys'', ''json_populate_record'',
    ''json_strip_nulls'', ''json_to_record'', ''json_typeof'', ''jsonb_agg'', ''jsonb_agg_strict'',
    ''jsonb_array_elements'', ''jsonb_array_elements_text'', ''jsonb_array_length'', ''jsonb_build_array'',
    ''jsonb_build_object'', ''jsonb_each'', ''jsonb_each_text'', ''jsonb_extract_path'', ''jsonb_extract_path_text'',
    ''jsonb_object_agg'', ''jsonb_object_agg_strict'', ''jsonb_object_agg_unique'',
    ''jsonb_object_agg_unique_strict'', ''jsonb_object_keys'', ''jsonb_populate_record'', ''jsonb_strip_nulls'',
    ''jsonb_to_record'', ''jsonb_typeof'', ''justify_days'', ''justify_hours'', ''justify_interval'', ''lastval'',
    ''lcm'', ''least'', ''left'', ''localtime'', ''localtimestamp'', ''lpad'', ''make_date'', ''make_interval'',
    ''make_time'', ''make_timestamp'', ''make_timestamptz'', ''masklen'', ''md5'', ''mode'', ''netmask'',
    ''network'', ''nextval'', ''now'', ''obj_description'', ''percentile_cont'', ''percentile_disc'',
    ''pg_column_size'', ''pg_database_size'', ''pg_get_constraintdef'', ''pg_get_expr'', ''pg_get_indexdef'',
    ''pg_get_viewdef'', ''pg_relation_size'', ''pg_table_size'', ''pg_tablespace_size'', ''pg_total_relation_size'',
    ''pg_typeof'', ''quote_ident'', ''quote_literal'', ''quote_nullable'', ''range_agg'', ''range_intersect_agg'',
    ''regexp_match'', ''regexp_matches'', ''regexp_replace'', ''regexp_split_to_array'', ''regexp_split_to_table'',
    ''regr_avgx'', ''regr_avgy'', ''regr_count'', ''regr_intercept'', ''regr_r2'', ''regr_slope'', ''regr_sxx'',
    ''regr_sxy'', ''regr_syy'', ''repeat'', ''reverse'', ''right'', ''row'', ''row_to_json'', ''rpad'',
    ''set_masklen'', ''setseed'', ''setval'', ''shobj_description'', ''split_part'', ''statement_timestamp'',
    ''stddev'', ''stddev_pop'', ''stddev_samp'', ''string_to_array'', ''strpos'', ''timeofday'', ''to_char'',
    ''to_date'', ''to_json'', ''to_jsonb'', ''to_number'', ''to_timestamp'', ''transaction_timestamp'',
    ''translate'', ''ts_rank'', ''ts_rank_cd'', ''unnest'', ''uuidv4'', ''uuidv7'', ''var_pop'', ''var_samp'',
    ''variance'', ''version'', ''width_bucket'', ''xmlagg'']"

definition RESERVED :: "string list" where
  "RESERVED = [
    ''ADD'', ''ALL'', ''ALTER'', ''AND'', ''AS'', ''AUTOINCREMENT'', ''BETWEEN'', ''CASE'', ''CAST'', ''CHECK'',
    ''COLLATE'', ''COMMIT'', ''CONSTRAINT'', ''CREATE'', ''DEFERRABLE'', ''DELETE'', ''DISTINCT'', ''DROP'',
    ''ELSE'', ''ESCAPE'', ''EXCEPT'', ''EXISTS'', ''FOREIGN'', ''FROM'', ''GROUP'', ''HAVING'', ''IN'', ''INDEX'',
    ''INSERT'', ''INTERSECT'', ''INTO'', ''IS'', ''ISNULL'', ''JOIN'', ''LIMIT'', ''NOT'', ''NOTHING'', ''NOTNULL'',
    ''NULL'', ''ON'', ''OR'', ''ORDER'', ''PRIMARY'', ''RAISE'', ''RECURSIVE'', ''REFERENCES'', ''RETURNING'',
    ''SELECT'', ''SET'', ''TABLE'', ''THEN'', ''TO'', ''TRANSACTION'', ''UNION'', ''UNIQUE'', ''UPDATE'', ''USING'',
    ''VALUES'', ''WHEN'', ''WHERE'']"

definition VOLATILE :: "string list" where
  "VOLATILE = [
    ''clock_timestamp'', ''currval'', ''gen_random_bytes'', ''gen_random_uuid'', ''lastval'', ''nextval'',
    ''pg_backend_pid'', ''random'', ''random_bytes'', ''random_normal'', ''randomblob'', ''setval'',
    ''statement_timestamp'', ''timeofday'', ''txid_current'', ''uuid_generate_v1'', ''uuid_generate_v4'',
    ''uuid_generate_v7'', ''uuidv4'', ''uuidv7'']"

text \<open>Adjacent elements ascend, which is what \<open>is_sorted\<close> looks at.\<close>

definition ascending :: "string list \<Rightarrow> bool" where
  "ascending = successively (<)"

lemma ascending_sorted: "ascending xs \<Longrightarrow> sorted_wrt (<) xs"
  by (simp add: ascending_def successively_conv_sorted_wrt)

lemma inventories_ascending:
  "ascending SQLITE_BUILTINS" "ascending SQLITE_AGGREGATES" "ascending TRANSLATOR_EMITTED" "ascending SQLITE_MATH"
  "ascending SHARED_WITH_POSTGRES" "ascending POSTGRES_ONLY" "ascending RESERVED" "ascending VOLATILE"
  by code_simp+

lemmas inventory_search = inventories_ascending [THEN ascending_sorted, THEN binary_search_is_member]

section \<open>Classification\<close>

record name_class =
  sqlite_builtin :: bool
  gated_math :: bool
  shared_with_postgres :: bool
  postgres_only :: bool

definition is_known :: "name_class \<Rightarrow> bool" where
  "is_known c \<longleftrightarrow> sqlite_builtin c \<or> gated_math c \<or> shared_with_postgres c \<or> postgres_only c"

definition classify_name :: "string \<Rightarrow> name_class" where
  "classify_name name = \<lparr>
     sqlite_builtin = binary_search name SQLITE_BUILTINS \<noteq> None \<or> binary_search name SQLITE_AGGREGATES \<noteq> None
       \<or> binary_search name TRANSLATOR_EMITTED \<noteq> None,
     gated_math = binary_search name SQLITE_MATH \<noteq> None,
     shared_with_postgres = binary_search name SHARED_WITH_POSTGRES \<noteq> None,
     postgres_only = binary_search name POSTGRES_ONLY \<noteq> None\<rparr>"

definition is_reserved :: "string \<Rightarrow> bool" where
  "is_reserved word \<longleftrightarrow> binary_search_by (\<lambda>reserved. cmp reserved (to_ascii_uppercase word)) RESERVED \<noteq> None"

lemma is_reserved_iff: "is_reserved word \<longleftrightarrow> to_ascii_uppercase word \<in> set RESERVED"
  using inventory_search(7) [of "to_ascii_uppercase word"] by (simp add: is_reserved_def binary_search_def)

lemmas inventory_sorted = inventories_ascending [THEN ascending_sorted]

lemma inventories_apart:
  "diff_asc POSTGRES_ONLY SQLITE_BUILTINS = POSTGRES_ONLY" "diff_asc POSTGRES_ONLY SQLITE_AGGREGATES = POSTGRES_ONLY"
  "diff_asc POSTGRES_ONLY TRANSLATOR_EMITTED = POSTGRES_ONLY" "diff_asc POSTGRES_ONLY SQLITE_MATH = POSTGRES_ONLY"
  "diff_asc POSTGRES_ONLY SHARED_WITH_POSTGRES = POSTGRES_ONLY" "diff_asc SQLITE_MATH SQLITE_BUILTINS = SQLITE_MATH"
  "diff_asc SQLITE_MATH SQLITE_AGGREGATES = SQLITE_MATH" "diff_asc SQLITE_MATH TRANSLATOR_EMITTED = SQLITE_MATH"
  "diff_asc (diff_asc (diff_asc SHARED_WITH_POSTGRES SQLITE_BUILTINS) SQLITE_AGGREGATES) SQLITE_MATH = []"
  by code_simp+

lemma inventories_disjoint:
  "set POSTGRES_ONLY \<inter> set (SQLITE_BUILTINS @ SQLITE_AGGREGATES @ TRANSLATOR_EMITTED @ SQLITE_MATH @ SHARED_WITH_POSTGRES) = {}"
  "set SQLITE_MATH \<inter> set (SQLITE_BUILTINS @ SQLITE_AGGREGATES @ TRANSLATOR_EMITTED) = {}"
  "set SHARED_WITH_POSTGRES \<subseteq> set (SQLITE_BUILTINS @ SQLITE_AGGREGATES @ TRANSLATOR_EMITTED @ SQLITE_MATH)"
proof -
  have apart: "set xs \<inter> set ys = {}" if "diff_asc xs ys = xs" "sorted_wrt (<) xs" "sorted_wrt (<) ys" for xs ys :: "string list"
    using diff_asc_set [OF that(2,3)] that(1) by auto
  show "set POSTGRES_ONLY \<inter> set (SQLITE_BUILTINS @ SQLITE_AGGREGATES @ TRANSLATOR_EMITTED @ SQLITE_MATH @ SHARED_WITH_POSTGRES) = {}"
    using apart [OF inventories_apart(1)] apart [OF inventories_apart(2)] apart [OF inventories_apart(3)]
      apart [OF inventories_apart(4)] apart [OF inventories_apart(5)] inventory_sorted by (simp add: Int_Un_distrib)
  show "set SQLITE_MATH \<inter> set (SQLITE_BUILTINS @ SQLITE_AGGREGATES @ TRANSLATOR_EMITTED) = {}"
    using apart [OF inventories_apart(6)] apart [OF inventories_apart(7)] apart [OF inventories_apart(8)] inventory_sorted
    by (simp add: Int_Un_distrib)
  note d = diff_asc_set [OF inventory_sorted(5,1)]
  note e = diff_asc_set [OF conjunct2 [OF d] inventory_sorted(2)]
  show "set SHARED_WITH_POSTGRES \<subseteq> set (SQLITE_BUILTINS @ SQLITE_AGGREGATES @ TRANSLATOR_EMITTED @ SQLITE_MATH)"
    using diff_asc_set [OF conjunct2 [OF e] inventory_sorted(4)] e d inventories_apart(9) by auto
qed

text \<open>
  The inventories say of a name what they list, and what they say is coherent: the searches of
  \<open>classify\<close> are membership, a name PostgreSQL alone answers is no SQLite name and not shared, a gated
  mathematical function is not admitted without its build flag, and a shared name is one SQLite has.
\<close>

lemma name_classes_are_coherent:
  "classify_name name = \<lparr>
     sqlite_builtin = name \<in> set (SQLITE_BUILTINS @ SQLITE_AGGREGATES @ TRANSLATOR_EMITTED),
     gated_math = name \<in> set SQLITE_MATH, shared_with_postgres = name \<in> set SHARED_WITH_POSTGRES,
     postgres_only = name \<in> set POSTGRES_ONLY\<rparr>
   \<and> \<not> (postgres_only (classify_name name) \<and> (sqlite_builtin (classify_name name) \<or> gated_math (classify_name name)
        \<or> shared_with_postgres (classify_name name)))
   \<and> \<not> (gated_math (classify_name name) \<and> sqlite_builtin (classify_name name))
   \<and> \<not> (shared_with_postgres (classify_name name) \<and> \<not> (sqlite_builtin (classify_name name) \<or> gated_math (classify_name name)))"
proof -
  have c: "classify_name name = \<lparr>
     sqlite_builtin = name \<in> set (SQLITE_BUILTINS @ SQLITE_AGGREGATES @ TRANSLATOR_EMITTED),
     gated_math = name \<in> set SQLITE_MATH, shared_with_postgres = name \<in> set SHARED_WITH_POSTGRES,
     postgres_only = name \<in> set POSTGRES_ONLY\<rparr>"
    by (simp add: classify_name_def inventory_search del: not_None_eq)
  show ?thesis using inventories_disjoint unfolding c by auto
qed

end
