(* ===== verification/Session_Variables.thy ===== *)
theory Session_Variables
  imports Idioms Inventories
begin

text \<open>
  Session variables: the mappings of \<open>src/src/traits/translation_options.rs\<close> and \<open>src/src/options.rs\<close>, what
  \<open>src/src/impls/session_variable.rs\<close> makes of them in both directions, and \<open>src/src/impls/replay.rs\<close>, which
  decides whether an operand may be written twice and counts a mapped setting among those that may. The
  parser of a type and its printer belong to the syntax-tree crate and are parameters.
\<close>

section \<open>Mappings\<close>

datatype (plugins only: code size) session_variable_pattern = CurrentUser | CurrentSetting string

definition show_pattern :: "session_variable_pattern \<Rightarrow> string" where
  "show_pattern p = (case p of CurrentUser \<Rightarrow> ''current_user''
     | CurrentSetting name \<Rightarrow> ''current_setting('' @ [CHR 0x27] @ name @ [CHR 0x27] @ '')'')"

datatype (plugins only: code size) session_variable_value = Scalar "string option" | DelimitedSet char

record session_variable_mapping =
  pg_pattern :: session_variable_pattern
  sqlite_function :: string
  setting_value :: session_variable_value
  missing_ok :: bool

definition new_mapping :: "session_variable_pattern \<Rightarrow> string \<Rightarrow> session_variable_mapping" where
  "new_mapping pattern fn = \<lparr>pg_pattern = pattern, sqlite_function = fn, setting_value = Scalar None, missing_ok = True\<rparr>"

definition current_user :: "string \<Rightarrow> session_variable_mapping" where
  "current_user fn = new_mapping CurrentUser fn"

definition current_setting :: "string \<Rightarrow> string \<Rightarrow> session_variable_mapping" where
  "current_setting name fn = new_mapping (CurrentSetting name) fn"

definition current_setting_strict :: "string \<Rightarrow> string \<Rightarrow> session_variable_mapping" where
  "current_setting_strict name fn = (current_setting name fn)\<lparr>missing_ok := False\<rparr>"

definition with_pg_type :: "string \<Rightarrow> session_variable_mapping \<Rightarrow> session_variable_mapping" where
  "with_pg_type pg_type m = m\<lparr>setting_value := Scalar (Some pg_type)\<rparr>"

definition holding_set :: "char \<Rightarrow> session_variable_mapping \<Rightarrow> session_variable_mapping" where
  "holding_set delimiter m = m\<lparr>setting_value := DelimitedSet delimiter\<rparr>"

datatype (plugins only: code size) translate_error =
    SessionVariableMappingNotFound string
  | SessionVariableTypeUnreadable string string
  | SessionVariableTypeDisagrees string string string
  | SessionVariableReadAsScalar string char
  | SessionVariableReadAsSet string char
  | SessionVariableDelimiterDisagrees string char char
  | ForwardRefusal string
  | ReverseRefusal string
  | UnsupportedSource string

type_synonym 'a tres = "(translate_error, 'a) res"

text \<open>\<open>parse\<close> reads a whole spelling as a type; \<open>None\<close> when it does not parse or leaves input behind.\<close>

definition pg_type_node :: "(string \<Rightarrow> sql_type option) \<Rightarrow> session_variable_mapping \<Rightarrow> sql_type option tres" where
  "pg_type_node parse m = (case setting_value m of
     Scalar (Some pg_type) \<Rightarrow> (case parse pg_type of
       Some t \<Rightarrow> ok (Some t)
     | None \<Rightarrow> refuse (SessionVariableTypeUnreadable (show_pattern (pg_pattern m)) pg_type))
   | _ \<Rightarrow> ok None)"

record sv_options =
  session_variables :: "session_variable_mapping list"
  uuid_function_name :: string
  uuid_v7_function_name :: "string option"
  user_defined_functions :: "string list"

definition with_session_variable :: "session_variable_mapping \<Rightarrow> sv_options \<Rightarrow> sv_options" where
  "with_session_variable m opts = opts\<lparr>session_variables := session_variables opts @ [m]\<rparr>"

definition find_session_variable :: "sv_options \<Rightarrow> session_variable_pattern \<Rightarrow> session_variable_mapping option" where
  "find_session_variable opts pattern = find (\<lambda>m. pg_pattern m = pattern) (rev (session_variables opts))"

definition with_session_user :: "string \<Rightarrow> string \<Rightarrow> sv_options \<Rightarrow> sv_options" where
  "with_session_user variable fn opts =
     with_session_variable (current_setting variable fn) (with_session_variable (current_user fn) opts)"

definition declares_user_defined_function :: "sv_options \<Rightarrow> string \<Rightarrow> bool" where
  "declares_user_defined_function opts name \<longleftrightarrow> to_ascii_lowercase name \<in> set (user_defined_functions opts)"

section \<open>Readings\<close>

definition function_name_lower :: "object_name \<Rightarrow> string" where
  "function_name_lower name = (case last_ident name of
     None \<Rightarrow> to_ascii_lowercase (display_name name) | Some i \<Rightarrow> to_ascii_lowercase (ident_value i))"

definition named_literal :: "func_arg_expr \<Rightarrow> string option" where
  "named_literal a = (case a of ArgExpr e \<Rightarrow> single_quoted_literal e | _ \<Rightarrow> None)"

definition setting_name :: "func_args \<Rightarrow> string option" where
  "setting_name args = (case args of
     ArgsList _ as _ \<Rightarrow> (case as of
       [] \<Rightarrow> None
     | a # _ \<Rightarrow> (case a of ArgUnnamed v \<Rightarrow> named_literal v | ArgNamed _ v \<Rightarrow> named_literal v | _ \<Rightarrow> None))
   | _ \<Rightarrow> None)"

definition pattern_of :: "string \<Rightarrow> func_args \<Rightarrow> session_variable_pattern option" where
  "pattern_of name args =
     (if name = ''current_user'' then Some CurrentUser
      else if name = ''current_setting'' then map_option CurrentSetting (setting_name args)
      else None)"

definition pattern_of_function :: "func \<Rightarrow> session_variable_pattern option" where
  "pattern_of_function f = pattern_of (function_name_lower (f_name f)) (f_args f)"

definition paired_call :: "session_variable_mapping \<Rightarrow> expr" where
  "paired_call m = simple_function_expr (sqlite_function m) [] None"

definition unpaired :: "session_variable_pattern \<Rightarrow> translate_error" where
  "unpaired pattern = SessionVariableMappingNotFound (show_pattern pattern)"

definition paired :: "string \<Rightarrow> session_variable_mapping \<Rightarrow> bool" where
  "paired name m \<longleftrightarrow> eq_ignore_ascii_case (sqlite_function m) name"

definition settings_first :: "session_variable_mapping \<Rightarrow> bool" where
  "settings_first m = (case pg_pattern m of CurrentSetting _ \<Rightarrow> True | _ \<Rightarrow> False)"

definition mapping_for_function :: "string \<Rightarrow> sv_options \<Rightarrow> session_variable_mapping option" where
  "mapping_for_function name opts =
     (let mappings = session_variables opts in
      case find (\<lambda>m. paired name m \<and> settings_first m) (rev mappings) of
        Some m \<Rightarrow> Some m
      | None \<Rightarrow> find (paired name) (rev mappings))"

definition scalar_reading :: "session_variable_mapping \<Rightarrow> unit tres" where
  "scalar_reading m = (case setting_value m of
     Scalar _ \<Rightarrow> ok ()
   | DelimitedSet delimiter \<Rightarrow> refuse (SessionVariableReadAsScalar (show_pattern (pg_pattern m)) delimiter))"

definition set_reading :: "session_variable_mapping \<Rightarrow> char \<Rightarrow> unit tres" where
  "set_reading m delimiter_written = (case setting_value m of
     Scalar _ \<Rightarrow> refuse (SessionVariableReadAsSet (show_pattern (pg_pattern m)) delimiter_written)
   | DelimitedSet delimiter \<Rightarrow>
       if delimiter = delimiter_written then ok ()
       else refuse (SessionVariableDelimiterDisagrees (show_pattern (pg_pattern m)) delimiter delimiter_written))"

definition reverse_pattern :: "session_variable_mapping \<Rightarrow> expr" where
  "reverse_pattern m = (case pg_pattern m of
     CurrentSetting name \<Rightarrow>
       if missing_ok m then simple_function_expr ''current_setting'' [string_literal name, EValue (LBoolean True)] None
       else simple_function_expr ''current_setting'' [string_literal name] None
   | CurrentUser \<Rightarrow> EFunction (Func [Identifier (bare_ident ''current_user'')] False ArgsNone ArgsNone None None None []))"

definition reverse_expression :: "(string \<Rightarrow> sql_type option) \<Rightarrow> session_variable_mapping \<Rightarrow> expr tres" where
  "reverse_expression parse m =
     res_bind (scalar_reading m) (\<lambda>_.
     res_bind (pg_type_node parse m) (\<lambda>t. ok (case t of
       Some data_type \<Rightarrow> ECast DoubleColon (reverse_pattern m) data_type None
     | None \<Rightarrow> reverse_pattern m)))"

definition paired_arity_refusal :: "session_variable_mapping \<Rightarrow> string" where
  "paired_arity_refusal m = sqlite_function m @ ''() pairs with '' @ show_pattern (pg_pattern m)
     @ '', which takes no argument, so a call to it with arguments is not the caller's identity and has no PostgreSQL equivalent.''"

definition call_has_no_arguments :: "func_args \<Rightarrow> bool" where
  "call_has_no_arguments args = (case args of ArgsNone \<Rightarrow> True | ArgsList _ as _ \<Rightarrow> as = [] | ArgsSubquery _ \<Rightarrow> False)"

definition lowered_part :: "object_name_part \<Rightarrow> object_name_part" where
  "lowered_part p = (case p of Identifier i \<Rightarrow> Identifier (i\<lparr>ident_value := to_ascii_lowercase (ident_value i)\<rparr>) | _ \<Rightarrow> p)"

fun canonical :: "sql_type \<Rightarrow> sql_type" where
  "canonical (TInt w) = TInteger w"
| "canonical (TInt4 w) = TInteger w"
| "canonical (TInt2 w) = TSmallInt w"
| "canonical (TInt8 w) = TBigInt w"
| "canonical (TDecimal i) = TNumeric i"
| "canonical (TDec i) = TNumeric i"
| "canonical TFloat4 = TReal"
| "canonical TFloat8 = TDoublePrecision"
| "canonical (TCharacterVarying l) = TVarchar l"
| "canonical (TCharacter l) = TChar l"
| "canonical TBool = TBoolean"
| "canonical (TVarBit l) = TBitVarying l"
| "canonical (TTimestamp p z) = TTimestamp p (if z = TzShort then TzWith else z)"
| "canonical (TTime p z) = TTime p (if z = TzShort then TzWith else z)"
| "canonical (TCustom name modifiers) = TCustom (map lowered_part name) modifiers"
| "canonical t = t"

definition same_postgres_type :: "sql_type \<Rightarrow> sql_type \<Rightarrow> bool" where
  "same_postgres_type l r \<longleftrightarrow> canonical l = canonical r"

definition translate_cast :: "(string \<Rightarrow> sql_type option) \<Rightarrow> (sql_type \<Rightarrow> string) \<Rightarrow> expr \<Rightarrow> sql_type \<Rightarrow> sv_options \<Rightarrow> expr option tres" where
  "translate_cast parse show_type inner data_type opts =
     (case inner of
        EFunction f \<Rightarrow>
          (case pattern_of_function f of
             None \<Rightarrow> ok None
           | Some pattern \<Rightarrow>
               (case find_session_variable opts pattern of
                  None \<Rightarrow> ok None
                | Some m \<Rightarrow>
                    res_bind (scalar_reading m) (\<lambda>_.
                    res_bind (case setting_value m of
                        Scalar (Some spelling) \<Rightarrow>
                          res_bind (pg_type_node parse m) (\<lambda>t. case t of
                            Some recorded \<Rightarrow>
                              if same_postgres_type recorded data_type then ok ()
                              else refuse (SessionVariableTypeDisagrees (show_pattern pattern) spelling (show_type data_type))
                          | None \<Rightarrow> ok ())
                      | _ \<Rightarrow> ok ()) (\<lambda>_. ok (Some (paired_call m))))))
      | _ \<Rightarrow> ok None)"

text \<open>The expression without the parentheses and plain casts to \<open>text\<close> over it.\<close>

fun setting_operand :: "expr \<Rightarrow> expr" where
  "setting_operand (ENested inner) = setting_operand inner"
| "setting_operand (ECast kind inner t fmt) =
     (if t = TText \<and> fmt = None \<and> (kind = PlainCast \<or> kind = DoubleColon) then setting_operand inner else ECast kind inner t fmt)"
| "setting_operand e = e"

text \<open>The arms of the function translators that read a mapping: a call of a pattern going out, a call of a
  paired function coming back. \<open>None\<close> leaves the call to the other arms. Coming back, the renamed functions
  and the names the earlier arms match are read as SQLite's own before a mapping is looked up. (The shapes
  restored before any function is read all have arguments or are no call.)\<close>

definition REVERSE_RENAMES :: "(string \<times> string) list" where
  "REVERSE_RENAMES = [(''json_group_array'', ''json_agg''), (''json_group_object'', ''json_object_agg''), (''json_object'', ''json_build_object''),
     (''json_array'', ''json_build_array''), (''sqlite_version'', ''version''), (''quote'', ''quote_nullable''), (''json_quote'', ''to_jsonb''),
     (''ifnull'', ''COALESCE'')]"

definition EARLIER_ARMS :: "string list" where
  "EARLIER_ARMS = [''group_concat'', ''json_array_length'', ''datetime'', ''date'', ''time'', ''strftime'', ''instr'', ''unicode'', ''min'', ''max'',
     ''ltrim'', ''rtrim'', ''trim'', ''char'', ''vec_distance_l2'', ''vec_distance_cosine'', ''vec_distance_hamming'', ''vec_f32'', ''vec_f16'']"

definition read_as_builtin :: "string \<Rightarrow> bool" where
  "read_as_builtin func_name \<longleftrightarrow> map_of REVERSE_RENAMES func_name \<noteq> None \<or> func_name \<in> set EARLIER_ARMS"

definition odbc_refusal :: "object_name \<Rightarrow> string" where
  "odbc_refusal name = ''ODBC function escape syntax around '' @ display_name name @ '' is not supported by reverse translation''"

definition translate_session_call :: "sv_options \<Rightarrow> func \<Rightarrow> expr option tres" where
  "translate_session_call opts f =
     (case postgres_catalog_function_name (f_name f) of
        None \<Rightarrow> ok None
      | Some original_name \<Rightarrow>
          (case pattern_of original_name (f_args f) of
             None \<Rightarrow> ok None
           | Some pattern \<Rightarrow>
               (case find_session_variable opts pattern of
                  Some m \<Rightarrow> res_bind (scalar_reading m) (\<lambda>_. ok (Some (paired_call m)))
                | None \<Rightarrow> if declares_user_defined_function opts original_name then ok None else refuse (unpaired pattern))))"

definition reverse_paired_function :: "(string \<Rightarrow> sql_type option) \<Rightarrow> sv_options \<Rightarrow> string \<Rightarrow> func_args \<Rightarrow> expr option tres" where
  "reverse_paired_function parse opts name args =
     (case mapping_for_function name opts of
        None \<Rightarrow> ok None
      | Some m \<Rightarrow>
          if call_has_no_arguments args then res_bind (reverse_expression parse m) (\<lambda>e. ok (Some e))
          else refuse (ReverseRefusal (paired_arity_refusal m)))"

definition reverse_session_call :: "(string \<Rightarrow> sql_type option) \<Rightarrow> sv_options \<Rightarrow> func \<Rightarrow> expr option tres" where
  "reverse_session_call parse opts f =
     (if f_odbc f then refuse (ReverseRefusal (odbc_refusal (f_name f)))
      else if extract_json_group_array_nullif f \<noteq> None \<or> extract_json_group_object_nullif f \<noteq> None then ok None
      else if read_as_builtin (function_name_lower (f_name f)) then ok None
      else reverse_paired_function parse opts (function_name_lower (f_name f)) (f_args f))"

section \<open>Replaying\<close>

definition uuid_names :: "sv_options \<Rightarrow> string list" where
  "uuid_names opts = uuid_function_name opts # (case uuid_v7_function_name opts of None \<Rightarrow> [] | Some v7 \<Rightarrow> [v7])"

definition call_replays :: "sv_options \<Rightarrow> func \<Rightarrow> bool" where
  "call_replays opts f = (case last_ident (f_name f) of
     None \<Rightarrow> False
   | Some i \<Rightarrow>
       (let name = to_ascii_lowercase (ident_value i) in
        if (case pattern_of_function f of None \<Rightarrow> False | Some p \<Rightarrow> find_session_variable opts p \<noteq> None)
          \<or> mapping_for_function name opts \<noteq> None then True
        else if binary_search name VOLATILE \<noteq> None then False
        else if list_ex (\<lambda>uuid. eq_ignore_ascii_case uuid name) (uuid_names opts) then False
        else is_known (classify_name name)))"

text \<open>The visitor looks at every expression of the tree, the ones inside queries too; whether those of a
  query replay is a parameter where a query is reached without a node of its own.\<close>

fun is_replayable :: "(string \<Rightarrow> bool) \<Rightarrow> sv_options \<Rightarrow> expr \<Rightarrow> bool"
and func_replays :: "(string \<Rightarrow> bool) \<Rightarrow> sv_options \<Rightarrow> func \<Rightarrow> bool"
and args_replay :: "(string \<Rightarrow> bool) \<Rightarrow> sv_options \<Rightarrow> func_args \<Rightarrow> bool"
and arg_replays :: "(string \<Rightarrow> bool) \<Rightarrow> sv_options \<Rightarrow> func_arg \<Rightarrow> bool"
and arg_expr_replays :: "(string \<Rightarrow> bool) \<Rightarrow> sv_options \<Rightarrow> func_arg_expr \<Rightarrow> bool" where
  "is_replayable q opts (EIdentifier _) = True"
| "is_replayable q opts (ECompoundIdentifier _) = True"
| "is_replayable q opts (ECollate e _) = is_replayable q opts e"
| "is_replayable q opts (EValue _) = True"
| "is_replayable q opts (ENested e) = is_replayable q opts e"
| "is_replayable q opts (EBinaryOp l _ r) = (is_replayable q opts l \<and> is_replayable q opts r)"
| "is_replayable q opts (EUnaryOp _ e) = is_replayable q opts e"
| "is_replayable q opts (EIsNull e) = is_replayable q opts e"
| "is_replayable q opts (EIsNotNull e) = is_replayable q opts e"
| "is_replayable q opts (EIsTrue e) = is_replayable q opts e"
| "is_replayable q opts (EIsNotTrue e) = is_replayable q opts e"
| "is_replayable q opts (EIsDistinctFrom l r) = (is_replayable q opts l \<and> is_replayable q opts r)"
| "is_replayable q opts (EIsNotDistinctFrom l r) = (is_replayable q opts l \<and> is_replayable q opts r)"
| "is_replayable q opts (EInList e es _) = (is_replayable q opts e \<and> list_all (is_replayable q opts) es)"
| "is_replayable q opts (ECase operand branches els) =
     ((case operand of None \<Rightarrow> True | Some e \<Rightarrow> is_replayable q opts e)
      \<and> list_all (\<lambda>b. is_replayable q opts (fst b) \<and> is_replayable q opts (snd b)) branches
      \<and> (case els of None \<Rightarrow> True | Some e \<Rightarrow> is_replayable q opts e))"
| "is_replayable q opts (ECast _ e _ _) = is_replayable q opts e"
| "is_replayable q opts (EFunction f) = (func_replays q opts f \<and> call_replays opts f)"
| "is_replayable q opts (EAnyOp l _ r _) = (is_replayable q opts l \<and> is_replayable q opts r)"
| "is_replayable q opts (EAllOp l _ r) = (is_replayable q opts l \<and> is_replayable q opts r)"
| "is_replayable q opts (ESubstring e start len _ _) =
     (is_replayable q opts e \<and> (case start of None \<Rightarrow> True | Some p \<Rightarrow> is_replayable q opts p)
      \<and> (case len of None \<Rightarrow> True | Some z \<Rightarrow> is_replayable q opts z))"
| "is_replayable q opts (ETrim e _ what_trimmed characters) =
     (is_replayable q opts e \<and> (case what_trimmed of None \<Rightarrow> True | Some p \<Rightarrow> is_replayable q opts p)
      \<and> (case characters of None \<Rightarrow> True | Some es \<Rightarrow> list_all (is_replayable q opts) es))"
| "is_replayable q opts (ESubquery _) = False"
| "is_replayable q opts (EExists _) = False"
| "is_replayable q opts (EInSubquery _ _) = False"
| "is_replayable q opts (EOther _ es) = list_all (is_replayable q opts) es"
| "func_replays q opts (Func _ _ parameters args flt _ over within_group) =
     (args_replay q opts parameters \<and> args_replay q opts args
      \<and> (case flt of None \<Rightarrow> True | Some e \<Rightarrow> is_replayable q opts e)
      \<and> (case over of None \<Rightarrow> True | Some w \<Rightarrow> list_all (is_replayable q opts) (snd w))
      \<and> list_all (is_replayable q opts) within_group)"
| "args_replay q opts ArgsNone = True"
| "args_replay q opts (ArgsSubquery query) = q query"
| "args_replay q opts (ArgsList _ as clauses) =
     (list_all (arg_replays q opts) as \<and> list_all (\<lambda>c. list_all (is_replayable q opts) (snd c)) clauses)"
| "arg_replays q opts (ArgUnnamed a) = arg_expr_replays q opts a"
| "arg_replays q opts (ArgNamed _ a) = arg_expr_replays q opts a"
| "arg_replays q opts (ArgExprNamed n a) = (is_replayable q opts n \<and> arg_expr_replays q opts a)"
| "arg_expr_replays q opts (ArgExpr e) = is_replayable q opts e"
| "arg_expr_replays q opts (ArgQualifiedWildcard _) = True"
| "arg_expr_replays q opts ArgWildcard = True"

definition reject_duplicated_operand :: "(expr \<Rightarrow> string) \<Rightarrow> string \<Rightarrow> expr \<Rightarrow> string" where
  "reject_duplicated_operand show_e construct operand = construct @ '' has no SQLite form that reads '' @ show_e operand
     @ '' once: the emitted expression names it in more than one place, and this operand may answer a different value on each ''
     @ ''evaluation, so the copies would disagree where PostgreSQL evaluates it once. Read the value into a column or a variable ''
     @ ''first and name that, or compute '' @ construct @ '' in the application.''"

section \<open>Going out and coming back\<close>

lemma call_name_of_builder: "last_ident [Identifier (bare_ident n)] = Some (bare_ident n)"
  by (simp add: last_ident_def)

lemma catalog_name_of_builder: "postgres_catalog_function_name [Identifier (bare_ident n)] = Some (to_ascii_lowercase n)"
  by (simp add: postgres_catalog_function_name_def call_name_of_builder catalog_name_def bare_ident_def Let_def)

lemma function_name_lower_builder [simp]: "function_name_lower [Identifier (bare_ident n)] = to_ascii_lowercase n"
  by (simp add: function_name_lower_def call_name_of_builder) (simp add: bare_ident_def)

lemma lower_names [simp]:
  "to_ascii_lowercase ''current_setting'' = ''current_setting''" "to_ascii_lowercase ''current_user'' = ''current_user''"
  by code_simp+

text \<open>A mapping read back is a call of the pattern it was found by.\<close>

lemma reverse_pattern_call:
  obtains f where "reverse_pattern m = EFunction f" and "pattern_of_function f = Some (pg_pattern m)"
    and "postgres_catalog_function_name (f_name f) = Some (function_name_lower (f_name f))"
proof (cases "pg_pattern m")
  case CurrentUser
  then show ?thesis
    by (intro that) (auto simp: reverse_pattern_def pattern_of_function_def pattern_of_def catalog_name_of_builder simp del: to_ascii_lowercase_simps)
next
  case (CurrentSetting name)
  let ?args = "if missing_ok m then [string_literal name, EValue (LBoolean True)] else [string_literal name]"
  have "setting_name (ArgsList None (map unnamed_arg ?args) []) = Some name"
    by (simp add: setting_name_def unnamed_arg_def named_literal_def string_literal_def)
  moreover have "reverse_pattern m = EFunction (Func [Identifier (bare_ident ''current_setting'')] False ArgsNone
      (ArgsList None (map unnamed_arg ?args) []) None None None [])"
    using CurrentSetting by (simp add: reverse_pattern_def simple_function_expr_def)
  ultimately show ?thesis using CurrentSetting
    by (intro that) (assumption, simp_all add: pattern_of_function_def pattern_of_def catalog_name_of_builder del: to_ascii_lowercase_simps)
qed

lemma find_last: "P m \<Longrightarrow> find P (rev (ms @ [m])) = Some m"
  by simp

lemma find_rev_None: "find P (rev ms) = None \<longleftrightarrow> (\<forall>m \<in> set ms. \<not> P m)"
  by (auto simp: find_None_iff)

text \<open>A mapping installed last is found again by its pattern, and by its function unless a setting claims
  that function.\<close>

lemma installed_found: "find_session_variable (with_session_variable m opts) (pg_pattern m) = Some m"
  by (simp add: find_session_variable_def with_session_variable_def)

lemma installed_found_back:
  assumes "settings_first m \<or> (\<forall>n \<in> set (session_variables opts). paired (to_ascii_lowercase (sqlite_function m)) n \<longrightarrow> \<not> settings_first n)"
  shows "mapping_for_function (to_ascii_lowercase (sqlite_function m)) (with_session_variable m opts) = Some m"
proof -
  have p: "paired (to_ascii_lowercase (sqlite_function m)) m" by (simp add: paired_def eq_ignore_ascii_case_def)
  show ?thesis
  proof (cases "settings_first m")
    case True
    then show ?thesis using p by (simp add: mapping_for_function_def with_session_variable_def Let_def)
  next
    case False
    then have "find (\<lambda>n. paired (to_ascii_lowercase (sqlite_function m)) n \<and> settings_first n) (rev (session_variables opts @ [m])) = None"
      using assms by (auto simp: find_rev_None simp del: rev_append)
    then show ?thesis using p by (simp add: mapping_for_function_def with_session_variable_def Let_def)
  qed
qed

text \<open>The forward arms: a cast over a call, and a call.\<close>

definition translate_session_expr :: "(string \<Rightarrow> sql_type option) \<Rightarrow> (sql_type \<Rightarrow> string) \<Rightarrow> sv_options \<Rightarrow> expr \<Rightarrow> expr option tres" where
  "translate_session_expr parse show_type opts e = (case e of
     ECast _ inner t _ \<Rightarrow> translate_cast parse show_type inner t opts
   | EFunction f \<Rightarrow> translate_session_call opts f
   | _ \<Rightarrow> ok None)"

definition reverse_session_expr :: "(string \<Rightarrow> sql_type option) \<Rightarrow> sv_options \<Rightarrow> expr \<Rightarrow> expr option tres" where
  "reverse_session_expr parse opts e = (case e of EFunction f \<Rightarrow> reverse_session_call parse opts f | _ \<Rightarrow> ok None)"

lemma paired_call_read:
  "reverse_session_expr parse opts (paired_call m) =
     (if read_as_builtin (to_ascii_lowercase (sqlite_function m)) then ok None
      else reverse_paired_function parse opts (to_ascii_lowercase (sqlite_function m)) (ArgsList None [] []))"
  by (simp add: reverse_session_expr_def paired_call_def simple_function_expr_def reverse_session_call_def
      extract_json_group_array_nullif_def extract_json_group_object_nullif_def extract_nullif_wrapped_def)

text \<open>A mapping to such a name goes out and does not come back: \<open>date()\<close> is the current date again.\<close>

lemma builtin_names_are_not_read_back:
  "reverse_session_expr parse opts (paired_call (current_setting name ''date'')) = ok None"
  by (simp add: paired_call_read current_setting_def new_mapping_def read_as_builtin_def EARLIER_ARMS_def to_ascii_lowercase_def ascii_lower_def
      is_ascii_uppercase_def)

text \<open>
  C39. A session variable survives both directions. Whatever the mapping installed last reads back as, a bare
  pattern or a pattern cast to the type it records, goes out as the paired call again, and the paired call
  reads back as that expression: the type dropped on the way out is the one written on the way back. The
  function is not one whose name is read as SQLite's own before the mappings are looked at, and a
  \<open>current_user\<close> mapping reads back so unless a setting shares its function, which then wins.
\<close>

theorem session_variables_round_trip:
  assumes "settings_first m \<or> (\<forall>n \<in> set (session_variables opts). paired (to_ascii_lowercase (sqlite_function m)) n \<longrightarrow> \<not> settings_first n)"
    and "reverse_expression parse m = ok e" and "\<not> read_as_builtin (to_ascii_lowercase (sqlite_function m))"
  shows "translate_session_expr parse show_type (with_session_variable m opts) e = ok (Some (paired_call m))
    \<and> reverse_session_expr parse (with_session_variable m opts) (paired_call m) = ok (Some e)"
proof
  let ?o = "with_session_variable m opts"
  obtain f where f: "reverse_pattern m = EFunction f" "pattern_of_function f = Some (pg_pattern m)"
    "postgres_catalog_function_name (f_name f) = Some (function_name_lower (f_name f))" by (rule reverse_pattern_call)
  have "\<exists>ty. setting_value m = Scalar ty"
    using assms(2) by (cases "setting_value m") (auto simp: reverse_expression_def scalar_reading_def)
  then obtain ty where ty: "setting_value m = Scalar ty" ..
  show "translate_session_expr parse show_type ?o e = ok (Some (paired_call m))"
  proof (cases ty)
    case None
    then have "e = EFunction f" using assms(2) ty f(1) by (simp add: reverse_expression_def scalar_reading_def pg_type_node_def)
    then show ?thesis using f ty installed_found [of m opts]
      by (simp add: translate_session_expr_def translate_session_call_def scalar_reading_def flip: pattern_of_function_def)
  next
    case (Some spelling)
    then obtain t where "parse spelling = Some t" "e = ECast DoubleColon (EFunction f) t None"
      using assms(2) ty f(1) by (auto simp: reverse_expression_def scalar_reading_def pg_type_node_def split: option.splits)
    then show ?thesis using f ty Some installed_found [of m opts]
      by (simp add: translate_session_expr_def translate_cast_def scalar_reading_def pg_type_node_def same_postgres_type_def)
  qed
  show "reverse_session_expr parse ?o (paired_call m) = ok (Some e)"
    using assms(2,3) installed_found_back [OF assms(1)] paired_call_read [of parse ?o m] by (simp add: reverse_paired_function_def call_has_no_arguments_def)
qed

theorem session_variables_round_trip_witness:
  "reverse_session_expr (\<lambda>s. if s = ''uuid'' then Some TUuid else None)
     (with_session_variable (with_pg_type ''uuid'' (current_setting ''app.user_id'' ''app_user_id''))
       (with_session_variable (current_user ''app_user_id'') \<lparr>session_variables = [], uuid_function_name = ''uuidv4'',
         uuid_v7_function_name = None, user_defined_functions = []\<rparr>))
     (simple_function_expr ''app_user_id'' [] None)
   = ok (Some (ECast DoubleColon (simple_function_expr ''current_setting'' [string_literal ''app.user_id'', EValue (LBoolean True)] None)
       TUuid None))"
  using session_variables_round_trip [of "with_pg_type ''uuid'' (current_setting ''app.user_id'' ''app_user_id'')"
      "with_session_variable (current_user ''app_user_id'') \<lparr>session_variables = [], uuid_function_name = ''uuidv4'',
         uuid_v7_function_name = None, user_defined_functions = []\<rparr>" "\<lambda>s. if s = ''uuid'' then Some TUuid else None"
      "ECast DoubleColon (simple_function_expr ''current_setting'' [string_literal ''app.user_id'', EValue (LBoolean True)] None) TUuid None"]
  by (simp add: paired_call_def with_pg_type_def current_setting_def new_mapping_def settings_first_def reverse_expression_def
      scalar_reading_def pg_type_node_def reverse_pattern_def read_as_builtin_def REVERSE_RENAMES_def EARLIER_ARMS_def)

end
