(* ===== verification/Membership_Translation.thy ===== *)
theory Membership_Translation
  imports Session_Variables
begin

text \<open>
  The membership test over delimited text, \<open>x = ANY(string_to_array(a, d))\<close>, in both directions: from
  \<open>src/src/impls/translator_impls/expr.rs\<close> the recognition of the call, the collation the comparison runs
  under and the search it becomes, from \<open>src/src/impls/reverse_translator_impls/expr.rs\<close> the way back. The
  translation of an operand, its printer and the collation the schema declares for a column are parameters.
\<close>

section \<open>Collations\<close>

datatype (plugins only: code size) comparison_collation = Byte | Named string | Unmappable object_name

datatype (plugins only: code size) derivation = Explicit comparison_collation | Inherited comparison_collation

definition sqlite_collation :: "object_name \<Rightarrow> object_name tres" where
  "sqlite_collation collation =
     (let name = (case last_ident collation of None \<Rightarrow> [] | Some i \<Rightarrow> to_ascii_uppercase (ident_value i)) in
      if name \<in> {''BINARY'', ''NOCASE'', ''RTRIM''} then ok collation
      else if name \<in> {''C'', ''POSIX''} then ok [Identifier (bare_ident ''BINARY'')]
      else refuse (ForwardRefusal (''COLLATE '' @ name @ '' is not a valid SQLite collation. SQLite only supports BINARY (default), ''
        @ ''NOCASE, and RTRIM, and PostgreSQL C and POSIX map onto BINARY. Any other PostgreSQL collation name must be dropped or ''
        @ ''replaced before translation.'')))"

definition classify_collation :: "object_name \<Rightarrow> comparison_collation" where
  "classify_collation collation = (case sqlite_collation collation of
     Inl _ \<Rightarrow> Unmappable collation
   | Inr mapped \<Rightarrow>
       (let name = to_ascii_uppercase (last_ident_value_or_display mapped) in if name = ''BINARY'' then Byte else Named name))"

section \<open>The children of an expression\<close>

definition option_list :: "'a option \<Rightarrow> 'a list" where
  "option_list v = (case v of None \<Rightarrow> [] | Some x \<Rightarrow> [x])"

definition arg_expr_children :: "func_arg_expr \<Rightarrow> expr list" where
  "arg_expr_children a = (case a of ArgExpr e \<Rightarrow> [e] | _ \<Rightarrow> [])"

definition arg_children :: "func_arg \<Rightarrow> expr list" where
  "arg_children a = (case a of ArgUnnamed v \<Rightarrow> arg_expr_children v | ArgNamed _ v \<Rightarrow> arg_expr_children v
     | ArgExprNamed n v \<Rightarrow> n # arg_expr_children v)"

definition args_children :: "func_args \<Rightarrow> expr list" where
  "args_children args = (case args of
     ArgsList _ as clauses \<Rightarrow> concat (map arg_children as) @ concat (map snd clauses) | _ \<Rightarrow> [])"

text \<open>The expressions \<open>for_each_child_expr\<close> hands its callback, in its order.\<close>

definition child_exprs :: "expr \<Rightarrow> expr list" where
  "child_exprs e = (case e of
     ECollate inner _ \<Rightarrow> [inner]
   | ENested inner \<Rightarrow> [inner]
   | EBinaryOp l _ r \<Rightarrow> [l, r]
   | EUnaryOp _ inner \<Rightarrow> [inner]
   | EIsNull inner \<Rightarrow> [inner]
   | EIsNotNull inner \<Rightarrow> [inner]
   | EIsTrue inner \<Rightarrow> [inner]
   | EIsNotTrue inner \<Rightarrow> [inner]
   | EIsDistinctFrom l r \<Rightarrow> [l, r]
   | EIsNotDistinctFrom l r \<Rightarrow> [l, r]
   | EInList inner es _ \<Rightarrow> inner # es
   | ECase operand branches els \<Rightarrow> option_list operand @ concat (map (\<lambda>b. [fst b, snd b]) branches) @ option_list els
   | ECast _ inner _ _ \<Rightarrow> [inner]
   | EFunction f \<Rightarrow> args_children (f_parameters f) @ args_children (f_args f) @ f_within_group f @ option_list (f_filter f)
       @ concat (map snd (option_list (f_over f)))
   | EAnyOp l _ r _ \<Rightarrow> [l, r]
   | EAllOp l _ r \<Rightarrow> [l, r]
   | ESubstring inner start len _ _ \<Rightarrow> inner # option_list start @ option_list len
   | ETrim inner _ trimmed characters \<Rightarrow> inner # option_list trimmed @ concat (option_list characters)
   | EInSubquery inner _ \<Rightarrow> [inner]
   | EOther _ es \<Rightarrow> es
   | _ \<Rightarrow> [])"

lemma in_option_list: "x \<in> set (option_list v) \<longleftrightarrow> v = Some x"
  by (cases v) (auto simp: option_list_def)

lemma size_in_list: "x \<in> set xs \<Longrightarrow> size x \<le> size_list size xs"
  by (simp add: size_list_estimation')

lemma size_in_pairs:
  assumes "b \<in> set bs"
  shows "size (fst b) < size_list (size_prod size size) bs" "size (snd b) < size_list (size_prod size size) bs"
proof -
  have "size_prod size size b \<le> size_list (size_prod size size) bs" using assms by (simp add: size_list_estimation')
  moreover have "size (fst b) < size_prod size size b" "size (snd b) < size_prod size size b" by (cases b; simp)+
  ultimately show "size (fst b) < size_list (size_prod size size) bs" "size (snd b) < size_list (size_prod size size) bs" by linarith+
qed

lemma size_in_tagged:
  fixes c :: "string \<times> expr list"
  shows "x \<in> set (snd c) \<Longrightarrow> c \<in> set cs \<Longrightarrow> size x < size_list (size_prod (\<lambda>_. 0) (size_list size)) cs"
proof -
  assume "x \<in> set (snd c)" "c \<in> set cs"
  then have "size x < size_prod (\<lambda>_. 0) (size_list size) c" using size_in_list [of x "snd c"] by (cases c) simp
  also have "\<dots> \<le> size_list (size_prod (\<lambda>_. 0) (size_list size)) cs" using \<open>c \<in> set cs\<close> by (simp add: size_list_estimation')
  finally show ?thesis .
qed

lemma arg_child_size: "c \<in> set (arg_children a) \<Longrightarrow> size c < size a"
proof -
  have "c \<in> set (arg_expr_children v) \<Longrightarrow> size c < size v" for v
    by (cases v) (auto simp: arg_expr_children_def)
  then show "c \<in> set (arg_children a) \<Longrightarrow> size c < size a" by (cases a) (fastforce simp: arg_children_def)+
qed

lemma args_child_size:
  assumes "c \<in> set (args_children args)"
  shows "size c < size args"
proof (cases args)
  case (ArgsList d as clauses)
  then consider a where "a \<in> set as" "c \<in> set (arg_children a)" | k where "k \<in> set clauses" "c \<in> set (snd k)"
    using assms by (auto simp: args_children_def)
  then show ?thesis
  proof cases
    case 1
    then have "size c < size_list size as" using arg_child_size [of c a] size_in_list [of a as] by linarith
    then show ?thesis using ArgsList by simp
  next
    case 2
    then have "size c < size_list (size_prod (\<lambda>_. 0) (size_list size)) clauses" by (intro size_in_tagged)
    then show ?thesis using ArgsList by simp
  qed
qed (use assms in \<open>auto simp: args_children_def\<close>)

lemma child_size:
  assumes "c \<in> set (child_exprs e)"
  shows "size c < size e"
proof (cases e)
  case (EFunction f)
  obtain n od ps as flt nt ov wg where f: "f = Func n od ps as flt nt ov wg" by (cases f)
  then consider "c \<in> set (args_children ps)" | "c \<in> set (args_children as)" | "c \<in> set wg" | "flt = Some c"
    | w where "ov = Some w" "c \<in> set (snd w)"
    using assms EFunction by (auto simp: child_exprs_def in_option_list)
  then have "size c < size f"
  proof cases
    case 5
    then show ?thesis using size_in_list [of c "snd w"] f by (cases w) auto
  qed (use f args_child_size [of c ps] args_child_size [of c as] size_in_list [of c wg] in auto)
  then show ?thesis using EFunction by simp
next
  case (ECase operand branches els)
  then show ?thesis using assms size_in_pairs [of _ branches]
    by (fastforce simp: child_exprs_def in_option_list intro: less_SucI trans_less_add1 trans_less_add2)
qed (use assms size_in_list [of c] in \<open>force simp: child_exprs_def in_option_list\<close>)+

section \<open>The collation of a comparison\<close>

fun derived :: "derivation \<Rightarrow> comparison_collation" where
  "derived (Explicit c) = c"
| "derived (Inherited c) = c"

definition note_child :: "derivation tres \<Rightarrow> comparison_collation \<times> translate_error failure option
    \<Rightarrow> comparison_collation \<times> translate_error failure option" where
  "note_child r acc = (case r of
     Inr d \<Rightarrow> (if fst acc = Byte then derived d else fst acc, snd acc)
   | Inl e \<Rightarrow> (fst acc, case snd acc of None \<Rightarrow> Some e | Some first \<Rightarrow> Some first))"

text \<open>\<open>reference\<close> is the collation the relations in scope declare for a column reference.\<close>

function derived_collation :: "(expr \<Rightarrow> comparison_collation tres) \<Rightarrow> expr \<Rightarrow> derivation tres" where
  "derived_collation reference e = (case e of
     ENested inner \<Rightarrow> derived_collation reference inner
   | ECollate _ collation \<Rightarrow> ok (Explicit (classify_collation collation))
   | EIdentifier _ \<Rightarrow> res_bind (reference e) (\<lambda>c. ok (Inherited c))
   | ECompoundIdentifier _ \<Rightarrow> res_bind (reference e) (\<lambda>c. ok (Inherited c))
   | _ \<Rightarrow> (case fold note_child (map (derived_collation reference) (child_exprs e)) (Byte, None) of
       (inherited, Some error) \<Rightarrow> if inherited = Byte then Inl error else ok (Inherited inherited)
     | (inherited, None) \<Rightarrow> ok (Inherited inherited)))"
  by pat_completeness auto

termination derived_collation
  by (relation "measure (\<lambda>(_, e). size e)") (auto dest: child_size)

declare derived_collation.simps [simp del]

definition effective_collation :: "(expr \<Rightarrow> comparison_collation tres) \<Rightarrow> expr \<Rightarrow> expr \<Rightarrow> comparison_collation tres" where
  "effective_collation reference left text_expr =
     (case derived_collation reference left of
        Inr (Explicit c) \<Rightarrow> ok c
      | first \<Rightarrow>
          (case derived_collation reference text_expr of
             Inr (Explicit c) \<Rightarrow> ok c
           | second \<Rightarrow>
               (case note_child second (note_child first (Byte, None)) of
                  (inherited, Some error) \<Rightarrow> if inherited \<noteq> Byte then ok inherited else Inl error
                | (inherited, None) \<Rightarrow> ok inherited)))"

section \<open>Going out\<close>

definition string_to_array_arguments :: "expr \<Rightarrow> func_arg list option" where
  "string_to_array_arguments right = (case right of
     EFunction f \<Rightarrow>
       if postgres_catalog_function_name (f_name f) \<noteq> Some ''string_to_array'' \<or> f_odbc f \<or> f_parameters f \<noteq> ArgsNone
         \<or> f_filter f \<noteq> None \<or> f_null_treatment f \<noteq> None \<or> f_over f \<noteq> None \<or> f_within_group f \<noteq> [] then None
       else (case f_args f of
           ArgsList dup args clauses \<Rightarrow> if dup \<noteq> None \<or> clauses \<noteq> [] then None else Some args
         | _ \<Rightarrow> None)
   | _ \<Rightarrow> None)"

definition membership_delimiter :: "expr \<Rightarrow> char tres" where
  "membership_delimiter delimiter = ok_or (Option.bind (single_quoted_literal delimiter) single_character)
     (ForwardRefusal (''A membership test over string_to_array() becomes an instr() search over the delimited text, so the ''
       @ ''delimiter has to be written as a single-character string literal. A longer delimiter can overlap the text around it, ''
       @ ''PostgreSQL splits on a NULL delimiter one character at a time, and an empty delimiter answers the whole text as a ''
       @ ''single element.''))"

definition arity_refusal :: string where
  "arity_refusal = ''Only the two-argument string_to_array(text, delimiter) has a membership test in SQLite. The third argument ''
     @ ''turns every element equal to it into NULL, which changes what the test answers.''"

definition collation_refusal :: "string \<Rightarrow> string" where
  "collation_refusal collation = ''A membership test over string_to_array() becomes an instr() search, and SQLite's instr() compares ''
     @ ''bytes whatever collation its operands carry, so an equality under COLLATE '' @ collation @ '' would answer differently from ''
     @ ''the search. PostgreSQL carries that collation through the expressions built over the column, so folding the operand does ''
     @ ''not drop it either. Compare a column declared without a collation, or name a byte collation on the comparison.''"

definition honour_collation :: "comparison_collation \<Rightarrow> unit tres" where
  "honour_collation c = (case c of
     Byte \<Rightarrow> ok ()
   | Unmappable collation \<Rightarrow> res_bind (sqlite_collation collation) (\<lambda>_. ok ())
   | Named collation \<Rightarrow> refuse (ForwardRefusal (collation_refusal collation)))"

definition mapped_setting :: "expr \<Rightarrow> sv_options \<Rightarrow> session_variable_mapping option" where
  "mapped_setting e opts = (case setting_operand e of
     EFunction f \<Rightarrow> Option.bind (pattern_of_function f) (find_session_variable opts)
   | _ \<Rightarrow> None)"

record translation_parameters =
  translate_operand :: "expr \<Rightarrow> expr tres"
  reverse_operand :: "expr \<Rightarrow> expr tres"
  show_operand :: "expr \<Rightarrow> string"
  declared_collation :: "expr \<Rightarrow> comparison_collation tres"
  query_replays :: "string \<Rightarrow> bool"
  parse_type :: "string \<Rightarrow> sql_type option"

definition require_replayable :: "translation_parameters \<Rightarrow> sv_options \<Rightarrow> expr \<Rightarrow> unit tres" where
  "require_replayable par opts e =
     (if is_replayable (query_replays par) opts e then ok ()
      else refuse (ForwardRefusal (reject_duplicated_operand (show_operand par) ''= ANY(string_to_array(...))'' e)))"

definition translate_delimited_membership ::
  "translation_parameters \<Rightarrow> sv_options \<Rightarrow> expr \<Rightarrow> expr \<Rightarrow> bool \<Rightarrow> expr option tres" where
  "translate_delimited_membership par opts left right negated =
     (case string_to_array_arguments right of
        None \<Rightarrow> ok None
      | Some arguments \<Rightarrow>
          (case arguments of
             [a, b] \<Rightarrow>
               (case (unnamed_argument a, unnamed_argument b) of
                  (Some text_expr, Some delimiter_expr) \<Rightarrow>
                    res_bind (membership_delimiter delimiter_expr) (\<lambda>delimiter.
                    res_bind (effective_collation (declared_collation par) left text_expr) (\<lambda>collation.
                    res_bind (honour_collation collation) (\<lambda>_.
                    res_bind (require_replayable par opts left) (\<lambda>_.
                    res_bind (require_replayable par opts text_expr) (\<lambda>_.
                    res_bind (translate_operand par left) (\<lambda>translated_left.
                    res_bind (case mapped_setting text_expr opts of
                        Some m \<Rightarrow> res_bind (set_reading m delimiter) (\<lambda>_. ok (paired_call m))
                      | None \<Rightarrow> translate_operand par text_expr) (\<lambda>translated_text.
                      ok (Some (delimited_membership translated_left translated_text delimiter negated)))))))))
                | _ \<Rightarrow> ok None)
           | _ \<Rightarrow> refuse (ForwardRefusal arity_refusal)))"

section \<open>Coming back\<close>

definition paired_setting :: "expr \<Rightarrow> sv_options \<Rightarrow> session_variable_mapping option" where
  "paired_setting e opts = (case setting_operand e of
     EFunction f \<Rightarrow>
       if call_has_no_arguments (f_args f) then mapping_for_function (function_name_lower (f_name f)) opts else None
   | _ \<Rightarrow> None)"

definition reverse_replay_refusal :: "(expr \<Rightarrow> string) \<Rightarrow> expr \<Rightarrow> string" where
  "reverse_replay_refusal show_e operand = ''The membership search reads '' @ show_e operand @ '' more than once, where the ''
     @ ''= ANY(string_to_array(...)) it spells reads it once, and this operand may answer a different value on each evaluation.''"

definition reverse_delimited_membership :: "translation_parameters \<Rightarrow> sv_options \<Rightarrow> membership_operands \<Rightarrow> expr tres" where
  "reverse_delimited_membership par opts membership =
     (let left = m_left membership; text_expr = m_text membership; delimiter = m_delimiter membership in
      case find (\<lambda>operand. \<not> is_replayable (query_replays par) opts operand) [left, text_expr] of
        Some operand \<Rightarrow> refuse (ReverseRefusal (reverse_replay_refusal (show_operand par) operand))
      | None \<Rightarrow>
          res_bind (case paired_setting text_expr opts of
              Some m \<Rightarrow> res_bind (set_reading m delimiter) (\<lambda>_. ok (reverse_pattern m))
            | None \<Rightarrow> reverse_operand par text_expr) (\<lambda>t.
          let split = simple_function_expr ''string_to_array'' [t, string_literal [delimiter]] None in
          res_bind (reverse_operand par left) (\<lambda>l.
            ok (if m_negated membership then EAllOp l OpNotEq split else EAnyOp l OpEq split False))))"

section \<open>The test survives both directions\<close>

lemma literal_collation: "derived_collation reference (string_literal t) = ok (Inherited Byte)"
  "derived_collation reference (EValue v) = ok (Inherited Byte)"
  by (simp_all add: derived_collation.simps string_literal_def child_exprs_def)

text \<open>A setting read by its pattern carries no collation, and may be read twice.\<close>

lemma setting_collation: "derived_collation reference (reverse_pattern m) = ok (Inherited Byte)"
  by (subst derived_collation.simps)
    (auto simp: reverse_pattern_def simple_function_expr_def child_exprs_def args_children_def arg_children_def arg_expr_children_def
      unnamed_arg_def option_list_def literal_collation note_child_def ok_def split: session_variable_pattern.splits)

lemma setting_replays:
  assumes "find_session_variable opts (pg_pattern m) \<noteq> None"
  shows "is_replayable q opts (reverse_pattern m)"
proof -
  obtain f where f: "reverse_pattern m = EFunction f" "pattern_of_function f = Some (pg_pattern m)"
    "postgres_catalog_function_name (f_name f) = Some (function_name_lower (f_name f))" by (rule reverse_pattern_call)
  from f(3) obtain i where "last_ident (f_name f) = Some i"
    by (cases "last_ident (f_name f)") (auto simp: postgres_catalog_function_name_def)
  then have "call_replays opts f" using f(2) assms by (auto simp: call_replays_def)
  moreover have "func_replays q opts f" using f(1)
    by (auto simp: reverse_pattern_def simple_function_expr_def unnamed_arg_def string_literal_def split: session_variable_pattern.splits if_splits)
  ultimately show ?thesis using f(1) by simp
qed

lemma paired_call_replays:
  assumes "mapping_for_function (to_ascii_lowercase (sqlite_function m)) opts = Some m"
  shows "is_replayable q opts (paired_call m)"
  using assms by (simp add: paired_call_def simple_function_expr_def call_replays_def call_name_of_builder) (simp add: bare_ident_def)

lemma setting_operand_pattern: "setting_operand (reverse_pattern m) = reverse_pattern m"
  by (rule reverse_pattern_call [of m]) simp

lemma string_to_array_built:
  "string_to_array_arguments (simple_function_expr ''string_to_array'' args None) = Some (map unnamed_arg args)"
proof -
  have "to_ascii_lowercase ''string_to_array'' = ''string_to_array''" by code_simp
  then show ?thesis
    by (simp add: string_to_array_arguments_def simple_function_expr_def catalog_name_of_builder del: to_ascii_lowercase_simps)
qed

lemma unnamed_argument_built [simp]: "unnamed_argument (unnamed_arg e) = Some e"
  by (simp add: unnamed_argument_Some_iff)

text \<open>
  C35. A membership test over a mapped setting survives both directions: \<open>x = ANY(string_to_array(setting, d))\<close>,
  or its negation, over a setting the options declare a set joined by \<open>d\<close>, goes out as the search over the
  paired call, is recognised in the emitted SQL, and reads back as the test it was, for every left side
  that may be read twice, compares bytes and itself survives both directions.
\<close>

theorem set_membership_round_trip:
  assumes "settings_first m \<or> (\<forall>n \<in> set (session_variables opts). paired (to_ascii_lowercase (sqlite_function m)) n \<longrightarrow> \<not> settings_first n)"
    and "setting_value m = DelimitedSet d" and "new_opts = with_session_variable m opts"
    and "test = simple_function_expr ''string_to_array'' [reverse_pattern m, string_literal [d]] None"
    and "translate_operand par x = ok y" and "reverse_operand par y = ok x"
    and "is_replayable (query_replays par) new_opts x" and "is_replayable (query_replays par) new_opts y"
    and "derived_collation (declared_collation par) x \<in> {ok (Explicit Byte), ok (Inherited Byte)}"
  shows "\<exists>search operands. translate_delimited_membership par new_opts x test negated = ok (Some search)
    \<and> delimited_membership_operands search = Some operands
    \<and> reverse_delimited_membership par new_opts operands = ok (if negated then EAllOp x OpNotEq test else EAnyOp x OpEq test False)"
proof -
  obtain f where f: "reverse_pattern m = EFunction f" "pattern_of_function f = Some (pg_pattern m)" by (rule reverse_pattern_call)
  have found: "find_session_variable new_opts (pg_pattern m) = Some m" unfolding assms(3) by (rule installed_found)
  have back_found: "mapping_for_function (to_ascii_lowercase (sqlite_function m)) new_opts = Some m"
    unfolding assms(3) by (rule installed_found_back [OF assms(1)])
  have mapped: "mapped_setting (reverse_pattern m) new_opts = Some m"
    using f found by (simp add: mapped_setting_def setting_operand_pattern)
  have set: "set_reading m d = ok ()" using assms(2) by (simp add: set_reading_def)
  have collation: "effective_collation (declared_collation par) x (reverse_pattern m) = ok Byte"
    using assms(9) by (auto simp: effective_collation_def setting_collation note_child_def ok_def)
  have delimiter: "membership_delimiter (string_literal [d]) = ok d"
    by (simp add: membership_delimiter_def string_literal_def ok_or_def)
  have replay: "is_replayable (query_replays par) new_opts (reverse_pattern m)" using found by (intro setting_replays) simp
  define search where "search = delimited_membership y (paired_call m) d negated"
  have "translate_delimited_membership par new_opts x test negated = ok (Some search)"
    unfolding translate_delimited_membership_def assms(4) string_to_array_built
    by (simp add: delimiter collation honour_collation_def require_replayable_def assms(5,7) replay mapped set search_def)
  moreover have "delimited_membership_operands search = Some \<lparr>m_left = y, m_text = paired_call m, m_delimiter = d, m_negated = negated\<rparr>"
    unfolding search_def by (simp add: membership_recognised)
  moreover have "paired_setting (paired_call m) new_opts = Some m"
    using back_found by (simp add: paired_setting_def paired_call_def simple_function_expr_def call_has_no_arguments_def)
  then have "reverse_delimited_membership par new_opts \<lparr>m_left = y, m_text = paired_call m, m_delimiter = d, m_negated = negated\<rparr>
      = ok (if negated then EAllOp x OpNotEq test else EAnyOp x OpEq test False)"
    using paired_call_replays [OF back_found] assms(4,6,8) set by (simp add: reverse_delimited_membership_def)
  ultimately show ?thesis by blast
qed

theorem set_membership_round_trip_witness:
  "\<exists>search operands. translate_delimited_membership
      \<lparr>translate_operand = ok, reverse_operand = ok, show_operand = (\<lambda>_. []), declared_collation = (\<lambda>_. ok Byte),
        query_replays = (\<lambda>_. False), parse_type = (\<lambda>_. None)\<rparr>
      (with_session_variable (holding_set (CHR '','') (current_setting ''app.subjects'' ''app_subjects''))
        \<lparr>session_variables = [], uuid_function_name = ''uuidv4'', uuid_v7_function_name = None, user_defined_functions = []\<rparr>)
      (EIdentifier (bare_ident ''owner''))
      (simple_function_expr ''string_to_array'' [simple_function_expr ''current_setting''
        [string_literal ''app.subjects'', EValue (LBoolean True)] None, string_literal '',''] None) True = ok (Some search)
    \<and> delimited_membership_operands search = Some operands"
proof -
  let ?m = "holding_set (CHR '','') (current_setting ''app.subjects'' ''app_subjects'')"
  have "reverse_pattern ?m = simple_function_expr ''current_setting'' [string_literal ''app.subjects'', EValue (LBoolean True)] None"
    by (simp add: reverse_pattern_def holding_set_def current_setting_def new_mapping_def)
  moreover have "settings_first ?m" "setting_value ?m = DelimitedSet (CHR '','')"
    by (simp_all add: settings_first_def holding_set_def current_setting_def new_mapping_def)
  moreover have "derived_collation (\<lambda>_. ok Byte) (EIdentifier (bare_ident ''owner'')) = ok (Inherited Byte)"
    by (simp add: derived_collation.simps)
  ultimately show ?thesis
    using set_membership_round_trip [of ?m "\<lparr>session_variables = [], uuid_function_name = ''uuidv4'', uuid_v7_function_name = None,
        user_defined_functions = []\<rparr>" "CHR '',''" _ _ "\<lparr>translate_operand = ok, reverse_operand = ok, show_operand = (\<lambda>_. []),
        declared_collation = (\<lambda>_. ok Byte), query_replays = (\<lambda>_. False), parse_type = (\<lambda>_. None)\<rparr>"
        "EIdentifier (bare_ident ''owner'')" "EIdentifier (bare_ident ''owner'')" True, OF _ _ refl refl]
    by fastforce
qed

end
