(* ===== verification/Substrings.thy ===== *)
theory Substrings
  imports Sqlite_Eval Session_Variables
begin

text \<open>
  The string functions with a syntax of their own, from \<open>src/src/impls/translator_impls/expr.rs\<close>: \<open>POSITION\<close>,
  \<open>TRIM\<close>, \<open>SUBSTRING\<close> and \<open>OVERLAY\<close>. SQLite's \<open>substr\<close> counts a negative start from the end of the text
  where PostgreSQL counts it before the first character; the emitted expressions, evaluated by SQLite's
  rules, answer what PostgreSQL answers. The translation of an operand, its printer and whether the queries
  in it replay are parameters.
\<close>

record operand_parameters =
  tr :: "expr \<Rightarrow> expr tres"
  show_expr :: "expr \<Rightarrow> string"
  replays :: "expr \<Rightarrow> bool"

section \<open>Translations\<close>

text \<open>\<open>str::parse\<close> at \<open>i64\<close>, then the wrapping negation of that width.\<close>

definition parse_i64 :: "string \<Rightarrow> int option" where
  "parse_i64 s =
     (let negative = (s \<noteq> [] \<and> hd s = CHR ''-'');
        digits = (if s \<noteq> [] \<and> (hd s = CHR ''-'' \<or> hd s = CHR ''+'') then tl s else s) in
      if digits \<noteq> [] \<and> all_digits digits
      then (let n = (if negative then - int (digits_value digits) else int (digits_value digits)) in if in_i64 n then Some n else None)
      else None)"

definition wrapping_neg_i64 :: "int \<Rightarrow> int" where
  "wrapping_neg_i64 n = (if n = - (2 ^ 63) then n else - n)"

fun integer_literal_value :: "expr \<Rightarrow> int option" where
  "integer_literal_value (EValue l) = (case l of LNumber digits _ \<Rightarrow> parse_i64 digits | _ \<Rightarrow> None)"
| "integer_literal_value (ENested inner) = integer_literal_value inner"
| "integer_literal_value (EUnaryOp op inner) =
     (if op = UnPlus then integer_literal_value inner
      else if op = UnMinus then map_option wrapping_neg_i64 (integer_literal_value inner) else None)"
| "integer_literal_value _ = None"

definition translate_position :: "operand_parameters \<Rightarrow> expr \<Rightarrow> expr \<Rightarrow> expr tres" where
  "translate_position par substr_expr in_expr =
     res_bind (tr par substr_expr) (\<lambda>translated_substr.
     res_bind (tr par in_expr) (\<lambda>translated_in.
       ok (simple_function_expr ''INSTR'' [translated_in, translated_substr] None)))"

fun tr_list :: "(expr \<Rightarrow> expr tres) \<Rightarrow> expr list \<Rightarrow> expr list tres" where
  "tr_list f [] = ok []"
| "tr_list f (e # es) = res_bind (f e) (\<lambda>x. res_bind (tr_list f es) (\<lambda>xs. ok (x # xs)))"

definition tr_option :: "('a \<Rightarrow> 'b tres) \<Rightarrow> 'a option \<Rightarrow> 'b option tres" where
  "tr_option f v = (case v of None \<Rightarrow> ok None | Some x \<Rightarrow> res_bind (f x) (\<lambda>y. ok (Some y)))"

definition translate_trim :: "operand_parameters \<Rightarrow> expr \<Rightarrow> trim_where option \<Rightarrow> expr option \<Rightarrow> expr list option \<Rightarrow> expr tres" where
  "translate_trim par e where_field trim_what trim_characters =
     (case where_field of
        Some side \<Rightarrow>
          (let name = (case side of TrimLeading \<Rightarrow> ''LTRIM'' | TrimTrailing \<Rightarrow> ''RTRIM'' | TrimBoth \<Rightarrow> ''TRIM'') in
           res_bind (tr par e) (\<lambda>translated.
           res_bind (case trim_what of
               Some w \<Rightarrow> res_bind (tr par w) (\<lambda>x. ok (Some x))
             | None \<Rightarrow> tr_option (tr par) (case trim_characters of Some (c # _) \<Rightarrow> Some c | _ \<Rightarrow> None)) (\<lambda>char_arg.
             ok (simple_function_expr name (case char_arg of Some c \<Rightarrow> [translated, c] | None \<Rightarrow> [translated]) None))))
      | None \<Rightarrow>
          res_bind (tr par e) (\<lambda>translated.
          res_bind (tr_option (tr par) trim_what) (\<lambda>w.
          res_bind (tr_option (tr_list (tr par)) trim_characters) (\<lambda>cs.
            ok (ETrim translated None w cs)))))"

definition pattern_form_refusal :: "(expr \<Rightarrow> string) \<Rightarrow> expr \<Rightarrow> expr \<Rightarrow> string" where
  "pattern_form_refusal show_e e from = ''SUBSTRING('' @ show_e e @ '' FROM '' @ show_e from
     @ '') is the regular-expression form, which answers the first match of the pattern, and SQLite has no regular-expression ''
     @ ''engine of its own: it answers `no such function: REGEXP` unless the application registers one. Extract the part with ''
     @ ''instr and substr, or register a regular-expression function and call it directly.''"

definition negative_length_refusal :: "(expr \<Rightarrow> string) \<Rightarrow> expr \<Rightarrow> expr \<Rightarrow> string" where
  "negative_length_refusal show_e e len = ''SUBSTRING('' @ show_e e @ '' FOR '' @ show_e len
     @ '') asks for a negative length, which PostgreSQL answers `negative substring length not allowed` for, so the replica must ''
     @ ''not answer an empty string instead.''"

definition clipped_length :: "expr \<Rightarrow> expr \<Rightarrow> expr" where
  "clipped_length from for_len =
     simple_function_expr ''max'' [EBinaryOp (EBinaryOp for_len OpPlus (simple_function_expr ''min'' [from, integer_literal 1] None))
       OpMinus (integer_literal 1), integer_literal 0] None"

text \<open>The three refusals, in the order they are checked.\<close>

definition substring_refusal :: "operand_parameters \<Rightarrow> expr \<Rightarrow> expr option \<Rightarrow> expr option \<Rightarrow> string option" where
  "substring_refusal par e substring_from substring_for =
     (case (substring_from, substring_for) of
        (Some from, Some _) \<Rightarrow>
          if \<not> replays par from then Some (reject_duplicated_operand (show_expr par) ''SUBSTRING(... FROM ... FOR ...)'' from) else None
      | _ \<Rightarrow> None)"

definition pattern_refusal :: "operand_parameters \<Rightarrow> expr \<Rightarrow> expr option \<Rightarrow> string option" where
  "pattern_refusal par e substring_from = (case substring_from of
     Some from \<Rightarrow> if single_quoted_literal from \<noteq> None then Some (pattern_form_refusal (show_expr par) e from) else None
   | None \<Rightarrow> None)"

definition length_refusal :: "operand_parameters \<Rightarrow> expr \<Rightarrow> expr option \<Rightarrow> string option" where
  "length_refusal par e substring_for = (case substring_for of
     Some for_len \<Rightarrow> (case integer_literal_value for_len of
         Some n \<Rightarrow> if n < 0 then Some (negative_length_refusal (show_expr par) e for_len) else None
       | None \<Rightarrow> None)
   | None \<Rightarrow> None)"

definition unless_refused :: "string option \<Rightarrow> 'a tres \<Rightarrow> 'a tres" where
  "unless_refused refusal r = (case refusal of Some message \<Rightarrow> refuse (ForwardRefusal message) | None \<Rightarrow> r)"

definition translate_substring :: "operand_parameters \<Rightarrow> expr \<Rightarrow> expr option \<Rightarrow> expr option \<Rightarrow> expr tres" where
  "translate_substring par e substring_from substring_for =
     unless_refused (substring_refusal par e substring_from substring_for) (
     unless_refused (pattern_refusal par e substring_from) (
     unless_refused (length_refusal par e substring_for) (
       res_bind (tr par e) (\<lambda>translated.
       res_bind (tr_option (tr par) substring_from) (\<lambda>from_expr.
       let start = map_option (\<lambda>s. simple_function_expr ''max'' [s, integer_literal 1] None) from_expr in
       res_bind (case (substring_from, substring_for) of
           (Some from, Some for_len) \<Rightarrow>
             res_bind (tr par from) (\<lambda>from. res_bind (tr par for_len) (\<lambda>for_len. ok (Some (clipped_length from for_len))))
         | (None, Some for_len) \<Rightarrow> res_bind (tr par for_len) (\<lambda>l. ok (Some l))
         | (_, None) \<Rightarrow> ok None) (\<lambda>len.
       let start = (if start = None \<and> substring_for \<noteq> None then Some (integer_literal 1) else start) in
         ok (ESubstring translated start len True True)))))))"

definition overlay_refusal :: "operand_parameters \<Rightarrow> expr \<Rightarrow> expr \<Rightarrow> expr \<Rightarrow> string option" where
  "overlay_refusal par e overlay_what overlay_from =
     (if \<not> replays par e then Some (reject_duplicated_operand (show_expr par) ''OVERLAY(... PLACING ... FROM ...)'' e)
      else case integer_literal_value overlay_from of
        Some n \<Rightarrow> if n < 1 then Some (''OVERLAY('' @ show_expr par e @ '' PLACING '' @ show_expr par overlay_what @ '' FROM ''
            @ show_expr par overlay_from @ '') starts before the first character, which PostgreSQL answers `negative substring length ''
            @ ''not allowed` for, since the prefix it takes is one character shorter than the start. Count from one.'') else None
      | None \<Rightarrow> None)"

definition translate_overlay :: "operand_parameters \<Rightarrow> expr \<Rightarrow> expr \<Rightarrow> expr \<Rightarrow> expr option \<Rightarrow> expr tres" where
  "translate_overlay par e overlay_what overlay_from overlay_for =
     unless_refused (overlay_refusal par e overlay_what overlay_from) (
       res_bind (tr par e) (\<lambda>x.
       res_bind (tr par overlay_what) (\<lambda>w.
       res_bind (tr par overlay_from) (\<lambda>p.
       res_bind (case overlay_for of Some l \<Rightarrow> tr par l | None \<Rightarrow> ok (simple_function_expr ''length'' [w] None)) (\<lambda>replacement_len.
       let prefix = simple_function_expr ''substr'' [x, integer_literal 1, EBinaryOp p OpMinus (integer_literal 1)] None;
         suffix = simple_function_expr ''substr'' [x, EBinaryOp p OpPlus replacement_len] None in
         ok (EBinaryOp (EBinaryOp prefix OpStringConcat w) OpStringConcat suffix))))))"

section \<open>What PostgreSQL answers\<close>

text \<open>\<open>SUBSTRING(s FROM start FOR len)\<close>: the characters at the positions from \<open>start\<close> up to, not including,
  \<open>start + len\<close>, counted from one; a position outside the text has no character.\<close>

definition pg_substring :: "string \<Rightarrow> int \<Rightarrow> int option \<Rightarrow> string" where
  "pg_substring s start len = nths s {k. start \<le> int k + 1 \<and> (case len of None \<Rightarrow> True | Some z \<Rightarrow> int k + 1 < start + z)}"

definition pg_overlay :: "string \<Rightarrow> string \<Rightarrow> int \<Rightarrow> int \<Rightarrow> string" where
  "pg_overlay s w start len = pg_substring s 1 (Some (start - 1)) @ w @ pg_substring s (start + len) None"

lemma nths_from: "nths xs {k. a \<le> k \<and> P k} = nths (drop a xs) {k. P (k + a)}"
proof (cases "a \<le> length xs")
  case True
  have "set (nths (take a xs) {k. a \<le> k \<and> P k}) = {}" by (auto simp: set_nths)
  then have "nths (take a xs) {k. a \<le> k \<and> P k} = []" by (simp only: set_empty)
  moreover have "nths xs {k. a \<le> k \<and> P k} = nths (take a xs) {k. a \<le> k \<and> P k} @ nths (drop a xs) {j. j + length (take a xs) \<in> {k. a \<le> k \<and> P k}}"
    using nths_append [of "take a xs" "drop a xs" "{k. a \<le> k \<and> P k}"] by simp
  ultimately show ?thesis using True by simp
next
  case False
  then have "set (nths xs {k. a \<le> k \<and> P k}) = {}" by (auto simp: set_nths)
  then show ?thesis using False by (simp only: set_empty) simp
qed

lemma pg_substring_to_end: "pg_substring s start None = drop (nat (start - 1)) s"
proof -
  have "{k. start \<le> int k + 1} = {k. nat (start - 1) \<le> k \<and> True}" by auto
  then show ?thesis unfolding pg_substring_def using nths_from [of s "nat (start - 1)" "\<lambda>_. True"] by (simp add: nths_all)
qed

lemma pg_substring_part:
  "pg_substring s start (Some z) = take (nat (start + z - 1) - nat (start - 1)) (drop (nat (start - 1)) s)"
proof -
  have "{k. start \<le> int k + 1 \<and> int k + 1 < start + z} = {k. nat (start - 1) \<le> k \<and> k < nat (start + z - 1)}" by auto
  moreover have "{k. k + nat (start - 1) < nat (start + z - 1)} = {..< nat (start + z - 1) - nat (start - 1)}" by auto
  ultimately show ?thesis
    unfolding pg_substring_def using nths_from [of s "nat (start - 1)" "\<lambda>k. k < nat (start + z - 1)"] by (simp add: nths_upt_eq_take)
qed

lemma sqlite_substr_positive:
  assumes "1 \<le> start"
  shows "sqlite_substr s start None = drop (nat (start - 1)) s"
    and "0 \<le> z \<Longrightarrow> sqlite_substr s start (Some z) = take (nat z) (drop (nat (start - 1)) s)"
  using assms by (auto simp: sqlite_substr_def Let_def)

lemma clipped_substring:
  assumes "0 \<le> z"
  shows "sqlite_substr s (max start 1) (Some (max (z + min start 1 - 1) 0)) = pg_substring s start (Some z)"
proof -
  have "nat (max start 1 - 1) = nat (start - 1)" by linarith
  moreover have "nat (max (z + min start 1 - 1) 0) = nat (start + z - 1) - nat (start - 1)" using assms by linarith
  ultimately show ?thesis using sqlite_substr_positive(2) [of "max start 1" "max (z + min start 1 - 1) 0" s] by (simp add: pg_substring_part)
qed

section \<open>Substrings are PostgreSQL's\<close>

text \<open>An operand left out reads as \<open>missing\<close>; one written reads as the integer its translation answers.\<close>

definition reads_as :: "operand_parameters \<Rightarrow> (expr \<Rightarrow> sval) \<Rightarrow> expr option \<Rightarrow> int option \<Rightarrow> bool" where
  "reads_as par env operand n = (case (operand, n) of
     (None, None) \<Rightarrow> True
   | (Some e, Some k) \<Rightarrow> (\<exists>y. tr par e = ok y \<and> sqlite_eval env y = SInt k)
   | _ \<Rightarrow> False)"

lemma max_call: "sqlite_eval env a = SInt m \<Longrightarrow> sqlite_eval env b = SInt n \<Longrightarrow> sqlite_eval env (simple_function_expr ''max'' [a, b] None) = SInt (max m n)"
  by (simp add: eval_function largest_def)

lemma clipped_length_value:
  assumes "sqlite_eval env p = SInt start" "sqlite_eval env l = SInt z" "0 \<le> z" "z < 2 ^ 63 - 1" "- (2 ^ 63) < start"
  shows "sqlite_eval env (clipped_length p l) = SInt (max (z + min start 1 - 1) 0)"
proof -
  have m: "sqlite_eval env (simple_function_expr ''min'' [p, integer_literal 1] None) = SInt (min start 1)"
    using assms(1) by (simp add: eval_function largest_def)
  have "in_i64 (z + min start 1)" "in_i64 (z + min start 1 - 1)" using assms(3,4,5) by (auto simp: in_i64_def min_def)
  then show ?thesis unfolding clipped_length_def by (intro max_call) (simp_all add: eval_simps m assms(2) int64_def)
qed

text \<open>
  C33. \<open>SUBSTRING\<close> answers what PostgreSQL answers: when none of the three refusals applies, the emitted
  \<open>SUBSTR\<close>, evaluated by SQLite's rules, is the text of the characters at the positions asked for, also for a
  start before the first character, where SQLite alone would count from the end, and for a length alone.
\<close>

theorem substring_means_postgres:
  assumes "substring_refusal par e from len = None" and "pattern_refusal par e from = None" and "length_refusal par e len = None"
    and "from \<noteq> None \<or> len \<noteq> None"
    and "tr par e = ok x" and "sqlite_eval env x = SText s"
    and "reads_as par env from start" and "reads_as par env len z"
    and "case start of None \<Rightarrow> True | Some a \<Rightarrow> - (2 ^ 63) < a" and "case z of None \<Rightarrow> True | Some n \<Rightarrow> 0 \<le> n \<and> n < 2 ^ 63 - 1"
  shows "\<exists>r. translate_substring par e from len = ok r
    \<and> sqlite_eval env r = SText (pg_substring s (case start of None \<Rightarrow> 1 | Some a \<Rightarrow> a) z)"
proof -
  consider (both) f l a n where "from = Some f" "len = Some l" "start = Some a" "z = Some n"
    | (start_only) f a where "from = Some f" "len = None" "start = Some a" "z = None"
    | (len_only) l n where "from = None" "len = Some l" "start = None" "z = Some n"
    using assms(4,7,8) by (cases "from"; cases len; cases start; cases z) (auto simp: reads_as_def)
  then show ?thesis
  proof cases
    case both
    then obtain p k where p: "tr par f = ok p" "sqlite_eval env p = SInt a" and k: "tr par l = ok k" "sqlite_eval env k = SInt n"
      using assms(7,8) by (auto simp: reads_as_def)
    have "sqlite_eval env (ESubstring x (Some (simple_function_expr ''max'' [p, integer_literal 1] None)) (Some (clipped_length p k)) True True)
        = SText (pg_substring s a (Some n))"
      using max_call [OF p(2) eval_0_1(2)] clipped_length_value [OF p(2) k(2)] clipped_substring [of n s a] assms(6,9,10) both
      by (simp add: eval_simps substr_call_def)
    then show ?thesis using assms(1,2,3,5) both p k by (simp add: translate_substring_def unless_refused_def tr_option_def)
  next
    case start_only
    then obtain p where p: "tr par f = ok p" "sqlite_eval env p = SInt a" using assms(7) by (auto simp: reads_as_def)
    have "sqlite_eval env (ESubstring x (Some (simple_function_expr ''max'' [p, integer_literal 1] None)) None True True)
        = SText (drop (nat (max a 1 - 1)) s)"
      using max_call [OF p(2) eval_0_1(2)] sqlite_substr_positive(1) [of "max a 1" s] assms(6) by (simp add: eval_simps substr_call_def)
    moreover have "nat (max a 1 - 1) = nat (a - 1)" by linarith
    ultimately show ?thesis using assms(1,2,3,5) start_only p
      by (simp add: translate_substring_def unless_refused_def tr_option_def pg_substring_to_end)
  next
    case len_only
    then obtain k where k: "tr par l = ok k" "sqlite_eval env k = SInt n" using assms(8) by (auto simp: reads_as_def)
    have "sqlite_eval env (ESubstring x (Some (integer_literal 1)) (Some k) True True) = SText (take (nat n) s)"
      using k sqlite_substr_positive(2) [of 1 n s] assms(6,10) len_only by (simp add: eval_simps substr_call_def)
    then show ?thesis using assms(1,2,3,5) len_only k
      by (simp add: translate_substring_def unless_refused_def tr_option_def pg_substring_part)
  qed
qed

theorem substring_means_postgres_witness:
  "\<exists>r. translate_substring \<lparr>tr = ok, show_expr = (\<lambda>_. []), replays = (\<lambda>_. True)\<rparr> (string_literal ''Thomas'')
      (Some (integer_literal 0)) (Some (integer_literal 1)) = ok r
    \<and> sqlite_eval (\<lambda>_. SNull) r = SText (pg_substring ''Thomas'' 0 (Some 1))"
proof -
  have "single_quoted_literal (integer_literal n) = None" for n by (simp add: integer_literal_def)
  moreover have "integer_literal_value (integer_literal 1) = Some 1" by code_simp
  ultimately show ?thesis
    using substring_means_postgres [of "\<lparr>tr = ok, show_expr = (\<lambda>_. []), replays = (\<lambda>_. True)\<rparr>" "string_literal ''Thomas''"
      "Some (integer_literal 0)" "Some (integer_literal 1)" "string_literal ''Thomas''" "\<lambda>_. SNull" "''Thomas''" "Some 0" "Some 1"]
    by (simp add: substring_refusal_def pattern_refusal_def length_refusal_def reads_as_def eval_string_literal in_i64_def)
qed

section \<open>Overlays are PostgreSQL's\<close>

text \<open>
  \<open>OVERLAY\<close> answers what PostgreSQL answers: from any start past the first character, the emitted
  concatenation is the text before the start, the replacement, and what follows the characters it replaces,
  as many as asked for or as the replacement has, as long as these do not reach before the text.
\<close>

lemma overlay_means_postgres:
  assumes "overlay_refusal par e w from = None"
    and "tr par e = ok x" and "sqlite_eval env x = SText s" and "tr par w = ok y" and "sqlite_eval env y = SText v"
    and "tr par from = ok p" and "sqlite_eval env p = SInt start" and "reads_as par env len z"
    and "1 \<le> start" and "n = (case z of None \<Rightarrow> int (length v) | Some k \<Rightarrow> k)" and "0 \<le> start + n" and "start + n < 2 ^ 63"
    and "start < 2 ^ 63"
  shows "\<exists>r. translate_overlay par e w from len = ok r \<and> sqlite_eval env r = SText (pg_overlay s v start n)"
proof -
  obtain l where l: "(case len of Some k \<Rightarrow> tr par k | None \<Rightarrow> ok (simple_function_expr ''length'' [y] None)) = ok l" "sqlite_eval env l = SInt n"
    using assms(5,8,10) by (cases len; cases z) (auto simp: reads_as_def eval_function text_call_def)
  let ?prefix = "simple_function_expr ''substr'' [x, integer_literal 1, EBinaryOp p OpMinus (integer_literal 1)] None"
  let ?suffix = "simple_function_expr ''substr'' [x, EBinaryOp p OpPlus l] None"
  have i: "in_i64 (start - 1)" "in_i64 (start + n)" using assms(9,11,12,13) by (auto simp: in_i64_def)
  have "sqlite_eval env ?prefix = SText (pg_substring s 1 (Some (start - 1)))"
    using assms(3,7,9) i(1) sqlite_substr_positive(2) [of 1 "start - 1" s]
    by (simp add: eval_function eval_simps substr_call_def int64_def pg_substring_part)
  moreover have "sqlite_substr s (start + n) None = pg_substring s (start + n) None"
  proof (cases "start + n = 0")
    case True
    then show ?thesis by (simp add: sqlite_substr_def pg_substring_to_end)
  next
    case False
    then show ?thesis using assms(11) sqlite_substr_positive(1) [of "start + n" s] by (simp add: pg_substring_to_end)
  qed
  then have "sqlite_eval env ?suffix = SText (pg_substring s (start + n) None)"
    using assms(3,7) i(2) l(2) by (simp add: eval_function eval_simps substr_call_def int64_def)
  ultimately have "sqlite_eval env (EBinaryOp (EBinaryOp ?prefix OpStringConcat y) OpStringConcat ?suffix) = SText (pg_overlay s v start n)"
    using assms(5) by (simp add: eval_simps pg_overlay_def)
  then show ?thesis using assms(1,2,4,6) l(1) by (simp add: translate_overlay_def unless_refused_def)
qed

lemma overlay_means_postgres_witness:
  "\<exists>r. translate_overlay \<lparr>tr = ok, show_expr = (\<lambda>_. []), replays = (\<lambda>_. True)\<rparr> (string_literal ''Txxxxas'')
      (string_literal ''hom'') (integer_literal 1) None = ok r
    \<and> sqlite_eval (\<lambda>_. SNull) r = SText (pg_overlay ''Txxxxas'' ''hom'' 1 3)"
proof -
  have "integer_literal_value (integer_literal 1) = Some 1" by code_simp
  then show ?thesis
    using overlay_means_postgres [of "\<lparr>tr = ok, show_expr = (\<lambda>_. []), replays = (\<lambda>_. True)\<rparr>" "string_literal ''Txxxxas''"
        "string_literal ''hom''" "integer_literal 1" "string_literal ''Txxxxas''" "\<lambda>_. SNull" "''Txxxxas''" "string_literal ''hom''"
        "''hom''" "integer_literal 1" 1 None None 3]
    by (simp add: overlay_refusal_def reads_as_def eval_string_literal)
qed

text \<open>Past the hypothesis the two engines part: replacing minus three characters from the first one reaches
  before the text, where PostgreSQL appends the whole text and SQLite its last two characters.\<close>

lemma overlay_before_the_text:
  "sqlite_substr ''abc'' (1 + - 3) None = ''bc''" "pg_substring ''abc'' (1 + - 3) None = ''abc''"
  by (simp_all add: sqlite_substr_def pg_substring_to_end)

section \<open>Positions\<close>

lemma position_means_instr:
  assumes "tr par sub = ok y" "sqlite_eval env y = SText t" "tr par within = ok x" "sqlite_eval env x = SText s"
  shows "\<exists>r. translate_position par sub within = ok r \<and> sqlite_eval env r = SInt (sqlite_instr s t)"
  using assms by (simp add: translate_position_def eval_function instr_call_def)

end
