(* ===== verification/Literal_Casts.thy ===== *)
theory Literal_Casts
  imports Sqlite_Eval Session_Variables
begin

text \<open>
  Values SQLite has no type for. From \<open>src/src/impls/translator_impls/expr.rs\<close> the cast to boolean and the
  rendering of a boolean as text, from \<open>src/src/impls/shared_helpers.rs\<close> the boolean, bytea and bit literals
  a column takes. The two readings of a boolean spelling, a prefix rule and a pair of lists, are the same
  one, and what the emitted expressions answer is what PostgreSQL answers. The translation of an operand is
  a parameter.
\<close>

section \<open>Booleans\<close>

definition postgres_bool :: "string \<Rightarrow> bool option" where
  "postgres_bool txt_of =
     (let v = to_ascii_lowercase (trim txt_of);
        prefix_of = (\<lambda>word least. least \<le> length v \<and> starts_with v word) in
      case v of
        [] \<Rightarrow> None
      | c # _ \<Rightarrow>
          if c = CHR ''t'' \<and> prefix_of ''true'' 1 then Some True
          else if c = CHR ''f'' \<and> prefix_of ''false'' 1 then Some False
          else if c = CHR ''y'' \<and> prefix_of ''yes'' 1 then Some True
          else if c = CHR ''n'' \<and> prefix_of ''no'' 1 then Some False
          else if c = CHR ''o'' \<and> prefix_of ''on'' 2 then Some True
          else if c = CHR ''o'' \<and> prefix_of ''off'' 2 then Some False
          else if c = CHR ''1'' \<and> length v = 1 then Some True
          else if c = CHR ''0'' \<and> length v = 1 then Some False
          else None)"

definition boolean_text_literal :: "expr \<Rightarrow> expr option tres" where
  "boolean_text_literal e = (case single_quoted_literal e of
     None \<Rightarrow> ok None
   | Some t \<Rightarrow> (case postgres_bool t of
       None \<Rightarrow> refuse (ForwardRefusal ([CHR 0x27] @ t @ [CHR 0x27]
         @ '' is not a boolean PostgreSQL accepts, so it cannot be written into a boolean column.''))
     | Some b \<Rightarrow> ok (Some (EValue (LBoolean b)))))"

definition TRUE_SPELLINGS :: "string list" where
  "TRUE_SPELLINGS = [''t'', ''tr'', ''tru'', ''true'', ''y'', ''ye'', ''yes'', ''on'', ''1'']"

definition FALSE_SPELLINGS :: "string list" where
  "FALSE_SPELLINGS = [''f'', ''fa'', ''fal'', ''fals'', ''false'', ''n'', ''no'', ''of'', ''off'', ''0'']"

definition string_set_membership :: "expr \<Rightarrow> string list \<Rightarrow> expr" where
  "string_set_membership e vals = EInList e (map string_literal vals) False"

definition invalid_boolean :: "string \<Rightarrow> string" where
  "invalid_boolean t = ''invalid input syntax for type boolean: '' @ [CHR 0x22] @ t @ [CHR 0x22]
     @ ''. PostgreSQL accepts true, false, yes, no, on, off, 1, 0, and any unambiguous prefix of those words.''"

definition boolean_case :: "expr \<Rightarrow> expr" where
  "boolean_case v =
     (let normalized = simple_function_expr ''lower'' [simple_function_expr ''trim'' [v] None] None in
      ECase None
        [(EIsNull v, EValue LNull),
         (string_set_membership (simple_function_expr ''typeof'' [v] None) [''integer'', ''real''], EBinaryOp v OpNotEq (number_literal ''0'')),
         (string_set_membership normalized TRUE_SPELLINGS, number_literal ''1''),
         (string_set_membership normalized FALSE_SPELLINGS, number_literal ''0'')]
        (Some (simple_function_expr ''json_extract'' [string_literal ''{}'',
          EBinaryOp (string_literal ''invalid input syntax for type boolean: '') OpStringConcat v] None)))"

definition translate_boolean_cast :: "(expr \<Rightarrow> expr tres) \<Rightarrow> expr \<Rightarrow> expr tres" where
  "translate_boolean_cast tr e = (case single_quoted_literal e of
     Some t \<Rightarrow>
       (let spelling = to_ascii_lowercase (trim t) in
        if spelling \<in> set TRUE_SPELLINGS then ok (number_literal ''1'')
        else if spelling \<in> set FALSE_SPELLINGS then ok (number_literal ''0'')
        else refuse (ForwardRefusal (invalid_boolean t)))
   | None \<Rightarrow> res_bind (tr e) (\<lambda>v. ok (boolean_case v)))"

fun boolean_literal_word :: "expr \<Rightarrow> string option" where
  "boolean_literal_word (ENested inner) = boolean_literal_word inner"
| "boolean_literal_word (EValue l) = (case l of LBoolean b \<Rightarrow> Some (if b then ''true'' else ''false'') | _ \<Rightarrow> None)"
| "boolean_literal_word _ = None"

definition render_boolean_as_text :: "(expr \<Rightarrow> expr tres) \<Rightarrow> expr \<Rightarrow> expr tres" where
  "render_boolean_as_text tr e = (case boolean_literal_word e of
     Some word \<Rightarrow> ok (string_literal word)
   | None \<Rightarrow> res_bind (tr e) (\<lambda>v.
       ok (ECase None [(v, string_literal ''true''), (not_predicate v, string_literal ''false'')] None)))"

section \<open>Bytes and bits\<close>

definition convert_bytea_hex_literal :: "expr \<Rightarrow> expr tres" where
  "convert_bytea_hex_literal e = (case single_quoted_literal e of
     None \<Rightarrow> ok e
   | Some t \<Rightarrow>
       (case strip_prefix [CHR 0x5C, CHR ''x''] t of
          None \<Rightarrow> refuse (ForwardRefusal (''bytea literal '' @ [CHR 0x27] @ t @ [CHR 0x27] 
            @ '' is not in the PostgreSQL hex format ('' @ [CHR 0x5C] @ ''x<hex>). Use the hex format: E.g., '' @ [CHR 0x27, CHR 0x5C] @ ''x414243''
            @ [CHR 0x27] @ '' for the bytes '' @ [CHR 0x27] @ ''ABC'' @ [CHR 0x27] @ ''.''))
        | Some hex \<Rightarrow>
            if length hex mod 2 \<noteq> 0 then refuse (ForwardRefusal (''bytea literal '' @ [CHR 0x27, CHR 0x5C, CHR ''x''] @ hex
              @ [CHR 0x27] @ '' has an odd number of nibbles. PostgreSQL requires pairs of hex digits.''))
            else if \<not> list_all is_ascii_hexdigit hex then refuse (ForwardRefusal (''bytea literal '' @ [CHR 0x27, CHR 0x5C, CHR ''x'']
              @ hex @ [CHR 0x27] @ '' contains a non-hex character.''))
            else ok (simple_function_expr ''unhex'' [string_literal hex] None)))"

definition hex_digit :: "char \<Rightarrow> nat option" where
  "hex_digit c =
     (if is_ascii_digit c then Some (code c - 48)
      else if 97 \<le> code c \<and> code c \<le> 102 then Some (code c - 87)
      else if 65 \<le> code c \<and> code c \<le> 70 then Some (code c - 55)
      else None)"

definition nibble_bits :: "nat \<Rightarrow> string" where
  "nibble_bits v = map (\<lambda>shift. if v div 2 ^ shift mod 2 = 1 then CHR ''1'' else CHR ''0'') (rev [0..<4])"

fun expand_digits :: "string \<Rightarrow> string \<Rightarrow> string tres" where
  "expand_digits hex [] = ok []"
| "expand_digits hex (digit # digits) =
     (case hex_digit digit of
        None \<Rightarrow> refuse (ForwardRefusal ([CHR 0x22] @ [digit] @ [CHR 0x22] @ '' is not a valid hexadecimal digit: X'' @ [CHR 0x27] @ hex
          @ [CHR 0x27] @ '' cannot be read as a bit string.''))
      | Some v \<Rightarrow> res_bind (expand_digits hex digits) (\<lambda>rest. ok (nibble_bits v @ rest)))"

definition expand_hex_to_bits :: "string \<Rightarrow> string tres" where
  "expand_hex_to_bits hex = expand_digits hex hex"

definition binary_digits :: "string \<Rightarrow> string tres" where
  "binary_digits bits = (case find (\<lambda>c. c \<noteq> CHR ''0'' \<and> c \<noteq> CHR ''1'') bits of
     Some invalid \<Rightarrow> refuse (ForwardRefusal ([CHR 0x22] @ [invalid] @ [CHR 0x22] @ '' is not a valid binary digit: a bit column is stored ''
       @ ''as its digit text, so '' @ [CHR 0x27] @ bits @ [CHR 0x27] @ '' would be held where PostgreSQL refuses it. Write a string of 0 ''
       @ ''and 1, a B'' @ [CHR 0x27] @ ''...'' @ [CHR 0x27] @ '' literal, or an X'' @ [CHR 0x27] @ ''...'' @ [CHR 0x27] @ '' literal.''))
   | None \<Rightarrow> ok bits)"

definition convert_bit_literal :: "expr \<Rightarrow> expr tres" where
  "convert_bit_literal e = (case e of
     EValue l \<Rightarrow>
       (case l of
          LByteString bits \<Rightarrow> res_bind (binary_digits bits) (\<lambda>d. ok (string_literal d))
        | LSingleQuoted bits \<Rightarrow> res_bind (binary_digits bits) (\<lambda>d. ok (string_literal d))
        | LHexString hex \<Rightarrow> res_bind (expand_hex_to_bits hex) (\<lambda>d. ok (string_literal d))
        | _ \<Rightarrow> ok e)
   | _ \<Rightarrow> ok e)"

definition is_float_special :: "string \<Rightarrow> bool" where
  "is_float_special t \<longleftrightarrow> to_ascii_lowercase t \<in> {''nan'', ''infinity'', ''-infinity'', ''+infinity'', ''inf'', ''-inf'', ''+inf''}"

section \<open>A boolean reads the same everywhere\<close>

lemma prefix_spellings:
  "starts_with v ''true'' \<longleftrightarrow> v \<in> {[], ''t'', ''tr'', ''tru'', ''true''}"
  "starts_with v ''false'' \<longleftrightarrow> v \<in> {[], ''f'', ''fa'', ''fal'', ''fals'', ''false''}"
  "starts_with v ''yes'' \<longleftrightarrow> v \<in> {[], ''y'', ''ye'', ''yes''}"
  "starts_with v ''no'' \<longleftrightarrow> v \<in> {[], ''n'', ''no''}"
  "starts_with v ''on'' \<longleftrightarrow> v \<in> {[], ''o'', ''on''}"
  "starts_with v ''off'' \<longleftrightarrow> v \<in> {[], ''o'', ''of'', ''off''}"
  by (auto simp: starts_with_def Cons_eq_append_conv)

lemma length_1_iff: "length v = Suc 0 \<longleftrightarrow> v = [hd v]"
  by (cases v) auto

lemma postgres_bool_spellings:
  "postgres_bool t = (let v = to_ascii_lowercase (trim t) in
     if v \<in> set TRUE_SPELLINGS then Some True else if v \<in> set FALSE_SPELLINGS then Some False else None)"
proof -
  define v where "v = to_ascii_lowercase (trim t)"
  show ?thesis
    unfolding postgres_bool_def v_def [symmetric] Let_def prefix_spellings TRUE_SPELLINGS_def FALSE_SPELLINGS_def
    by (cases v) (auto simp: length_1_iff)
qed

lemma spellings_apart: "v \<in> set TRUE_SPELLINGS \<Longrightarrow> v \<notin> set FALSE_SPELLINGS"
  by (auto simp: TRUE_SPELLINGS_def FALSE_SPELLINGS_def)

lemma in_texts: "sqlite_in (SText v) (map SText vs) = Some (Some (v \<in> set vs))"
  by (induction vs) (auto simp: or3_def and3_def of_truth_def)

lemma eval_string_set:
  "sqlite_eval env e = SText v \<Longrightarrow> sqlite_eval env (string_set_membership e vs) = of_truth (Some (v \<in> set vs))"
  by (simp add: string_set_membership_def eval_simps comp_def eval_string_literal in_texts)

lemma eval_digit_literals: "sqlite_eval env (number_literal ''0'') = SInt 0" "sqlite_eval env (number_literal ''1'') = SInt 1"
proof -
  have "show_nat 0 = ''0''" "show_nat 1 = ''1''" by code_simp+
  then show "sqlite_eval env (number_literal ''0'') = SInt 0" "sqlite_eval env (number_literal ''1'') = SInt 1"
    using eval_number_literal [of 0 env] eval_number_literal [of 1 env] by (simp_all add: in_i64_def)
qed

text \<open>PostgreSQL's boolean of a value of the three kinds; a text it does not accept has none.\<close>

fun pg_boolean :: "sval \<Rightarrow> bool option option" where
  "pg_boolean SNull = Some None"
| "pg_boolean (SInt n) = Some (Some (n \<noteq> 0))"
| "pg_boolean (SText s) = map_option Some (postgres_bool s)"

lemma boolean_case_value:
  assumes "pg_boolean (sqlite_eval env v) = Some b" "\<And>s. sqlite_eval env v = SText s \<Longrightarrow> trim_spaces s = trim s"
  shows "sqlite_eval env (boolean_case v) = of_truth b"
proof (cases "sqlite_eval env v")
  case SNull
  then show ?thesis using assms(1) by (simp add: boolean_case_def eval_simps of_truth_def Let_def)
next
  case (SInt n)
  then have "sqlite_eval env (string_set_membership (simple_function_expr ''typeof'' [v] None) [''integer'', ''real'']) = of_truth (Some True)"
    using eval_string_set [of env "simple_function_expr ''typeof'' [v] None" "''integer''" "[''integer'', ''real'']"]
    by (simp add: eval_function)
  then show ?thesis using SInt assms(1) by (simp add: boolean_case_def eval_simps eval_digit_literals of_truth_def Let_def)
next
  case (SText s)
  then have t: "sqlite_eval env (string_set_membership (simple_function_expr ''typeof'' [v] None) [''integer'', ''real'']) = of_truth (Some False)"
    using eval_string_set [of env "simple_function_expr ''typeof'' [v] None" "''text''" "[''integer'', ''real'']"]
    by (simp add: eval_function)
  let ?normalized = "simple_function_expr ''lower'' [simple_function_expr ''trim'' [v] None] None"
  have n: "sqlite_eval env ?normalized = SText (to_ascii_lowercase (trim s))"
    using SText assms(2) by (simp add: eval_function text_call_def)
  obtain r where r: "postgres_bool s = Some r" "b = Some r" using assms(1) SText by auto
  then show ?thesis using SText t eval_string_set [OF n] spellings_apart postgres_bool_spellings [of s]
    by (auto simp: boolean_case_def eval_simps eval_digit_literals of_truth_def Let_def split: if_splits)
qed

text \<open>
  C38. A cast to boolean means PostgreSQL's: a quoted literal is accepted, and read as true or false, exactly
  when it is one PostgreSQL accepts, as it is when written into a boolean column; any other operand is read
  when the query runs, a null as null, a number as whether it is not zero, a text by the same rule, as long
  as only spaces surround it.
\<close>

theorem boolean_casts_mean_postgres:
  assumes "single_quoted_literal e = None" and "tr e = ok v" and "pg_boolean (sqlite_eval env v) = Some b"
    and "\<forall>s. sqlite_eval env v = SText s \<longrightarrow> trim_spaces s = trim s"
  shows "(\<exists>c. translate_boolean_cast tr e = ok c \<and> sqlite_eval env c = of_truth b)
    \<and> translate_boolean_cast tr (string_literal t) = (case postgres_bool t of
        Some True \<Rightarrow> ok (number_literal ''1'') | Some False \<Rightarrow> ok (number_literal ''0'') | None \<Rightarrow> refuse (ForwardRefusal (invalid_boolean t)))
    \<and> ((\<exists>l. boolean_text_literal (string_literal t) = ok l) \<longleftrightarrow> (\<exists>l. translate_boolean_cast tr (string_literal t) = ok l))"
proof -
  have l: "translate_boolean_cast tr (string_literal t) = (case postgres_bool t of
      Some True \<Rightarrow> ok (number_literal ''1'') | Some False \<Rightarrow> ok (number_literal ''0'') | None \<Rightarrow> refuse (ForwardRefusal (invalid_boolean t)))"
    by (simp add: translate_boolean_cast_def string_literal_def postgres_bool_spellings Let_def)
  show ?thesis unfolding l using assms boolean_case_value [OF assms(3)]
    by (auto simp: translate_boolean_cast_def boolean_text_literal_def string_literal_def split: option.splits bool.splits)
qed

theorem boolean_casts_mean_postgres_witness:
  "\<exists>c. translate_boolean_cast ok (EIdentifier (bare_ident ''flag'')) = ok c \<and> sqlite_eval (\<lambda>_. SText '' Off'') c = SInt 0"
proof -
  have p: "postgres_bool '' Off'' = Some False" "trim_spaces '' Off'' = trim '' Off''" by code_simp+
  then show ?thesis
    using boolean_casts_mean_postgres [of "EIdentifier (bare_ident ''flag'')" ok "EIdentifier (bare_ident ''flag'')" "\<lambda>_. SText '' Off''" "Some False"]
    by (simp add: sqlite_eval.simps(1) of_truth_def)
qed

text \<open>A rendered boolean is PostgreSQL's word for it, and reads back as itself.\<close>

lemma rendered_boolean:
  assumes "boolean_literal_word e = None" "tr e = ok v" "truth (sqlite_eval env v) = Some b"
  shows "\<exists>c. render_boolean_as_text tr e = ok c \<and> pg_boolean (sqlite_eval env c) = Some b"
proof -
  have w: "postgres_bool ''true'' = Some True" "postgres_bool ''false'' = Some False" by code_simp+
  have "sqlite_eval env (not_predicate v) = of_truth (map_option Not b)" using assms(3) by (simp add: not_predicate_def eval_simps)
  then show ?thesis using assms w
    by (cases b) (auto simp: render_boolean_as_text_def eval_simps eval_string_literal)
qed

section \<open>Bits keep their value\<close>

definition bits_value :: "string \<Rightarrow> nat" where
  "bits_value = foldl (\<lambda>acc c. acc * 2 + (if c = CHR ''1'' then 1 else 0)) 0"

definition hex_value :: "string \<Rightarrow> nat" where
  "hex_value = foldl (\<lambda>acc c. acc * 16 + the (hex_digit c)) 0"

lemma foldl_bits: "foldl (\<lambda>acc c. acc * 2 + (if c = CHR ''1'' then 1 else 0)) a bs = a * 2 ^ length bs + bits_value bs"
proof (induction bs arbitrary: a)
  case (Cons c bs)
  show ?case unfolding bits_value_def foldl.simps using Cons [of "a * 2 + (if c = CHR ''1'' then 1 else 0)"] Cons [of "0 * 2 + (if c = CHR ''1'' then 1 else 0)"]
    by (simp add: algebra_simps)
qed (simp add: bits_value_def)

lemma foldl_hex: "foldl (\<lambda>acc c. acc * 16 + the (hex_digit c)) a hs = a * 16 ^ length hs + hex_value hs"
proof (induction hs arbitrary: a)
  case (Cons c hs)
  show ?case unfolding hex_value_def foldl.simps using Cons [of "a * 16 + the (hex_digit c)"] Cons [of "0 * 16 + the (hex_digit c)"]
    by (simp add: algebra_simps)
qed (simp add: hex_value_def)

lemma bits_value_append: "bits_value (as @ bs) = bits_value as * 2 ^ length bs + bits_value bs"
  using foldl_bits [of "bits_value as" bs] by (simp add: bits_value_def)

lemma hex_value_Cons: "hex_value (h # hs) = the (hex_digit h) * 16 ^ length hs + hex_value hs"
  using foldl_hex [of "the (hex_digit h)" hs] by (simp add: hex_value_def)

lemma nibble_bits_value: "v < 16 \<Longrightarrow> bits_value (nibble_bits v) = v"
proof -
  have "\<forall>v \<in> set [0..<16]. bits_value (nibble_bits v) = v" by code_simp
  then show "v < 16 \<Longrightarrow> bits_value (nibble_bits v) = v" by simp
qed

lemma hex_digit_iff: "hex_digit c \<noteq> None \<longleftrightarrow> is_ascii_hexdigit c"
  by (auto simp: hex_digit_def is_ascii_hexdigit_def)

lemma hex_digit_less: "hex_digit c = Some v \<Longrightarrow> v < 16"
  by (auto simp: hex_digit_def is_ascii_digit_def split: if_splits)

lemma expanded_digits:
  "list_all is_ascii_hexdigit hs \<Longrightarrow> \<exists>bits. expand_digits hex hs = ok bits \<and> length bits = 4 * length hs
     \<and> set bits \<subseteq> {CHR ''0'', CHR ''1''} \<and> bits_value bits = hex_value hs"
proof (induction hs)
  case (Cons h hs)
  then obtain bits v where b: "expand_digits hex hs = ok bits" "length bits = 4 * length hs" "set bits \<subseteq> {CHR ''0'', CHR ''1''}"
    "bits_value bits = hex_value hs" and v: "hex_digit h = Some v" using hex_digit_iff by (fastforce simp: not_None_eq)
  have "(2 :: nat) ^ (4 * length hs) = 16 ^ length hs" by (simp add: power_mult)
  then have "bits_value (nibble_bits v @ bits) = hex_value (h # hs)"
    using nibble_bits_value [OF hex_digit_less [OF v]] b v by (simp add: bits_value_append hex_value_Cons)
  moreover have "length (nibble_bits v @ bits) = 4 * length (h # hs)" "set (nibble_bits v @ bits) \<subseteq> {CHR ''0'', CHR ''1''}"
    using b by (auto simp: nibble_bits_def)
  ultimately show ?case using b v by auto
qed (simp add: bits_value_def hex_value_def)

lemma refused_digits: "\<not> list_all is_ascii_hexdigit hs \<Longrightarrow> \<exists>m. expand_digits hex hs = refuse m"
proof (induction hs)
  case (Cons h hs)
  then show ?case using hex_digit_iff [of h] by (auto split: option.splits)
qed simp

text \<open>
  A bit column is given the bits PostgreSQL reads: a hexadecimal literal becomes four binary digits for
  each of its own and keeps its value, is refused when it holds anything else, and a literal already in
  binary digits is kept as it is.
\<close>

lemma bit_literals_keep_their_value:
  "(if list_all is_ascii_hexdigit hex
    then \<exists>bits. convert_bit_literal (EValue (LHexString hex)) = ok (string_literal bits) \<and> length bits = 4 * length hex
      \<and> set bits \<subseteq> {CHR ''0'', CHR ''1''} \<and> bits_value bits = hex_value hex \<and> convert_bit_literal (string_literal bits) = ok (string_literal bits)
    else \<exists>m. convert_bit_literal (EValue (LHexString hex)) = refuse m)"
proof -
  have "binary_digits bits = ok bits" if "set bits \<subseteq> {CHR ''0'', CHR ''1''}" for bits
  proof -
    have "find (\<lambda>c. c \<noteq> CHR ''0'' \<and> c \<noteq> CHR ''1'') bits = None" using that by (auto simp: find_None_iff)
    then show ?thesis by (simp add: binary_digits_def)
  qed
  then show ?thesis using expanded_digits [of hex hex] refused_digits [of hex hex]
    by (auto simp: convert_bit_literal_def expand_hex_to_bits_def string_literal_def)
qed

end
