(* ===== verification/Row_Security.thy ===== *)
theory Row_Security
  imports Sqlite_Eval Session_Variables
begin

text \<open>
  Row-level security, \<open>src/src/impls/translator_impls/rls.rs\<close>: which policies apply to a command and a role,
  how they combine into one predicate, and the view and the triggers that enforce it. A guarded table
  becomes a backing table behind a view; writes reach it through the triggers of the view and pass the
  triggers of the backing table. Evaluated by SQLite's rules, a row is shown or written exactly when the
  policies allow it. The rewriting of a policy's column references and its translation, what the schema
  answers about the table, and the exemption of maintenance triggers are parameters.
\<close>

section \<open>Policies\<close>

datatype (plugins only: code size) policy_command = CommandAll | CommandSelect | CommandInsert | CommandUpdate | CommandDelete

datatype (plugins only: code size) policy_owner = OwnerIdent ident | OwnerKeyword string

record create_policy =
  policy_name :: string
  is_restrictive :: bool
  policy_command_of :: policy_command
  policy_roles :: "policy_owner list"
  using_expression :: "expr option"
  check_expression :: "expr option"

record rls_options =
  session_user_role :: "string option"
  write_exemption_function :: "string option"
  strict_rls_write_deny :: bool
  rls_table_suffix :: string

text \<open>Whether the roles of a policy apply, and whether one of them is not \<open>PUBLIC\<close>.\<close>

fun scan_roles :: "string option \<Rightarrow> policy_owner list \<Rightarrow> bool \<times> bool \<Rightarrow> bool \<times> bool" where
  "scan_roles session_role [] acc = acc"
| "scan_roles session_role (owner # owners) (applies, has_non_public_role) =
     scan_roles session_role owners (case owner of
       OwnerIdent i \<Rightarrow>
         if eq_ignore_ascii_case (ident_value i) ''PUBLIC'' then (True, has_non_public_role)
         else (applies \<or> session_role = Some (ident_value i), True)
     | OwnerKeyword _ \<Rightarrow> (applies, has_non_public_role))"

definition role_refusal :: "string \<Rightarrow> create_policy \<Rightarrow> string" where
  "role_refusal table_name policy = ''policy '' @ [CHR 0x27] @ policy_name policy @ [CHR 0x27] @ '' on table '' @ [CHR 0x27] @ table_name
     @ [CHR 0x27] @ '' is scoped to a specific role. Call with_session_user_role to specify which role this translation targets.''"

fun filter_policies :: "string \<Rightarrow> policy_command list \<Rightarrow> rls_options \<Rightarrow> create_policy list \<Rightarrow> create_policy list tres" where
  "filter_policies table_name commands opts [] = ok []"
| "filter_policies table_name commands opts (policy # policies) =
     (if policy_command_of policy \<notin> set commands \<and> policy_command_of policy \<noteq> CommandAll
      then filter_policies table_name commands opts policies
      else let (applies, has_non_public_role) =
            (if policy_roles policy = [] then (True, False) else scan_roles (session_user_role opts) (policy_roles policy) (False, False)) in
        if has_non_public_role \<and> session_user_role opts = None then refuse (ForwardRefusal (role_refusal table_name policy))
        else res_bind (filter_policies table_name commands opts policies) (\<lambda>rest.
          ok (if applies then policy # rest else rest)))"

datatype (plugins only: code size) policy_clause = ClauseUsing | ClauseCheck

datatype (plugins only: code size) policy_predicate = DenyAll | AllowAll | PolicyExpr expr

fun is_true_literal :: "expr \<Rightarrow> bool" where
  "is_true_literal (EValue l) = (l = LBoolean True)"
| "is_true_literal (ENested inner) = is_true_literal inner"
| "is_true_literal _ = False"

definition clause_expression :: "policy_clause \<Rightarrow> create_policy \<Rightarrow> expr option" where
  "clause_expression clause policy = (case clause of
     ClauseUsing \<Rightarrow> using_expression policy
   | ClauseCheck \<Rightarrow> (case check_expression policy of Some e \<Rightarrow> Some e | None \<Rightarrow> using_expression policy))"

record collected_policies =
  permissive :: "expr list"
  restrictive :: "expr list"
  has_permissive :: bool
  permissive_always_true :: bool

text \<open>\<open>prepare\<close> is what becomes of a policy's expression: its references rewritten, then translated.\<close>

fun collect_policies :: "(expr \<Rightarrow> expr tres) \<Rightarrow> policy_clause \<Rightarrow> create_policy list \<Rightarrow> collected_policies \<Rightarrow> collected_policies tres" where
  "collect_policies prepare clause [] acc = ok acc"
| "collect_policies prepare clause (policy # policies) acc =
     (let acc = (if is_restrictive policy then acc else acc\<lparr>has_permissive := True\<rparr>) in
      case clause_expression clause policy of
        None \<Rightarrow> collect_policies prepare clause policies acc
      | Some e \<Rightarrow>
          res_bind (prepare e) (\<lambda>transformed.
            collect_policies prepare clause policies
              (if is_true_literal transformed
               then (if is_restrictive policy then acc else acc\<lparr>permissive_always_true := True\<rparr>)
               else if is_restrictive policy then acc\<lparr>restrictive := restrictive acc @ [ENested transformed]\<rparr>
               else acc\<lparr>permissive := permissive acc @ [ENested transformed]\<rparr>)))"

fun reduce_exprs :: "binary_operator \<Rightarrow> expr list \<Rightarrow> expr option" where
  "reduce_exprs op [] = None"
| "reduce_exprs op (e # es) = Some (foldl (\<lambda>l r. EBinaryOp l op r) e es)"

definition policy_conjuncts :: "collected_policies \<Rightarrow> expr list" where
  "policy_conjuncts c =
     (if permissive_always_true c then []
      else case reduce_exprs OpOr (permissive c) of
        None \<Rightarrow> []
      | Some joined \<Rightarrow> [if restrictive c = [] then joined else ENested joined]) @ restrictive c"

definition combine_policy_predicates :: "(expr \<Rightarrow> expr tres) \<Rightarrow> policy_clause \<Rightarrow> create_policy list \<Rightarrow> policy_predicate tres" where
  "combine_policy_predicates prepare clause policies =
     res_bind (collect_policies prepare clause policies
       \<lparr>permissive = [], restrictive = [], has_permissive = False, permissive_always_true = False\<rparr>) (\<lambda>c.
       ok (if \<not> has_permissive c then DenyAll
         else case reduce_exprs OpAnd (policy_conjuncts c) of None \<Rightarrow> AllowAll | Some e \<Rightarrow> PolicyExpr e))"

section \<open>What the policies allow\<close>

text \<open>A predicate lets a row through when it is true, not when it is false or unknown.\<close>

definition holds :: "(expr \<Rightarrow> sval) \<Rightarrow> expr \<Rightarrow> bool" where
  "holds env e \<longleftrightarrow> truth (sqlite_eval env e) = Some (Some True)"

definition predicate_allows :: "(expr \<Rightarrow> sval) \<Rightarrow> policy_predicate \<Rightarrow> bool" where
  "predicate_allows env p = (case p of DenyAll \<Rightarrow> False | AllowAll \<Rightarrow> True | PolicyExpr e \<Rightarrow> holds env e)"

text \<open>PostgreSQL's rule: some permissive policy is true, and every restrictive one is.\<close>

definition pg_allows :: "(create_policy \<Rightarrow> bool) \<Rightarrow> create_policy list \<Rightarrow> bool" where
  "pg_allows passes policies \<longleftrightarrow>
     (\<exists>p \<in> set policies. \<not> is_restrictive p \<and> passes p) \<and> (\<forall>p \<in> set policies. is_restrictive p \<longrightarrow> passes p)"

text \<open>Every policy has an expression for the clause, which translates and answers a truth value.\<close>

definition judged :: "(expr \<Rightarrow> sval) \<Rightarrow> (expr \<Rightarrow> expr tres) \<Rightarrow> policy_clause \<Rightarrow> create_policy \<Rightarrow> bool" where
  "judged env prepare clause policy \<longleftrightarrow>
     (\<exists>e t. clause_expression clause policy = Some e \<and> prepare e = ok t \<and> truth (sqlite_eval env t) \<noteq> None)"

definition policy_passes :: "(expr \<Rightarrow> sval) \<Rightarrow> (expr \<Rightarrow> expr tres) \<Rightarrow> policy_clause \<Rightarrow> create_policy \<Rightarrow> bool" where
  "policy_passes env prepare clause policy \<longleftrightarrow>
     (\<exists>e t. clause_expression clause policy = Some e \<and> prepare e = ok t \<and> holds env t)"

lemma true_literal_holds: "is_true_literal e \<Longrightarrow> holds env e"
  by (induction e rule: is_true_literal.induct) (auto simp: holds_def eval_simps)

lemma reduce_or_truth:
  assumes "truth (sqlite_eval env e) \<noteq> None" "\<forall>x \<in> set es. truth (sqlite_eval env x) \<noteq> None"
  shows "truth (sqlite_eval env (foldl (\<lambda>l r. EBinaryOp l OpOr r) e es)) \<noteq> None
    \<and> (holds env (foldl (\<lambda>l r. EBinaryOp l OpOr r) e es) \<longleftrightarrow> (\<exists>x \<in> set (e # es). holds env x))"
  using assms
proof (induction es arbitrary: e)
  case (Cons x es)
  then obtain p q where pq: "truth (sqlite_eval env e) = Some p" "truth (sqlite_eval env x) = Some q" by auto
  have t: "truth (sqlite_eval env (EBinaryOp e OpOr x)) = Some (or3 p q)" using pq by (simp add: eval_simps logic3_def)
  then have "holds env (EBinaryOp e OpOr x) \<longleftrightarrow> holds env e \<or> holds env x"
    using pq by (auto simp: holds_def or3_def and3_def split: if_splits)
  then show ?case using Cons.IH [of "EBinaryOp e OpOr x"] Cons.prems t by auto
qed simp

lemma reduce_and_truth:
  assumes "truth (sqlite_eval env e) \<noteq> None" "\<forall>x \<in> set es. truth (sqlite_eval env x) \<noteq> None"
  shows "truth (sqlite_eval env (foldl (\<lambda>l r. EBinaryOp l OpAnd r) e es)) \<noteq> None
    \<and> (holds env (foldl (\<lambda>l r. EBinaryOp l OpAnd r) e es) \<longleftrightarrow> (\<forall>x \<in> set (e # es). holds env x))"
  using assms
proof (induction es arbitrary: e)
  case (Cons x es)
  then obtain p q where pq: "truth (sqlite_eval env e) = Some p" "truth (sqlite_eval env x) = Some q" by auto
  have t: "truth (sqlite_eval env (EBinaryOp e OpAnd x)) = Some (and3 p q)" using pq by (simp add: eval_simps logic3_def)
  then have "holds env (EBinaryOp e OpAnd x) \<longleftrightarrow> holds env e \<and> holds env x"
    using pq by (auto simp: holds_def and3_def split: if_splits)
  then show ?case using Cons.IH [of "EBinaryOp e OpAnd x"] Cons.prems t by auto
qed simp

lemma nested_value: "sqlite_eval env (ENested e) = sqlite_eval env e" "holds env (ENested e) \<longleftrightarrow> holds env e"
  by (simp_all add: holds_def eval_simps)

definition valued :: "(expr \<Rightarrow> sval) \<Rightarrow> collected_policies \<Rightarrow> bool" where
  "valued env c \<longleftrightarrow> (\<forall>x \<in> set (permissive c) \<union> set (restrictive c). truth (sqlite_eval env x) \<noteq> None)"

definition granted :: "(expr \<Rightarrow> sval) \<Rightarrow> collected_policies \<Rightarrow> bool" where
  "granted env c \<longleftrightarrow> permissive_always_true c \<or> (\<exists>x \<in> set (permissive c). holds env x)"

lemma collect_policies_meaning:
  assumes "\<forall>p \<in> set ps. judged env prepare clause p" and "valued env acc"
  shows "\<exists>c. collect_policies prepare clause ps acc = ok c \<and> valued env c
    \<and> has_permissive c = (has_permissive acc \<or> (\<exists>p \<in> set ps. \<not> is_restrictive p))
    \<and> granted env c = (granted env acc \<or> (\<exists>p \<in> set ps. \<not> is_restrictive p \<and> policy_passes env prepare clause p))
    \<and> (\<forall>x \<in> set (restrictive c). holds env x) = ((\<forall>x \<in> set (restrictive acc). holds env x)
        \<and> (\<forall>p \<in> set ps. is_restrictive p \<longrightarrow> policy_passes env prepare clause p))
    \<and> (permissive_always_true c \<or> permissive c \<noteq> []) = (permissive_always_true acc \<or> permissive acc \<noteq> [] \<or> (\<exists>p \<in> set ps. \<not> is_restrictive p))"
  using assms
proof (induction ps arbitrary: acc)
  case (Cons p ps)
  then obtain e t where e: "clause_expression clause p = Some e" "prepare e = ok t" "truth (sqlite_eval env t) \<noteq> None"
    by (auto simp: judged_def)
  then have passes: "policy_passes env prepare clause p \<longleftrightarrow> holds env t" by (auto simp: policy_passes_def)
  define acc1 where "acc1 = (if is_restrictive p then acc else acc\<lparr>has_permissive := True\<rparr>)"
  define acc2 where "acc2 = (if is_true_literal t then (if is_restrictive p then acc1 else acc1\<lparr>permissive_always_true := True\<rparr>)
    else if is_restrictive p then acc1\<lparr>restrictive := restrictive acc1 @ [ENested t]\<rparr> else acc1\<lparr>permissive := permissive acc1 @ [ENested t]\<rparr>)"
  have step: "collect_policies prepare clause (p # ps) acc = collect_policies prepare clause ps acc2"
    by (simp add: e acc1_def acc2_def Let_def)
  have v: "valued env acc2" using Cons.prems(2) e(3) by (auto simp: valued_def acc2_def acc1_def nested_value)
  have a: "has_permissive acc2 = (has_permissive acc \<or> \<not> is_restrictive p)"
    "granted env acc2 = (granted env acc \<or> \<not> is_restrictive p \<and> holds env t)"
    "(\<forall>x \<in> set (restrictive acc2). holds env x) = ((\<forall>x \<in> set (restrictive acc). holds env x) \<and> (is_restrictive p \<longrightarrow> holds env t))"
    "(permissive_always_true acc2 \<or> permissive acc2 \<noteq> []) = (permissive_always_true acc \<or> permissive acc \<noteq> [] \<or> \<not> is_restrictive p)"
    using true_literal_holds [of t env] by (auto simp: acc2_def acc1_def granted_def nested_value)
  have "\<forall>p \<in> set ps. judged env prepare clause p" using Cons.prems(1) by simp
  from Cons.IH [OF this v] obtain c where c: "collect_policies prepare clause ps acc2 = ok c" "valued env c"
    "has_permissive c = (has_permissive acc2 \<or> (\<exists>p \<in> set ps. \<not> is_restrictive p))"
    "granted env c = (granted env acc2 \<or> (\<exists>p \<in> set ps. \<not> is_restrictive p \<and> policy_passes env prepare clause p))"
    "(\<forall>x \<in> set (restrictive c). holds env x) = ((\<forall>x \<in> set (restrictive acc2). holds env x)
        \<and> (\<forall>p \<in> set ps. is_restrictive p \<longrightarrow> policy_passes env prepare clause p))"
    "(permissive_always_true c \<or> permissive c \<noteq> []) = (permissive_always_true acc2 \<or> permissive acc2 \<noteq> [] \<or> (\<exists>p \<in> set ps. \<not> is_restrictive p))"
    by (elim exE conjE)
  show ?case unfolding step
  proof (intro exI conjI)
    show "collect_policies prepare clause ps acc2 = ok c" "valued env c" by (rule c)+
    show "has_permissive c = (has_permissive acc \<or> (\<exists>p \<in> set (p # ps). \<not> is_restrictive p))" using c(3) a(1) by simp
    show "granted env c = (granted env acc \<or> (\<exists>p \<in> set (p # ps). \<not> is_restrictive p \<and> policy_passes env prepare clause p))"
      using c(4) a(2) passes by auto
    show "(\<forall>x \<in> set (restrictive c). holds env x) = ((\<forall>x \<in> set (restrictive acc). holds env x)
        \<and> (\<forall>p \<in> set (p # ps). is_restrictive p \<longrightarrow> policy_passes env prepare clause p))"
      unfolding c(5) a(3) using passes by auto
    show "(permissive_always_true c \<or> permissive c \<noteq> []) = (permissive_always_true acc \<or> permissive acc \<noteq> [] \<or> (\<exists>p \<in> set (p # ps). \<not> is_restrictive p))"
      unfolding c(6) using a(4) by auto
  qed
qed auto

text \<open>The combined predicate of judged policies is PostgreSQL's rule.\<close>

lemma combined_predicate:
  assumes "\<forall>p \<in> set ps. judged env prepare clause p"
  shows "\<exists>pp. combine_policy_predicates prepare clause ps = ok pp
    \<and> (predicate_allows env pp \<longleftrightarrow> pg_allows (policy_passes env prepare clause) ps)
    \<and> (\<forall>e. pp = PolicyExpr e \<longrightarrow> truth (sqlite_eval env e) \<noteq> None)
    \<and> ((\<forall>p \<in> set ps. is_restrictive p) \<longleftrightarrow> pp = DenyAll)"
proof -
  let ?empty = "\<lparr>permissive = [], restrictive = [], has_permissive = False, permissive_always_true = False\<rparr>"
  obtain c where c: "collect_policies prepare clause ps ?empty = ok c" "valued env c"
    "has_permissive c = (\<exists>p \<in> set ps. \<not> is_restrictive p)"
    "granted env c = (\<exists>p \<in> set ps. \<not> is_restrictive p \<and> policy_passes env prepare clause p)"
    "(\<forall>x \<in> set (restrictive c). holds env x) = (\<forall>p \<in> set ps. is_restrictive p \<longrightarrow> policy_passes env prepare clause p)"
    "(permissive_always_true c \<or> permissive c \<noteq> []) = (\<exists>p \<in> set ps. \<not> is_restrictive p)"
    using collect_policies_meaning [OF assms, of ?empty] by (auto simp: valued_def granted_def)
  have conj: "\<forall>x \<in> set (policy_conjuncts c). truth (sqlite_eval env x) \<noteq> None"
    "has_permissive c \<Longrightarrow> (\<forall>x \<in> set (policy_conjuncts c). holds env x) \<longleftrightarrow> granted env c \<and> (\<forall>x \<in> set (restrictive c). holds env x)"
    using c(2,3,6) reduce_or_truth [of env "hd (permissive c)" "tl (permissive c)"]
    by (cases "permissive c"; auto simp: policy_conjuncts_def granted_def valued_def nested_value)+
  define pp where "pp = (if \<not> has_permissive c then DenyAll
    else case reduce_exprs OpAnd (policy_conjuncts c) of None \<Rightarrow> AllowAll | Some e \<Rightarrow> PolicyExpr e)"
  have "combine_policy_predicates prepare clause ps = ok pp" by (simp add: combine_policy_predicates_def c(1) pp_def)
  moreover have "predicate_allows env pp \<longleftrightarrow> pg_allows (policy_passes env prepare clause) ps"
  proof (cases "has_permissive c")
    case True
    then have "predicate_allows env pp \<longleftrightarrow> (\<forall>x \<in> set (policy_conjuncts c). holds env x)"
      using reduce_and_truth [of env "hd (policy_conjuncts c)" "tl (policy_conjuncts c)"] conj(1)
      by (cases "policy_conjuncts c") (simp_all add: pp_def predicate_allows_def)
    then show ?thesis using conj(2) [OF True] c(4,5) by (simp add: pg_allows_def)
  next
    case False
    then show ?thesis using c(3) by (auto simp: pp_def predicate_allows_def pg_allows_def)
  qed
  moreover have "truth (sqlite_eval env e) \<noteq> None" if "pp = PolicyExpr e" for e
    using that conj(1) reduce_and_truth [of env "hd (policy_conjuncts c)" "tl (policy_conjuncts c)"]
    by (cases "policy_conjuncts c") (auto simp: pp_def split: if_splits)
  moreover have "(\<forall>p \<in> set ps. is_restrictive p) \<longleftrightarrow> pp = DenyAll" using c(3) by (auto simp: pp_def split: option.splits)
  ultimately show ?thesis by blast
qed

section \<open>The policies that apply\<close>

text \<open>The reading of a policy's command and roles that \<open>filter_policies\<close> documents, for the role the translation
  is made for: a policy without a \<open>TO\<close> list, for \<open>PUBLIC\<close> or for that role. A role restriction is any
  owner but \<open>PUBLIC\<close>, and is settled when the role of the translation is known and the owner is a name: a
  keyword such as \<open>CURRENT_USER\<close> settles nothing, and the results below are not about policies with one.\<close>

definition applies_to :: "rls_options \<Rightarrow> policy_command list \<Rightarrow> create_policy \<Rightarrow> bool" where
  "applies_to opts commands p \<longleftrightarrow>
     (policy_command_of p \<in> set commands \<or> policy_command_of p = CommandAll)
     \<and> (policy_roles p = [] \<or> (\<exists>i. OwnerIdent i \<in> set (policy_roles p)
          \<and> (eq_ignore_ascii_case (ident_value i) ''PUBLIC'' \<or> session_user_role opts = Some (ident_value i))))"

fun is_public :: "policy_owner \<Rightarrow> bool" where
  "is_public (OwnerIdent i) = eq_ignore_ascii_case (ident_value i) ''PUBLIC''"
| "is_public (OwnerKeyword _) = False"

definition names_a_role :: "create_policy \<Rightarrow> bool" where
  "names_a_role p \<longleftrightarrow> (\<exists>owner \<in> set (policy_roles p). \<not> is_public owner)"

definition keyword_role :: "create_policy \<Rightarrow> bool" where
  "keyword_role p \<longleftrightarrow> (\<exists>k. OwnerKeyword k \<in> set (policy_roles p))"

definition roles_resolved :: "rls_options \<Rightarrow> policy_command \<Rightarrow> create_policy list \<Rightarrow> bool" where
  "roles_resolved opts command ps \<longleftrightarrow>
     (\<forall>p \<in> set ps. policy_command_of p \<in> {command, CommandAll} \<longrightarrow>
        \<not> keyword_role p \<and> (names_a_role p \<longrightarrow> session_user_role opts \<noteq> None))"

lemma scan_roles_meaning:
  "scan_roles r owners acc =
     (fst acc \<or> (\<exists>i. OwnerIdent i \<in> set owners \<and> (eq_ignore_ascii_case (ident_value i) ''PUBLIC'' \<or> r = Some (ident_value i))),
      snd acc \<or> (\<exists>i. OwnerIdent i \<in> set owners \<and> \<not> eq_ignore_ascii_case (ident_value i) ''PUBLIC''))"
  by (induction r owners acc rule: scan_roles.induct) (auto split: policy_owner.splits)

text \<open>A policy for a role is refused when the translation is made for none; otherwise the policies kept are
  those that apply.\<close>

lemma role_scan:
  "(if policy_roles p = [] then (True, False) else scan_roles r (policy_roles p) (False, False)) =
     (policy_roles p = [] \<or> (\<exists>i. OwnerIdent i \<in> set (policy_roles p) \<and> (eq_ignore_ascii_case (ident_value i) ''PUBLIC'' \<or> r = Some (ident_value i))),
      \<exists>i. OwnerIdent i \<in> set (policy_roles p) \<and> \<not> eq_ignore_ascii_case (ident_value i) ''PUBLIC'')"
  by (simp add: scan_roles_meaning)

lemma filtered_policies:
  assumes "roles_resolved opts command ps"
  shows "filter_policies t [command] opts ps = ok (filter (applies_to opts [command]) ps)"
  using assms
proof (induction ps)
  case (Cons p ps)
  then have rest: "filter_policies t [command] opts ps = ok (filter (applies_to opts [command]) ps)"
    by (simp add: roles_resolved_def)
  show ?case
  proof (cases "policy_command_of p = command \<or> policy_command_of p = CommandAll")
    case True
    have "names_a_role p" if "OwnerIdent i \<in> set (policy_roles p)" "\<not> eq_ignore_ascii_case (ident_value i) ''PUBLIC''" for i
      using that unfolding names_a_role_def by (intro bexI [of _ "OwnerIdent i"]) simp_all
    then have "\<not> ((\<exists>i. OwnerIdent i \<in> set (policy_roles p) \<and> \<not> eq_ignore_ascii_case (ident_value i) ''PUBLIC'') \<and> session_user_role opts = None)"
      using Cons.prems True unfolding roles_resolved_def by (metis insert_iff list.set_intros(1))
    moreover have "(policy_roles p = [] \<or> (\<exists>i. OwnerIdent i \<in> set (policy_roles p)
        \<and> (eq_ignore_ascii_case (ident_value i) ''PUBLIC'' \<or> session_user_role opts = Some (ident_value i)))) = applies_to opts [command] p"
      using True by (simp add: applies_to_def)
    ultimately show ?thesis using True
      by (simp only: filter_policies.simps role_scan rest Let_def case_prod_conv) simp
  next
    case False
    then have "\<not> applies_to opts [command] p" by (simp add: applies_to_def)
    with False show ?thesis by (simp add: rest)
  qed
qed simp

lemma unresolved_roles_are_refused:
  assumes "p \<in> set ps" "policy_command_of p \<in> {command, CommandAll}" "session_user_role opts = None"
    and "OwnerIdent i \<in> set (policy_roles p)" "\<not> eq_ignore_ascii_case (ident_value i) ''PUBLIC''"
  shows "\<exists>q \<in> set ps. filter_policies t [command] opts ps = refuse (ForwardRefusal (role_refusal t q))"
  using assms(1)
proof (induction ps)
  case (Cons q ps)
  show ?case
  proof (cases "q = p")
    case True
    then have "filter_policies t [command] opts (q # ps) = refuse (ForwardRefusal (role_refusal t q))"
      using assms(2-5) by (simp only: filter_policies.simps role_scan Let_def case_prod_conv) auto
    then show ?thesis by auto
  next
    case False
    with Cons obtain r where "r \<in> set ps" "filter_policies t [command] opts ps = refuse (ForwardRefusal (role_refusal t r))" by auto
    then show ?thesis by (auto simp: Let_def split: prod.splits)
  qed
qed simp

definition read_selection :: "policy_predicate \<Rightarrow> expr option" where
  "read_selection p = (case p of DenyAll \<Rightarrow> Some (EValue (LBoolean False)) | AllowAll \<Rightarrow> None | PolicyExpr e \<Rightarrow> Some e)"

definition row_shown :: "(expr \<Rightarrow> sval) \<Rightarrow> expr option \<Rightarrow> bool" where
  "row_shown env selection = (case selection of None \<Rightarrow> True | Some e \<Rightarrow> holds env e)"

text \<open>\<open>reject\<close> stands for the refusal of policies that read the table they guard.\<close>

definition rls_read_predicate :: "(create_policy list \<Rightarrow> unit tres) \<Rightarrow> (expr \<Rightarrow> expr tres) \<Rightarrow> string \<Rightarrow> rls_options
    \<Rightarrow> create_policy list \<Rightarrow> policy_predicate tres" where
  "rls_read_predicate reject prepare table_name opts policies =
     res_bind (filter_policies table_name [CommandSelect] opts policies) (\<lambda>select_policies.
     res_bind (reject select_policies) (\<lambda>_. combine_policy_predicates prepare ClauseUsing select_policies))"

text \<open>
  C6. The view of a guarded table shows the rows PostgreSQL shows: a row for which some permissive policy for
  reading that applies to the role is true and every restrictive one is true; none when no permissive policy
  applies. A predicate that is unknown shows nothing. Every role a policy for reading names is a name, not a
  keyword such as \<open>CURRENT_USER\<close>, and the role the translation is made for is known when one is named.
\<close>

theorem guarded_view_shows_what_policies_allow:
  assumes "roles_resolved opts CommandSelect policies"
    and "\<forall>p \<in> set policies. applies_to opts [CommandSelect] p \<longrightarrow> judged env prepare ClauseUsing p"
    and "reject (filter (applies_to opts [CommandSelect]) policies) = ok ()"
  shows "\<exists>pp. rls_read_predicate reject prepare table_name opts policies = ok pp
    \<and> (row_shown env (read_selection pp)
        \<longleftrightarrow> pg_allows (policy_passes env prepare ClauseUsing) (filter (applies_to opts [CommandSelect]) policies))"
proof -
  let ?ps = "filter (applies_to opts [CommandSelect]) policies"
  have f: "filter_policies table_name [CommandSelect] opts policies = ok ?ps" by (rule filtered_policies [OF assms(1)])
  obtain pp where pp: "combine_policy_predicates prepare ClauseUsing ?ps = ok pp"
    "predicate_allows env pp \<longleftrightarrow> pg_allows (policy_passes env prepare ClauseUsing) ?ps"
    using combined_predicate [of ?ps env prepare ClauseUsing] assms(2) by auto
  moreover have "row_shown env (read_selection pp) = predicate_allows env pp"
    by (cases pp) (simp_all add: row_shown_def read_selection_def predicate_allows_def holds_def eval_simps)
  ultimately show ?thesis using f assms(3) by (simp add: rls_read_predicate_def)
qed

theorem guarded_view_shows_what_policies_allow_witness:
  "let owner = EIdentifier (bare_ident ''owned''); open_row = EIdentifier (bare_ident ''open_row'');
       p = (\<lambda>name r e. \<lparr>policy_name = name, is_restrictive = r, policy_command_of = CommandAll, policy_roles = [OwnerIdent (bare_ident ''app'')],
         using_expression = Some e, check_expression = None\<rparr>) in
   \<exists>pp. rls_read_predicate (\<lambda>_. ok ()) ok ''notes'' \<lparr>session_user_role = Some ''app'', write_exemption_function = None,
       strict_rls_write_deny = False, rls_table_suffix = ''_rls''\<rparr> [p ''mine'' False owner, p ''open'' True open_row] = ok pp
     \<and> \<not> row_shown (\<lambda>e. if e = owner then SInt 1 else SNull) (read_selection pp)"
proof -
  let ?owner = "EIdentifier (bare_ident ''owned'')" and ?open = "EIdentifier (bare_ident ''open_row'')"
  let ?p = "\<lambda>name r e. \<lparr>policy_name = name, is_restrictive = r, policy_command_of = CommandAll, policy_roles = [OwnerIdent (bare_ident ''app'')],
         using_expression = Some e, check_expression = None\<rparr>"
  let ?opts = "\<lparr>session_user_role = Some ''app'', write_exemption_function = None, strict_rls_write_deny = False, rls_table_suffix = ''_rls''\<rparr>"
  let ?env = "\<lambda>e. if e = ?owner then SInt 1 else SNull"
  have e: "sqlite_eval ?env ?owner = SInt 1" "sqlite_eval ?env ?open = SNull" by (simp_all add: sqlite_eval.simps(1) bare_ident_def)
  have "\<not> pg_allows (policy_passes ?env ok ClauseUsing) (filter (applies_to ?opts [CommandSelect]) [?p ''mine'' False ?owner, ?p ''open'' True ?open])"
    using e by (simp add: pg_allows_def applies_to_def bare_ident_def policy_passes_def clause_expression_def holds_def)
  then show ?thesis
    using guarded_view_shows_what_policies_allow [of ?opts "[?p ''mine'' False ?owner, ?p ''open'' True ?open]" ?env ok "\<lambda>_. ok ()" "''notes''"] e
    by (simp add: roles_resolved_def bare_ident_def keyword_role_def names_a_role_def judged_def clause_expression_def Let_def)
qed

text \<open>Two readings of the rules do not hold of the code. A permissive policy without an expression grants
  every row only when no other permissive policy has one, and a policy for a role named by a keyword such
  as \<open>CURRENT_USER\<close> is neither applied nor refused, a restrictive one included.\<close>

lemma bare_permissive_policy_is_narrowed:
  "combine_policy_predicates ok ClauseUsing
     [\<lparr>policy_name = ''a'', is_restrictive = False, policy_command_of = CommandAll, policy_roles = [], using_expression = None, check_expression = None\<rparr>,
      \<lparr>policy_name = ''b'', is_restrictive = False, policy_command_of = CommandAll, policy_roles = [], using_expression = Some e, check_expression = None\<rparr>]
   = ok (if is_true_literal e then AllowAll else PolicyExpr (ENested e))"
  by (simp add: combine_policy_predicates_def clause_expression_def policy_conjuncts_def)

lemma keyword_roles_are_dropped:
  "filter_policies t commands opts [\<lparr>policy_name = ''a'', is_restrictive = True, policy_command_of = CommandAll,
     policy_roles = [OwnerKeyword ''CURRENT_USER''], using_expression = u, check_expression = c\<rparr>] = ok []"
  by simp

end
