(* ===== verification/Row_Triggers.thy ===== *)
theory Row_Triggers
  imports Row_Security
begin

text \<open>
  The triggers of \<open>src/src/impls/translator_impls/rls.rs\<close> that enforce the policies on writes: those of the view,
  which check a row and forward it to the backing table, and those of the backing table, which stop a write
  that does not come through the view. A trigger body is a list of statements run in order: a raise with the
  condition it is selected under, or the write it forwards.
\<close>

section \<open>Columns and substitutions\<close>

record trigger_column =
  column_name :: string
  column_default :: "expr option"
  guard_default :: "expr option"
  generated :: "expr option"

definition prefixed_column_expr :: "string \<Rightarrow> string \<Rightarrow> expr" where
  "prefixed_column_expr prefix column = ECompoundIdentifier
     [bare_ident prefix, if starts_with [CHR 0x22] (quote_identifier column) then ident_with_quote (CHR 0x22) column else bare_ident column]"

definition coalesce :: "expr \<Rightarrow> expr \<Rightarrow> expr" where
  "coalesce v fallback = simple_function_expr ''COALESCE'' [v, fallback] None"

definition forwarded_value :: "trigger_column \<Rightarrow> expr" where
  "forwarded_value c = (case column_default c of
     Some d \<Rightarrow> coalesce (prefixed_column_expr ''NEW'' (column_name c)) d
   | None \<Rightarrow> prefixed_column_expr ''NEW'' (column_name c))"

definition guard_coalesce :: "trigger_column \<Rightarrow> expr" where
  "guard_coalesce c = (case guard_default c of
     Some d \<Rightarrow> coalesce (prefixed_column_expr ''NEW'' (column_name c)) d
   | None \<Rightarrow> prefixed_column_expr ''NEW'' (column_name c))"

definition is_generated :: "trigger_column \<Rightarrow> bool" where
  "is_generated c \<longleftrightarrow> generated c \<noteq> None"

type_synonym guard_substitution = "string \<times> expr"

datatype (plugins only: code size) guard_kind = GuardInsert | GuardUpdate

text \<open>The parameters: \<open>transform\<close> rewrites the references of an expression for a prefix, \<open>fold_guard\<close> replaces
  references to \<open>NEW\<close>, \<open>translate\<close> translates, \<open>replayable\<close> and \<open>replayable_policy\<close> tell what may be read
  twice, \<open>reads_column\<close> whether an expression names a column, and \<open>maintenance\<close> is the condition that lets
  the updates of maintenance triggers through.\<close>

record rls_parameters =
  transform :: "string option \<Rightarrow> expr \<Rightarrow> expr"
  fold_guard :: "guard_substitution list \<Rightarrow> expr \<Rightarrow> expr"
  translate :: "expr \<Rightarrow> expr tres"
  show_rls :: "expr \<Rightarrow> string"
  replayable :: "expr \<Rightarrow> bool"
  replayable_policy :: "expr \<Rightarrow> bool"
  reads_column :: "expr \<Rightarrow> string \<Rightarrow> bool"
  maintenance :: "expr option"

record rls_table =
  table_name :: string
  table_policies :: "create_policy list"
  table_columns :: "trigger_column list"
  primary_key :: "string list"

definition guard_substitutions :: "rls_parameters \<Rightarrow> trigger_column list \<Rightarrow> guard_kind \<Rightarrow> guard_substitution list" where
  "guard_substitutions par columns kind =
     (let defaults = (if kind = GuardInsert
          then map (\<lambda>c. (column_name c, guard_coalesce c)) (filter (\<lambda>c. guard_default c \<noteq> None) columns) else []) in
      defaults @ List.map_filter (\<lambda>c. map_option (\<lambda>e.
        (column_name c, ENested (fold_guard par defaults (transform par (Some ''NEW'') e)))) (generated c)) columns)"

definition prepare_policy :: "rls_parameters \<Rightarrow> string option \<Rightarrow> guard_substitution list \<Rightarrow> expr \<Rightarrow> expr tres" where
  "prepare_policy par prefix substitutions e = translate par (fold_guard par substitutions (transform par prefix e))"

section \<open>Guards\<close>

definition any_insert_policy_reads_column :: "rls_parameters \<Rightarrow> create_policy list \<Rightarrow> string \<Rightarrow> bool" where
  "any_insert_policy_reads_column par policies column =
     list_ex (\<lambda>p. case clause_expression ClauseCheck p of None \<Rightarrow> False | Some e \<Rightarrow> reads_column par e column) policies"

definition quoted :: "string \<Rightarrow> string" where
  "quoted s = [CHR 0x22] @ s @ [CHR 0x22]"

definition default_refusal :: "rls_parameters \<Rightarrow> rls_table \<Rightarrow> create_policy list \<Rightarrow> trigger_column list \<Rightarrow> string option" where
  "default_refusal par t policies columns =
     Option.bind (find (\<lambda>c. case guard_default c of None \<Rightarrow> False
         | Some d \<Rightarrow> \<not> replayable par d \<and> any_insert_policy_reads_column par policies (column_name c)) columns) (\<lambda>c.
       map_option (\<lambda>d. reject_duplicated_operand (show_rls par) (''column '' @ quoted (column_name c)
         @ '' DEFAULT in the RLS insert path of table '' @ quoted (table_name t)) d) (guard_default c))"

definition policy_refusal :: "rls_parameters \<Rightarrow> rls_table \<Rightarrow> guard_kind \<Rightarrow> create_policy \<Rightarrow> string option" where
  "policy_refusal par t kind p =
     (case (if kind = GuardUpdate then using_expression p else None) of
        Some using_e \<Rightarrow>
          if \<not> replayable_policy par using_e
          then Some (reject_duplicated_operand (show_rls par) (''policy '' @ quoted (policy_name p) @ '' USING predicate on table ''
            @ quoted (table_name t)) using_e)
          else None
      | None \<Rightarrow> None)"

definition check_refusal :: "rls_parameters \<Rightarrow> rls_table \<Rightarrow> create_policy \<Rightarrow> string option" where
  "check_refusal par t p = (case clause_expression ClauseCheck p of
     Some check \<Rightarrow>
       if \<not> replayable_policy par check
       then Some (reject_duplicated_operand (show_rls par) (''policy '' @ quoted (policy_name p) @ '' ''
         @ (if check_expression p \<noteq> None then ''WITH CHECK'' else ''USING (as WITH CHECK)'') @ '' predicate on table ''
         @ quoted (table_name t)) check)
       else None
   | None \<Rightarrow> None)"

fun policies_refusal :: "rls_parameters \<Rightarrow> rls_table \<Rightarrow> guard_kind \<Rightarrow> create_policy list \<Rightarrow> string option" where
  "policies_refusal par t kind [] = None"
| "policies_refusal par t kind (p # ps) =
     (case policy_refusal par t kind p of
        Some m \<Rightarrow> Some m
      | None \<Rightarrow> (case check_refusal par t p of Some m \<Rightarrow> Some m | None \<Rightarrow> policies_refusal par t kind ps))"

definition guard_refusal :: "rls_parameters \<Rightarrow> rls_table \<Rightarrow> guard_kind \<Rightarrow> create_policy list \<Rightarrow> string option" where
  "guard_refusal par t kind policies =
     (case (if kind = GuardInsert then default_refusal par t policies (table_columns t) else None) of
        Some m \<Rightarrow> Some m | None \<Rightarrow> policies_refusal par t kind policies)"

definition build_write_guard :: "rls_parameters \<Rightarrow> rls_table \<Rightarrow> guard_kind \<Rightarrow> create_policy list
    \<Rightarrow> (trigger_column list \<times> policy_predicate option \<times> policy_predicate) tres" where
  "build_write_guard par t kind policies =
     (let subs = guard_substitutions par (table_columns t) kind in
      case guard_refusal par t kind policies of
        Some m \<Rightarrow> refuse (ForwardRefusal m)
      | None \<Rightarrow>
          res_bind (if kind = GuardUpdate
              then res_bind (combine_policy_predicates (prepare_policy par (Some ''OLD'') []) ClauseUsing policies) (\<lambda>u. ok (Some u))
              else ok None) (\<lambda>using_p.
          res_bind (combine_policy_predicates (prepare_policy par (Some ''NEW'') subs) ClauseCheck policies) (\<lambda>check.
            ok (table_columns t, using_p, check))))"

section \<open>Conditions\<close>

definition write_exemption_expr :: "rls_options \<Rightarrow> expr option" where
  "write_exemption_expr opts = map_option (\<lambda>name. EFunction (Func [Identifier (ident_with_quote (CHR 0x22) name)] False ArgsNone
     (ArgsList None [] []) None None None [])) (write_exemption_function opts)"

definition write_guard_condition_expr :: "expr option \<Rightarrow> rls_options \<Rightarrow> expr option" where
  "write_guard_condition_expr violation opts =
     (case (map_option (\<lambda>call. EIsNotTrue (ENested call)) (write_exemption_expr opts), violation) of
        (None, None) \<Rightarrow> None
      | (Some enforcement, None) \<Rightarrow> Some enforcement
      | (None, Some v) \<Rightarrow> Some v
      | (Some enforcement, Some v) \<Rightarrow> Some (EBinaryOp enforcement OpAnd (ENested v)))"

definition policy_or_exemption_expr :: "expr \<Rightarrow> rls_options \<Rightarrow> expr" where
  "policy_or_exemption_expr predicate opts = (case write_exemption_expr opts of
     None \<Rightarrow> predicate
   | Some call \<Rightarrow> EBinaryOp (EIsTrue (ENested call)) OpOr (ENested predicate))"

definition policy_violation :: "expr \<Rightarrow> expr" where
  "policy_violation predicate = EIsNotTrue (ENested predicate)"

definition generated_row_filter :: "expr \<Rightarrow> expr option \<Rightarrow> expr" where
  "generated_row_filter identity authorization = (case authorization of
     None \<Rightarrow> identity
   | Some a \<Rightarrow> EBinaryOp (ENested identity) OpAnd (ENested a))"

definition build_row_identity_clause :: "string list \<Rightarrow> string list \<Rightarrow> expr option" where
  "build_row_identity_clause columns pk_columns =
     (let use_null_safe = (pk_columns = []);
        compare = (\<lambda>column. let current = EIdentifier (quoted_ident column); old_value = prefixed_column_expr ''OLD'' column in
          if use_null_safe then EIsNotDistinctFrom current old_value else EBinaryOp current OpEq old_value)
      in reduce_exprs OpAnd (map compare (if use_null_safe then columns else pk_columns)))"

section \<open>Triggers\<close>

datatype (plugins only: code size) guard_statement =
    RaiseStatement string "string option" "expr option"
  | SelectNull
  | ForwardInsert string "string list" "expr list"
  | ForwardUpdate string "(string \<times> expr) list" expr
  | ForwardDelete string expr

datatype (plugins only: code size) trigger_period = InsteadOf | BeforeWrite

record rls_trigger =
  trigger_name :: string
  trigger_table :: string
  trigger_period_of :: trigger_period
  trigger_event_of :: trigger_event
  trigger_condition :: "expr option"
  trigger_body :: "guard_statement list"

definition RLS_VIOLATION_ERROR :: string where
  "RLS_VIOLATION_ERROR = ''new row violates row-level security policy''"

definition inner_table_name :: "rls_table \<Rightarrow> rls_options \<Rightarrow> string" where
  "inner_table_name t opts = table_name t @ rls_table_suffix opts"

definition refuse_computed_write_statements :: "trigger_column list \<Rightarrow> string \<Rightarrow> guard_kind \<Rightarrow> guard_statement list" where
  "refuse_computed_write_statements columns tbl kind = map (\<lambda>c.
     let new_value = prefixed_column_expr ''NEW'' (column_name c);
       supplied = (case kind of GuardInsert \<Rightarrow> EIsNotNull new_value
         | GuardUpdate \<Rightarrow> EIsDistinctFrom new_value (prefixed_column_expr ''OLD'' (column_name c)))
     in RaiseStatement ''ABORT'' (Some (''cannot write to generated column '' @ quoted (column_name c) @ '' of '' @ quoted tbl
       @ '': SQLite computes it from the other columns'')) (Some supplied)) (filter is_generated columns)"

definition check_guard :: "policy_predicate \<Rightarrow> (expr \<Rightarrow> expr) \<Rightarrow> rls_options \<Rightarrow> guard_statement list" where
  "check_guard check violation opts = (case check of
     DenyAll \<Rightarrow> [RaiseStatement ''ABORT'' (Some RLS_VIOLATION_ERROR) (write_guard_condition_expr None opts)]
   | AllowAll \<Rightarrow> []
   | PolicyExpr e \<Rightarrow> [RaiseStatement ''ABORT'' (Some RLS_VIOLATION_ERROR) (write_guard_condition_expr (Some (violation e)) opts)])"

fun translate_values :: "(expr \<Rightarrow> expr tres) \<Rightarrow> expr list \<Rightarrow> expr list tres" where
  "translate_values f [] = ok []"
| "translate_values f (e # es) = res_bind (f e) (\<lambda>x. res_bind (translate_values f es) (\<lambda>xs. ok (x # xs)))"

definition generate_insert_trigger_sql :: "rls_parameters \<Rightarrow> rls_table \<Rightarrow> rls_options \<Rightarrow> rls_trigger tres" where
  "generate_insert_trigger_sql par t opts =
     res_bind (filter_policies (table_name t) [CommandInsert] opts (table_policies t)) (\<lambda>insert_policies.
     res_bind (build_write_guard par t GuardInsert insert_policies) (\<lambda>(columns, _, check).
     let columns_written = filter (\<lambda>c. \<not> is_generated c) columns in
     res_bind (translate_values (translate par) (map forwarded_value columns_written)) (\<lambda>vals.
     let guard = (if insert_policies = []
         then [RaiseStatement ''ABORT'' (Some (''permission denied: no INSERT policy on '' @ table_name t)) (write_guard_condition_expr None opts)]
         else check_guard check policy_violation opts)
     in ok \<lparr>trigger_name = table_name t @ ''_insert_trigger'', trigger_table = table_name t, trigger_period_of = InsteadOf,
       trigger_event_of = EventInsert, trigger_condition = None,
       trigger_body = guard @ refuse_computed_write_statements columns (table_name t) GuardInsert
         @ [ForwardInsert (inner_table_name t opts) (map column_name columns_written) vals]\<rparr>)))"

definition backing_abort_trigger :: "string \<Rightarrow> string \<Rightarrow> trigger_event \<Rightarrow> expr option \<Rightarrow> string \<Rightarrow> rls_trigger" where
  "backing_abort_trigger name tbl event condition message = \<lparr>trigger_name = name, trigger_table = tbl, trigger_period_of = BeforeWrite,
     trigger_event_of = event, trigger_condition = condition, trigger_body = [RaiseStatement ''ABORT'' (Some message) None]\<rparr>"

definition generate_insert_check_trigger_sql :: "rls_parameters \<Rightarrow> rls_table \<Rightarrow> rls_options \<Rightarrow> rls_trigger option tres" where
  "generate_insert_check_trigger_sql par t opts =
     res_bind (filter_policies (table_name t) [CommandInsert] opts (table_policies t)) (\<lambda>policies.
     let emit = (\<lambda>condition message. ok (Some (backing_abort_trigger (inner_table_name t opts @ ''_insert_check'') (inner_table_name t opts)
       EventInsert condition message))) in
     if policies = [] then emit (write_guard_condition_expr None opts) (''permission denied: no INSERT policy on '' @ table_name t)
     else res_bind (build_write_guard par t GuardInsert policies) (\<lambda>(_, _, check). case check of
         DenyAll \<Rightarrow> emit (write_guard_condition_expr None opts) RLS_VIOLATION_ERROR
       | AllowAll \<Rightarrow> ok None
       | PolicyExpr e \<Rightarrow> emit (write_guard_condition_expr (Some (policy_violation e)) opts) RLS_VIOLATION_ERROR))"

definition update_violation :: "policy_predicate \<Rightarrow> policy_predicate \<Rightarrow> expr option option" where
  "update_violation using_p check = (case (using_p, check) of
     (DenyAll, _) \<Rightarrow> Some None
   | (_, DenyAll) \<Rightarrow> Some None
   | (AllowAll, AllowAll) \<Rightarrow> None
   | (AllowAll, PolicyExpr e) \<Rightarrow> Some (Some (policy_violation e))
   | (PolicyExpr e, AllowAll) \<Rightarrow> Some (Some (policy_violation e))
   | (PolicyExpr u, PolicyExpr e) \<Rightarrow> Some (Some (EBinaryOp (policy_violation u) OpOr (policy_violation e))))"

definition generate_update_check_trigger_sql :: "rls_parameters \<Rightarrow> rls_table \<Rightarrow> rls_options \<Rightarrow> rls_trigger option tres" where
  "generate_update_check_trigger_sql par t opts =
     res_bind (filter_policies (table_name t) [CommandUpdate] opts (table_policies t)) (\<lambda>policies.
     let emit = (\<lambda>violation. ok (Some (backing_abort_trigger (inner_table_name t opts @ ''_update_check'') (inner_table_name t opts)
       (EventUpdate []) (write_guard_condition_expr violation opts) RLS_VIOLATION_ERROR))) in
     if policies = [] then emit (maintenance par)
     else res_bind (build_write_guard par t GuardUpdate policies) (\<lambda>(_, using_p, check).
       (case using_p of
          None \<Rightarrow> Inl Panic
        | Some u \<Rightarrow> (case update_violation u check of None \<Rightarrow> ok None | Some violation \<Rightarrow> emit violation))))"

definition generate_delete_check_trigger_sql :: "rls_parameters \<Rightarrow> rls_table \<Rightarrow> rls_options \<Rightarrow> rls_trigger option tres" where
  "generate_delete_check_trigger_sql par t opts =
     (if write_exemption_function opts = None then ok None
      else res_bind (filter_policies (table_name t) [CommandDelete] opts (table_policies t)) (\<lambda>policies.
        let emit = (\<lambda>violation. ok (Some (backing_abort_trigger (inner_table_name t opts @ ''_delete_check'') (inner_table_name t opts)
          EventDelete (write_guard_condition_expr violation opts) RLS_VIOLATION_ERROR))) in
        if policies = [] then emit None
        else res_bind (combine_policy_predicates (prepare_policy par (Some ''OLD'') []) ClauseUsing policies) (\<lambda>p. case p of
            DenyAll \<Rightarrow> emit None
          | AllowAll \<Rightarrow> ok None
          | PolicyExpr e \<Rightarrow> emit (Some (policy_violation e)))))"

definition ignored_write_body :: "expr option \<Rightarrow> guard_statement list" where
  "ignored_write_body exemption = (case exemption of
     Some call \<Rightarrow> [RaiseStatement ''IGNORE'' None (Some (EIsNotTrue (ENested call)))]
   | None \<Rightarrow> [SelectNull])"

text \<open>The body of a write whose \<open>USING\<close> denies every row.\<close>

definition denied_body :: "string \<Rightarrow> rls_options \<Rightarrow> guard_statement list \<Rightarrow> guard_statement list" where
  "denied_body message opts forwarded =
     (if strict_rls_write_deny opts then RaiseStatement ''ABORT'' (Some message) (write_guard_condition_expr None opts) # forwarded
      else ignored_write_body (write_exemption_expr opts) @ (if write_exemption_expr opts = None then [] else forwarded))"

definition row_authorization :: "bool \<Rightarrow> policy_predicate \<Rightarrow> rls_options \<Rightarrow> expr option" where
  "row_authorization using_denies using_p opts =
     (if using_denies then map_option (\<lambda>call. EIsTrue (ENested call)) (write_exemption_expr opts)
      else case using_p of PolicyExpr e \<Rightarrow> Some (policy_or_exemption_expr e opts) | _ \<Rightarrow> None)"

definition generate_update_trigger_sql :: "rls_parameters \<Rightarrow> rls_table \<Rightarrow> rls_options \<Rightarrow> rls_trigger tres" where
  "generate_update_trigger_sql par t opts =
     res_bind (filter_policies (table_name t) [CommandUpdate] opts (table_policies t)) (\<lambda>policies.
     res_bind (build_write_guard par t GuardUpdate policies) (\<lambda>(assigned, using_p, check).
     case (using_p, build_row_identity_clause (map column_name (table_columns t)) (primary_key t)) of
       (Some u, Some identity) \<Rightarrow>
         (let using_denies = (policies = [] \<or> u = DenyAll);
            assignments = map (\<lambda>c. (column_name c, prefixed_column_expr ''NEW'' (column_name c))) (filter (\<lambda>c. \<not> is_generated c) assigned);
            forward = ForwardUpdate (inner_table_name t opts) assignments (generated_row_filter identity (row_authorization using_denies u opts));
            forwarded = refuse_computed_write_statements assigned (table_name t) GuardUpdate @ [forward];
            violation = (\<lambda>e. case u of PolicyExpr using_e \<Rightarrow> EBinaryOp (ENested using_e) OpAnd (policy_violation e) | _ \<Rightarrow> policy_violation e);
            body = (if using_denies then denied_body (''permission denied: no UPDATE policy on '' @ table_name t) opts forwarded
              else check_guard check violation opts @ forwarded)
          in ok \<lparr>trigger_name = table_name t @ ''_update_trigger'', trigger_table = table_name t, trigger_period_of = InsteadOf,
            trigger_event_of = EventUpdate [], trigger_condition = None, trigger_body = body\<rparr>)
     | _ \<Rightarrow> Inl Panic))"

definition generate_delete_trigger_sql :: "rls_parameters \<Rightarrow> rls_table \<Rightarrow> rls_options \<Rightarrow> rls_trigger tres" where
  "generate_delete_trigger_sql par t opts =
     res_bind (filter_policies (table_name t) [CommandDelete] opts (table_policies t)) (\<lambda>policies.
     res_bind (combine_policy_predicates (prepare_policy par (Some ''OLD'') []) ClauseUsing policies) (\<lambda>u.
     case build_row_identity_clause (map column_name (table_columns t)) (primary_key t) of
       None \<Rightarrow> Inl Panic
     | Some identity \<Rightarrow>
         (let using_denies = (policies = [] \<or> u = DenyAll);
            forward = ForwardDelete (inner_table_name t opts) (generated_row_filter identity (row_authorization using_denies u opts));
            body = (if using_denies then denied_body (''permission denied: no DELETE policy on '' @ table_name t) opts [forward] else [forward])
          in ok \<lparr>trigger_name = table_name t @ ''_delete_trigger'', trigger_table = table_name t, trigger_period_of = InsteadOf,
            trigger_event_of = EventDelete, trigger_condition = None, trigger_body = body\<rparr>)))"

definition generate_readonly_backing_guard_sql :: "rls_table \<Rightarrow> rls_options \<Rightarrow> rls_trigger list" where
  "generate_readonly_backing_guard_sql t opts =
     (if write_exemption_function opts = None then []
      else map (\<lambda>(verb, event). backing_abort_trigger (inner_table_name t opts @ ''_'' @ verb @ ''_check'') (inner_table_name t opts) event
          (write_guard_condition_expr None opts) (''permission denied: '' @ table_name t @ '' is read-only for this role''))
        [(''insert'', EventInsert), (''update'', EventUpdate []), (''delete'', EventDelete)])"

section \<open>What the triggers do\<close>

text \<open>A trigger body is run for one row: \<open>env\<close> answers to \<open>NEW\<close>, \<open>OLD\<close> and, in the filter of a forwarded write, to
  the columns of the backing row the filter is asked about. A raise is selected when its condition is true.\<close>

datatype (plugins only: code size) trigger_outcome = Aborted "string option" | Ignored | Written "guard_statement list"

definition raised :: "(expr \<Rightarrow> sval) \<Rightarrow> expr option \<Rightarrow> bool" where
  "raised env condition = (case condition of None \<Rightarrow> True | Some c \<Rightarrow> holds env c)"

fun run_body :: "(expr \<Rightarrow> sval) \<Rightarrow> guard_statement list \<Rightarrow> guard_statement list \<Rightarrow> trigger_outcome" where
  "run_body env done_before [] = Written done_before"
| "run_body env done_before (RaiseStatement action message condition # rest) =
     (if raised env condition then (if action = ''ABORT'' then Aborted message else Ignored) else run_body env done_before rest)"
| "run_body env done_before (SelectNull # rest) = run_body env done_before rest"
| "run_body env done_before (ForwardInsert tbl cols vals # rest) = run_body env (done_before @ [ForwardInsert tbl cols vals]) rest"
| "run_body env done_before (ForwardUpdate tbl assignments row_filter # rest) =
     run_body env (if holds env row_filter then done_before @ [ForwardUpdate tbl assignments row_filter] else done_before) rest"
| "run_body env done_before (ForwardDelete tbl row_filter # rest) =
     run_body env (if holds env row_filter then done_before @ [ForwardDelete tbl row_filter] else done_before) rest"

text \<open>A trigger of the backing table stops a write when there is one and its condition holds.\<close>

definition backing_stops :: "(expr \<Rightarrow> sval) \<Rightarrow> rls_trigger option \<Rightarrow> bool" where
  "backing_stops env trg = (case trg of None \<Rightarrow> False
     | Some g \<Rightarrow> raised env (trigger_condition g) \<and> run_body env [] (trigger_body g) \<noteq> Written [])"

definition exempt :: "(expr \<Rightarrow> sval) \<Rightarrow> rls_options \<Rightarrow> bool" where
  "exempt env opts = (case write_exemption_expr opts of None \<Rightarrow> False | Some call \<Rightarrow> holds env call)"

text \<open>The exemption function answers a truth value.\<close>

definition exemption_answers :: "(expr \<Rightarrow> sval) \<Rightarrow> rls_options \<Rightarrow> bool" where
  "exemption_answers env opts = (case write_exemption_expr opts of None \<Rightarrow> True | Some call \<Rightarrow> truth (sqlite_eval env call) \<noteq> None)"

definition predicate_answers :: "(expr \<Rightarrow> sval) \<Rightarrow> policy_predicate \<Rightarrow> bool" where
  "predicate_answers env p = (case p of PolicyExpr e \<Rightarrow> truth (sqlite_eval env e) \<noteq> None | _ \<Rightarrow> True)"

lemma violation_truth:
  "truth (sqlite_eval env e) \<noteq> None \<Longrightarrow> truth (sqlite_eval env (policy_violation e)) = Some (Some (\<not> holds env e))"
  by (auto simp: policy_violation_def eval_simps holds_def)

lemma is_true_truth:
  "truth (sqlite_eval env e) \<noteq> None \<Longrightarrow> truth (sqlite_eval env (EIsTrue (ENested e))) = Some (Some (holds env e))"
  by (auto simp: eval_simps holds_def)

lemma conjunction_holds:
  assumes "truth (sqlite_eval env a) \<noteq> None" "truth (sqlite_eval env b) \<noteq> None"
  shows "truth (sqlite_eval env (EBinaryOp a OpAnd b)) \<noteq> None"
    "holds env (EBinaryOp a OpAnd b) \<longleftrightarrow> holds env a \<and> holds env b"
  using reduce_and_truth [of env a "[b]"] assms by simp_all

lemma disjunction_holds:
  assumes "truth (sqlite_eval env a) \<noteq> None" "truth (sqlite_eval env b) \<noteq> None"
  shows "truth (sqlite_eval env (EBinaryOp a OpOr b)) \<noteq> None"
    "holds env (EBinaryOp a OpOr b) \<longleftrightarrow> holds env a \<or> holds env b"
  using reduce_or_truth [of env a "[b]"] assms by simp_all

lemma violation_holds:
  "truth (sqlite_eval env e) \<noteq> None \<Longrightarrow> holds env (policy_violation e) \<longleftrightarrow> \<not> holds env e"
  using violation_truth [of env e] by (simp add: holds_def)

lemma violation_answers:
  "truth (sqlite_eval env e) \<noteq> None \<Longrightarrow> truth (sqlite_eval env (policy_violation e)) \<noteq> None"
  using violation_truth [of env e] by simp

text \<open>A guard is raised for a caller that is not exempt and a row that violates.\<close>

lemma guard_raised:
  assumes "exemption_answers env opts" and "\<forall>v. violation = Some v \<longrightarrow> truth (sqlite_eval env v) \<noteq> None"
  shows "raised env (write_guard_condition_expr violation opts) \<longleftrightarrow> \<not> exempt env opts \<and> raised env violation"
proof (cases "write_exemption_expr opts")
  case None
  then show ?thesis by (cases violation) (simp_all add: write_guard_condition_expr_def exempt_def raised_def)
next
  case (Some call)
  have call: "truth (sqlite_eval env call) \<noteq> None" using assms(1) Some by (simp add: exemption_answers_def)
  note enforcement = violation_holds [OF call, unfolded policy_violation_def] violation_answers [OF call, unfolded policy_violation_def]
  show ?thesis
  proof (cases violation)
    case None
    then show ?thesis using Some enforcement by (simp add: write_guard_condition_expr_def exempt_def raised_def)
  next
    case (Some v)
    have "truth (sqlite_eval env (ENested v)) \<noteq> None" using assms(2) Some by (simp add: nested_value)
    from conjunction_holds(2) [OF enforcement(2) this]
    show ?thesis using Some \<open>write_exemption_expr opts = Some call\<close> enforcement(1)
      by (simp add: write_guard_condition_expr_def exempt_def raised_def nested_value)
  qed
qed

lemma check_guard_runs:
  assumes "exemption_answers env opts" "predicate_answers env check"
    and "\<And>e. check = PolicyExpr e \<Longrightarrow> truth (sqlite_eval env (violation e)) \<noteq> None"
  shows "run_body env d (check_guard check violation opts @ rest) =
    (if exempt env opts \<or> (case check of DenyAll \<Rightarrow> False | AllowAll \<Rightarrow> True | PolicyExpr e \<Rightarrow> \<not> holds env (violation e))
     then run_body env d rest else Aborted (Some RLS_VIOLATION_ERROR))"
  using assms guard_raised [OF assms(1), of None]
  by (cases check) (auto simp: check_guard_def guard_raised raised_def [of env None] raised_def [of env "Some _"])

text \<open>Whether a statement supplies a value for a generated column.\<close>

definition writes_generated :: "(expr \<Rightarrow> sval) \<Rightarrow> guard_kind \<Rightarrow> trigger_column list \<Rightarrow> bool" where
  "writes_generated env kind columns \<longleftrightarrow> (\<exists>c \<in> set columns. is_generated c
     \<and> (case kind of GuardInsert \<Rightarrow> sqlite_eval env (prefixed_column_expr ''NEW'' (column_name c)) \<noteq> SNull
        | GuardUpdate \<Rightarrow> sqlite_eval env (prefixed_column_expr ''NEW'' (column_name c)) \<noteq> sqlite_eval env (prefixed_column_expr ''OLD'' (column_name c))))"

lemma computed_writes_pass:
  "\<not> writes_generated env kind columns \<Longrightarrow> run_body env d (refuse_computed_write_statements columns tbl kind @ rest) = run_body env d rest"
  by (induction columns arbitrary: d; cases kind)
    (auto simp: refuse_computed_write_statements_def writes_generated_def Let_def raised_def holds_def eval_simps split: if_splits)


section \<open>Writes through the view\<close>

text \<open>What a translation relies on for a command: the roles of its policies are settled (\<open>roles_resolved\<close>), and every policy
  that applies has an expression that translates and answers a truth value.\<close>

definition applying :: "rls_options \<Rightarrow> policy_command \<Rightarrow> rls_table \<Rightarrow> create_policy list" where
  "applying opts command t = filter (applies_to opts [command]) (table_policies t)"

definition all_judged :: "(expr \<Rightarrow> sval) \<Rightarrow> (expr \<Rightarrow> expr tres) \<Rightarrow> policy_clause \<Rightarrow> create_policy list \<Rightarrow> bool" where
  "all_judged env prepare clause ps \<longleftrightarrow> (\<forall>p \<in> set ps. judged env prepare clause p)"

definition new_row :: "rls_parameters \<Rightarrow> guard_kind \<Rightarrow> rls_table \<Rightarrow> expr \<Rightarrow> expr tres" where
  "new_row par kind t = prepare_policy par (Some ''NEW'') (guard_substitutions par (table_columns t) kind)"

definition old_row :: "rls_parameters \<Rightarrow> expr \<Rightarrow> expr tres" where
  "old_row par = prepare_policy par (Some ''OLD'') []"

lemma filtered_for: "roles_resolved opts command (table_policies t) \<Longrightarrow>
    filter_policies name [command] opts (table_policies t) = ok (applying opts command t)"
  unfolding applying_def by (rule filtered_policies)

lemma combined_for:
  assumes "all_judged env prepare clause ps"
  obtains pp where "combine_policy_predicates prepare clause ps = ok pp"
    and "predicate_allows env pp \<longleftrightarrow> pg_allows (policy_passes env prepare clause) ps"
    and "predicate_answers env pp" and "pp = DenyAll \<longleftrightarrow> (\<forall>p \<in> set ps. is_restrictive p)"
  using combined_predicate [of ps env prepare clause] assms
  by (fastforce simp: all_judged_def predicate_answers_def split: policy_predicate.splits)

lemma violation_check:
  assumes "exemption_answers env opts" "predicate_answers env check"
  shows "run_body env d (check_guard check policy_violation opts @ rest) =
    (if exempt env opts \<or> predicate_allows env check then run_body env d rest else Aborted (Some RLS_VIOLATION_ERROR))"
  using assms
  by (subst check_guard_runs)
    (auto simp: predicate_answers_def predicate_allows_def violation_answers violation_holds split: policy_predicate.splits)

lemma backing_stops_iff:
  "backing_stops env (Some (backing_abort_trigger name tbl event condition message)) \<longleftrightarrow> raised env condition"
  by (simp add: backing_stops_def backing_abort_trigger_def raised_def)

lemma guard_raised_none: "exemption_answers env opts \<Longrightarrow> raised env (write_guard_condition_expr None opts) \<longleftrightarrow> \<not> exempt env opts"
  by (simp add: guard_raised) (simp add: raised_def)

lemma guard_raised_violation:
  assumes "exemption_answers env opts" "truth (sqlite_eval env e) \<noteq> None"
  shows "raised env (write_guard_condition_expr (Some (policy_violation e)) opts) \<longleftrightarrow> \<not> exempt env opts \<and> \<not> holds env e"
  using guard_raised [OF assms(1), of "Some (policy_violation e)"] violation_answers [OF assms(2)] violation_holds [OF assms(2)]
  by (simp add: raised_def [of env "Some (policy_violation e)"])

text \<open>
  C7. A row inserted through the view reaches the backing table exactly when the caller is exempt or PostgreSQL
  lets the row in: some permissive policy for inserts is true of it and every restrictive one is. Otherwise
  the statement is aborted, with the message for a missing policy when none applies. The trigger of the
  backing table stops the same rows, so a write that does not come through the view gains nothing and a row
  the view forwards is not stopped behind it. The roles the policies for inserts name are names, not keywords
  such as \<open>CURRENT_USER\<close>, and the role the translation is made for is known when one is named.
\<close>

theorem guarded_inserts_pass_what_policies_allow:
  fixes opts :: rls_options
  assumes roles: "roles_resolved opts CommandInsert (table_policies t)"
    and judged: "all_judged env (new_row par GuardInsert t) ClauseCheck (applying opts CommandInsert t)"
    and accepted: "guard_refusal par t GuardInsert (applying opts CommandInsert t) = None"
    and exemption: "exemption_answers env opts"
    and vals: "translate_values (translate par) (map forwarded_value (filter (\<lambda>c. \<not> is_generated c) (table_columns t))) = ok vals"
    and generated: "\<not> writes_generated env GuardInsert (table_columns t)"
  shows "\<exists>view backing. generate_insert_trigger_sql par t opts = ok view \<and> generate_insert_check_trigger_sql par t opts = ok backing
    \<and> (let ps = applying opts CommandInsert t; allowed = pg_allows (policy_passes env (new_row par GuardInsert t) ClauseCheck) ps in
       run_body env [] (trigger_body view) =
         (if exempt env opts \<or> allowed
          then Written [ForwardInsert (inner_table_name t opts) (map column_name (filter (\<lambda>c. \<not> is_generated c) (table_columns t))) vals]
          else Aborted (Some (if ps = [] then ''permission denied: no INSERT policy on '' @ table_name t else RLS_VIOLATION_ERROR)))
       \<and> (backing_stops env backing \<longleftrightarrow> \<not> (exempt env opts \<or> allowed)))"
proof -
  let ?ps = "applying opts CommandInsert t"
  obtain pp where pp: "combine_policy_predicates (new_row par GuardInsert t) ClauseCheck ?ps = ok pp"
    "predicate_allows env pp \<longleftrightarrow> pg_allows (policy_passes env (new_row par GuardInsert t) ClauseCheck) ?ps" "predicate_answers env pp"
    "pp = DenyAll \<longleftrightarrow> (\<forall>p \<in> set ?ps. is_restrictive p)"
    using combined_for [OF judged] by blast
  have guard: "build_write_guard par t GuardInsert ?ps = ok (table_columns t, None, pp)"
    using pp(1) accepted by (simp add: build_write_guard_def new_row_def Let_def)
  note run = computed_writes_pass [OF generated] violation_check [OF exemption pp(3)] guard_raised_none [OF exemption]
  have none: "?ps = [] \<Longrightarrow> \<not> predicate_allows env pp" using pp(4) by (simp add: predicate_allows_def)
  show ?thesis
    unfolding generate_insert_trigger_sql_def generate_insert_check_trigger_sql_def filtered_for [OF roles]
    using guard vals none pp(2,3) guard_raised_violation [OF exemption]
    by (auto simp: Let_def run backing_stops_iff predicate_allows_def predicate_answers_def backing_stops_def [of env None] split: policy_predicate.splits)
qed


text \<open>A table of one column, guarded by one policy that reads it, for the witnesses.\<close>

definition witness_parameters :: rls_parameters where
  "witness_parameters = \<lparr>transform = (\<lambda>prefix e. case (prefix, e) of (Some q, EIdentifier i) \<Rightarrow> ECompoundIdentifier [bare_ident q, i] | _ \<Rightarrow> e),
     fold_guard = (\<lambda>_ e. e), translate = ok, show_rls = (\<lambda>_. []), replayable = (\<lambda>_. True), replayable_policy = (\<lambda>_. True),
     reads_column = (\<lambda>_ _. False), maintenance = None\<rparr>"

definition witness_policy :: create_policy where
  "witness_policy = \<lparr>policy_name = ''mine'', is_restrictive = False, policy_command_of = CommandAll, policy_roles = [],
     using_expression = Some (EIdentifier (bare_ident ''owned'')), check_expression = None\<rparr>"

definition witness_table :: rls_table where
  "witness_table = \<lparr>table_name = ''notes'',
     table_policies = [witness_policy],
     table_columns = [\<lparr>column_name = ''owned'', column_default = None, guard_default = None, generated = None\<rparr>], primary_key = [''owned'']\<rparr>"

definition witness_options :: rls_options where
  "witness_options = \<lparr>session_user_role = None, write_exemption_function = None, strict_rls_write_deny = False, rls_table_suffix = ''_rls''\<rparr>"

definition witness_row :: "expr \<Rightarrow> sval" where
  "witness_row e = (if e = ECompoundIdentifier [bare_ident ''NEW'', bare_ident ''owned''] then SInt 0 else SInt 1)"

lemma witness_fields [simp]:
  "replayable_policy witness_parameters e" "translate witness_parameters = ok"
  "table_columns witness_table = [\<lparr>column_name = ''owned'', column_default = None, guard_default = None, generated = None\<rparr>]"
  "write_exemption_function witness_options = None" "primary_key witness_table = [''owned'']"
  "strict_rls_write_deny witness_options = False"
  by (simp_all add: witness_parameters_def witness_table_def witness_options_def)

lemma witness_policies [simp]: "table_policies witness_table = [witness_policy]"
  "clause_expression clause witness_policy = Some (EIdentifier (bare_ident ''owned''))" "\<not> is_restrictive witness_policy"
  "using_expression witness_policy = Some (EIdentifier (bare_ident ''owned''))"
  by (cases clause; simp add: witness_table_def witness_policy_def clause_expression_def)+

lemma witness_applying [simp]: "applying witness_options command witness_table = [witness_policy]"
  by (simp add: applying_def) (simp add: witness_policy_def applies_to_def)

lemma witness_values [simp]:
  "sqlite_eval witness_row (ECompoundIdentifier [bare_ident ''NEW'', bare_ident ''owned'']) = SInt 0"
  "sqlite_eval witness_row (ECompoundIdentifier [bare_ident ''OLD'', bare_ident ''owned'']) = SInt 1"
  "sqlite_eval witness_row (EIdentifier i) = SInt 1"
  by (simp_all add: sqlite_eval.simps(1) witness_row_def bare_ident_def)

lemma witness_prepared [simp]:
  "new_row witness_parameters kind witness_table (EIdentifier i) = ok (ECompoundIdentifier [bare_ident ''NEW'', i])"
  "old_row witness_parameters (EIdentifier i) = ok (ECompoundIdentifier [bare_ident ''OLD'', i])"
  by (simp_all add: new_row_def old_row_def prepare_policy_def witness_parameters_def)

lemma witness_holds [simp]:
  "roles_resolved witness_options command [witness_policy]"
  "exemption_answers witness_row witness_options" "\<not> exempt witness_row witness_options"
  "guard_refusal witness_parameters witness_table kind [witness_policy] = None"
  "\<not> writes_generated witness_row kind (table_columns witness_table)"
  "all_judged witness_row (new_row witness_parameters kind witness_table) ClauseCheck [witness_policy]"
  "all_judged witness_row (old_row witness_parameters) ClauseUsing [witness_policy]"
  "\<not> pg_allows (policy_passes witness_row (new_row witness_parameters kind witness_table) ClauseCheck) [witness_policy]"
  "pg_allows (policy_passes witness_row (old_row witness_parameters) ClauseUsing) [witness_policy]"
  by (simp_all add: exemption_answers_def exempt_def write_exemption_expr_def guard_refusal_def default_refusal_def policy_refusal_def
      check_refusal_def writes_generated_def is_generated_def all_judged_def judged_def pg_allows_def policy_passes_def holds_def)
    (simp add: roles_resolved_def keyword_role_def names_a_role_def witness_policy_def)

lemma witness_forwarded:
  "map forwarded_value (table_columns witness_table) = [ECompoundIdentifier [bare_ident ''NEW'', bare_ident ''owned'']]"
  "filter (\<lambda>c. \<not> is_generated c) (table_columns witness_table) = table_columns witness_table"
  by (simp_all add: forwarded_value_def is_generated_def prefixed_column_expr_def) code_simp

theorem guarded_inserts_pass_what_policies_allow_witness:
  "\<exists>view backing. generate_insert_trigger_sql witness_parameters witness_table witness_options = ok view
    \<and> generate_insert_check_trigger_sql witness_parameters witness_table witness_options = ok backing
    \<and> run_body witness_row [] (trigger_body view) = Aborted (Some RLS_VIOLATION_ERROR) \<and> backing_stops witness_row backing"
  using guarded_inserts_pass_what_policies_allow [of witness_options witness_table witness_row witness_parameters
      "[ECompoundIdentifier [bare_ident ''NEW'', bare_ident ''owned'']]"]
  by (simp add: witness_forwarded Let_def del: witness_fields(3))


lemma filter_holds:
  assumes "truth (sqlite_eval env identity) \<noteq> None" "\<forall>a. auth = Some a \<longrightarrow> truth (sqlite_eval env a) \<noteq> None"
  shows "holds env (generated_row_filter identity auth) \<longleftrightarrow> holds env identity \<and> raised env auth"
proof (cases auth)
  case (Some a)
  have "truth (sqlite_eval env (ENested identity)) \<noteq> None" "truth (sqlite_eval env (ENested a)) \<noteq> None"
    using assms Some by (simp_all add: nested_value)
  from conjunction_holds(2) [OF this] show ?thesis using Some by (simp add: generated_row_filter_def raised_def nested_value)
qed (simp add: generated_row_filter_def raised_def)

text \<open>The rows a write may touch: those its \<open>USING\<close> predicate allows, or every row for an exempt caller.\<close>

lemma authorization_holds:
  assumes "exemption_answers env opts" "predicate_answers env u" "u = DenyAll \<longrightarrow> write_exemption_expr opts \<noteq> None"
  shows "raised env (row_authorization (u = DenyAll) u opts) \<longleftrightarrow> exempt env opts \<or> predicate_allows env u"
    "\<forall>a. row_authorization (u = DenyAll) u opts = Some a \<longrightarrow> truth (sqlite_eval env a) \<noteq> None"
proof -
  have call: "truth (sqlite_eval env (EIsTrue (ENested call))) = Some (Some (holds env call))" if "write_exemption_expr opts = Some call" for call
    using assms(1) that by (intro is_true_truth) (simp add: exemption_answers_def)
  have expr: "truth (sqlite_eval env (policy_or_exemption_expr e opts)) \<noteq> None
      \<and> (holds env (policy_or_exemption_expr e opts) \<longleftrightarrow> exempt env opts \<or> holds env e)" if "u = PolicyExpr e" for e
  proof (cases "write_exemption_expr opts")
    case None
    then show ?thesis using that assms(2) by (simp add: policy_or_exemption_expr_def predicate_answers_def exempt_def)
  next
    case (Some c)
    have "truth (sqlite_eval env (ENested e)) \<noteq> None" using that assms(2) by (simp add: predicate_answers_def nested_value)
    moreover have "holds env (EIsTrue (ENested c)) \<longleftrightarrow> holds env c" using call [OF Some] by (simp add: holds_def)
    ultimately show ?thesis using disjunction_holds [of env "EIsTrue (ENested c)" "ENested e"] call [OF Some] Some
      by (simp add: policy_or_exemption_expr_def exempt_def nested_value)
  qed
  show "raised env (row_authorization (u = DenyAll) u opts) \<longleftrightarrow> exempt env opts \<or> predicate_allows env u"
    using assms(3) call expr
    by (cases u) (auto simp: row_authorization_def raised_def predicate_allows_def exempt_def holds_def)
  show "\<forall>a. row_authorization (u = DenyAll) u opts = Some a \<longrightarrow> truth (sqlite_eval env a) \<noteq> None"
    using call expr by (cases u) (auto simp: row_authorization_def)
qed

lemma row_filter_holds:
  assumes "exemption_answers env opts" "predicate_answers env u" "truth (sqlite_eval env identity) \<noteq> None"
    and "u = DenyAll \<Longrightarrow> exempt env opts"
  shows "holds env (generated_row_filter identity (row_authorization (u = DenyAll) u opts))
    \<longleftrightarrow> holds env identity \<and> (exempt env opts \<or> predicate_allows env u)"
proof -
  have "write_exemption_expr opts \<noteq> None" if "exempt env opts" using that by (auto simp: exempt_def split: option.splits)
  then show ?thesis using authorization_holds [OF assms(1,2)] filter_holds [OF assms(3)] assms(4) by blast
qed

text \<open>A write whose \<open>USING\<close> denies every row is run for an exempt caller only; for another it is aborted when the
  options ask for it, and otherwise leaves the row alone.\<close>

lemma denied_body_runs:
  assumes "exemption_answers env opts"
  shows "run_body env [] (denied_body message opts forwarded) =
    (if exempt env opts then run_body env [] forwarded
     else if strict_rls_write_deny opts then Aborted (Some message)
     else if write_exemption_expr opts = None then Written [] else Ignored)"
proof -
  have "raised env (Some (EIsNotTrue (ENested call))) \<longleftrightarrow> \<not> exempt env opts" if "write_exemption_expr opts = Some call" for call
    using guard_raised_none [OF assms] that by (simp add: write_guard_condition_expr_def)
  then show ?thesis using guard_raised_none [OF assms]
    by (cases "write_exemption_expr opts") (auto simp: denied_body_def ignored_write_body_def exempt_def)
qed

text \<open>The row is untouched: the trigger writes nothing and does not abort the statement.\<close>

definition untouched :: "trigger_outcome \<Rightarrow> bool" where
  "untouched outcome \<longleftrightarrow> outcome = Written [] \<or> outcome = Ignored"

text \<open>
  A row deleted through the view is deleted from the backing table exactly when the filter finds it and the
  caller is exempt or the policies for deletes let it go; a row they hide is left alone without an error,
  unless no permissive policy applies and the options ask for the error. With an exemption function, the
  trigger of the backing table stops exactly the deletions of rows the policies hide.
\<close>

lemma guarded_deletes_touch_what_policies_allow:
  fixes opts :: rls_options
  assumes roles: "roles_resolved opts CommandDelete (table_policies t)"
    and judged: "all_judged env (old_row par) ClauseUsing (applying opts CommandDelete t)"
    and exemption: "exemption_answers env opts"
    and identity: "build_row_identity_clause (map column_name (table_columns t)) (primary_key t) = Some identity"
      "truth (sqlite_eval env identity) \<noteq> None"
  shows "\<exists>view backing. generate_delete_trigger_sql par t opts = ok view \<and> generate_delete_check_trigger_sql par t opts = ok backing
    \<and> (let ps = applying opts CommandDelete t; may = (exempt env opts \<or> pg_allows (policy_passes env (old_row par) ClauseUsing) ps);
         denied = (\<forall>p \<in> set ps. is_restrictive p); outcome = run_body env [] (trigger_body view) in
       ((\<exists>row_filter. outcome = Written [ForwardDelete (inner_table_name t opts) row_filter]) \<longleftrightarrow> may \<and> holds env identity)
       \<and> (outcome = Aborted (Some (''permission denied: no DELETE policy on '' @ table_name t))
            \<longleftrightarrow> \<not> may \<and> denied \<and> strict_rls_write_deny opts)
       \<and> (untouched outcome \<longleftrightarrow> \<not> (may \<and> holds env identity) \<and> \<not> (\<not> may \<and> denied \<and> strict_rls_write_deny opts))
       \<and> (backing_stops env backing \<longleftrightarrow> write_exemption_function opts \<noteq> None \<and> \<not> may))"
proof -
  let ?ps = "applying opts CommandDelete t"
  obtain u where u: "combine_policy_predicates (old_row par) ClauseUsing ?ps = ok u"
    "predicate_allows env u \<longleftrightarrow> pg_allows (policy_passes env (old_row par) ClauseUsing) ?ps" "predicate_answers env u"
    "u = DenyAll \<longleftrightarrow> (\<forall>p \<in> set ?ps. is_restrictive p)"
    using combined_for [OF judged] by blast
  have denies: "(?ps = [] \<or> u = DenyAll) = (u = DenyAll)" using u(4) by auto
  have deny: "u = DenyAll \<Longrightarrow> \<not> predicate_allows env u" by (simp add: predicate_allows_def)
  have filter: "holds env (generated_row_filter identity (row_authorization (u = DenyAll) u opts))
      \<longleftrightarrow> holds env identity \<and> (exempt env opts \<or> predicate_allows env u)" if "u = DenyAll \<Longrightarrow> exempt env opts"
    by (rule row_filter_holds [OF exemption u(3) identity(2) that])
  have stops: "\<exists>backing. generate_delete_check_trigger_sql par t opts = ok backing
      \<and> (backing_stops env backing \<longleftrightarrow> write_exemption_function opts \<noteq> None \<and> \<not> (exempt env opts \<or> predicate_allows env u))"
    unfolding generate_delete_check_trigger_sql_def filtered_for [OF roles]
    using u(1,3) denies deny guard_raised_none [OF exemption] guard_raised_violation [OF exemption]
    by (auto simp: old_row_def Let_def backing_stops_iff backing_stops_def [of env None] predicate_allows_def predicate_answers_def
        split: policy_predicate.splits)
  define forward where "forward = ForwardDelete (inner_table_name t opts) (generated_row_filter identity (row_authorization (u = DenyAll) u opts))"
  define body where "body = (if u = DenyAll then denied_body (''permission denied: no DELETE policy on '' @ table_name t) opts [forward] else [forward])"
  have view: "\<exists>view. generate_delete_trigger_sql par t opts = ok view \<and> trigger_body view = body"
    unfolding generate_delete_trigger_sql_def filtered_for [OF roles]
    using u(1) identity(1) denies by (cases "?ps = []") (simp_all add: old_row_def Let_def body_def forward_def)
  have outcome: "run_body env [] body =
      (if u = DenyAll \<and> \<not> exempt env opts then (if strict_rls_write_deny opts then Aborted (Some (''permission denied: no DELETE policy on '' @ table_name t))
         else if write_exemption_expr opts = None then Written [] else Ignored)
       else if holds env identity \<and> (exempt env opts \<or> predicate_allows env u) then Written [forward] else Written [])"
    using filter deny by (auto simp: body_def denied_body_runs [OF exemption] forward_def)
  obtain view backing where vb: "generate_delete_trigger_sql par t opts = ok view" "trigger_body view = body"
    "generate_delete_check_trigger_sql par t opts = ok backing"
    "backing_stops env backing \<longleftrightarrow> write_exemption_function opts \<noteq> None \<and> \<not> (exempt env opts \<or> predicate_allows env u)"
    using view stops by blast
  show ?thesis
    unfolding Let_def u(2,4) [symmetric] by (intro exI conjI, rule vb(1), rule vb(3)) (use deny in \<open>auto simp: vb(2,4) outcome untouched_def forward_def\<close>)
qed

text \<open>The condition under which an update is stopped: the row it finds is hidden, or the row it leaves is refused.\<close>

lemma update_violation_raised:
  assumes "exemption_answers env opts" "predicate_answers env u" "predicate_answers env k"
  shows "case update_violation u k of None \<Rightarrow> predicate_allows env u \<and> predicate_allows env k
    | Some v \<Rightarrow> raised env (write_guard_condition_expr v opts) \<longleftrightarrow> \<not> exempt env opts \<and> \<not> (predicate_allows env u \<and> predicate_allows env k)"
proof -
  note [simp] = predicate_answers_def predicate_allows_def update_violation_def
  show ?thesis
  proof (cases "\<exists>a b. u = PolicyExpr a \<and> k = PolicyExpr b")
    case True
    then obtain a b where ab: "u = PolicyExpr a" "k = PolicyExpr b" by blast
    note va = violation_answers [of env a] violation_holds [of env a] violation_answers [of env b] violation_holds [of env b]
    have d: "truth (sqlite_eval env (EBinaryOp (policy_violation a) OpOr (policy_violation b))) \<noteq> None"
      "holds env (EBinaryOp (policy_violation a) OpOr (policy_violation b)) \<longleftrightarrow> \<not> holds env a \<or> \<not> holds env b"
      using disjunction_holds [of env "policy_violation a" "policy_violation b"] va assms(2,3) ab by simp_all
    then show ?thesis
      using guard_raised [OF assms(1), of "Some (EBinaryOp (policy_violation a) OpOr (policy_violation b))"] ab
      by (simp add: raised_def [of env "Some (EBinaryOp _ _ _)"])
  next
    case False
    then show ?thesis using assms guard_raised_none [OF assms(1)] guard_raised_violation [OF assms(1)]
      by (cases u; cases k) auto
  qed
qed

text \<open>
  C8. An update through the view changes the backing row exactly when the filter finds it and the caller is exempt
  or the policies show the row and accept what it becomes. A row they show whose new content they refuse
  aborts the statement; a row they hide is left alone, unless no permissive policy applies and the options
  ask for the error. The trigger of the backing table stops exactly the updates that would not be made
  through the view (when no policy applies, updates of maintenance triggers are let through it). The
  roles the policies for updates name are names, not keywords such as \<open>CURRENT_USER\<close>, and the role the
  translation is made for is known when one is named.
\<close>

theorem guarded_updates_touch_what_policies_allow:
  fixes opts :: rls_options
  assumes roles: "roles_resolved opts CommandUpdate (table_policies t)"
    and judged: "all_judged env (old_row par) ClauseUsing (applying opts CommandUpdate t)"
      "all_judged env (new_row par GuardUpdate t) ClauseCheck (applying opts CommandUpdate t)"
    and accepted: "guard_refusal par t GuardUpdate (applying opts CommandUpdate t) = None"
    and exemption: "exemption_answers env opts"
    and generated: "\<not> writes_generated env GuardUpdate (table_columns t)"
    and identity: "build_row_identity_clause (map column_name (table_columns t)) (primary_key t) = Some identity"
      "truth (sqlite_eval env identity) \<noteq> None"
  shows "\<exists>view backing. generate_update_trigger_sql par t opts = ok view \<and> generate_update_check_trigger_sql par t opts = ok backing
    \<and> (let ps = applying opts CommandUpdate t; shown = pg_allows (policy_passes env (old_row par) ClauseUsing) ps;
         accepts = pg_allows (policy_passes env (new_row par GuardUpdate t) ClauseCheck) ps;
         may = (exempt env opts \<or> shown \<and> accepts); denied = (\<not> exempt env opts \<and> (\<forall>p \<in> set ps. is_restrictive p));
         outcome = run_body env [] (trigger_body view) in
       ((\<exists>assignments row_filter. outcome = Written [ForwardUpdate (inner_table_name t opts) assignments row_filter]) \<longleftrightarrow> may \<and> holds env identity)
       \<and> (outcome = Aborted (Some RLS_VIOLATION_ERROR) \<longleftrightarrow> \<not> exempt env opts \<and> shown \<and> \<not> accepts)
       \<and> (outcome = Aborted (Some (''permission denied: no UPDATE policy on '' @ table_name t)) \<longleftrightarrow> denied \<and> strict_rls_write_deny opts)
       \<and> (untouched outcome \<longleftrightarrow> (if may then \<not> holds env identity else \<not> shown \<and> \<not> (denied \<and> strict_rls_write_deny opts)))
       \<and> (ps \<noteq> [] \<or> maintenance par = None \<longrightarrow> (backing_stops env backing \<longleftrightarrow> \<not> may)))"
proof -
  let ?ps = "applying opts CommandUpdate t"
  obtain u where u: "combine_policy_predicates (old_row par) ClauseUsing ?ps = ok u"
    "predicate_allows env u \<longleftrightarrow> pg_allows (policy_passes env (old_row par) ClauseUsing) ?ps" "predicate_answers env u"
    "u = DenyAll \<longleftrightarrow> (\<forall>p \<in> set ?ps. is_restrictive p)"
    using combined_for [OF judged(1)] by blast
  obtain k where k: "combine_policy_predicates (new_row par GuardUpdate t) ClauseCheck ?ps = ok k"
    "predicate_allows env k \<longleftrightarrow> pg_allows (policy_passes env (new_row par GuardUpdate t) ClauseCheck) ?ps" "predicate_answers env k"
    "k = DenyAll \<longleftrightarrow> (\<forall>p \<in> set ?ps. is_restrictive p)"
    using combined_for [OF judged(2)] by blast
  have guard: "build_write_guard par t GuardUpdate ?ps = ok (table_columns t, Some u, k)"
    using u(1) k(1) accepted by (simp add: build_write_guard_def new_row_def old_row_def Let_def)
  have denies: "(?ps = [] \<or> u = DenyAll) = (u = DenyAll)" using u(4) by auto
  have deny: "u = DenyAll \<Longrightarrow> \<not> predicate_allows env u" by (simp add: predicate_allows_def)
  have filter: "holds env (generated_row_filter identity (row_authorization (u = DenyAll) u opts))
      \<longleftrightarrow> holds env identity \<and> (exempt env opts \<or> predicate_allows env u)" if "u = DenyAll \<Longrightarrow> exempt env opts"
    by (rule row_filter_holds [OF exemption u(3) identity(2) that])
  define violation where "violation = (\<lambda>e. case u of PolicyExpr using_e \<Rightarrow> EBinaryOp (ENested using_e) OpAnd (policy_violation e) | _ \<Rightarrow> policy_violation e)"
  have violation: "truth (sqlite_eval env (violation e)) \<noteq> None \<and> (holds env (violation e) \<longleftrightarrow> predicate_allows env u \<and> \<not> holds env e)"
    if "k = PolicyExpr e" "u \<noteq> DenyAll" for e
    using that k(3) u(3) violation_answers [of env e] violation_holds [of env e]
    by (cases u) (auto simp: violation_def predicate_answers_def predicate_allows_def conjunction_holds nested_value)
  have checked: "run_body env [] (check_guard k violation opts @ rest) =
      (if exempt env opts \<or> (predicate_allows env u \<longrightarrow> predicate_allows env k) then run_body env [] rest else Aborted (Some RLS_VIOLATION_ERROR))"
    if "u \<noteq> DenyAll" for rest
    using check_guard_runs [OF exemption k(3), of violation "[]" rest] violation that k(4) u(4)
    by (cases k) (auto simp: predicate_allows_def)
  have stops: "\<exists>backing. generate_update_check_trigger_sql par t opts = ok backing
      \<and> (?ps \<noteq> [] \<or> maintenance par = None
         \<longrightarrow> (backing_stops env backing \<longleftrightarrow> \<not> (exempt env opts \<or> predicate_allows env u \<and> predicate_allows env k)))"
    unfolding generate_update_check_trigger_sql_def filtered_for [OF roles]
    using guard denies deny guard_raised_none [OF exemption] update_violation_raised [OF exemption u(3) k(3)]
    by (auto simp: Let_def backing_stops_iff backing_stops_def [of env None] split: option.splits)
  define forward where "forward = ForwardUpdate (inner_table_name t opts)
    (map (\<lambda>c. (column_name c, prefixed_column_expr ''NEW'' (column_name c))) (filter (\<lambda>c. \<not> is_generated c) (table_columns t)))
    (generated_row_filter identity (row_authorization (u = DenyAll) u opts))"
  define forwarded where "forwarded = refuse_computed_write_statements (table_columns t) (table_name t) GuardUpdate @ [forward]"
  define body where "body = (if u = DenyAll then denied_body (''permission denied: no UPDATE policy on '' @ table_name t) opts forwarded
    else check_guard k violation opts @ forwarded)"
  have view: "\<exists>view. generate_update_trigger_sql par t opts = ok view \<and> trigger_body view = body"
    unfolding generate_update_trigger_sql_def filtered_for [OF roles]
    using guard identity(1) by (simp add: Let_def denies body_def forwarded_def forward_def violation_def)
  have outcome: "run_body env [] body =
      (if u = DenyAll \<and> \<not> exempt env opts then (if strict_rls_write_deny opts then Aborted (Some (''permission denied: no UPDATE policy on '' @ table_name t))
         else if write_exemption_expr opts = None then Written [] else Ignored)
       else if \<not> exempt env opts \<and> predicate_allows env u \<and> \<not> predicate_allows env k then Aborted (Some RLS_VIOLATION_ERROR)
       else if holds env identity \<and> (exempt env opts \<or> predicate_allows env u) then Written [forward] else Written [])"
    using filter deny by (auto simp: body_def denied_body_runs [OF exemption] checked forwarded_def computed_writes_pass [OF generated] forward_def)
  obtain view where v: "generate_update_trigger_sql par t opts = ok view" "trigger_body view = body" using view by blast
  obtain backing where b: "generate_update_check_trigger_sql par t opts = ok backing"
    "?ps \<noteq> [] \<or> maintenance par = None
       \<longrightarrow> (backing_stops env backing \<longleftrightarrow> \<not> (exempt env opts \<or> predicate_allows env u \<and> predicate_allows env k))"
    using stops by (elim exE conjE)
  have message: "RLS_VIOLATION_ERROR \<noteq> ''permission denied: no UPDATE policy on '' @ s" for s by (simp add: RLS_VIOLATION_ERROR_def)
  show ?thesis
    unfolding Let_def u(2,4) [symmetric] k(2) [symmetric]
    by (intro exI conjI, rule v(1), rule b(1))
      (use deny message message [symmetric] b(2) in \<open>auto simp: v(2) outcome untouched_def forward_def\<close>)
qed

lemma witness_identity:
  "build_row_identity_clause (map column_name (table_columns witness_table)) (primary_key witness_table)
     = Some (EBinaryOp (EIdentifier (quoted_ident ''owned'')) OpEq (ECompoundIdentifier [bare_ident ''OLD'', bare_ident ''owned'']))"
  "sqlite_eval witness_row (EBinaryOp (EIdentifier (quoted_ident ''owned'')) OpEq (ECompoundIdentifier [bare_ident ''OLD'', bare_ident ''owned''])) = SInt 1"
  by (simp_all add: build_row_identity_clause_def prefixed_column_expr_def Let_def eval_simps of_truth_def) code_simp

lemma guarded_deletes_touch_what_policies_allow_witness:
  "\<exists>view. generate_delete_trigger_sql witness_parameters witness_table witness_options = ok view
    \<and> (\<exists>row_filter. run_body witness_row [] (trigger_body view) = Written [ForwardDelete (inner_table_name witness_table witness_options) row_filter])"
  using guarded_deletes_touch_what_policies_allow [OF _ _ _ witness_identity(1), of witness_options witness_row witness_parameters]
  by (auto simp: witness_identity(2) holds_def Let_def)

theorem guarded_updates_touch_what_policies_allow_witness:
  "\<exists>view backing. generate_update_trigger_sql witness_parameters witness_table witness_options = ok view
    \<and> generate_update_check_trigger_sql witness_parameters witness_table witness_options = ok backing
    \<and> run_body witness_row [] (trigger_body view) = Aborted (Some RLS_VIOLATION_ERROR) \<and> backing_stops witness_row backing"
  using guarded_updates_touch_what_policies_allow [OF _ _ _ _ _ _ witness_identity(1), of witness_options witness_row witness_parameters]
  by (auto simp: witness_identity(2) Let_def simp del: witness_fields(3))


end
