(* ===== verification/To_Char.thy ===== *)
theory To_Char
  imports Session_Variables "HOL-Library.Sublist"
begin

text \<open>
  The templates of \<open>to_char\<close> and the formats of \<open>strftime\<close>, \<open>src/src/impls/datetime_helpers.rs\<close>: the scan that
  lowers a template, the reversal, and the date parts of \<open>EXTRACT\<close>. A lowered template asks for the fields
  PostgreSQL reads in it, and a reversed format lowers to itself.
\<close>

section \<open>Date parts\<close>

datatype (plugins only: code size) date_part_key = KeyYear | KeyMonth | KeyDay | KeyHour | KeyMinute | KeySecond | KeyDayOfWeek | KeyDayOfYear | KeyEpoch
  | KeyWeek | KeyIsoYear | KeyIsoDayOfWeek

definition parse_date_part_key :: "string \<Rightarrow> date_part_key option" where
  "parse_date_part_key field =
     (let f = to_ascii_lowercase field in
      if f \<in> {''year'', ''years''} then Some KeyYear
      else if f \<in> {''month'', ''months''} then Some KeyMonth
      else if f \<in> {''day'', ''days''} then Some KeyDay
      else if f \<in> {''hour'', ''hours''} then Some KeyHour
      else if f \<in> {''minute'', ''minutes''} then Some KeyMinute
      else if f \<in> {''second'', ''seconds''} then Some KeySecond
      else if f \<in> {''dow'', ''weekday''} then Some KeyDayOfWeek
      else if f = ''doy'' then Some KeyDayOfYear
      else if f = ''epoch'' then Some KeyEpoch
      else if f \<in> {''week'', ''weeks''} then Some KeyWeek
      else if f = ''isoyear'' then Some KeyIsoYear
      else if f = ''isodow'' then Some KeyIsoDayOfWeek
      else None)"

text \<open>The fields of the syntax-tree crate that have a key; \<open>FieldOther\<close> is any other.\<close>

datatype (plugins only: code size) datetime_field =
    FieldYear | FieldYears | FieldMonth | FieldMonths | FieldDay | FieldDays | FieldHour | FieldHours | FieldMinute
  | FieldMinutes | FieldSecond | FieldSeconds | FieldDow | FieldDayOfWeek | FieldDoy | FieldDayOfYear | FieldEpoch
  | FieldWeek "string option" | FieldWeeks | FieldIsoWeek | FieldIsoyear | FieldIsodow | FieldOther string

fun datetime_field_key :: "datetime_field \<Rightarrow> date_part_key option" where
  "datetime_field_key FieldYear = Some KeyYear"
| "datetime_field_key FieldYears = Some KeyYear"
| "datetime_field_key FieldMonth = Some KeyMonth"
| "datetime_field_key FieldMonths = Some KeyMonth"
| "datetime_field_key FieldDay = Some KeyDay"
| "datetime_field_key FieldDays = Some KeyDay"
| "datetime_field_key FieldHour = Some KeyHour"
| "datetime_field_key FieldHours = Some KeyHour"
| "datetime_field_key FieldMinute = Some KeyMinute"
| "datetime_field_key FieldMinutes = Some KeyMinute"
| "datetime_field_key FieldSecond = Some KeySecond"
| "datetime_field_key FieldSeconds = Some KeySecond"
| "datetime_field_key FieldDow = Some KeyDayOfWeek"
| "datetime_field_key FieldDayOfWeek = Some KeyDayOfWeek"
| "datetime_field_key FieldDoy = Some KeyDayOfYear"
| "datetime_field_key FieldDayOfYear = Some KeyDayOfYear"
| "datetime_field_key FieldEpoch = Some KeyEpoch"
| "datetime_field_key (FieldWeek _) = Some KeyWeek"
| "datetime_field_key FieldWeeks = Some KeyWeek"
| "datetime_field_key FieldIsoWeek = Some KeyWeek"
| "datetime_field_key FieldIsoyear = Some KeyIsoYear"
| "datetime_field_key FieldIsodow = Some KeyIsoDayOfWeek"
| "datetime_field_key (FieldOther _) = None"

fun strftime_mapping_for_key :: "date_part_key \<Rightarrow> string \<times> sql_type" where
  "strftime_mapping_for_key KeyYear = (''%Y'', TInteger None)"
| "strftime_mapping_for_key KeyMonth = (''%m'', TInteger None)"
| "strftime_mapping_for_key KeyDay = (''%d'', TInteger None)"
| "strftime_mapping_for_key KeyHour = (''%H'', TInteger None)"
| "strftime_mapping_for_key KeyMinute = (''%M'', TInteger None)"
| "strftime_mapping_for_key KeySecond = (''%f'', TReal)"
| "strftime_mapping_for_key KeyDayOfWeek = (''%w'', TInteger None)"
| "strftime_mapping_for_key KeyDayOfYear = (''%j'', TInteger None)"
| "strftime_mapping_for_key KeyEpoch = (''%s'', TReal)"
| "strftime_mapping_for_key KeyWeek = (''%V'', TInteger None)"
| "strftime_mapping_for_key KeyIsoYear = (''%G'', TInteger None)"
| "strftime_mapping_for_key KeyIsoDayOfWeek = (''%u'', TInteger None)"

definition build_subsecond_unixepoch_call :: "expr \<Rightarrow> expr" where
  "build_subsecond_unixepoch_call v = simple_function_expr ''unixepoch'' [v, string_literal ''subsec''] None"

definition build_strftime_call :: "string \<Rightarrow> expr \<Rightarrow> expr" where
  "build_strftime_call format v = simple_function_expr ''strftime'' [string_literal format, v] None"

definition build_date_part_expr :: "date_part_key \<Rightarrow> expr \<Rightarrow> expr" where
  "build_date_part_expr key v =
     (if key = KeyEpoch then build_subsecond_unixepoch_call v
      else let (format_str, cast_type) = strftime_mapping_for_key key in
        ECast PlainCast (build_strftime_call format_str v) cast_type None)"

definition datetime_field_from_strftime_format :: "string \<Rightarrow> datetime_field option" where
  "datetime_field_from_strftime_format format = map_of
     [(''%Y'', FieldYear), (''%m'', FieldMonth), (''%d'', FieldDay), (''%H'', FieldHour), (''%M'', FieldMinute),
      (''%S'', FieldSecond), (''%f'', FieldSecond), (''%s'', FieldEpoch), (''%V'', FieldWeek None), (''%G'', FieldIsoyear),
      (''%u'', FieldIsodow), (''%w'', FieldDayOfWeek), (''%j'', FieldDayOfYear)] format"

section \<open>Templates\<close>

definition TO_CHAR_CODES :: "(string \<times> string) list" where
  "TO_CHAR_CODES = [(''YYYY'', ''%Y''), (''IYYY'', ''%G''), (''IW'', ''%V''), (''ID'', ''%u''), (''HH24'', ''%H''), (''HH12'', ''%I''),
     (''MM'', ''%m''), (''DD'', ''%d''), (''HH'', ''%I''), (''MI'', ''%M''), (''SS'', ''%S'')]"

definition TO_CHAR_SEPARATORS :: "char list" where
  "TO_CHAR_SEPARATORS = ''-:./,_ T''"

definition unsupported_template :: "string \<Rightarrow> string \<Rightarrow> 'a tres" where
  "unsupported_template pg_format reason =
     refuse (ForwardRefusal (''to_char format '' @ [CHR 0x27] @ pg_format @ [CHR 0x27] @ '' '' @ reason))"

definition bare_t_is_literal :: "string \<Rightarrow> bool" where
  "bare_t_is_literal rest = (case rest of _ # c # _ \<Rightarrow> c \<noteq> CHR ''H'' \<and> c \<noteq> CHR ''M'' | _ \<Rightarrow> True)"

definition push_quoted_literal :: "string \<Rightarrow> string \<Rightarrow> string tres" where
  "push_quoted_literal literal pg_format =
     (if CHR 0x5C \<in> set literal
      then unsupported_template pg_format ''escapes a character inside a quoted run with a backslash, which this translation does not read.''
      else ok (concat (map (\<lambda>c. if c = CHR ''%'' then ''%%'' else [c]) literal)))"

definition separator_reason :: "char \<Rightarrow> string" where
  "separator_reason c = ''contains '' @ [CHR 0x27, c, CHR 0x27] @ ''. Supported codes: YYYY, IYYY, IW, ID, MM, DD, HH24, HH12, HH, MI, SS. ''
     @ ''Supported separators: - : . / , _ (space) T, and any text in double quotes. For number formatting codes (9, 0, FM, L, ...) ''
     @ ''use printf() or CAST.''"

definition fraction_reason :: "string \<Rightarrow> string" where
  "fraction_reason tcode = ''contains the fractional-seconds code '' @ [CHR 0x27] @ tcode @ [CHR 0x27]
     @ ''. SQLite strftime has no sub-second specifier; the finest resolution is SS (whole seconds). Three-digit milliseconds can be ''
     @ ''extracted with printf('' @ [CHR 0x27] @ ''%.3f'' @ [CHR 0x27] @ '', unixepoch(ts, '' @ [CHR 0x27] @ ''subsec'' @ [CHR 0x27] @ '') %% 1).''"

lemma to_char_code_found:
  assumes "find (\<lambda>(tcode, _). starts_with tcode s) TO_CHAR_CODES = Some (tcode, spec)"
  shows "2 \<le> length tcode" "starts_with tcode s" "(tcode, spec) \<in> set TO_CHAR_CODES"
  using find_member [OF assms] by (auto simp: TO_CHAR_CODES_def)

function lower_template :: "string \<Rightarrow> string \<Rightarrow> string tres" where
  "lower_template pg_format rest =
     (case rest of
        [] \<Rightarrow> ok []
      | character # after \<Rightarrow>
          if character = CHR 0x22 then
            (case split_once (CHR 0x22) after of
               None \<Rightarrow> unsupported_template pg_format (''carries an unterminated quote. A literal run is written '' @ [CHR 0x22] @ ''like this'' @ [CHR 0x22] @ ''.'')
             | Some (literal, rest') \<Rightarrow>
                 res_bind (push_quoted_literal literal pg_format) (\<lambda>pushed.
                 res_bind (lower_template pg_format rest') (\<lambda>result. ok (pushed @ result))))
          else case find (\<lambda>(tcode, _). starts_with tcode rest) TO_CHAR_CODES of
              Some (tcode, specifier) \<Rightarrow> res_bind (lower_template pg_format (drop (length tcode) rest)) (\<lambda>result. ok (specifier @ result))
            | None \<Rightarrow>
                if starts_with ''YY'' rest then unsupported_template pg_format (''asks for the two-digit year YY, which SQLite has no ''
                  @ ''specifier for: its strftime answers NULL for '' @ [CHR 0x27] @ ''%y'' @ [CHR 0x27] @ ''. Use YYYY.'')
                else if starts_with ''MS'' rest \<or> starts_with ''US'' rest
                then unsupported_template pg_format (fraction_reason (if starts_with ''MS'' rest then ''MS'' else ''US''))
                else if character = CHR ''T'' \<and> \<not> bare_t_is_literal rest
                then unsupported_template pg_format (''carries a bare T before an hour or a minute, which PostgreSQL reads as the start of TH ''
                  @ ''or TM rather than as a separator. Write the ISO separator as '' @ [CHR 0x22] @ ''T'' @ [CHR 0x22] @ ''.'')
                else if character \<notin> set TO_CHAR_SEPARATORS then unsupported_template pg_format (separator_reason character)
                else res_bind (lower_template pg_format after) (\<lambda>result. ok (character # result)))"
  by pat_completeness auto

termination lower_template
proof (relation "measure (\<lambda>(_, rest). length rest)", goal_cases)
qed (auto dest!: split_once_SomeD to_char_code_found(1))

declare lower_template.simps [simp del]

definition pg_to_char_format_to_strftime :: "string \<Rightarrow> string tres" where
  "pg_to_char_format_to_strftime pg_format = lower_template pg_format pg_format"

fun strftime_format_to_pg_to_char :: "string \<Rightarrow> string option" where
  "strftime_format_to_pg_to_char [] = Some []"
| "strftime_format_to_pg_to_char (c # chars) =
     (if c = CHR ''%'' then
        (case chars of
           [] \<Rightarrow> None
         | spec # chars' \<Rightarrow>
             if spec = CHR ''y'' then None
             else case find (\<lambda>(_, strftime). ends_with [spec] strftime) TO_CHAR_CODES of
                 None \<Rightarrow> None
               | Some (tcode, _) \<Rightarrow> map_option (\<lambda>template. tcode @ template) (strftime_format_to_pg_to_char chars'))
      else if c = CHR ''T'' then map_option (\<lambda>template. [CHR 0x22, CHR ''T'', CHR 0x22] @ template) (strftime_format_to_pg_to_char chars)
      else if c \<in> set TO_CHAR_SEPARATORS then map_option ((#) c) (strftime_format_to_pg_to_char chars)
      else None)"


section \<open>What a template and a format ask for\<close>

text \<open>The fields of a timestamp a template or a format may ask for, and the characters it copies. \<open>AskPg\<close> and
  \<open>AskSqlite\<close> are the codes only one of the two has.\<close>

datatype (plugins only: code size) date_ask = AskYear | AskIsoYear | AskIsoWeek | AskIsoDay | AskHour24 | AskHour12 | AskMonth | AskDay | AskMinute | AskSecond
  | AskPg string | AskSqlite char | Copy char

text \<open>PostgreSQL's template codes, in the order its scanner tries them: a longer code before its prefixes.\<close>

definition PG_CODES :: "string list" where
  "PG_CODES = [''A.D.'', ''A.M.'', ''AD'', ''AM'', ''B.C.'', ''BC'', ''CC'', ''DAY'', ''DDD'', ''DD'', ''DY'', ''Day'', ''Dy'', ''D'', ''FF1'', ''FF2'',
     ''FF3'', ''FF4'', ''FF5'', ''FF6'', ''FX'', ''HH24'', ''HH12'', ''HH'', ''IDDD'', ''ID'', ''IW'', ''IYYY'', ''IYY'', ''IY'', ''I'', ''J'', ''MI'', ''MM'',
     ''MONTH'', ''MON'', ''MS'', ''Month'', ''Mon'', ''OF'', ''P.M.'', ''PM'', ''Q'', ''RM'', ''SSSSS'', ''SSSS'', ''SS'', ''TZH'', ''TZM'', ''TZ'', ''US'',
     ''WW'', ''W'', ''Y,YYY'', ''YYYY'', ''YYY'', ''YY'', ''Y'', ''a.d.'', ''a.m.'', ''ad'', ''am'', ''b.c.'', ''bc'', ''cc'', ''day'', ''ddd'', ''dd'', ''dy'', ''d'',
     ''ff1'', ''ff2'', ''ff3'', ''ff4'', ''ff5'', ''ff6'', ''fx'', ''hh24'', ''hh12'', ''hh'', ''iddd'', ''id'', ''iw'', ''iyyy'', ''iyy'', ''iy'', ''i'', ''j'',
     ''mi'', ''mm'', ''month'', ''mon'', ''ms'', ''of'', ''p.m.'', ''pm'', ''q'', ''rm'', ''sssss'', ''ssss'', ''ss'', ''tzh'', ''tzm'', ''tz'', ''us'', ''ww'', ''w'',
     ''y,yyy'', ''yyyy'', ''yyy'', ''yy'', ''y'']"

definition pg_code_asks :: "string \<Rightarrow> date_ask" where
  "pg_code_asks c = (case map_of [(''YYYY'', AskYear), (''IYYY'', AskIsoYear), (''IW'', AskIsoWeek), (''ID'', AskIsoDay), (''HH24'', AskHour24),
     (''HH12'', AskHour12), (''HH'', AskHour12), (''MM'', AskMonth), (''DD'', AskDay), (''MI'', AskMinute), (''SS'', AskSecond)] c of
     Some a \<Rightarrow> a | None \<Rightarrow> AskPg c)"

definition PG_MODIFIERS :: "string list" where
  "PG_MODIFIERS = [''FM'', ''TM'', ''TH'', ''th'', ''SP'']"

text \<open>How PostgreSQL reads a template. \<open>None\<close> is a template outside this description: a modifier
  (\<open>FM\<close>, \<open>TM\<close>, \<open>TH\<close>, \<open>th\<close>, \<open>SP\<close>), a backslash, or a quote that does not end.\<close>

function pg_reads :: "string \<Rightarrow> date_ask list option" where
  "pg_reads s =
     (case s of
        [] \<Rightarrow> Some []
      | c # after \<Rightarrow>
          if c = CHR 0x22 then
            (case split_once (CHR 0x22) after of
               None \<Rightarrow> None
             | Some (run, rest) \<Rightarrow>
                 if CHR 0x5C \<in> set run then None else map_option (\<lambda>asks. map Copy run @ asks) (pg_reads rest))
          else if c = CHR 0x5C \<or> list_ex (\<lambda>m. starts_with m s) PG_MODIFIERS then None
          else case find (\<lambda>k. k \<noteq> [] \<and> starts_with k s) PG_CODES of
              Some k \<Rightarrow> map_option ((#) (pg_code_asks k)) (pg_reads (drop (length k) s))
            | None \<Rightarrow> map_option ((#) (Copy c)) (pg_reads after))"
  by pat_completeness auto

termination pg_reads
  by (relation "measure length") (auto dest!: split_once_SomeD find_member)

declare pg_reads.simps [simp del]

text \<open>How SQLite reads a format; \<open>None\<close> is a specifier it does not know, for which \<open>strftime\<close> answers null.\<close>

definition specifier_asks :: "char \<Rightarrow> date_ask option" where
  "specifier_asks c = (case map_of (zip ''YGVuHImdMS'' [AskYear, AskIsoYear, AskIsoWeek, AskIsoDay, AskHour24, AskHour12, AskMonth, AskDay,
     AskMinute, AskSecond]) c of Some a \<Rightarrow> Some a
     | None \<Rightarrow> if c = CHR ''%'' then Some (Copy (CHR ''%'')) else if c \<in> set ''efFgjJklpPRsTUwW'' then Some (AskSqlite c) else None)"

fun sqlite_reads :: "string \<Rightarrow> date_ask list option" where
  "sqlite_reads [] = Some []"
| "sqlite_reads (c # s) =
     (if c \<noteq> CHR ''%'' then map_option ((#) (Copy c)) (sqlite_reads s)
      else case s of [] \<Rightarrow> None
        | k # rest \<Rightarrow> (case specifier_asks k of None \<Rightarrow> None | Some a \<Rightarrow> map_option ((#) a) (sqlite_reads rest)))"

lemma starts_with_iff: "starts_with p s \<longleftrightarrow> (\<exists>t. s = p @ t)"
  by (simp add: starts_with_def)

lemma starts_with_Cons [simp]:
  "starts_with [] s" "starts_with (p # ps) (c # s) \<longleftrightarrow> p = c \<and> starts_with ps s" "\<not> starts_with (p # ps) []"
  by (auto simp: starts_with_iff)

lemma starts_with_append: "starts_with k (c @ t) \<Longrightarrow> starts_with k c \<or> starts_with c k"
  by (auto simp: starts_with_iff append_eq_append_conv2)

lemma find_weaken:
  assumes "find Q xs = Some c" "P c" "\<And>k. k \<in> set xs \<Longrightarrow> P k \<Longrightarrow> Q k"
  shows "find P xs = Some c"
  using assms by (induction xs) (auto split: if_splits)

lemma find_first: "find Q xs = Some c \<Longrightarrow> k \<in> set (takeWhile (\<lambda>x. x \<noteq> c) xs) \<Longrightarrow> \<not> Q k"
  by (induction xs) (auto split: if_splits)

text \<open>Every code lowers to the specifier that asks for the same field.\<close>

lemma codes_ask_alike:
  "list_all (\<lambda>(c, specifier). length specifier = 2 \<and> hd specifier = CHR ''%'' \<and> specifier_asks (specifier ! 1) = Some (pg_code_asks c)) TO_CHAR_CODES"
  by code_simp

text \<open>Save for \<open>DDD\<close>, \<open>IDDD\<close> and the seconds of the day, PostgreSQL knows no code that begins as a lowered one does.\<close>

definition longer_codes :: "string list" where
  "longer_codes = [''DDD'', ''IDDD'', ''SSSSS'', ''SSSS'']"

lemma codes_found_alike:
  "list_all (\<lambda>(c, _). find (\<lambda>k. k \<notin> set longer_codes \<and> \<not> (c = ''HH'' \<and> k \<in> set [''HH24'', ''HH12'']) \<and> k \<noteq> []
     \<and> (starts_with k c \<or> starts_with c k)) PG_CODES = Some c) TO_CHAR_CODES"
  by code_simp

lemma separators_begin_no_code:
  "list_all (\<lambda>c. c \<noteq> CHR 0x22 \<and> c \<noteq> CHR 0x5C \<and> c \<noteq> CHR ''%'') TO_CHAR_SEPARATORS"
  "list_all (\<lambda>k. k \<noteq> [] \<and> (hd k \<in> set TO_CHAR_SEPARATORS \<longrightarrow> hd k = CHR ''T'' \<and> k ! 1 = CHR ''Z'' \<and> 2 \<le> length k)) PG_CODES"
  by code_simp+

lemma codes_begin_no_modifier:
  "list_all (\<lambda>(c, _). \<not> list_ex (\<lambda>m. starts_with m c \<or> starts_with c m) PG_MODIFIERS \<and> c \<noteq> []
     \<and> hd c \<noteq> CHR 0x22 \<and> hd c \<noteq> CHR 0x5C) TO_CHAR_CODES"
  by code_simp

lemma sqlite_reads_doubled:
  "sqlite_reads (concat (map (\<lambda>c. if c = CHR ''%'' then ''%%'' else [c]) run) @ r) = map_option (\<lambda>asks. map Copy run @ asks) (sqlite_reads r)"
  by (induction run) (auto simp: specifier_asks_def option.map_comp comp_def option.map_ident)

lemma sqlite_reads_specifier:
  assumes "(c, specifier) \<in> set TO_CHAR_CODES"
  shows "sqlite_reads (specifier @ r) = map_option ((#) (pg_code_asks c)) (sqlite_reads r)"
proof -
  have l: "length specifier = 2" "hd specifier = CHR ''%''" "specifier_asks (specifier ! 1) = Some (pg_code_asks c)"
    using assms codes_ask_alike by (auto simp: list_all_iff)
  then obtain k where "specifier = [CHR ''%'', k]" by (cases specifier; cases "tl specifier") auto
  then show ?thesis using l(3) by simp
qed

lemma pg_reads_code:
  assumes found: "find (\<lambda>(c, _). starts_with c s) TO_CHAR_CODES = Some (c, specifier)"
    and short: "\<forall>k \<in> set longer_codes. \<not> starts_with k s"
  shows "pg_reads s = map_option ((#) (pg_code_asks c)) (pg_reads (drop (length c) s))"
proof -
  obtain t where s: "s = c @ t" using to_char_code_found(2) [OF found] by (auto simp: starts_with_iff)
  have m: "(c, specifier) \<in> set TO_CHAR_CODES" by (rule to_char_code_found(3) [OF found])
  have hh: "\<not> starts_with k s" if "c = ''HH''" "k \<in> set [''HH24'', ''HH12'']" for k
    using find_first [OF found, of "(k, if k = ''HH24'' then ''%H'' else ''%I'')"] that by (auto simp: TO_CHAR_CODES_def)
  have "find (\<lambda>k. k \<noteq> [] \<and> starts_with k s) PG_CODES = Some c"
  proof (rule find_weaken)
    show "find (\<lambda>k. k \<notin> set longer_codes \<and> \<not> (c = ''HH'' \<and> k \<in> set [''HH24'', ''HH12'']) \<and> k \<noteq> []
        \<and> (starts_with k c \<or> starts_with c k)) PG_CODES = Some c"
      using codes_found_alike m unfolding list_all_iff by blast
    show "c \<noteq> [] \<and> starts_with c s" using codes_begin_no_modifier m s by (auto simp: list_all_iff starts_with_iff)
  qed (use short hh starts_with_append s in blast)
  moreover have "c \<noteq> []" "hd c \<noteq> CHR 0x22" "hd c \<noteq> CHR 0x5C" "\<not> list_ex (\<lambda>k. starts_with k s) PG_MODIFIERS"
    using bspec [OF codes_begin_no_modifier [unfolded list_all_iff] m] starts_with_append [of _ c t] s by (auto simp: list_ex_iff)
  moreover obtain a l where "c = a # l" using \<open>c \<noteq> []\<close> by (cases c) auto
  ultimately show ?thesis using s by (subst pg_reads.simps) simp
qed

lemma pg_reads_separator:
  assumes "c \<in> set TO_CHAR_SEPARATORS" and "c = CHR ''T'' \<longrightarrow> bare_t_is_literal (c # t) \<and> \<not> starts_with ''Z'' t"
  shows "pg_reads (c # t) = map_option ((#) (Copy c)) (pg_reads t)"
proof -
  have "c \<noteq> CHR 0x22" "c \<noteq> CHR 0x5C" using assms(1) separators_begin_no_code(1) by (auto simp: list_all_iff)
  moreover have "find (\<lambda>k. k \<noteq> [] \<and> starts_with k (c # t)) PG_CODES = None"
    unfolding find_None_iff
  proof
    assume "\<exists>k. k \<in> set PG_CODES \<and> k \<noteq> [] \<and> starts_with k (c # t)"
    then obtain k r where k: "k \<in> set PG_CODES" "c # t = k @ r" "k \<noteq> []" by (auto simp: starts_with_iff)
    have "hd k = c" using k(2,3) by (cases k) auto
    then have "c = CHR ''T''" "k ! 1 = CHR ''Z''" "2 \<le> length k" using k(1) assms(1) separators_begin_no_code(2) by (auto simp: list_all_iff)
    then show False using k(2) assms(2) by (cases k; cases "tl k") (auto simp: starts_with_iff)
  qed
  moreover have "\<not> list_ex (\<lambda>m. starts_with m (c # t)) PG_MODIFIERS"
    using assms by (auto simp: TO_CHAR_SEPARATORS_def PG_MODIFIERS_def bare_t_is_literal_def starts_with_iff)
  ultimately show ?thesis by (simp add: pg_reads.simps [of "c # t"])
qed


lemmas lower_template_Cons = lower_template.simps [of f "c # after" for f c after, simplified list.case]

lemma pg_reads_quoted:
  "split_once (CHR 0x22) after = Some (run, rest) \<Longrightarrow> CHR 0x5C \<notin> set run \<Longrightarrow>
    pg_reads (CHR 0x22 # after) = map_option (\<lambda>asks. map Copy run @ asks) (pg_reads rest)"
  by (subst pg_reads.simps) simp

lemma lowered_template_asks_alike:
  assumes "lower_template f s = ok r" "\<not> sublist ''DDD'' s" "\<not> sublist ''SSSS'' s"
  shows "pg_reads s \<noteq> None \<and> sqlite_reads r = pg_reads s"
  using assms
proof (induction f s arbitrary: r rule: lower_template.induct)
  case (1 f s)
  have sub: "\<not> sublist ''DDD'' t \<and> \<not> sublist ''SSSS'' t" if "\<exists>p. s = p @ t" for t
    using that 1(5,6) by (auto intro: sublist_appendI sublist_order.order.trans)
  show ?case
  proof (cases s)
    case Nil
    then show ?thesis using 1(4) by (simp add: lower_template.simps [of f "[]"] pg_reads.simps [of "[]"])
  next
    case (Cons c after)
    note lowered = 1(4) [unfolded Cons lower_template_Cons]
    consider (quote) "c = CHR 0x22" | (coded) x where "c \<noteq> CHR 0x22" "find (\<lambda>(k, _). starts_with k s) TO_CHAR_CODES = Some x"
      | (copied) "c \<noteq> CHR 0x22" "find (\<lambda>(k, _). starts_with k s) TO_CHAR_CODES = None" by blast
    then show ?thesis
    proof cases
      case quote
      then obtain run rest result where q: "split_once (CHR 0x22) after = Some (run, rest)" "CHR 0x5C \<notin> set run"
        "lower_template f rest = ok result" "r = concat (map (\<lambda>c. if c = CHR ''%'' then ''%%'' else [c]) run) @ result"
        using lowered Cons by (auto simp: unsupported_template_def push_quoted_literal_def res_bind_eq_ok split: option.splits if_splits)
      have "\<exists>p. s = p @ rest" using split_once_SomeD [OF q(1)] Cons by (intro exI [of _ "c # run @ [CHR 0x22]"]) simp
      then show ?thesis using 1(1) [OF Cons quote q(1)] q sub Cons quote
        by (auto simp: sqlite_reads_doubled pg_reads_quoted)
    next
      case (coded x)
      obtain k specifier where x: "x = (k, specifier)" by (cases x)
      from lowered coded x Cons obtain result where l: "lower_template f (drop (length k) s) = ok result" "r = specifier @ result"
        by (auto simp: res_bind_eq_ok)
      have m: "(k, specifier) \<in> set TO_CHAR_CODES" using to_char_code_found(3) coded(2) x by blast
      have "\<forall>k \<in> set longer_codes. \<not> starts_with k s"
        using 1(5,6) by (auto simp: longer_codes_def starts_with_iff sublist_Cons_right)
      then have "pg_reads s = map_option ((#) (pg_code_asks k)) (pg_reads (drop (length k) s))" using coded(2) x by (intro pg_reads_code) auto
      moreover have "\<exists>p. s = p @ drop (length k) s" by (metis append_take_drop_id)
      ultimately show ?thesis using 1(3) [OF Cons coded(1,2) x [symmetric]] l sub m by (auto simp: sqlite_reads_specifier)
    next
      case copied
      then obtain result where l: "lower_template f after = ok result" "r = c # result" "c \<in> set TO_CHAR_SEPARATORS"
        "c = CHR ''T'' \<longrightarrow> bare_t_is_literal s" "\<not> starts_with ''YY'' s" "\<not> (starts_with ''MS'' s \<or> starts_with ''US'' s)"
        using lowered Cons by (auto simp: unsupported_template_def res_bind_eq_ok split: if_splits)
      have z: "\<not> starts_with ''Z'' after"
        using l(1) by (auto simp: starts_with_iff lower_template.simps [of f "CHR ''Z'' # _"] unsupported_template_def TO_CHAR_CODES_def TO_CHAR_SEPARATORS_def)
      have "c \<noteq> CHR ''%''" using l(3) separators_begin_no_code(1) by (auto simp: list_all_iff)
      moreover have "pg_reads s = map_option ((#) (Copy c)) (pg_reads after)" using pg_reads_separator l(3,4) z Cons by blast
      moreover have "\<exists>p. s = p @ after" using Cons by (intro exI [of _ "[c]"]) simp
      ultimately show ?thesis using 1(2) [OF Cons copied l(5,6)] l sub Cons by auto
    qed
  qed
qed


section \<open>Properties\<close>

text \<open>The codes PostgreSQL reads and the lowering does not know.\<close>

lemma longer_codes_are_misread:
  "pg_to_char_format_to_strftime ''SSSS'' = ok ''%S%S'' \<and> pg_reads ''SSSS'' = Some [AskPg ''SSSS'']"
  "pg_to_char_format_to_strftime ''IDDD'' = ok ''%u%d'' \<and> pg_reads ''IDDD'' = Some [AskPg ''IDDD'']"
  by code_simp+

text \<open>
  C29. A \<open>to_char\<close> template that is lowered asks, as the \<open>strftime\<close> format it becomes, for the fields PostgreSQL
  reads in it, in the same order and with the same text between them, and SQLite knows every specifier of
  it; this for templates without the longer codes \<open>DDD\<close> and \<open>SSSS\<close>, which the scan takes apart.
\<close>

theorem lowered_templates_ask_for_the_same_fields:
  assumes "pg_to_char_format_to_strftime template = ok format" "\<not> sublist ''DDD'' template" "\<not> sublist ''SSSS'' template"
  shows "\<exists>asks. pg_reads template = Some asks \<and> sqlite_reads format = Some asks"
  using lowered_template_asks_alike [of template template format] assms by (auto simp: pg_to_char_format_to_strftime_def)

theorem lowered_templates_ask_for_the_same_fields_witness:
  "\<exists>asks. pg_reads ''YYYY-MM-DD HH24:MI'' = Some asks \<and> sqlite_reads ''%Y-%m-%d %H:%M'' = Some asks"
proof (rule lowered_templates_ask_for_the_same_fields)
  show "pg_to_char_format_to_strftime ''YYYY-MM-DD HH24:MI'' = ok ''%Y-%m-%d %H:%M''" by code_simp
qed code_simp+

text \<open>What the reversal writes for a specifier is found again by the scan, whatever follows it.\<close>

lemma reversed_codes_found_again:
  "list_all (\<lambda>(c, specifier). c = ''HH'' \<or> (find (\<lambda>(k, _). starts_with k c \<or> starts_with c k) TO_CHAR_CODES = Some (c, specifier)) \<and> hd c \<noteq> CHR 0x22)
     TO_CHAR_CODES"
  "list_all (\<lambda>(c, specifier). case find (\<lambda>(_, s). ends_with [specifier ! 1] s) TO_CHAR_CODES of
     Some (c', specifier') \<Rightarrow> c' \<noteq> ''HH'' \<and> specifier' = specifier | None \<Rightarrow> False) TO_CHAR_CODES"
  by code_simp+

lemma lower_template_code:
  assumes "(c, specifier) \<in> set TO_CHAR_CODES" "c \<noteq> ''HH''"
  shows "lower_template f (c @ t) = res_bind (lower_template f t) (\<lambda>result. ok (specifier @ result))"
proof -
  have c: "find (\<lambda>(k, _). starts_with k c \<or> starts_with c k) TO_CHAR_CODES = Some (c, specifier)" "hd c \<noteq> CHR 0x22"
    using bspec [OF reversed_codes_found_again(1) [unfolded list_all_iff] assms(1)] assms(2) by auto
  have "find (\<lambda>(k, _). starts_with k (c @ t)) TO_CHAR_CODES = Some (c, specifier)"
    by (rule find_weaken [OF c(1)]) (auto simp: starts_with_iff append_eq_append_conv2)
  moreover have "c \<noteq> []" using bspec [OF codes_begin_no_modifier [unfolded list_all_iff] assms(1)] by auto
  ultimately show ?thesis using c(2) by (cases c) (simp_all add: lower_template_Cons)
qed

lemma separators_begin_no_lowered_code:
  "list_all (\<lambda>k. k \<noteq> [] \<and> hd k \<notin> set TO_CHAR_SEPARATORS) ([''YY'', ''MS'', ''US''] @ map fst TO_CHAR_CODES)"
  by code_simp

lemma reversed_template_lowers:
  "strftime_format_to_pg_to_char format = Some template \<Longrightarrow> lower_template f template = ok format"
proof (induction format arbitrary: template rule: strftime_format_to_pg_to_char.induct)
  case 1
  then show ?case by (simp add: lower_template.simps [of f "[]"])
next
  case (2 c chars)
  consider (spec) "c = CHR ''%''" | (t) "c = CHR ''T''" | (sep) "c \<noteq> CHR ''%''" "c \<noteq> CHR ''T''" by blast
  then show ?case
  proof cases
    case spec
    then obtain k rest tc s rt where k: "chars = k # rest" "k \<noteq> CHR ''y''" "find (\<lambda>(_, strftime). ends_with [k] strftime) TO_CHAR_CODES = Some (tc, s)"
      "strftime_format_to_pg_to_char rest = Some rt" "template = tc @ rt"
      using 2(4) by (auto split: list.splits if_splits option.splits)
    have m: "(tc, s) \<in> set TO_CHAR_CODES" "ends_with [k] s" using find_member [OF k(3)] by auto
    then have s: "s = [CHR ''%'', k]"
      using bspec [OF codes_ask_alike [unfolded list_all_iff] m(1)] by (cases s; cases "tl s") (auto simp: ends_with_def)
    have "tc \<noteq> ''HH''" using bspec [OF reversed_codes_found_again(2) [unfolded list_all_iff] m(1)] k(3) s by auto
    then show ?thesis using 2(1) [OF spec k(1,2,3)] k m s spec by (simp add: lower_template_code)
  next
    case t
    then obtain rt where "strftime_format_to_pg_to_char chars = Some rt" "template = [CHR 0x22, CHR ''T'', CHR 0x22] @ rt" using 2(4) by auto
    then show ?thesis using 2(2) t by (simp add: lower_template_Cons push_quoted_literal_def)
  next
    case sep
    then obtain rt where rt: "strftime_format_to_pg_to_char chars = Some rt" "template = c # rt" "c \<in> set TO_CHAR_SEPARATORS"
      using 2(4) by (auto split: if_splits)
    have "\<not> starts_with k (c # rt)" if "k \<noteq> []" "hd k \<notin> set TO_CHAR_SEPARATORS" for k using that rt(3) by (cases k) auto
    then have none: "find (\<lambda>(k, _). starts_with k (c # rt)) TO_CHAR_CODES = None" "\<not> starts_with ''YY'' (c # rt)" "\<not> starts_with ''MS'' (c # rt)"
      "\<not> starts_with ''US'' (c # rt)"
      using separators_begin_no_lowered_code rt(3) by (auto simp: find_None_iff list_all_iff)
    have "c \<noteq> CHR 0x22" using rt(3) separators_begin_no_code(1) by (auto simp: list_all_iff)
    then show ?thesis using 2(3) [OF sep rt(3)] rt sep none by (simp add: lower_template_Cons del: starts_with_Cons)
  qed
qed


text \<open>
  A \<open>strftime\<close> format that is reversed to a \<open>to_char\<close> template is what that template is lowered to, and the
  template asks PostgreSQL for what the format asks SQLite for, the longer codes aside.
\<close>

lemma reversed_formats_lower_to_themselves:
  assumes "strftime_format_to_pg_to_char format = Some template"
  shows "pg_to_char_format_to_strftime template = ok format
    \<and> (\<not> sublist ''DDD'' template \<longrightarrow> \<not> sublist ''SSSS'' template \<longrightarrow> pg_reads template = sqlite_reads format)"
  using reversed_template_lowers [OF assms] lowered_template_asks_alike [of template template format]
  by (simp add: pg_to_char_format_to_strftime_def)

lemma reversed_formats_lower_to_themselves_witness:
  "pg_to_char_format_to_strftime ([CHR ''D'', CHR ''D'', CHR 0x22, CHR ''T'', CHR 0x22] @ ''HH24'') = ok ''%dT%H''"
proof -
  have "strftime_format_to_pg_to_char ''%dT%H'' = Some ([CHR ''D'', CHR ''D'', CHR 0x22, CHR ''T'', CHR 0x22] @ ''HH24'')" by code_simp
  from reversed_formats_lower_to_themselves [OF this] show ?thesis by simp
qed

text \<open>A field and its specifier: what \<open>EXTRACT\<close> emits is read back as a field of the same key.\<close>

lemma extracted_fields_read_back:
  "key \<noteq> KeyEpoch \<Longrightarrow> build_date_part_expr key v = ECast PlainCast (build_strftime_call (fst (strftime_mapping_for_key key)) v)
       (snd (strftime_mapping_for_key key)) None
     \<and> Option.bind (datetime_field_from_strftime_format (fst (strftime_mapping_for_key key))) datetime_field_key = Some key"
  by (cases key) (simp_all add: build_date_part_expr_def datetime_field_from_strftime_format_def)

end
