(* ===== verification/Closed_Forms.thy ===== *)
theory Closed_Forms
  imports Minor_Units Substrings
begin

text \<open>
  The functions SQLite lacks and \<open>src/src/impls/translator_impls/function.rs\<close> writes out in place: \<open>greatest\<close> and
  \<open>least\<close>, \<open>left\<close> and \<open>right\<close>, \<open>concat\<close> and \<open>concat_ws\<close>, and the \<open>make_\<close> functions. Evaluated by SQLite's rules each
  emitted expression answers what PostgreSQL answers, nulls included.
\<close>

section \<open>Arguments\<close>

fun function_arg_expr :: "func_arg \<Rightarrow> expr option" where
  "function_arg_expr (ArgUnnamed (ArgExpr e)) = Some e"
| "function_arg_expr (ArgNamed _ (ArgExpr e)) = Some e"
| "function_arg_expr (ArgExprNamed _ (ArgExpr e)) = Some e"
| "function_arg_expr _ = None"

definition function_argument_exprs :: "func_args \<Rightarrow> expr list" where
  "function_argument_exprs args = (case args of ArgsList _ as _ \<Rightarrow> List.map_filter function_arg_expr as | _ \<Rightarrow> [])"

definition extract_exactly_with :: "func_args \<Rightarrow> nat \<Rightarrow> string \<Rightarrow> (string \<Rightarrow> translate_error) \<Rightarrow> expr list tres" where
  "extract_exactly_with args count func_name refusal =
     (let exprs = function_argument_exprs args in
      if length exprs \<noteq> count
      then refuse (refusal (func_name @ ''() requires exactly '' @ show_nat count @ '' argument'' @ (if count = 1 then [] else ''s'')))
      else ok exprs)"

definition extract_exactly :: "func_args \<Rightarrow> nat \<Rightarrow> string \<Rightarrow> expr list tres" where
  "extract_exactly args count func_name = extract_exactly_with args count func_name ForwardRefusal"

definition extract_exactly_reverse :: "func_args \<Rightarrow> nat \<Rightarrow> string \<Rightarrow> expr list tres" where
  "extract_exactly_reverse args count func_name = extract_exactly_with args count func_name ReverseRefusal"

text \<open>The operands in order, up to the first that is refused.\<close>

fun try_map_each :: "('a \<Rightarrow> ('e, 'b) res) \<Rightarrow> 'a list \<Rightarrow> ('e, 'b list) res" where
  "try_map_each f [] = ok []"
| "try_map_each f (x # xs) = res_bind (f x) (\<lambda>y. res_bind (try_map_each f xs) (\<lambda>ys. ok (y # ys)))"

definition require_replayable_all :: "operand_parameters \<Rightarrow> string \<Rightarrow> expr list \<Rightarrow> unit tres" where
  "require_replayable_all par label operands = (case find (\<lambda>e. \<not> replays par e) operands of
     Some e \<Rightarrow> refuse (ForwardRefusal (reject_duplicated_operand (show_expr par) label e))
   | None \<Rightarrow> ok ())"

section \<open>The emitted forms\<close>

definition null_ignoring_extremum :: "expr list \<Rightarrow> bool \<Rightarrow> string \<Rightarrow> expr tres" where
  "null_ignoring_extremum arguments greatest label =
     (case arguments of
        [] \<Rightarrow> refuse (ForwardRefusal (label @ '' needs at least one argument''))
      | first # rest \<Rightarrow>
          if rest = [] then ok first
          else ok (simple_function_expr (if greatest then ''MAX'' else ''MIN'')
            (map (\<lambda>start. simple_function_expr ''coalesce'' (rotate start arguments) None) [0..<length arguments]) None))"

definition left_closed_form :: "expr \<Rightarrow> expr \<Rightarrow> expr" where
  "left_closed_form s n =
     (let from_end = simple_function_expr ''max'' [EBinaryOp (simple_function_expr ''length'' [s] None) OpPlus n, integer_literal 0] None;
        len = case_when (EBinaryOp n OpLt (integer_literal 0)) from_end (Some n)
      in simple_function_expr ''substr'' [s, integer_literal 1, len] None)"

definition right_closed_form :: "expr \<Rightarrow> expr \<Rightarrow> expr" where
  "right_closed_form s n =
     (let drop_from_front = EBinaryOp (integer_literal 1) OpMinus n;
        last_n = simple_function_expr ''max'' [EBinaryOp (EBinaryOp (simple_function_expr ''length'' [s] None) OpMinus n) OpPlus (integer_literal 1),
          integer_literal 1] None;
        start = case_when (EBinaryOp n OpLt (integer_literal 0)) drop_from_front (Some last_n)
      in simple_function_expr ''substr'' [s, start] None)"

definition wrap_with_coalesce :: "expr \<Rightarrow> expr" where
  "wrap_with_coalesce e = simple_function_expr ''COALESCE'' [e, string_literal []] None"

definition build_concatenation :: "expr list \<Rightarrow> expr option" where
  "build_concatenation exprs = (case exprs of [] \<Rightarrow> None | first # rest \<Rightarrow> Some (foldl (\<lambda>acc e. EBinaryOp acc OpStringConcat e) first rest))"

definition any_not_null_condition :: "expr list \<Rightarrow> expr option" where
  "any_not_null_condition exprs = (case exprs of [] \<Rightarrow> None
     | first # rest \<Rightarrow> Some (foldl (\<lambda>condition e. EBinaryOp condition OpOr (EIsNotNull e)) (EIsNotNull first) rest))"

definition build_concat_ws_piece :: "expr \<Rightarrow> expr \<Rightarrow> expr list \<Rightarrow> expr" where
  "build_concat_ws_piece v separator prior_values =
     (let prefixed_value = (case any_not_null_condition prior_values of
          Some has_prior_non_null \<Rightarrow> EBinaryOp (case_when has_prior_non_null separator (Some (string_literal []))) OpStringConcat v
        | None \<Rightarrow> v)
      in case_when (EIsNull v) (string_literal []) (Some prefixed_value))"

fun concat_ws_pieces :: "expr \<Rightarrow> expr list \<Rightarrow> expr list \<Rightarrow> expr list" where
  "concat_ws_pieces separator prior_values [] = []"
| "concat_ws_pieces separator prior_values (v # vs) =
     build_concat_ws_piece v separator prior_values # concat_ws_pieces separator (prior_values @ [v]) vs"

definition build_concat_ws_expression :: "expr \<Rightarrow> expr list \<Rightarrow> expr option" where
  "build_concat_ws_expression separator vs =
     map_option (\<lambda>concatenated. case_when (EIsNull separator) (EValue LNull) (Some concatenated))
       (build_concatenation (concat_ws_pieces separator [] vs))"

definition rendered_seconds :: "expr \<Rightarrow> expr" where
  "rendered_seconds seconds =
     (let is_whole = EBinaryOp seconds OpEq (ECast PlainCast seconds (TInteger None) None);
        whole = simple_function_expr ''printf'' [string_literal ''%02d'', seconds] None;
        fractional = simple_function_expr ''rtrim'' [simple_function_expr ''rtrim''
          [simple_function_expr ''printf'' [string_literal ''%09.6f'', seconds] None, string_literal ''0''] None, string_literal ''.''] None
      in case_when is_whole whole (Some fractional))"

definition make_closed_form :: "string \<Rightarrow> expr list \<Rightarrow> bool \<Rightarrow> expr tres" where
  "make_closed_form format parts fractional_seconds =
     (if parts = [] then Inl Panic
      else let (head, seconds) = (if fractional_seconds then (butlast parts, Some (last parts)) else (parts, None));
          printed = simple_function_expr ''printf'' (string_literal format # head) None;
          body = (case seconds of Some s \<Rightarrow> EBinaryOp printed OpStringConcat (rendered_seconds s) | None \<Rightarrow> printed);
          present = foldl (\<lambda>l p. EBinaryOp l OpAnd (EIsNotNull p)) (EIsNotNull (hd parts)) (tl parts)
        in ok (case_when present body None))"

text \<open>\<open>scale_of\<close> is the scale of an operand held as minor units, which the schema tells.\<close>

definition concatenated_operand :: "operand_parameters \<Rightarrow> (expr \<Rightarrow> nat option) \<Rightarrow> expr \<Rightarrow> expr tres" where
  "concatenated_operand par scale_of e =
     res_bind (tr par e) (\<lambda>translated.
       case scale_of e of
         None \<Rightarrow> ok translated
       | Some scale \<Rightarrow>
           if scale = 0 then ok translated
           else if \<not> replays par translated
           then refuse (ForwardRefusal (reject_duplicated_operand (show_expr par) ''concat over a NUMERIC value'' translated))
           else ok (render_minor_units_as_text translated scale))"

section \<open>The functions\<close>

definition translate_concat :: "operand_parameters \<Rightarrow> (expr \<Rightarrow> nat option) \<Rightarrow> func_args \<Rightarrow> expr tres" where
  "translate_concat par scale_of args =
     res_bind (try_map_each (concatenated_operand par scale_of) (function_argument_exprs args)) (\<lambda>exprs.
       ok_or (build_concatenation (map wrap_with_coalesce exprs)) (ForwardRefusal ''CONCAT requires at least one argument''))"

definition translate_concat_ws :: "operand_parameters \<Rightarrow> (expr \<Rightarrow> nat option) \<Rightarrow> func_args \<Rightarrow> expr tres" where
  "translate_concat_ws par scale_of args =
     res_bind (try_map_each (concatenated_operand par scale_of) (function_argument_exprs args)) (\<lambda>exprs.
       if length exprs < 2 then refuse (ForwardRefusal ''CONCAT_WS requires at least two arguments (separator and one value)'')
       else ok_or (build_concat_ws_expression (hd exprs) (tl exprs)) (ForwardRefusal ''CONCAT_WS requires at least one value argument''))"

definition translate_left_right :: "operand_parameters \<Rightarrow> string \<Rightarrow> (expr \<Rightarrow> expr \<Rightarrow> expr) \<Rightarrow> func_args \<Rightarrow> expr tres" where
  "translate_left_right par label form args =
     res_bind (extract_exactly args 2 label) (\<lambda>exprs.
     res_bind (tr par (exprs ! 0)) (\<lambda>s.
     res_bind (tr par (exprs ! 1)) (\<lambda>n.
     res_bind (require_replayable_all par label [n, s]) (\<lambda>_. ok (form s n)))))"

definition translate_left :: "operand_parameters \<Rightarrow> func_args \<Rightarrow> expr tres" where
  "translate_left par args = translate_left_right par ''left'' left_closed_form args"

definition translate_right :: "operand_parameters \<Rightarrow> func_args \<Rightarrow> expr tres" where
  "translate_right par args = translate_left_right par ''right'' right_closed_form args"

definition translate_extremum :: "operand_parameters \<Rightarrow> bool \<Rightarrow> func_args \<Rightarrow> expr tres" where
  "translate_extremum par greatest args =
     (let label = (if greatest then ''greatest'' else ''least'') in
      res_bind (try_map_each (tr par) (function_argument_exprs args)) (\<lambda>arguments.
      res_bind (if 2 \<le> length arguments then require_replayable_all par label arguments else ok ()) (\<lambda>_.
        null_ignoring_extremum arguments greatest label)))"

definition translate_make :: "operand_parameters \<Rightarrow> string \<Rightarrow> nat \<Rightarrow> string \<Rightarrow> bool \<Rightarrow> func_args \<Rightarrow> expr tres" where
  "translate_make par format arg_count func_label fractional_seconds args =
     res_bind (extract_exactly args arg_count func_label) (\<lambda>exprs.
     res_bind (try_map_each (tr par) exprs) (\<lambda>translated.
     res_bind (require_replayable_all par func_label translated) (\<lambda>_. make_closed_form format translated fractional_seconds)))"

section \<open>Greatest and least\<close>

text \<open>PostgreSQL ignores nulls; the answer is null only when every argument is.\<close>

definition pg_extremum :: "(int \<Rightarrow> int \<Rightarrow> int) \<Rightarrow> sval list \<Rightarrow> sval" where
  "pg_extremum f vs = (case List.map_filter int_of vs of [] \<Rightarrow> SNull | n # ns \<Rightarrow> SInt (foldl f n ns))"

lemma foldl_max: "foldl max n ns = Max (set (n # ns))" for n :: int
proof (induction ns arbitrary: n)
  case (Cons m ns)
  have "Max (set (max n m # ns)) = Max (set (n # m # ns))" by (cases "ns = []") (simp_all add: max.assoc)
  then show ?case using Cons.IH [of "max n m"] by simp
qed simp

lemma foldl_min: "foldl min n ns = Min (set (n # ns))" for n :: int
proof (induction ns arbitrary: n)
  case (Cons m ns)
  have "Min (set (min n m # ns)) = Min (set (n # m # ns))" by (cases "ns = []") (simp_all add: min.assoc)
  then show ?case using Cons.IH [of "min n m"] by simp
qed simp

lemma extremum_of_set:
  assumes "f = max \<or> f = min" "set (n # ns) = set (m # ms)"
  shows "foldl f n ns = foldl f m (ms :: int list)"
  using assms(1) by (metis assms(2) foldl_max foldl_min)

text \<open>A rotation starts at its own argument, so a slot is that argument when it is not null.\<close>

lemma coalesced_rotation:
  assumes "i < length vs" "2 \<le> length vs"
  shows "\<exists>v. coalesce_call (rotate i vs) = Some v \<and> (vs ! i \<noteq> SNull \<longrightarrow> v = vs ! i) \<and> v \<in> set vs \<and> (v = SNull \<longrightarrow> set vs = {SNull})"
proof -
  have h: "rotate i vs = vs ! i # tl (rotate i vs)"
    using assms by (metis hd_rotate_conv_nth mod_less list.collapse list.size(3) length_rotate not_less_zero)
  have s: "set (rotate i vs) = set vs" by simp
  define v where "v = (case find (\<lambda>v. v \<noteq> SNull) (rotate i vs) of Some v \<Rightarrow> v | None \<Rightarrow> SNull)"
  have "coalesce_call (rotate i vs) = Some v" using assms(2) by (simp add: coalesce_call_def v_def)
  moreover have "v = vs ! i" if "vs ! i \<noteq> SNull" using that by (subst v_def, subst h) simp
  moreover have "v \<in> set vs \<and> (v = SNull \<longrightarrow> set vs = {SNull})"
  proof (cases "find (\<lambda>v. v \<noteq> SNull) (rotate i vs)")
    case None
    then have "\<forall>x \<in> set vs. x = SNull" using s by (auto simp: find_None_iff)
    then have "set vs = {SNull}" using assms(1) by (cases vs) auto
    then show ?thesis using None by (simp add: v_def)
  next
    case (Some x)
    then show ?thesis using find_member [OF Some] s by (simp add: v_def)
  qed
  ultimately show ?thesis by (intro exI [of _ v]) (elim conjE, intro conjI impI, simp_all)
qed

lemma coalesced_slots:
  assumes "2 \<le> length vs"
  shows "\<exists>ws. map (\<lambda>i. coalesce_call (rotate i vs)) [0..<length vs] = map Some ws
    \<and> (if set vs = {SNull} then set ws = {SNull} else set ws = set vs - {SNull})"
proof -
  define ws where "ws = map (\<lambda>i. the (coalesce_call (rotate i vs))) [0..<length vs]"
  have slot: "coalesce_call (rotate i vs) = Some (ws ! i) \<and> (vs ! i \<noteq> SNull \<longrightarrow> ws ! i = vs ! i) \<and> ws ! i \<in> set vs
      \<and> (ws ! i = SNull \<longrightarrow> set vs = {SNull})" if i: "i < length vs" for i
  proof -
    have "ws ! i = the (coalesce_call (rotate i vs))" using i by (simp add: ws_def)
    moreover obtain v where "coalesce_call (rotate i vs) = Some v" "vs ! i \<noteq> SNull \<longrightarrow> v = vs ! i" "v \<in> set vs" "v = SNull \<longrightarrow> set vs = {SNull}"
      using coalesced_rotation [OF i assms] by (elim exE conjE)
    ultimately show ?thesis by simp
  qed
  have w: "coalesce_call (rotate i vs) = Some (ws ! i)" "vs ! i \<noteq> SNull \<Longrightarrow> ws ! i = vs ! i"
    "ws ! i \<in> set vs" "ws ! i = SNull \<longrightarrow> set vs = {SNull}" if "i < length vs" for i
    using slot [OF that] by auto
  have "map (\<lambda>i. coalesce_call (rotate i vs)) [0..<length vs] = map Some ws"
    using w(1) by (intro nth_equalityI) (auto simp: ws_def)
  moreover have len: "length ws = length vs" by (simp add: ws_def)
  moreover have "set ws = {SNull}" if "set vs = {SNull}"
    using that w(3) len assms by (auto simp: in_set_conv_nth) (metis le_eq_less_or_eq less_le_trans pos2)
  moreover have "set ws = set vs - {SNull}" if "set vs \<noteq> {SNull}"
  proof
    show "set ws \<subseteq> set vs - {SNull}"
    proof
      fix v assume "v \<in> set ws"
      then obtain i where "i < length vs" "v = ws ! i" using len by (auto simp: in_set_conv_nth)
      then show "v \<in> set vs - {SNull}" using w(3) [of i] w(4) [of i] that by simp
    qed
    show "set vs - {SNull} \<subseteq> set ws"
    proof
      fix v assume "v \<in> set vs - {SNull}"
      then obtain i where "i < length vs" "vs ! i = v" "v \<noteq> SNull" by (auto simp: in_set_conv_nth)
      then show "v \<in> set ws" using w(2) len by (auto simp: in_set_conv_nth)
    qed
  qed
  ultimately show ?thesis by auto
qed


lemma extremum_value:
  assumes "null_ignoring_extremum args greatest label = ok e" "\<forall>a \<in> set args. sqlite_eval env a = SNull \<or> (\<exists>n. sqlite_eval env a = SInt n)"
  shows "sqlite_eval env e = pg_extremum (if greatest then max else min) (map (sqlite_eval env) args)"
proof -
  let ?f = "if greatest then max else min :: int \<Rightarrow> int \<Rightarrow> int" and ?vs = "map (sqlite_eval env) args"
  have ints: "\<forall>v \<in> set ?vs. v = SNull \<or> (\<exists>n. v = SInt n)" using assms(2) by auto
  show ?thesis
  proof (cases "length args < 2")
    case True
    then obtain a where "args = [a]" using assms(1) by (cases args; cases "tl args") (auto simp: null_ignoring_extremum_def)
    then show ?thesis using assms by (auto simp: null_ignoring_extremum_def pg_extremum_def map_filter_def)
  next
    case False
    then obtain ws where ws: "map (\<lambda>i. coalesce_call (rotate i ?vs)) [0..<length ?vs] = map Some ws"
      "if set ?vs = {SNull} then set ws = {SNull} else set ws = set ?vs - {SNull}"
      using coalesced_slots [of ?vs] by auto
    have len: "length ws = length args" using arg_cong [OF ws(1), of length] by simp
    define slots where "slots = map (\<lambda>start. simple_function_expr ''coalesce'' (rotate start args) None) [0..<length args]"
    have "map (sqlite_eval env) slots = ws"
    proof (rule nth_equalityI)
      fix i assume "i < length (map (sqlite_eval env) slots)"
      then have i: "i < length args" by (simp add: slots_def)
      have "coalesce_call (rotate i ?vs) = Some (ws ! i)" using arg_cong [OF ws(1), of "\<lambda>l. l ! i"] i len by simp
      then show "map (sqlite_eval env) slots ! i = ws ! i" using i by (simp add: slots_def eval_function rotate_map [symmetric])
    qed (simp add: slots_def len)
    moreover have "e = simple_function_expr (if greatest then ''MAX'' else ''MIN'') slots None"
      using assms(1) False by (cases args) (auto simp: null_ignoring_extremum_def slots_def split: if_splits)
    ultimately have e: "sqlite_eval env e = or_env (largest ?f ws) (env e)" by (simp add: eval_function)
    show ?thesis
    proof (cases "set ?vs = {SNull}")
      case True
      then have "set ws = {SNull}" using ws(2) by simp
      then have "largest ?f ws = Some SNull" using len False by (auto simp: largest_def list_ex_iff)
      moreover have "List.map_filter int_of ?vs = []" using True by (auto simp: map_filter_def filter_empty_conv)
      ultimately show ?thesis using e by (simp add: pg_extremum_def)
    next
      case nonnull: False
      then have set: "set ws = set ?vs - {SNull}" using ws(2) by simp
      have same: "set (List.map_filter int_of ws) = set (List.map_filter int_of ?vs)" using set by (auto simp: map_filter_def)
      have "ws \<noteq> []" using len False by auto
      moreover have "\<forall>w \<in> set ws. \<exists>n. w = SInt n" using set ints by auto
      ultimately obtain n ns where n: "List.map_filter int_of ws = n # ns" by (cases ws) (auto simp: map_filter_def)
      then obtain m ms where m: "List.map_filter int_of ?vs = m # ms" using same by (cases "List.map_filter int_of ?vs") auto
      have "foldl ?f n ns = foldl ?f m ms" using same n m by (intro extremum_of_set) auto
      moreover have "largest ?f ws = Some (SInt (foldl ?f n ns))"
        using set ints len False n by (auto simp: largest_def list_ex_iff)
      ultimately show ?thesis using e m by (simp add: pg_extremum_def)
    qed
  qed
qed

section \<open>Left and right\<close>

definition pg_left :: "string \<Rightarrow> int \<Rightarrow> string" where
  "pg_left t n = (if 0 \<le> n then take (nat n) t else take (length t - nat (- n)) t)"

definition pg_right :: "string \<Rightarrow> int \<Rightarrow> string" where
  "pg_right t n = (if 0 \<le> n then drop (length t - nat n) t else drop (nat (- n)) t)"

definition in_i32 :: "int \<Rightarrow> bool" where
  "in_i32 n \<longleftrightarrow> - (2 ^ 31) \<le> n \<and> n < 2 ^ 31"

lemma sqlite_substr_prefix: "0 \<le> z \<Longrightarrow> sqlite_substr t 1 (Some z) = take (nat z) t"
  by (simp add: sqlite_substr_def Let_def)

lemma sqlite_substr_suffix: "1 \<le> p \<Longrightarrow> sqlite_substr t p None = drop (nat (p - 1)) t"
  by (simp add: sqlite_substr_def Let_def)

lemma left_value:
  assumes "sqlite_eval env s = SText t" "sqlite_eval env n = SInt k" "in_i32 k" "length t < 2 ^ 31"
  shows "sqlite_eval env (left_closed_form s n) = SText (pg_left t k)"
proof -
  let ?from_end = "simple_function_expr ''max'' [EBinaryOp (simple_function_expr ''length'' [s] None) OpPlus n, integer_literal 0] None"
  have "in_i64 (int (length t) + k)" using assms(3,4) by (simp add: in_i64_def in_i32_def)
  then have "sqlite_eval env ?from_end = SInt (max (int (length t) + k) 0)"
    by (intro max_call) (simp_all add: eval_simps eval_function assms(1,2) text_call_def int64_def)
  then have "sqlite_eval env (case_when (EBinaryOp n OpLt (integer_literal 0)) ?from_end (Some n)) = SInt (if k < 0 then max (int (length t) + k) 0 else k)"
    by (simp add: eval_case_when eval_simps assms(2))
  then show ?thesis
    by (simp add: left_closed_form_def Let_def eval_function assms(1) substr_call_def sqlite_substr_prefix pg_left_def nat_diff_distrib' max_def nat_add_distrib)
      (simp add: nat_minus_as_int)
qed

lemma right_value:
  assumes "sqlite_eval env s = SText t" "sqlite_eval env n = SInt k" "in_i32 k" "length t < 2 ^ 31"
  shows "sqlite_eval env (right_closed_form s n) = SText (pg_right t k)"
proof -
  let ?last_n = "simple_function_expr ''max'' [EBinaryOp (EBinaryOp (simple_function_expr ''length'' [s] None) OpMinus n) OpPlus (integer_literal 1),
      integer_literal 1] None"
  have i: "in_i64 (int (length t) - k)" "in_i64 (int (length t) - k + 1)" "in_i64 (1 - k)" using assms(3,4) by (simp_all add: in_i64_def in_i32_def)
  then have "sqlite_eval env ?last_n = SInt (max (int (length t) - k + 1) 1)"
    by (intro max_call) (simp_all add: eval_simps eval_function assms(1,2) text_call_def int64_def)
  then have "sqlite_eval env (case_when (EBinaryOp n OpLt (integer_literal 0)) (EBinaryOp (integer_literal 1) OpMinus n) (Some ?last_n))
      = SInt (if k < 0 then 1 - k else max (int (length t) - k + 1) 1)"
    using i(3) by (simp add: eval_case_when eval_simps assms(2) int64_def)
  then show ?thesis
    by (auto simp: right_closed_form_def Let_def eval_function assms(1) substr_call_def sqlite_substr_suffix pg_right_def nat_minus_as_int max_def)
qed

section \<open>Concatenation\<close>

fun text_of :: "sval \<Rightarrow> string option" where
  "text_of (SText t) = Some t"
| "text_of _ = None"

definition texts :: "(expr \<Rightarrow> sval) \<Rightarrow> expr list \<Rightarrow> string list" where
  "texts env es = List.map_filter text_of (map (sqlite_eval env) es)"

text \<open>Every operand is a text or null.\<close>

definition textual :: "(expr \<Rightarrow> sval) \<Rightarrow> expr list \<Rightarrow> bool" where
  "textual env es \<longleftrightarrow> (\<forall>e \<in> set es. sqlite_eval env e = SNull \<or> (\<exists>t. sqlite_eval env e = SText t))"

lemma texts_simps [simp]:
  "texts env [] = []" "texts env (e # es) = (case sqlite_eval env e of SText t \<Rightarrow> t # texts env es | _ \<Rightarrow> texts env es)"
  "texts env (es @ fs) = texts env es @ texts env fs"
  by (auto simp: texts_def map_filter_def split: sval.splits)

lemma concatenation_value:
  assumes "map (sqlite_eval env) es = map SText ts" "build_concatenation es = Some e"
  shows "sqlite_eval env e = SText (concat ts)"
proof -
  have fold: "sqlite_eval env (foldl (\<lambda>acc e. EBinaryOp acc OpStringConcat e) a es) = SText (t @ concat ts)"
    if "sqlite_eval env a = SText t" "map (sqlite_eval env) es = map SText ts" for a t es ts
    using that
  proof (induction es arbitrary: a t ts)
    case (Cons x es)
    then obtain u us where "ts = u # us" "sqlite_eval env x = SText u" "map (sqlite_eval env) es = map SText us" by (cases ts) auto
    then show ?case using Cons.IH [of "EBinaryOp a OpStringConcat x" "t @ u" us] Cons.prems(1) by (simp add: eval_simps)
  qed simp
  show ?thesis
  proof (cases es)
    case (Cons a rest)
    then obtain t us where "ts = t # us" "sqlite_eval env a = SText t" "map (sqlite_eval env) rest = map SText us" using assms(1) by (cases ts) auto
    then show ?thesis using fold assms(2) Cons by (auto simp: build_concatenation_def)
  qed (use assms(2) in \<open>simp add: build_concatenation_def\<close>)
qed

lemma coalesced_texts:
  "textual env es \<Longrightarrow> \<exists>ts. map (sqlite_eval env) (map wrap_with_coalesce es) = map SText ts \<and> concat ts = concat (texts env es)"
proof (induction es)
  case (Cons e es)
  then obtain ts where ts: "map (sqlite_eval env) (map wrap_with_coalesce es) = map SText ts" "concat ts = concat (texts env es)"
    by (auto simp: textual_def)
  have e: "sqlite_eval env e = SNull \<or> (\<exists>t. sqlite_eval env e = SText t)" using Cons.prems by (simp add: textual_def)
  then have "sqlite_eval env (wrap_with_coalesce e) = SText (case sqlite_eval env e of SText t \<Rightarrow> t | _ \<Rightarrow> [])"
    by (auto simp: wrap_with_coalesce_def eval_function eval_string_literal coalesce_call_def)
  then show ?case using ts e by (intro exI [of _ "(case sqlite_eval env e of SText t \<Rightarrow> t | _ \<Rightarrow> []) # ts"]) auto
qed simp

lemma any_not_null_value:
  "any_not_null_condition es = Some c \<Longrightarrow> sqlite_eval env c = of_truth (Some (\<exists>e \<in> set es. sqlite_eval env e \<noteq> SNull))"
proof -
  have fold: "sqlite_eval env (foldl (\<lambda>condition e. EBinaryOp condition OpOr (EIsNotNull e)) c es)
      = of_truth (Some (b \<or> (\<exists>e \<in> set es. sqlite_eval env e \<noteq> SNull)))" if "sqlite_eval env c = of_truth (Some b)" for c b es
    using that
  proof (induction es arbitrary: c b)
    case (Cons x es)
    have "sqlite_eval env (EBinaryOp c OpOr (EIsNotNull x)) = of_truth (Some (b \<or> sqlite_eval env x \<noteq> SNull))"
      using Cons.prems by (simp add: eval_simps logic3_def or3_def and3_def)
    from Cons.IH [OF this] show ?case by (simp add: disj_assoc)
  qed simp
  show "any_not_null_condition es = Some c \<Longrightarrow> ?thesis"
    by (cases es) (auto simp: any_not_null_condition_def fold [of "EIsNotNull _", OF eval_simps(6)])
qed

lemma textual_nonnull: "textual env es \<Longrightarrow> (\<exists>e \<in> set es. sqlite_eval env e \<noteq> SNull) \<longleftrightarrow> texts env es \<noteq> []"
  by (induction es) (auto simp: textual_def)

lemma concat_ws_pieces_value:
  assumes "sqlite_eval env sep = SText d" "textual env prior" "textual env vs"
  shows "\<exists>ts. map (sqlite_eval env) (concat_ws_pieces sep prior vs) = map SText ts
    \<and> concat ts = (if texts env prior \<noteq> [] \<and> texts env vs \<noteq> [] then d else []) @ join d (texts env vs)"
  using assms(2,3)
proof (induction vs arbitrary: prior)
  case (Cons v vs)
  have v: "sqlite_eval env v = SNull \<or> (\<exists>t. sqlite_eval env v = SText t)" using Cons.prems(2) by (simp add: textual_def)
  have "textual env (prior @ [v])" "textual env vs" using Cons.prems by (auto simp: textual_def)
  from Cons.IH [OF this] obtain ts where ts: "map (sqlite_eval env) (concat_ws_pieces sep (prior @ [v]) vs) = map SText ts"
    "concat ts = (if texts env (prior @ [v]) \<noteq> [] \<and> texts env vs \<noteq> [] then d else []) @ join d (texts env vs)" by blast
  have piece: "sqlite_eval env (build_concat_ws_piece v sep prior)
      = SText (case sqlite_eval env v of SText t \<Rightarrow> (if texts env prior \<noteq> [] then d else []) @ t | _ \<Rightarrow> [])"
  proof (cases "any_not_null_condition prior")
    case None
    then have "prior = []" by (cases prior) (simp_all add: any_not_null_condition_def)
    then show ?thesis using v None by (auto simp: build_concat_ws_piece_def eval_case_when eval_simps eval_string_literal)
  next
    case (Some c)
    have "sqlite_eval env (case_when c sep (Some (string_literal []))) = SText (if texts env prior \<noteq> [] then d else [])"
      using any_not_null_value [OF Some, of env] textual_nonnull [OF Cons.prems(1)] assms(1) by (simp add: eval_case_when eval_string_literal)
    then show ?thesis using v Some by (auto simp: build_concat_ws_piece_def eval_case_when eval_simps eval_string_literal)
  qed
  obtain p where p: "sqlite_eval env (build_concat_ws_piece v sep prior) = SText p" using piece by blast
  have "concat (p # ts) = (if texts env prior \<noteq> [] \<and> texts env (v # vs) \<noteq> [] then d else []) @ join d (texts env (v # vs))"
    using v p piece ts(2) by (cases "texts env vs") (auto simp: Cons)
  then show ?case using ts(1) p by (intro exI [of _ "p # ts"]) simp
qed simp


section \<open>Properties\<close>

text \<open>The operands of a call whose translation answers the given values.\<close>

definition operand_values :: "(expr \<Rightarrow> expr tres) \<Rightarrow> (expr \<Rightarrow> sval) \<Rightarrow> func_args \<Rightarrow> sval list \<Rightarrow> bool" where
  "operand_values translated env args vs \<longleftrightarrow>
     list_all2 (\<lambda>e v. \<exists>y. translated e = ok y \<and> sqlite_eval env y = v) (function_argument_exprs args) vs"

lemma operand_valuesD:
  assumes "list_all2 (\<lambda>e v. \<exists>y. f e = ok y \<and> sqlite_eval env y = v) es vs"
  shows "\<exists>ys. try_map_each f es = ok ys \<and> map (sqlite_eval env) ys = vs"
  using assms
proof (induction es vs rule: list_all2_induct)
  case (Cons e es v vs)
  then obtain y ys where "f e = ok y" "sqlite_eval env y = v" "try_map_each f es = ok ys" "map (sqlite_eval env) ys = vs" by blast
  then show ?case by (intro exI [of _ "y # ys"]) simp
qed simp

lemma try_map_each_members: "try_map_each f es = ok ys \<Longrightarrow> \<forall>y \<in> set ys. \<exists>e \<in> set es. f e = ok y"
  by (induction es arbitrary: ys) (fastforce simp: res_bind_eq_ok ok_def)+

text \<open>
  C30. \<open>concat_ws\<close> goes out as an expression that answers what PostgreSQL answers: null for a null separator, and
  otherwise the texts that are not null with the separator between them and nowhere else; \<open>concat\<close> as one that
  answers them with nothing between. Every null argument is passed over, also the first and the last.
\<close>

theorem concatenations_mean_postgres:
  assumes "operand_values (concatenated_operand par scale_of) env args (v # vs)" "\<forall>w \<in> set (v # vs). w = SNull \<or> (\<exists>t. w = SText t)"
  shows "(\<exists>e. translate_concat par scale_of args = ok e \<and> sqlite_eval env e = SText (concat (List.map_filter text_of (v # vs))))
    \<and> (vs \<noteq> [] \<longrightarrow> (\<exists>e. translate_concat_ws par scale_of args = ok e
      \<and> sqlite_eval env e = (case v of SText d \<Rightarrow> SText (join d (List.map_filter text_of vs)) | _ \<Rightarrow> SNull)))"
proof (intro conjI impI)
  obtain ys where ys: "try_map_each (concatenated_operand par scale_of) (function_argument_exprs args) = ok ys" "map (sqlite_eval env) ys = v # vs"
    using operand_valuesD [OF assms(1) [unfolded operand_values_def]] by (elim exE conjE)
  then obtain y zs where y: "ys = y # zs" "sqlite_eval env y = v" "map (sqlite_eval env) zs = vs" by (cases ys) auto
  have "\<forall>w \<in> set (map (sqlite_eval env) ys). w = SNull \<or> (\<exists>t. w = SText t)" unfolding ys(2) by (rule assms(2))
  then have textual: "textual env ys" "textual env zs" using y(1) by (simp_all add: textual_def)
  obtain ts where "map (sqlite_eval env) (map wrap_with_coalesce ys) = map SText ts" "concat ts = concat (texts env ys)"
    using coalesced_texts [OF textual(1)] by blast
  moreover obtain e where "build_concatenation (map wrap_with_coalesce ys) = Some e" using y(1) by (simp add: build_concatenation_def)
  ultimately show "\<exists>e. translate_concat par scale_of args = ok e \<and> sqlite_eval env e = SText (concat (List.map_filter text_of (v # vs)))"
    using concatenation_value [of env "map wrap_with_coalesce ys" ts e] ys by (simp add: translate_concat_def texts_def)
  assume vs: "vs \<noteq> []"
  then obtain z rest where z: "zs = z # rest" using y(3) by (cases zs) auto
  obtain c where c: "build_concatenation (concat_ws_pieces y [] zs) = Some c" using z by (simp add: build_concatenation_def)
  have tr: "translate_concat_ws par scale_of args = ok (case_when (EIsNull y) (EValue LNull) (Some c))"
    using ys(1) y z c by (simp add: translate_concat_ws_def build_concat_ws_expression_def)
  have "sqlite_eval env (case_when (EIsNull y) (EValue LNull) (Some c)) = (case v of SText d \<Rightarrow> SText (join d (List.map_filter text_of vs)) | _ \<Rightarrow> SNull)"
  proof (cases v)
    case (SText d)
    obtain us where us: "map (sqlite_eval env) (concat_ws_pieces y [] zs) = map SText us" "concat us = join d (texts env zs)"
      using concat_ws_pieces_value [of env y d "[]" zs] y(2) SText textual(2) by (auto simp: textual_def)
    then show ?thesis using concatenation_value [OF us(1) c] y SText by (simp add: eval_case_when eval_simps texts_def)
  qed (use assms(2) y in \<open>auto simp: eval_case_when eval_simps\<close>)
  then show "\<exists>e. translate_concat_ws par scale_of args = ok e
      \<and> sqlite_eval env e = (case v of SText d \<Rightarrow> SText (join d (List.map_filter text_of vs)) | _ \<Rightarrow> SNull)"
    using tr by blast
qed


theorem concatenations_mean_postgres_witness:
  "let par = \<lparr>tr = ok, show_expr = (\<lambda>_. []), replays = (\<lambda>_. True)\<rparr>;
       args = ArgsList None (map unnamed_arg [string_literal ''-'', EValue LNull, string_literal ''a'', EValue LNull, string_literal ''b'']) [] in
   \<exists>e. translate_concat_ws par (\<lambda>_. None) args = ok e \<and> sqlite_eval (\<lambda>_. SNull) e = SText ''a-b''"
proof -
  let ?par = "\<lparr>tr = ok, show_expr = (\<lambda>_. []), replays = (\<lambda>_. True)\<rparr>"
  let ?args = "ArgsList None (map unnamed_arg [string_literal ''-'', EValue LNull, string_literal ''a'', EValue LNull, string_literal ''b'']) []"
  have args: "function_argument_exprs ?args = [string_literal ''-'', EValue LNull, string_literal ''a'', EValue LNull, string_literal ''b'']"
    by (simp add: function_argument_exprs_def map_filter_def unnamed_arg_def)
  have "operand_values (concatenated_operand ?par (\<lambda>_. None)) (\<lambda>_. SNull) ?args [SText ''-'', SNull, SText ''a'', SNull, SText ''b'']"
    unfolding operand_values_def args by (simp add: concatenated_operand_def eval_string_literal eval_simps)
  from concatenations_mean_postgres [OF this] show ?thesis by (simp add: map_filter_def Let_def)
qed

text \<open>
  \<open>greatest\<close> and \<open>least\<close> over integers, written out so that SQLite's \<open>MAX\<close> and \<open>MIN\<close> never see a null beside a
  value, answer the extremum of the arguments that are not null, and null only when all are.
\<close>

lemma extrema_ignore_nulls:
  assumes "operand_values (tr par) env args vs" "vs \<noteq> []" "\<forall>v \<in> set vs. v = SNull \<or> (\<exists>n. v = SInt n)"
    and "\<forall>e y. e \<in> set (function_argument_exprs args) \<longrightarrow> tr par e = ok y \<longrightarrow> replays par y"
  shows "\<exists>e. translate_extremum par greatest args = ok e \<and> sqlite_eval env e = pg_extremum (if greatest then max else min) vs"
proof -
  obtain ys where ys: "try_map_each (tr par) (function_argument_exprs args) = ok ys" "map (sqlite_eval env) ys = vs"
    using operand_valuesD [OF assms(1) [unfolded operand_values_def]] by (elim exE conjE)
  have "\<forall>y \<in> set ys. \<exists>e \<in> set (function_argument_exprs args). tr par e = ok y"
    using ys(1) by (rule try_map_each_members)
  then have "find (\<lambda>e. \<not> replays par e) ys = None" using assms(4) by (auto simp: find_None_iff)
  moreover obtain e where e: "null_ignoring_extremum ys greatest (if greatest then ''greatest'' else ''least'') = ok e"
    using ys(2) assms(2) by (cases ys; cases "tl ys = []") (auto simp: null_ignoring_extremum_def)
  moreover have "\<forall>a \<in> set ys. sqlite_eval env a = SNull \<or> (\<exists>n. sqlite_eval env a = SInt n)" using assms(3) ys(2) by auto
  ultimately show ?thesis using extremum_value [OF e, of env] ys by (simp add: translate_extremum_def Let_def require_replayable_all_def)
qed

lemma extrema_ignore_nulls_witness:
  "let par = \<lparr>tr = ok, show_expr = (\<lambda>_. []), replays = (\<lambda>_. True)\<rparr>;
       args = ArgsList None (map unnamed_arg [EValue LNull, integer_literal 0, integer_literal 1]) [] in
   \<exists>e. translate_extremum par False args = ok e \<and> sqlite_eval (\<lambda>_. SNull) e = SInt 0"
proof -
  let ?par = "\<lparr>tr = ok, show_expr = (\<lambda>_. []), replays = (\<lambda>_. True)\<rparr>"
  let ?args = "ArgsList None (map unnamed_arg [EValue LNull, integer_literal 0, integer_literal 1]) []"
  have args: "function_argument_exprs ?args = [EValue LNull, integer_literal 0, integer_literal 1]"
    by (simp add: function_argument_exprs_def map_filter_def unnamed_arg_def)
  have "operand_values (tr ?par) (\<lambda>_. SNull) ?args [SNull, SInt 0, SInt 1]" unfolding operand_values_def args by (simp add: eval_simps)
  from extrema_ignore_nulls [OF this, of False] show ?thesis by (simp add: pg_extremum_def map_filter_def Let_def)
qed

text \<open>
  C31. \<open>left\<close> and \<open>right\<close>, written out over \<open>substr\<close>, take the characters PostgreSQL takes for every count: the first or
  the last \<open>n\<close>, for a negative \<open>n\<close> all but the last or the first \<open>-n\<close>, nothing for zero, and everything when the
  count passes the length. No step of the arithmetic overflows.
\<close>

theorem left_and_right_mean_postgres:
  assumes "operand_values (tr par) env args [SText t, SInt n]" "in_i32 n" "length t < 2 ^ 31"
    and "\<forall>e y. e \<in> set (function_argument_exprs args) \<longrightarrow> tr par e = ok y \<longrightarrow> replays par y"
  shows "\<exists>l r. translate_left par args = ok l \<and> sqlite_eval env l = SText (pg_left t n)
    \<and> translate_right par args = ok r \<and> sqlite_eval env r = SText (pg_right t n)"
proof -
  obtain a b x y where "function_argument_exprs args = [a, b]" "tr par a = ok x" "tr par b = ok y"
    "sqlite_eval env x = SText t" "sqlite_eval env y = SInt n"
    using assms(1) by (auto simp: operand_values_def list_all2_Cons2)
  then show ?thesis using assms(2,3,4) left_value [of env x t y n] right_value [of env x t y n]
    by (simp add: translate_left_def translate_right_def translate_left_right_def extract_exactly_def extract_exactly_with_def
        require_replayable_all_def)
qed

theorem left_and_right_mean_postgres_witness:
  "let par = \<lparr>tr = ok, show_expr = (\<lambda>_. []), replays = (\<lambda>_. True)\<rparr>;
       args = ArgsList None (map unnamed_arg [string_literal ''abc'', EIdentifier (bare_ident ''n'')]) [] in
   \<exists>l r. translate_left par args = ok l \<and> sqlite_eval (\<lambda>_. SInt (- 1)) l = SText ''ab''
     \<and> translate_right par args = ok r \<and> sqlite_eval (\<lambda>_. SInt (- 1)) r = SText ''bc''"
proof -
  let ?par = "\<lparr>tr = ok, show_expr = (\<lambda>_. []), replays = (\<lambda>_. True)\<rparr>"
  let ?args = "ArgsList None (map unnamed_arg [string_literal ''abc'', EIdentifier (bare_ident ''n'')]) []"
  have args: "function_argument_exprs ?args = [string_literal ''abc'', EIdentifier (bare_ident ''n'')]"
    by (simp add: function_argument_exprs_def map_filter_def unnamed_arg_def)
  have "sqlite_eval (\<lambda>_. SInt (- 1)) (EIdentifier i) = SInt (- 1)" for i by (simp add: sqlite_eval.simps(1))
  then have "operand_values (tr ?par) (\<lambda>_. SInt (- 1)) ?args [SText ''abc'', SInt (- 1)]"
    unfolding operand_values_def args by (simp add: eval_string_literal)
  from left_and_right_mean_postgres [OF this] show ?thesis by (simp add: in_i32_def pg_left_def pg_right_def Let_def)
qed

end
