(* ===== verification/Uuids.thy ===== *)
theory Uuids
  imports Substrings
begin

text \<open>
  UUID values, \<open>src/src/impls/translator_impls/uuid.rs\<close>: the spellings a literal may have, the conversion to sixteen
  bytes at translation time and at run time, and the canonical text. Looking into a scalar subquery and
  rebuilding it are parameters.
\<close>

section \<open>Literals\<close>

definition is_uuid_data_type :: "sql_type \<Rightarrow> bool" where
  "is_uuid_data_type t \<longleftrightarrow> t = TUuid"

datatype (plugins only: code size) uuid_representation = UuidBlob | UuidText

record uuid_options =
  uuid_representation_of :: "uuid_representation option"
  uuid_text_to_blob_function_name :: "string option"

definition is_blob_uuid_representation :: "uuid_options \<Rightarrow> bool" where
  "is_blob_uuid_representation opts \<longleftrightarrow> uuid_representation_of opts = Some UuidBlob"

definition uuid_columns_of_table :: "(string \<times> sql_type) list \<Rightarrow> string list" where
  "uuid_columns_of_table columns = List.map_filter (\<lambda>(name, t). if is_uuid_data_type t then Some name else None) columns"

fun hex_loop :: "string \<Rightarrow> string \<Rightarrow> string option" where
  "hex_loop hex [] = Some hex"
| "hex_loop hex (character # rest) =
     (if character = CHR ''-'' then (if length hex mod 4 \<noteq> 0 then None else hex_loop hex rest)
      else if \<not> is_ascii_hexdigit character then None
      else hex_loop (hex @ [character]) rest)"

definition canonical_uuid_hex :: "string \<Rightarrow> string option" where
  "canonical_uuid_hex s =
     Option.bind (case (strip_prefix ''{'' s, strip_suffix ''}'' s) of
        (Some _, Some _) \<Rightarrow> Some (butlast (tl s))
      | (None, None) \<Rightarrow> Some s
      | _ \<Rightarrow> None) (\<lambda>inner.
     Option.bind (hex_loop [] inner) (\<lambda>hex. if length hex = 32 then Some hex else None))"

definition make_uuid_conversion_call :: "expr \<Rightarrow> uuid_options \<Rightarrow> expr" where
  "make_uuid_conversion_call arg opts = (case uuid_text_to_blob_function_name opts of
     Some udf \<Rightarrow> simple_function_expr udf [arg] None
   | None \<Rightarrow> simple_function_expr ''unhex'' [foldl (\<lambda>inner removed. simple_function_expr ''replace'' [inner, string_literal removed, string_literal []] None)
       arg [''-'', ''{'', ''}'']] None)"

definition invalid_uuid :: "string \<Rightarrow> string" where
  "invalid_uuid s = ''invalid input syntax for type uuid: '' @ [CHR 0x22] @ s @ [CHR 0x22]"

text \<open>\<open>projected\<close> is what a scalar subquery without relations projects, \<open>rebuild\<close> the subquery over an expression.\<close>

definition wrap_uuid_literal :: "expr \<Rightarrow> uuid_options \<Rightarrow> expr tres" where
  "wrap_uuid_literal e opts = (case single_quoted_literal e of
     None \<Rightarrow> ok e
   | Some s \<Rightarrow> (case canonical_uuid_hex s of
       None \<Rightarrow> refuse (ForwardRefusal (invalid_uuid s))
     | Some hex \<Rightarrow>
         if uuid_text_to_blob_function_name opts \<noteq> None then ok (make_uuid_conversion_call e opts)
         else ok (simple_function_expr ''unhex'' [string_literal hex] None)))"

definition maybe_wrap_text_uuid_literal :: "(expr \<Rightarrow> expr option) \<Rightarrow> (expr \<Rightarrow> expr) \<Rightarrow> expr \<Rightarrow> uuid_options \<Rightarrow> expr tres" where
  "maybe_wrap_text_uuid_literal projected rebuild e opts =
     (case projected e of
        Some inner \<Rightarrow>
          if single_quoted_literal inner \<noteq> None then res_bind (wrap_uuid_literal inner opts) (\<lambda>wrapped. ok (rebuild wrapped))
          else wrap_uuid_literal e opts
      | None \<Rightarrow> wrap_uuid_literal e opts)"

definition wrap_uuid_column_default :: "(expr \<Rightarrow> expr option) \<Rightarrow> (expr \<Rightarrow> expr) \<Rightarrow> string \<Rightarrow> expr \<Rightarrow> uuid_options \<Rightarrow> expr tres" where
  "wrap_uuid_column_default projected rebuild column_name e opts = (case single_quoted_literal e of
     None \<Rightarrow> ok e
   | Some s \<Rightarrow>
       if canonical_uuid_hex s = None
       then refuse (ForwardRefusal (''column '' @ [CHR 0x27] @ column_name @ [CHR 0x27] @ '' has a DEFAULT that is not a valid UUID: '' @ [CHR 0x22] @ s @ [CHR 0x22]
         @ ''. PostgreSQL refuses this at CREATE TABLE time with '' @ [CHR 0x27] @ ''invalid input syntax for type uuid'' @ [CHR 0x27]
         @ '', and the Blob representation cannot convert it to sixteen bytes.''))
       else maybe_wrap_text_uuid_literal projected rebuild e opts)"

definition uuid_blob_length_check_expr :: "ident \<Rightarrow> expr" where
  "uuid_blob_length_check_expr column_name = EBinaryOp (simple_function_expr ''length'' [EIdentifier column_name] None) OpEq (number_literal ''16'')"

definition canonical_uuid_hyphenated :: "string \<Rightarrow> string option" where
  "canonical_uuid_hyphenated s = map_option (\<lambda>h.
     let hex = to_ascii_lowercase h in
     take 8 hex @ ''-'' @ take 4 (drop 8 hex) @ ''-'' @ take 4 (drop 12 hex) @ ''-'' @ take 4 (drop 16 hex) @ ''-'' @ take 12 (drop 20 hex))
     (canonical_uuid_hex s)"

definition maybe_canonicalize_text_uuid_literal :: "expr \<Rightarrow> expr tres" where
  "maybe_canonicalize_text_uuid_literal e = (case single_quoted_literal e of
     None \<Rightarrow> ok e
   | Some s \<Rightarrow> (case canonical_uuid_hyphenated s of
       None \<Rightarrow> refuse (ForwardRefusal (invalid_uuid s))
     | Some spelling \<Rightarrow> ok (string_literal spelling)))"

section \<open>What the scan reads\<close>

lemma hex_loop_Some:
  "hex_loop hex s = Some h \<Longrightarrow> h = hex @ filter (\<lambda>c. c \<noteq> CHR ''-'') s \<and> (\<forall>c \<in> set s. c = CHR ''-'' \<or> is_ascii_hexdigit c)"
  by (induction hex s rule: hex_loop.induct) (auto split: if_splits)

lemma hex_loop_append: "hex_loop hex (s @ t) = Option.bind (hex_loop hex s) (\<lambda>h. hex_loop h t)"
  by (induction hex s rule: hex_loop.induct) auto

lemma hyphen_not_hex: "\<not> is_ascii_hexdigit (CHR ''-'')" "\<not> is_ascii_hexdigit (CHR ''{'')" "\<not> is_ascii_hexdigit (CHR ''}'')"
  by code_simp+

lemma hex_loop_digits: "list_all is_ascii_hexdigit s \<Longrightarrow> hex_loop hex s = Some (hex @ s)"
  using hyphen_not_hex by (induction s arbitrary: hex) auto

lemma canonical_uuid_hexD:
  assumes "canonical_uuid_hex s = Some h"
  shows "length h = 32 \<and> list_all is_ascii_hexdigit h \<and> filter (\<lambda>c. c \<notin> {CHR ''-'', CHR ''{'', CHR ''}''}) s = h"
proof -
  obtain inner where inner: "hex_loop [] inner = Some h" "length h = 32" "s = inner \<or> s = CHR ''{'' # inner @ ''}''"
  proof (cases "strip_prefix ''{'' s")
    case None
    then show ?thesis using assms that by (auto simp: canonical_uuid_hex_def split: option.splits Option.bind_splits if_splits)
  next
    case (Some r)
    then obtain r where r: "s = CHR ''{'' # r" by auto
    with assms obtain x where x: "s = x @ ''}''" by (auto simp: canonical_uuid_hex_def split: option.splits)
    then have s: "s = CHR ''{'' # butlast r @ ''}''" using r by (cases x) auto
    have p: "strip_prefix ''{'' s = Some r" "strip_suffix ''}'' s = Some x" "butlast (tl s) = butlast r" using r x by simp_all
    then show ?thesis using assms that [of "butlast r"] s unfolding canonical_uuid_hex_def p by (auto split: Option.bind_splits if_splits)
  qed
  have h: "h = filter (\<lambda>c. c \<noteq> CHR ''-'') inner" "\<And>c. c \<in> set inner \<Longrightarrow> c = CHR ''-'' \<or> is_ascii_hexdigit c"
    using hex_loop_Some [OF inner(1)] by simp_all
  have "filter (\<lambda>c. c \<notin> {CHR ''-'', CHR ''{'', CHR ''}''}) inner = h"
    unfolding h(1)
  proof (rule filter_cong [OF refl])
    fix c assume "c \<in> set inner"
    from h(2) [OF this] show "(c \<notin> {CHR ''-'', CHR ''{'', CHR ''}''}) = (c \<noteq> CHR ''-'')" using hyphen_not_hex by auto
  qed
  then show ?thesis using inner(2,3) h by (auto simp: list_all_iff)
qed

lemma replace_text_by_nothing: "replace_text [c] [] s = filter (\<lambda>x. x \<noteq> c) s"
  by (induction "[c]" "[] :: string" s rule: replace_text.induct) (auto simp: starts_with_def)


section \<open>PostgreSQL's grammar\<close>

text \<open>PostgreSQL reads two digits per byte and passes a hyphen after each pair of bytes but the last; braces come
  in pairs.\<close>

fun pg_bytes :: "nat \<Rightarrow> string \<Rightarrow> (string \<times> string) option" where
  "pg_bytes 0 s = Some ([], s)"
| "pg_bytes (Suc k) (a # b # r) =
     (if is_ascii_hexdigit a \<and> is_ascii_hexdigit b
      then map_option (\<lambda>(h, t). (a # b # h, t)) (pg_bytes k (if 0 < k \<and> even k \<and> r \<noteq> [] \<and> hd r = CHR ''-'' then tl r else r))
      else None)"
| "pg_bytes (Suc k) _ = None"

definition pg_uuid :: "string \<Rightarrow> string option" where
  "pg_uuid s = (if s \<noteq> [] \<and> hd s = CHR ''{''
     then (case pg_bytes 16 (tl s) of Some (h, r) \<Rightarrow> if r = ''}'' then Some h else None | None \<Rightarrow> None)
     else (case pg_bytes 16 s of Some (h, r) \<Rightarrow> if r = [] then Some h else None | None \<Rightarrow> None))"

lemma pg_bytes_read:
  assumes "pg_bytes k s = Some (h, r)"
  shows "length h = 2 * k \<and> (\<exists>x. s = x @ r \<and> (\<forall>hex. length hex mod 4 = (if even k then 0 else 2) \<longrightarrow> hex_loop hex x = Some (hex @ h)))"
  using assms
proof (induction k s arbitrary: h r rule: pg_bytes.induct)
  case (2 k a b r')
  let ?rest = "if 0 < k \<and> even k \<and> r' \<noteq> [] \<and> hd r' = CHR ''-'' then tl r' else r'"
  from 2(2) obtain h' where h: "is_ascii_hexdigit a" "is_ascii_hexdigit b" "pg_bytes k ?rest = Some (h', r)" "h = a # b # h'"
    by (auto split: if_splits)
  obtain x where x: "?rest = x @ r" "length h' = 2 * k" "\<forall>hex. length hex mod 4 = (if even k then 0 else 2) \<longrightarrow> hex_loop hex x = Some (hex @ h')"
    using 2(1) [OF _ h(3)] h(1,2) by auto
  have ab: "a \<noteq> CHR ''-''" "b \<noteq> CHR ''-''" using h(1,2) hyphen_not_hex by auto
  define y where "y = (if 0 < k \<and> even k \<and> r' \<noteq> [] \<and> hd r' = CHR ''-'' then CHR ''-'' # x else x)"
  have "r' = y @ r" using x(1) by (cases r') (auto simp: y_def split: if_splits)
  moreover have "hex_loop hex (a # b # y) = Some (hex @ h)" if "length hex mod 4 = (if even (Suc k) then 0 else 2)" for hex
  proof -
    have "length (hex @ [a, b]) mod 4 = (if even k then 0 else 2)" using that by (auto split: if_splits) presburger+
    then show ?thesis using x(3) h ab by (auto simp: y_def)
  qed
  ultimately show ?case using x(2) h(4) by (intro conjI exI [of _ "a # b # y"]) auto
qed auto

lemma hex_texts_have_no_braces:
  assumes "hex_loop [] s = Some h"
  shows "strip_prefix ''{'' s = None" "strip_suffix ''}'' s = None"
proof -
  have braces: "c \<noteq> CHR ''{'' \<and> c \<noteq> CHR ''}''" if "c \<in> set s" for c
    using bspec [OF conjunct2 [OF hex_loop_Some [OF assms]] that] hyphen_not_hex by auto
  show "strip_prefix ''{'' s = None" using braces [of "hd s"] by (cases s) auto
  show "strip_suffix ''}'' s = None" using braces [of "CHR ''}''"] by (auto simp: strip_suffix_None_iff)
qed

text \<open>Every spelling PostgreSQL reads is read, as the same digits.\<close>

lemma postgres_uuids_are_read:
  assumes "pg_uuid s = Some h"
  shows "canonical_uuid_hex s = Some h"
proof (cases "s \<noteq> [] \<and> hd s = CHR ''{''")
  case True
  then have "pg_bytes 16 (tl s) = Some (h, ''}'')" using assms by (auto simp: pg_uuid_def split: option.splits if_splits)
  from pg_bytes_read [OF this] obtain x where x: "tl s = x @ ''}''" "hex_loop [] x = Some h" "length h = 32" by auto
  have "s = CHR ''{'' # x @ ''}''" using True x(1) by (cases s) auto
  then show ?thesis using x by (auto simp: canonical_uuid_hex_def strip_suffix_None_iff split: option.splits)
next
  case False
  then have "pg_bytes 16 s = Some (h, [])" using assms by (auto simp: pg_uuid_def split: option.splits if_splits)
  from pg_bytes_read [OF this] have "hex_loop [] s = Some h" "length h = 32" by auto
  then show ?thesis using hex_texts_have_no_braces by (simp add: canonical_uuid_hex_def)
qed

text \<open>The scan reads more: a hyphen before the first digit, one after the last, and two in a row.\<close>

lemma more_hyphens_are_read:
  "\<forall>s \<in> {''-550e8400-e29b-41d4-a716-446655440000'', ''550e8400-e29b-41d4-a716-446655440000-'', ''550e8400--e29b-41d4-a716-446655440000''}.
     pg_uuid s = None \<and> canonical_uuid_hex s = Some ''550e8400e29b41d4a716446655440000''"
  by code_simp

section \<open>Properties\<close>

text \<open>
  C32. A UUID literal becomes the same sixteen bytes whichever way it is converted: the digits written out at
  translation time are those SQLite is left with, at run time, after the hyphens and braces are replaced,
  and they are thirty-two hexadecimal digits. Every spelling PostgreSQL accepts is converted to the digits
  PostgreSQL reads, and an accepted literal is never left unconverted.
\<close>

theorem uuid_conversions_agree:
  assumes "canonical_uuid_hex s = Some h" "uuid_text_to_blob_function_name opts = None"
  shows "wrap_uuid_literal (string_literal s) opts = ok (simple_function_expr ''unhex'' [string_literal h] None)
    \<and> (\<exists>stripped. make_uuid_conversion_call (string_literal s) opts = simple_function_expr ''unhex'' [stripped] None
         \<and> sqlite_eval env stripped = SText h)
    \<and> length h = 32 \<and> list_all is_ascii_hexdigit h \<and> (\<forall>h'. pg_uuid s = Some h' \<longrightarrow> h' = h)"
proof -
  have h: "length h = 32" "list_all is_ascii_hexdigit h" "filter (\<lambda>c. c \<notin> {CHR ''-'', CHR ''{'', CHR ''}''}) s = h"
    using canonical_uuid_hexD [OF assms(1)] by auto
  have "filter (\<lambda>x. x \<noteq> CHR ''}'') (filter (\<lambda>x. x \<noteq> CHR ''{'') (filter (\<lambda>x. x \<noteq> CHR ''-'') s)) = h"
    unfolding h(3) [symmetric] by (simp add: conj_commute conj_left_commute)
  then have "sqlite_eval env (foldl (\<lambda>inner removed. simple_function_expr ''replace'' [inner, string_literal removed, string_literal []] None)
      (string_literal s) [''-'', ''{'', ''}'']) = SText h"
    by (simp add: eval_function eval_string_literal replace_call_def replace_text_by_nothing)
  then show ?thesis using assms h(1,2) postgres_uuids_are_read [of s]
    by (auto simp: wrap_uuid_literal_def make_uuid_conversion_call_def string_literal_def)
qed

theorem uuid_conversions_agree_witness:
  "wrap_uuid_literal (string_literal ''{550E8400-e29b-41d4-a716-446655440000}'') \<lparr>uuid_representation_of = Some UuidBlob, uuid_text_to_blob_function_name = None\<rparr>
     = ok (simple_function_expr ''unhex'' [string_literal ''550E8400e29b41d4a716446655440000''] None)"
proof -
  have "canonical_uuid_hex ''{550E8400-e29b-41d4-a716-446655440000}'' = Some ''550E8400e29b41d4a716446655440000''" by code_simp
  from uuid_conversions_agree [OF this, of "\<lparr>uuid_representation_of = Some UuidBlob, uuid_text_to_blob_function_name = None\<rparr>"] show ?thesis by simp
qed

lemma lower_hexdigit: "is_ascii_hexdigit c \<Longrightarrow> is_ascii_hexdigit (ascii_lower c)"
  by (auto simp: is_ascii_hexdigit_def is_ascii_digit_def ascii_lower_def is_ascii_uppercase_def)

lemma list_all_take_drop: "list_all P xs \<Longrightarrow> list_all P (take n (drop m xs))"
  by (meson in_set_dropD in_set_takeD list_all_iff)

lemma hyphenated_is_read:
  assumes "list_all is_ascii_hexdigit h" "length h = 32"
  shows "hex_loop [] (take 8 h @ ''-'' @ take 4 (drop 8 h) @ ''-'' @ take 4 (drop 12 h) @ ''-'' @ take 4 (drop 16 h) @ ''-'' @ take 12 (drop 20 h)) = Some h"
proof -
  have d: "hex_loop a (take n (drop m h)) = Some (a @ take n (drop m h))" for a n m
    by (intro hex_loop_digits list_all_take_drop assms)
  have "h = take 8 (drop 0 h) @ take 4 (drop 8 h) @ take 4 (drop 12 h) @ take 4 (drop 16 h) @ take 12 (drop 20 h)"
    using assms(2) append_take_drop_id [of 8 h] append_take_drop_id [of 4 "drop 8 h"] append_take_drop_id [of 4 "drop 12 h"]
      append_take_drop_id [of 4 "drop 16 h"] by (simp only: drop_drop drop_0) simp
  then have "h = take 8 h @ take 4 (drop 8 h) @ take 4 (drop 12 h) @ take 4 (drop 16 h) @ drop 20 h" using assms(2) by simp
  then show ?thesis using d [of "[]" 8 0] d [of _ 12 20] assms(2) by (simp add: hex_loop_append d)
qed

text \<open>
  The text stored for a UUID is canonical: it is a fixed point of the canonicalization, and two literals are
  stored as the same text exactly when they have the same digits up to case.
\<close>

lemma uuid_texts_are_canonical:
  assumes "canonical_uuid_hex s = Some h" "canonical_uuid_hex t = Some k"
  shows "\<exists>c d. canonical_uuid_hyphenated s = Some c \<and> canonical_uuid_hyphenated t = Some d \<and> length c = 36
    \<and> canonical_uuid_hyphenated c = Some c \<and> (c = d \<longleftrightarrow> eq_ignore_ascii_case h k)"
proof -
  define text_form where "text_form = (\<lambda>hex :: string. take 8 hex @ ''-'' @ take 4 (drop 8 hex) @ ''-'' @ take 4 (drop 12 hex) @ ''-'' @ take 4 (drop 16 hex) @ ''-'' @ take 12 (drop 20 hex))"
  have lower: "list_all is_ascii_hexdigit (to_ascii_lowercase x) \<and> length (to_ascii_lowercase x) = 32" if "canonical_uuid_hex y = Some x" for x y
    using canonical_uuid_hexD [OF that] lower_hexdigit by (auto simp: to_ascii_lowercase_def list_all_iff)
  have form: "canonical_uuid_hyphenated y = Some (text_form (to_ascii_lowercase x)) \<and> canonical_uuid_hex (text_form (to_ascii_lowercase x)) = Some (to_ascii_lowercase x)"
    if y: "canonical_uuid_hex y = Some x" for x y
  proof -
    have "hex_loop [] (text_form (to_ascii_lowercase x)) = Some (to_ascii_lowercase x)"
      using hyphenated_is_read lower [OF y] unfolding text_form_def by blast
    then show ?thesis using y lower [OF y] hex_texts_have_no_braces
      by (auto simp: canonical_uuid_hyphenated_def canonical_uuid_hex_def text_form_def Let_def)
  qed
  note hs = form [OF assms(1)] and kt = form [OF assms(2)]
  have again: "canonical_uuid_hyphenated (text_form (to_ascii_lowercase h)) = Some (text_form (to_ascii_lowercase h))"
    using form [of "text_form (to_ascii_lowercase h)" "to_ascii_lowercase h"] hs by simp
  have "text_form (to_ascii_lowercase h) = text_form (to_ascii_lowercase k) \<longleftrightarrow> eq_ignore_ascii_case h k"
    using hs kt by (metis eq_ignore_ascii_case_def option.inject)
  moreover have "length (text_form (to_ascii_lowercase h)) = 36" using lower [OF assms(1)] by (simp add: text_form_def)
  ultimately show ?thesis using hs kt again by blast
qed

lemma uuid_texts_are_canonical_witness:
  "\<exists>c d. canonical_uuid_hyphenated ''550E8400E29B41D4A716446655440000'' = Some c
    \<and> canonical_uuid_hyphenated ''{550e8400-e29b-41d4-a716-446655440000}'' = Some d \<and> canonical_uuid_hyphenated c = Some c \<and> c = d"
proof -
  have "canonical_uuid_hex ''550E8400E29B41D4A716446655440000'' = Some ''550E8400E29B41D4A716446655440000''"
    "canonical_uuid_hex ''{550e8400-e29b-41d4-a716-446655440000}'' = Some ''550e8400e29b41d4a716446655440000''" by code_simp+
  from uuid_texts_are_canonical [OF this] obtain c d where "canonical_uuid_hyphenated ''550E8400E29B41D4A716446655440000'' = Some c"
    "canonical_uuid_hyphenated ''{550e8400-e29b-41d4-a716-446655440000}'' = Some d" "canonical_uuid_hyphenated c = Some c"
    "c = d \<longleftrightarrow> eq_ignore_ascii_case ''550E8400E29B41D4A716446655440000'' ''550e8400e29b41d4a716446655440000''" by (elim exE conjE)
  moreover have "eq_ignore_ascii_case ''550E8400E29B41D4A716446655440000'' ''550e8400e29b41d4a716446655440000''" by code_simp
  ultimately show ?thesis by simp
qed

end
