(* ===== verification/Plpgsql.thy ===== *)
theory Plpgsql
  imports Session_Variables Sqlite_Eval
begin

text \<open>
  The translation of PL/pgSQL trigger bodies: \<open>src/src/impls/translator_impls/plpgsql/translator.rs\<close> with
  \<open>cte_builder.rs\<close>, and \<open>condition_injection.rs\<close>. SQLite has no control flow in a trigger, so a statement
  under an \<open>IF\<close> carries the conditions of the branches around it in its \<open>WHERE\<close>, and a variable is
  read through a common-table expression or a scalar subquery.

  A condition and the value of a variable travel as texts between printing and parsing. The model keeps
  the tree that was printed; \<open>read_text\<close> is the parser of the syntax-tree crate applied to the printed
  text. The tracking of the block being translated is the \<open>PlPgSqlContext\<close> of another crate: its
  operations are fields of \<open>services\<close>, over an unknown type of contexts. So are the traversals of the
  syntax-tree crate, and the parts of the translator that are not modelled here (the translation of one
  statement or expression, the rewriting of a query statement).
\<close>

section \<open>Statements\<close>

datatype (plugins only: code size) select_item = UnnamedExpr expr | OtherItem string

datatype (plugins only: code size) body_set_expr =
    SetSelect (items: "select_item list") (relations: string) (where_of: "expr option")
  | SetValues "expr list list"
  | SetRest string

datatype (plugins only: code size) body_with = SourceWith string | VariableCtes "(string \<times> expr) list"

datatype (plugins only: code size) body_query = BodyQuery (bq_with: "body_with option") (bq_body: body_set_expr) (bq_rest: string)

datatype (plugins only: code size) dml =
    DInsert table_object "object_name list" "body_query option" string
  | DUpdate string "expr option"
  | DDelete string "expr option"
  | DQuery body_query
  | DOther string

text \<open>A statement of a body. \<open>SET\<close> is how the body parser writes an assignment.\<close>

datatype (plugins only: code size) pl_stmt =
    PlAssign string "expr list"
  | PlSetOther string
  | PlIf pl_block "pl_block list" "pl_block option"
  | PlReturn "expr option"
  | PlDml dml
and pl_block = PlBlock (block_condition: "expr option") (block_statements: "pl_stmt list")

record variable_binding =
  vb_name :: string
  vb_expression :: expr

record 'c services =
  ctx_bindings :: "'c \<Rightarrow> variable_binding list"
  ctx_add_binding :: "'c \<Rightarrow> variable_binding \<Rightarrow> 'c"
  ctx_add_persistent_binding :: "'c \<Rightarrow> variable_binding \<Rightarrow> 'c"
  ctx_clear_scoped_bindings :: "'c \<Rightarrow> 'c"
  ctx_seed_default_bindings :: "'c \<Rightarrow> 'c"
  ctx_push_condition :: "'c \<Rightarrow> expr \<Rightarrow> 'c"
  ctx_pop_condition :: "'c \<Rightarrow> 'c"
  ctx_current_condition :: "'c \<Rightarrow> expr option"
  ctx_clear_uuid_first_use :: "'c \<Rightarrow> 'c"
  ctx_get_uuid_first_use :: "'c \<Rightarrow> string \<Rightarrow> (string \<times> string) option"
  ctx_record_uuid_first_use :: "'c \<Rightarrow> string \<Rightarrow> string \<Rightarrow> string \<Rightarrow> 'c"
  read_text :: "expr \<Rightarrow> expr tres"
  expr_text :: "expr \<Rightarrow> string"
  visit_finds :: "(expr \<Rightarrow> bool) \<Rightarrow> expr \<Rightarrow> bool"
  visit_finds_stmt :: "(expr \<Rightarrow> bool) \<Rightarrow> pl_stmt \<Rightarrow> bool"
  fold_specials_expr :: "'c \<Rightarrow> expr \<Rightarrow> expr tres"
  fold_specials_dml :: "'c \<Rightarrow> dml \<Rightarrow> dml tres"
  transform_condition :: "'c \<Rightarrow> expr \<Rightarrow> expr \<times> 'c"
  rename_uuid :: "expr \<Rightarrow> expr"
  translate_expr :: "string list \<Rightarrow> expr \<Rightarrow> expr tres"
  translate_dml :: "string list \<Rightarrow> dml \<Rightarrow> dml list tres"
  rewrite_query :: "string list \<Rightarrow> 'c \<Rightarrow> body_query \<Rightarrow> (dml list \<times> 'c) tres"
  substitute_expr :: "(string \<times> expr) list \<Rightarrow> expr \<Rightarrow> expr"
  substitute_set_expr :: "(string \<times> expr) list \<Rightarrow> body_set_expr \<Rightarrow> body_set_expr"
  substitute_query :: "(string \<times> expr) list \<Rightarrow> body_query \<Rightarrow> body_query"
  substitute_dml :: "(string \<times> expr) list \<Rightarrow> dml \<Rightarrow> dml"
  null_unbound :: "'c \<Rightarrow> variable_binding list \<Rightarrow> body_query \<Rightarrow> body_query"
  drop_unread_ctes :: "dml \<Rightarrow> dml"
  uuid_v7_name :: "string option"

section \<open>Guards (condition_injection.rs)\<close>

definition guarded :: "expr option \<Rightarrow> expr \<Rightarrow> expr" where
  "guarded existing condition = (case existing of
     None \<Rightarrow> condition
   | Some e \<Rightarrow> EBinaryOp (ENested e) OpAnd condition)"

fun inject_condition_into_dml_statement :: "dml \<Rightarrow> expr \<Rightarrow> dml tres" where
  "inject_condition_into_dml_statement (DInsert t cols None rest) condition =
     refuse (ForwardRefusal ''Cannot inject IF condition into INSERT without source'')"
| "inject_condition_into_dml_statement (DInsert t cols (Some (BodyQuery w (SetSelect its rels sel) q)) rest) condition =
     ok (DInsert t cols (Some (BodyQuery w (SetSelect its rels (Some (guarded sel condition))) q)) rest)"
| "inject_condition_into_dml_statement (DInsert t cols (Some s) rest) condition =
     refuse (ForwardRefusal ''Cannot inject IF condition into INSERT with non-SELECT source'')"
| "inject_condition_into_dml_statement (DUpdate u sel) condition = ok (DUpdate u (Some (guarded sel condition)))"
| "inject_condition_into_dml_statement (DDelete d sel) condition = ok (DDelete d (Some (guarded sel condition)))"
| "inject_condition_into_dml_statement (DQuery (BodyQuery w (SetSelect its rels sel) q)) condition =
     ok (DQuery (BodyQuery w (SetSelect its rels (Some (guarded sel condition))) q))"
| "inject_condition_into_dml_statement (DQuery q) condition =
     refuse (ForwardRefusal ''Cannot inject IF condition into a non-SELECT query'')"
| "inject_condition_into_dml_statement (DOther s) condition =
     refuse (ForwardRefusal ''Cannot inject IF condition into this statement variant'')"

definition inject_condition_into_statement :: "'c services \<Rightarrow> dml \<Rightarrow> expr \<Rightarrow> dml tres" where
  "inject_condition_into_statement srv stmt condition =
     res_bind (read_text srv condition) (inject_condition_into_dml_statement stmt)"

fun inject_all :: "'c services \<Rightarrow> dml list \<Rightarrow> expr option \<Rightarrow> dml list tres" where
  "inject_all srv ds None = ok ds"
| "inject_all srv [] (Some c) = ok []"
| "inject_all srv (d # ds) (Some c) =
     res_bind (inject_condition_into_statement srv d c) (\<lambda>d'.
     res_bind (inject_all srv ds (Some c)) (\<lambda>ds'. ok (d' # ds')))"

section \<open>Variables (translator.rs, cte_builder.rs)\<close>

definition same_binding :: "variable_binding \<Rightarrow> variable_binding \<Rightarrow> bool" where
  "same_binding left right \<longleftrightarrow> vb_name left = vb_name right \<and> vb_expression left = vb_expression right"

definition restore_scoped_bindings :: "'c services \<Rightarrow> 'c \<Rightarrow> variable_binding list \<Rightarrow> 'c" where
  "restore_scoped_bindings srv ctx scoped =
     foldl (ctx_add_binding srv) (ctx_clear_scoped_bindings srv ctx) scoped"

definition scoped_bindings :: "'c services \<Rightarrow> 'c \<Rightarrow> variable_binding list \<times> 'c" where
  "scoped_bindings srv ctx =
     (let visible = ctx_bindings srv ctx;
          cleared = ctx_clear_scoped_bindings srv ctx;
          surviving = ctx_bindings srv cleared;
          scoped = filter (\<lambda>b. \<not> list_ex (\<lambda>other. same_binding other b) surviving) visible
      in (scoped, restore_scoped_bindings srv cleared scoped))"

definition assignments_made :: "'c services \<Rightarrow> 'c \<Rightarrow> variable_binding list \<Rightarrow> variable_binding list \<times> 'c" where
  "assignments_made srv ctx outer =
     (let (scoped, ctx') = scoped_bindings srv ctx
      in (filter (\<lambda>b. \<not> list_ex (\<lambda>other. same_binding other b) outer) scoped, ctx'))"

type_synonym branch = "expr option \<times> variable_binding list"

definition assigned_names :: "branch list \<Rightarrow> string list" where
  "assigned_names branches =
     fold (\<lambda>b names. if vb_name b \<in> set names then names else names @ [vb_name b]) (concat (map snd branches)) []"

definition binding_named :: "string \<Rightarrow> variable_binding list \<Rightarrow> variable_binding option" where
  "binding_named name bs = find (\<lambda>b. vb_name b = name) bs"

text \<open>The arms of the \<open>CASE\<close> and its \<open>ELSE\<close>: a branch that does not assign the variable adds nothing.\<close>

fun branch_arms :: "string \<Rightarrow> branch list \<Rightarrow> expr \<Rightarrow> (expr \<times> expr) list \<times> expr" where
  "branch_arms name [] otherwise = ([], otherwise)"
| "branch_arms name ((condition, assignments) # branches) otherwise =
     (case binding_named name assignments of
        None \<Rightarrow> branch_arms name branches otherwise
      | Some assigned \<Rightarrow>
          (case condition of
             Some c \<Rightarrow> apfst (Cons (ENested c, ENested (vb_expression assigned))) (branch_arms name branches otherwise)
           | None \<Rightarrow> branch_arms name branches (vb_expression assigned)))"

definition branch_value :: "variable_binding list \<Rightarrow> branch list \<Rightarrow> string \<Rightarrow> expr" where
  "branch_value outer branches name =
     (let enclosing = (case binding_named name outer of None \<Rightarrow> EValue LNull | Some b \<Rightarrow> vb_expression b);
          (arms, otherwise) = branch_arms name branches enclosing
      in ECase None arms (Some (ENested otherwise)))"

definition bind_branch_assignments :: "'c services \<Rightarrow> 'c \<Rightarrow> variable_binding list \<Rightarrow> branch list \<Rightarrow> 'c" where
  "bind_branch_assignments srv ctx outer branches =
     foldl (ctx_add_binding srv) ctx
       (map (\<lambda>name. \<lparr>vb_name = name, vb_expression = branch_value outer branches name\<rparr>) (assigned_names branches))"

text \<open>The shapes a subquery takes; \<open>e IN UNNEST(...)\<close> is one of the nodes kept as a spelling.\<close>

fun is_subquery :: "expr \<Rightarrow> bool" where
  "is_subquery (ESubquery _) = True"
| "is_subquery (EExists _) = True"
| "is_subquery (EInSubquery _ _) = True"
| "is_subquery (EOther spelling _) = (spelling = ''IN UNNEST'')"
| "is_subquery _ = False"

definition contains_subquery :: "'c services \<Rightarrow> expr \<Rightarrow> bool" where
  "contains_subquery srv e = visit_finds srv is_subquery e"

definition handle_set_statement :: "'c services \<Rightarrow> 'c \<Rightarrow> string \<Rightarrow> expr list \<Rightarrow> 'c" where
  "handle_set_statement srv ctx variable vals = (case vals of
     [v] \<Rightarrow>
       (let binding = \<lparr>vb_name = variable, vb_expression = v\<rparr>
        in if contains_subquery srv v then ctx_add_persistent_binding srv ctx binding
           else ctx_add_binding srv ctx binding)
   | _ \<Rightarrow> ctx)"

fun names_identifier :: "string \<Rightarrow> expr \<Rightarrow> bool" where
  "names_identifier name (EIdentifier i) \<longleftrightarrow> ident_value i = name"
| "names_identifier name (ECompoundIdentifier is) \<longleftrightarrow> list_ex (\<lambda>i. ident_value i = name) is"
| "names_identifier name _ \<longleftrightarrow> False"

definition references_variable :: "'c services \<Rightarrow> expr \<Rightarrow> string \<Rightarrow> bool" where
  "references_variable srv e name = visit_finds srv (names_identifier name) e"

definition expression_names_variable :: "'c services \<Rightarrow> expr \<Rightarrow> string \<Rightarrow> bool" where
  "expression_names_variable srv expression variable = (case read_text srv expression of
     Inr e \<Rightarrow> references_variable srv e variable
   | Inl _ \<Rightarrow> False)"

definition ready_binding :: "'c services \<Rightarrow> variable_binding list \<Rightarrow> variable_binding \<Rightarrow> bool" where
  "ready_binding srv pending candidate \<longleftrightarrow>
     \<not> list_ex (\<lambda>other. vb_name other \<noteq> vb_name candidate
          \<and> expression_names_variable srv (vb_expression candidate) (vb_name other)) pending"

function order_loop :: "'c services \<Rightarrow> variable_binding list \<Rightarrow> variable_binding list \<Rightarrow> variable_binding list" where
  "order_loop srv ordered pending =
     (if pending = [] then ordered
      else case find_index (ready_binding srv pending) pending of
        Some i \<Rightarrow> order_loop srv (ordered @ [pending ! i]) (take i pending @ drop (Suc i) pending)
      | None \<Rightarrow> ordered @ pending)"
  by pat_completeness auto

termination order_loop
proof (relation "measure (\<lambda>(_, _, pending). length pending)")
  fix srv :: "'c services" and ordered pending i
  assume "find_index (ready_binding srv pending) pending = Some i"
  then have "i < length pending" by (simp add: find_index_SomeD)
  then show "((srv, ordered @ [pending ! i], take i pending @ drop (Suc i) pending), (srv, ordered, pending))
      \<in> measure (\<lambda>(_, _, pending). length pending)" by simp
qed simp

definition order_bindings_by_dependency :: "'c services \<Rightarrow> variable_binding list \<Rightarrow> variable_binding list" where
  "order_bindings_by_dependency srv bindings = order_loop srv [] bindings"

datatype (plugins only: code size) reference_form = CteForm | InlineForm

definition variable_reference :: "string \<Rightarrow> expr" where
  "variable_reference name = ESubquery (''SELECT val FROM '' @ name)"

fun form_reference :: "'c services \<Rightarrow> reference_form \<Rightarrow> string \<Rightarrow> expr \<Rightarrow> expr" where
  "form_reference srv CteForm name v = variable_reference name"
| "form_reference srv InlineForm name (ESubquery q) = ESubquery q"
| "form_reference srv InlineForm name v = ESubquery (''SELECT '' @ expr_text srv v)"

type_synonym variable_scope = "(string \<times> expr) list"

fun resolve_bindings :: "'c services \<Rightarrow> string list \<Rightarrow> reference_form \<Rightarrow> variable_binding list \<Rightarrow> (string \<times> expr) list
    \<Rightarrow> variable_scope \<Rightarrow> ((string \<times> expr) list \<times> variable_scope) tres" where
  "resolve_bindings srv vars form [] vals scope = ok (vals, scope)"
| "resolve_bindings srv vars form (b # bs) vals scope =
     res_bind (read_text srv (rename_uuid srv (vb_expression b))) (\<lambda>parsed.
     let translated = (case translate_expr srv vars parsed of Inr e \<Rightarrow> e | Inl _ \<Rightarrow> parsed);
         v = substitute_expr srv scope translated
     in resolve_bindings srv vars form bs (vals @ [(vb_name b, v)])
          (scope @ [(vb_name b, form_reference srv form (vb_name b) v)]))"

definition bound_values :: "'c services \<Rightarrow> string list \<Rightarrow> reference_form \<Rightarrow> variable_binding list
    \<Rightarrow> ((string \<times> expr) list \<times> variable_scope) tres" where
  "bound_values srv vars form bindings =
     resolve_bindings srv vars form (order_bindings_by_dependency srv bindings) [] []"

definition combine_ctes :: "(string \<times> expr) list \<Rightarrow> body_with option" where
  "combine_ctes ctes = (if ctes = [] then None else Some (VariableCtes ctes))"

section \<open>Statements of a body (translator.rs)\<close>

definition transform_values_to_select :: "'c services \<Rightarrow> expr list list \<Rightarrow> variable_scope \<Rightarrow> expr option \<Rightarrow> body_set_expr tres" where
  "transform_values_to_select srv rows scope condition = (case rows of
     [row] \<Rightarrow>
       res_bind (case condition of Some c \<Rightarrow> res_bind (read_text srv c) (\<lambda>e. ok (Some e)) | None \<Rightarrow> ok None) (\<lambda>selection.
         ok (substitute_set_expr srv scope (SetSelect (map UnnamedExpr row) [] selection)))
   | _ \<Rightarrow> refuse (UnsupportedSource ''Multi-row VALUES in trigger not supported''))"

definition insert_table_name :: "table_object \<Rightarrow> string tres" where
  "insert_table_name t = (case t of
     TableName n \<Rightarrow> ok (if n = [] then [] else case last n of Identifier i \<Rightarrow> ident_value i | NameFunction _ \<Rightarrow> [])
   | _ \<Rightarrow> refuse (ForwardRefusal ''INSERT into table function not supported''))"

definition column_name :: "object_name \<Rightarrow> string" where
  "column_name c = (case last_ident c of Some i \<Rightarrow> ident_value i | None \<Rightarrow> display_name c)"

definition contains_text :: "string \<Rightarrow> string \<Rightarrow> bool" where
  "contains_text pat s \<longleftrightarrow> find_sub pat s \<noteq> None"

definition is_uuid_generator :: "'c services \<Rightarrow> expr \<Rightarrow> bool" where
  "is_uuid_generator srv e =
     (let lowered = to_ascii_lowercase (expr_text srv e)
      in list_ex (\<lambda>call. contains_text call lowered)
           [''uuidv7()'', ''uuidv4()'', ''uuid_generate_v4()'', ''gen_random_uuid()''])"

definition first_use_expression :: "string \<times> string \<Rightarrow> expr" where
  "first_use_expression use =
     ESubquery (''SELECT '' @ snd use @ '' FROM '' @ fst use @ '' WHERE rowid = last_insert_rowid()'')"

definition uuid_columns_of_row :: "'c services \<Rightarrow> string \<Rightarrow> string list \<Rightarrow> body_query option \<Rightarrow> (string \<times> string) list" where
  "uuid_columns_of_row srv name columns source = (case source of
     Some (BodyQuery _ (SetValues (row # _)) _) \<Rightarrow>
       map (\<lambda>(e, c). (name, c)) (filter (\<lambda>(e, c). references_variable srv e name) (zip row columns))
   | _ \<Rightarrow> [])"

definition uuid_binding :: "'c services \<Rightarrow> 'c \<Rightarrow> string list \<Rightarrow> body_query option \<Rightarrow> variable_binding
    \<Rightarrow> variable_binding \<times> (string \<times> string) list" where
  "uuid_binding srv ctx columns source b =
     (if is_uuid_generator srv (vb_expression b) then
        (case ctx_get_uuid_first_use srv ctx (vb_name b) of
           Some use \<Rightarrow> (b\<lparr>vb_expression := first_use_expression use\<rparr>, [])
         | None \<Rightarrow> (b, uuid_columns_of_row srv (vb_name b) columns source))
      else (b, []))"

definition record_first_use :: "'c services \<Rightarrow> string \<Rightarrow> string \<times> string \<Rightarrow> 'c \<Rightarrow> 'c" where
  "record_first_use srv table vc ctx = (case ctx_get_uuid_first_use srv ctx (fst vc) of
     None \<Rightarrow> ctx_record_uuid_first_use srv ctx (fst vc) table (snd vc)
   | Some _ \<Rightarrow> ctx)"

text \<open>
  The \<open>WHERE\<close> of an \<open>INSERT ... SELECT\<close> takes the condition without the parentheses \<open>guarded\<close> puts around the
  clause that was there.
\<close>

definition conjoin_selection :: "'c services \<Rightarrow> expr option \<Rightarrow> expr option \<Rightarrow> expr option tres" where
  "conjoin_selection srv selection condition = (case condition of
     None \<Rightarrow> ok selection
   | Some c \<Rightarrow> res_bind (read_text srv c) (\<lambda>e. ok (Some (case selection of
       Some existing \<Rightarrow> EBinaryOp existing OpAnd e
     | None \<Rightarrow> e))))"

text \<open>The rewritten source of an \<open>INSERT\<close>; \<open>None\<close> for a source left to the plain translation.\<close>

definition guarded_source :: "'c services \<Rightarrow> body_query \<Rightarrow> (string \<times> expr) list \<Rightarrow> variable_scope \<Rightarrow> expr option
    \<Rightarrow> body_query option tres" where
  "guarded_source srv source ctes scope condition = (case source of BodyQuery w body rest \<Rightarrow>
     (case body of
        SetValues rows \<Rightarrow>
          res_bind (transform_values_to_select srv rows scope condition) (\<lambda>sel.
            ok (Some (BodyQuery (combine_ctes ctes) sel [])))
      | SetSelect its rels selection \<Rightarrow>
          res_bind (conjoin_selection srv selection condition) (\<lambda>sel.
            let new = substitute_query srv scope (BodyQuery None (SetSelect its rels sel) rest)
            in ok (Some (BodyQuery (combine_ctes ctes) (bq_body new) (bq_rest new))))
      | SetRest _ \<Rightarrow> ok None))"

definition translate_insert_statement :: "'c services \<Rightarrow> string list \<Rightarrow> 'c \<Rightarrow> table_object \<Rightarrow> object_name list
    \<Rightarrow> body_query option \<Rightarrow> string \<Rightarrow> (dml list \<times> 'c) tres" where
  "translate_insert_statement srv vars ctx t cols source rest =
     (let bindings = ctx_bindings srv ctx;
          condition = ctx_current_condition srv ctx;
          plain = (\<lambda>ctx. res_bind (translate_dml srv vars (DInsert t cols source rest)) (\<lambda>ds. ok (ds, ctx)))
      in if bindings = [] \<and> condition = None then plain ctx
         else res_bind (insert_table_name t) (\<lambda>table.
           let columns = map column_name cols;
               changed = map (uuid_binding srv ctx columns source) bindings;
               modified = map fst changed;
               ctx' = fold (record_first_use srv table) (concat (map snd changed)) ctx
           in res_bind (bound_values srv vars CteForm modified) (\<lambda>(ctes, scope).
              (case source of
                 None \<Rightarrow> plain ctx'
               | Some q \<Rightarrow>
                   res_bind (guarded_source srv q ctes scope (ctx_current_condition srv ctx')) (\<lambda>new.
                     case new of
                       None \<Rightarrow> plain ctx'
                     | Some q' \<Rightarrow>
                         res_bind (translate_dml srv vars (DInsert t cols (Some (null_unbound srv ctx' modified q')) rest))
                           (\<lambda>ds. ok (ds, ctx')))))))"

fun finalize_query_statements :: "'c services \<Rightarrow> string list \<Rightarrow> 'c \<Rightarrow> dml list \<Rightarrow> dml list tres" where
  "finalize_query_statements srv vars ctx [] = ok []"
| "finalize_query_statements srv vars ctx (d # ds) =
     res_bind (translate_dml srv vars d) (\<lambda>translated.
     res_bind (inject_all srv translated (ctx_current_condition srv ctx)) (\<lambda>injected.
     res_bind (finalize_query_statements srv vars ctx ds) (\<lambda>rest. ok (injected @ rest))))"

definition translate_query_statement :: "'c services \<Rightarrow> string list \<Rightarrow> 'c \<Rightarrow> body_query \<Rightarrow> (dml list \<times> 'c) tres" where
  "translate_query_statement srv vars ctx q =
     res_bind (rewrite_query srv vars ctx q) (\<lambda>(ds, ctx').
     res_bind (finalize_query_statements srv vars ctx' ds) (\<lambda>out. ok (out, ctx')))"

definition raise_ignore_statement :: dml where
  "raise_ignore_statement = DQuery (BodyQuery None (SetSelect
     [UnnamedExpr (simple_function_expr ''RAISE'' [EIdentifier (bare_ident ''IGNORE'')] None)] [] None) [])"

definition return_refusal :: "'c services \<Rightarrow> expr \<Rightarrow> translate_error" where
  "return_refusal srv e = ForwardRefusal (''RETURN '' @ expr_text srv e @ '' has no SQLite equivalent in a trigger body. ''
     @ ''A trigger can only proceed, which is RETURN NEW, or cancel the write, which is RETURN NULL.'')"

definition translate_return_statement :: "'c services \<Rightarrow> string list \<Rightarrow> 'c \<Rightarrow> expr option \<Rightarrow> dml list tres" where
  "translate_return_statement srv vars ctx v = (case v of
     None \<Rightarrow> ok []
   | Some (EValue LNull) \<Rightarrow> finalize_query_statements srv vars ctx [raise_ignore_statement]
   | Some (EIdentifier i) \<Rightarrow>
       if eq_ignore_ascii_case (ident_value i) ''new'' \<or> eq_ignore_ascii_case (ident_value i) ''old'' then ok []
       else refuse (return_refusal srv (EIdentifier i))
   | Some e \<Rightarrow> refuse (return_refusal srv e))"

definition translate_dml_statement :: "'c services \<Rightarrow> string list \<Rightarrow> 'c \<Rightarrow> dml \<Rightarrow> (dml list \<times> 'c) tres" where
  "translate_dml_statement srv vars ctx d = (case d of
     DInsert t cols source rest \<Rightarrow> translate_insert_statement srv vars ctx t cols source rest
   | DQuery q \<Rightarrow> translate_query_statement srv vars ctx q
   | DOther s \<Rightarrow>
       res_bind (translate_dml srv vars d) (\<lambda>translated.
       res_bind (inject_all srv translated (ctx_current_condition srv ctx)) (\<lambda>out. ok (out, ctx)))
   | _ \<Rightarrow>
       res_bind (translate_dml srv vars d) (\<lambda>translated.
       res_bind (bound_values srv vars InlineForm (ctx_bindings srv ctx)) (\<lambda>(_, scope).
       res_bind (inject_all srv (map (substitute_dml srv scope) translated) (ctx_current_condition srv ctx)) (\<lambda>out.
         ok (out, ctx)))))"

definition translate_plpgsql_condition :: "'c services \<Rightarrow> string list \<Rightarrow> 'c \<Rightarrow> variable_binding list \<Rightarrow> expr option
    \<Rightarrow> (expr \<times> 'c) tres" where
  "translate_plpgsql_condition srv vars ctx bindings condition = (case condition of
     None \<Rightarrow> ok (EValue (LBoolean True), ctx)
   | Some c \<Rightarrow>
       (let (transformed, ctx') = transform_condition srv ctx c
        in res_bind (fold_specials_expr srv ctx' transformed) (\<lambda>folded.
           res_bind (translate_expr srv vars folded) (\<lambda>translated.
             if bindings = [] then ok (translated, ctx')
             else res_bind (bound_values srv vars InlineForm bindings) (\<lambda>(_, scope).
               ok (substitute_expr srv scope translated, ctx'))))))"

text \<open>
  The trigger specials are folded in a whole statement, the statements of its branches included, before
  it is dispatched; the first failure is the answer.
\<close>

definition fold_option :: "('a \<Rightarrow> 'b tres) \<Rightarrow> 'a option \<Rightarrow> 'b option tres" where
  "fold_option f x = (case x of None \<Rightarrow> ok None | Some y \<Rightarrow> res_bind (f y) (\<lambda>z. ok (Some z)))"

fun fold_list :: "('a \<Rightarrow> 'b tres) \<Rightarrow> 'a list \<Rightarrow> 'b list tres" where
  "fold_list f [] = ok []"
| "fold_list f (x # xs) = res_bind (f x) (\<lambda>y. res_bind (fold_list f xs) (\<lambda>ys. ok (y # ys)))"

lemma fold_list_cong [fundef_cong]:
  "xs = ys \<Longrightarrow> (\<And>x. x \<in> set ys \<Longrightarrow> f x = g x) \<Longrightarrow> fold_list f xs = fold_list g ys"
  by (induction xs arbitrary: ys) auto

lemma fold_option_cong [fundef_cong]:
  "x = y \<Longrightarrow> (\<And>z. y = Some z \<Longrightarrow> f z = g z) \<Longrightarrow> fold_option f x = fold_option g y"
  by (auto simp: fold_option_def split: option.splits)

fun fold_trigger_specials_in_statement :: "'c services \<Rightarrow> 'c \<Rightarrow> pl_stmt \<Rightarrow> pl_stmt tres"
and fold_block :: "'c services \<Rightarrow> 'c \<Rightarrow> pl_block \<Rightarrow> pl_block tres" where
  "fold_trigger_specials_in_statement srv ctx (PlAssign v es) =
     res_bind (fold_list (fold_specials_expr srv ctx) es) (\<lambda>es'. ok (PlAssign v es'))"
| "fold_trigger_specials_in_statement srv ctx (PlSetOther s) = ok (PlSetOther s)"
| "fold_trigger_specials_in_statement srv ctx (PlIf b bs e) =
     res_bind (fold_block srv ctx b) (\<lambda>b'.
     res_bind (fold_list (fold_block srv ctx) bs) (\<lambda>bs'.
     res_bind (fold_option (fold_block srv ctx) e) (\<lambda>e'. ok (PlIf b' bs' e'))))"
| "fold_trigger_specials_in_statement srv ctx (PlReturn v) =
     res_bind (fold_option (fold_specials_expr srv ctx) v) (\<lambda>v'. ok (PlReturn v'))"
| "fold_trigger_specials_in_statement srv ctx (PlDml d) = res_bind (fold_specials_dml srv ctx d) (\<lambda>d'. ok (PlDml d'))"
| "fold_block srv ctx (PlBlock c ss) =
     res_bind (fold_option (fold_specials_expr srv ctx) c) (\<lambda>c'.
     res_bind (fold_list (fold_trigger_specials_in_statement srv ctx) ss) (\<lambda>ss'. ok (PlBlock c' ss')))"

text \<open>The nodes of a statement, which the folding leaves in place.\<close>

primrec weight :: "pl_stmt \<Rightarrow> nat" and block_weight :: "pl_block \<Rightarrow> nat" where
  "weight (PlAssign v es) = 1"
| "weight (PlSetOther s) = 1"
| "weight (PlIf b bs e) = 2 + block_weight b + sum_list (map (Suc \<circ> block_weight) bs) + (case map_option block_weight e of None \<Rightarrow> 0 | Some n \<Rightarrow> n)"
| "weight (PlReturn v) = 1"
| "weight (PlDml d) = 1"
| "block_weight (PlBlock c ss) = 1 + sum_list (map (Suc \<circ> weight) ss)"

lemma fold_list_sum:
  assumes "fold_list f xs = Inr ys" "\<And>x y. x \<in> set xs \<Longrightarrow> f x = Inr y \<Longrightarrow> g y = (g x :: nat)"
  shows "sum_list (map (Suc \<circ> g) ys) = sum_list (map (Suc \<circ> g) xs)"
  using assms by (induction xs arbitrary: ys) (auto simp: res_bind_eq_ok)

lemma folding_keeps_the_weight:
  "fold_trigger_specials_in_statement srv ctx s = Inr s' \<Longrightarrow> weight s' = weight s"
  "fold_block srv ctx b = Inr b' \<Longrightarrow> block_weight b' = block_weight b"
proof (induction srv ctx s and srv ctx b arbitrary: s' and b' rule: fold_trigger_specials_in_statement_fold_block.induct)
  case (3 srv ctx b bs e)
  then show ?case
    by (auto simp: res_bind_eq_ok fold_option_def split: option.splits dest!: fold_list_sum [where g = block_weight])
next
  case (6 srv ctx c ss)
  then show ?case
    by (auto simp: res_bind_eq_ok dest!: fold_list_sum [where g = weight])
qed (auto simp: res_bind_eq_ok)

definition negation_text :: "expr \<Rightarrow> expr" where
  "negation_text c = EUnaryOp UnNot (ENested c)"

text \<open>\<open>join(" AND ")\<close> of the negations, read as \<open>AND\<close> associates.\<close>

fun joined_with_and :: "expr list \<Rightarrow> expr" where
  "joined_with_and [] = EValue (LBoolean True)"
| "joined_with_and (c # cs) = foldl (\<lambda>l r. EBinaryOp l OpAnd r) c cs"

text \<open>
  The conditions pushed for the branches of a chain: the first as it is, each \<open>ELSIF\<close> behind the negations of
  those before it, and the \<open>ELSE\<close> behind all of them.
\<close>

definition elseif_guard :: "expr list \<Rightarrow> expr \<Rightarrow> expr" where
  "elseif_guard negated c = EBinaryOp (joined_with_and negated) OpAnd (ENested c)"

fun later_guards :: "expr list \<Rightarrow> expr list \<Rightarrow> expr list" where
  "later_guards negated [] = [joined_with_and negated]"
| "later_guards negated (c # cs) = elseif_guard negated c # later_guards (negated @ [negation_text c]) cs"

definition branch_guards :: "expr \<Rightarrow> expr list \<Rightarrow> expr list" where
  "branch_guards c cs = c # later_guards [negation_text c] cs"

lemma res_bind_cong [fundef_cong]:
  "r = r' \<Longrightarrow> (\<And>x. r' = Inr x \<Longrightarrow> f x = f' x) \<Longrightarrow> res_bind r f = res_bind r' f'"
  by (cases r') auto

text \<open>
  One branch: its statements under its condition, from the assignments of the enclosing block, and what
  it assigned. The branches of an \<open>IF\<close>, of its \<open>ELSIF\<close>s and of its \<open>ELSE\<close> go through the same steps.
\<close>

function (sequential) translate_statement :: "'c services \<Rightarrow> 'c \<Rightarrow> pl_stmt \<Rightarrow> (dml list \<times> 'c) tres"
and translate_statements :: "'c services \<Rightarrow> 'c \<Rightarrow> pl_stmt list \<Rightarrow> (dml list \<times> 'c) tres"
and translate_branch :: "'c services \<Rightarrow> variable_binding list \<Rightarrow> 'c \<Rightarrow> expr \<Rightarrow> pl_block \<Rightarrow> (dml list \<times> variable_binding list \<times> 'c) tres"
and translate_elseif_blocks :: "'c services \<Rightarrow> string list \<Rightarrow> variable_binding list \<Rightarrow> expr list \<Rightarrow> 'c \<Rightarrow> pl_block list
    \<Rightarrow> (dml list \<times> expr list \<times> branch list \<times> 'c) tres" where
  "translate_statement srv ctx stmt =
     (let vars = map vb_name (ctx_bindings srv ctx) in
      res_bind (fold_trigger_specials_in_statement srv ctx stmt) (\<lambda>folded. case folded of
        PlAssign variable vals \<Rightarrow> ok ([], handle_set_statement srv ctx variable vals)
      | PlSetOther _ \<Rightarrow> ok ([], ctx)
      | PlReturn v \<Rightarrow> res_bind (translate_return_statement srv vars ctx v) (\<lambda>ds. ok (ds, ctx))
      | PlDml d \<Rightarrow> translate_dml_statement srv vars ctx d
      | PlIf if_block elseif_blocks else_block \<Rightarrow>
          (let (outer, ctx1) = scoped_bindings srv ctx in
           res_bind (translate_plpgsql_condition srv vars ctx1 (ctx_bindings srv ctx1) (block_condition if_block)) (\<lambda>(c, ctx2).
           res_bind (translate_branch srv outer ctx2 c if_block) (\<lambda>(ds, made, ctx3).
           res_bind (translate_elseif_blocks srv vars outer [negation_text c] ctx3 elseif_blocks) (\<lambda>(ds', negated, branches, ctx4).
           res_bind (case else_block of
               None \<Rightarrow> ok ([], [], ctx4)
             | Some b \<Rightarrow> res_bind (translate_branch srv outer ctx4 (joined_with_and negated) b) (\<lambda>(ds, made, ctx5).
                 ok (ds, [(None, made)], ctx5))) (\<lambda>(ds'', last_branch, ctx5).
             ok (ds @ ds' @ ds'', bind_branch_assignments srv (restore_scoped_bindings srv ctx5 outer) outer
                   ((block_condition if_block, made) # branches @ last_branch)))))))))"
| "translate_statements srv ctx [] = ok ([], ctx)"
| "translate_statements srv ctx (s # ss) =
     res_bind (translate_statement srv ctx s) (\<lambda>(ds, ctx').
     res_bind (translate_statements srv ctx' ss) (\<lambda>(ds', ctx''). ok (ds @ ds', ctx'')))"
| "translate_branch srv outer ctx c (PlBlock condition ss) =
     res_bind (translate_statements srv
         (ctx_clear_uuid_first_use srv (restore_scoped_bindings srv (ctx_push_condition srv ctx c) outer)) ss) (\<lambda>(ds, ctx').
     let (made, ctx'') = assignments_made srv (ctx_pop_condition srv ctx') outer in ok (ds, made, ctx''))"
| "translate_elseif_blocks srv vars outer negated ctx [] = ok ([], negated, [], ctx)"
| "translate_elseif_blocks srv vars outer negated ctx (b # bs) =
     (let ctx1 = restore_scoped_bindings srv ctx outer in
      res_bind (translate_plpgsql_condition srv vars ctx1 (ctx_bindings srv ctx1) (block_condition b)) (\<lambda>(c, ctx2).
      res_bind (translate_branch srv outer ctx2 (elseif_guard negated c) b) (\<lambda>(ds, made, ctx3).
      res_bind (translate_elseif_blocks srv vars outer (negated @ [negation_text c]) ctx3 bs) (\<lambda>(ds', negated', branches, ctx4).
        ok (ds @ ds', negated', (block_condition b, made) # branches, ctx4)))))"
  by pat_completeness auto

termination
  by (relation "measure (\<lambda>x. case x of
      Inl (Inl (_, _, s)) \<Rightarrow> weight s
    | Inl (Inr (_, _, ss)) \<Rightarrow> sum_list (map (Suc \<circ> weight) ss)
    | Inr (Inl (_, _, _, _, b)) \<Rightarrow> block_weight b
    | Inr (Inr (_, _, _, _, _, bs)) \<Rightarrow> sum_list (map (Suc \<circ> block_weight) bs))")
    (auto dest!: folding_keeps_the_weight(1))

definition calls_uuid_v7 :: "'c services \<Rightarrow> pl_stmt \<Rightarrow> bool" where
  "calls_uuid_v7 srv = visit_finds_stmt srv (\<lambda>e. case e of
     EFunction f \<Rightarrow> (case last_ident (f_name f) of Some i \<Rightarrow> eq_ignore_ascii_case (ident_value i) ''uuidv7'' | None \<Rightarrow> False)
   | _ \<Rightarrow> False)"

definition translate_with_context :: "'c services \<Rightarrow> translate_error \<Rightarrow> 'c \<Rightarrow> pl_stmt list \<Rightarrow> dml list tres" where
  "translate_with_context srv uuid_v7_not_declared ctx body =
     (if uuid_v7_name srv = None \<and> list_ex (calls_uuid_v7 srv) body then refuse uuid_v7_not_declared
      else res_bind (translate_statements srv (ctx_seed_default_bindings srv ctx) body) (\<lambda>(ds, _).
        ok (map (drop_unread_ctes srv) ds)))"

section \<open>What a body means\<close>

text \<open>
  A printed \<open>WHERE\<close> carries no parentheses but those of its nested nodes, so SQLite reads it as a
  disjunction of conjunctions whatever the tree was. \<open>printed_disjuncts\<close> lists the disjuncts, each with the truth of
  the operands of its conjunction.
\<close>

fun where_holds :: "(expr \<Rightarrow> sval) \<Rightarrow> expr \<Rightarrow> bool"
and printed_disjuncts :: "(expr \<Rightarrow> sval) \<Rightarrow> expr \<Rightarrow> bool list list" where
  "where_holds env e = list_ex (list_all (\<lambda>b. b)) (printed_disjuncts env e)"
| "printed_disjuncts env (EBinaryOp l opr r) =
     (case opr of
        OpAnd \<Rightarrow> (let a = printed_disjuncts env l; b = printed_disjuncts env r in butlast a @ [last a @ hd b] @ tl b)
      | OpOr \<Rightarrow> printed_disjuncts env l @ printed_disjuncts env r
      | _ \<Rightarrow> [[truth (sqlite_eval env (EBinaryOp l opr r)) = Some (Some True)]])"
| "printed_disjuncts env (ENested e) = [[list_ex (list_all (\<lambda>b. b)) (printed_disjuncts env e)]]"
| "printed_disjuncts env e = [[truth (sqlite_eval env e) = Some (Some True)]]"

fun conjunctive :: "expr \<Rightarrow> bool" where
  "conjunctive (EBinaryOp l opr r) \<longleftrightarrow> opr \<noteq> OpOr \<and> (opr = OpAnd \<longrightarrow> conjunctive l \<and> conjunctive r)"
| "conjunctive _ \<longleftrightarrow> True"

declare where_holds.simps [simp del]

lemma conjunctive_reads: "conjunctive e \<Longrightarrow> \<exists>x. printed_disjuncts env e = [x]"
  by (induction e rule: conjunctive.induct) (auto simp: Let_def split: binary_operator.splits)

lemma where_holds_and:
  assumes "conjunctive l" "conjunctive r"
  shows "where_holds env (EBinaryOp l OpAnd r) \<longleftrightarrow> where_holds env l \<and> where_holds env r"
proof -
  obtain x y where "printed_disjuncts env l = [x]" "printed_disjuncts env r = [y]"
    using conjunctive_reads [OF assms(1)] conjunctive_reads [OF assms(2)] by blast
  then show ?thesis by (simp add: where_holds.simps)
qed

lemma where_holds_nested [simp]: "where_holds env (ENested e) \<longleftrightarrow> where_holds env e"
  by (simp add: where_holds.simps)

lemma where_holds_guarded:
  assumes "conjunctive c"
  shows "where_holds env (guarded existing c) \<longleftrightarrow>
    (case existing of None \<Rightarrow> True | Some e \<Rightarrow> where_holds env e) \<and> where_holds env c"
  using assms by (cases existing) (simp_all add: guarded_def where_holds_and)

lemma where_holds_negation:
  "truth (sqlite_eval env c) = Some (Some b) \<Longrightarrow> where_holds env (negation_text c) \<longleftrightarrow> \<not> b"
  by (simp add: where_holds.simps negation_text_def eval_simps)

lemma joined_with_and_holds:
  assumes "cs \<noteq> []" "list_all conjunctive cs"
  shows "conjunctive (joined_with_and cs) \<and> (where_holds env (joined_with_and cs) \<longleftrightarrow> list_all (where_holds env) cs)"
proof -
  have "conjunctive c \<Longrightarrow> list_all conjunctive cs \<Longrightarrow>
      conjunctive (foldl (\<lambda>l r. EBinaryOp l OpAnd r) c cs)
      \<and> (where_holds env (foldl (\<lambda>l r. EBinaryOp l OpAnd r) c cs) \<longleftrightarrow> where_holds env c \<and> list_all (where_holds env) cs)" for c cs
    by (induction cs arbitrary: c) (auto simp: where_holds_and)
  then show ?thesis using assms by (cases cs) auto
qed

text \<open>
  A database engine, as far as the guards need it: the rows a statement ranges over before its \<open>WHERE\<close>,
  what an expression answers on one of them, and what the statement does with those that pass.
\<close>

record ('st, 'r) engine =
  rows_of :: "dml \<Rightarrow> 'st \<Rightarrow> 'r list"
  row_env :: "'st \<Rightarrow> 'r \<Rightarrow> expr \<Rightarrow> sval"
  apply_rows :: "dml \<Rightarrow> 'r list \<Rightarrow> 'st \<Rightarrow> 'st"

fun selection_of :: "dml \<Rightarrow> expr option" where
  "selection_of (DInsert t cols (Some (BodyQuery w (SetSelect its rels sel) q)) rest) = sel"
| "selection_of (DUpdate u sel) = sel"
| "selection_of (DDelete d sel) = sel"
| "selection_of (DQuery (BodyQuery w (SetSelect its rels sel) q)) = sel"
| "selection_of _ = None"

fun clear_selection :: "dml \<Rightarrow> dml" where
  "clear_selection (DInsert t cols (Some (BodyQuery w (SetSelect its rels sel) q)) rest) =
     DInsert t cols (Some (BodyQuery w (SetSelect its rels None) q)) rest"
| "clear_selection (DUpdate u sel) = DUpdate u None"
| "clear_selection (DDelete d sel) = DDelete d None"
| "clear_selection (DQuery (BodyQuery w (SetSelect its rels sel) q)) = DQuery (BodyQuery w (SetSelect its rels None) q)"
| "clear_selection d = d"

definition run_statement :: "('st, 'r) engine \<Rightarrow> dml \<Rightarrow> 'st \<Rightarrow> 'st" where
  "run_statement eng d st = apply_rows eng (clear_selection d)
     (filter (\<lambda>r. case selection_of d of None \<Rightarrow> True | Some e \<Rightarrow> where_holds (row_env eng st r) e)
       (rows_of eng (clear_selection d) st)) st"

definition run_all :: "('st, 'r) engine \<Rightarrow> dml list \<Rightarrow> 'st \<Rightarrow> 'st" where
  "run_all eng ds st = fold (run_statement eng) ds st"

lemma run_all_simps [simp]:
  "run_all eng [] st = st" "run_all eng (d # ds) st = run_all eng ds (run_statement eng d st)"
  "run_all eng (ds @ ds') st = run_all eng ds' (run_all eng ds st)"
  by (simp_all add: run_all_def)

text \<open>PL/pgSQL runs the first branch whose condition is true, and the \<open>ELSE\<close> when there is none.\<close>

definition block_runs :: "(expr \<Rightarrow> bool) \<Rightarrow> pl_block \<Rightarrow> bool" where
  "block_runs verdict b = (case block_condition b of None \<Rightarrow> True | Some c \<Rightarrow> verdict c)"

lemma block_statements_weight: "sum_list (map (Suc \<circ> weight) (block_statements b)) < block_weight b"
  by (cases b) simp

function (sequential) pl_run :: "('st, 'r) engine \<Rightarrow> (expr \<Rightarrow> bool) \<Rightarrow> pl_stmt \<Rightarrow> 'st \<Rightarrow> 'st"
and pl_run_all :: "('st, 'r) engine \<Rightarrow> (expr \<Rightarrow> bool) \<Rightarrow> pl_stmt list \<Rightarrow> 'st \<Rightarrow> 'st"
and pl_run_branch :: "('st, 'r) engine \<Rightarrow> (expr \<Rightarrow> bool) \<Rightarrow> pl_block list \<Rightarrow> pl_block option \<Rightarrow> 'st \<Rightarrow> 'st" where
  "pl_run eng verdict (PlDml d) st = run_statement eng d st"
| "pl_run eng verdict (PlIf b bs els) st = pl_run_branch eng verdict (b # bs) els st"
| "pl_run eng verdict _ st = st"
| "pl_run_all eng verdict [] st = st"
| "pl_run_all eng verdict (s # ss) st = pl_run_all eng verdict ss (pl_run eng verdict s st)"
| "pl_run_branch eng verdict (b # bs) els st =
     (if block_runs verdict b then pl_run_all eng verdict (block_statements b) st
      else pl_run_branch eng verdict bs els st)"
| "pl_run_branch eng verdict [] els st =
     (case els of None \<Rightarrow> st | Some b \<Rightarrow> pl_run_all eng verdict (block_statements b) st)"
  by pat_completeness auto

termination
  by (relation "measure (\<lambda>x. case x of
      Inl (_, _, s, _) \<Rightarrow> weight s
    | Inr (Inl (_, _, ss, _)) \<Rightarrow> sum_list (map (Suc \<circ> weight) ss)
    | Inr (Inr (_, _, bs, els, _)) \<Rightarrow> sum_list (map (Suc \<circ> block_weight) bs)
        + (case map_option block_weight els of None \<Rightarrow> 0 | Some n \<Rightarrow> n))")
    (use block_statements_weight in \<open>auto simp: less_SucI trans_less_add1 comp_def\<close>)

lemma pl_run_branch_else:
  "pl_run_branch eng verdict bs els st =
     (if list_ex (block_runs verdict) bs then pl_run_branch eng verdict bs None st
      else case els of None \<Rightarrow> st | Some b \<Rightarrow> pl_run_all eng verdict (block_statements b) st)"
  by (induction bs) simp_all

end
