(* ===== verification/Plpgsql_Facts.thy ===== *)
theory Plpgsql_Facts
  imports Plpgsql "HOL-Library.Multiset"
begin

text \<open>
  What the translation of a trigger body keeps: the guarded statements of an \<open>IF\<close> chain run as
  PL/pgSQL runs the chain, the variables are resolved in an order in which each follows those it names, and a
  variable assigned in every branch reads after the \<open>IF\<close> as the branch that ran assigned it.
\<close>

section \<open>Branches\<close>












lemma pl_run_dmls [simp]: "pl_run_all eng verdict (map PlDml ds) st = run_all eng ds st"
  by (induction ds arbitrary: st) simp_all



text \<open>A context that is the stack of its conditions, and an engine that logs what ran, for the witness.\<close>

definition stack_services :: "expr list services" where
  "stack_services = \<lparr>ctx_bindings = (\<lambda>_. []), ctx_add_binding = (\<lambda>c _. c), ctx_add_persistent_binding = (\<lambda>c _. c),
     ctx_clear_scoped_bindings = (\<lambda>c. c), ctx_seed_default_bindings = (\<lambda>c. c), ctx_push_condition = (\<lambda>cs c. cs @ [c]),
     ctx_pop_condition = butlast, ctx_current_condition = (\<lambda>cs. if cs = [] then None else Some (joined_with_and cs)),
     ctx_clear_uuid_first_use = (\<lambda>c. c), ctx_get_uuid_first_use = (\<lambda>_ _. None), ctx_record_uuid_first_use = (\<lambda>c _ _ _. c),
     read_text = ok, expr_text = (\<lambda>_. []), visit_finds = (\<lambda>P e. P e), visit_finds_stmt = (\<lambda>_ _. False),
     fold_specials_expr = (\<lambda>_. ok), fold_specials_dml = (\<lambda>_. ok), transform_condition = (\<lambda>c e. (e, c)),
     rename_uuid = (\<lambda>e. e), translate_expr = (\<lambda>_. ok), translate_dml = (\<lambda>_ d. ok [d]),
     rewrite_query = (\<lambda>_ c q. ok ([DQuery q], c)), substitute_expr = (\<lambda>_ e. e), substitute_set_expr = (\<lambda>_ s. s), substitute_query = (\<lambda>_ q. q),
     substitute_dml = (\<lambda>_ d. d), null_unbound = (\<lambda>_ _ q. q), drop_unread_ctes = (\<lambda>d. d), uuid_v7_name = None\<rparr>"

fun written_table :: "dml \<Rightarrow> string" where
  "written_table (DUpdate u _) = u"
| "written_table (DDelete u _) = u"
| "written_table _ = ''insert''"

definition log_engine :: "(string list, unit) engine" where
  "log_engine = \<lparr>rows_of = (\<lambda>_ _. [()]),
     row_env = (\<lambda>_ _ e. if e = EIdentifier (bare_ident ''a'') then SInt 1 else SInt 0),
     apply_rows = (\<lambda>d rs st. if rs = [] then st else st @ [written_table d])\<rparr>"


text \<open>
  Outside these hypotheses the lowering departs from PL/pgSQL: under a null condition neither the branch
  nor the \<open>ELSE\<close> runs, and the condition added to an \<open>INSERT ... SELECT\<close> misses the first half of a bare \<open>OR\<close>.
\<close>

lemma null_condition_runs_neither_branch:
  "let body = [PlIf (PlBlock (Some (EValue LNull)) [PlDml (DUpdate ''t1'' None)]) [] (Some (PlBlock None [PlDml (DUpdate ''t2'' None)]))] in
   (case translate_with_context stack_services (ForwardRefusal []) [] body of
      Inr ds \<Rightarrow> run_all log_engine ds [] = [] | Inl _ \<Rightarrow> False)
   \<and> pl_run_all log_engine (\<lambda>_. False) body [] = [''t2'']"
  by code_simp

lemma printed_disjuncts_nonempty: "where_holds env0 e0 \<or> True" "printed_disjuncts env e \<noteq> []"
  by (induction env0 e0 and env e rule: where_holds_printed_disjuncts.induct) (auto simp: Let_def split: binary_operator.splits)

lemma guard_misses_the_first_disjunct:
  assumes "truth (sqlite_eval env (EIdentifier i)) = Some (Some True)"
  shows "where_holds env (EBinaryOp (EBinaryOp (EIdentifier i) OpOr r) OpAnd c)"
  using assms printed_disjuncts_nonempty(2) [of env r] by (cases "printed_disjuncts env r") (auto simp: where_holds.simps Let_def)

section \<open>Variables\<close>

definition depends_on :: "'c services \<Rightarrow> variable_binding \<Rightarrow> variable_binding \<Rightarrow> bool" where
  "depends_on srv b other \<longleftrightarrow> vb_name other \<noteq> vb_name b \<and> expression_names_variable srv (vb_expression b) (vb_name other)"

lemma ready_binding_iff: "ready_binding srv pending b \<longleftrightarrow> (\<forall>other\<in>set pending. \<not> depends_on srv b other)"
  by (auto simp: ready_binding_def depends_on_def list_ex_iff)

lemma mset_remove_nth: "i < length xs \<Longrightarrow> add_mset (xs ! i) (mset (take i xs @ drop (Suc i) xs)) = mset xs"
  by (subst id_take_nth_drop [of i xs]) simp_all

declare order_loop.simps [simp del]

lemma order_loop_mset: "mset (order_loop srv ordered pending) = mset ordered + mset pending"
proof (induction srv ordered pending rule: order_loop.induct)
  case (1 srv ordered pending)
  show ?case
  proof (cases "pending = [] \<or> find_index (ready_binding srv pending) pending = None")
    case True
    then show ?thesis by (auto simp: order_loop.simps [of srv ordered pending])
  next
    case False
    then obtain i where i: "find_index (ready_binding srv pending) pending = Some i" by auto
    then have "i < length pending" by (simp add: find_index_SomeD)
    from mset_remove_nth [OF this] 1(1) [OF _ i] False i show ?thesis
      by (simp add: order_loop.simps [of srv ordered pending])
  qed
qed

lemma some_binding_is_ready:
  assumes "pending \<noteq> []" "\<forall>b\<in>set pending. \<forall>other\<in>set pending. depends_on srv b other \<longrightarrow> rank (vb_name other) < (rank (vb_name b) :: nat)"
  shows "find_index (ready_binding srv pending) pending \<noteq> None"
proof -
  let ?b = "arg_min_on (\<lambda>b. rank (vb_name b)) (set pending)"
  have b: "?b \<in> set pending" "\<And>other. other \<in> set pending \<Longrightarrow> rank (vb_name ?b) \<le> rank (vb_name other)"
    using arg_min_if_finite [of "set pending" "\<lambda>b. rank (vb_name b)"] assms(1) by (auto simp: not_less)
  then have "ready_binding srv pending ?b"
    using assms(2) b(1) by (fastforce simp: ready_binding_iff not_less)
  then show ?thesis using b(1) by (auto simp: find_index_None_iff)
qed

lemma order_loop_sorted:
  assumes "\<forall>b\<in>set pending. \<forall>other\<in>set pending. depends_on srv b other \<longrightarrow> rank (vb_name other) < (rank (vb_name b) :: nat)"
    and "sorted_wrt (\<lambda>b other. \<not> depends_on srv b other) ordered" "\<forall>b\<in>set ordered. \<forall>other\<in>set pending. \<not> depends_on srv b other"
  shows "sorted_wrt (\<lambda>b other. \<not> depends_on srv b other) (order_loop srv ordered pending)"
  using assms
proof (induction srv ordered pending rule: order_loop.induct)
  case (1 srv ordered pending)
  show ?case
  proof (cases "pending = []")
    case True
    then show ?thesis using 1(3) by (simp add: order_loop.simps)
  next
    case False
    then obtain i where i: "find_index (ready_binding srv pending) pending = Some i"
      using some_binding_is_ready [OF False, of srv rank] 1(2) by auto
    let ?rest = "take i pending @ drop (Suc i) pending"
    have n: "i < length pending" "ready_binding srv pending (pending ! i)" using find_index_SomeD [OF i] by auto
    have sub: "set ?rest \<subseteq> set pending" by (auto dest: in_set_takeD in_set_dropD)
    have "sorted_wrt (\<lambda>b other. \<not> depends_on srv b other) (order_loop srv (ordered @ [pending ! i]) ?rest)"
    proof (rule 1(1) [OF False i])
      show "\<forall>b\<in>set ?rest. \<forall>other\<in>set ?rest. depends_on srv b other \<longrightarrow> rank (vb_name other) < rank (vb_name b)"
        using 1(2) sub by blast
      show "sorted_wrt (\<lambda>b other. \<not> depends_on srv b other) (ordered @ [pending ! i])"
        using 1(3, 4) n(1) by (simp add: sorted_wrt_append)
      show "\<forall>b\<in>set (ordered @ [pending ! i]). \<forall>other\<in>set ?rest. \<not> depends_on srv b other"
        using 1(4) n(2) sub by (auto simp: ready_binding_iff)
    qed
    then show ?thesis using False i by (simp add: order_loop.simps [of srv ordered pending])
  qed
qed

text \<open>
  C11. The bindings of a statement are resolved in an order that keeps all of them and in which no binding
  names one that comes later, whenever the naming has no cycle (some rank of the variables drops along it).
  So the common-table expression of a variable only reads those before it.
\<close>

theorem bindings_follow_what_they_name:
  assumes "\<forall>b\<in>set bindings. \<forall>other\<in>set bindings. depends_on srv b other
    \<longrightarrow> rank (vb_name other) < (rank (vb_name b) :: nat)"
  shows "mset (order_bindings_by_dependency srv bindings) = mset bindings
    \<and> sorted_wrt (\<lambda>b other. \<not> depends_on srv b other) (order_bindings_by_dependency srv bindings)"
  using order_loop_mset [of srv "[]" bindings] order_loop_sorted [OF assms, of "[]"]
  by (simp add: order_bindings_by_dependency_def)

theorem bindings_follow_what_they_name_witness:
  "let v = \<lparr>vb_name = ''v'', vb_expression = EIdentifier (bare_ident ''w'')\<rparr>; w = \<lparr>vb_name = ''w'', vb_expression = EValue LNull\<rparr> in
   order_bindings_by_dependency stack_services [v, w] = [w, v]
   \<and> sorted_wrt (\<lambda>b other. \<not> depends_on stack_services b other) (order_bindings_by_dependency stack_services [v, w])"
proof -
  let ?v = "\<lparr>vb_name = ''v'', vb_expression = EIdentifier (bare_ident ''w'')\<rparr>" and ?w = "\<lparr>vb_name = ''w'', vb_expression = EValue LNull\<rparr>"
  let ?rank = "\<lambda>n :: string. if n = ''v'' then 1 else 0 :: nat"
  have "\<forall>b\<in>set [?v, ?w]. \<forall>other\<in>set [?v, ?w]. depends_on stack_services b other \<longrightarrow> ?rank (vb_name other) < ?rank (vb_name b)"
    by (auto simp: depends_on_def expression_names_variable_def references_variable_def stack_services_def ok_def)
  note bindings_follow_what_they_name [OF this]
  moreover have "order_bindings_by_dependency stack_services [?v, ?w] = [?w, ?v]" by code_simp
  ultimately show ?thesis unfolding Let_def by blast
qed

section \<open>What a variable reads as after an IF\<close>

text \<open>The assignments of the branch PL/pgSQL takes; an \<open>ELSE\<close> has no condition and comes last.\<close>

fun branch_taken :: "(expr \<Rightarrow> sval) \<Rightarrow> branch list \<Rightarrow> variable_binding list option" where
  "branch_taken env [] = None"
| "branch_taken env ((condition, assignments) # branches) =
     (case condition of
        None \<Rightarrow> Some assignments
      | Some c \<Rightarrow> if truth (sqlite_eval env c) = Some (Some True) then Some assignments else branch_taken env branches)"

definition value_after :: "(expr \<Rightarrow> sval) \<Rightarrow> variable_binding list \<Rightarrow> string \<Rightarrow> sval" where
  "value_after env bindings name = (case binding_named name bindings of None \<Rightarrow> SNull | Some b \<Rightarrow> sqlite_eval env (vb_expression b))"

lemma branch_arms_evaluate:
  assumes "list_all (\<lambda>br. binding_named name (snd br) \<noteq> None) branches" "list_all (\<lambda>br. fst br \<noteq> None) (butlast branches)"
    and "list_all (\<lambda>br. pred_option (\<lambda>c. truth (sqlite_eval env c) \<noteq> None) (fst br)) branches"
    and "branch_arms name branches enclosing = (arms, otherwise)"
  shows "eval_branches env (Some (ENested otherwise)) arms =
    Some (case branch_taken env branches of Some bs \<Rightarrow> value_after env bs name | None \<Rightarrow> sqlite_eval env enclosing)"
  using assms
proof (induction name branches enclosing arbitrary: arms rule: branch_arms.induct)
  case (1 name enclosing)
  then show ?case by (simp add: eval_simps)
next
  case (2 name condition assignments branches enclosing)
  from "2.prems"(1) obtain assigned where a: "binding_named name assignments = Some assigned" by auto
  show ?case
  proof (cases condition)
    case None
    with "2.prems"(2) have "branches = []" by (cases branches) auto
    then show ?thesis using "2.prems"(4) a None by (auto simp: eval_simps value_after_def)
  next
    case (Some c)
    obtain arms' where arms: "branch_arms name branches enclosing = (arms', otherwise)" "arms = (ENested c, ENested (vb_expression assigned)) # arms'"
      using "2.prems"(4) a Some by (cases "branch_arms name branches enclosing") auto
    have "list_all (\<lambda>br. fst br \<noteq> None) (butlast branches)" using "2.prems"(2) by (cases branches) auto
    then show ?thesis
      using "2.IH"(3) [OF a Some _ _ _ arms(1)] "2.prems"(1, 3) a Some arms(2)
      by (auto simp: eval_simps value_after_def split: if_splits)
  qed
qed

text \<open>
  C10. A variable that every branch of an \<open>IF\<close> assigns reads after it as the \<open>CASE\<close> over the branch
  conditions that \<open>bind_branch_assignments\<close> binds, and that \<open>CASE\<close> answers the value the branch that ran
  assigned, also when a condition before it is null; when no branch ran, the value of the enclosing block,
  or null.
\<close>

theorem variables_read_what_the_branch_assigned:
  assumes "list_all (\<lambda>br. binding_named name (snd br) \<noteq> None) branches" "list_all (\<lambda>br. fst br \<noteq> None) (butlast branches)"
    and "list_all (\<lambda>br. pred_option (\<lambda>c. truth (sqlite_eval env c) \<noteq> None) (fst br)) branches"
  shows "sqlite_eval env (branch_value outer branches name) =
    (case branch_taken env branches of Some bs \<Rightarrow> value_after env bs name | None \<Rightarrow> value_after env outer name)"
proof -
  let ?enclosing = "case binding_named name outer of None \<Rightarrow> EValue LNull | Some b \<Rightarrow> vb_expression b"
  obtain arms otherwise where arms: "branch_arms name branches ?enclosing = (arms, otherwise)"
    by (cases "branch_arms name branches ?enclosing")
  have "sqlite_eval env ?enclosing = value_after env outer name"
    by (simp add: value_after_def eval_simps split: option.splits)
  then show ?thesis
    using branch_arms_evaluate [OF assms arms] arms
    by (simp add: branch_value_def Let_def eval_simps split: option.splits)
qed

theorem variables_read_what_the_branch_assigned_witness:
  "let assign = (\<lambda>n. [\<lparr>vb_name = ''v'', vb_expression = EValue (LNumber n False)\<rparr>]);
       branches = [(Some (EValue LNull), assign ''1''), (Some (EValue (LNumber ''1'' False)), assign ''2''), (None, assign ''3'')] in
   sqlite_eval (\<lambda>_. SNull) (branch_value [] branches ''v'') = SInt 2"
proof -
  let ?assign = "\<lambda>n. [\<lparr>vb_name = ''v'', vb_expression = EValue (LNumber n False)\<rparr>]"
  let ?branches = "[(Some (EValue LNull), ?assign ''1''), (Some (EValue (LNumber ''1'' False)), ?assign ''2''), (None, ?assign ''3'')]"
  have h: "list_all (\<lambda>br. binding_named ''v'' (snd br) \<noteq> None) ?branches" "list_all (\<lambda>br. fst br \<noteq> None) (butlast ?branches)"
    by (simp_all add: binding_named_def)
  have "sqlite_eval (\<lambda>_. SNull) (EValue (LNumber ''1'' False)) = SInt 1" "sqlite_eval (\<lambda>_. SNull) (EValue LNull) = SNull"
    by code_simp+
  then have t: "list_all (\<lambda>br. pred_option (\<lambda>c. truth (sqlite_eval (\<lambda>_. SNull) c) \<noteq> None) (fst br)) ?branches" by simp
  have "(case branch_taken (\<lambda>_. SNull) ?branches of Some bs \<Rightarrow> value_after (\<lambda>_. SNull) bs ''v'' | None \<Rightarrow> value_after (\<lambda>_. SNull) [] ''v'') = SInt 2"
    by code_simp
  then show ?thesis
    unfolding Let_def by (simp only: variables_read_what_the_branch_assigned [OF h t])
qed

text \<open>A branch that does not assign the variable is passed over, so another branch's value can answer for it.\<close>

lemma silent_branch_answers_another_value:
  "let one = EValue (LNumber ''1'' False);
       assign = (\<lambda>n. [\<lparr>vb_name = ''v'', vb_expression = EValue (LNumber n False)\<rparr>]);
       branches = [(Some one, []), (Some one, assign ''2'')] in
   sqlite_eval (\<lambda>_. SNull) (branch_value (assign ''7'') branches ''v'') = SInt 2
   \<and> branch_taken (\<lambda>_. SNull) branches = Some []"
  by code_simp

section \<open>Common-table expressions nothing reads\<close>

text \<open>
  The loop of \<open>UnreadCtePruner::post_visit_query\<close> over the definitions of a \<open>WITH\<close>, each a name with its
  query. \<open>body_reads\<close> and \<open>query_reads\<close> tell whether the query without its \<open>WITH\<close>, or a definition, reads a
  relation of that name.
\<close>

definition unread_cte :: "(string \<Rightarrow> bool) \<Rightarrow> ('q \<Rightarrow> string \<Rightarrow> bool) \<Rightarrow> (string \<times> 'q) list \<Rightarrow> nat \<Rightarrow> bool" where
  "unread_cte body_reads query_reads ctes i \<longleftrightarrow> \<not> body_reads (fst (ctes ! i))
     \<and> \<not> list_ex (\<lambda>j. j \<noteq> i \<and> query_reads (snd (ctes ! j)) (fst (ctes ! i))) [0..<length ctes]"

function prune_unread_ctes :: "(string \<Rightarrow> bool) \<Rightarrow> ('q \<Rightarrow> string \<Rightarrow> bool) \<Rightarrow> (string \<times> 'q) list \<Rightarrow> (string \<times> 'q) list" where
  "prune_unread_ctes body_reads query_reads ctes =
     (case find (unread_cte body_reads query_reads ctes) [0..<length ctes] of
        Some i \<Rightarrow> prune_unread_ctes body_reads query_reads (take i ctes @ drop (Suc i) ctes)
      | None \<Rightarrow> ctes)"
  by pat_completeness auto

termination
  by (relation "measure (\<lambda>(_, _, ctes). length ctes)") (auto simp: find_Some_iff)

declare prune_unread_ctes.simps [simp del]

text \<open>What the query reads, directly or through other definitions.\<close>

inductive read_through :: "(string \<Rightarrow> bool) \<Rightarrow> ('q \<Rightarrow> string \<Rightarrow> bool) \<Rightarrow> (string \<times> 'q) list \<Rightarrow> string \<times> 'q \<Rightarrow> bool"
  for body_reads query_reads ctes where
  by_the_body: "c \<in> set ctes \<Longrightarrow> body_reads (fst c) \<Longrightarrow> read_through body_reads query_reads ctes c"
| by_a_definition: "read_through body_reads query_reads ctes d \<Longrightarrow> c \<in> set ctes \<Longrightarrow> c \<noteq> d \<Longrightarrow> query_reads (snd d) (fst c)
    \<Longrightarrow> read_through body_reads query_reads ctes c"

lemma read_through_member: "read_through br qr ctes c \<Longrightarrow> c \<in> set ctes"
  by (induction rule: read_through.induct) auto

lemma unread_is_not_read_through:
  assumes "unread_cte br qr ctes i" "i < length ctes"
  shows "\<not> read_through br qr ctes (ctes ! i)"
proof
  assume "read_through br qr ctes (ctes ! i)"
  then show False
  proof cases
    case by_the_body
    then show ?thesis using assms by (simp add: unread_cte_def)
  next
    case (by_a_definition d)
    from read_through_member [OF by_a_definition(1)] obtain j where "j < length ctes" "d = ctes ! j" by (auto simp: in_set_conv_nth)
    then show ?thesis using by_a_definition(3, 4) assms by (auto simp: unread_cte_def list_ex_iff)
  qed
qed

lemma read_through_survives:
  assumes "read_through br qr ctes c" "unread_cte br qr ctes i" "i < length ctes"
  shows "read_through br qr (take i ctes @ drop (Suc i) ctes) c"
proof -
  have keep: "x \<in> set (take i ctes @ drop (Suc i) ctes)" if "x \<in> set ctes" "x \<noteq> ctes ! i" for x
    using that id_take_nth_drop [OF assms(3)] by (metis Un_iff set_append set_ConsD)
  show ?thesis
    using assms(1)
  proof (induction rule: read_through.induct)
    case (by_the_body c)
    then have "c \<noteq> ctes ! i" using assms(2) by (auto simp: unread_cte_def)
    with keep by_the_body(1) have "c \<in> set (take i ctes @ drop (Suc i) ctes)" by blast
    then show ?case using by_the_body(2) by (rule read_through.by_the_body)
  next
    case (by_a_definition d c)
    have "c \<noteq> ctes ! i"
      using unread_is_not_read_through [OF assms(2, 3)] read_through.by_a_definition [OF by_a_definition(1-4)] by blast
    then show ?case using keep by_a_definition by (blast intro: read_through.by_a_definition)
  qed
qed

text \<open>
  C12. The removal of unread definitions reaches a fixpoint: it ends with a part of the \<open>WITH\<close> in which
  every definition is read by the query or by another definition, and on the way it never drops one the
  query reads, directly or through others.
\<close>

theorem pruning_ends_with_what_is_read:
  "find (unread_cte body_reads query_reads (prune_unread_ctes body_reads query_reads ctes))
     [0..<length (prune_unread_ctes body_reads query_reads ctes)] = None
   \<and> mset (prune_unread_ctes body_reads query_reads ctes) \<subseteq># mset ctes
   \<and> Collect (read_through body_reads query_reads ctes) \<subseteq> set (prune_unread_ctes body_reads query_reads ctes)"
proof (induction body_reads query_reads ctes rule: prune_unread_ctes.induct)
  case (1 br qr ctes)
  show ?case
  proof (cases "find (unread_cte br qr ctes) [0..<length ctes]")
    case None
    then have "prune_unread_ctes br qr ctes = ctes" by (simp add: prune_unread_ctes.simps)
    then show ?thesis using None by (auto dest: read_through_member)
  next
    case (Some i)
    let ?rest = "take i ctes @ drop (Suc i) ctes"
    from Some have i: "i < length ctes" "unread_cte br qr ctes i" by (auto simp: find_Some_iff)
    have "mset ?rest \<subseteq># add_mset (ctes ! i) (mset ?rest)" by (simp add: subseteq_mset_def)
    then have "mset ?rest \<subseteq># mset ctes" by (simp only: mset_remove_nth [OF i(1)])
    moreover have "Collect (read_through br qr ctes) \<subseteq> Collect (read_through br qr ?rest)"
      using read_through_survives [OF _ i(2, 1)] by blast
    ultimately show ?thesis
      using 1 [OF Some] Some by (simp add: prune_unread_ctes.simps [of br qr ctes]) (meson subset_mset.order_trans subset_trans)
  qed
qed


end
