(* ===== verification/Column_Types.thy ===== *)
theory Column_Types
  imports Minor_Units Literal_Casts Uuids
begin

text \<open>
  Declared types and column definitions: \<open>src/src/impls/translator_impls/data_type.rs\<close> and \<open>column.rs\<close>. A declared type
  becomes one of SQLite's storage types, and what it bounded becomes \<open>CHECK\<close>s; a default is rewritten into the
  units the column stores. The translation of a single column option is a parameter, as is the conversion of
  a temporal default.
\<close>

section \<open>Declared types (data_type.rs)\<close>

datatype (plugins only: code size) char_length_units = UnitCharacters | UnitOctets

datatype (plugins only: code size) declared_length = LengthMax | IntegerLength nat "char_length_units option"

datatype (plugins only: code size) declared_type =
    DtText | DtInteger "nat option" | DtReal | DtBlob "nat option" | DtBytea | DtBinary "nat option" | DtVarbinary "nat option"
  | DtSmallInt "nat option" | DtInt "nat option" | DtBoolean | DtBool | DtBigInt "nat option" | DtInt8 "nat option"
  | DtInt4 "nat option" | DtInt2 "nat option" | DtTinyInt "nat option" | DtInt64
  | DtFloat "nat option" | DtDouble | DtDoublePrecision | DtFloat8 | DtFloat4
  | DtNumeric exact_number_info | DtDecimal exact_number_info | DtDec exact_number_info
  | DtChar "declared_length option" | DtCharacter "declared_length option" | DtVarchar "declared_length option"
  | DtCharacterVarying "declared_length option"
  | DtJSON | DtJSONB | DtClob "nat option" | DtNvarchar "declared_length option" | DtEnum | DtTsVector | DtTsQuery
  | DtTimestamp "nat option" tz_info | DtDate | DtDatetime "nat option" | DtTime "nat option" tz_info | DtInterval
  | DtBit "nat option" | DtBitVarying "nat option" | DtVarBit "nat option"
  | DtArray "declared_type option" | DtUuid | DtCustom object_name "string list" | DtUnsupported string

definition MAX_NUMERIC_PRECISION :: nat where
  "MAX_NUMERIC_PRECISION = 18"

text \<open>\<open>display\<close> is how the crate prints a type.\<close>

definition octets_refusal :: "(declared_type \<Rightarrow> string) \<Rightarrow> declared_type \<Rightarrow> translate_error" where
  "octets_refusal display t = ForwardRefusal (display t @ '' declares its length in OCTETS, and SQLite's length() counts characters, ''
     @ ''so the bound would measure the wrong thing. Declare the length in characters.'')"

definition declared_character_length :: "declared_type \<Rightarrow> declared_length option" where
  "declared_character_length t = (case t of
     DtChar d \<Rightarrow> d | DtCharacter d \<Rightarrow> d | DtVarchar d \<Rightarrow> d | DtCharacterVarying d \<Rightarrow> d | _ \<Rightarrow> None)"

definition character_length :: "(declared_type \<Rightarrow> string) \<Rightarrow> declared_type \<Rightarrow> nat option tres" where
  "character_length display t = (case declared_character_length t of
     None \<Rightarrow> ok None
   | Some LengthMax \<Rightarrow> ok None
   | Some (IntegerLength n unit) \<Rightarrow>
       if unit = None \<or> unit = Some UnitCharacters then ok (Some n) else refuse (octets_refusal display t))"

definition length_call :: "ident \<Rightarrow> expr" where
  "length_call column_name = simple_function_expr ''length'' [EIdentifier column_name] None"

definition character_length_bound_expr :: "ident \<Rightarrow> nat \<Rightarrow> expr" where
  "character_length_bound_expr column_name n = EBinaryOp (length_call column_name) OpLtEq (number_literal (show_nat n))"

definition exact_numeric_info :: "declared_type \<Rightarrow> exact_number_info option" where
  "exact_numeric_info t = (case t of DtNumeric i \<Rightarrow> Some i | DtDecimal i \<Rightarrow> Some i | DtDec i \<Rightarrow> Some i | _ \<Rightarrow> None)"

definition checked_precision :: "nat \<Rightarrow> nat \<Rightarrow> (nat \<times> nat) tres" where
  "checked_precision precision scale =
     (if MAX_NUMERIC_PRECISION < precision
      then refuse (ForwardRefusal (''NUMERIC('' @ show_nat precision @ '','' @ show_nat scale @ '') needs '' @ show_nat precision
        @ '' digits, and a SQLite INTEGER holds at most '' @ show_nat MAX_NUMERIC_PRECISION
        @ ''. The column would silently become a float, which is what the scaled integer exists to avoid. Reduce the precision, ''
        @ ''or store the value as TEXT and compare it in the application.''))
      else if precision < scale
      then refuse (ForwardRefusal (''NUMERIC('' @ show_nat precision @ '','' @ show_nat scale @ '') has a scale larger than its precision.''))
      else ok (precision, scale))"

definition numeric_precision_and_scale :: "exact_number_info \<Rightarrow> (nat \<times> nat) tres" where
  "numeric_precision_and_scale info = (case info of
     ExNone \<Rightarrow> refuse (ForwardRefusal (''NUMERIC and DECIMAL without a precision and scale have no SQLite form: the column is ''
       @ ''emitted as an INTEGER holding minor units, which needs a fixed scale to multiply by. Declare one, as NUMERIC(10,2).''))
   | ExPrecision p \<Rightarrow> checked_precision p 0
   | ExPrecisionAndScale p s \<Rightarrow>
       if s < 0 \<or> 2 ^ 32 \<le> s
       then refuse (ForwardRefusal (''NUMERIC('' @ show_nat p @ '','' @ show_int s
         @ '') has a negative scale, which cannot be a count of minor units.''))
       else checked_precision p (nat s))"

text \<open>\<open>e BETWEEN low AND high\<close> is one of the nodes kept as a spelling.\<close>

definition between_expr :: "expr \<Rightarrow> expr \<Rightarrow> expr \<Rightarrow> expr" where
  "between_expr e low high = EOther ''BETWEEN'' [e, low, high]"

definition numeric_precision_bound_expr :: "ident \<Rightarrow> nat \<Rightarrow> expr" where
  "numeric_precision_bound_expr column_name precision =
     (let magnitude = 10 ^ precision - 1 :: int
      in between_expr (EIdentifier column_name) (number_literal (show_int (- magnitude))) (number_literal (show_int magnitude)))"

definition bit_length :: "declared_type \<Rightarrow> (bool \<times> nat option) option" where
  "bit_length t = (case t of DtBit n \<Rightarrow> Some (True, n) | DtBitVarying n \<Rightarrow> Some (False, n) | DtVarBit n \<Rightarrow> Some (False, n) | _ \<Rightarrow> None)"

definition bit_length_check :: "ident \<Rightarrow> nat \<Rightarrow> binary_operator \<Rightarrow> expr" where
  "bit_length_check column_name n opr = EBinaryOp (length_call column_name) opr (number_literal (show_nat n))"

definition bit_exact_length_check_expr :: "ident \<Rightarrow> nat \<Rightarrow> expr" where
  "bit_exact_length_check_expr column_name n = bit_length_check column_name n OpEq"

definition bit_max_length_check_expr :: "ident \<Rightarrow> nat \<Rightarrow> expr" where
  "bit_max_length_check_expr column_name n = bit_length_check column_name n OpLtEq"

definition bit_binary_digits_check_expr :: "ident \<Rightarrow> expr" where
  "bit_binary_digits_check_expr column_name =
     EUnaryOp UnNot (ENested (EBinaryOp (EIdentifier column_name) (OpOther ''GLOB'') (string_literal ''*[^01]*'')))"

definition integer_range_between :: "ident \<Rightarrow> int \<Rightarrow> int \<Rightarrow> expr" where
  "integer_range_between column_name low high =
     between_expr (EIdentifier column_name) (number_literal (show_int low)) (number_literal (show_int high))"

definition small_int_range_bound_expr :: "ident \<Rightarrow> expr" where
  "small_int_range_bound_expr column_name = integer_range_between column_name (- 32768) 32767"

definition regular_int_range_bound_expr :: "ident \<Rightarrow> expr" where
  "regular_int_range_bound_expr column_name = integer_range_between column_name (- 2147483648) 2147483647"

definition SERIAL_NAMES :: "string list" where
  "SERIAL_NAMES = [''serial'', ''smallserial'', ''bigserial'', ''largeserial'']"

definition is_serial_type :: "declared_type \<Rightarrow> bool" where
  "is_serial_type t = (case t of
     DtCustom name _ \<Rightarrow> (case last_catalog_name name of Some n \<Rightarrow> n \<in> set SERIAL_NAMES | None \<Rightarrow> False)
   | _ \<Rightarrow> False)"

definition POSTGRES_BUILTINS :: "string list" where
  "POSTGRES_BUILTINS = [''money'', ''oid'', ''xid'', ''cid'', ''tid'', ''inet'', ''cidr'', ''macaddr'', ''macaddr8'', ''xml'', ''citext'',
     ''hstore'', ''int4range'', ''int8range'', ''numrange'', ''tsrange'', ''tstzrange'', ''daterange'', ''int4multirange'',
     ''int8multirange'', ''nummultirange'', ''tsmultirange'', ''tstzmultirange'', ''datemultirange'', ''txid_snapshot'', ''pg_lsn'',
     ''aclitem'', ''ltree'', ''lquery'', ''ltxtquery'']"

definition translate_custom_type :: "object_name \<Rightarrow> declared_type tres" where
  "translate_custom_type name =
     (let unknown = (\<lambda>n. if n \<in> set POSTGRES_BUILTINS
           then refuse (ForwardRefusal (display_name name @ '' is a PostgreSQL built-in type with no SQLite equivalent. ''
             @ ''Remap the column to a supported type before translating.''))
           else refuse (ForwardRefusal (display_name name @ '' has no SQLite equivalent. If this is an enum or domain, remap it to a ''
             @ ''base type (TEXT or INTEGER) before translating.'')))
      in case last_catalog_name name of
           None \<Rightarrow> unknown []
         | Some n \<Rightarrow>
             if n \<in> set SERIAL_NAMES then ok (DtInteger None)
             else if n = ''countrycode'' then ok DtText
             else if n = ''halfvec'' then refuse (ForwardRefusal ''half-precision halfvec storage is not supported by sqlite-vec'')
             else if n \<in> {''geometry'', ''geography'', ''cas'', ''molecularformula'', ''mediatype'', ''vector''} then ok (DtBlob None)
             else unknown n)"

record type_parameters =
  show_type :: "declared_type \<Rightarrow> string"
  json_arrays :: bool
  uuid_settings :: uuid_options

definition representation_required :: "string \<Rightarrow> translate_error" where
  "representation_required what = ForwardRefusal (what @ '' needs an array representation: SQLite has no array type, so ''
     @ ''pg2sqlite only emits array translations when the caller declares how arrays are stored. Call ''
     @ ''`Pg2SqliteOptions::with_array_representation(ArrayRepresentation::Json)` to store arrays as JSON array text and translate ''
     @ ''array operations through the json1 extension.'')"

definition translate_array_type :: "type_parameters \<Rightarrow> declared_type option \<Rightarrow> declared_type tres" where
  "translate_array_type par element =
     (let scaled = Option.bind element (\<lambda>t. Option.bind (exact_numeric_info t) (\<lambda>info.
        case numeric_precision_and_scale info of Inr (_, scale) \<Rightarrow> (if 0 < scale then Some scale else None) | Inl _ \<Rightarrow> None))
      in case scaled of
           Some scale \<Rightarrow> refuse (ForwardRefusal (''NUMERIC(p,'' @ show_nat scale @ '')[] cannot be translated: the scalar column stores ''
             @ ''minor units (D1) but array elements have no scale context. Store values as scaled integers in a separate table.''))
         | None \<Rightarrow> if json_arrays par then ok DtText
             else refuse (representation_required (''The array type '' @ show_type par (DtArray element))))"

definition translate_data_type :: "type_parameters \<Rightarrow> declared_type \<Rightarrow> declared_type tres" where
  "translate_data_type par t = (case t of
     DtText \<Rightarrow> ok t | DtInteger None \<Rightarrow> ok t | DtReal \<Rightarrow> ok t | DtBlob _ \<Rightarrow> ok (DtBlob None)
   | DtBytea \<Rightarrow> ok (DtBlob None) | DtBinary _ \<Rightarrow> ok (DtBlob None) | DtVarbinary _ \<Rightarrow> ok (DtBlob None)
   | DtSmallInt _ \<Rightarrow> ok (DtInteger None) | DtInt _ \<Rightarrow> ok (DtInteger None) | DtInteger (Some _) \<Rightarrow> ok (DtInteger None)
   | DtBoolean \<Rightarrow> ok (DtInteger None) | DtBool \<Rightarrow> ok (DtInteger None) | DtBigInt _ \<Rightarrow> ok (DtInteger None)
   | DtInt8 _ \<Rightarrow> ok (DtInteger None) | DtInt4 _ \<Rightarrow> ok (DtInteger None) | DtInt2 _ \<Rightarrow> ok (DtInteger None)
   | DtTinyInt _ \<Rightarrow> ok (DtInteger None) | DtInt64 \<Rightarrow> ok (DtInteger None)
   | DtFloat _ \<Rightarrow> ok DtReal | DtDouble \<Rightarrow> ok DtReal | DtDoublePrecision \<Rightarrow> ok DtReal | DtFloat8 \<Rightarrow> ok DtReal | DtFloat4 \<Rightarrow> ok DtReal
   | DtNumeric i \<Rightarrow> res_bind (numeric_precision_and_scale i) (\<lambda>_. ok (DtInteger None))
   | DtDecimal i \<Rightarrow> res_bind (numeric_precision_and_scale i) (\<lambda>_. ok (DtInteger None))
   | DtDec i \<Rightarrow> res_bind (numeric_precision_and_scale i) (\<lambda>_. ok (DtInteger None))
   | DtChar _ \<Rightarrow> res_bind (character_length (show_type par) t) (\<lambda>_. ok DtText)
   | DtCharacter _ \<Rightarrow> res_bind (character_length (show_type par) t) (\<lambda>_. ok DtText)
   | DtVarchar _ \<Rightarrow> res_bind (character_length (show_type par) t) (\<lambda>_. ok DtText)
   | DtCharacterVarying _ \<Rightarrow> res_bind (character_length (show_type par) t) (\<lambda>_. ok DtText)
   | DtJSON \<Rightarrow> ok DtText | DtJSONB \<Rightarrow> ok DtText | DtClob _ \<Rightarrow> ok DtText | DtNvarchar _ \<Rightarrow> ok DtText | DtEnum \<Rightarrow> ok DtText
   | DtTsVector \<Rightarrow> ok DtText | DtTsQuery \<Rightarrow> ok DtText | DtTimestamp _ _ \<Rightarrow> ok DtText | DtDate \<Rightarrow> ok DtText
   | DtDatetime _ \<Rightarrow> ok DtText | DtTime _ _ \<Rightarrow> ok DtText | DtInterval \<Rightarrow> ok DtText
   | DtBit _ \<Rightarrow> ok DtText | DtBitVarying _ \<Rightarrow> ok DtText | DtVarBit _ \<Rightarrow> ok DtText
   | DtArray element \<Rightarrow> translate_array_type par element
   | DtUuid \<Rightarrow> (case uuid_representation_of (uuid_settings par) of
       Some UuidBlob \<Rightarrow> ok (DtBlob None) | Some UuidText \<Rightarrow> ok DtText
     | None \<Rightarrow> refuse (ForwardRefusal ''UUID translation requires specifying a representation (TEXT or BLOB)''))
   | DtCustom name _ \<Rightarrow> translate_custom_type name
   | DtUnsupported s \<Rightarrow> refuse (ForwardRefusal (''The data type '' @ s @ '' is not supported'')))"

definition minor_unit_scale :: "declared_type \<Rightarrow> nat option" where
  "minor_unit_scale t = Option.bind (exact_numeric_info t) (\<lambda>info.
     case numeric_precision_and_scale info of Inr (_, scale) \<Rightarrow> (if 0 < scale then Some scale else None) | Inl _ \<Rightarrow> None)"

section \<open>Column definitions (column.rs)\<close>

record primary_key_constraint =
  pk_name :: "string option"
  pk_columns :: "string list"
  pk_plain :: bool

text \<open>\<open>pk_plain\<close>: no index name, index type, included columns, index options or characteristics.\<close>

datatype (plugins only: code size) column_opt =
    OptDefault expr
  | OptPrimaryKey primary_key_constraint
  | OptGenerated bool "string list option"
  | OptCheck expr
  | OptAutoincrement
  | OptOther string

text \<open>\<open>OptGenerated computed sequence_options\<close>; \<open>computed\<close> when it has a generation expression.\<close>

type_synonym column_option_def = "string option \<times> column_opt"

record column_def =
  col_name :: ident
  col_type :: declared_type
  col_options :: "column_option_def list"

definition lift_refusal :: "'a xres \<Rightarrow> 'a tres" where
  "lift_refusal r = (case r of Inr x \<Rightarrow> ok x | Inl (Err m) \<Rightarrow> refuse (ForwardRefusal m) | Inl Panic \<Rightarrow> Inl Panic)"

fun peel_nested_expr :: "expr \<Rightarrow> expr" where
  "peel_nested_expr (ENested e) = peel_nested_expr e"
| "peel_nested_expr e = e"

definition scaled_numeric_default :: "expr \<Rightarrow> nat \<Rightarrow> expr option tres" where
  "scaled_numeric_default e scale =
     (let peeled = peel_nested_expr e in
      res_bind (lift_refusal (scale_decimal_literal peeled scale)) (\<lambda>scaled. case scaled of
        Some s \<Rightarrow> ok (Some s)
      | None \<Rightarrow>
          if peeled = EValue LNull then ok (Some peeled)
          else (case single_quoted_literal peeled of
            Some t \<Rightarrow> (case quoted_decimal_as_number t of
              Some number \<Rightarrow> lift_refusal (scale_decimal_literal number scale)
            | None \<Rightarrow> ok None)
          | None \<Rightarrow> ok None)))"

definition rounded_digits :: "bool \<Rightarrow> string \<Rightarrow> string option" where
  "rounded_digits negated digits =
     (if CHR ''e'' \<in> set digits \<or> CHR ''E'' \<in> set digits then None
      else let (whole, fraction) = (case split_once (CHR ''.'') digits of None \<Rightarrow> (digits, []) | Some p \<Rightarrow> p);
               sign = (if negated then ''-'' else []) in
        if list_all (\<lambda>c. c = CHR ''0'') fraction then Some (sign @ whole)
        else Option.bind (parse_i64 whole) (\<lambda>whole_val.
          let rounded = (if code (CHR ''5'') \<le> code (hd fraction) then whole_val + 1 else whole_val)
          in Some (sign @ show_int rounded)))"

fun round_literal_to_integer :: "expr \<Rightarrow> expr option" where
  "round_literal_to_integer (EValue (LNumber digits _)) = map_option number_literal (rounded_digits False digits)"
| "round_literal_to_integer (EUnaryOp UnMinus (EValue (LNumber digits _))) = map_option number_literal (rounded_digits True digits)"
| "round_literal_to_integer _ = None"

definition round_scale_zero_default :: "declared_type \<Rightarrow> expr \<Rightarrow> expr" where
  "round_scale_zero_default t e = (case exact_numeric_info t of
     None \<Rightarrow> e
   | Some info \<Rightarrow> (case numeric_precision_and_scale info of
       Inl _ \<Rightarrow> e
     | Inr (_, scale) \<Rightarrow>
         if scale \<noteq> 0 then e
         else let peeled = peel_nested_expr e
           in (case round_literal_to_integer peeled of Some r \<Rightarrow> r | None \<Rightarrow> peeled)))"

definition typed_text_literal :: "declared_type \<Rightarrow> expr \<Rightarrow> expr option tres" where
  "typed_text_literal t e =
     (if minor_unit_scale t \<noteq> None then lift_refusal (numeric_text_literal e)
      else if t = DtBool \<or> t = DtBoolean then boolean_text_literal e
      else ok None)"

definition off_scale_refusal :: "ident \<Rightarrow> translate_error" where
  "off_scale_refusal name = ForwardRefusal (''the DEFAULT on column '' @ [CHR 0x27] @ display_ident name @ [CHR 0x27]
     @ '' does not land as one number at the column's scale. The column is a NUMERIC held as an INTEGER of minor units, so the ''
     @ ''default has to be a plain literal, which PostgreSQL coerces the same way. Write it as a number at the column's scale, ''
     @ ''or drop it.'')"

definition scaled_default :: "column_def \<Rightarrow> expr \<Rightarrow> expr tres" where
  "scaled_default column e = (case minor_unit_scale (col_type column) of
     None \<Rightarrow> res_bind (typed_text_literal (col_type column) e) (\<lambda>boolean. case boolean of
       Some b \<Rightarrow> ok b
     | None \<Rightarrow> ok (round_scale_zero_default (col_type column) e))
   | Some scale \<Rightarrow> res_bind (scaled_numeric_default e scale) (\<lambda>r. case r of
       Some s \<Rightarrow> ok s
     | None \<Rightarrow> refuse (off_scale_refusal (col_name column))))"

record column_parameters =
  types :: type_parameters
  projected_by :: "expr \<Rightarrow> expr option"
  rebuild_with :: "expr \<Rightarrow> expr"
  temporal_cast :: "declared_type \<Rightarrow> expr \<Rightarrow> expr option"
  translate_option :: "column_option_def \<Rightarrow> column_option_def option tres"
  temporal_default :: "declared_type \<Rightarrow> expr \<Rightarrow> column_option_def option \<Rightarrow> column_option_def option tres"

text \<open>\<open>temporal_cast\<close> is the cast to a temporal type, \<open>None\<close> for a type that has no temporal literals.\<close>

definition uuid_default :: "column_parameters \<Rightarrow> column_def \<Rightarrow> expr \<Rightarrow> expr tres option" where
  "uuid_default par column e =
     (if col_type column = DtUuid \<and> is_blob_uuid_representation (uuid_settings (types par))
      then Some (wrap_uuid_column_default (projected_by par) (rebuild_with par) (ident_value (col_name column)) e (uuid_settings (types par)))
      else None)"

definition find_default :: "column_def \<Rightarrow> expr option" where
  "find_default column = (case List.map_filter (\<lambda>o'. case snd o' of OptDefault e \<Rightarrow> Some e | _ \<Rightarrow> None) (col_options column) of
     [] \<Rightarrow> None | e # _ \<Rightarrow> Some e)"

definition declared_default :: "column_parameters \<Rightarrow> column_def \<Rightarrow> expr option tres" where
  "declared_default par column = (case find_default column of
     None \<Rightarrow> ok None
   | Some e \<Rightarrow> res_bind (scaled_default column e) (\<lambda>scaled.
       res_bind (case uuid_default par column scaled of
         Some wrapped \<Rightarrow> wrapped
       | None \<Rightarrow> ok (case temporal_cast par (col_type column) scaled of Some c \<Rightarrow> c | None \<Rightarrow> scaled)) (\<lambda>d. ok (Some d))))"

definition integer_range_bound :: "column_def \<Rightarrow> expr option" where
  "integer_range_bound column = (case col_type column of
     DtSmallInt _ \<Rightarrow> Some (small_int_range_bound_expr (col_name column))
   | DtInt2 _ \<Rightarrow> Some (small_int_range_bound_expr (col_name column))
   | DtInt _ \<Rightarrow> Some (regular_int_range_bound_expr (col_name column))
   | DtInteger _ \<Rightarrow> Some (regular_int_range_bound_expr (col_name column))
   | DtInt4 _ \<Rightarrow> Some (regular_int_range_bound_expr (col_name column))
   | _ \<Rightarrow> None)"

definition opt_list :: "'a option \<Rightarrow> 'a list" where
  "opt_list x = (case x of None \<Rightarrow> [] | Some y \<Rightarrow> [y])"

definition bit_bounds :: "column_def \<Rightarrow> expr list" where
  "bit_bounds column = (case bit_length (col_type column) of
     None \<Rightarrow> []
   | Some (fixed, declared) \<Rightarrow>
       opt_list (map_option (\<lambda>n. if fixed then bit_exact_length_check_expr (col_name column) n
         else bit_max_length_check_expr (col_name column) n) declared)
       @ [bit_binary_digits_check_expr (col_name column)])"

definition declared_bound_checks :: "type_parameters \<Rightarrow> column_def \<Rightarrow> expr list tres" where
  "declared_bound_checks par column =
     res_bind (case exact_numeric_info (col_type column) of
         None \<Rightarrow> ok []
       | Some info \<Rightarrow> res_bind (numeric_precision_and_scale info) (\<lambda>(precision, _).
           ok [numeric_precision_bound_expr (col_name column) precision])) (\<lambda>numeric.
     res_bind (character_length (show_type par) (col_type column)) (\<lambda>declared.
       ok ((if col_type column = DtUuid \<and> is_blob_uuid_representation (uuid_settings par)
            then [uuid_blob_length_check_expr (col_name column)] else [])
         @ numeric @ opt_list (integer_range_bound column)
         @ opt_list (map_option (character_length_bound_expr (col_name column)) declared)
         @ bit_bounds column)))"

definition declares_identity :: "column_option_def list \<Rightarrow> bool" where
  "declares_identity opts = list_ex (\<lambda>o'. case snd o' of OptGenerated computed _ \<Rightarrow> \<not> computed | _ \<Rightarrow> False) opts"

definition is_primary_key_option :: "column_option_def \<Rightarrow> bool" where
  "is_primary_key_option o' = (case snd o' of OptPrimaryKey _ \<Rightarrow> True | _ \<Rightarrow> False)"

definition primary_key_column_names :: "primary_key_constraint list \<Rightarrow> string list" where
  "primary_key_column_names keys = concat (map pk_columns keys)"

definition is_rowid_alias :: "declared_type \<Rightarrow> column_def \<Rightarrow> primary_key_constraint list \<Rightarrow> bool" where
  "is_rowid_alias translated column keys \<longleftrightarrow> translated = DtInteger None
     \<and> (list_ex is_primary_key_option (col_options column)
        \<or> (case primary_key_column_names keys of
             [only] \<Rightarrow> eq_ignore_ascii_case only (ident_value (col_name column)) | _ \<Rightarrow> False))"

definition folded_primary_key :: "column_def \<Rightarrow> primary_key_constraint list \<Rightarrow> column_option_def option" where
  "folded_primary_key column keys = (case keys of
     [key] \<Rightarrow>
       if \<not> (is_serial_type (col_type column) \<or> declares_identity (col_options column)) then None
       else if list_ex is_primary_key_option (col_options column) then None
       else if \<not> pk_plain key then None
       else (case pk_columns key of
         [only] \<Rightarrow> if eq_ignore_ascii_case only (ident_value (col_name column))
           then Some (pk_name key, OptPrimaryKey (key\<lparr>pk_name := None, pk_columns := []\<rparr>)) else None
       | _ \<Rightarrow> None)
   | _ \<Rightarrow> None)"

definition no_value_source :: "ident \<Rightarrow> bool \<Rightarrow> translate_error" where
  "no_value_source column is_serial = ForwardRefusal ((if is_serial then ''SERIAL'' else ''GENERATED AS IDENTITY'')
     @ '' on column '' @ [CHR 0x27] @ display_ident column @ [CHR 0x27] @ '' cannot be expressed in SQLite. It asks the database to ''
     @ ''supply the value, and SQLite does that only for an INTEGER PRIMARY KEY, which is its rowid alias, so a column that is not ''
     @ ''the whole primary key has no value source. Make it the table's INTEGER PRIMARY KEY, or declare it INTEGER NOT NULL and ''
     @ ''supply the value on every insert.'')"

definition sequence_refusal :: "column_def \<Rightarrow> string list \<Rightarrow> translate_error" where
  "sequence_refusal column opts = ForwardRefusal (''GENERATED AS IDENTITY ('' @ join '' '' opts @ '') on column '' @ display_ident (col_name column)
     @ '' cannot be translated. SQLite assigns rowid values starting from 1 with an increment of 1 and has no sequence engine, so ''
     @ ''these options cannot be honoured. Remove them and let the rowid assign values, or manage the counter in the application.'')"

definition reject_identity_sequence_options :: "column_def \<Rightarrow> unit tres" where
  "reject_identity_sequence_options column =
     (case List.map_filter (\<lambda>o'. case snd o' of OptGenerated False (Some s) \<Rightarrow> (if s = [] then None else Some s) | _ \<Rightarrow> None)
         (col_options column) of
        [] \<Rightarrow> ok () | s # _ \<Rightarrow> refuse (sequence_refusal column s))"

fun identity_options :: "column_parameters \<Rightarrow> column_option_def list \<Rightarrow> column_option_def list tres" where
  "identity_options par [] = ok []"
| "identity_options par (o' # os) =
     (case snd o' of
        OptGenerated False _ \<Rightarrow> identity_options par os
      | _ \<Rightarrow> res_bind (translate_option par o') (\<lambda>t.
          res_bind (identity_options par os) (\<lambda>ts.
            ok (opt_list t @ (if is_primary_key_option o' then [(None, OptAutoincrement)] else []) @ ts))))"

fun plain_options :: "column_parameters \<Rightarrow> column_def \<Rightarrow> column_option_def list \<Rightarrow> column_option_def list tres" where
  "plain_options par column [] = ok []"
| "plain_options par column (o' # os) =
     res_bind (case snd o' of
         OptDefault e \<Rightarrow> res_bind (scaled_default column e) (\<lambda>scaled.
           res_bind (case uuid_default par column scaled of Some w \<Rightarrow> w | None \<Rightarrow> ok scaled) (\<lambda>d.
           res_bind (translate_option par (fst o', OptDefault d)) (temporal_default par (col_type column) e)))
       | _ \<Rightarrow> translate_option par o') (\<lambda>t.
     res_bind (plain_options par column os) (\<lambda>ts. ok (opt_list t @ ts)))"

definition translate_column_def :: "column_parameters \<Rightarrow> column_def \<Rightarrow> primary_key_constraint list \<Rightarrow> column_def tres" where
  "translate_column_def par column keys =
     (let is_serial = is_serial_type (col_type column) in
      if declares_identity (col_options column) \<or> is_serial then
        res_bind (translate_data_type (types par) (col_type column)) (\<lambda>translated.
          if \<not> is_rowid_alias translated column keys then refuse (no_value_source (col_name column) is_serial)
          else res_bind (if is_serial then ok () else reject_identity_sequence_options column) (\<lambda>_.
            res_bind (identity_options par (col_options column)) (\<lambda>opts.
              ok (column\<lparr>col_type := translated, col_options := opts @ (case folded_primary_key column keys of
                None \<Rightarrow> [] | Some folded \<Rightarrow> [folded, (None, OptAutoincrement)])\<rparr>))))
      else
        res_bind (plain_options par column (col_options column)) (\<lambda>opts.
        res_bind (declared_bound_checks (types par) column) (\<lambda>bounds.
        res_bind (translate_data_type (types par) (col_type column)) (\<lambda>translated.
          ok (column\<lparr>col_type := translated, col_options := opts @ map (\<lambda>b. (None, OptCheck b)) bounds\<rparr>)))))"


section \<open>What the checks accept\<close>

text \<open>
  SQLite's \<open>GLOB\<close>: \<open>*\<close> is any text, \<open>?\<close> any character, \<open>[...]\<close> one of the characters listed and \<open>[^...]\<close> one that is
  not; ranges, which no emitted pattern has, are left out.
\<close>

definition glob_class :: "string \<Rightarrow> bool \<times> string \<times> string" where
  "glob_class p =
     (let negated = (p \<noteq> [] \<and> hd p = CHR ''^''); body = (if negated then tl p else p)
      in (negated, takeWhile (\<lambda>c. c \<noteq> CHR '']'') body, drop 1 (dropWhile (\<lambda>c. c \<noteq> CHR '']'') body)))"

lemma glob_class_shorter: "glob_class p = (negated, chars, rest) \<Longrightarrow> length rest \<le> length p"
  by (auto simp: glob_class_def Let_def intro!: le_trans [OF diff_le_self] le_trans [OF length_dropWhile_le])

function (sequential) glob :: "string \<Rightarrow> string \<Rightarrow> bool" where
  "glob [] s \<longleftrightarrow> s = []"
| "glob (p # ps) s =
     (if p = CHR ''*'' then glob ps s \<or> (case s of [] \<Rightarrow> False | _ # s' \<Rightarrow> glob (p # ps) s')
      else if s = [] then False
      else if p = CHR ''?'' then glob ps (tl s)
      else if p = CHR ''['' then
        (case glob_class ps of (negated, chars, rest) \<Rightarrow> (hd s \<in> set chars) \<noteq> negated \<and> glob rest (tl s))
      else hd s = p \<and> glob ps (tl s))"
  by pat_completeness auto

termination
  by (relation "measure (\<lambda>(p, s). length p + length s)") (auto dest: glob_class_shorter [OF sym] simp: neq_Nil_conv)

text \<open>What the expressions of a check answer for the value \<open>v\<close> of the column.\<close>

definition plain_value :: "ident \<Rightarrow> sval \<Rightarrow> expr \<Rightarrow> sval" where
  "plain_value name v e = (case e of
     EIdentifier i \<Rightarrow> if i = name then v else SNull
   | EValue l \<Rightarrow> (case literal_value l of Some x \<Rightarrow> x | None \<Rightarrow> SNull)
   | _ \<Rightarrow> SNull)"

definition between_value :: "sval \<Rightarrow> sval \<Rightarrow> sval \<Rightarrow> sval" where
  "between_value x low high = (case (sqlite_binary OpGtEq x low, sqlite_binary OpLtEq x high) of
     (Some a, Some b) \<Rightarrow> (case sqlite_binary OpAnd a b of Some r \<Rightarrow> r | None \<Rightarrow> SNull)
   | _ \<Rightarrow> SNull)"

definition glob_value :: "sval \<Rightarrow> string \<Rightarrow> sval" where
  "glob_value x p = (case x of SText s \<Rightarrow> of_truth (Some (glob p s)) | _ \<Rightarrow> SNull)"

definition column_env :: "ident \<Rightarrow> sval \<Rightarrow> expr \<Rightarrow> sval" where
  "column_env name v e = (case e of
     EIdentifier _ \<Rightarrow> plain_value name v e
   | EOther spelling es \<Rightarrow> (case es of
       [x, low, high] \<Rightarrow> if spelling = ''BETWEEN''
         then between_value (plain_value name v x) (plain_value name v low) (plain_value name v high) else SNull
     | _ \<Rightarrow> SNull)
   | EBinaryOp x opr p \<Rightarrow> (case (opr, single_quoted_literal p) of
       (OpOther spelling, Some pattern) \<Rightarrow> if spelling = ''GLOB'' then glob_value (plain_value name v x) pattern else SNull
     | _ \<Rightarrow> SNull)
   | _ \<Rightarrow> SNull)"

text \<open>A \<open>CHECK\<close> refuses a row only when it is false.\<close>

definition check_passes :: "(expr \<Rightarrow> sval) \<Rightarrow> expr \<Rightarrow> bool" where
  "check_passes env c \<longleftrightarrow> truth (sqlite_eval env c) \<noteq> Some (Some False)"

lemma literal_int: "in_i64 i \<Longrightarrow> literal_value (LNumber (show_int i) l) = Some (SInt i)"
proof (cases "i < 0")
  case True
  assume "in_i64 i"
  with True show ?thesis by (simp add: show_int_def int64_def Let_def)
next
  case False
  assume "in_i64 i"
  then have "in_i64 (int (nat i))" using False by simp
  with False show ?thesis using literal_nat [of "nat i" l] by (simp add: show_int_def)
qed

lemma between_passes:
  assumes "in_i64 low" "in_i64 high"
  shows "check_passes (column_env name v) (between_expr (EIdentifier name) (number_literal (show_int low)) (number_literal (show_int high)))
    \<longleftrightarrow> (case v of SInt n \<Rightarrow> low \<le> n \<and> n \<le> high | SNull \<Rightarrow> True | SText s \<Rightarrow> check_passes (\<lambda>_. between_value v (SInt low) (SInt high)) (EIdentifier name))"
  using literal_int [OF assms(1), of False] literal_int [OF assms(2), of False]
  by (cases v) (auto simp: check_passes_def between_expr_def sqlite_eval.simps(1) column_env_def plain_value_def number_literal_def
      between_value_def logic3_def and3_def of_truth_def simp del: literal_value.simps split: if_splits)

declare glob.simps [simp del]

lemma glob_star:
  "glob (CHR ''*'' # ps) [] \<longleftrightarrow> glob ps []"
  "glob (CHR ''*'' # ps) (c # s) \<longleftrightarrow> glob ps (c # s) \<or> glob (CHR ''*'' # ps) s"
  by (simp_all add: glob.simps(2) [of "CHR ''*''"])

lemma glob_binary_digits: "glob ''*[^01]*'' s \<longleftrightarrow> \<not> list_all (\<lambda>c. c = CHR ''0'' \<or> c = CHR ''1'') s"
proof -
  have any: "glob ''*'' t" for t
    by (induction t) (simp_all add: glob_star glob.simps(1))
  have one: "glob ''[^01]*'' t \<longleftrightarrow> t \<noteq> [] \<and> hd t \<noteq> CHR ''0'' \<and> hd t \<noteq> CHR ''1''" for t
    using any [of "tl t"] by (simp add: glob.simps(2) [of "CHR ''[''"] glob_class_def)
  show ?thesis by (induction s) (simp_all add: glob_star one)
qed

lemma length_passes:
  assumes "in_i64 (int n)"
  shows "check_passes (column_env name v) (EBinaryOp (length_call name) OpLtEq (number_literal (show_nat n)))
      \<longleftrightarrow> (case v of SText s \<Rightarrow> length s \<le> n | SNull \<Rightarrow> True | SInt i \<Rightarrow> check_passes (column_env name v) (EBinaryOp (length_call name) OpLtEq (number_literal (show_nat n))))"
    "check_passes (column_env name v) (EBinaryOp (length_call name) OpEq (number_literal (show_nat n)))
      \<longleftrightarrow> (case v of SText s \<Rightarrow> length s = n | SNull \<Rightarrow> True | SInt i \<Rightarrow> check_passes (column_env name v) (EBinaryOp (length_call name) OpEq (number_literal (show_nat n))))"
proof -
  have "sqlite_eval (column_env name v) (EIdentifier name) = v" by (simp add: sqlite_eval.simps(1) column_env_def plain_value_def)
  then have "sqlite_eval (column_env name v) (length_call name) = or_env (text_call (\<lambda>s. Some (SInt (int (length s)))) [v]) (column_env name v (length_call name))"
    by (simp add: length_call_def eval_function)
  then show "check_passes (column_env name v) (EBinaryOp (length_call name) OpLtEq (number_literal (show_nat n)))
      \<longleftrightarrow> (case v of SText s \<Rightarrow> length s \<le> n | SNull \<Rightarrow> True | SInt i \<Rightarrow> check_passes (column_env name v) (EBinaryOp (length_call name) OpLtEq (number_literal (show_nat n))))"
    "check_passes (column_env name v) (EBinaryOp (length_call name) OpEq (number_literal (show_nat n)))
      \<longleftrightarrow> (case v of SText s \<Rightarrow> length s = n | SNull \<Rightarrow> True | SInt i \<Rightarrow> check_passes (column_env name v) (EBinaryOp (length_call name) OpEq (number_literal (show_nat n))))"
    using eval_number_literal [OF assms, of "column_env name v"]
    by (cases v; simp add: check_passes_def eval_simps text_call_def of_truth_def)+
qed

lemma digits_pass:
  "check_passes (column_env name (SText s)) (bit_binary_digits_check_expr name) \<longleftrightarrow> list_all (\<lambda>c. c = CHR ''0'' \<or> c = CHR ''1'') s"
  "check_passes (column_env name SNull) (bit_binary_digits_check_expr name)"
proof -
  have g: "sqlite_eval (column_env name v) (EBinaryOp (EIdentifier name) (OpOther ''GLOB'') (string_literal ''*[^01]*'')) = glob_value v ''*[^01]*''" for v
    by (simp add: eval_simps sqlite_eval.simps(1) column_env_def plain_value_def string_literal_def)
  show "check_passes (column_env name (SText s)) (bit_binary_digits_check_expr name) \<longleftrightarrow> list_all (\<lambda>c. c = CHR ''0'' \<or> c = CHR ''1'') s"
    using g [of "SText s"] glob_binary_digits [of s]
    by (simp add: check_passes_def bit_binary_digits_check_expr_def eval_simps glob_value_def)
  show "check_passes (column_env name SNull) (bit_binary_digits_check_expr name)"
    using g [of SNull] by (simp add: check_passes_def bit_binary_digits_check_expr_def eval_simps glob_value_def of_truth_def)
qed

text \<open>The values PostgreSQL's types hold; \<open>bit\<close> and \<open>char\<close> without a length are of length one.\<close>

definition pg_integer_bits :: "declared_type \<Rightarrow> nat option" where
  "pg_integer_bits t = (case t of
     DtSmallInt _ \<Rightarrow> Some 15 | DtInt2 _ \<Rightarrow> Some 15 | DtInt _ \<Rightarrow> Some 31 | DtInteger _ \<Rightarrow> Some 31 | DtInt4 _ \<Rightarrow> Some 31 | _ \<Rightarrow> None)"

definition pg_digits :: "declared_type \<Rightarrow> nat option" where
  "pg_digits t = (case exact_numeric_info t of
     Some (ExPrecision p) \<Rightarrow> Some p | Some (ExPrecisionAndScale p _) \<Rightarrow> Some p | _ \<Rightarrow> None)"

definition pg_characters :: "declared_type \<Rightarrow> nat option" where
  "pg_characters t = (case t of
     DtChar None \<Rightarrow> Some 1 | DtCharacter None \<Rightarrow> Some 1
   | _ \<Rightarrow> (case declared_character_length t of Some (IntegerLength n _) \<Rightarrow> Some n | _ \<Rightarrow> None))"

definition pg_bits :: "declared_type \<Rightarrow> (bool \<times> nat option) option" where
  "pg_bits t = (case t of DtBit None \<Rightarrow> Some (True, Some 1) | _ \<Rightarrow> bit_length t)"

definition pg_holds :: "declared_type \<Rightarrow> sval \<Rightarrow> bool" where
  "pg_holds t v = (case v of
     SNull \<Rightarrow> True
   | SInt n \<Rightarrow> (case pg_integer_bits t of Some b \<Rightarrow> - (2 ^ b) \<le> n \<and> n < 2 ^ b | None \<Rightarrow> True)
       \<and> (case pg_digits t of Some p \<Rightarrow> \<bar>n\<bar> < 10 ^ p | None \<Rightarrow> True)
   | SText s \<Rightarrow> (case pg_characters t of Some n \<Rightarrow> length s \<le> n | None \<Rightarrow> True)
       \<and> (case pg_bits t of
            None \<Rightarrow> True
          | Some (fixed, n) \<Rightarrow> list_all (\<lambda>c. c = CHR ''0'' \<or> c = CHR ''1'') s
              \<and> (case n of None \<Rightarrow> True | Some k \<Rightarrow> if fixed then length s = k else length s \<le> k)))"

text \<open>The column is stored in the storage class its declared type is translated to.\<close>

definition stored_in_class :: "declared_type \<Rightarrow> sval \<Rightarrow> bool" where
  "stored_in_class t v \<longleftrightarrow>
     (if pg_integer_bits t \<noteq> None \<or> exact_numeric_info t \<noteq> None then case v of SText _ \<Rightarrow> False | _ \<Rightarrow> True
      else if declared_character_length t \<noteq> None \<or> bit_length t \<noteq> None then case v of SInt _ \<Rightarrow> False | _ \<Rightarrow> True
      else True)"

definition states_its_length :: "declared_type \<Rightarrow> bool" where
  "states_its_length t \<longleftrightarrow> t \<noteq> DtBit None \<and> t \<noteq> DtChar None \<and> t \<noteq> DtCharacter None
     \<and> (case pg_characters t of Some n \<Rightarrow> in_i64 (int n) | None \<Rightarrow> True)
     \<and> (case pg_bits t of Some (_, Some n) \<Rightarrow> in_i64 (int n) | _ \<Rightarrow> True)"

lemma numeric_passes:
  assumes "numeric_precision_and_scale info = ok (p, s)" "exact_numeric_info t = Some info" "\<forall>x. v \<noteq> SText x"
  shows "check_passes (column_env name v) (numeric_precision_bound_expr name p)
    \<longleftrightarrow> (case v of SInt n \<Rightarrow> (case pg_digits t of Some p \<Rightarrow> \<bar>n\<bar> < 10 ^ p | None \<Rightarrow> True) | _ \<Rightarrow> True)"
proof -
  have p: "pg_digits t = Some p" "p \<le> 18"
    using assms(1, 2) by (auto simp: pg_digits_def numeric_precision_and_scale_def checked_precision_def MAX_NUMERIC_PRECISION_def
        split: exact_number_info.splits if_splits)
  have "(10 :: int) ^ p \<le> 10 ^ 18" by (rule power_increasing [OF p(2)]) simp
  moreover have "in_i64 (m - 1) \<and> in_i64 (- (m - 1))" if "0 < m" "m \<le> 10 ^ 18" for m using that by (auto simp: in_i64_def)
  ultimately have i: "in_i64 (10 ^ p - 1)" "in_i64 (- (10 ^ p - 1))" by simp_all
  show ?thesis
    using between_passes [OF i(2, 1), of name v] assms(3) p(1)
    by (cases v) (auto simp: numeric_precision_bound_expr_def Let_def abs_less_iff)
qed

lemma integer_passes:
  assumes "\<forall>x. v \<noteq> SText x"
  shows "list_all (check_passes (column_env (col_name column) v)) (opt_list (integer_range_bound column))
    \<longleftrightarrow> (case v of SInt n \<Rightarrow> (case pg_integer_bits (col_type column) of Some b \<Rightarrow> - (2 ^ b) \<le> n \<and> n < 2 ^ b | None \<Rightarrow> True) | _ \<Rightarrow> True)"
proof -
  have bits: "integer_range_bound column = (case pg_integer_bits (col_type column) of
      None \<Rightarrow> None | Some b \<Rightarrow> Some (integer_range_between (col_name column) (- (2 ^ b)) (2 ^ b - 1)))"
    by (simp add: integer_range_bound_def pg_integer_bits_def small_int_range_bound_expr_def regular_int_range_bound_expr_def split: declared_type.splits)
  show ?thesis
  proof (cases "pg_integer_bits (col_type column)")
    case None
    then show ?thesis by (simp add: bits opt_list_def split: sval.splits)
  next
    case (Some b)
    then have "b = 15 \<or> b = 31" by (auto simp: pg_integer_bits_def split: declared_type.splits)
    then have "in_i64 (- (2 ^ b))" "in_i64 (2 ^ b - 1)" by (auto simp: in_i64_def)
    from between_passes [OF this, of "col_name column" v] assms Some show ?thesis
      by (cases v) (auto simp: bits opt_list_def integer_range_between_def)
  qed
qed

lemma characters_pass:
  assumes "character_length display t = ok declared" "states_its_length t" "\<forall>n. v = SInt n \<longrightarrow> declared = None"
  shows "list_all (check_passes (column_env name v)) (opt_list (map_option (character_length_bound_expr name) declared))
    \<longleftrightarrow> (case v of SText s \<Rightarrow> (case pg_characters t of Some n \<Rightarrow> length s \<le> n | None \<Rightarrow> True) | _ \<Rightarrow> True)"
proof -
  have d: "pg_characters t = declared"
    using assms(1, 2) by (auto simp: character_length_def pg_characters_def states_its_length_def
        split: option.splits declared_length.splits if_splits declared_type.splits)
  show ?thesis
  proof (cases declared)
    case None
    then show ?thesis using d by (simp add: opt_list_def split: sval.splits)
  next
    case (Some n)
    then have "in_i64 (int n)" using assms(2) d by (simp add: states_its_length_def)
    from length_passes(1) [OF this, of name v] Some assms(3) d show ?thesis
      by (cases v) (simp_all add: opt_list_def character_length_bound_expr_def)
  qed
qed

lemma bits_pass:
  assumes "states_its_length (col_type column)" "\<forall>n. v = SInt n \<longrightarrow> bit_length (col_type column) = None"
  shows "list_all (check_passes (column_env (col_name column) v)) (bit_bounds column)
    \<longleftrightarrow> (case v of SText s \<Rightarrow> (case pg_bits (col_type column) of
            None \<Rightarrow> True
          | Some (fixed, n) \<Rightarrow> list_all (\<lambda>c. c = CHR ''0'' \<or> c = CHR ''1'') s
              \<and> (case n of None \<Rightarrow> True | Some k \<Rightarrow> if fixed then length s = k else length s \<le> k)) | _ \<Rightarrow> True)"
proof -
  have b: "pg_bits (col_type column) = bit_length (col_type column)"
    using assms(1) by (auto simp: pg_bits_def states_its_length_def split: declared_type.splits option.splits)
  show ?thesis
  proof (cases "bit_length (col_type column)")
    case None
    then show ?thesis using b by (simp add: bit_bounds_def split: sval.splits)
  next
    case (Some fn)
    obtain fixed n where fn: "fn = (fixed, n)" by (cases fn)
    then have "in_i64 (int k)" if "n = Some k" for k using assms(1) b Some that by (simp add: states_its_length_def)
    then show ?thesis
      using length_passes [of _ "col_name column" v] assms(2) b Some fn digits_pass
      by (cases v; cases n) (auto simp: bit_bounds_def opt_list_def bit_exact_length_check_expr_def bit_max_length_check_expr_def bit_length_check_def)
  qed
qed

text \<open>
  C13. The \<open>CHECK\<close>s a declared type becomes accept exactly the values the PostgreSQL type holds: the ranges of
  the integer types, the digits of an exact numeric (as minor units, all within 64 bits), the length of a
  character type, and the length and digits of a bit string; null always passes. A \<open>bit\<close> or \<open>char\<close> whose length
  is not stated is left out, see below.
\<close>

theorem checks_accept_what_the_type_holds:
  assumes "declared_bound_checks par column = ok checks" "col_type column \<noteq> DtUuid"
    and "stored_in_class (col_type column) v" "states_its_length (col_type column)"
  shows "list_all (check_passes (column_env (col_name column) v)) checks \<longleftrightarrow> pg_holds (col_type column) v"
proof -
  let ?t = "col_type column" and ?pass = "check_passes (column_env (col_name column) v)"
  from assms(1, 2) obtain numeric declared where parts: "checks = numeric @ opt_list (integer_range_bound column)
        @ opt_list (map_option (character_length_bound_expr (col_name column)) declared) @ bit_bounds column"
    and num: "(case exact_numeric_info ?t of None \<Rightarrow> ok [] | Some info \<Rightarrow> res_bind (numeric_precision_and_scale info)
        (\<lambda>(precision, _). ok [numeric_precision_bound_expr (col_name column) precision])) = Inr numeric"
    and chars: "character_length (show_type par) ?t = ok declared"
    by (auto simp: declared_bound_checks_def res_bind_eq_ok)
  have numeric: "list_all ?pass numeric \<longleftrightarrow> (case v of SInt n \<Rightarrow> (case pg_digits ?t of Some p \<Rightarrow> \<bar>n\<bar> < 10 ^ p | None \<Rightarrow> True) | _ \<Rightarrow> True)"
  proof (cases "exact_numeric_info ?t")
    case None
    then show ?thesis using num by (simp add: pg_digits_def split: sval.splits)
  next
    case (Some info)
    then obtain p s where "numeric_precision_and_scale info = ok (p, s)" "numeric = [numeric_precision_bound_expr (col_name column) p]"
      using num by (auto simp: res_bind_eq_ok)
    then show ?thesis using numeric_passes [OF _ Some] assms(3) Some by (auto simp: stored_in_class_def split: sval.splits)
  qed
  have no_check: "declared = None" "bit_length ?t = None" if "v = SInt n" for n
    using assms(3) chars that
    by (auto simp: stored_in_class_def character_length_def declared_character_length_def bit_length_def pg_integer_bits_def
        exact_numeric_info_def split: declared_type.splits option.splits declared_length.splits if_splits)
  have no_range: "list_all ?pass (opt_list (integer_range_bound column))" if "v = SText x" for x
    using assms(3) that by (auto simp: stored_in_class_def integer_range_bound_def pg_integer_bits_def opt_list_def split: declared_type.splits if_splits)
  have range: "list_all ?pass (opt_list (integer_range_bound column))
      \<longleftrightarrow> (case v of SInt n \<Rightarrow> (case pg_integer_bits ?t of Some b \<Rightarrow> - (2 ^ b) \<le> n \<and> n < 2 ^ b | None \<Rightarrow> True) | _ \<Rightarrow> True)"
    using integer_passes [of v column] no_range by (cases v) auto
  show ?thesis
    using numeric range characters_pass [OF chars assms(4), of v "col_name column"] bits_pass [OF assms(4), of v] no_check
    by (cases v) (auto simp: parts pg_holds_def)
qed

theorem checks_accept_what_the_type_holds_witness:
  "let column = \<lparr>col_name = bare_ident ''n'', col_type = DtNumeric (ExPrecisionAndScale 5 2), col_options = []\<rparr>;
       par = \<lparr>show_type = (\<lambda>_. []), json_arrays = False, uuid_settings = \<lparr>uuid_representation_of = None, uuid_text_to_blob_function_name = None\<rparr>\<rparr> in
   \<exists>checks. declared_bound_checks par column = ok checks
     \<and> list_all (check_passes (column_env (bare_ident ''n'') (SInt (- 99999)))) checks
     \<and> \<not> list_all (check_passes (column_env (bare_ident ''n'') (SInt 100000))) checks"
proof -
  let ?column = "\<lparr>col_name = bare_ident ''n'', col_type = DtNumeric (ExPrecisionAndScale 5 2), col_options = []\<rparr>"
  let ?par = "\<lparr>show_type = (\<lambda>_. []), json_arrays = False, uuid_settings = \<lparr>uuid_representation_of = None, uuid_text_to_blob_function_name = None\<rparr>\<rparr>"
  have "declared_bound_checks ?par ?column = ok [numeric_precision_bound_expr (bare_ident ''n'') 5]"
    by (simp add: declared_bound_checks_def exact_numeric_info_def numeric_precision_and_scale_def checked_precision_def
        MAX_NUMERIC_PRECISION_def integer_range_bound_def character_length_def declared_character_length_def opt_list_def
        bit_bounds_def bit_length_def)
  moreover note checks_accept_what_the_type_holds [OF this, of "SInt (- 99999)"] checks_accept_what_the_type_holds [OF this, of "SInt 100000"]
  ultimately show ?thesis
    unfolding Let_def
    by (intro exI [of _ "[numeric_precision_bound_expr (bare_ident ''n'') 5]"])
      (simp add: stored_in_class_def states_its_length_def pg_integer_bits_def exact_numeric_info_def pg_digits_def pg_characters_def
        pg_bits_def declared_character_length_def bit_length_def pg_holds_def)
qed

text \<open>\<open>bit\<close> and \<open>char\<close> without a length hold one digit or character in PostgreSQL; the column takes any number.\<close>

lemma unstated_lengths_are_unbounded:
  "declared_bound_checks par \<lparr>col_name = c, col_type = DtChar None, col_options = os\<rparr> = ok []"
  "\<not> pg_holds (DtChar None) (SText ''ab'')"
  "declared_bound_checks par \<lparr>col_name = c, col_type = DtBit None, col_options = os\<rparr> = ok [bit_binary_digits_check_expr c]"
  "check_passes (column_env c (SText ''01'')) (bit_binary_digits_check_expr c) \<and> \<not> pg_holds (DtBit None) (SText ''01'')"
  by (simp_all add: declared_bound_checks_def exact_numeric_info_def integer_range_bound_def character_length_def
      declared_character_length_def opt_list_def bit_bounds_def bit_length_def pg_holds_def pg_characters_def pg_bits_def digits_pass)

text \<open>Every type the translation accepts is a type of a strict table.\<close>

lemma translated_types_are_strict:
  "translate_data_type par t = ok t' \<Longrightarrow> t' \<in> {DtInteger None, DtReal, DtText, DtBlob None}"
  by (cases t) (auto simp: translate_data_type_def res_bind_eq_ok translate_array_type_def translate_custom_type_def Let_def
      split: option.splits if_splits uuid_representation.splits)

lemma half_by_first_digit:
  assumes "all_digits (c # cs)"
  shows "code (CHR ''5'') \<le> code c \<longleftrightarrow> 1 / 2 \<le> real (digits_value (c # cs)) / 10 ^ length (c # cs)"
proof -
  have d: "code c = digit_val c + 48" and lt: "digits_value cs < 10 ^ length cs"
    using assms digits_value_less [of cs] by (auto simp: digit_val_def is_ascii_digit_def)
  have v: "digits_value (c # cs) = digit_val c * 10 ^ length cs + digits_value cs"
    using digits_value_append [of "[c]" cs] digits_value_simps(2) [of "[]" c] by simp
  have "1 / 2 \<le> real (digits_value (c # cs)) / 10 ^ length (c # cs) \<longleftrightarrow> real (5 * 10 ^ length cs) \<le> real (digits_value (c # cs))"
    by (simp add: field_simps)
  also have "\<dots> \<longleftrightarrow> 5 * 10 ^ length cs \<le> digits_value (c # cs)" by (simp only: of_nat_le_iff)
  also have "\<dots> \<longleftrightarrow> 5 \<le> digit_val c"
  proof
    assume "5 \<le> digit_val c"
    then have "5 * 10 ^ length cs \<le> digit_val c * 10 ^ length cs" by (rule mult_right_mono) simp
    then show "5 * 10 ^ length cs \<le> digits_value (c # cs)" unfolding v by linarith
  next
    assume a: "5 * 10 ^ length cs \<le> digits_value (c # cs)"
    show "5 \<le> digit_val c"
    proof (rule ccontr)
      assume "\<not> 5 \<le> digit_val c"
      then have "digit_val c * 10 ^ length cs \<le> 4 * 10 ^ length cs" by (intro mult_right_mono) simp_all
      with a lt show False unfolding v by linarith
    qed
  qed
  finally show ?thesis using d by simp
qed

lemma digits_only: "all_digits s \<Longrightarrow> CHR ''.'' \<notin> set s \<and> CHR ''e'' \<notin> set s \<and> CHR ''E'' \<notin> set s"
  by (simp add: not_in_digits is_ascii_digit_def)

lemma pg_round_parts:
  assumes "0 \<le> (f :: real)" "f < 1"
  shows "pg_round (real w + f) = int w + (if 1 / 2 \<le> f then 1 else 0)" "pg_round (- (real w + f)) = - (int w + (if 1 / 2 \<le> f then 1 else 0))"
proof -
  have fl: "\<lfloor>real w + f + 1 / 2\<rfloor> = int w + (if 1 / 2 \<le> f then 1 else 0)" using assms by (auto simp: floor_eq_iff)
  then show "pg_round (real w + f) = int w + (if 1 / 2 \<le> f then 1 else 0)" using assms by (simp add: pg_round_def)
  show "pg_round (- (real w + f)) = - (int w + (if 1 / 2 \<le> f then 1 else 0))"
  proof (cases "real w + f = 0")
    case True
    then have "w = 0" "f = 0" using assms(1) by linarith+
    then show ?thesis by (simp add: pg_round_def)
  next
    case False
    then have "- (real w + f) < 0" using assms(1) by linarith
    then have "pg_round (- (real w + f)) = - \<lfloor>real w + f + 1 / 2\<rfloor>" unfolding pg_round_def minus_minus by (rule if_P)
    then show ?thesis using fl by simp
  qed
qed

lemma signed_literal_value:
  assumes "all_digits s" "s \<noteq> []" "digits_value s < 2 ^ 63"
  shows "literal_value (LNumber ((if negated then ''-'' else []) @ s) l) = Some (SInt (if negated then - int (digits_value s) else int (digits_value s)))"
proof -
  have "hd s \<noteq> CHR ''-''" using all_digitsD [OF assms(1), of "hd s"] assms(2) by (auto simp: is_ascii_digit_def)
  moreover have "int (digits_value s) < 2 ^ 63" using assms(3) by (simp flip: of_nat_power)
  ultimately show ?thesis using assms(1, 2) by (auto simp: int64_def in_i64_def Let_def)
qed

text \<open>
  The default of a whole-number numeric is rounded half away from zero, as PostgreSQL rounds it when it casts
  the default to the type.
\<close>

lemma defaults_round_as_postgres:
  assumes "all_digits w" "w \<noteq> []" "all_digits f" "digits_value w < 2 ^ 62"
  shows "\<exists>s. rounded_digits negated (w @ CHR ''.'' # f) = Some s \<and> literal_value (LNumber s l)
    = Some (SInt (pg_round ((if negated then - 1 else 1) * (real (digits_value w) + real (digits_value f) / 10 ^ length f))))"
proof -
  have split: "split_once (CHR ''.'') (w @ CHR ''.'' # f) = Some (w, f)" using digits_only [OF assms(1)] by (simp add: split_once_append)
  have no_e: "CHR ''e'' \<notin> set (w @ CHR ''.'' # f) \<and> CHR ''E'' \<notin> set (w @ CHR ''.'' # f)"
    using digits_only [OF assms(1)] digits_only [OF assms(3)] by simp
  have lt: "real (digits_value f) / 10 ^ length f < 1"
    using digits_value_less [OF assms(3)] by (simp flip: of_nat_less_iff)
  note rounds = pg_round_parts [OF _ lt, of "digits_value w", simplified]
  show ?thesis
  proof (cases "list_all (\<lambda>c. c = CHR ''0'') f")
    case True
    then have "f = replicate (length f) (CHR ''0'')" by (simp add: list_all_iff replicate_length_same)
    then have zero: "digits_value f = 0" using digits_value_replicate0 [of "length f"] by simp
    have "digits_value w < 2 ^ 63" using assms(4) by simp
    from signed_literal_value [OF assms(1, 2) this, of negated l] show ?thesis
      using True split no_e zero pg_round_of_int [of "int (digits_value w)"] pg_round_of_int [of "- int (digits_value w)"]
      by (auto simp: rounded_digits_def Let_def simp del: literal_value.simps)
  next
    case False
    then obtain c cs where f: "f = c # cs" by (cases f) auto
    have "int (digits_value w) < 2 ^ 62" using assms(4) by (simp flip: of_nat_power)
    then have i: "in_i64 (int (digits_value w))" by (simp add: in_i64_def)
    have "hd w \<noteq> CHR ''-'' \<and> hd w \<noteq> CHR ''+''" using all_digitsD [OF assms(1), of "hd w"] assms(2) by (auto simp: is_ascii_digit_def)
    then have whole: "parse_i64 w = Some (int (digits_value w))" using assms(1, 2) i by (simp add: parse_i64_def)
    let ?r = "digits_value w + (if code (CHR ''5'') \<le> code c then 1 else 0)"
    have "?r < 2 ^ 63" using assms(4) by simp
    then have "literal_value (LNumber ((if negated then ''-'' else []) @ show_nat ?r) l) = Some (SInt (if negated then - int ?r else int ?r))"
      using signed_literal_value [of "show_nat ?r" negated l] by simp
    moreover have "rounded_digits negated (w @ CHR ''.'' # f) = Some ((if negated then ''-'' else []) @ show_nat ?r)"
    proof -
      have "show_int (if code (CHR ''5'') \<le> code c then int (digits_value w) + 1 else int (digits_value w)) = show_nat ?r"
        by (simp add: show_int_def nat_add_distrib)
      then show ?thesis using False split no_e whole unfolding f by (auto simp: rounded_digits_def Let_def)
    qed
    moreover have "int ?r = int (digits_value w) + (if 1 / 2 \<le> real (digits_value f) / 10 ^ length f then 1 else 0)"
      using half_by_first_digit [of c cs] assms(3) f by simp
    ultimately show ?thesis using rounds by (auto simp del: literal_value.simps)
  qed
qed

text \<open>A literal without a whole part is missed: \<open>.5\<close> is not rounded, and \<open>.0\<close> becomes an empty number.\<close>

lemma fractions_without_a_whole_part:
  "rounded_digits False ''.5'' = None" "rounded_digits False ''.0'' = Some []"
  by code_simp+


end
