(* ===== verification/Spec2Isabelle.thy ===== *)
theory Spec2Isabelle
  imports Transactions Transaction_Errors Initialization Relation_Scopes Trigger_Writes Connection_Program Placement Namespaces Namespace_Engine Temporal_Text Timezone Placeholders Interval_Facts Copy_Facts Membership Minor_Units Expr_Walk
    Membership_Translation Substrings Literal_Casts Row_Triggers To_Char Closed_Forms Uuids Plpgsql_Facts Column_Types
begin

text \<open>
  A verification library for pg2sqlite (\<open>src/src/\<close>), the translator of PostgreSQL scripts to SQLite and
  of SQLite statements back to PostgreSQL.

  \<^bold>\<open>The program.\<close> A batch of PostgreSQL statements is checked for its transaction nesting, each statement
  is translated to SQLite statements, every emitted object is given a database file (the main file, an
  attached one, or the connection), and the result is a script with two programs: one that creates the
  files, selected per file, and one that a later connection to existing files runs to rebuild its
  temporary objects. Around this sit the analyses of names (scopes, namespaces, placeholders) and the
  readers of literals (dates, intervals, zones, \<open>COPY\<close> payloads).

  \<^bold>\<open>The theories, each with the code it models.\<close>
  \<^item> \<open>Rust_Std\<close>, \<open>Utf8\<close>: the language and its standard library; results with a \<open>Panic\<close> for an unchecked
    overflow, texts, decimal numbers, checked 128-bit integers, UTF-8.
  \<^item> \<open>Sql_Ast\<close>, \<open>Sql_Types\<close>: the part of the syntax-tree crate the components match on, and the name helpers
    of \<open>impls/object_name.rs\<close>.
  \<^item> \<open>Transactions\<close>: \<open>impls/transaction_blocks.rs\<close> (\<open>analyse\<close>), the control arms of \<open>statement.rs\<close>, and
    \<open>history/transactions.rs\<close> (\<open>outline_new\<close>). Against engines of PostgreSQL and SQLite transactions:
    that the emitted control runs, and, over any engine with snapshots (the locale
    \<open>snapshot_engine\<close>), that the statements marked committed are what the batch leaves.
  \<^item> \<open>Transaction_Errors\<close>: the savepoint stacks of PostgreSQL and SQLite, with their errors. An error of the server
    about the place of a statement is refused, one about an unknown savepoint is raised by SQLite.
  \<^item> \<open>File_Sets\<close>, \<open>Initialization\<close>: \<open>manifest.rs\<close>, \<open>initialization.rs\<close>, \<open>script.rs\<close>. The selections of a
    plan and the exact-size contract of its iterator (the locale \<open>exact_iterator\<close>).
  \<^item> \<open>Relation_Scopes\<close>: \<open>impls/relation_scope.rs\<close>, \<open>impls/scoped_relations.rs\<close>. The visitor with its stack
    of address-keyed scopes refines lexical scoping of common-table expressions.
  \<^item> \<open>Catalog\<close>, \<open>Catalog_Facts\<close>, \<open>Trigger_Writes\<close>: \<open>history/effects.rs\<close>. The catalog of connection objects,
    its invariant, and what its three traversals compute.
  \<^item> \<open>Saturation\<close>, \<open>Connection_Program\<close>: \<open>history/mod.rs\<close>. The retained units are the least set that rebuilds
    the surviving objects, and replaying them does rebuild them, well nested and without writing a file.
  \<^item> \<open>Placement\<close>: \<open>history/placement.rs\<close>. Homes of objects, the closure of views over them, and the file set
    of each unit. The views of a placed batch are emitted \<open>TEMP\<close> where they read another database; a table of
    the starting schema that is attached is the exception, and a finding.
  \<^item> \<open>Namespaces\<close>, \<open>Namespace_Engine\<close>: \<open>impls/emitted_namespace.rs\<close>, and an engine of SQLite's databases and names
    (creates with \<open>IF NOT EXISTS\<close>, drops, renames, owned indexes and triggers) on which accepted scripts run.
  \<^item> \<open>Temporal\<close>, \<open>Temporal_Facts\<close>, \<open>Temporal_Text\<close>: \<open>impls/temporal_literals.rs\<close>, its calendar arithmetic
    and its \<open>f64\<close> rounding included, against the calendar defined day by day.
  \<^item> \<open>Timezone\<close>: \<open>impls/timezone.rs\<close> with \<open>translate_at_time_zone\<close> of \<open>expr.rs\<close> and
    \<open>at_time_zone_for_modifier\<close> of the reverse \<open>function.rs\<close>, against PostgreSQL's typing of the operand and its
    reading of zones; a \<open>date\<close> operand is a finding.
  \<^item> \<open>Placeholders\<close>: \<open>impls/placeholder.rs\<close>, against the bind-index rule of SQLite.
  \<^item> \<open>Intervals\<close>, \<open>Interval_Facts\<close>: \<open>impls/interval.rs\<close>, its texts and the date modifiers it emits.
  \<^item> \<open>Copy_Rows\<close>, \<open>Copy_Facts\<close>: \<open>impls/translator_impls/copy.rs\<close>, against the formats \<open>COPY TO\<close> writes; the
    two decoders share the locale \<open>record_reader\<close>.
  \<^item> \<open>Expr_Nodes\<close>, \<open>Expr_Walk\<close>: \<open>impls/expr_helpers.rs\<close>. The walkers over the children of a node, with callbacks
    that thread a state and may fail: the read-only walk visits what the rebuilding one visits, and no
    child is missed but the key of a \<open>:[key]\<close> step, which the read-only walk passes over.
  \<^item> \<open>Sql_Exprs\<close>, \<open>Sqlite_Eval\<close>: the expression nodes the rewritings look into with the builders of
    \<open>impls/function_helpers.rs\<close>, and what SQLite answers to them, by the rules of its manual over nulls,
    64-bit integers and texts. Every theorem that an emitted expression means what PostgreSQL means is
    about this evaluator.
  \<^item> \<open>Idioms\<close>, \<open>Membership\<close>: \<open>impls/idioms.rs\<close>, each builder with its recognizer; the search emitted for a
    membership test over delimited text answers what the test answers.
  \<^item> \<open>Inventories\<close>: the sorted name lists of \<open>impls/sqlite_functions.rs\<close>, \<open>impls/sqlite_keywords.rs\<close> and
    \<open>impls/replay.rs\<close>, and the binary search in them.
  \<^item> \<open>Session_Variables\<close>: \<open>impls/session_variable.rs\<close> with its options, and \<open>impls/replay.rs\<close>. A mapping
    survives both directions, unless its function has a name that the reverse translation reads first.
  \<^item> \<open>Membership_Translation\<close>: the membership tests of \<open>expr.rs\<close> in both directions, with the collation their
    comparison runs under.
  \<^item> \<open>Minor_Units\<close>: the exact numerics of \<open>impls/shared_helpers.rs\<close> and \<open>expr.rs\<close>: rescaling, rounding, literals
    and text.
  \<^item> \<open>Substrings\<close>, \<open>Literal_Casts\<close>: \<open>POSITION\<close>, \<open>TRIM\<close>, \<open>SUBSTRING\<close> and \<open>OVERLAY\<close>; the boolean casts and the
    boolean, bytea and bit literals.
  \<^item> \<open>Row_Security\<close>, \<open>Row_Triggers\<close>: \<open>impls/translator_impls/rls.rs\<close>. Which policies apply, how they combine into
    the predicate of the view, and the triggers of the view and of the backing table, run statement by
    statement over the evaluator: rows are shown and written exactly where PostgreSQL's rule allows it,
    for policies whose roles are named (a role keyword is a finding).
  \<^item> \<open>To_Char\<close>: the date parts and templates of \<open>impls/datetime_helpers.rs\<close>; a lowered template asks SQLite for the
    fields PostgreSQL reads in it.
  \<^item> \<open>Closed_Forms\<close>: the arms of \<open>impls/translator_impls/function.rs\<close> that write a function out (\<open>concat\<close>, \<open>concat_ws\<close>,
    \<open>left\<close>, \<open>right\<close>, \<open>greatest\<close>, \<open>least\<close>, the \<open>make_\<close> functions), evaluated against PostgreSQL's rules.
  \<^item> \<open>Uuids\<close>: \<open>impls/translator_impls/uuid.rs\<close>; the conversion at translation time is the conversion at run time.
  \<^item> \<open>Plpgsql\<close>, \<open>Plpgsql_Facts\<close>: \<open>impls/translator_impls/plpgsql/translator.rs\<close> and \<open>condition_injection.rs\<close>. Trigger
    bodies become guarded statements; the statements of an \<open>IF\<close> chain, injected with the conditions of its
    branches and run on any engine that filters by a \<open>WHERE\<close> as it is printed, do what PL/pgSQL does. Variables: the order they are resolved in, what they read as after an \<open>IF\<close>,
    and the removal of the definitions nothing reads.
  \<^item> \<open>Column_Types\<close>: \<open>impls/translator_impls/data_type.rs\<close> and \<open>column.rs\<close>. What a declared type is stored as, the
    checks that hold its bounds, defaults in the units of the column, and identity columns.

  \<^bold>\<open>How they meet.\<close> \<open>Connection_Program\<close> runs the catalog of \<open>Catalog\<close> over the outline of \<open>Transactions\<close>; the
  theorem of this theory is their composition, that skipping the undone statements gives the catalog an
  engine that rolls back would leave. \<open>Placement\<close> gives the file sets that \<open>Initialization\<close> selects by.
  Both fixpoint loops, retention and the closure of views, are instances of \<open>saturation\<close>.
  \<open>Membership_Translation\<close> composes \<open>Session_Variables\<close>, which tells a mapped setting and whether it may be
  read twice, with the builder and the recognizer of \<open>Idioms\<close>, whose search \<open>Membership\<close> evaluates.
  \<open>Row_Triggers\<close> puts the predicate of \<open>Row_Security\<close> into the triggers and evaluates both with \<open>Sqlite_Eval\<close>.

  \<^bold>\<open>State, errors, loops.\<close> A struct is a record and is passed and returned; a \<open>Result\<close> is a sum. Every loop is
  a total function with a termination proof (a measure on the unread text, the unretained units, the open
  views, the unfired triggers), so there is no fuel. The widths kept are \<open>i128\<close> of the intervals, \<open>u32\<close>
  of the placeholders, the 64-bit integers of SQLite and of the integer literals, and the 53-bit significand
  of the fraction of a second. A text is over the
  Latin-1 block except in \<open>Copy_Rows\<close>, where it is over all scalar values.

  \<^bold>\<open>Parameters.\<close> Code outside \<open>src/\<close> is an argument of the definitions: the names a visitor of the
  syntax-tree crate collects, what the schema crate answers about tables, how the crate prints a node.
  So are the calls into parts of the program that are not modelled: the rebinding of a replayed unit,
  the translation of an \<open>INSERT\<close>, the translation of the operands of a modelled expression, and what the
  schema declares for a column (its collation, the scale of a numeric); in the row-level security also the
  rewriting of the references of a policy, the condition of maintenance triggers and the refusal of a policy
  that reads its own table; in the trigger bodies the context crate, the translation of a single statement or
  expression and the rewriting of a query statement (in the columns that of a column option), with the parser's
  reading of a printed condition and the engine (\<open>sound_engine\<close>) as hypotheses.

  \<^bold>\<open>Not modelled.\<close> The dispatch over the whole expression type and the arms of it not named above, the
  table of function spellings, queries and the remaining statements in both directions
  (\<open>impls/translator_impls\<close>, \<open>impls/reverse_translator_impls\<close>), the inference of declared types in
  \<open>impls/shared_helpers.rs\<close>, the rewriting of query statements in trigger bodies and the rebinding of replayed
  units (\<open>history/rebind\<close>): they work on the whole query type of the syntax-tree crate and on the schema crate.
  Warnings and trait declarations hold no logic of their own.
\<close>

section \<open>The catalog of a batch\<close>

text \<open>What statement \<open>i\<close> of a batch does to the connection-local catalog.\<close>

definition catalog_run :: "(visit_node \<Rightarrow> string list) \<Rightarrow> batch_unit list \<Rightarrow> nat \<Rightarrow> catalog \<Rightarrow> catalog" where
  "catalog_run rn us i c = fst (apply_unit rn (un_emitted (us ! i)) c)"

lemma unit_effects_fold:
  "fst (unit_effects rn xs c) = fold (\<lambda>(oc, em) c. if oc = Committed then fst (apply_unit rn em c) else c) xs c"
  by (induction rn xs c rule: unit_effects.induct) (auto split: prod.splits)

lemma fold_filter_if: "fold f (filter P xs) s = fold (\<lambda>x s. if P x then f x s else s) xs s"
  by (induction xs arbitrary: s) auto

lemma batch_effects_committed:
  assumes "length (outcomes (batch_outline us)) = length us"
  shows "fst (batch_effects rn us) = fold (catalog_run rn us) (committed_indices (batch_outline us)) catalog_default"
proof -
  let ?os = "outcomes (batch_outline us)"
  have z: "zip ?os (map un_emitted us) = map (\<lambda>i. (?os ! i, un_emitted (us ! i))) [0..<length us]"
    using assms by (intro nth_equalityI) simp_all
  show ?thesis
    by (simp add: batch_effects_def unit_effects_fold z committed_indices_def fold_filter_if assms fold_map comp_def
        catalog_run_def cong: if_cong)
qed

text \<open>
  C5. The catalog the effects analysis ends with is the one a database engine that really rolls back
  would leave: for every accepted batch, running all its units on an engine with snapshots, undoing
  what a rollback undoes, gives the connection-local catalog that \<open>connection_program\<close> computes by
  skipping the undone statements.
\<close>

theorem batch_catalog_is_what_rollback_leaves:
  assumes "analyse (map un_source us) = ok (map un_disposition us)"
  shows "fst (batch_effects rn us)
    = session_batch (\<lambda>c. c) (\<lambda>s _. s) (catalog_run rn us) (map un_source us) catalog_default"
proof -
  have "session_batch (\<lambda>c. c) (\<lambda>s _. s) (catalog_run rn us) (map un_source us) catalog_default
      = fold (catalog_run rn us) (committed_indices (batch_outline us)) catalog_default"
    using assms unfolding batch_outline_def by (intro value_snapshots.batch_refines) simp
  then show ?thesis
    by (simp add: batch_effects_committed batch_outline_def outline_new_length)
qed

theorem batch_catalog_is_what_rollback_leaves_witness:
  "let name = (\<lambda>s. [Identifier (bare_ident s)]);
       create = (\<lambda>s. CreateTable (CreateTableNode (name s) True False None [] []));
       us = map (\<lambda>s. \<lparr>un_source = s, un_emitted = [s], un_disposition = Translate\<rparr>)
         [create ''a'', StartTransaction, create ''b'', Rollback False None] in
   analyse (map un_source us) = ok (map un_disposition us)
   \<and> alive_ids (session_batch (\<lambda>c. c) (\<lambda>s _. s) (catalog_run no_reads us) (map un_source us) catalog_default) = [0]"
proof -
  let ?name = "\<lambda>s. [Identifier (bare_ident s)]"
  let ?create = "\<lambda>s. CreateTable (CreateTableNode (?name s) True False None [] [])"
  let ?us = "map (\<lambda>s. \<lparr>un_source = s, un_emitted = [s], un_disposition = Translate\<rparr>)
         [?create ''a'', StartTransaction, ?create ''b'', Rollback False None]"
  have a: "analyse (map un_source ?us) = ok (map un_disposition ?us)" by code_simp
  have "alive_ids (fst (batch_effects no_reads ?us)) = [0]" by code_simp
  with a show ?thesis
    unfolding Let_def by (simp only: batch_catalog_is_what_rollback_leaves [OF a, of no_reads, symmetric])
qed

end
